(* ===== verification/Kernel_Prelude.thy ===== *)
theory Kernel_Prelude
  imports Main "HOL-Library.Word"
begin

unbundle bit_operations_syntax

text \<open>
  The vocabulary the components share: the integer types of \<open>kernel/include/types.h\<close> at their
  i386 widths, the page macros of \<open>pmm.h\<close>, the outcome of a call that may end in
  \<open>panic\<close>, the console as the stream of characters handed to the terminal, and the lemmas
  on words, counters, lists and bit sets that the component theories use.
\<close>

section \<open>Types of \<open>types.h\<close>\<close>

text \<open>
  The kernel is compiled with \<open>-m32\<close>: \<open>int\<close>, \<open>long\<close>, \<open>size_t\<close> and pointers
  are 32 bits wide. Signed integers are the same words, read by \<open>sint\<close>.
\<close>

type_synonym u8 = "8 word"
type_synonym u16 = "16 word"
type_synonym u32 = "32 word"
type_synonym i32 = "32 word"

text \<open>\<open>NULL\<close>, and \<open>(void*)-1\<close> which \<open>kbrk\<close> and \<open>vbrk\<close> return on failure.\<close>

abbreviation (input) NULL :: u32 where "NULL \<equiv> 0"
abbreviation (input) MINUS1 :: u32 where "MINUS1 \<equiv> 0xFFFFFFFF"

text \<open>
  A call that reaches \<open>panic\<close> does not return (\<open>panic_clean_registers_and_halt\<close> halts the
  CPU), a load or store the MMU cannot translate raises a page fault, which the kernel answers
  with a panic, a null pointer may be followed, and a walk round a cyclic list never ends.
\<close>

datatype fault = Panic string | PageFault u32 | NullPointer | Diverges

type_synonym 'a outcome = "fault + 'a"

text \<open>A walk, as an option whose \<open>None\<close> is "never returns", inside a call with an outcome.\<close>

definition of_walk :: "'a option \<Rightarrow> 'a outcome" where
  "of_walk w = (case w of None \<Rightarrow> Inl Diverges | Some x \<Rightarrow> Inr x)"

definition obind :: "'a outcome \<Rightarrow> ('a \<Rightarrow> 'b outcome) \<Rightarrow> 'b outcome" where
  "obind r f = (case r of Inl e \<Rightarrow> Inl e | Inr x \<Rightarrow> f x)"

lemma obind_simps [simp]: "obind (Inl e) f = Inl e" "obind (Inr x) f = f x"
  by (simp_all add: obind_def)

lemma of_walk_simps [simp]: "of_walk None = Inl Diverges" "of_walk (Some x) = Inr x"
  by (simp_all add: of_walk_def)

lemma obind_Inr_iff: "obind r f = Inr y \<longleftrightarrow> (\<exists>x. r = Inr x \<and> f x = Inr y)"
  by (cases r) simp_all

text \<open>The characters the kernel has written to the terminal, oldest first.\<close>

type_synonym console = string

section \<open>Collections of facts\<close>

named_theorems word_nat "facts that move a word expression to the naturals"
named_theorems inv_intros "invariant preservation, one rule per operation"
named_theorems frame_simps "fields an operation leaves unchanged"

section \<open>Page macros of \<open>pmm.h\<close>\<close>

abbreviation (input) PAGE_SIZE :: u32 where "PAGE_SIZE \<equiv> 4096"
abbreviation (input) PAGE_SHIFT :: nat where "PAGE_SHIFT \<equiv> 12"

definition PAGE_ALIGN_DOWN :: "u32 \<Rightarrow> u32" where
  "PAGE_ALIGN_DOWN addr = addr AND NOT (PAGE_SIZE - 1)"

definition PAGE_ALIGN_UP :: "u32 \<Rightarrow> u32" where
  "PAGE_ALIGN_UP addr = (addr + PAGE_SIZE - 1) AND NOT (PAGE_SIZE - 1)"

definition ADDR_TO_PFN :: "u32 \<Rightarrow> u32" where
  "ADDR_TO_PFN addr = drop_bit PAGE_SHIFT addr"

definition PFN_TO_ADDR :: "u32 \<Rightarrow> u32" where
  "PFN_TO_ADDR pfn = push_bit PAGE_SHIFT pfn"

section \<open>The console\<close>

definition warn :: "string \<Rightarrow> console \<Rightarrow> console" where
  "warn message c = c @ ''[WARNING] '' @ message @ [CHR 0x0A]"

section \<open>Words as naturals\<close>

lemma word_less_unat: "(a :: 'a::len word) < b \<longleftrightarrow> unat a < unat b"
  by (simp add: word_less_nat_alt)

lemma word_le_unat: "(a :: 'a::len word) \<le> b \<longleftrightarrow> unat a \<le> unat b"
  by (simp add: word_le_nat_alt)

lemma word_eq_unat: "(a :: 'a::len word) = b \<longleftrightarrow> unat a = unat b"
  by (simp add: word_unat_eq_iff)

lemma unat_u32_bound: "unat (a :: u32) < 4294967296"
proof -
  have "unat a < 2 ^ LENGTH(32)" by (rule unsigned_less)
  then show ?thesis by simp
qed

lemma unat_u8_bound: "unat (a :: u8) < 256"
proof -
  have "unat a < 2 ^ LENGTH(8)" by (rule unsigned_less)
  then show ?thesis by simp
qed

lemma unat_ucast_8_32 [simp]: "unat (ucast (x :: u8) :: u32) = unat x"
  using unat_u8_bound [of x] by (simp add: unsigned_ucast_eq take_bit_eq_mod)

lemma ucast_ucast_8 [simp]: "ucast (ucast (x :: u8) :: u32) = x"
  by (rule bit_word_eqI) (simp add: bit_simps)

lemma unat_add_mod: "unat ((a :: u32) + b) = (unat a + unat b) mod 4294967296"
  by (simp add: unat_word_ariths)

lemma unat_mult_mod: "unat ((a :: u32) * b) = (unat a * unat b) mod 4294967296"
  by (simp add: unat_word_ariths)

lemma unat_add_exact:
  "unat (a :: u32) + unat b < 4294967296 \<Longrightarrow> unat (a + b) = unat a + unat b"
  by (simp add: unat_add_mod)

lemma unat_mult_exact:
  "unat (a :: u32) * unat b < 4294967296 \<Longrightarrow> unat (a * b) = unat a * unat b"
  by (simp add: unat_mult_mod)

lemma unat_sub_exact: "(b :: u32) \<le> a \<Longrightarrow> unat (a - b) = unat a - unat b"
  by (simp add: unat_sub)

lemma unat_inc [word_nat]: "(i :: u32) < n \<Longrightarrow> unat (i + 1) = Suc (unat i)"
  using unat_u32_bound [of n] by (simp add: word_less_unat unat_add_exact)

text \<open>The measure of a counting loop \<open>for (i = ...; i < n; i++)\<close> decreases.\<close>

lemma counter_decreases: "(i :: u32) < n \<Longrightarrow> unat n - unat (i + 1) < unat n - unat i"
  by (simp add: unat_inc word_less_unat diff_less_mono2)

lemma unat_dec [word_nat]: "(i :: u32) \<noteq> 0 \<Longrightarrow> unat (i - 1) = unat i - 1"
  by (metis unat_minus_one)

lemma unat_word_of_nat_u32 [word_nat]:
  "n < 4294967296 \<Longrightarrow> unat (word_of_nat n :: u32) = n"
  by (simp add: unat_of_nat)

lemma unat_push_bit_u32: "unat (push_bit n (x :: u32)) = (unat x * 2 ^ n) mod 4294967296"
proof -
  have "unat (push_bit n x) = take_bit LENGTH(32) (push_bit n (unat x))"
    by (rule unsigned_push_bit_eq)
  then show ?thesis by (simp only: take_bit_eq_mod push_bit_eq_mult) simp
qed

lemma unat_drop_bit_u32: "unat (drop_bit n (x :: u32)) = unat x div 2 ^ n"
proof -
  have "unat (drop_bit n x) = drop_bit n (take_bit LENGTH(32) (unat x))"
    by (rule unsigned_drop_bit_eq)
  also have "take_bit LENGTH(32) (unat x) = unat x"
    using unat_u32_bound [of x] by (simp add: take_bit_eq_mod)
  finally show ?thesis by (simp only: drop_bit_eq_div)
qed

text \<open>An \<open>int32_t\<close> is negative when its top bit is set.\<close>

lemma sint_neg_bit: "sint (x :: i32) < 0 \<longleftrightarrow> bit x 31"
  by transfer (simp add: bit_take_bit_iff)

lemma bit31_unat: "bit (x :: i32) 31 \<longleftrightarrow> 2147483648 \<le> unat x"
proof -
  have "bit x 31 \<longleftrightarrow> bit (unat x) 31"
    by (simp add: bit_unsigned_iff)
  also have "\<dots> \<longleftrightarrow> odd (unat x div 2147483648)"
    by (simp add: bit_iff_odd)
  also have "unat x div 2147483648 = (if 2147483648 \<le> unat x then 1 else 0)"
    using unat_u32_bound [of x] by (simp add: div_nat_eqI)
  finally show ?thesis by simp
qed

lemma sint_neg_unat: "sint (x :: i32) < 0 \<longleftrightarrow> 2147483648 \<le> unat x"
  by (simp only: sint_neg_bit bit31_unat)

lemma sint_small: "unat (x :: i32) < 2147483648 \<Longrightarrow> sint x = int (unat x)"
proof -
  assume "unat x < 2147483648"
  then have "uint x < 2147483648" unfolding uint_nat by linarith
  then have "signed_take_bit 31 (uint x) = uint x"
    by (intro signed_take_bit_int_eq_self) (simp_all add: order_trans [OF _ uint_ge_0])
  then have "sint x = uint x" unfolding sint_uint by simp
  then show ?thesis by (simp only: uint_nat)
qed

text \<open>A signed range check \<open>0 < x && x < n\<close> is the unsigned one.\<close>

lemma signed_range_check:
  assumes "n < 2147483648"
  shows "sint (x :: i32) \<le> 0 \<or> int n \<le> sint x \<longleftrightarrow> \<not> (0 < unat x \<and> unat x < n)"
proof (cases "2147483648 \<le> unat x")
  case True
  then have "sint x < 0" by (simp add: sint_neg_unat)
  with True assms show ?thesis by simp
next
  case False
  have "int m \<le> 0 \<or> int n \<le> int m \<longleftrightarrow> \<not> (0 < m \<and> m < n)" for m
    by auto
  moreover from False have "sint x = int (unat x)" by (simp only: sint_small not_le)
  ultimately show ?thesis by (simp only:)
qed

section \<open>Alignment\<close>

text \<open>Clearing the low \<open>n\<close> bits rounds down to a multiple of \<open>2 ^ n\<close>.\<close>

lemma and_not_mask_shift:
  "(x :: u32) AND NOT (mask n) = push_bit n (drop_bit n x)"
  by (rule bit_word_eqI) (auto simp: bit_simps)

lemma page_mask: "(4095 :: u32) = mask 12"
  by (simp add: mask_eq_exp_minus_1)

lemma unat_PAGE_ALIGN_DOWN: "unat (PAGE_ALIGN_DOWN a) = unat a - unat a mod 4096"
proof -
  have "unat (PAGE_ALIGN_DOWN a) = (unat a div 4096 * 4096) mod 4294967296"
    by (simp add: PAGE_ALIGN_DOWN_def page_mask and_not_mask_shift unat_push_bit_u32
        unat_drop_bit_u32 flip: mask_eq_exp_minus_1)
  also have "\<dots> = unat a div 4096 * 4096"
    using unat_u32_bound [of a] by simp
  finally show ?thesis by (simp add: minus_mod_eq_div_mult)
qed

lemma unat_ADDR_TO_PFN [word_nat]: "unat (ADDR_TO_PFN a) = unat a div 4096"
  by (simp add: ADDR_TO_PFN_def unat_drop_bit_u32)

lemma unat_PFN_TO_ADDR [word_nat]:
  "unat f < 1048576 \<Longrightarrow> unat (PFN_TO_ADDR f) = unat f * 4096"
  by (simp add: PFN_TO_ADDR_def unat_push_bit_u32)

lemma PAGE_ALIGN_UP_eq: "PAGE_ALIGN_UP a = PAGE_ALIGN_DOWN (a + 4095)"
  by (simp add: PAGE_ALIGN_UP_def PAGE_ALIGN_DOWN_def add.commute)

lemma ADDR_TO_PFN_PFN_TO_ADDR:
  "unat f < 1048576 \<Longrightarrow> ADDR_TO_PFN (PFN_TO_ADDR f) = f"
  by (simp add: word_eq_unat word_nat)

section \<open>Searching lists\<close>

lemma find_append:
  "List.find P (xs @ ys) = (case List.find P xs of None \<Rightarrow> List.find P ys | Some x \<Rightarrow> Some x)"
  by (induction xs) auto

lemma upt_split: "a \<le> b \<Longrightarrow> b \<le> c \<Longrightarrow> [a..<c] = [a..<b] @ [b..<c]"
  using upt_add_eq_append [of a b "c - b"] by simp

lemma find_upt_Suc:
  "a < b \<Longrightarrow> List.find P [a..<b] = (if P a then Some a else List.find P [Suc a..<b])"
  by (simp add: upt_conv_Cons)

lemma find_upt_Some:
  "List.find P [a..<b] = Some n \<longleftrightarrow> a \<le> n \<and> n < b \<and> P n \<and> (\<forall>m. a \<le> m \<and> m < n \<longrightarrow> \<not> P m)"
proof (induction "b - a" arbitrary: a)
  case 0
  then show ?case by simp
next
  case (Suc k)
  then have "a < b" and "k = b - Suc a" by simp_all
  then show ?case using Suc.hyps(1) [of "Suc a"]
    by (auto simp: find_upt_Suc Suc_le_eq) (metis Suc_le_eq le_neq_implies_less)+
qed

lemma find_upt_None:
  "List.find P [a..<b] = None \<longleftrightarrow> (\<forall>n. a \<le> n \<and> n < b \<longrightarrow> \<not> P n)"
  by (auto simp: find_None_iff)

end
