(* ===== verification/PMM.thy ===== *)
theory PMM
  imports Kernel_Prelude
begin

unbundle bit_operations_syntax

text \<open>
  The physical memory manager, \<open>kernel/src/pmm.c\<close>: a bitmap with one bit per 4 KiB frame of
  the first 128 MiB (set means used) and a running count of the used frames. The multiboot
  information block and its memory map (\<open>multiboot.h\<close>) are read from memory the boot loader
  filled: the entry at an address is a parameter.
\<close>

section \<open>State and bitmap helpers\<close>

abbreviation (input) MAX_MEMORY :: u32 where "MAX_MEMORY \<equiv> 0x8000000"
abbreviation (input) MAX_FRAMES :: u32 where "MAX_FRAMES \<equiv> 32768"
abbreviation (input) BITMAP_SIZE :: nat where "BITMAP_SIZE \<equiv> 4096"

record pmm =
  frame_bitmap :: "u8 list"
  total_memory :: u32
  total_frames :: u32
  used_frames :: u32

text \<open>
  The array index is in range for every frame below \<open>MAX_FRAMES\<close>; the invariant
  \<open>pmm_inv\<close> below keeps every access of the model there.
\<close>

definition bitmap_set :: "u32 \<Rightarrow> pmm \<Rightarrow> pmm" where
  "bitmap_set frame p =
     (let i = unat (frame div 8) in
      p\<lparr>frame_bitmap := (frame_bitmap p)[i := frame_bitmap p ! i OR push_bit (unat (frame mod 8)) 1]\<rparr>)"

definition bitmap_clear :: "u32 \<Rightarrow> pmm \<Rightarrow> pmm" where
  "bitmap_clear frame p =
     (let i = unat (frame div 8) in
      p\<lparr>frame_bitmap := (frame_bitmap p)[i := frame_bitmap p ! i AND NOT (push_bit (unat (frame mod 8)) 1)]\<rparr>)"

definition bitmap_test :: "pmm \<Rightarrow> u32 \<Rightarrow> bool" where
  "bitmap_test p frame \<longleftrightarrow>
     frame_bitmap p ! unat (frame div 8) AND push_bit (unat (frame mod 8)) 1 \<noteq> 0"

text \<open>The two nested loops of \<open>bitmap_find_free\<close>: over the bits of byte \<open>i\<close>, over the bytes.\<close>

function bitmap_scan_byte :: "pmm \<Rightarrow> u32 \<Rightarrow> u32 \<Rightarrow> u32 option" where
  "bitmap_scan_byte p i j =
     (if j < 8 then
        let frame = i * 8 + j in
        if frame < total_frames p \<and> \<not> bitmap_test p frame then Some frame
        else bitmap_scan_byte p i (j + 1)
      else None)"
  by pat_completeness auto
termination
  by (relation "measure (\<lambda>(p, i, j). 8 - unat j)")
     (auto dest: counter_decreases [where n = 8, simplified])

function bitmap_find_free_from :: "pmm \<Rightarrow> u32 \<Rightarrow> i32" where
  "bitmap_find_free_from p i =
     (if i < total_frames p div 8 then
        (if frame_bitmap p ! unat i \<noteq> 0xFF then
           (case bitmap_scan_byte p i 0 of
              Some frame \<Rightarrow> frame
            | None \<Rightarrow> bitmap_find_free_from p (i + 1))
         else bitmap_find_free_from p (i + 1))
      else -1)"
  by pat_completeness auto
termination
  by (relation "measure (\<lambda>(p, i). unat (total_frames p div 8) - unat i)")
     (auto dest: counter_decreases)

definition bitmap_find_free :: "pmm \<Rightarrow> i32" where
  "bitmap_find_free p = bitmap_find_free_from p 0"

function bitmap_find_free_region_from :: "pmm \<Rightarrow> u32 \<Rightarrow> u32 \<Rightarrow> u32 \<Rightarrow> u32 \<Rightarrow> i32" where
  "bitmap_find_free_region_from p count consecutive start_frame frame =
     (if frame < total_frames p then
        (if \<not> bitmap_test p frame then
           let start_frame = (if consecutive = 0 then frame else start_frame);
               consecutive = consecutive + 1
           in if count \<le> consecutive then start_frame
              else bitmap_find_free_region_from p count consecutive start_frame (frame + 1)
         else bitmap_find_free_region_from p count 0 start_frame (frame + 1))
      else -1)"
  by pat_completeness auto
termination
  by (relation "measure (\<lambda>(p, n, c, s, f). unat (total_frames p) - unat f)")
     (auto dest: counter_decreases)

definition bitmap_find_free_region :: "pmm \<Rightarrow> u32 \<Rightarrow> i32" where
  "bitmap_find_free_region p count = bitmap_find_free_region_from p count 0 0 0"

declare bitmap_scan_byte.simps [simp del] bitmap_find_free_from.simps [simp del]
  bitmap_find_free_region_from.simps [simp del]

section \<open>Allocation and release\<close>

definition pmm_alloc_frame :: "pmm \<Rightarrow> u32 \<times> pmm" where
  "pmm_alloc_frame p =
     (let frame = bitmap_find_free p in
      if sint frame < 0 then (0, p)
      else (PFN_TO_ADDR frame,
            (bitmap_set frame p)\<lparr>used_frames := used_frames p + 1\<rparr>))"

definition pmm_free_frame :: "u32 \<Rightarrow> pmm \<Rightarrow> pmm" where
  "pmm_free_frame addr p =
     (let frame = ADDR_TO_PFN addr in
      if total_frames p \<le> frame then p
      else if bitmap_test p frame
      then (bitmap_clear frame p)\<lparr>used_frames := used_frames p - 1\<rparr>
      else p)"

function bitmap_set_range :: "u32 \<Rightarrow> u32 \<Rightarrow> u32 \<Rightarrow> pmm \<Rightarrow> pmm" where
  "bitmap_set_range start count i p =
     (if i < count then bitmap_set_range start count (i + 1) (bitmap_set (start + i) p) else p)"
  by pat_completeness auto
termination
  by (relation "measure (\<lambda>(s, n, i, p). unat n - unat i)") (auto dest: counter_decreases)

definition pmm_alloc_frames :: "u32 \<Rightarrow> pmm \<Rightarrow> u32 \<times> pmm" where
  "pmm_alloc_frames count p =
     (if count = 0 then (0, p)
      else let start = bitmap_find_free_region p count in
        if sint start < 0 then (0, p)
        else (PFN_TO_ADDR start,
              (bitmap_set_range start count 0 p)\<lparr>used_frames := used_frames p + count\<rparr>))"

function pmm_free_frames_from :: "u32 \<Rightarrow> u32 \<Rightarrow> u32 \<Rightarrow> pmm \<Rightarrow> pmm" where
  "pmm_free_frames_from frame count i p =
     (if i < count then
        pmm_free_frames_from frame count (i + 1)
          (if frame + i < total_frames p \<and> bitmap_test p (frame + i)
           then (bitmap_clear (frame + i) p)\<lparr>used_frames := used_frames p - 1\<rparr>
           else p)
      else p)"
  by pat_completeness auto
termination
  by (relation "measure (\<lambda>(f, n, i, p). unat n - unat i)") (auto dest: counter_decreases)

definition pmm_free_frames :: "u32 \<Rightarrow> u32 \<Rightarrow> pmm \<Rightarrow> pmm" where
  "pmm_free_frames addr count p = pmm_free_frames_from (ADDR_TO_PFN addr) count 0 p"

definition pmm_is_frame_allocated :: "pmm \<Rightarrow> u32 \<Rightarrow> bool" where
  "pmm_is_frame_allocated p addr =
     (let frame = ADDR_TO_PFN addr in
      if total_frames p \<le> frame then True else bitmap_test p frame)"

definition pmm_mark_frame_used :: "u32 \<Rightarrow> pmm \<Rightarrow> pmm" where
  "pmm_mark_frame_used addr p =
     (let frame = ADDR_TO_PFN addr in
      if frame < total_frames p \<and> \<not> bitmap_test p frame
      then (bitmap_set frame p)\<lparr>used_frames := used_frames p + 1\<rparr>
      else p)"

section \<open>Regions\<close>

function mark_used_from :: "u32 \<Rightarrow> u32 \<Rightarrow> pmm \<Rightarrow> pmm" where
  "mark_used_from frame end_frame p =
     (if frame < end_frame \<and> frame < total_frames p then
        mark_used_from (frame + 1) end_frame
          (if \<not> bitmap_test p frame
           then (bitmap_set frame p)\<lparr>used_frames := used_frames p + 1\<rparr> else p)
      else p)"
  by pat_completeness auto
termination
  by (relation "measure (\<lambda>(f, e, p). unat e - unat f)") (auto dest: counter_decreases)

function mark_free_from :: "u32 \<Rightarrow> u32 \<Rightarrow> pmm \<Rightarrow> pmm" where
  "mark_free_from frame end_frame p =
     (if frame < end_frame \<and> frame < total_frames p then
        mark_free_from (frame + 1) end_frame
          (if bitmap_test p frame
           then (bitmap_clear frame p)\<lparr>used_frames := used_frames p - 1\<rparr> else p)
      else p)"
  by pat_completeness auto
termination
  by (relation "measure (\<lambda>(f, e, p). unat e - unat f)") (auto dest: counter_decreases)

declare bitmap_set_range.simps [simp del] pmm_free_frames_from.simps [simp del]
  mark_used_from.simps [simp del] mark_free_from.simps [simp del]

definition pmm_mark_region_used :: "u32 \<Rightarrow> u32 \<Rightarrow> pmm \<Rightarrow> pmm" where
  "pmm_mark_region_used base len p =
     mark_used_from (ADDR_TO_PFN base) (ADDR_TO_PFN (PAGE_ALIGN_UP (base + len))) p"

definition pmm_mark_region_free :: "u32 \<Rightarrow> u32 \<Rightarrow> pmm \<Rightarrow> pmm" where
  "pmm_mark_region_free base len p =
     mark_free_from (ADDR_TO_PFN (PAGE_ALIGN_UP base)) (ADDR_TO_PFN (base + len)) p"

section \<open>Statistics\<close>

record pmm_stats =
  st_total_frames :: u32
  st_used_frames :: u32
  st_free_frames :: u32
  st_total_memory :: u32
  st_free_memory :: u32

definition pmm_get_stats :: "pmm \<Rightarrow> pmm_stats" where
  "pmm_get_stats p =
     \<lparr>st_total_frames = total_frames p, st_used_frames = used_frames p,
      st_free_frames = total_frames p - used_frames p,
      st_total_memory = total_memory p,
      st_free_memory = (total_frames p - used_frames p) * PAGE_SIZE\<rparr>"

definition pmm_get_total_memory :: "pmm \<Rightarrow> u32" where
  "pmm_get_total_memory p = total_memory p"

definition pmm_get_free_memory :: "pmm \<Rightarrow> u32" where
  "pmm_get_free_memory p = (total_frames p - used_frames p) * PAGE_SIZE"

section \<open>Initialisation from the multiboot information\<close>

text \<open>The fields of \<open>multiboot_info_t\<close> and \<open>multiboot_mmap_entry_t\<close> that the kernel reads.\<close>

record multiboot_info =
  mb_flags :: u32
  mem_upper :: u32
  mmap_length :: u32
  mmap_addr :: u32

record multiboot_mmap_entry =
  mm_size :: u32
  addr_low :: u32
  addr_high :: u32
  len_low :: u32
  len_high :: u32
  mm_type :: u32

abbreviation (input) MULTIBOOT_INFO_MEMORY :: u32 where "MULTIBOOT_INFO_MEMORY \<equiv> 1"
abbreviation (input) MULTIBOOT_INFO_MEM_MAP :: u32 where "MULTIBOOT_INFO_MEM_MAP \<equiv> 0x40"
abbreviation (input) MULTIBOOT_MEMORY_AVAILABLE :: u32 where "MULTIBOOT_MEMORY_AVAILABLE \<equiv> 1"

definition MMAP_ENTRY_NEXT :: "(u32 \<Rightarrow> multiboot_mmap_entry) \<Rightarrow> u32 \<Rightarrow> u32" where
  "MMAP_ENTRY_NEXT entry_at mmap = mmap + (mm_size (entry_at mmap) + 4)"

text \<open>
  The \<open>while (mmap < mmap_end)\<close> loop advances by the size each entry announces. A map whose
  entry announces \<open>size = -4\<close> never ends, so the loop is partial: \<open>None\<close> is "does not
  return".
\<close>

partial_function (option) pmm_parse_mmap ::
    "(u32 \<Rightarrow> multiboot_mmap_entry) \<Rightarrow> u32 \<Rightarrow> u32 \<Rightarrow> pmm \<Rightarrow> pmm option" where
  "pmm_parse_mmap entry_at mmap mmap_end p =
     (if mmap < mmap_end then
        let p' = (if mm_type (entry_at mmap) = MULTIBOOT_MEMORY_AVAILABLE
                  then pmm_mark_region_free (addr_low (entry_at mmap)) (len_low (entry_at mmap)) p
                  else p)
        in pmm_parse_mmap entry_at (MMAP_ENTRY_NEXT entry_at mmap) mmap_end p'
      else Some p)"

definition multiboot_get_total_memory :: "multiboot_info \<Rightarrow> u32" where
  "multiboot_get_total_memory mbi = (mem_upper mbi + 1024) * 1024"

definition pmm_init_total_memory :: "multiboot_info \<Rightarrow> u32" where
  "pmm_init_total_memory mbi =
     (if mb_flags mbi AND MULTIBOOT_INFO_MEMORY \<noteq> 0 then
        let total = (mem_upper mbi + 1024) * 1024 in
        if MAX_MEMORY < total then MAX_MEMORY else total
      else 16 * 1024 * 1024)"

text \<open>
  \<open>kernel_start\<close> and \<open>kernel_end\<close> are linker symbols. The state before the call is not
  read: every static variable is assigned first.
\<close>

definition pmm_init ::
    "u32 \<Rightarrow> u32 \<Rightarrow> (u32 \<Rightarrow> multiboot_mmap_entry) \<Rightarrow> multiboot_info \<Rightarrow> pmm option" where
  "pmm_init kernel_start kernel_end entry_at mbi =
     (let tm = pmm_init_total_memory mbi;
          p0 = \<lparr>frame_bitmap = replicate BITMAP_SIZE 0xFF, total_memory = tm,
                total_frames = tm div PAGE_SIZE, used_frames = tm div PAGE_SIZE\<rparr>
      in case (if mb_flags mbi AND MULTIBOOT_INFO_MEM_MAP \<noteq> 0
               then pmm_parse_mmap entry_at (mmap_addr mbi) (mmap_addr mbi + mmap_length mbi) p0
               else Some (pmm_mark_region_free 0x100000 (tm - 0x100000) p0)) of
           None \<Rightarrow> None
         | Some p1 \<Rightarrow>
             let p2 = pmm_mark_region_used 0 0x100000 p1;
                 p3 = pmm_mark_region_used kernel_start (kernel_end - kernel_start) p2
             in Some (pmm_mark_region_used kernel_end (64 * 1024) p3))"

section \<open>The abstract view: the set of used frames\<close>

text \<open>
  The component promises a set of frame numbers: a frame below \<open>total_frames\<close> is used or
  free. The bitmap and the counter are its representation.
\<close>

definition frame_used :: "pmm \<Rightarrow> nat \<Rightarrow> bool" where
  "frame_used p n \<longleftrightarrow> bit (frame_bitmap p ! (n div 8)) (n mod 8)"

definition used_set :: "pmm \<Rightarrow> nat set" where
  "used_set p = set (filter (frame_used p) [0..<unat (total_frames p)])"

definition free_set :: "pmm \<Rightarrow> nat set" where
  "free_set p = {0..<unat (total_frames p)} - used_set p"

text \<open>
  The representation invariant: the bitmap has its static size, the frame count fits it and is
  the memory size in pages, and \<open>used_frames\<close> counts the set bits below \<open>total_frames\<close>.
\<close>

definition pmm_inv :: "pmm \<Rightarrow> bool" where
  "pmm_inv p \<longleftrightarrow>
     length (frame_bitmap p) = BITMAP_SIZE \<and>
     total_frames p \<le> MAX_FRAMES \<and>
     total_memory p div PAGE_SIZE = total_frames p \<and>
     unat (used_frames p) = card (used_set p)"

subsection \<open>Bits of the bitmap\<close>

lemma in_used_set: "n \<in> used_set p \<longleftrightarrow> n < unat (total_frames p) \<and> frame_used p n"
  by (auto simp: used_set_def)

lemma in_free_set: "n \<in> free_set p \<longleftrightarrow> n < unat (total_frames p) \<and> \<not> frame_used p n"
  by (auto simp: free_set_def in_used_set)

lemma finite_used_set [simp]: "finite (used_set p)"
  by (simp add: used_set_def)

lemma byte_mask_test: "n < 8 \<Longrightarrow> (x :: u8) AND push_bit n 1 \<noteq> 0 \<longleftrightarrow> bit x n"
  by (simp add: and_exp_eq_0_iff_not_bit)

lemma bitmap_test_used: "bitmap_test p f \<longleftrightarrow> frame_used p (unat f)"
  by (simp add: bitmap_test_def frame_used_def byte_mask_test unat_div unat_mod
      del: push_bit_of_1)

lemma frame_used_set:
  assumes "unat f div 8 < length (frame_bitmap p)"
  shows "frame_used (bitmap_set f p) n \<longleftrightarrow> n = unat f \<or> frame_used p n"
proof (cases "n div 8 = unat f div 8")
  case True
  then have "n = unat f \<longleftrightarrow> n mod 8 = unat f mod 8"
    by (metis mult_div_mod_eq)
  with True assms show ?thesis
    by (auto simp: frame_used_def bitmap_set_def Let_def unat_div unat_mod bit_simps)
next
  case False
  then have "n \<noteq> unat f" by auto
  with False show ?thesis
    by (simp add: frame_used_def bitmap_set_def Let_def unat_div)
qed

lemma frame_used_clear:
  assumes "unat f div 8 < length (frame_bitmap p)"
  shows "frame_used (bitmap_clear f p) n \<longleftrightarrow> n \<noteq> unat f \<and> frame_used p n"
proof (cases "n div 8 = unat f div 8")
  case True
  then have "n = unat f \<longleftrightarrow> n mod 8 = unat f mod 8"
    by (metis mult_div_mod_eq)
  with True assms show ?thesis
    by (auto simp: frame_used_def bitmap_clear_def Let_def unat_div unat_mod bit_simps)
next
  case False
  then have "n \<noteq> unat f" by auto
  with False show ?thesis
    by (simp add: frame_used_def bitmap_clear_def Let_def unat_div)
qed

lemma bitmap_set_frame [frame_simps, simp]:
  "total_frames (bitmap_set f p) = total_frames p"
  "total_memory (bitmap_set f p) = total_memory p"
  "used_frames (bitmap_set f p) = used_frames p"
  "length (frame_bitmap (bitmap_set f p)) = length (frame_bitmap p)"
  by (simp_all add: bitmap_set_def Let_def)

lemma bitmap_clear_frame [frame_simps, simp]:
  "total_frames (bitmap_clear f p) = total_frames p"
  "total_memory (bitmap_clear f p) = total_memory p"
  "used_frames (bitmap_clear f p) = used_frames p"
  "length (frame_bitmap (bitmap_clear f p)) = length (frame_bitmap p)"
  by (simp_all add: bitmap_clear_def Let_def)

lemma used_frames_update_views [simp]:
  "frame_used (p\<lparr>used_frames := u\<rparr>) = frame_used p"
  "used_set (p\<lparr>used_frames := u\<rparr>) = used_set p"
  "free_set (p\<lparr>used_frames := u\<rparr>) = free_set p"
  by (auto simp: frame_used_def used_set_def free_set_def fun_eq_iff)

lemma pmm_inv_range:
  assumes "pmm_inv p" and "unat f < unat (total_frames p)"
  shows "unat f div 8 < length (frame_bitmap p)"
  using assms by (auto simp: pmm_inv_def word_le_unat less_mult_imp_div_less)

subsection \<open>One frame changes hands\<close>

lemma claim_frame:
  assumes inv: "pmm_inv p" and f: "unat f < unat (total_frames p)"
    and free: "\<not> frame_used p (unat f)"
  defines "q \<equiv> (bitmap_set f p)\<lparr>used_frames := used_frames p + 1\<rparr>"
  shows "pmm_inv q" and "used_set q = insert (unat f) (used_set p)"
proof -
  have set: "used_set q = insert (unat f) (used_set p)"
    using f frame_used_set [OF pmm_inv_range [OF inv f]]
    by (auto simp: q_def used_set_def)
  have fresh: "unat f \<notin> used_set p"
    using free by (simp add: in_used_set)
  have "used_set p \<subset> {0..<unat (total_frames p)}"
    using fresh f by (auto simp: in_used_set)
  then have "card (used_set p) < card {0..<unat (total_frames p)}"
    by (intro psubset_card_mono) simp_all
  then have "used_frames p < total_frames p"
    using inv by (simp add: pmm_inv_def word_less_unat)
  then have "unat (used_frames p + 1) = Suc (unat (used_frames p))"
    by (rule unat_inc)
  then show "pmm_inv q"
    using inv set fresh by (simp add: pmm_inv_def q_def)
  show "used_set q = insert (unat f) (used_set p)" by (rule set)
qed

lemma release_frame:
  assumes inv: "pmm_inv p" and f: "unat f < unat (total_frames p)"
    and used: "frame_used p (unat f)"
  defines "q \<equiv> (bitmap_clear f p)\<lparr>used_frames := used_frames p - 1\<rparr>"
  shows "pmm_inv q" and "used_set q = used_set p - {unat f}"
proof -
  have set: "used_set q = used_set p - {unat f}"
    using f frame_used_clear [OF pmm_inv_range [OF inv f]]
    by (auto simp: q_def used_set_def)
  have mem: "unat f \<in> used_set p"
    using used f by (simp add: in_used_set)
  then have "card (used_set p) \<noteq> 0" by auto
  then have "used_frames p \<noteq> 0"
    using inv by (auto simp: pmm_inv_def)
  then have "unat (used_frames p - 1) = unat (used_frames p) - 1"
    by (rule unat_dec)
  then show "pmm_inv q"
    using inv set mem by (simp add: pmm_inv_def q_def)
  show "used_set q = used_set p - {unat f}" by (rule set)
qed

subsection \<open>The search loops\<close>

text \<open>
  The reference search: the first frame, in the frames that fill whole bitmap bytes, whose bit is
  clear.
\<close>

definition first_free :: "pmm \<Rightarrow> nat option" where
  "first_free p = List.find (\<lambda>n. \<not> frame_used p n) [0..<8 * (unat (total_frames p) div 8)]"

lemma frame_of_byte:
  assumes "unat (i :: u32) < 4096" and "unat (j :: u32) < 8"
  shows "unat (i * 8 + j) = unat i * 8 + unat j"
  using assms by (simp add: unat_add_mod unat_mult_mod)

lemma whole_byte_frames:
  assumes "pmm_inv p" and "unat (i :: u32) < unat (total_frames p) div 8"
  shows "unat i < 4096" and "unat i * 8 + 8 \<le> unat (total_frames p)"
  using assms by (auto simp: pmm_inv_def word_le_unat)

lemma scan_byte_find:
  "\<lbrakk>pmm_inv p; unat i < unat (total_frames p) div 8; unat j \<le> 8\<rbrakk> \<Longrightarrow>
   bitmap_scan_byte p i j =
     map_option word_of_nat
       (List.find (\<lambda>n. \<not> frame_used p n) [unat i * 8 + unat j..<unat i * 8 + 8])"
proof (induction p i j rule: bitmap_scan_byte.induct)
  case (1 p i j)
  note bounds = whole_byte_frames [OF "1.prems"(1,2)]
  show ?case
  proof (cases "j < 8")
    case True
    then have j: "unat j < 8" by (simp add: word_less_unat)
    have frame: "unat (i * 8 + j) = unat i * 8 + unat j"
      by (rule frame_of_byte [OF bounds(1) j])
    have "i * 8 + j < total_frames p"
      using bounds j by (simp add: word_less_unat frame)
    moreover have "word_of_nat (unat i * 8 + unat j) = i * 8 + j"
      by simp
    moreover have "unat (j + 1) = Suc (unat j)"
      using True by (rule unat_inc)
    ultimately show ?thesis
      using True j "1.IH" [OF True refl] "1.prems"
      by (auto simp: bitmap_scan_byte.simps [of p i j] bitmap_test_used frame find_upt_Suc Let_def)
  next
    case False
    with "1.prems"(3) show ?thesis
      by (simp add: bitmap_scan_byte.simps [of p i j] word_less_unat)
  qed
qed

lemma full_byte_used:
  "frame_bitmap p ! k = 0xFF \<Longrightarrow> n div 8 = k \<Longrightarrow> frame_used p n"
proof -
  assume "frame_bitmap p ! k = 0xFF" and "n div 8 = k"
  moreover have "bit (0xFF :: u8) (n mod 8)"
  proof -
    have "(0xFF :: u8) = mask 8" by (simp add: mask_eq_exp_minus_1)
    then show ?thesis by (simp only: bit_mask_iff) simp
  qed
  ultimately show ?thesis by (simp add: frame_used_def)
qed

lemma find_free_from_find:
  "\<lbrakk>pmm_inv p; unat i \<le> unat (total_frames p) div 8\<rbrakk> \<Longrightarrow>
   bitmap_find_free_from p i =
     (case List.find (\<lambda>n. \<not> frame_used p n) [unat i * 8..<8 * (unat (total_frames p) div 8)] of
        None \<Rightarrow> -1 | Some n \<Rightarrow> word_of_nat n)"
proof (induction p i rule: bitmap_find_free_from.induct)
  case (1 p i)
  let ?N = "8 * (unat (total_frames p) div 8)"
  let ?P = "\<lambda>n. \<not> frame_used p n"
  show ?case
  proof (cases "i < total_frames p div 8")
    case True
    then have i: "unat i < unat (total_frames p) div 8"
      by (simp add: word_less_unat unat_div)
    have next_i: "unat (i + 1) = Suc (unat i)"
      using True by (rule unat_inc)
    have split: "[unat i * 8..<?N] = [unat i * 8..<unat i * 8 + 8] @ [unat (i + 1) * 8..<?N]"
    proof -
      have "unat (i + 1) * 8 = unat i * 8 + 8" by (simp add: next_i)
      with i show ?thesis
        using upt_split [of "unat i * 8" "unat i * 8 + 8" ?N] by simp
    qed
    have skip: "List.find ?P [unat i * 8..<unat i * 8 + 8] = None"
      if "frame_bitmap p ! unat i = 0xFF"
      using that full_byte_used [OF that] by (auto simp: find_upt_None)
    have scan: "bitmap_scan_byte p i 0 =
        map_option word_of_nat (List.find ?P [unat i * 8..<unat i * 8 + 8])"
      using scan_byte_find [OF "1.prems"(1) i, of 0] by simp
    have rest: "unat (i + 1) \<le> unat (total_frames p) div 8"
      using i by (simp add: next_i)
    show ?thesis
    proof (cases "frame_bitmap p ! unat i = 0xFF")
      case full: True
      with True show ?thesis
        unfolding split find_append using "1.IH"(2) [OF True _ "1.prems"(1) rest]
        by (simp add: bitmap_find_free_from.simps [of p i] skip)
    next
      case False
      show ?thesis
      proof (cases "List.find ?P [unat i * 8..<unat i * 8 + 8]")
        case None
        with True False show ?thesis
          unfolding split find_append using "1.IH"(1) [OF True False _ "1.prems"(1) rest]
          by (simp add: bitmap_find_free_from.simps [of p i] scan)
      next
        case (Some n)
        with True False show ?thesis
          unfolding split find_append
          by (simp add: bitmap_find_free_from.simps [of p i] scan)
      qed
    qed
  next
    case False
    then show ?thesis
      by (simp add: bitmap_find_free_from.simps [of p i] word_less_unat unat_div)
  qed
qed

lemma find_free_first_free:
  "pmm_inv p \<Longrightarrow>
   bitmap_find_free p = (case first_free p of None \<Rightarrow> -1 | Some n \<Rightarrow> word_of_nat n)"
  using find_free_from_find [of p 0] by (simp add: bitmap_find_free_def first_free_def)

text \<open>The reference for the contiguous search: the lowest start of a run of \<open>n\<close> free frames.\<close>

definition free_run :: "pmm \<Rightarrow> nat \<Rightarrow> nat \<Rightarrow> bool" where
  "free_run p n s \<longleftrightarrow>
     s + n \<le> unat (total_frames p) \<and> list_all (\<lambda>k. \<not> frame_used p k) [s..<s + n]"

definition first_run :: "pmm \<Rightarrow> nat \<Rightarrow> nat option" where
  "first_run p n = List.find (free_run p n) [0..<unat (total_frames p)]"

lemma free_run_iff:
  "free_run p n s \<longleftrightarrow>
     s + n \<le> unat (total_frames p) \<and> (\<forall>k. s \<le> k \<and> k < s + n \<longrightarrow> \<not> frame_used p k)"
  by (auto simp: free_run_def list_all_iff)

text \<open>What the loop of \<open>bitmap_find_free_region\<close> knows when it looks at frame \<open>f\<close>.\<close>

definition region_scan_inv :: "pmm \<Rightarrow> nat \<Rightarrow> nat \<Rightarrow> nat \<Rightarrow> nat \<Rightarrow> bool" where
  "region_scan_inv p n c s f \<longleftrightarrow>
     c < n \<and> c \<le> f \<and> f \<le> unat (total_frames p) \<and> (c = 0 \<or> s = f - c) \<and>
     (\<forall>k. f - c \<le> k \<and> k < f \<longrightarrow> \<not> frame_used p k) \<and>
     (\<forall>s'. s' < f - c \<longrightarrow> \<not> free_run p n s')"

lemma region_scan_end:
  assumes "region_scan_inv p n c s f" and "f = unat (total_frames p)"
  shows "first_run p n = None"
proof -
  have "\<not> free_run p n s'" for s'
  proof (cases "s' < f - c")
    case True
    with assms show ?thesis by (simp add: region_scan_inv_def)
  next
    case False
    with assms show ?thesis by (auto simp: region_scan_inv_def free_run_iff)
  qed
  then show ?thesis by (simp add: first_run_def find_upt_None)
qed

lemma region_scan_used:
  assumes "region_scan_inv p n c s f" and "f < unat (total_frames p)" and "frame_used p f"
  shows "region_scan_inv p n 0 s (Suc f)"
proof -
  have "\<not> free_run p n s'" if "s' < Suc f" for s'
  proof (cases "s' < f - c")
    case True
    with assms show ?thesis by (simp add: region_scan_inv_def)
  next
    case False
    then have "s' \<le> f" and "f < s' + n"
      using that assms(1) by (auto simp: region_scan_inv_def)
    with assms(3) show ?thesis by (auto simp: free_run_iff)
  qed
  with assms show ?thesis by (auto simp: region_scan_inv_def)
qed

lemma region_scan_free:
  assumes "region_scan_inv p n c s f" and "f < unat (total_frames p)" and "\<not> frame_used p f"
  defines "s' \<equiv> (if c = 0 then f else s)"
  shows "Suc c < n \<Longrightarrow> region_scan_inv p n (Suc c) s' (Suc f)"
    and "n \<le> Suc c \<Longrightarrow> first_run p n = Some s'"
proof -
  have free: "\<not> frame_used p k" if "f - c \<le> k" and "k < Suc f" for k
    using that assms by (cases "k = f") (auto simp: region_scan_inv_def)
  have s': "s' = f - c"
    using assms by (auto simp: region_scan_inv_def)
  show "region_scan_inv p n (Suc c) s' (Suc f)" if "Suc c < n"
    using that assms(1,2) free s' by (auto simp: region_scan_inv_def)
  show "first_run p n = Some s'" if "n \<le> Suc c"
  proof -
    from that assms(1) have n: "n = Suc c" by (simp add: region_scan_inv_def)
    have "free_run p n s'"
      using assms(1,2) free s' n by (auto simp: free_run_iff region_scan_inv_def)
    moreover have "\<not> free_run p n m" if "m < s'" for m
      using that assms(1) s' by (simp add: region_scan_inv_def)
    ultimately show ?thesis
      using assms(2) s' by (auto simp: first_run_def find_upt_Some)
  qed
qed

lemma find_free_region_from_first_run:
  "region_scan_inv p (unat n) (unat c) (unat s) (unat f) \<Longrightarrow>
   bitmap_find_free_region_from p n c s f =
     (case first_run p (unat n) of None \<Rightarrow> -1 | Some k \<Rightarrow> word_of_nat k)"
proof (induction p n c s f rule: bitmap_find_free_region_from.induct)
  case (1 p n c s f)
  show ?case
  proof (cases "f < total_frames p")
    case True
    then have f: "unat f < unat (total_frames p)" by (simp add: word_less_unat)
    have next_f: "unat (f + 1) = Suc (unat f)" using True by (rule unat_inc)
    have "c < n" using "1.prems" by (simp add: region_scan_inv_def word_less_unat)
    then have next_c: "unat (c + 1) = Suc (unat c)" by (rule unat_inc)
    have start: "unat (if c = 0 then f else s) = (if unat c = 0 then unat f else unat s)"
      by (simp add: unat_eq_0)
    show ?thesis
    proof (cases "frame_used p (unat f)")
      case used: True
      have "region_scan_inv p (unat n) (unat 0) (unat s) (unat (f + 1))"
        using region_scan_used [OF "1.prems" f used] by (simp add: next_f)
      with True used show ?thesis
        using "1.IH"(2) [OF True] by (simp add: bitmap_find_free_region_from.simps [of p n c s f]
            bitmap_test_used)
    next
      case free: False
      note step = region_scan_free [OF "1.prems" f free]
      show ?thesis
      proof (cases "n \<le> c + 1")
        case True
        then have "unat n \<le> Suc (unat c)" by (simp add: word_le_unat next_c)
        with \<open>f < total_frames p\<close> True free show ?thesis
          by (simp add: bitmap_find_free_region_from.simps [of p n c s f] bitmap_test_used Let_def
              step(2) flip: start)
      next
        case False
        then have "Suc (unat c) < unat n" by (simp add: word_le_unat next_c)
        from step(1) [OF this] have "region_scan_inv p (unat n) (unat (c + 1))
            (unat (if c = 0 then f else s)) (unat (f + 1))"
          by (simp only: start next_c next_f)
        with \<open>f < total_frames p\<close> False free show ?thesis
          using "1.IH"(1) [OF True _ refl refl]
          by (simp add: bitmap_find_free_region_from.simps [of p n c s f] bitmap_test_used Let_def)
      qed
    qed
  next
    case False
    then have "unat f = unat (total_frames p)"
      using "1.prems" by (simp add: region_scan_inv_def word_less_unat)
    with "1.prems" have "first_run p (unat n) = None" by (rule region_scan_end)
    with False show ?thesis
      by (simp add: bitmap_find_free_region_from.simps [of p n c s f])
  qed
qed

lemma find_free_region_first_run:
  assumes "n \<noteq> 0"
  shows "bitmap_find_free_region p n =
    (case first_run p (unat n) of None \<Rightarrow> -1 | Some k \<Rightarrow> word_of_nat k)"
proof -
  have "region_scan_inv p (unat n) 0 0 0"
    using assms by (simp add: region_scan_inv_def unat_gt_0)
  then show ?thesis
    using find_free_region_from_first_run [of p n 0 0 0] by (simp add: bitmap_find_free_region_def)
qed

section \<open>What every operation does to the set of used frames\<close>

lemma pmm_inv_total: "pmm_inv p \<Longrightarrow> unat (total_frames p) \<le> 32768"
  by (simp add: pmm_inv_def word_le_unat)

lemma first_free_Some:
  "first_free p = Some n \<longleftrightarrow>
     n < 8 * (unat (total_frames p) div 8) \<and> n \<in> free_set p \<and> (\<forall>m<n. m \<notin> free_set p)"
  by (auto simp: first_free_def find_upt_Some in_free_set)

lemma first_free_None:
  "first_free p = None \<longleftrightarrow> (\<forall>n \<in> free_set p. 8 * (unat (total_frames p) div 8) \<le> n)"
  by (auto simp: first_free_def find_upt_None in_free_set not_less [symmetric])

lemma word_of_nat_not_neg: "n < 2147483648 \<Longrightarrow> \<not> sint (word_of_nat n :: i32) < 0"
  by (simp add: sint_neg_unat word_nat)

lemma pmm_alloc_frame_None:
  "pmm_inv p \<Longrightarrow> first_free p = None \<Longrightarrow> pmm_alloc_frame p = (0, p)"
  by (simp add: pmm_alloc_frame_def find_free_first_free)

lemma pmm_alloc_frame_Some:
  assumes inv: "pmm_inv p" and n: "first_free p = Some n"
  shows "unat (fst (pmm_alloc_frame p)) = n * 4096"
    and "pmm_inv (snd (pmm_alloc_frame p))"
    and "used_set (snd (pmm_alloc_frame p)) = insert n (used_set p)"
proof -
  have free: "n < unat (total_frames p)" "\<not> frame_used p n"
    using n by (auto simp: first_free_Some in_free_set)
  have small: "n < 32768"
    using free(1) pmm_inv_total [OF inv] by simp
  have nat: "unat (word_of_nat n :: u32) = n"
    using small by (simp add: word_nat)
  have alloc: "pmm_alloc_frame p =
      (PFN_TO_ADDR (word_of_nat n),
       (bitmap_set (word_of_nat n) p)\<lparr>used_frames := used_frames p + 1\<rparr>)"
    using small by (simp add: pmm_alloc_frame_def find_free_first_free [OF inv] n Let_def
        word_of_nat_not_neg)
  show "unat (fst (pmm_alloc_frame p)) = n * 4096"
    using small by (simp add: alloc unat_PFN_TO_ADDR nat)
  show "pmm_inv (snd (pmm_alloc_frame p))"
    and "used_set (snd (pmm_alloc_frame p)) = insert n (used_set p)"
    using claim_frame [OF inv, of "word_of_nat n"] free by (simp_all add: alloc nat)
qed

lemma pmm_free_frame_effect:
  assumes inv: "pmm_inv p"
  shows "pmm_inv (pmm_free_frame addr p)"
    and "used_set (pmm_free_frame addr p) = used_set p - {unat addr div 4096}"
  using inv release_frame [OF inv, of "ADDR_TO_PFN addr"]
  by (auto simp: pmm_free_frame_def Let_def bitmap_test_used word_le_unat word_nat in_used_set
      not_le)

lemma pmm_mark_frame_used_effect:
  assumes inv: "pmm_inv p"
  shows "pmm_inv (pmm_mark_frame_used addr p)"
    and "used_set (pmm_mark_frame_used addr p) =
      used_set p \<union> ({unat addr div 4096} \<inter> {0..<unat (total_frames p)})"
  using inv claim_frame [OF inv, of "ADDR_TO_PFN addr"]
  by (auto simp: pmm_mark_frame_used_def Let_def bitmap_test_used word_less_unat word_nat
      in_used_set)

lemma mark_used_step:
  assumes "pmm_inv p" and "frame < total_frames p"
  defines "q \<equiv> (if \<not> bitmap_test p frame
                then (bitmap_set frame p)\<lparr>used_frames := used_frames p + 1\<rparr> else p)"
  shows "pmm_inv q" "used_set q = insert (unat frame) (used_set p)"
    "total_frames q = total_frames p"
  using assms claim_frame [of p frame]
  by (auto simp: bitmap_test_used word_less_unat in_used_set)

lemma mark_free_step:
  assumes "pmm_inv p" and "frame < total_frames p"
  defines "q \<equiv> (if bitmap_test p frame
                then (bitmap_clear frame p)\<lparr>used_frames := used_frames p - 1\<rparr> else p)"
  shows "pmm_inv q" "used_set q = used_set p - {unat frame}"
    "total_frames q = total_frames p"
  using assms release_frame [of p frame]
  by (auto simp: bitmap_test_used word_less_unat in_used_set)

lemma mark_used_from_effect:
  "pmm_inv p \<Longrightarrow>
     pmm_inv (mark_used_from f e p) \<and>
     total_frames (mark_used_from f e p) = total_frames p \<and>
     used_set (mark_used_from f e p) =
       used_set p \<union> {unat f..<min (unat e) (unat (total_frames p))}"
proof (induction f e p rule: mark_used_from.induct)
  case (1 f e p)
  show ?case
  proof (cases "f < e \<and> f < total_frames p")
    case True
    note step = mark_used_step [OF "1.prems" conjunct2 [OF True]]
    have "unat (f + 1) = Suc (unat f)" using True by (auto intro: unat_inc)
    moreover have "{unat f..<min (unat e) (unat (total_frames p))} =
        insert (unat f) {Suc (unat f)..<min (unat e) (unat (total_frames p))}"
      using True by (auto simp: word_less_unat)
    ultimately show ?thesis
      using "1.IH" [OF True step(1)] True
      by (simp add: mark_used_from.simps [of f e p] step(2,3))
  next
    case False
    with "1.prems" show ?thesis
      by (auto simp: mark_used_from.simps [of f e p] word_less_unat)
  qed
qed

lemma mark_free_from_effect:
  "pmm_inv p \<Longrightarrow>
     pmm_inv (mark_free_from f e p) \<and>
     total_frames (mark_free_from f e p) = total_frames p \<and>
     used_set (mark_free_from f e p) = used_set p - {unat f..<unat e}"
proof (induction f e p rule: mark_free_from.induct)
  case (1 f e p)
  show ?case
  proof (cases "f < e \<and> f < total_frames p")
    case True
    note step = mark_free_step [OF "1.prems" conjunct2 [OF True]]
    have "unat (f + 1) = Suc (unat f)" using True by (auto intro: unat_inc)
    moreover have "used_set p - {unat f..<unat e} =
        used_set p - {unat f} - {Suc (unat f)..<unat e}"
      using True by (auto simp: word_less_unat)
    ultimately show ?thesis
      using "1.IH" [OF True step(1)] True
      by (simp add: mark_free_from.simps [of f e p] step(2,3))
  next
    case False
    moreover have "used_set p \<inter> {unat f..<unat e} = {}"
      using False by (auto simp: word_less_unat in_used_set)
    ultimately show ?thesis
      using "1.prems" by (auto simp: mark_free_from.simps [of f e p])
  qed
qed

lemma bitmap_set_range_frame [frame_simps, simp]:
  "total_frames (bitmap_set_range st n i p) = total_frames p"
  "total_memory (bitmap_set_range st n i p) = total_memory p"
  "used_frames (bitmap_set_range st n i p) = used_frames p"
  "length (frame_bitmap (bitmap_set_range st n i p)) = length (frame_bitmap p)"
  by (induction st n i p rule: bitmap_set_range.induct;
      subst bitmap_set_range.simps; simp)+

lemma bitmap_set_range_used:
  "\<lbrakk>unat st + unat n \<le> 32768; length (frame_bitmap p) = 4096\<rbrakk> \<Longrightarrow>
   frame_used (bitmap_set_range st n i p) k \<longleftrightarrow>
     frame_used p k \<or> unat st + unat i \<le> k \<and> k < unat st + unat n"
proof (induction st n i p rule: bitmap_set_range.induct)
  case (1 st n i p)
  show ?case
  proof (cases "i < n")
    case True
    then have "unat i < unat n" by (simp add: word_less_unat)
    then have sum: "unat (st + i) = unat st + unat i"
      using "1.prems" by (simp add: unat_add_exact)
    have range: "unat (st + i) div 8 < length (frame_bitmap p)"
      using \<open>unat i < unat n\<close> "1.prems" by (simp add: sum less_mult_imp_div_less)
    have "unat (i + 1) = Suc (unat i)" using True by (rule unat_inc)
    then show ?thesis
      using "1.IH" [OF True "1.prems"(1)] "1.prems"(2) True \<open>unat i < unat n\<close>
      by (auto simp: bitmap_set_range.simps [of st n i p] frame_used_set [OF range] sum)
  next
    case False
    then show ?thesis
      by (auto simp: bitmap_set_range.simps [of st n i p] word_less_unat)
  qed
qed

lemma free_frames_from_effect:
  "pmm_inv p \<Longrightarrow>
     pmm_inv (pmm_free_frames_from f n i p) \<and>
     total_frames (pmm_free_frames_from f n i p) = total_frames p \<and>
     used_set (pmm_free_frames_from f n i p) =
       used_set p - (\<lambda>k. unat (f + word_of_nat k)) ` {unat i..<unat n}"
proof (induction f n i p rule: pmm_free_frames_from.induct)
  case (1 f n i p)
  let ?q = "if f + i < total_frames p \<and> bitmap_test p (f + i)
      then (bitmap_clear (f + i) p)\<lparr>used_frames := used_frames p - 1\<rparr> else p"
  show ?case
  proof (cases "i < n")
    case True
    have q: "pmm_inv ?q" "used_set ?q = used_set p - {unat (f + i)}"
        "total_frames ?q = total_frames p"
      using "1.prems" release_frame [of p "f + i"]
      by (auto simp: bitmap_test_used word_less_unat in_used_set)
    have "unat (i + 1) = Suc (unat i)" using True by (rule unat_inc)
    moreover have "{unat i..<unat n} = insert (unat i) {Suc (unat i)..<unat n}"
      using True by (auto simp: word_less_unat)
    ultimately show ?thesis
      using "1.IH" [OF True q(1)] True
      by (simp add: pmm_free_frames_from.simps [of f n i p] q(2,3) del: bitmap_clear_frame)
        auto
  next
    case False
    then show ?thesis
      using "1.prems" by (auto simp: pmm_free_frames_from.simps [of f n i p] word_less_unat)
  qed
qed

lemma first_run_Some:
  "first_run p n = Some s \<longleftrightarrow>
     s < unat (total_frames p) \<and> free_run p n s \<and> (\<forall>m < s. \<not> free_run p n m)"
  by (auto simp: first_run_def find_upt_Some)

lemma pmm_alloc_frames_None:
  "first_run p (unat n) = None \<Longrightarrow> pmm_alloc_frames n p = (0, p)"
  by (simp add: pmm_alloc_frames_def find_free_region_first_run)

lemma pmm_alloc_frames_Some:
  assumes inv: "pmm_inv p" and "n \<noteq> 0" and s: "first_run p (unat n) = Some s"
  shows "unat (fst (pmm_alloc_frames n p)) = s * 4096"
    and "pmm_inv (snd (pmm_alloc_frames n p))"
    and "used_set (snd (pmm_alloc_frames n p)) = used_set p \<union> {s..<s + unat n}"
proof -
  have run: "s < unat (total_frames p)" "s + unat n \<le> unat (total_frames p)"
      and free: "\<And>k. s \<le> k \<Longrightarrow> k < s + unat n \<Longrightarrow> \<not> frame_used p k"
    using s by (auto simp: first_run_Some free_run_iff)
  have small: "s < 32768" "s + unat n \<le> 32768"
    using run pmm_inv_total [OF inv] by simp_all
  have nat: "unat (word_of_nat s :: u32) = s"
    using small by (simp add: word_nat)
  have alloc: "pmm_alloc_frames n p =
      (PFN_TO_ADDR (word_of_nat s),
       (bitmap_set_range (word_of_nat s) n 0 p)\<lparr>used_frames := used_frames p + n\<rparr>)"
    using small \<open>n \<noteq> 0\<close> by (simp add: pmm_alloc_frames_def find_free_region_first_run s Let_def
        word_of_nat_not_neg)
  have used: "used_set (snd (pmm_alloc_frames n p)) = used_set p \<union> {s..<s + unat n}"
    using inv small run by (auto simp: alloc in_used_set bitmap_set_range_used nat pmm_inv_def)
  have "card (used_set p \<union> {s..<s + unat n}) = card (used_set p) + unat n"
    using free by (subst card_Un_disjoint) (auto simp: in_used_set)
  moreover have "card (used_set p \<union> {s..<s + unat n}) \<le> unat (total_frames p)"
  proof -
    have "used_set p \<union> {s..<s + unat n} \<subseteq> {0..<unat (total_frames p)}"
      using run by (auto simp: in_used_set)
    from card_mono [OF _ this] show ?thesis by simp
  qed
  ultimately have "unat (used_frames p + n) = card (used_set p \<union> {s..<s + unat n})"
    using inv pmm_inv_total [OF inv] by (simp add: pmm_inv_def unat_add_mod)
  then show "pmm_inv (snd (pmm_alloc_frames n p))"
    using inv used by (simp add: pmm_inv_def alloc)
  show "unat (fst (pmm_alloc_frames n p)) = s * 4096"
    using small by (simp add: alloc unat_PFN_TO_ADDR nat)
  show "used_set (snd (pmm_alloc_frames n p)) = used_set p \<union> {s..<s + unat n}"
    by (rule used)
qed

lemma unat_PAGE_ALIGN_UP_pfn:
  "unat a + 4095 < 4294967296 \<Longrightarrow>
   unat (ADDR_TO_PFN (PAGE_ALIGN_UP a)) = (unat a + 4095) div 4096"
  by (simp add: unat_ADDR_TO_PFN PAGE_ALIGN_UP_eq unat_PAGE_ALIGN_DOWN unat_add_exact
      minus_mod_eq_div_mult)

lemma pmm_mark_region_used_effect:
  assumes "pmm_inv p"
  shows "pmm_inv (pmm_mark_region_used b l p)"
    and "total_frames (pmm_mark_region_used b l p) = total_frames p"
    and "used_set p \<subseteq> used_set (pmm_mark_region_used b l p)"
    and "unat (b + l) + 4095 < 4294967296 \<Longrightarrow>
      used_set (pmm_mark_region_used b l p) =
        used_set p \<union> {unat b div 4096..<min ((unat (b + l) + 4095) div 4096)
                                        (unat (total_frames p))}"
  using mark_used_from_effect [OF assms, of "ADDR_TO_PFN b" "ADDR_TO_PFN (PAGE_ALIGN_UP (b + l))"]
  by (simp_all add: pmm_mark_region_used_def unat_PAGE_ALIGN_UP_pfn unat_ADDR_TO_PFN [of b])

lemma pmm_mark_region_free_effect:
  assumes "pmm_inv p"
  shows "pmm_inv (pmm_mark_region_free b l p)"
    and "total_frames (pmm_mark_region_free b l p) = total_frames p"
    and "used_set (pmm_mark_region_free b l p) =
      used_set p - {unat (ADDR_TO_PFN (PAGE_ALIGN_UP b))..<unat (b + l) div 4096}"
  using mark_free_from_effect [OF assms]
  by (auto simp: pmm_mark_region_free_def unat_ADDR_TO_PFN)

lemma pmm_free_frames_effect:
  assumes "pmm_inv p"
  shows "pmm_inv (pmm_free_frames a n p)"
    and "total_frames (pmm_free_frames a n p) = total_frames p"
    and "used_set (pmm_free_frames a n p) =
      used_set p - (\<lambda>k. unat (ADDR_TO_PFN a + word_of_nat k)) ` {0..<unat n}"
  using free_frames_from_effect [OF assms] by (auto simp: pmm_free_frames_def)

lemma pmm_alloc_frame_inv: "pmm_inv p \<Longrightarrow> pmm_inv (snd (pmm_alloc_frame p))"
  by (cases "first_free p") (simp_all add: pmm_alloc_frame_None pmm_alloc_frame_Some)

lemma pmm_alloc_frames_inv: "pmm_inv p \<Longrightarrow> pmm_inv (snd (pmm_alloc_frames n p))"
  by (cases "n = 0"; cases "first_run p (unat n)")
     (simp_all add: pmm_alloc_frames_None pmm_alloc_frames_Some, simp add: pmm_alloc_frames_def)

lemmas pmm_inv_preserved [inv_intros] =
  pmm_alloc_frame_inv pmm_alloc_frames_inv pmm_free_frame_effect(1) pmm_free_frames_effect(1)
  pmm_mark_frame_used_effect(1) pmm_mark_region_used_effect(1) pmm_mark_region_free_effect(1)

lemma pmm_alloc_frame_total [frame_simps, simp]:
  "total_frames (snd (pmm_alloc_frame p)) = total_frames p"
  "total_memory (snd (pmm_alloc_frame p)) = total_memory p"
  by (simp_all add: pmm_alloc_frame_def Let_def)

lemma pmm_free_frame_total [frame_simps, simp]:
  "total_frames (pmm_free_frame a p) = total_frames p"
  "total_memory (pmm_free_frame a p) = total_memory p"
  by (simp_all add: pmm_free_frame_def Let_def)

section \<open>The interface: a frame allocator\<close>

text \<open>
  What paging, \<open>vmalloc\<close> and the process code rely on: an allocation hands out a page-aligned
  address whose frame was not in use, a failed allocation (address 0) changes nothing, and a
  release gives back exactly one frame. Frame 0 is never handed out, which is what makes 0 a
  usable failure value.
\<close>

locale frame_allocator =
  fixes alloc :: "'p \<Rightarrow> u32 \<times> 'p"
    and release :: "u32 \<Rightarrow> 'p \<Rightarrow> 'p"
    and used :: "'p \<Rightarrow> nat set"
    and inv :: "'p \<Rightarrow> bool"
  assumes alloc_inv: "inv p \<Longrightarrow> inv (snd (alloc p))"
    and alloc_fail: "inv p \<Longrightarrow> fst (alloc p) = 0 \<Longrightarrow> snd (alloc p) = p"
    and alloc_aligned: "inv p \<Longrightarrow> unat (fst (alloc p)) mod 4096 = 0"
    and alloc_fresh: "inv p \<Longrightarrow> fst (alloc p) \<noteq> 0 \<Longrightarrow> unat (fst (alloc p)) div 4096 \<notin> used p"
    and alloc_used: "inv p \<Longrightarrow> fst (alloc p) \<noteq> 0 \<Longrightarrow>
      used (snd (alloc p)) = insert (unat (fst (alloc p)) div 4096) (used p)"
    and release_inv: "inv p \<Longrightarrow> unat a div 4096 \<noteq> 0 \<Longrightarrow> inv (release a p)"
    and release_used: "inv p \<Longrightarrow> used (release a p) = used p - {unat a div 4096}"
begin

text \<open>Allocating repeatedly, as the page loops of the clients do; the addresses handed out.\<close>

primrec alloc_seq :: "nat \<Rightarrow> 'p \<Rightarrow> u32 list \<times> 'p" where
  "alloc_seq 0 p = ([], p)"
| "alloc_seq (Suc n) p =
     (let (a, p') = alloc p in
      if a = 0 then ([], p)
      else let (as, p'') = alloc_seq n p' in (a # as, p''))"

lemma alloc_frame_nonzero: "inv p \<Longrightarrow> fst (alloc p) \<noteq> 0 \<Longrightarrow> unat (fst (alloc p)) div 4096 \<noteq> 0"
  using alloc_aligned [of p] by (metis div_mult_mod_eq add.right_neutral mult_0 unat_eq_0)

lemma alloc_release_used:
  assumes "inv p" and "fst (alloc p) \<noteq> 0"
  shows "used (release (fst (alloc p)) (snd (alloc p))) = used p"
    and "inv (release (fst (alloc p)) (snd (alloc p)))"
proof -
  show "used (release (fst (alloc p)) (snd (alloc p))) = used p"
    using assms alloc_fresh [of p] by (simp add: release_used alloc_used alloc_inv)
  show "inv (release (fst (alloc p)) (snd (alloc p)))"
    using assms by (intro release_inv alloc_inv alloc_frame_nonzero)
qed

lemma alloc_seq_fresh:
  "inv p \<Longrightarrow> alloc_seq n p = (as, p') \<Longrightarrow>
     inv p' \<and> distinct (map (\<lambda>a. unat a div 4096) as) \<and>
     (\<forall>a \<in> set as. a \<noteq> 0 \<and> unat a div 4096 \<notin> used p) \<and>
     used p' = used p \<union> (\<lambda>a. unat a div 4096) ` set as"
proof (induction n arbitrary: p as p')
  case 0
  then show ?case by simp
next
  case (Suc n)
  show ?case
  proof (cases "fst (alloc p) = 0")
    case True
    with Suc.prems show ?thesis by (auto simp: split_beta Let_def)
  next
    case False
    then obtain bs where as: "as = fst (alloc p) # bs"
        and bs: "alloc_seq n (snd (alloc p)) = (bs, p')"
      using Suc.prems(2) by (auto simp: split_beta Let_def prod_eq_iff)
    note IH = Suc.IH [OF alloc_inv [OF Suc.prems(1)] bs]
    with False Suc.prems(1) show ?thesis
      using alloc_fresh [OF Suc.prems(1) False] by (auto simp: as alloc_used)
  qed
qed

end

text \<open>
  The bitmap allocator provides the interface as long as frame 0 is in use, which
  \<open>pmm_init\<close> establishes by reserving the first megabyte.
\<close>

definition pmm_ok :: "pmm \<Rightarrow> bool" where
  "pmm_ok p \<longleftrightarrow> pmm_inv p \<and> 0 \<in> used_set p"

lemma pmm_ok_first_free: "pmm_ok p \<Longrightarrow> first_free p \<noteq> Some 0"
  by (auto simp: pmm_ok_def first_free_Some free_set_def)

lemma pmm_alloc_zero_iff: "pmm_ok p \<Longrightarrow> fst (pmm_alloc_frame p) = 0 \<longleftrightarrow> first_free p = None"
proof (cases "first_free p")
  case (Some n)
  assume ok: "pmm_ok p"
  have "n \<noteq> 0" using Some pmm_ok_first_free [OF ok] by auto
  with ok Some show ?thesis
    using pmm_alloc_frame_Some(1) [of p n] by (auto simp: pmm_ok_def)
qed (simp add: pmm_alloc_frame_None pmm_ok_def)

interpretation pmm_frames: frame_allocator pmm_alloc_frame pmm_free_frame used_set pmm_ok
proof
  fix p a
  assume ok: "pmm_ok p"
  then have inv: "pmm_inv p" by (simp add: pmm_ok_def)
  show "pmm_ok (snd (pmm_alloc_frame p))"
    using ok pmm_alloc_frame_Some [OF inv] pmm_alloc_frame_None [OF inv]
    by (cases "first_free p") (auto simp: pmm_ok_def)
  show "unat (fst (pmm_alloc_frame p)) mod 4096 = 0"
    using pmm_alloc_frame_Some(1) [OF inv] pmm_alloc_frame_None [OF inv]
    by (cases "first_free p") auto
  show "used_set (pmm_free_frame a p) = used_set p - {unat a div 4096}"
    by (rule pmm_free_frame_effect(2) [OF inv])
  show "pmm_ok (pmm_free_frame a p)" if "unat a div 4096 \<noteq> 0"
    using ok that pmm_free_frame_effect [OF inv, of a] by (auto simp: pmm_ok_def)
  show "snd (pmm_alloc_frame p) = p" if "fst (pmm_alloc_frame p) = 0"
    using that pmm_alloc_zero_iff [OF ok] pmm_alloc_frame_None [OF inv] by simp
  assume "fst (pmm_alloc_frame p) \<noteq> 0"
  then obtain n where n: "first_free p = Some n"
    using pmm_alloc_zero_iff [OF ok] by auto
  then show "unat (fst (pmm_alloc_frame p)) div 4096 \<notin> used_set p"
      and "used_set (snd (pmm_alloc_frame p)) =
        insert (unat (fst (pmm_alloc_frame p)) div 4096) (used_set p)"
    using pmm_alloc_frame_Some [OF inv n] by (auto simp: first_free_Some free_set_def)
qed

end
