(* ===== verification/PMM_Boot.thy ===== *)
theory PMM_Boot
  imports PMM
begin

unbundle bit_operations_syntax

text \<open>
  What \<open>pmm_init\<close> leaves behind, every state the physical memory manager can reach from it,
  and the properties of \<open>pmm.c\<close>: accounting, first-fit search, round trips and the reserved
  regions, with the places where 32-bit arithmetic wraps.
\<close>

section \<open>States and specifications\<close>

text \<open>A memory map as the boot loader lays it out: entries one after the other up to its end.\<close>

primrec mmap_list ::
    "(u32 \<Rightarrow> multiboot_mmap_entry) \<Rightarrow> u32 \<Rightarrow> multiboot_mmap_entry list \<Rightarrow> u32 \<Rightarrow> bool" where
  "mmap_list entry_at a [] e \<longleftrightarrow> \<not> a < e"
| "mmap_list entry_at a (x # xs) e \<longleftrightarrow>
     a < e \<and> entry_at a = x \<and> mmap_list entry_at (MMAP_ENTRY_NEXT entry_at a) xs e"

text \<open>The frames an available entry frees: those wholly inside its low 32-bit range.\<close>

definition entry_frames :: "multiboot_mmap_entry \<Rightarrow> nat set" where
  "entry_frames x =
     (if mm_type x = MULTIBOOT_MEMORY_AVAILABLE
      then {unat (ADDR_TO_PFN (PAGE_ALIGN_UP (addr_low x)))..<unat (addr_low x + len_low x) div 4096}
      else {})"

definition all_used :: "u32 \<Rightarrow> pmm" where
  "all_used tm = \<lparr>frame_bitmap = replicate BITMAP_SIZE 0xFF, total_memory = tm,
     total_frames = tm div PAGE_SIZE, used_frames = tm div PAGE_SIZE\<rparr>"

text \<open>
  The states reachable from a boot: \<open>pmm_init\<close>, then any sequence of the exported
  operations.
\<close>

inductive pmm_step :: "pmm \<Rightarrow> pmm \<Rightarrow> bool" where
  step_alloc: "pmm_step p (snd (pmm_alloc_frame p))"
| step_free: "pmm_step p (pmm_free_frame a p)"
| step_alloc_n: "pmm_step p (snd (pmm_alloc_frames n p))"
| step_free_n: "pmm_step p (pmm_free_frames a n p)"
| step_mark: "pmm_step p (pmm_mark_frame_used a p)"
| step_mark_region: "pmm_step p (pmm_mark_region_used a n p)"
| step_free_region: "pmm_step p (pmm_mark_region_free a n p)"

inductive pmm_reachable :: "pmm \<Rightarrow> bool" where
  booted: "pmm_init ks ke entry_at mbi = Some p \<Longrightarrow> pmm_reachable p"
| stepped: "pmm_reachable p \<Longrightarrow> pmm_step p q \<Longrightarrow> pmm_reachable q"

inductive_cases pmm_stepE: "pmm_step p q"

section \<open>Initialisation\<close>

lemma total_memory_bound: "unat (pmm_init_total_memory mbi) \<le> 134217728"
proof (cases "mb_flags mbi AND 1 = 0")
  case True
  then show ?thesis by (simp add: pmm_init_total_memory_def)
next
  case False
  show ?thesis
  proof (cases "(0x8000000 :: u32) < (mem_upper mbi + 1024) * 1024")
    case True
    with False show ?thesis by (simp add: pmm_init_total_memory_def)
  next
    case small: False
    then have "pmm_init_total_memory mbi = (mem_upper mbi + 1024) * 1024"
      using False by (simp add: pmm_init_total_memory_def)
    with small show ?thesis by (simp add: word_le_unat not_less)
  qed
qed

lemma all_used_used: "n < 32768 \<Longrightarrow> frame_used (all_used tm) n"
  by (rule full_byte_used [of _ "n div 8"]) (simp_all add: all_used_def less_mult_imp_div_less)

lemma all_used_inv:
  assumes "unat tm \<le> 134217728"
  shows "pmm_inv (all_used tm)" and "used_set (all_used tm) = {0..<unat tm div 4096}"
proof -
  have tot: "unat (total_frames (all_used tm)) = unat tm div 4096"
    by (simp add: all_used_def unat_div)
  have bound: "unat tm div 4096 \<le> 32768"
    using assms by simp
  show used: "used_set (all_used tm) = {0..<unat tm div 4096}"
    using bound all_used_used by (auto simp: in_used_set tot)
  show "pmm_inv (all_used tm)"
    unfolding pmm_inv_def used using bound tot
    by (simp add: all_used_def word_le_unat)
qed

lemma parse_mmap_step_effect:
  fixes x :: multiboot_mmap_entry
  assumes "pmm_inv p"
  defines "q \<equiv> (if mm_type x = MULTIBOOT_MEMORY_AVAILABLE
                then pmm_mark_region_free (addr_low x) (len_low x) p else p)"
  shows "pmm_inv q" and "total_frames q = total_frames p"
    and "used_set q = used_set p - entry_frames x"
  using assms pmm_mark_region_free_effect [OF assms(1)] by (auto simp: entry_frames_def)

lemma parse_mmap_inv:
  assumes ret: "pmm_parse_mmap entry_at a e p = Some q" and inv: "pmm_inv p"
  shows "pmm_inv q \<and> total_frames q = total_frames p"
proof -
  have "pmm_inv p \<longrightarrow> pmm_inv q \<and> total_frames q = total_frames p"
  proof (rule pmm_parse_mmap.raw_induct
      [where P = "\<lambda>_ _ _ p q. pmm_inv p \<longrightarrow> pmm_inv q \<and> total_frames q = total_frames p", OF _ ret])
    fix f entry_at mmap mmap_end p q
    assume IH: "\<And>entry_at mmap mmap_end p q. f entry_at mmap mmap_end p = Some q \<Longrightarrow>
        pmm_inv p \<longrightarrow> pmm_inv q \<and> total_frames q = total_frames p"
      and eq: "(if mmap < mmap_end
        then let p' = if mm_type (entry_at mmap) = 1
                      then pmm_mark_region_free (addr_low (entry_at mmap)) (len_low (entry_at mmap)) p
                      else p
             in f entry_at (MMAP_ENTRY_NEXT entry_at mmap) mmap_end p'
        else Some p) = Some q"
    show "pmm_inv p \<longrightarrow> pmm_inv q \<and> total_frames q = total_frames p"
      using eq IH parse_mmap_step_effect [of p "entry_at mmap"]
      by (cases "mmap < mmap_end") (fastforce simp: Let_def)+
  qed
  with inv show ?thesis by simp
qed

text \<open>On a map that is laid out properly the loop returns, having freed exactly its frames.\<close>

lemma parse_mmap_list:
  "mmap_list entry_at a xs e \<Longrightarrow> pmm_inv p \<Longrightarrow>
   \<exists>q. pmm_parse_mmap entry_at a e p = Some q \<and> pmm_inv q \<and> total_frames q = total_frames p \<and>
       used_set q = used_set p - \<Union> (entry_frames ` set xs)"
proof (induction xs arbitrary: a p)
  case Nil
  then show ?case by (simp add: pmm_parse_mmap.simps)
next
  case (Cons x xs)
  let ?q = "if mm_type x = 1 then pmm_mark_region_free (addr_low x) (len_low x) p else p"
  note step = parse_mmap_step_effect [OF Cons.prems(2), of x]
  have rest: "mmap_list entry_at (MMAP_ENTRY_NEXT entry_at a) xs e"
    using Cons.prems(1) by simp
  from Cons.IH [OF rest step(1)]
  obtain r where r: "pmm_parse_mmap entry_at (MMAP_ENTRY_NEXT entry_at a) e ?q = Some r"
      "pmm_inv r" "total_frames r = total_frames ?q"
      "used_set r = used_set ?q - \<Union> (entry_frames ` set xs)"
    by blast
  have "pmm_parse_mmap entry_at a e p = Some r"
    using Cons.prems(1) r(1) by (subst pmm_parse_mmap.simps) (auto simp: Let_def)
  with r step show ?case by auto
qed

lemma pmm_init_cases:
  assumes "pmm_init ks ke entry_at mbi = Some p"
  obtains q where "pmm_inv q"
    "unat (total_frames q) = unat (pmm_init_total_memory mbi) div 4096"
    "p = pmm_mark_region_used ke 0x10000
           (pmm_mark_region_used ks (ke - ks) (pmm_mark_region_used 0 0x100000 q))"
proof -
  let ?tm = "pmm_init_total_memory mbi"
  note p0 = all_used_inv(1) [OF total_memory_bound [of mbi]]
  have tot: "unat (total_frames (all_used ?tm)) = unat ?tm div 4096"
    by (simp add: all_used_def unat_div)
  obtain q where q: "(if mb_flags mbi AND 0x40 \<noteq> 0
      then pmm_parse_mmap entry_at (mmap_addr mbi) (mmap_addr mbi + mmap_length mbi) (all_used ?tm)
      else Some (pmm_mark_region_free 0x100000 (?tm - 0x100000) (all_used ?tm))) = Some q"
    and p: "p = pmm_mark_region_used ke 0x10000
           (pmm_mark_region_used ks (ke - ks) (pmm_mark_region_used 0 0x100000 q))"
    using assms unfolding pmm_init_def Let_def all_used_def [symmetric]
    by (auto split: option.splits)
  have "pmm_inv q \<and> total_frames q = total_frames (all_used ?tm)"
    using q p0 parse_mmap_inv pmm_mark_region_free_effect [OF p0]
    by (auto split: if_splits)
  with p tot show thesis by (intro that [of q]) simp_all
qed

lemma pmm_init_inv: "pmm_init ks ke entry_at mbi = Some p \<Longrightarrow> pmm_inv p"
  by (erule pmm_init_cases) (simp add: pmm_mark_region_used_effect(1))

lemma pmm_step_inv: "pmm_step p q \<Longrightarrow> pmm_inv p \<Longrightarrow> pmm_inv q"
  by (erule pmm_stepE) (auto intro: inv_intros)

lemma pmm_reachable_inv: "pmm_reachable p \<Longrightarrow> pmm_inv p"
  by (induction rule: pmm_reachable.induct) (auto intro: pmm_init_inv pmm_step_inv)

lemma card_free_set:
  assumes "pmm_inv p"
  shows "card (free_set p) = unat (total_frames p) - unat (used_frames p)"
    and "unat (used_frames p) \<le> unat (total_frames p)"
proof -
  have sub: "used_set p \<subseteq> {0..<unat (total_frames p)}"
    by (auto simp: in_used_set)
  show "unat (used_frames p) \<le> unat (total_frames p)"
    using assms card_mono [OF _ sub] by (simp add: pmm_inv_def)
  show "card (free_set p) = unat (total_frames p) - unat (used_frames p)"
    using assms sub by (simp add: free_set_def card_Diff_subset pmm_inv_def)
qed

lemma set_clear_id:
  assumes "unat f div 8 < length (frame_bitmap p)" and "\<not> frame_used p (unat f)"
  shows "bitmap_clear f (bitmap_set f p) = p"
proof -
  have byte: "(b OR push_bit k 1) AND NOT (push_bit k 1) = b" if "\<not> bit b k" for b :: u8 and k
    by (rule bit_word_eqI) (use that in \<open>auto simp: bit_simps\<close>)
  show ?thesis
    using assms byte by (cases p)
      (simp add: bitmap_clear_def bitmap_set_def Let_def unat_div unat_mod frame_used_def
        del: push_bit_of_1)
qed

text \<open>The frames \<open>pmm_init\<close> reserves whatever the memory map says.\<close>

definition reserved_frames :: "u32 \<Rightarrow> u32 \<Rightarrow> nat set" where
  "reserved_frames ks ke =
     {0..<256} \<union> {unat ks div 4096..<(unat ke + 4095) div 4096} \<union>
     {unat ke div 4096..<(unat ke + 65536 + 4095) div 4096}"

lemma reserve_effect:
  fixes ks ke :: u32
  assumes inv: "pmm_inv q" and ke: "unat ke + 65536 + 4095 < 4294967296"
  defines "p \<equiv> pmm_mark_region_used ke 0x10000
           (pmm_mark_region_used ks (ke - ks) (pmm_mark_region_used 0 0x100000 q))"
  shows "used_set p = used_set q \<union> (reserved_frames ks ke \<inter> {0..<unat (total_frames q)})"
proof -
  let ?q1 = "pmm_mark_region_used 0 0x100000 q"
  let ?q2 = "pmm_mark_region_used ks (ke - ks) ?q1"
  note 1 = pmm_mark_region_used_effect [OF inv, of 0 "0x100000"]
  note 2 = pmm_mark_region_used_effect [OF 1(1), of ks "ke - ks"]
  note 3 = pmm_mark_region_used_effect [OF 2(1), of ke "0x10000"]
  have "unat (ke + 0x10000) = unat ke + 65536"
    using ke by (simp add: unat_add_exact)
  then have "used_set p = used_set ?q2 \<union>
      {unat ke div 4096..<min ((unat ke + 65536 + 4095) div 4096) (unat (total_frames q))}"
    using 3(4) 2(2) 1(2) ke by (simp add: p_def)
  moreover have "used_set ?q2 = used_set ?q1 \<union>
      {unat ks div 4096..<min ((unat ke + 4095) div 4096) (unat (total_frames q))}"
    using 2(4) 1(2) ke by simp
  moreover have "used_set ?q1 = used_set q \<union> {0..<min 256 (unat (total_frames q))}"
    using 1(4) by simp
  ultimately show ?thesis
    by (auto simp: reserved_frames_def)
qed

lemma pmm_init_on_map:
  assumes map: "mmap_list entry_at (mmap_addr mbi) xs (mmap_addr mbi + mmap_length mbi)"
    and flag: "mb_flags mbi AND 0x40 \<noteq> 0"
    and ke: "unat ke + 65536 + 4095 < 4294967296"
  defines "T \<equiv> unat (pmm_init_total_memory mbi) div 4096"
  shows "\<exists>p. pmm_init ks ke entry_at mbi = Some p \<and> unat (total_frames p) = T \<and>
    used_set p = ({0..<T} - \<Union> (entry_frames ` set xs)) \<union> (reserved_frames ks ke \<inter> {0..<T})"
proof -
  let ?tm = "pmm_init_total_memory mbi"
  note p0 = all_used_inv [OF total_memory_bound [of mbi]]
  obtain q where q: "pmm_parse_mmap entry_at (mmap_addr mbi) (mmap_addr mbi + mmap_length mbi)
        (all_used ?tm) = Some q"
      "pmm_inv q" "total_frames q = total_frames (all_used ?tm)"
      "used_set q = used_set (all_used ?tm) - \<Union> (entry_frames ` set xs)"
    using parse_mmap_list [OF map p0(1)] by blast
  have tot: "unat (total_frames q) = T"
    by (simp add: q(3) T_def all_used_def unat_div)
  let ?p = "pmm_mark_region_used ke 0x10000
           (pmm_mark_region_used ks (ke - ks) (pmm_mark_region_used 0 0x100000 q))"
  have "pmm_init ks ke entry_at mbi = Some ?p"
    using flag q(1) unfolding pmm_init_def Let_def all_used_def [symmetric] by simp
  moreover have "unat (total_frames ?p) = T"
    using q(2) tot by (simp add: pmm_mark_region_used_effect(1,2))
  ultimately show ?thesis
    using reserve_effect [OF q(2) ke, of ks] q(4) p0(2) tot
    by (intro exI [of _ ?p]) (simp add: T_def)
qed

section \<open>Concrete states for the witnesses\<close>

text \<open>A boot without memory information: 16 MiB assumed, a 128 KiB kernel at 1 MiB.\<close>

definition boot_mbi :: multiboot_info where
  "boot_mbi = \<lparr>mb_flags = 0, mem_upper = 0, mmap_length = 0, mmap_addr = 0\<rparr>"

definition boot_pmm :: pmm where
  "boot_pmm = the (pmm_init 0x100000 0x120000 (\<lambda>_. \<lparr>mm_size = 20, addr_low = 0, addr_high = 0,
     len_low = 0, len_high = 0, mm_type = 2\<rparr>) boot_mbi)"

text \<open>All of 16 MiB in use except frame 300.\<close>

definition one_free :: pmm where
  "one_free = pmm_free_frame 0x12C000 (all_used 0x1000000)"

lemma boot_pmm_reachable: "pmm_reachable boot_pmm"
  unfolding boot_pmm_def by (rule booted, rule sym, rule option.collapse)
    (simp add: pmm_init_def boot_mbi_def Let_def)

lemma one_free_state:
  "pmm_inv one_free" "used_set one_free = {0..<4096} - {300}" "total_frames one_free = 4096"
  "free_set one_free = {300}" "first_free one_free = Some 300" "pmm_ok one_free"
proof -
  have all: "pmm_inv (all_used 0x1000000)" "used_set (all_used 0x1000000) = {0..<4096}"
    using all_used_inv [of "0x1000000"] by simp_all
  show inv: "pmm_inv one_free" and used: "used_set one_free = {0..<4096} - {300}"
    using pmm_free_frame_effect [OF all(1), of "0x12C000"] by (simp_all add: one_free_def all)
  show tot: "total_frames one_free = 4096"
    by (simp add: one_free_def) (simp add: all_used_def)
  show free: "free_set one_free = {300}"
    by (auto simp: free_set_def used tot)
  then show "first_free one_free = Some 300"
    by (auto simp: first_free_Some tot)
  show "pmm_ok one_free" by (simp add: pmm_ok_def inv used)
qed

section \<open>Properties\<close>

text \<open>
  C2. In every state reachable from \<open>pmm_init\<close> by the exported operations the books balance:
  \<open>used_frames\<close> is the number of set bits below \<open>total_frames\<close>, and the statistics report
  exactly the free frames and bytes, with no wrap-around in the 32-bit subtraction or product.
\<close>

theorem pmm_accounting:
  assumes "pmm_reachable p"
  shows "unat (used_frames p) = card (used_set p) \<and>
         unat (st_free_frames (pmm_get_stats p)) = card (free_set p) \<and>
         unat (st_free_memory (pmm_get_stats p)) = card (free_set p) * 4096"
proof -
  from assms have inv: "pmm_inv p" by (rule pmm_reachable_inv)
  have "unat (total_frames p - used_frames p) = card (free_set p)"
    using card_free_set [OF inv] by (simp add: word_le_unat unat_sub_exact)
  moreover have "card (free_set p) \<le> 32768"
    using card_free_set(1) [OF inv] pmm_inv_total [OF inv] by simp
  ultimately have "unat ((total_frames p - used_frames p) * 4096) = card (free_set p) * 4096"
    by (subst unat_mult_exact) simp_all
  with \<open>unat (total_frames p - used_frames p) = card (free_set p)\<close> show ?thesis
    using inv by (simp add: pmm_get_stats_def pmm_inv_def)
qed

text \<open>
  C3. \<open>pmm_alloc_frame\<close> is first fit: it returns the lowest free frame among those in whole
  bitmap bytes, marks that frame and no other, and returns 0 with the state unchanged exactly
  when there is none.
\<close>

theorem pmm_alloc_first_fit:
  assumes "pmm_inv p" and "pmm_alloc_frame p = (a, q)"
  shows "(case first_free p of
            None \<Rightarrow> a = 0 \<and> q = p
          | Some n \<Rightarrow> unat a = n * 4096 \<and> n \<in> free_set p \<and> (\<forall>m < n. m \<notin> free_set p) \<and>
                      used_set q = insert n (used_set p) \<and> pmm_inv q)"
  using assms pmm_alloc_frame_None [OF assms(1)] pmm_alloc_frame_Some [OF assms(1)]
  by (auto simp: first_free_Some split: option.splits)

text \<open>
  C4. Allocating a frame and freeing it restores the whole state of the manager, bitmap bytes and
  counter included.
\<close>

theorem pmm_alloc_free_roundtrip:
  assumes "pmm_ok p" and "pmm_alloc_frame p = (a, q)" and "a \<noteq> 0"
  shows "pmm_free_frame a q = p"
proof -
  have inv: "pmm_inv p" using assms(1) by (simp add: pmm_ok_def)
  obtain n where n: "first_free p = Some n"
    using pmm_alloc_zero_iff [OF assms(1)] assms(2,3) by auto
  then have free: "n < unat (total_frames p)" "\<not> frame_used p n"
    by (auto simp: first_free_Some in_free_set)
  let ?f = "word_of_nat n :: u32"
  have small: "n < 32768" using free pmm_inv_total [OF inv] by simp
  then have f: "unat ?f = n" by (simp add: word_nat)
  have a: "ADDR_TO_PFN a = ?f"
    using pmm_alloc_frame_Some(1) [OF inv n] assms(2) by (simp add: word_eq_unat unat_ADDR_TO_PFN f)
  have q: "q = (bitmap_set ?f p)\<lparr>used_frames := used_frames p + 1\<rparr>"
    using assms(2) small by (auto simp: pmm_alloc_frame_def find_free_first_free [OF inv] n Let_def
        word_of_nat_not_neg)
  have range: "n div 8 < length (frame_bitmap p)"
    using pmm_inv_range [OF inv, of ?f] free by (simp add: f)
  have "frame_used q n" "\<not> total_frames q \<le> ?f"
    using frame_used_set [of ?f p n] range free by (simp_all add: q f word_le_unat)
  then show ?thesis
    using set_clear_id [of ?f p] range free
    by (simp add: pmm_free_frame_def a Let_def bitmap_test_used f q bitmap_clear_def bitmap_set_def)
qed

theorem pmm_accounting_witness:
  "pmm_reachable boot_pmm \<and> unat (used_frames boot_pmm) = card (used_set boot_pmm)"
  using pmm_accounting [OF boot_pmm_reachable] boot_pmm_reachable by simp

theorem pmm_alloc_first_fit_witness:
  "pmm_inv one_free \<and> unat (fst (pmm_alloc_frame one_free)) = 300 * 4096 \<and>
   used_set (snd (pmm_alloc_frame one_free)) = {0..<4096}"
  using pmm_alloc_first_fit [OF one_free_state(1) prod.collapse [symmetric]] one_free_state
  by auto

theorem pmm_alloc_free_roundtrip_witness:
  "pmm_ok one_free \<and> pmm_free_frame (fst (pmm_alloc_frame one_free)) (snd (pmm_alloc_frame one_free)) = one_free"
proof -
  have "fst (pmm_alloc_frame one_free) \<noteq> 0"
    using pmm_alloc_zero_iff one_free_state by simp
  then show ?thesis
    using pmm_alloc_free_roundtrip [OF one_free_state(6) prod.collapse [symmetric]] one_free_state
    by simp
qed

text \<open>
  \<open>pmm_alloc_frames\<close> finds the lowest run of \<open>count\<close> free frames, marks exactly that run
  and adds \<open>count\<close> to the counter; it fails, changing nothing, only when no such run exists
  anywhere below \<open>total_frames\<close>.
\<close>

lemma pmm_alloc_frames_first_run:
  assumes "pmm_inv p" and "count \<noteq> 0" and "pmm_alloc_frames count p = (a, q)"
  shows "(case first_run p (unat count) of
            None \<Rightarrow> a = 0 \<and> q = p \<and> (\<forall>s. \<not> free_run p (unat count) s)
          | Some s \<Rightarrow> unat a = s * 4096 \<and> free_run p (unat count) s \<and>
                      (\<forall>m < s. \<not> free_run p (unat count) m) \<and>
                      used_set q = used_set p \<union> {s..<s + unat count} \<and> pmm_inv q)"
proof (cases "first_run p (unat count)")
  case None
  have "\<not> free_run p (unat count) s" for s
  proof
    assume run: "free_run p (unat count) s"
    moreover have "0 < unat count"
      using assms(2) by (simp add: unat_gt_0)
    ultimately have "s < unat (total_frames p)"
      by (simp add: free_run_iff)
    with run None show False by (simp add: first_run_def find_upt_None)
  qed
  with None assms(3) show ?thesis by (simp add: pmm_alloc_frames_None)
next
  case (Some s)
  note run = Some [unfolded first_run_Some]
  show ?thesis
    unfolding Some using pmm_alloc_frames_Some [OF assms(1,2) Some] run assms(3) by simp
qed

text \<open>
  Whatever the boot loader's memory map says, once \<open>pmm_init\<close> returns the first megabyte,
  the kernel image and the 64 KiB after it are in use, so no later allocation hands them out.
\<close>

lemma pmm_init_reserves:
  assumes "pmm_init ks ke entry_at mbi = Some p" and "unat ke + 65536 + 4095 < 4294967296"
  shows "reserved_frames ks ke \<inter> {0..<unat (total_frames p)} \<subseteq> used_set p \<and> pmm_inv p"
proof -
  obtain q where inv: "pmm_inv q"
    and p: "p = pmm_mark_region_used ke 0x10000
           (pmm_mark_region_used ks (ke - ks) (pmm_mark_region_used 0 0x100000 q))"
    using assms(1) by (rule pmm_init_cases)
  have "total_frames p = total_frames q"
    using inv by (simp add: p pmm_mark_region_used_effect(1,2))
  then show ?thesis
    using reserve_effect [OF inv assms(2), of ks] pmm_init_inv [OF assms(1)] by (auto simp: p)
qed


text \<open>A map of one available entry, from 2 MiB to 3 MiB.\<close>

definition one_entry_mbi :: multiboot_info where
  "one_entry_mbi = \<lparr>mb_flags = 0x40, mem_upper = 0, mmap_length = 24, mmap_addr = 0x9000\<rparr>"

definition one_entry :: "u32 \<Rightarrow> u32 \<Rightarrow> multiboot_mmap_entry" where
  "one_entry high a = \<lparr>mm_size = 20, addr_low = 0x200000, addr_high = high,
     len_low = 0x100000, len_high = 0, mm_type = 1\<rparr>"

lemma one_entry_map:
  "mmap_list (one_entry h) (mmap_addr one_entry_mbi) [one_entry h 0x9000]
     (mmap_addr one_entry_mbi + mmap_length one_entry_mbi)"
  by (simp add: one_entry_mbi_def one_entry_def MMAP_ENTRY_NEXT_def)

lemma one_entry_facts:
  "mb_flags one_entry_mbi AND 0x40 \<noteq> 0"
  "unat (pmm_init_total_memory one_entry_mbi) div 4096 = 4096"
  "entry_frames (one_entry h a) = {512..<768}"
  "reserved_frames 0x100000 0x120000 = {0..<304}"
proof -
  show "mb_flags one_entry_mbi AND 0x40 \<noteq> 0"
    and "unat (pmm_init_total_memory one_entry_mbi) div 4096 = 4096"
    by (simp_all add: one_entry_mbi_def pmm_init_total_memory_def)
  show "entry_frames (one_entry h a) = {512..<768}"
    by (simp add: entry_frames_def one_entry_def ADDR_TO_PFN_def PAGE_ALIGN_UP_def)
  show "reserved_frames 0x100000 0x120000 = {0..<304}"
    by (auto simp: reserved_frames_def)
qed


text \<open>
  A memory region the map places above 4 GiB frees low memory: the loop reads only the low
  halves of the 64-bit base and length. Here the only available entry starts at
  \<open>0x1_00200000\<close>, and frame 512 (2 MiB) ends up free.
\<close>

lemma pmm_init_high_memory_aliases:
  "\<exists>p. pmm_init 0x100000 0x120000 (one_entry 1) one_entry_mbi = Some p \<and>
    addr_high (one_entry 1 (mmap_addr one_entry_mbi)) = 1 \<and> 512 \<in> free_set p"
proof -
  obtain p where "pmm_init 0x100000 0x120000 (one_entry 1) one_entry_mbi = Some p"
      "unat (total_frames p) = 4096"
      "used_set p = ({0..<4096} - {512..<768}) \<union> ({0..<304} \<inter> {0..<4096})"
    using pmm_init_on_map [OF one_entry_map [of 1] one_entry_facts(1), of "0x120000" "0x100000"]
    by (auto simp: one_entry_facts(2,3,4))
  then show ?thesis by (auto simp: free_set_def one_entry_def)
qed

text \<open>
  The memory size is computed in 32 bits before it is capped: from 4 GiB of upper memory on,
  \<open>(mem_upper + 1024) * 1024\<close> wraps, and a machine that reports exactly 4 GiB gets no frame at
  all.
\<close>

lemma pmm_init_total_memory_value:
  assumes "mb_flags mbi AND MULTIBOOT_INFO_MEMORY \<noteq> 0"
  shows "unat (pmm_init_total_memory mbi) =
    min 134217728 (((unat (mem_upper mbi) + 1024) * 1024) mod 4294967296)"
proof -
  let ?t = "(mem_upper mbi + 1024) * 1024"
  have t: "unat ?t = ((unat (mem_upper mbi) + 1024) * 1024) mod 4294967296"
    by (simp add: unat_mult_mod unat_add_mod mod_mult_left_eq mod_add_left_eq)
  have "unat (pmm_init_total_memory mbi) = min 134217728 (unat ?t)"
    using assms by (simp add: pmm_init_total_memory_def Let_def word_less_unat min_def)
  then show ?thesis by (simp only: t)
qed

end
