(* ===== verification/Ring_Buffer.thy ===== *)
theory Ring_Buffer
  imports Kernel_Prelude
begin

text \<open>
  Four parts of the kernel keep a ring buffer with a head and a tail index and one slot left
  empty: the kernel signals (64 slots), the keyboard (256), a process's pending signals (16) and
  its socket (8). Each component models its own operations; this theory holds what they share:
  the list of pending items a ring denotes, the arithmetic of the indices, and the contract of a
  bounded queue with what follows from it for any sequence of insertions and removals.
\<close>

section \<open>The items of a ring\<close>

definition ring_count :: "nat \<Rightarrow> nat \<Rightarrow> nat \<Rightarrow> nat" where
  "ring_count cap h t = (t + cap - h) mod cap"

definition ring_items :: "nat \<Rightarrow> 'a list \<Rightarrow> nat \<Rightarrow> nat \<Rightarrow> 'a list" where
  "ring_items cap buf h t = map (\<lambda>k. buf ! ((h + k) mod cap)) [0..<ring_count cap h t]"

section \<open>The contract of a bounded queue\<close>

text \<open>
  \<open>put\<close> answers whether the item was taken; \<open>valid\<close> says which items are accepted at all;
  \<open>cap\<close> is the number of items that fit.
\<close>

locale bounded_queue =
  fixes put :: "'a \<Rightarrow> 'q \<Rightarrow> bool \<times> 'q"
    and get :: "'q \<Rightarrow> 'a option \<times> 'q"
    and items :: "'q \<Rightarrow> 'a list"
    and valid :: "'a \<Rightarrow> bool"
    and inv :: "'q \<Rightarrow> bool"
    and cap :: nat
  assumes bounded: "inv q \<Longrightarrow> length (items q) \<le> cap"
    and put_room: "inv q \<Longrightarrow> valid x \<Longrightarrow> length (items q) < cap \<Longrightarrow>
      fst (put x q) \<and> items (snd (put x q)) = items q @ [x] \<and> inv (snd (put x q))"
    and put_full: "inv q \<Longrightarrow> length (items q) = cap \<Longrightarrow> put x q = (False, q)"
    and put_invalid: "inv q \<Longrightarrow> \<not> valid x \<Longrightarrow> put x q = (False, q)"
    and get_empty: "inv q \<Longrightarrow> items q = [] \<Longrightarrow> get q = (None, q)"
    and get_item: "inv q \<Longrightarrow> items q = x # xs \<Longrightarrow>
      fst (get q) = Some x \<and> items (snd (get q)) = xs \<and> inv (snd (get q))"
begin

primrec put_all :: "'a list \<Rightarrow> 'q \<Rightarrow> 'q" where
  "put_all [] q = q"
| "put_all (x # xs) q = put_all xs (snd (put x q))"

primrec get_many :: "nat \<Rightarrow> 'q \<Rightarrow> 'a list \<times> 'q" where
  "get_many 0 q = ([], q)"
| "get_many (Suc n) q =
     (case get q of
        (None, q') \<Rightarrow> ([], q')
      | (Some x, q') \<Rightarrow> (let (xs, q'') = get_many n q' in (x # xs, q'')))"

lemma put_inv: "inv q \<Longrightarrow> inv (snd (put x q))"
  using bounded [of q] put_room [of q x] put_full [of q x] put_invalid [of q x]
  by (cases "valid x"; cases "length (items q) = cap") auto

lemma put_items:
  "inv q \<Longrightarrow>
   items (snd (put x q)) =
     (if valid x \<and> length (items q) < cap then items q @ [x] else items q)"
  using bounded [of q] put_room [of q x] put_full [of q x] put_invalid [of q x]
  by (cases "valid x"; cases "length (items q) = cap") auto

text \<open>A burst of insertions keeps the oldest items and drops what no longer fits.\<close>

lemma put_all_items:
  "inv q \<Longrightarrow>
     inv (put_all xs q) \<and>
     items (put_all xs q) = items q @ take (cap - length (items q)) (filter valid xs)"
proof (induction xs arbitrary: q)
  case Nil
  then show ?case by simp
next
  case (Cons x xs)
  note IH = Cons.IH [OF put_inv [OF Cons.prems, of x]]
  show ?case
  proof (cases "valid x \<and> length (items q) < cap")
    case True
    then obtain m where "cap - length (items q) = Suc m" by (cases "cap - length (items q)") auto
    moreover from this have "cap - Suc (length (items q)) = m" by simp
    ultimately show ?thesis using IH True by (simp add: put_items [OF Cons.prems])
  next
    case False
    then have "take (cap - length (items q)) (filter valid (x # xs)) =
        take (cap - length (items q)) (filter valid xs)"
      by auto
    with IH False show ?thesis by (simp add: put_items [OF Cons.prems] del: filter.simps)
  qed
qed

lemma get_many_items:
  "inv q \<Longrightarrow>
     fst (get_many n q) = take n (items q) \<and> items (snd (get_many n q)) = drop n (items q) \<and>
     inv (snd (get_many n q))"
proof (induction n arbitrary: q)
  case 0
  then show ?case by simp
next
  case (Suc n)
  show ?case
  proof (cases "items q")
    case Nil
    with Suc.prems show ?thesis by (simp add: get_empty)
  next
    case (Cons x xs)
    note g = get_item [OF Suc.prems Cons]
    then have "get q = (Some x, snd (get q))" by (simp add: prod_eq_iff)
    with g Suc.IH [of "snd (get q)"] Cons show ?thesis
      by (auto simp: split_beta Let_def)
  qed
qed

text \<open>First in, first out: what was put into an empty queue comes out in the same order.\<close>

lemma fifo:
  assumes "inv q" and "items q = []"
  shows "fst (get_many n (put_all xs q)) = take n (take cap (filter valid xs))"
  using assms put_all_items [of q xs] get_many_items [of "put_all xs q" n] by simp

end

section \<open>Index arithmetic\<close>

lemma ring_count_less: "0 < cap \<Longrightarrow> ring_count cap h t < cap"
  by (simp add: ring_count_def)

lemma ring_items_length [simp]: "length (ring_items cap buf h t) = ring_count cap h t"
  by (simp add: ring_items_def)

lemma ring_count_cases:
  assumes "h < cap" and "t < cap"
  shows "ring_count cap h t = (if h \<le> t then t - h else cap - h + t)"
  using assms by (auto simp: ring_count_def mod_if)

lemma ring_count_zero: "h < cap \<Longrightarrow> t < cap \<Longrightarrow> ring_count cap h t = 0 \<longleftrightarrow> h = t"
  by (auto simp: ring_count_cases)

lemma ring_next:
  assumes "h < cap" and "t < cap"
  shows "Suc t mod cap = h \<longleftrightarrow> Suc (ring_count cap h t) = cap"
    and "Suc t mod cap \<noteq> h \<Longrightarrow> ring_count cap h (Suc t mod cap) = Suc (ring_count cap h t)"
    and "(h + ring_count cap h t) mod cap = t"
proof -
  show "Suc t mod cap = h \<longleftrightarrow> Suc (ring_count cap h t) = cap"
    using assms by (cases "Suc t = cap") (auto simp: ring_count_cases)
  show "ring_count cap h (Suc t mod cap) = Suc (ring_count cap h t)" if "Suc t mod cap \<noteq> h"
    using assms that by (cases "Suc t = cap") (auto simp: ring_count_cases)
  show "(h + ring_count cap h t) mod cap = t"
    using assms by (auto simp: ring_count_cases)
qed

lemma ring_items_put:
  assumes "h < cap" "t < cap" "length buf = cap" "Suc t mod cap \<noteq> h"
  shows "ring_items cap (buf[t := x]) h (Suc t mod cap) = ring_items cap buf h t @ [x]"
proof -
  let ?n = "ring_count cap h t"
  have pos: "0 < cap" using assms by simp
  have other: "(h + k) mod cap \<noteq> t" if "k < ?n" for k
  proof
    assume "(h + k) mod cap = t"
    then have "(h + k) mod cap = (h + ?n) mod cap" using ring_next(3) [OF assms(1,2)] by simp
    moreover have "?n < cap" using pos by (rule ring_count_less)
    ultimately show False
      using that assms(1) by (auto simp: mod_if split: if_splits)
  qed
  have "ring_items cap (buf[t := x]) h (Suc t mod cap) =
      map (\<lambda>k. buf[t := x] ! ((h + k) mod cap)) [0..<?n] @ [buf[t := x] ! ((h + ?n) mod cap)]"
    by (simp add: ring_items_def ring_next(2) [OF assms(1,2,4)])
  also have "map (\<lambda>k. buf[t := x] ! ((h + k) mod cap)) [0..<?n] = ring_items cap buf h t"
    by (simp add: ring_items_def nth_list_update_neq [OF not_sym [OF other]])
  also have "buf[t := x] ! ((h + ?n) mod cap) = x"
    using assms by (simp add: ring_next(3))
  finally show ?thesis .
qed

lemma ring_items_get:
  assumes "h < cap" "t < cap" "h \<noteq> t"
  shows "ring_items cap buf h t = buf ! h # ring_items cap buf (Suc h mod cap) t"
proof -
  have step: "ring_count cap h t = Suc (ring_count cap (Suc h mod cap) t)"
    using assms by (cases "Suc h = cap") (auto simp: ring_count_cases)
  have "(h + Suc k) mod cap = (Suc h mod cap + k) mod cap" for k
    by (simp add: mod_add_left_eq)
  then show ?thesis
    using assms unfolding ring_items_def step
    by (simp add: upt_conv_Cons map_Suc_upt [symmetric] del: upt_Suc)
qed

text \<open>The indices as the code computes them, in 32-bit words.\<close>

lemma unat_ring_next:
  assumes "unat (t :: u32) < cap" and "unat n = cap" and "cap < 4294967296"
  shows "unat ((t + 1) mod n) = Suc (unat t) mod cap"
  using assms by (simp add: unat_mod unat_add_exact)

end
