(* ===== verification/Cpu_IO.thy ===== *)
theory Cpu_IO
  imports Kernel_Prelude
begin

unbundle bit_operations_syntax

text \<open>
  The inline assembly of \<open>kernel/include/io.h\<close>: the EFLAGS register with its interrupt bit and
  the writes to I/O ports, kept as a trace, oldest first. What a device answers on a read is an
  argument of the operations that read.
\<close>

record cpu =
  eflags :: u32
  port_out :: "(u16 \<times> u8) list"

abbreviation (input) EFLAGS_IF :: u32 where "EFLAGS_IF \<equiv> 0x200"

definition outb :: "u16 \<Rightarrow> u8 \<Rightarrow> 'a cpu_scheme \<Rightarrow> 'a cpu_scheme" where
  "outb port value c = c\<lparr>port_out := port_out c @ [(port, value)]\<rparr>"

definition io_wait :: "'a cpu_scheme \<Rightarrow> 'a cpu_scheme" where
  "io_wait c = outb 0x80 0 c"

definition interrupts_enable :: "'a cpu_scheme \<Rightarrow> 'a cpu_scheme" where
  "interrupts_enable c = c\<lparr>eflags := eflags c OR EFLAGS_IF\<rparr>"

definition interrupts_disable :: "'a cpu_scheme \<Rightarrow> 'a cpu_scheme" where
  "interrupts_disable c = c\<lparr>eflags := eflags c AND NOT EFLAGS_IF\<rparr>"

definition read_eflags :: "'a cpu_scheme \<Rightarrow> u32" where
  "read_eflags c = eflags c"

definition interrupts_save :: "'a cpu_scheme \<Rightarrow> u32 \<times> 'a cpu_scheme" where
  "interrupts_save c = (read_eflags c, interrupts_disable c)"

definition interrupts_restore :: "u32 \<Rightarrow> 'a cpu_scheme \<Rightarrow> 'a cpu_scheme" where
  "interrupts_restore flags c = c\<lparr>eflags := flags\<rparr>"

definition interrupts_enabled :: "'a cpu_scheme \<Rightarrow> bool" where
  "interrupts_enabled c \<longleftrightarrow> read_eflags c AND EFLAGS_IF \<noteq> 0"

text \<open>A critical section leaves the CPU as it found it, whatever state it was entered in.\<close>

lemma critical_section [simp]:
  "interrupts_restore (fst (interrupts_save c)) (snd (interrupts_save c)) = c"
  by (simp add: interrupts_restore_def interrupts_save_def interrupts_disable_def read_eflags_def)

lemma interrupts_save_off: "\<not> interrupts_enabled (snd (interrupts_save c))"
proof -
  have "(eflags c AND NOT EFLAGS_IF) AND EFLAGS_IF = 0"
    by (rule bit_word_eqI) (simp only: bit_and_iff bit_not_iff bit_0_eq, blast)
  then have "(eflags c AND - 513) AND 512 = 0" by simp
  then show ?thesis
    by (simp add: interrupts_enabled_def interrupts_save_def interrupts_disable_def read_eflags_def)
qed

end
