(* ===== verification/Signals.thy ===== *)
theory Signals
  imports Ring_Buffer Cpu_IO
begin

text \<open>
  Kernel signals, \<open>kernel/src/signals.c\<close>: a table of callbacks and a ring of pending signals.
  A callback is a name from a type the caller chooses; what calling it does is an argument of
  \<open>signal_dispatch_pending\<close>. The record is extensible: its extension is the rest of the kernel
  a callback may change.
\<close>

section \<open>State and operations\<close>

abbreviation (input) MAX_KERNEL_SIGNALS :: nat where "MAX_KERNEL_SIGNALS \<equiv> 32"
abbreviation (input) SIGNAL_QUEUE_CAPACITY :: u32 where "SIGNAL_QUEUE_CAPACITY \<equiv> 64"
abbreviation (input) KERNEL_SIGNAL_TEST :: i32 where "KERNEL_SIGNAL_TEST \<equiv> 1"
abbreviation (input) KERNEL_SIGNAL_KEYBOARD :: i32 where "KERNEL_SIGNAL_KEYBOARD \<equiv> 2"
abbreviation (input) KERNEL_SIGNAL_PANIC :: i32 where "KERNEL_SIGNAL_PANIC \<equiv> 3"

record pending_signal =
  ps_signal :: u8
  ps_value :: u32
  ps_context :: u32

record 'cb sigsys =
  sg_cpu :: cpu
  signal_handlers :: "'cb option list"
  pending_signals :: "pending_signal list"
  signal_head :: u32
  signal_tail :: u32

definition signals_init :: "('cb, 'w) sigsys_scheme \<Rightarrow> ('cb, 'w) sigsys_scheme" where
  "signals_init s =
     s\<lparr>signal_handlers := replicate MAX_KERNEL_SIGNALS None, signal_head := 0, signal_tail := 0\<rparr>"

definition register_signal_handler ::
    "i32 \<Rightarrow> 'cb option \<Rightarrow> ('cb, 'w) sigsys_scheme \<Rightarrow> i32 \<times> ('cb, 'w) sigsys_scheme" where
  "register_signal_handler signal handler s =
     (if sint signal \<le> 0 \<or> 32 \<le> sint signal then (-1, s)
      else
        let (flags, c) = interrupts_save (sg_cpu s);
            s1 = s\<lparr>sg_cpu := c, signal_handlers := (signal_handlers s)[unat signal := handler]\<rparr>
        in (0, s1\<lparr>sg_cpu := interrupts_restore flags (sg_cpu s1)\<rparr>))"

definition schedule_signal ::
    "i32 \<Rightarrow> u32 \<Rightarrow> u32 \<Rightarrow> ('cb, 'w) sigsys_scheme \<Rightarrow> i32 \<times> ('cb, 'w) sigsys_scheme" where
  "schedule_signal signal value context s =
     (if sint signal \<le> 0 \<or> 32 \<le> sint signal then (-1, s)
      else
        let (flags, c) = interrupts_save (sg_cpu s);
            next_tail = (signal_tail s + 1) mod SIGNAL_QUEUE_CAPACITY
        in if next_tail = signal_head s
           then (-1, s\<lparr>sg_cpu := interrupts_restore flags c\<rparr>)
           else
             let s1 = s\<lparr>sg_cpu := c,
                   pending_signals := (pending_signals s)[unat (signal_tail s) :=
                     \<lparr>ps_signal = ucast signal, ps_value = value, ps_context = context\<rparr>],
                   signal_tail := next_tail\<rparr>
             in (0, s1\<lparr>sg_cpu := interrupts_restore flags (sg_cpu s1)\<rparr>))"

text \<open>
  One turn of the dispatch loop: take the oldest pending signal and look its callback up, with
  interrupts off.
\<close>

definition signal_take ::
    "('cb, 'w) sigsys_scheme \<Rightarrow> (pending_signal \<times> 'cb option) option \<times> ('cb, 'w) sigsys_scheme" where
  "signal_take s =
     (let (flags, c) = interrupts_save (sg_cpu s) in
      if signal_head s = signal_tail s
      then (None, s\<lparr>sg_cpu := interrupts_restore flags c\<rparr>)
      else
        let pending = pending_signals s ! unat (signal_head s);
            s1 = s\<lparr>sg_cpu := c, signal_head := (signal_head s + 1) mod SIGNAL_QUEUE_CAPACITY\<rparr>;
            callback = signal_handlers s1 ! unat (ps_signal pending)
        in (Some (pending, callback), s1\<lparr>sg_cpu := interrupts_restore flags (sg_cpu s1)\<rparr>))"

text \<open>
  The loop runs until the queue is empty. A callback may schedule signals of its own, so it need
  not end: \<open>None\<close> is "does not return".
\<close>

partial_function (option) signal_dispatch_from ::
    "('cb \<Rightarrow> i32 \<Rightarrow> u32 \<Rightarrow> u32 \<Rightarrow> ('cb, 'w) sigsys_scheme \<Rightarrow> ('cb, 'w) sigsys_scheme) \<Rightarrow>
     i32 \<Rightarrow> ('cb, 'w) sigsys_scheme \<Rightarrow> (i32 \<times> ('cb, 'w) sigsys_scheme) option" where
  "signal_dispatch_from run dispatched s =
     (case signal_take s of
        (None, s1) \<Rightarrow> Some (dispatched, s1)
      | (Some (pending, callback), s1) \<Rightarrow>
          signal_dispatch_from run (dispatched + 1)
            (case callback of
               None \<Rightarrow> s1
             | Some cb \<Rightarrow> run cb (ucast (ps_signal pending)) (ps_value pending) (ps_context pending) s1))"

definition signal_dispatch_pending ::
    "('cb \<Rightarrow> i32 \<Rightarrow> u32 \<Rightarrow> u32 \<Rightarrow> ('cb, 'w) sigsys_scheme \<Rightarrow> ('cb, 'w) sigsys_scheme) \<Rightarrow>
     ('cb, 'w) sigsys_scheme \<Rightarrow> (i32 \<times> ('cb, 'w) sigsys_scheme) option" where
  "signal_dispatch_pending run s = signal_dispatch_from run 0 s"

definition signal_pending_count :: "('cb, 'w) sigsys_scheme \<Rightarrow> u32 \<times> ('cb, 'w) sigsys_scheme" where
  "signal_pending_count s =
     (let (flags, c) = interrupts_save (sg_cpu s);
          count = (if signal_head s \<le> signal_tail s then signal_tail s - signal_head s
                   else SIGNAL_QUEUE_CAPACITY - signal_head s + signal_tail s)
      in (count, s\<lparr>sg_cpu := interrupts_restore flags c\<rparr>))"

section \<open>Invariant and abstraction\<close>

definition signals_inv :: "('cb, 'w) sigsys_scheme \<Rightarrow> bool" where
  "signals_inv s \<longleftrightarrow>
     length (signal_handlers s) = 32 \<and> length (pending_signals s) = 64 \<and>
     signal_head s < 64 \<and> signal_tail s < 64 \<and>
     list_all (\<lambda>p. 0 < ps_signal p \<and> ps_signal p < 32)
       (ring_items 64 (pending_signals s) (unat (signal_head s)) (unat (signal_tail s)))"

definition signal_items :: "('cb, 'w) sigsys_scheme \<Rightarrow> pending_signal list" where
  "signal_items s = ring_items 64 (pending_signals s) (unat (signal_head s)) (unat (signal_tail s))"

definition valid_signal :: "pending_signal \<Rightarrow> bool" where
  "valid_signal p \<longleftrightarrow> 0 < ps_signal p \<and> ps_signal p < 32"

text \<open>The queue operations in the shape of the contract.\<close>

definition signal_put ::
    "pending_signal \<Rightarrow> ('cb, 'w) sigsys_scheme \<Rightarrow> bool \<times> ('cb, 'w) sigsys_scheme" where
  "signal_put p s =
     (let (r, s') = schedule_signal (ucast (ps_signal p)) (ps_value p) (ps_context p) s
      in (r = 0, s'))"

definition signal_get ::
    "('cb, 'w) sigsys_scheme \<Rightarrow> pending_signal option \<times> ('cb, 'w) sigsys_scheme" where
  "signal_get s = (let (r, s') = signal_take s in (map_option fst r, s'))"

text \<open>
  Callbacks that leave the signal queue and table alone, and what delivering a list of pending
  signals to them does.
\<close>

definition keeps_queue ::
    "('cb \<Rightarrow> i32 \<Rightarrow> u32 \<Rightarrow> u32 \<Rightarrow> ('cb, 'w) sigsys_scheme \<Rightarrow> ('cb, 'w) sigsys_scheme) \<Rightarrow> bool" where
  "keeps_queue run \<longleftrightarrow>
     (\<forall>cb g v x s. signal_handlers (run cb g v x s) = signal_handlers s \<and>
        pending_signals (run cb g v x s) = pending_signals s \<and>
        signal_head (run cb g v x s) = signal_head s \<and>
        signal_tail (run cb g v x s) = signal_tail s)"

primrec deliver ::
    "('cb \<Rightarrow> i32 \<Rightarrow> u32 \<Rightarrow> u32 \<Rightarrow> ('cb, 'w) sigsys_scheme \<Rightarrow> ('cb, 'w) sigsys_scheme) \<Rightarrow>
     pending_signal list \<Rightarrow> ('cb, 'w) sigsys_scheme \<Rightarrow> ('cb, 'w) sigsys_scheme" where
  "deliver run [] s = s"
| "deliver run (p # ps) s =
     (let s1 = s\<lparr>signal_head := (signal_head s + 1) mod 64\<rparr> in
      deliver run ps
        (case signal_handlers s1 ! unat (ps_signal p) of
           None \<Rightarrow> s1
         | Some cb \<Rightarrow> run cb (ucast (ps_signal p)) (ps_value p) (ps_context p) s1))"

section \<open>Lemmas\<close>

lemma signals_inv_iff:
  "signals_inv s \<longleftrightarrow>
     length (signal_handlers s) = 32 \<and> length (pending_signals s) = 64 \<and>
     unat (signal_head s) < 64 \<and> unat (signal_tail s) < 64 \<and>
     (\<forall>p \<in> set (signal_items s). valid_signal p)"
  by (simp add: signals_inv_def signal_items_def valid_signal_def word_less_unat list_all_iff)

lemma unat_signal_next:
  "unat (t :: u32) < 64 \<Longrightarrow> unat ((t + 1) mod 64) = Suc (unat t) mod 64"
  by (rule unat_ring_next) simp_all

lemma signal_guard:
  "sint (x :: i32) \<le> 0 \<or> 32 \<le> sint x \<longleftrightarrow> \<not> (0 < unat x \<and> unat x < 32)"
  using signed_range_check [of 32 x] by simp

lemma valid_signal_unat: "valid_signal p \<longleftrightarrow> 0 < unat (ps_signal p) \<and> unat (ps_signal p) < 32"
  by (simp add: valid_signal_def word_less_unat)

text \<open>The two outcomes of \<open>schedule_signal\<close> on a signal number in range.\<close>

lemma schedule_signal_full:
  "unat ((signal_tail s + 1) mod 64) = unat (signal_head s) \<Longrightarrow> schedule_signal g v x s = (-1, s)"
  by (simp add: schedule_signal_def split_beta Let_def word_eq_unat)

lemma schedule_signal_invalid:
  "\<not> (0 < unat g \<and> unat g < 32) \<Longrightarrow> schedule_signal g v x s = (-1, s)"
  by (simp add: schedule_signal_def signal_guard)

lemma schedule_signal_room:
  assumes "0 < unat g" "unat g < 32" "unat ((signal_tail s + 1) mod 64) \<noteq> unat (signal_head s)"
  shows "schedule_signal g v x s =
    (0, s\<lparr>pending_signals := (pending_signals s)[unat (signal_tail s) :=
            \<lparr>ps_signal = ucast g, ps_value = v, ps_context = x\<rparr>],
          signal_tail := (signal_tail s + 1) mod 64\<rparr>)"
  using assms by (cases s)
    (auto simp: schedule_signal_def signal_guard split_beta Let_def word_eq_unat interrupts_save_def
      interrupts_restore_def interrupts_disable_def read_eflags_def)

lemma signal_take_empty: "signal_head s = signal_tail s \<Longrightarrow> signal_take s = (None, s)"
  by (simp add: signal_take_def split_beta Let_def)

lemma signal_take_item:
  assumes "signal_head s \<noteq> signal_tail s"
  defines "p \<equiv> pending_signals s ! unat (signal_head s)"
  shows "signal_take s =
    (Some (p, signal_handlers s ! unat (ps_signal p)),
     s\<lparr>signal_head := (signal_head s + 1) mod 64\<rparr>)"
  using assms by (cases s)
    (auto simp: signal_take_def split_beta Let_def interrupts_save_def interrupts_restore_def
      interrupts_disable_def read_eflags_def)

lemma signal_items_empty_iff:
  "signals_inv s \<Longrightarrow> signal_items s = [] \<longleftrightarrow> signal_head s = signal_tail s"
  by (auto simp: signal_items_def signals_inv_iff word_eq_unat ring_items_def ring_count_zero)

lemma signal_items_full_iff:
  "signals_inv s \<Longrightarrow>
   length (signal_items s) = 63 \<longleftrightarrow> unat ((signal_tail s + 1) mod 64) = unat (signal_head s)"
proof -
  assume "signals_inv s"
  then have "unat (signal_head s) < 64" and "unat (signal_tail s) < 64"
    by (simp_all add: signals_inv_iff)
  note nxt = ring_next(1) [OF this] unat_signal_next [OF this(2)]
  show ?thesis unfolding signal_items_def ring_items_length nxt(2) nxt(1) by linarith
qed

lemma signal_items_le: "length (signal_items s) \<le> 63"
  using ring_count_less [of 64] by (simp add: signal_items_def less_Suc_eq_le [symmetric])

lemma signal_put_items:
  fixes v x :: u32
  assumes inv: "signals_inv s" and g: "0 < unat g" "unat g < 32"
    and room: "unat ((signal_tail s + 1) mod 64) \<noteq> unat (signal_head s)"
  defines "s' \<equiv> snd (schedule_signal g v x s)"
  shows "signal_items s' = signal_items s @ [\<lparr>ps_signal = ucast g, ps_value = v, ps_context = x\<rparr>]"
    and "signals_inv s'"
proof -
  have "Suc (unat (signal_tail s)) mod 64 \<noteq> unat (signal_head s)"
    using room inv by (simp add: unat_signal_next signals_inv_iff)
  then show items: "signal_items s' =
      signal_items s @ [\<lparr>ps_signal = ucast g, ps_value = v, ps_context = x\<rparr>]"
    using inv ring_items_put [of "unat (signal_head s)" 64 "unat (signal_tail s)" "pending_signals s"]
    by (simp add: s'_def schedule_signal_room [OF g room] signal_items_def signals_inv_iff
        unat_signal_next)
  have "unat (ucast g :: u8) = unat g"
    using g by (simp add: unsigned_ucast_eq take_bit_eq_mod)
  then have "valid_signal \<lparr>ps_signal = ucast g, ps_value = v, ps_context = x\<rparr>"
    using g by (simp add: valid_signal_unat)
  with inv items show "signals_inv s'"
    by (auto simp: signals_inv_iff s'_def schedule_signal_room [OF g room] unat_signal_next)
qed

lemma signal_take_items:
  assumes inv: "signals_inv s" and ne: "signal_head s \<noteq> signal_tail s"
  shows "signal_items s = fst (the (fst (signal_take s))) # signal_items (snd (signal_take s))"
    and "signals_inv (snd (signal_take s))"
proof -
  show items: "signal_items s =
      fst (the (fst (signal_take s))) # signal_items (snd (signal_take s))"
    using inv ne ring_items_get [of "unat (signal_head s)" 64 "unat (signal_tail s)" "pending_signals s"]
    by (simp add: signal_take_item signal_items_def signals_inv_iff unat_signal_next word_eq_unat)
  then show "signals_inv (snd (signal_take s))"
    using inv by (simp add: signals_inv_iff signal_take_item [OF ne] unat_signal_next)
qed

interpretation signal_queue: bounded_queue signal_put signal_get signal_items valid_signal signals_inv 63
proof
  fix s :: "('cb, 'w) sigsys_scheme" and p x xs
  assume inv: "signals_inv s"
  show "length (signal_items s) \<le> 63" by (rule signal_items_le)
  show "signal_put p s = (False, s)" if "length (signal_items s) = 63"
    using that signal_items_full_iff [OF inv] schedule_signal_full [of s]
    by (simp add: signal_put_def)
  show "signal_put p s = (False, s)" if "\<not> valid_signal p"
    using that by (simp add: signal_put_def valid_signal_unat schedule_signal_invalid)
  show "signal_get s = (None, s)" if "signal_items s = []"
    using that signal_items_empty_iff [OF inv] by (simp add: signal_get_def signal_take_empty)
  show "fst (signal_put p s) \<and> signal_items (snd (signal_put p s)) = signal_items s @ [p] \<and>
      signals_inv (snd (signal_put p s))"
    if v: "valid_signal p" and r: "length (signal_items s) < 63"
  proof -
    have g: "0 < unat (ucast (ps_signal p) :: u32)" "unat (ucast (ps_signal p) :: u32) < 32"
      using v by (simp_all add: valid_signal_unat)
    have room: "unat ((signal_tail s + 1) mod 64) \<noteq> unat (signal_head s)"
      using r signal_items_full_iff [OF inv] by simp
    show ?thesis
      using signal_put_items [OF inv g room, of "ps_value p" "ps_context p"]
        schedule_signal_room [OF g room]
      by (simp add: signal_put_def split_beta)
  qed
  show "fst (signal_get s) = Some x \<and> signal_items (snd (signal_get s)) = xs \<and>
      signals_inv (snd (signal_get s))"
    if it: "signal_items s = x # xs"
  proof -
    have ne: "signal_head s \<noteq> signal_tail s" using signal_items_empty_iff [OF inv] it by auto
    show ?thesis
      using signal_take_items [OF inv ne] it signal_take_item [OF ne]
      by (simp add: signal_get_def split_beta)
  qed
qed

lemma signal_pending_count_items:
  assumes "signals_inv s"
  shows "unat (fst (signal_pending_count s)) = length (signal_items s)"
    and "snd (signal_pending_count s) = s"
proof -
  have b: "unat (signal_head s) < 64" "unat (signal_tail s) < 64"
    using assms by (simp_all add: signals_inv_iff)
  show "unat (fst (signal_pending_count s)) = length (signal_items s)"
  proof (cases "signal_head s \<le> signal_tail s")
    case True
    with b show ?thesis
      by (simp add: signal_pending_count_def split_beta Let_def signal_items_def ring_count_cases
          word_le_unat unat_sub_exact)
  next
    case False
    have "unat (64 - signal_head s) = 64 - unat (signal_head s)"
      using b by (simp add: unat_sub_exact word_le_unat)
    then have "unat (64 - signal_head s + signal_tail s) = 64 - unat (signal_head s) + unat (signal_tail s)"
      using b by (subst unat_add_exact) simp_all
    with False b show ?thesis
      by (simp add: signal_pending_count_def split_beta Let_def signal_items_def ring_count_cases
          word_le_unat)
  qed
  show "snd (signal_pending_count s) = s"
    by (simp add: signal_pending_count_def split_beta Let_def)
qed

lemma keeps_queue_views:
  assumes "keeps_queue run"
  shows "signal_items (run cb g v x s) = signal_items s"
    and "signals_inv (run cb g v x s) \<longleftrightarrow> signals_inv s"
  using assms by (simp_all add: keeps_queue_def signal_items_def signals_inv_def)

lemma dispatch_deliver:
  "\<lbrakk>keeps_queue run; signals_inv s; signal_items s = ps\<rbrakk> \<Longrightarrow>
   signal_dispatch_from run n s = Some (n + word_of_nat (length ps), deliver run ps s) \<and>
   signals_inv (deliver run ps s) \<and> signal_items (deliver run ps s) = []"
proof (induction ps arbitrary: n s)
  case Nil
  then have "signal_take s = (None, s)"
    by (simp add: signal_take_empty signal_items_empty_iff)
  then show ?case using Nil by (simp add: signal_dispatch_from.simps)
next
  case (Cons p ps)
  have ne: "signal_head s \<noteq> signal_tail s"
    using signal_items_empty_iff [OF Cons.prems(2)] Cons.prems(3) by auto
  note take = signal_take_items [OF Cons.prems(2) ne] signal_take_item [OF ne]
  let ?s1 = "s\<lparr>signal_head := (signal_head s + 1) mod 64\<rparr>"
  let ?s2 = "case signal_handlers ?s1 ! unat (ps_signal p) of None \<Rightarrow> ?s1
      | Some cb \<Rightarrow> run cb (ucast (ps_signal p)) (ps_value p) (ps_context p) ?s1"
  have p: "p = pending_signals s ! unat (signal_head s)"
    and s1: "signal_items ?s1 = ps" "signals_inv ?s1"
    using take Cons.prems(3) by simp_all
  have "signal_items ?s2 = ps" and "signals_inv ?s2"
    using s1 keeps_queue_views [OF Cons.prems(1)] by (simp_all split: option.splits)
  with Cons.IH [OF Cons.prems(1), of ?s2 "n + 1"]
  have "signal_dispatch_from run (n + 1) ?s2 =
      Some (n + 1 + word_of_nat (length ps), deliver run ps ?s2) \<and>
      signals_inv (deliver run ps ?s2) \<and> signal_items (deliver run ps ?s2) = []"
    by blast
  moreover have "signal_dispatch_from run n s = signal_dispatch_from run (n + 1) ?s2"
    by (subst signal_dispatch_from.simps) (simp add: take(3) p [symmetric])
  ultimately show ?case by (simp add: Let_def add.assoc)
qed

section \<open>Properties\<close>

text \<open>
  \<open>schedule_signal\<close> accepts exactly the signals 1 to 31 while fewer than 63 are pending,
  and then appends the signal behind all pending ones; a signal out of range or a full ring is
  answered with -1 and changes nothing. On every branch the interrupt flag is what it was, and
  the pending count is the length of the queue.
\<close>

lemma schedule_signal_correct:
  assumes "signals_inv s" and "schedule_signal g v x s = (r, s')"
  shows "(if 0 < sint g \<and> sint g < 32 \<and> length (signal_items s) < 63
          then r = 0 \<and> signal_items s' = signal_items s @ [\<lparr>ps_signal = ucast g, ps_value = v, ps_context = x\<rparr>]
          else r = -1 \<and> s' = s) \<and>
         sg_cpu s' = sg_cpu s \<and> signals_inv s' \<and>
         unat (fst (signal_pending_count s')) = length (signal_items s')"
proof -
  have guard: "0 < sint g \<and> sint g < 32 \<longleftrightarrow> 0 < unat g \<and> unat g < 32"
    using signal_guard [of g] by linarith
  note len = signal_items_le [of s] signal_items_full_iff [OF assms(1)]
  show ?thesis
  proof (cases "(0 < unat g \<and> unat g < 32) \<and> length (signal_items s) < 63")
    case True
    then have room: "unat ((signal_tail s + 1) mod 64) \<noteq> unat (signal_head s)" using len by auto
    note put = signal_put_items [OF assms(1) _ _ room, of g v x]
      schedule_signal_room [OF _ _ room, of g v x]
    with True assms(2) have "signals_inv s'" and "r = 0" and "sg_cpu s' = sg_cpu s"
      and "signal_items s' = signal_items s @ [\<lparr>ps_signal = ucast g, ps_value = v, ps_context = x\<rparr>]"
      by auto
    with True guard signal_pending_count_items(1) [of s'] show ?thesis by simp
  next
    case False
    have "schedule_signal g v x s = (-1, s)"
    proof (cases "0 < unat g \<and> unat g < 32")
      case True
      with False len have "unat ((signal_tail s + 1) mod 64) = unat (signal_head s)" by simp
      then show ?thesis by (rule schedule_signal_full)
    qed (rule schedule_signal_invalid)
    with False guard assms signal_pending_count_items(1) [of s] show ?thesis by auto
  qed
qed


section \<open>Witnesses\<close>

text \<open>A table with one callback for signal 1 and that signal pending.\<close>

definition demo_signals :: "(unit, nat) sigsys_scheme" where
  "demo_signals = snd (schedule_signal 1 0xC0DE1234 0
     (snd (register_signal_handler 1 (Some ())
       \<lparr>sg_cpu = \<lparr>eflags = 0x202, port_out = []\<rparr>,
        signal_handlers = replicate 32 None,
        pending_signals = replicate 64 \<lparr>ps_signal = 0, ps_value = 0, ps_context = 0\<rparr>,
        signal_head = 63, signal_tail = 63, \<dots> = 0\<rparr>)))"

definition count_callback ::
    "unit \<Rightarrow> i32 \<Rightarrow> u32 \<Rightarrow> u32 \<Rightarrow> (unit, nat) sigsys_scheme \<Rightarrow> (unit, nat) sigsys_scheme" where
  "count_callback cb g v x s = sigsys.more_update Suc s"

lemma demo_signals_inv: "signals_inv demo_signals"
  "signal_items demo_signals = [\<lparr>ps_signal = 1, ps_value = 0xC0DE1234, ps_context = 0\<rparr>]"
proof -
  let ?s = "\<lparr>sg_cpu = \<lparr>eflags = 0x202, port_out = []\<rparr>,
        signal_handlers = replicate 32 None,
        pending_signals = replicate 64 \<lparr>ps_signal = 0, ps_value = 0, ps_context = 0\<rparr>,
        signal_head = 63, signal_tail = 63, \<dots> = 0\<rparr> :: (unit, nat) sigsys_scheme"
  let ?t = "snd (register_signal_handler 1 (Some ()) ?s)"
  have t: "signals_inv ?t" "signal_items ?t = []" "signal_tail ?t = 63" "signal_head ?t = 63"
    by (simp_all add: register_signal_handler_def split_beta Let_def signals_inv_def signal_items_def
        ring_items_def ring_count_def)
  then show "signals_inv demo_signals"
    "signal_items demo_signals = [\<lparr>ps_signal = 1, ps_value = 0xC0DE1234, ps_context = 0\<rparr>]"
    unfolding demo_signals_def using signal_put_items [OF t(1), of 1 "0xC0DE1234" 0] by simp_all
qed


end
