(* ===== verification/Keyboard.thy ===== *)
theory Keyboard
  imports Signals
begin

unbundle bit_operations_syntax

text \<open>
  The keyboard driver, \<open>kernel/src/keyboard.c\<close>: the IRQ1 handler decodes scancodes, queues
  characters in a ring of 256 and schedules a kernel signal for each; readers take characters
  and lines from the ring. A scancode is what \<open>inb(0x60)\<close> returns when the interrupt is
  handled; a reader that finds the ring empty executes \<open>hlt\<close> until the next interrupt, so a
  blocking read takes the scancodes of the interrupts to come as an argument.
\<close>

section \<open>State\<close>

record 'cb kbdsys = "'cb sigsys" +
  keyboard_buffer :: "u8 list"
  keyboard_head :: u32
  keyboard_tail :: u32
  shift_held :: bool
  extended_prefix :: bool

abbreviation (input) KEYBOARD_BUFFER_SIZE :: u32 where "KEYBOARD_BUFFER_SIZE \<equiv> 256"
abbreviation (input) KEY_PAGE_UP :: u8 where "KEY_PAGE_UP \<equiv> 0x80"
abbreviation (input) KEY_PAGE_DOWN :: u8 where "KEY_PAGE_DOWN \<equiv> 0x81"
abbreviation (input) KEY_ARROW_UP :: u8 where "KEY_ARROW_UP \<equiv> 0x82"
abbreviation (input) KEY_ARROW_DOWN :: u8 where "KEY_ARROW_DOWN \<equiv> 0x83"

definition ascii :: "string \<Rightarrow> u8 list" where
  "ascii cs = map (\<lambda>c. word_of_nat (of_char c)) cs"

definition scancode_to_ascii :: "u8 list" where
  "scancode_to_ascii =
     [0, 0] @ ascii ''1234567890-='' @ [8] @
     [9] @ ascii ''qwertyuiop[]'' @ [10] @
     [0] @ ascii ''asdfghjkl;'' @ [0x27] @ [0x60] @
     [0, 0x5C] @ ascii ''zxcvbnm,./'' @ [0] @
     ascii ''*'' @ [0] @ ascii '' ''"

definition scancode_to_ascii_shift :: "u8 list" where
  "scancode_to_ascii_shift =
     [0, 0] @ ascii ''!@#$%^&*()_+'' @ [8] @
     [9] @ ascii ''QWERTYUIOP{}'' @ [10] @
     [0] @ ascii ''ASDFGHJKL:'' @ [0x22] @ ascii ''~'' @
     [0] @ ascii ''|ZXCVBNM<>?'' @ [0] @
     ascii ''*'' @ [0] @ ascii '' ''"

section \<open>Operations\<close>

definition keyboard_queue_char :: "u8 \<Rightarrow> ('cb, 'w) kbdsys_scheme \<Rightarrow> ('cb, 'w) kbdsys_scheme" where
  "keyboard_queue_char c s =
     (let next_tail = (keyboard_tail s + 1) mod KEYBOARD_BUFFER_SIZE in
      if next_tail = keyboard_head s then s
      else s\<lparr>keyboard_buffer := (keyboard_buffer s)[unat (keyboard_tail s) := c],
             keyboard_tail := next_tail\<rparr>)"

definition extended_key :: "u8 \<Rightarrow> u8" where
  "extended_key scancode =
     (if scancode = 0x48 then KEY_ARROW_UP
      else if scancode = 0x50 then KEY_ARROW_DOWN
      else if scancode = 0x49 then KEY_PAGE_UP
      else if scancode = 0x51 then KEY_PAGE_DOWN
      else 0)"

definition keyboard_handler :: "u8 \<Rightarrow> ('cb, 'w) kbdsys_scheme \<Rightarrow> ('cb, 'w) kbdsys_scheme" where
  "keyboard_handler scancode s =
     (if scancode = 0x2A \<or> scancode = 0x36 then s\<lparr>shift_held := True\<rparr>
      else if scancode = 0xAA \<or> scancode = 0xB6 then s\<lparr>shift_held := False\<rparr>
      else if scancode = 0xE0 then s\<lparr>extended_prefix := True\<rparr>
      else if extended_prefix s then
        let s1 = s\<lparr>extended_prefix := False\<rparr> in
        if scancode AND 0x80 \<noteq> 0 then s1
        else let key = extended_key scancode in
          if key \<noteq> 0
          then snd (schedule_signal KERNEL_SIGNAL_KEYBOARD (ucast key) NULL
                 (keyboard_queue_char key s1))
          else s1
      else if scancode AND 0x80 \<noteq> 0 \<or> length scancode_to_ascii \<le> unat scancode then s
      else let table = (if shift_held s then scancode_to_ascii_shift else scancode_to_ascii);
               c = table ! unat scancode
        in if c \<noteq> 0
           then snd (schedule_signal KERNEL_SIGNAL_KEYBOARD (ucast c) NULL (keyboard_queue_char c s))
           else s)"

definition keyboard_shift_held :: "('cb, 'w) kbdsys_scheme \<Rightarrow> bool" where
  "keyboard_shift_held s = shift_held s"

definition keyboard_has_char :: "('cb, 'w) kbdsys_scheme \<Rightarrow> bool" where
  "keyboard_has_char s \<longleftrightarrow> keyboard_head s \<noteq> keyboard_tail s"

text \<open>\<open>keyboard_try_read_char\<close> with a non-null \<open>out_char\<close>: the character, if there is one.\<close>

definition keyboard_try_read_char ::
    "('cb, 'w) kbdsys_scheme \<Rightarrow> u8 option \<times> ('cb, 'w) kbdsys_scheme" where
  "keyboard_try_read_char s =
     (let (flags, c) = interrupts_save (sg_cpu s) in
      if keyboard_head s = keyboard_tail s
      then (None, s\<lparr>sg_cpu := interrupts_restore flags c\<rparr>)
      else
        let out_char = keyboard_buffer s ! unat (keyboard_head s);
            s1 = s\<lparr>sg_cpu := c, keyboard_head := (keyboard_head s + 1) mod KEYBOARD_BUFFER_SIZE\<rparr>
        in (Some out_char, s1\<lparr>sg_cpu := interrupts_restore flags (sg_cpu s1)\<rparr>))"

text \<open>
  \<open>keyboard_getchar\<close>: \<open>hlt\<close> waits for the next interrupt, whose handler may queue a
  character. With no interrupt to come the CPU sleeps forever: \<open>None\<close>.
\<close>

fun keyboard_getchar ::
    "u8 list \<Rightarrow> ('cb, 'w) kbdsys_scheme \<Rightarrow> (u8 \<times> u8 list \<times> ('cb, 'w) kbdsys_scheme) option" where
  "keyboard_getchar codes s =
     (case keyboard_try_read_char s of
        (Some c, s1) \<Rightarrow> Some (c, codes, s1)
      | (None, s1) \<Rightarrow>
          (case codes of
             [] \<Rightarrow> None
           | scancode # rest \<Rightarrow> keyboard_getchar rest (keyboard_handler scancode s1)))"

declare keyboard_getchar.simps [simp del]

partial_function (option) get_line_from ::
    "u8 list \<Rightarrow> u32 \<Rightarrow> u32 \<Rightarrow> u8 list \<Rightarrow> ('cb, 'w) kbdsys_scheme \<Rightarrow>
     (u32 \<times> u8 list \<times> u8 list \<times> ('cb, 'w) kbdsys_scheme) option" where
  "get_line_from buffer buffer_size position codes s =
     (if position + 1 < buffer_size then
        (case keyboard_getchar codes s of
           None \<Rightarrow> None
         | Some (c, codes', s') \<Rightarrow>
             if c = 8 then
               get_line_from buffer buffer_size (if 0 < position then position - 1 else position) codes' s'
             else
               let buffer' = buffer[unat position := c] in
               if c = 10 then Some (position + 1, buffer'[unat (position + 1) := 0], codes', s')
               else get_line_from buffer' buffer_size (position + 1) codes' s')
      else Some (position, buffer[unat position := 0], codes, s))"

text \<open>
  \<open>keyboard_get_line\<close> (and its alias \<open>get_line\<close>) on a buffer of at least \<open>buffer_size\<close>
  bytes, \<open>None\<close> for \<open>NULL\<close>: the returned length or -1, the buffer, and what is left.
\<close>

definition keyboard_get_line ::
    "u8 list option \<Rightarrow> u32 \<Rightarrow> u8 list \<Rightarrow> ('cb, 'w) kbdsys_scheme \<Rightarrow>
     (u32 \<times> u8 list option \<times> u8 list \<times> ('cb, 'w) kbdsys_scheme) option" where
  "keyboard_get_line buffer buffer_size codes s =
     (case buffer of
        None \<Rightarrow> Some (-1, None, codes, s)
      | Some b \<Rightarrow>
          if buffer_size = 0 then Some (-1, Some b, codes, s)
          else (case get_line_from b buffer_size 0 codes s of
                  None \<Rightarrow> None
                | Some (n, b', codes', s') \<Rightarrow> Some (n, Some b', codes', s')))"

section \<open>Specification\<close>

definition keyboard_inv :: "('cb, 'w) kbdsys_scheme \<Rightarrow> bool" where
  "keyboard_inv s \<longleftrightarrow>
     signals_inv s \<and> length (keyboard_buffer s) = 256 \<and>
     keyboard_head s < 256 \<and> keyboard_tail s < 256"

definition keyboard_items :: "('cb, 'w) kbdsys_scheme \<Rightarrow> u8 list" where
  "keyboard_items s =
     ring_items 256 (keyboard_buffer s) (unat (keyboard_head s)) (unat (keyboard_tail s))"

text \<open>
  Decoding apart from any buffer: the modifier state and the character, if any, one scancode
  produces.
\<close>

definition decode_key :: "bool \<times> bool \<Rightarrow> u8 \<Rightarrow> (bool \<times> bool) \<times> u8 option" where
  "decode_key m scancode =
     (let (shift, ext) = m in
      if scancode = 0x2A \<or> scancode = 0x36 then ((True, ext), None)
      else if scancode = 0xAA \<or> scancode = 0xB6 then ((False, ext), None)
      else if scancode = 0xE0 then ((shift, True), None)
      else if ext then
        ((shift, False),
         if scancode < 0x80 \<and> scancode \<in> {0x48, 0x49, 0x50, 0x51} then Some (extended_key scancode) else None)
      else
        (m, if scancode < 58 \<and> scancode_to_ascii ! unat scancode \<noteq> 0
            then Some ((if shift then scancode_to_ascii_shift else scancode_to_ascii) ! unat scancode)
            else None))"

primrec decode_keys :: "bool \<times> bool \<Rightarrow> u8 list \<Rightarrow> u8 list" where
  "decode_keys m [] = []"
| "decode_keys m (c # cs) =
     (let (m', k) = decode_key m c
      in (case k of None \<Rightarrow> [] | Some x \<Rightarrow> [x]) @ decode_keys m' cs)"

text \<open>The characters a reader will see: those in the ring, then those still to be typed.\<close>

definition key_stream :: "('cb, 'w) kbdsys_scheme \<Rightarrow> u8 list \<Rightarrow> u8 list" where
  "key_stream s codes = keyboard_items s @ decode_keys (shift_held s, extended_prefix s) codes"

text \<open>
  The line editor: \<open>edit_line n line cs\<close> reads \<open>cs\<close> onto the line read so far until a newline
  or \<open>n\<close> characters; backspace erases. The line and the characters left, or \<open>None\<close> when the
  input runs out first.
\<close>

fun edit_line :: "nat \<Rightarrow> u8 list \<Rightarrow> u8 list \<Rightarrow> (u8 list \<times> u8 list) option" where
  "edit_line n line cs =
     (if n \<le> length line then Some (line, cs)
      else case cs of
        [] \<Rightarrow> None
      | c # cs' \<Rightarrow>
          if c = 8 then edit_line n (butlast line) cs'
          else if c = 10 then Some (line @ [c], cs')
          else edit_line n (line @ [c]) cs')"

declare edit_line.simps [simp del]

section \<open>Lemmas\<close>

lemma table_lengths: "length scancode_to_ascii = 58" "length scancode_to_ascii_shift = 58"
  by (simp_all add: scancode_to_ascii_def scancode_to_ascii_shift_def ascii_def)

text \<open>A key that produces a character does so with and without shift.\<close>

lemma tables_agree:
  "list_all2 (\<lambda>a b. a = 0 \<longleftrightarrow> b = 0) scancode_to_ascii scancode_to_ascii_shift"
  by (simp add: scancode_to_ascii_def scancode_to_ascii_shift_def ascii_def)

lemma table_zero_iff:
  "n < 58 \<Longrightarrow> scancode_to_ascii_shift ! n = 0 \<longleftrightarrow> scancode_to_ascii ! n = 0"
  using tables_agree by (auto simp: list_all2_conv_all_nth table_lengths)

lemma high_bit_unat: "(x :: u8) AND 0x80 \<noteq> 0 \<longleftrightarrow> 128 \<le> unat x"
proof -
  have "x AND 0x80 \<noteq> 0 \<longleftrightarrow> bit x 7"
    using and_exp_eq_0_iff_not_bit [of x 7] by simp
  also have "\<dots> \<longleftrightarrow> bit (unat x) 7" by (simp add: bit_unsigned_iff)
  also have "\<dots> \<longleftrightarrow> odd (unat x div 128)" by (simp add: bit_iff_odd)
  also have "unat x div 128 = (if 128 \<le> unat x then 1 else 0)"
    using unat_u8_bound [of x] by (simp add: div_nat_eqI)
  finally show ?thesis by simp
qed

lemma keyboard_inv_iff:
  "keyboard_inv s \<longleftrightarrow> signals_inv s \<and> length (keyboard_buffer s) = 256 \<and>
     unat (keyboard_head s) < 256 \<and> unat (keyboard_tail s) < 256"
  by (simp add: keyboard_inv_def word_less_unat)

lemma unat_keyboard_next:
  "unat (t :: u32) < 256 \<Longrightarrow> unat ((t + 1) mod 256) = Suc (unat t) mod 256"
  by (rule unat_ring_next) simp_all

lemma schedule_signal_keyboard_frame [frame_simps, simp]:
  "keyboard_buffer (snd (schedule_signal g v x s)) = keyboard_buffer s"
  "keyboard_head (snd (schedule_signal g v x s)) = keyboard_head s"
  "keyboard_tail (snd (schedule_signal g v x s)) = keyboard_tail s"
  "shift_held (snd (schedule_signal g v x s)) = shift_held s"
  "extended_prefix (snd (schedule_signal g v x s)) = extended_prefix s"
  by (simp_all add: schedule_signal_def split_beta Let_def)

lemma schedule_signal_inv: "signals_inv s \<Longrightarrow> signals_inv (snd (schedule_signal g v x s))"
  using signal_put_items(2) [of s g v x] schedule_signal_invalid [of g v x s]
    schedule_signal_full [of s g v x]
  by (cases "0 < unat g \<and> unat g < 32"; cases "unat ((signal_tail s + 1) mod 64) = unat (signal_head s)")
     auto

lemma keyboard_items_le: "length (keyboard_items s) \<le> 255"
  using ring_count_less [of 256] by (simp add: keyboard_items_def less_Suc_eq_le [symmetric])

lemma keyboard_items_empty_iff:
  "keyboard_inv s \<Longrightarrow> keyboard_items s = [] \<longleftrightarrow> keyboard_head s = keyboard_tail s"
  by (auto simp: keyboard_items_def keyboard_inv_iff word_eq_unat ring_items_def ring_count_zero)

lemma keyboard_items_full_iff:
  assumes "keyboard_inv s"
  shows "length (keyboard_items s) = 255 \<longleftrightarrow> (keyboard_tail s + 1) mod 256 = keyboard_head s"
proof -
  have b: "unat (keyboard_head s) < 256" "unat (keyboard_tail s) < 256"
    using assms by (simp_all add: keyboard_inv_iff)
  note nxt = ring_next(1) [OF b] unat_keyboard_next [OF b(2)]
  show ?thesis
    unfolding keyboard_items_def ring_items_length word_eq_unat nxt(2) nxt(1) by linarith
qed

lemma queue_char_frame [frame_simps, simp]:
  "shift_held (keyboard_queue_char c s) = shift_held s"
  "extended_prefix (keyboard_queue_char c s) = extended_prefix s"
  "signals_inv (keyboard_queue_char c s) = signals_inv s"
  by (simp_all add: keyboard_queue_char_def Let_def signals_inv_def)

lemma queue_char_items:
  assumes inv: "keyboard_inv s"
  shows "keyboard_inv (keyboard_queue_char c s)"
    and "keyboard_items (keyboard_queue_char c s) =
      (if length (keyboard_items s) < 255 then keyboard_items s @ [c] else keyboard_items s)"
proof -
  have b: "unat (keyboard_head s) < 256" "unat (keyboard_tail s) < 256"
      "length (keyboard_buffer s) = 256"
    using inv by (simp_all add: keyboard_inv_iff)
  show "keyboard_inv (keyboard_queue_char c s)"
    using inv b by (simp add: keyboard_inv_iff)
      (simp add: keyboard_queue_char_def Let_def unat_keyboard_next)
  show "keyboard_items (keyboard_queue_char c s) =
      (if length (keyboard_items s) < 255 then keyboard_items s @ [c] else keyboard_items s)"
  proof (cases "length (keyboard_items s) = 255")
    case True
    then show ?thesis
      using keyboard_items_full_iff [OF inv] by (simp add: keyboard_queue_char_def Let_def)
  next
    case False
    then have ne: "(keyboard_tail s + 1) mod 256 \<noteq> keyboard_head s"
      using keyboard_items_full_iff [OF inv] by simp
    then have "Suc (unat (keyboard_tail s)) mod 256 \<noteq> unat (keyboard_head s)"
      using unat_keyboard_next [OF b(2)] by (simp add: word_eq_unat)
    from ring_items_put [OF b this, of c] False ne show ?thesis
      using keyboard_items_le [of s] unat_keyboard_next [OF b(2)]
      by (simp add: keyboard_queue_char_def Let_def keyboard_items_def)
  qed
qed

lemma try_read_empty: "keyboard_head s = keyboard_tail s \<Longrightarrow> keyboard_try_read_char s = (None, s)"
  by (simp add: keyboard_try_read_char_def split_beta Let_def)

lemma try_read_item:
  "keyboard_head s \<noteq> keyboard_tail s \<Longrightarrow>
   keyboard_try_read_char s =
     (Some (keyboard_buffer s ! unat (keyboard_head s)),
      s\<lparr>keyboard_head := (keyboard_head s + 1) mod 256\<rparr>)"
  by (cases s) (simp add: keyboard_try_read_char_def split_beta Let_def interrupts_save_def
      interrupts_restore_def interrupts_disable_def read_eflags_def)

lemma try_read_items:
  assumes inv: "keyboard_inv s" and it: "keyboard_items s = x # xs"
  shows "fst (keyboard_try_read_char s) = Some x"
    and "keyboard_items (snd (keyboard_try_read_char s)) = xs"
    and "keyboard_inv (snd (keyboard_try_read_char s))"
proof -
  have ne: "keyboard_head s \<noteq> keyboard_tail s"
    using keyboard_items_empty_iff [OF inv] it by auto
  have b: "unat (keyboard_head s) < 256" "unat (keyboard_tail s) < 256"
    using inv by (simp_all add: keyboard_inv_iff)
  have "unat (keyboard_head s) \<noteq> unat (keyboard_tail s)" using ne by (simp add: word_eq_unat)
  from ring_items_get [OF b this, of "keyboard_buffer s"] it
  show "fst (keyboard_try_read_char s) = Some x"
    and "keyboard_items (snd (keyboard_try_read_char s)) = xs"
    using unat_keyboard_next [OF b(1)] by (simp_all add: try_read_item [OF ne] keyboard_items_def)
  show "keyboard_inv (snd (keyboard_try_read_char s))"
    using inv b unat_keyboard_next [OF b(1)]
    by (simp add: try_read_item [OF ne] keyboard_inv_iff) (simp add: signals_inv_def)
qed

interpretation keyboard_queue: bounded_queue
  "\<lambda>c s. (length (keyboard_items s) < 255, keyboard_queue_char c s)"
  keyboard_try_read_char keyboard_items "\<lambda>_. True" keyboard_inv 255
proof
  fix s :: "('cb, 'w) kbdsys_scheme" and c x xs
  assume inv: "keyboard_inv s"
  show "length (keyboard_items s) \<le> 255" by (rule keyboard_items_le)
  show "(length (keyboard_items s) < 255, keyboard_queue_char c s) = (False, s)"
    if "length (keyboard_items s) = 255"
    using that keyboard_items_full_iff [OF inv] by (simp add: keyboard_queue_char_def Let_def)
  show "keyboard_try_read_char s = (None, s)" if "keyboard_items s = []"
    using that keyboard_items_empty_iff [OF inv] by (simp add: try_read_empty)
  show "fst (length (keyboard_items s) < 255, keyboard_queue_char c s) \<and>
      keyboard_items (snd (length (keyboard_items s) < 255, keyboard_queue_char c s)) =
        keyboard_items s @ [c] \<and>
      keyboard_inv (snd (length (keyboard_items s) < 255, keyboard_queue_char c s))"
    if "length (keyboard_items s) < 255"
    using that queue_char_items [OF inv] by simp
  show "fst (keyboard_try_read_char s) = Some x \<and>
      keyboard_items (snd (keyboard_try_read_char s)) = xs \<and>
      keyboard_inv (snd (keyboard_try_read_char s))"
    if "keyboard_items s = x # xs"
    using try_read_items [OF inv that] by simp
qed simp_all

subsection \<open>Decoding\<close>

definition push_key :: "u8 option \<Rightarrow> ('cb, 'w) kbdsys_scheme \<Rightarrow> ('cb, 'w) kbdsys_scheme" where
  "push_key k s = (case k of None \<Rightarrow> s
     | Some c \<Rightarrow> snd (schedule_signal KERNEL_SIGNAL_KEYBOARD (ucast c) NULL (keyboard_queue_char c s)))"

lemma extended_key_zero:
  "extended_key c \<noteq> 0 \<longleftrightarrow> c \<in> {0x48, 0x49, 0x50, 0x51}"
  by (auto simp: extended_key_def)

lemma handler_push_key:
  "keyboard_handler code s =
     (let (m, k) = decode_key (shift_held s, extended_prefix s) code
      in push_key k (s\<lparr>shift_held := fst m, extended_prefix := snd m\<rparr>))"
proof (cases "code = 0x2A \<or> code = 0x36 \<or> code = 0xAA \<or> code = 0xB6 \<or> code = 0xE0")
  case True
  then show ?thesis
    by (cases s) (auto simp: keyboard_handler_def decode_key_def push_key_def)
next
  case plain: False
  show ?thesis
  proof (cases "extended_prefix s")
    case True
    with plain show ?thesis
      by (cases s) (auto simp: keyboard_handler_def decode_key_def push_key_def Let_def
          high_bit_unat extended_key_zero [simplified] word_less_unat)
  next
    case False
    have "(code :: u8) < 58 \<longleftrightarrow> \<not> (code AND 0x80 \<noteq> 0 \<or> 58 \<le> unat code)"
      by (auto simp: high_bit_unat word_less_unat)
    with plain False show ?thesis
      by (cases s) (auto simp: keyboard_handler_def decode_key_def push_key_def Let_def
          table_lengths table_zero_iff word_less_unat)
  qed
qed

lemma push_key_effect:
  assumes "keyboard_inv s"
  shows "keyboard_inv (push_key k s)"
    and "shift_held (push_key k s) = shift_held s"
    and "extended_prefix (push_key k s) = extended_prefix s"
    and "keyboard_items (push_key k s) =
      (case k of None \<Rightarrow> keyboard_items s
       | Some c \<Rightarrow> if length (keyboard_items s) < 255 then keyboard_items s @ [c] else keyboard_items s)"
  using queue_char_items [OF assms] assms
  by (auto simp: push_key_def keyboard_inv_iff keyboard_items_def intro: schedule_signal_inv
      split: option.splits)

lemma keyboard_modifiers_irrelevant [simp]:
  "keyboard_inv (s\<lparr>shift_held := a, extended_prefix := b\<rparr>) = keyboard_inv s"
  "keyboard_items (s\<lparr>shift_held := a, extended_prefix := b\<rparr>) = keyboard_items s"
  by (simp_all add: keyboard_inv_def signals_inv_def keyboard_items_def)

lemma handler_effect:
  assumes "keyboard_inv s" and "decode_key (shift_held s, extended_prefix s) code = (m, k)"
  shows "keyboard_inv (keyboard_handler code s)"
    and "(shift_held (keyboard_handler code s), extended_prefix (keyboard_handler code s)) = m"
    and "keyboard_items (keyboard_handler code s) =
      (case k of None \<Rightarrow> keyboard_items s
       | Some c \<Rightarrow> if length (keyboard_items s) < 255 then keyboard_items s @ [c] else keyboard_items s)"
  using assms push_key_effect [of "s\<lparr>shift_held := fst m, extended_prefix := snd m\<rparr>" k]
  by (cases k; simp add: handler_push_key)+

subsection \<open>Reading characters and lines\<close>

lemma try_read_modifiers [frame_simps, simp]:
  "shift_held (snd (keyboard_try_read_char s)) = shift_held s"
  "extended_prefix (snd (keyboard_try_read_char s)) = extended_prefix s"
  by (simp_all add: keyboard_try_read_char_def split_beta Let_def)

lemma getchar_stream:
  "keyboard_inv s \<Longrightarrow>
   (case key_stream s codes of
      [] \<Rightarrow> keyboard_getchar codes s = None
    | c # rest \<Rightarrow> (\<exists>codes' s'. keyboard_getchar codes s = Some (c, codes', s') \<and>
                     keyboard_inv s' \<and> key_stream s' codes' = rest))"
proof (induction codes arbitrary: s)
  case Nil
  show ?case
  proof (cases "keyboard_items s")
    case empty: Nil
    then have "keyboard_try_read_char s = (None, s)"
      using Nil keyboard_items_empty_iff by (blast intro: try_read_empty)
    with empty show ?thesis by (simp add: key_stream_def keyboard_getchar.simps)
  next
    case (Cons x xs)
    note r = try_read_items [OF Nil Cons]
    obtain s1 where s1: "keyboard_try_read_char s = (Some x, s1)"
      using r(1) by (cases "keyboard_try_read_char s") auto
    then have "keyboard_getchar [] s = Some (x, [], s1)"
      by (subst keyboard_getchar.simps) simp
    with r Cons s1 try_read_modifiers [of s] show ?thesis by (simp add: key_stream_def)
  qed
next
  case (Cons code codes)
  show ?case
  proof (cases "keyboard_items s")
    case empty: Nil
    obtain m k where dec: "decode_key (shift_held s, extended_prefix s) code = (m, k)"
      by (cases "decode_key (shift_held s, extended_prefix s) code") auto
    note h = handler_effect [OF Cons.prems dec]
    have "keyboard_try_read_char s = (None, s)"
      using Cons.prems empty keyboard_items_empty_iff by (blast intro: try_read_empty)
    then have "keyboard_getchar (code # codes) s = keyboard_getchar codes (keyboard_handler code s)"
      by (subst keyboard_getchar.simps) simp
    moreover have "key_stream (keyboard_handler code s) codes = key_stream s (code # codes)"
      using empty h by (simp add: key_stream_def dec split: option.splits)
    ultimately show ?thesis using Cons.IH [OF h(1)] by (simp only:)
  next
    case it: (Cons x xs)
    note r = try_read_items [OF Cons.prems it]
    obtain s1 where s1: "keyboard_try_read_char s = (Some x, s1)"
      using r(1) by (cases "keyboard_try_read_char s") auto
    then have "keyboard_getchar (code # codes) s = Some (x, code # codes, s1)"
      by (subst keyboard_getchar.simps) simp
    with r it s1 try_read_modifiers [of s] show ?thesis by (simp add: key_stream_def)
  qed
qed

text \<open>What a returned line looks like in the caller's buffer: its characters, then NUL.\<close>

definition line_in_buffer :: "u32 \<Rightarrow> nat \<Rightarrow> u32 \<Rightarrow> u8 list \<Rightarrow> u8 list \<Rightarrow> bool" where
  "line_in_buffer buffer_size len n line buffer \<longleftrightarrow>
     unat n = length line \<and> unat n < unat buffer_size \<and> length buffer = len \<and>
     take (unat n) buffer = line \<and> buffer ! unat n = 0"

lemma take_update_snoc: "p < length b \<Longrightarrow> take (Suc p) (b[p := c]) = take p b @ [c]"
  by (simp add: take_Suc_conv_app_nth)

lemma get_line_edit:
  "\<lbrakk>keyboard_inv s; unat buffer_size \<le> length buffer; unat position < unat buffer_size;
    take (unat position) buffer = line; key_stream s codes = cs;
    edit_line (unat buffer_size - 1) line cs = Some (line', rest)\<rbrakk> \<Longrightarrow>
   \<exists>n buffer' codes' s'.
     get_line_from buffer buffer_size position codes s = Some (n, buffer', codes', s') \<and>
     line_in_buffer buffer_size (length buffer) n line' buffer' \<and>
     keyboard_inv s' \<and> key_stream s' codes' = rest"
proof (induction cs arbitrary: s position buffer codes line)
  case (Nil s position buffer codes line)
  then have full: "unat buffer_size - 1 \<le> length line" and "line' = line" "rest = []"
    by (simp_all add: edit_line.simps split: if_splits)
  with Nil have "\<not> position + 1 < buffer_size" and "length line = unat position"
    using unat_u32_bound [of buffer_size] by (auto simp: word_less_unat unat_add_exact)
  with Nil full \<open>line' = line\<close> \<open>rest = []\<close> show ?case
    by (subst get_line_from.simps) (auto simp: line_in_buffer_def)
next
  case (Cons c cs s position buffer codes line)
  have len: "length line = unat position" using Cons.prems by auto
  have inc: "unat (position + 1) = Suc (unat position)"
    using Cons.prems(3) by (intro unat_inc) (simp add: word_less_unat)
  show ?case
  proof (cases "position + 1 < buffer_size")
    case False
    then have "unat buffer_size - 1 \<le> length line" by (simp add: word_less_unat inc len)
    with Cons.prems(6) have "line' = line" and "rest = c # cs"
      by (simp_all add: edit_line.simps)
    with False Cons.prems len show ?thesis
      by (subst get_line_from.simps) (auto simp: line_in_buffer_def)
  next
    case True
    then have room: "Suc (unat position) < unat buffer_size" by (simp add: word_less_unat inc)
    then have "\<not> unat buffer_size - 1 \<le> length line" by (simp add: len)
    then have edit: "edit_line (unat buffer_size - 1) line (c # cs) =
        (if c = 8 then edit_line (unat buffer_size - 1) (butlast line) cs
         else if c = 10 then Some (line @ [c], cs)
         else edit_line (unat buffer_size - 1) (line @ [c]) cs)"
      by (subst edit_line.simps) simp
    obtain codes1 s1 where get: "keyboard_getchar codes s = Some (c, codes1, s1)"
        and s1: "keyboard_inv s1" "key_stream s1 codes1 = cs"
      using getchar_stream [OF Cons.prems(1), of codes] Cons.prems(5) by auto
    consider "c = 8" | "c = 10" | "c \<noteq> 8" "c \<noteq> 10" by blast
    then show ?thesis
    proof cases
      case 1
      let ?p = "if 0 < position then position - 1 else position"
      have p: "unat ?p = unat position - 1"
        by (cases "position = 0") (simp_all add: unat_dec word_neq_0_conv)
      then have "take (unat ?p) buffer = butlast line"
        using Cons.prems(2,3,4) by (auto simp: butlast_take)
      from Cons.IH [OF s1(1) Cons.prems(2) _ this s1(2)] Cons.prems(3,6) edit 1 p
      show ?thesis using True get by (subst get_line_from.simps) auto
    next
      case 2
      with Cons.prems(6) edit have "line' = line @ [c]" "rest = cs" by simp_all
      with 2 True get s1 Cons.prems(2,4) room len show ?thesis
        by (subst get_line_from.simps)
          (auto simp: Let_def line_in_buffer_def inc take_update_snoc)
    next
      case 3
      have "take (unat (position + 1)) (buffer[unat position := c]) = line @ [c]"
        using Cons.prems(2,4) room by (simp add: inc take_update_snoc)
      from Cons.IH [OF s1(1) _ _ this s1(2)] Cons.prems(2,6) edit 3 room
      show ?thesis using True get by (subst get_line_from.simps) (auto simp: Let_def inc)
    qed
  qed
qed

section \<open>Properties\<close>

text \<open>
  Every interrupt of the keyboard is decoded by the modifier state machine, and the
  character it produces, if any, joins the end of the ring; when 255 characters wait it is
  dropped and the ring is unchanged. Shift and prefix state always follow the scancode.
\<close>

lemma keyboard_handler_decodes:
  assumes "keyboard_inv s" and "decode_key (shift_held s, extended_prefix s) code = (m, k)"
  shows "keyboard_items (keyboard_handler code s) =
      (case k of None \<Rightarrow> keyboard_items s
       | Some c \<Rightarrow> if length (keyboard_items s) < 255 then keyboard_items s @ [c] else keyboard_items s) \<and>
    (shift_held (keyboard_handler code s), extended_prefix (keyboard_handler code s)) = m \<and>
    keyboard_inv (keyboard_handler code s)"
  using handler_effect [OF assms] by simp

text \<open>
  C7. A blocking read returns the characters in the order they were typed: the ring first, then
  what the interrupts to come will produce. Whenever the typed input, edited by its backspaces,
  completes a line or fills the buffer, \<open>keyboard_get_line\<close> returns that line, NUL-terminated
  and within the caller's buffer, and leaves the rest of the input for the next reader.
\<close>

theorem get_line_returns_edited_line:
  assumes "keyboard_inv s" and "buffer_size \<noteq> 0" and "unat buffer_size \<le> length b"
    and "edit_line (unat buffer_size - 1) [] (key_stream s codes) = Some (line, rest)"
  shows "\<exists>n b' codes' s'.
    keyboard_get_line (Some b) buffer_size codes s = Some (n, Some b', codes', s') \<and>
    line_in_buffer buffer_size (length b) n line b' \<and>
    keyboard_inv s' \<and> key_stream s' codes' = rest"
proof -
  have "unat (0 :: u32) < unat buffer_size" using assms(2) by (simp add: unat_gt_0)
  then show ?thesis
    using get_line_edit [OF assms(1,3) _ _ refl, of 0 "[]" codes line rest] assms(2,4)
    by (auto simp: keyboard_get_line_def)
qed

section \<open>Witnesses\<close>

definition idle_keyboard :: "(unit, unit) kbdsys_scheme" where
  "idle_keyboard =
     \<lparr>sg_cpu = \<lparr>eflags = 0x202, port_out = []\<rparr>, signal_handlers = replicate 32 None,
      pending_signals = replicate 64 \<lparr>ps_signal = 0, ps_value = 0, ps_context = 0\<rparr>,
      signal_head = 0, signal_tail = 0,
      keyboard_buffer = replicate 256 0, keyboard_head = 0, keyboard_tail = 0,
      shift_held = False, extended_prefix = False\<rparr>"

lemma idle_keyboard_inv: "keyboard_inv idle_keyboard" "keyboard_items idle_keyboard = []"
  "shift_held idle_keyboard = False" "extended_prefix idle_keyboard = False"
  by (simp_all add: idle_keyboard_def keyboard_inv_def signals_inv_def keyboard_items_def
      ring_items_def ring_count_def)

text \<open>Shift down, \<open>h\<close>, shift up, \<open>i\<close>, backspace, enter.\<close>

lemma typed_example:
  "decode_keys (False, False) [0x2A, 0x23, 0xA3, 0xAA, 0x17, 0x0E, 0x1C] = [0x48, 0x69, 8, 10]"
  by code_simp

theorem get_line_returns_edited_line_witness:
  "\<exists>n b' codes' s'.
    keyboard_get_line (Some (replicate 8 0)) 8 [0x2A, 0x23, 0xA3, 0xAA, 0x17, 0x0E, 0x1C]
      idle_keyboard = Some (n, Some b', codes', s') \<and> unat n = 2 \<and> take 2 b' = [0x48, 10]"
proof -
  have "edit_line (unat (8 :: u32) - 1) []
      (key_stream idle_keyboard [0x2A, 0x23, 0xA3, 0xAA, 0x17, 0x0E, 0x1C]) = Some ([0x48, 10], [])"
    unfolding key_stream_def idle_keyboard_inv typed_example by (simp add: edit_line.simps)
  from get_line_returns_edited_line [OF idle_keyboard_inv(1) _ _ this, of "replicate 8 0"]
  obtain n b' codes' s' where g: "keyboard_get_line (Some (replicate 8 0)) 8
      [0x2A, 0x23, 0xA3, 0xAA, 0x17, 0x0E, 0x1C] idle_keyboard = Some (n, Some b', codes', s')"
      and l: "line_in_buffer 8 8 n [0x48, 10] b'"
    by auto
  from l have "unat n = 2 \<and> take 2 b' = [0x48, 10]"
    by (auto simp: line_in_buffer_def numeral_2_eq_2)
  with g show ?thesis by blast
qed

end
