(* ===== verification/Machine.thy ===== *)
theory Machine
  imports PMM
begin

unbundle bit_operations_syntax

text \<open>
  The machine the memory managers share: physical memory as bytes, with the 32-bit loads and
  stores the i386 does in little-endian order, the paging registers, the frame allocator's state
  and the console. The components extend the record \<open>machine\<close> by their own static variables.
\<close>

section \<open>Bytes, and double words over them\<close>

type_synonym memory = "u32 \<Rightarrow> u8"

definition load32 :: "memory \<Rightarrow> u32 \<Rightarrow> u32" where
  "load32 m a = ucast (m a) OR push_bit 8 (ucast (m (a + 1)))
     OR push_bit 16 (ucast (m (a + 2))) OR push_bit 24 (ucast (m (a + 3)))"

definition store32 :: "u32 \<Rightarrow> u32 \<Rightarrow> memory \<Rightarrow> memory" where
  "store32 a v m = m(a := ucast v, a + 1 := ucast (drop_bit 8 v),
     a + 2 := ucast (drop_bit 16 v), a + 3 := ucast (drop_bit 24 v))"

definition store8 :: "u32 \<Rightarrow> u8 \<Rightarrow> memory \<Rightarrow> memory" where
  "store8 a v m = m(a := v)"

text \<open>The \<open>memset\<close> every component carries a copy of: \<open>while (size--) *p++ = value\<close>.\<close>

function memset :: "u32 \<Rightarrow> u8 \<Rightarrow> u32 \<Rightarrow> memory \<Rightarrow> memory" where
  "memset p value n m =
     (if n = 0 then m else memset (p + 1) value (n - 1) (store8 p value m))"
  by pat_completeness auto
termination
  by (relation "measure (\<lambda>(p, value, n, m). unat n)") (auto simp: unat_dec unat_gt_0)

declare memset.simps [simp del]

text \<open>
  \<open>x\<close> lies outside the \<open>n\<close> bytes at \<open>a\<close>; distances are taken round the 4 GiB address space.
\<close>

definition outside :: "u32 \<Rightarrow> nat \<Rightarrow> u32 \<Rightarrow> bool" where
  "outside a n x \<longleftrightarrow> n \<le> unat (x - a)"

lemma outside_neq: "outside a n x \<Longrightarrow> i < n \<Longrightarrow> n \<le> 4294967296 \<Longrightarrow> x \<noteq> a + word_of_nat i"
  by (auto simp: outside_def unat_word_of_nat_u32)

lemma outside_0: "outside a n x \<Longrightarrow> 0 < n \<Longrightarrow> x \<noteq> a"
  by (auto simp: outside_def)

lemma store32_other: "outside a 4 x \<Longrightarrow> store32 a v m x = m x"
  using outside_neq [of a 4 x 0] outside_neq [of a 4 x 1] outside_neq [of a 4 x 2]
    outside_neq [of a 4 x 3]
  by (simp add: store32_def)

lemma store8_other: "x \<noteq> a \<Longrightarrow> store8 a v m x = m x"
  by (simp add: store8_def)

lemma store8_same [simp]: "store8 a v m a = v"
  by (simp add: store8_def)

lemma load32_store32 [simp]: "load32 (store32 a v m) a = v"
proof -
  have "load32 (store32 a v m) a =
      ucast (ucast v :: u8) OR push_bit 8 (ucast (ucast (drop_bit 8 v) :: u8))
      OR push_bit 16 (ucast (ucast (drop_bit 16 v) :: u8))
      OR push_bit 24 (ucast (ucast (drop_bit 24 v) :: u8))"
    by (simp add: load32_def store32_def)
  also have "\<dots> = v"
  proof (rule bit_word_eqI)
    fix n assume n: "n < LENGTH(32)"
    then consider "n < 8" | "8 \<le> n" "n < 16" | "16 \<le> n" "n < 24" | "24 \<le> n" "n < 32"
      by fastforce
    then show "bit ((ucast (ucast v :: u8) :: u32) OR push_bit 8 (ucast (ucast (drop_bit 8 v) :: u8))
      OR push_bit 16 (ucast (ucast (drop_bit 16 v) :: u8))
      OR push_bit 24 (ucast (ucast (drop_bit 24 v) :: u8))) n = bit v n"
      by cases (auto simp: bit_simps)
  qed
  finally show ?thesis .
qed

lemma load32_cong:
  "(\<And>i. i < 4 \<Longrightarrow> m (a + word_of_nat i) = m' (a + word_of_nat i)) \<Longrightarrow> load32 m a = load32 m' a"
proof -
  assume h: "\<And>i. i < 4 \<Longrightarrow> m (a + word_of_nat i) = m' (a + word_of_nat i)"
  show ?thesis using h [of 0] h [of 1] h [of 2] h [of 3] by (simp add: load32_def)
qed

text \<open>Two double words are apart when each starts outside the other.\<close>

lemma outside_offset:
  assumes "outside a n x" "k + i \<le> n" "unat (x - a) + k < 4294967296"
  shows "outside (a + word_of_nat i) (n - i) (x + word_of_nat k)"
proof -
  have i: "unat (word_of_nat i :: u32) \<le> i" by (simp add: unat_of_nat)
  have k: "unat (word_of_nat k :: u32) = k" using assms(3) by (simp add: unat_of_nat)
  have "x + word_of_nat k - (a + word_of_nat i) = (x - a + word_of_nat k) - word_of_nat i"
    by simp
  moreover have s: "unat (x - a + word_of_nat k) = unat (x - a) + k"
    using assms(3) k by (simp add: unat_add_exact)
  moreover have "(word_of_nat i :: u32) \<le> x - a + word_of_nat k"
    using assms i s by (simp add: word_le_unat outside_def)
  ultimately have "unat (x + word_of_nat k - (a + word_of_nat i)) = unat (x - a) + k - unat (word_of_nat i :: u32)"
    by (simp only: unat_sub_exact)
  then show ?thesis using assms(1) i by (simp add: outside_def)
qed

lemma unat_distances: "(a :: u32) \<noteq> b \<Longrightarrow> unat (a - b) + unat (b - a) = 4294967296"
proof -
  assume "a \<noteq> b"
  have "(unat (a - b) + unat (b - a)) mod 4294967296 = unat (a - b + (b - a))"
    by (simp only: unat_add_mod)
  then have m: "(unat (a - b) + unat (b - a)) mod 4294967296 = 0" by simp
  have p: "0 < unat (a - b)" using \<open>a \<noteq> b\<close> by (simp add: unat_gt_0)
  have "x = 4294967296" if "x mod 4294967296 = 0" "0 < x" "x < 2 * 4294967296" for x :: nat
    using that by (auto elim!: dvdE simp: mod_eq_0_iff_dvd)
  from this [OF m] p unat_u32_bound [of "a - b"] unat_u32_bound [of "b - a"]
  show ?thesis by linarith
qed

lemma load32_store32_other:
  assumes "outside a 4 b" "outside b 4 a"
  shows "load32 (store32 a v m) b = load32 m b"
proof (rule load32_cong)
  fix i :: nat assume i: "i < 4"
  have "unat (b - a) + i < 4294967296"
  proof -
    have "b \<noteq> a" using assms(1) by (auto simp: outside_def)
    then have "unat (b - a) + unat (a - b) = 4294967296"
      by (rule unat_distances)
    then show ?thesis using assms(2) i unat_u32_bound [of "b - a"] unfolding outside_def by linarith
  qed
  then have "outside a 4 (b + word_of_nat i)"
    using outside_offset [of a 4 b i 0] assms(1) i by simp
  then show "store32 a v m (b + word_of_nat i) = m (b + word_of_nat i)"
    by (rule store32_other)
qed

lemma load32_frame:
  "(\<And>x. \<not> outside b 4 x \<Longrightarrow> m x = m' x) \<Longrightarrow> load32 m b = load32 m' b"
proof (rule load32_cong)
  fix i :: nat
  assume h: "\<And>x. \<not> outside b 4 x \<Longrightarrow> m x = m' x" and i: "i < 4"
  have "unat (b + word_of_nat i - b) = i" using i by (simp add: unat_of_nat)
  with i have "\<not> outside b 4 (b + word_of_nat i)" by (simp add: outside_def)
  then show "m (b + word_of_nat i) = m' (b + word_of_nat i)" by (rule h)
qed

lemma load32_store8_other: "outside b 4 a \<Longrightarrow> load32 (store8 a v m) b = load32 m b"
  by (rule load32_frame) (auto simp: store8_def)

text \<open>\<open>memset\<close> writes the \<open>n\<close> bytes from \<open>p\<close> on and no other.\<close>

lemma memset_byte:
  "memset p v n m x = (if unat (x - p) < unat n then v else m x)"
proof (induction p v n m rule: memset.induct)
  case (1 p v n m)
  show ?case
  proof (cases "n = 0")
    case True
    then show ?thesis by (simp add: memset.simps [of p v 0 m])
  next
    case False
    have d: "unat (x - (p + 1)) = unat (x - p) - 1" if "x \<noteq> p"
      using that unat_dec [of "x - p"] by (simp add: algebra_simps)
    show ?thesis
    proof (cases "x = p")
      case True
      have "\<not> unat (x - (p + 1)) < unat (n - 1)"
        using unat_u32_bound [of n] True False
        by (simp add: unat_dec unsigned_minus_1_eq_mask mask_eq_exp_minus_1)
      moreover have "unat (x - p) < unat n" using True False by (simp add: unat_gt_0)
      ultimately show ?thesis using True False 1 [OF False]
        by (simp add: memset.simps [of p v n m])
    next
      case ne: False
      have "0 < unat (x - p)" using ne by (simp add: unat_gt_0)
      then show ?thesis using ne False 1 [OF False] d [OF ne]
        by (simp add: memset.simps [of p v n m] store8_other unat_dec less_diff_conv)
    qed
  qed
qed

section \<open>The machine\<close>

text \<open>
  \<open>tlb\<close> holds the translations the processor may have cached, from page address to frame address.
\<close>

record machine =
  mem :: memory
  cr0 :: u32
  cr3 :: u32
  tlb :: "u32 \<rightharpoonup> u32"
  frames :: pmm
  con :: console

text \<open>The two static pointers of \<open>paging.c\<close>; the other components extend this record.\<close>

record paging = machine +
  current_directory :: u32
  kernel_directory :: u32

lemma mem_after_frames [simp]: "s\<lparr>frames := f, mem := m\<rparr> = s\<lparr>mem := m, frames := f\<rparr>"
  by simp

text \<open>\<open>terminal_write\<close> and \<open>warn\<close> on the machine's console.\<close>

definition terminal_print :: "string \<Rightarrow> 'a machine_scheme \<Rightarrow> 'a machine_scheme" where
  "terminal_print str s = s\<lparr>con := con s @ str\<rparr>"

definition warn_con :: "string \<Rightarrow> 'a machine_scheme \<Rightarrow> 'a machine_scheme" where
  "warn_con message s = s\<lparr>con := warn message (con s)\<rparr>"

end
