(* ===== verification/Kmalloc.thy ===== *)
theory Kmalloc
  imports Machine
begin

unbundle bit_operations_syntax

text \<open>
  The kernel heap, \<open>kernel/src/kmalloc.c\<close>: a doubly linked list of block headers kept in the
  heap's own memory, first-fit allocation with splitting, release with coalescing, and the break
  \<open>kbrk\<close>. Headers are read and written as bytes of memory, so that whether a write to one block
  disturbs another is a matter of addresses, and walks along the list are partial functions: a
  walk round a cycle has no result.
\<close>

section \<open>Headers in memory\<close>

record block_header =
  bsize :: u32
  bfree :: u8
  bnext :: u32
  bprev :: u32
  bmagic :: u32

abbreviation (input) BLOCK_MAGIC :: u32 where "BLOCK_MAGIC \<equiv> 0xDEADBEEF"
abbreviation (input) MIN_BLOCK_SIZE :: u32 where "MIN_BLOCK_SIZE \<equiv> 16"
abbreviation (input) ALIGNMENT :: u32 where "ALIGNMENT \<equiv> 8"

definition ALIGN :: "u32 \<Rightarrow> u32" where
  "ALIGN size' = (size' + (ALIGNMENT - 1)) AND NOT (ALIGNMENT - 1)"

text \<open>\<open>sizeof(block_header_t)\<close>: 4 + 1 (padded to 4) + 4 + 4 + 4 bytes.\<close>

abbreviation (input) SIZEOF_BLOCK_HEADER :: u32 where "SIZEOF_BLOCK_HEADER \<equiv> 20"

definition HEADER_SIZE :: u32 where
  "HEADER_SIZE = ALIGN SIZEOF_BLOCK_HEADER"

definition header :: "memory \<Rightarrow> u32 \<Rightarrow> block_header" where
  "header m b = \<lparr>bsize = load32 m b, bfree = m (b + 4), bnext = load32 m (b + 8),
     bprev = load32 m (b + 12), bmagic = load32 m (b + 16)\<rparr>"

definition set_size :: "u32 \<Rightarrow> u32 \<Rightarrow> memory \<Rightarrow> memory" where
  "set_size b v = store32 b v"

definition set_free :: "u32 \<Rightarrow> u8 \<Rightarrow> memory \<Rightarrow> memory" where
  "set_free b v = store8 (b + 4) v"

definition set_next :: "u32 \<Rightarrow> u32 \<Rightarrow> memory \<Rightarrow> memory" where
  "set_next b v = store32 (b + 8) v"

definition set_prev :: "u32 \<Rightarrow> u32 \<Rightarrow> memory \<Rightarrow> memory" where
  "set_prev b v = store32 (b + 12) v"

definition set_magic :: "u32 \<Rightarrow> u32 \<Rightarrow> memory \<Rightarrow> memory" where
  "set_magic b v = store32 (b + 16) v"

section \<open>State and operations\<close>

record kheap = paging +
  heap_start :: u32
  heap_end :: u32
  heap_max :: u32
  block_list :: u32
  total_allocations :: u32
  total_frees :: u32

text \<open>\<open>kernel_end\<close> is the address the linker gives the end of the image.\<close>

definition kmalloc_init :: "u32 \<Rightarrow> 'a kheap_scheme \<Rightarrow> 'a kheap_scheme" where
  "kmalloc_init kernel_end s =
     (let s = s\<lparr>heap_start := PAGE_ALIGN_UP (kernel_end + 0x10000)\<rparr>;
          s = s\<lparr>heap_end := heap_start s\<rparr>;
          s = s\<lparr>heap_max := heap_start s + 8 * 1024 * 1024\<rparr>;
          s = s\<lparr>frames := pmm_mark_region_used (heap_start s) (heap_max s - heap_start s) (frames s)\<rparr>
      in s\<lparr>block_list := NULL, total_allocations := 0, total_frees := 0\<rparr>)"

definition kbrk :: "i32 \<Rightarrow> 'a kheap_scheme \<Rightarrow> u32 \<times> 'a kheap_scheme" where
  "kbrk increment s =
     (let old_end = heap_end s in
      if increment = 0 then (heap_end s, s)
      else if 0 <s increment then
        let new_end = heap_end s + increment in
        if heap_max s < new_end then (MINUS1, warn_con ''kbrk: Heap would exceed maximum size'' s)
        else (old_end, s\<lparr>heap_end := new_end\<rparr>)
      else
        let new_end = heap_end s + increment;
            new_end = (if new_end < heap_start s then heap_start s else new_end)
        in (old_end, s\<lparr>heap_end := new_end\<rparr>))"

partial_function (option) find_free_from :: "memory \<Rightarrow> u32 \<Rightarrow> u32 \<Rightarrow> u32 option" where
  "find_free_from m size' current =
     (if current = NULL then Some NULL
      else if bfree (header m current) \<noteq> 0 \<and> size' \<le> bsize (header m current) then Some current
      else find_free_from m size' (bnext (header m current)))"

definition find_free_block :: "'a kheap_scheme \<Rightarrow> u32 \<Rightarrow> u32 option" where
  "find_free_block s size' = find_free_from (mem s) size' (block_list s)"

definition split_block :: "u32 \<Rightarrow> u32 \<Rightarrow> memory \<Rightarrow> memory" where
  "split_block block size' m =
     (if size' + HEADER_SIZE + MIN_BLOCK_SIZE \<le> bsize (header m block) then
        let new_block = block + HEADER_SIZE + size';
            m = set_size new_block (bsize (header m block) - size' - HEADER_SIZE) m;
            m = set_free new_block 1 m;
            m = set_magic new_block BLOCK_MAGIC m;
            m = set_next new_block (bnext (header m block)) m;
            m = set_prev new_block block m;
            m = (if bnext (header m block) \<noteq> NULL
                 then set_prev (bnext (header m block)) new_block m else m);
            m = set_next block new_block m
        in set_size block size' m
      else m)"

definition coalesce_blocks :: "u32 \<Rightarrow> memory \<Rightarrow> memory" where
  "coalesce_blocks block m =
     (let m = (if bnext (header m block) \<noteq> NULL \<and> bfree (header m (bnext (header m block))) \<noteq> 0 then
          let m = set_size block (bsize (header m block)
                    + (HEADER_SIZE + bsize (header m (bnext (header m block))))) m;
              m = set_next block (bnext (header m (bnext (header m block)))) m
          in if bnext (header m block) \<noteq> NULL then set_prev (bnext (header m block)) block m else m
        else m)
      in if bprev (header m block) \<noteq> NULL \<and> bfree (header m (bprev (header m block))) \<noteq> 0 then
          let m = set_size (bprev (header m block)) (bsize (header m (bprev (header m block)))
                    + (HEADER_SIZE + bsize (header m block))) m;
              m = set_next (bprev (header m block)) (bnext (header m block)) m
          in if bnext (header m block) \<noteq> NULL
             then set_prev (bnext (header m block)) (bprev (header m block)) m else m
        else m)"

text \<open>The walk to the last block, \<open>while (last->next) last = last->next\<close>.\<close>

partial_function (option) last_block_from :: "memory \<Rightarrow> u32 \<Rightarrow> u32 option" where
  "last_block_from m l =
     (if bnext (header m l) \<noteq> NULL then last_block_from m (bnext (header m l)) else Some l)"

definition kmalloc :: "u32 \<Rightarrow> 'a kheap_scheme \<Rightarrow> (u32 \<times> 'a kheap_scheme) option" where
  "kmalloc size' s =
     (if size' = 0 then Some (NULL, s)
      else
        let size' = ALIGN size';
            size' = (if size' < MIN_BLOCK_SIZE then MIN_BLOCK_SIZE else size')
        in case find_free_block s size' of
          None \<Rightarrow> None
        | Some block \<Rightarrow>
          if block \<noteq> NULL then
            let s = s\<lparr>mem := split_block block size' (mem s)\<rparr>;
                s = s\<lparr>mem := set_free block 0 (mem s)\<rparr>;
                s = s\<lparr>total_allocations := total_allocations s + 1\<rparr>
            in Some (block + HEADER_SIZE, s)
          else
            let total_size = HEADER_SIZE + size';
                (new_memory, s) = kbrk total_size s
            in if new_memory = MINUS1 then Some (NULL, s)
               else
                 let block = new_memory;
                     m = set_size block size' (mem s);
                     m = set_free block 0 m;
                     m = set_magic block BLOCK_MAGIC m;
                     m = set_next block NULL m;
                     m = set_prev block NULL m
                 in if block_list s = NULL then
                      Some (block + HEADER_SIZE, s\<lparr>mem := m, block_list := block,
                        total_allocations := total_allocations s + 1\<rparr>)
                    else
                      case last_block_from m (block_list s) of
                        None \<Rightarrow> None
                      | Some l \<Rightarrow>
                          let m = set_next l block m;
                              m = set_prev block l m
                          in Some (block + HEADER_SIZE, s\<lparr>mem := m,
                               total_allocations := total_allocations s + 1\<rparr>))"

definition kmalloc_aligned ::
  "u32 \<Rightarrow> u32 \<Rightarrow> 'a kheap_scheme \<Rightarrow> (u32 \<times> 'a kheap_scheme) option" where
  "kmalloc_aligned size' alignment s =
     (case kmalloc (size' + alignment) s of
        None \<Rightarrow> None
      | Some (ptr, s) \<Rightarrow>
          if ptr = NULL then Some (NULL, s)
          else Some ((ptr + alignment - 1) AND NOT (alignment - 1), s))"

definition kfree :: "u32 \<Rightarrow> 'a kheap_scheme \<Rightarrow> 'a kheap_scheme outcome" where
  "kfree ptr s =
     (if ptr = NULL then Inr s
      else
        let block = ptr - HEADER_SIZE in
        if bmagic (header (mem s) block) \<noteq> BLOCK_MAGIC then
          Inl (Panic ''kfree: Invalid block (corrupted or double-free)'')
        else if bfree (header (mem s) block) \<noteq> 0 then
          Inr (warn_con ''kfree: Block already free (double-free attempt)'' s)
        else
          let s = s\<lparr>mem := set_free block 1 (mem s)\<rparr>;
              s = s\<lparr>total_frees := total_frees s + 1\<rparr>
          in Inr (s\<lparr>mem := coalesce_blocks block (mem s)\<rparr>))"

definition ksize :: "u32 \<Rightarrow> 'a kheap_scheme \<Rightarrow> u32" where
  "ksize ptr s =
     (if ptr = NULL then 0
      else
        let block = ptr - HEADER_SIZE in
        if bmagic (header (mem s) block) \<noteq> BLOCK_MAGIC then 0
        else bsize (header (mem s) block))"

record kmalloc_stats =
  heap_size :: u32
  used_size :: u32
  free_size :: u32
  num_allocations :: u32
  num_free_blocks :: u32

partial_function (option) stats_from :: "memory \<Rightarrow> u32 \<Rightarrow> kmalloc_stats \<Rightarrow> kmalloc_stats option" where
  "stats_from m current stats =
     (if current = NULL then Some stats
      else stats_from m (bnext (header m current))
        (if bfree (header m current) \<noteq> 0 then
           stats\<lparr>free_size := free_size stats + bsize (header m current),
                 num_free_blocks := num_free_blocks stats + 1\<rparr>
         else
           stats\<lparr>used_size := used_size stats + (bsize (header m current) + HEADER_SIZE),
                 num_allocations := num_allocations stats + 1\<rparr>))"

definition kmalloc_get_stats :: "'a kheap_scheme \<Rightarrow> kmalloc_stats option" where
  "kmalloc_get_stats s =
     stats_from (mem s) (block_list s)
       \<lparr>heap_size = heap_end s - heap_start s, used_size = 0, free_size = 0,
        num_allocations = 0, num_free_blocks = 0\<rparr>"

section \<open>Writing one header\<close>

lemma HEADER_SIZE_eq [simp]: "HEADER_SIZE = 24"
  by (simp add: HEADER_SIZE_def ALIGN_def)

lemmas header_setters = set_size_def set_free_def set_next_def set_prev_def set_magic_def

lemma outside_field: "outside b 20 x \<Longrightarrow> i + 4 \<le> 20 \<Longrightarrow> outside (b + word_of_nat i) 4 x"
  using outside_offset [of b 20 x 0 i] unat_u32_bound [of "x - b"] by (simp add: outside_def)

lemma header_setters_other:
  assumes "outside b 20 x"
  shows "set_size b v m x = m x" "set_free b w m x = m x" "set_next b v m x = m x"
    "set_prev b v m x = m x" "set_magic b v m x = m x"
  using outside_field [OF assms, of 0] outside_field [OF assms, of 4] outside_field [OF assms, of 8]
    outside_field [OF assms, of 12] outside_field [OF assms, of 16] outside_0 [of "b + 4" 4 x]
  by (simp_all add: header_setters store32_other store8_other)

lemma header_set_same [simp]:
  "header (set_size b v m) b = (header m b)\<lparr>bsize := v\<rparr>"
  "header (set_free b w m) b = (header m b)\<lparr>bfree := w\<rparr>"
  "header (set_next b v m) b = (header m b)\<lparr>bnext := v\<rparr>"
  "header (set_prev b v m) b = (header m b)\<lparr>bprev := v\<rparr>"
  "header (set_magic b v m) b = (header m b)\<lparr>bmagic := v\<rparr>"
  by (simp_all add: header_def header_setters load32_store32_other
      load32_store8_other outside_def store32_other)

text \<open>Two headers are apart when neither starts inside the other.\<close>

definition apart :: "u32 \<Rightarrow> u32 \<Rightarrow> bool" where
  "apart b c \<longleftrightarrow> outside b 20 c \<and> outside c 20 b"

lemma apart_sym: "apart b c \<Longrightarrow> apart c b"
  by (simp add: apart_def)

lemma apart_bytes:
  assumes "apart b c" "unat (x - c) < 20"
  shows "outside b 20 x"
proof -
  have "b \<noteq> c" using assms(1) by (auto simp: apart_def outside_def)
  then have "unat (c - b) + unat (b - c) = 4294967296" using unat_distances [of c b] by simp
  moreover have "20 \<le> unat (c - b)" "20 \<le> unat (b - c)"
    using assms(1) by (simp_all add: apart_def outside_def)
  ultimately have "unat (x - c) + unat (c - b) < 4294967296" "20 \<le> unat (x - c) + unat (c - b)"
    using assms(2) by linarith+
  then have "20 \<le> unat ((x - c) + (c - b))" by (simp only: unat_add_exact)
  then show ?thesis by (simp add: outside_def)
qed

lemma header_frame:
  assumes "\<And>x. unat (x - c) < 20 \<Longrightarrow> m x = m' x"
  shows "header m c = header m' c"
proof -
  have f: "load32 m (c + word_of_nat i) = load32 m' (c + word_of_nat i)" if "i + 4 \<le> 20" for i
  proof (rule load32_frame)
    fix x assume "\<not> outside (c + word_of_nat i) 4 x"
    then have "\<not> outside c 20 x" using that outside_field by blast
    then show "m x = m' x" by (intro assms) (simp add: outside_def)
  qed
  have "m (c + 4) = m' (c + 4)" by (rule assms) simp
  with f [of 0] f [of 8] f [of 12] f [of 16] show ?thesis by (simp add: header_def)
qed

lemma header_set_apart:
  assumes "apart b c"
  shows "header (set_size b v m) c = header m c" "header (set_free b w m) c = header m c"
    "header (set_next b v m) c = header m c" "header (set_prev b v m) c = header m c"
    "header (set_magic b v m) c = header m c"
  by (rule header_frame, simp add: header_setters_other apart_bytes [OF assms])+

section \<open>The heap as a list of blocks\<close>

text \<open>
  The abstract heap: blocks in address order. \<open>dll m pv bs nx\<close> says the headers in memory are
  those of \<open>bs\<close>, doubly linked, between a predecessor \<open>pv\<close> and a successor \<open>nx\<close>;
  \<open>tiles lo bs hi\<close> that the blocks with their headers fill the addresses from \<open>lo\<close> to \<open>hi\<close>.
\<close>

record heap_block =
  at :: u32
  sz :: u32
  avail :: bool

primrec first_at :: "heap_block list \<Rightarrow> u32 \<Rightarrow> u32" where
  "first_at [] nx = nx"
| "first_at (b # bs) nx = at b"

primrec last_at :: "heap_block list \<Rightarrow> u32 \<Rightarrow> u32" where
  "last_at [] pv = pv"
| "last_at (b # bs) pv = last_at bs (at b)"

definition header_of :: "heap_block \<Rightarrow> u32 \<Rightarrow> u32 \<Rightarrow> block_header" where
  "header_of b pv nx = \<lparr>bsize = sz b, bfree = (if avail b then 1 else 0), bnext = nx, bprev = pv,
     bmagic = BLOCK_MAGIC\<rparr>"

primrec dll :: "memory \<Rightarrow> u32 \<Rightarrow> heap_block list \<Rightarrow> u32 \<Rightarrow> bool" where
  "dll m pv [] nx \<longleftrightarrow> True"
| "dll m pv (b # bs) nx \<longleftrightarrow>
     header m (at b) = header_of b pv (first_at bs nx) \<and> dll m (at b) bs nx"

primrec tiles :: "nat \<Rightarrow> heap_block list \<Rightarrow> nat \<Rightarrow> bool" where
  "tiles lo [] hi \<longleftrightarrow> lo = hi"
| "tiles lo (b # bs) hi \<longleftrightarrow> unat (at b) = lo \<and> 16 \<le> unat (sz b) \<and> 8 dvd unat (sz b) \<and>
     tiles (lo + 24 + unat (sz b)) bs hi"

text \<open>No two neighbouring blocks are free.\<close>

definition coalesced :: "heap_block list \<Rightarrow> bool" where
  "coalesced bs \<longleftrightarrow> successively (\<lambda>a b. \<not> (avail a \<and> avail b)) bs"

definition heap_bounds :: "'a kheap_scheme \<Rightarrow> bool" where
  "heap_bounds s \<longleftrightarrow> 0 < unat (heap_start s) \<and> 8 dvd unat (heap_start s) \<and>
     heap_end s \<le> heap_max s \<and> unat (heap_max s) \<le> 0x80000000"

definition heap_rep :: "'a kheap_scheme \<Rightarrow> heap_block list \<Rightarrow> bool" where
  "heap_rep s bs \<longleftrightarrow> heap_bounds s \<and> block_list s = first_at bs NULL \<and> dll (mem s) NULL bs NULL \<and>
     tiles (unat (heap_start s)) bs (unat (heap_end s)) \<and> coalesced bs"

lemma first_at_append: "first_at (xs @ ys) nx = first_at xs (first_at ys nx)"
  by (cases xs) simp_all

lemma last_at_append: "last_at (xs @ ys) pv = last_at ys (last_at xs pv)"
  by (induction xs arbitrary: pv) simp_all

lemma dll_append: "dll m pv (xs @ ys) nx \<longleftrightarrow> dll m pv xs (first_at ys nx) \<and> dll m (last_at xs pv) ys nx"
  by (induction xs arbitrary: pv) (simp_all add: first_at_append)

lemma tiles_append: "tiles lo (xs @ ys) hi \<longleftrightarrow> (\<exists>mid. tiles lo xs mid \<and> tiles mid ys hi)"
  by (induction xs arbitrary: lo) auto

lemma tiles_le: "tiles lo bs hi \<Longrightarrow> lo \<le> hi"
  by (induction bs arbitrary: lo) force+

lemma tiles_mem:
  "tiles lo bs hi \<Longrightarrow> b \<in> set bs \<Longrightarrow>
     lo \<le> unat (at b) \<and> unat (at b) + 24 + unat (sz b) \<le> hi \<and> 16 \<le> unat (sz b) \<and> 8 dvd unat (sz b)"
proof (induction bs arbitrary: lo)
  case (Cons a bs)
  then show ?case using tiles_le [of "unat (at a) + 24 + unat (sz a)" bs hi] by fastforce
qed simp

lemma apart_below: "unat b + 20 \<le> unat c \<Longrightarrow> unat c + 20 \<le> unat b + 4294967296 \<Longrightarrow> apart b c"
proof -
  assume le: "unat b + 20 \<le> unat c" and wrap: "unat c + 20 \<le> unat b + 4294967296"
  then have "b \<le> c" "b \<noteq> c" by (auto simp: word_le_unat)
  then have "unat (c - b) = unat c - unat b" by (simp add: unat_sub_exact)
  moreover from \<open>b \<noteq> c\<close> have "unat (c - b) + unat (b - c) = 4294967296"
    using unat_distances [of c b] by simp
  ultimately show ?thesis using le wrap unfolding apart_def outside_def by linarith
qed

lemma tiles_apart:
  assumes "tiles lo bs mid" "b \<in> set bs" "mid \<le> unat c" "unat c + 20 \<le> 4294967296"
  shows "apart (at b) c" "apart c (at b)"
proof -
  have "unat (at b) + 24 + unat (sz b) \<le> mid" using assms tiles_mem by blast
  then show "apart (at b) c" using assms by (intro apart_below) auto
  then show "apart c (at b)" by (rule apart_sym)
qed

text \<open>Writing one header leaves the list of the others in place.\<close>

lemma dll_frame:
  "(\<And>b. b \<in> set bs \<Longrightarrow> header m' (at b) = header m (at b)) \<Longrightarrow> dll m' pv bs nx = dll m pv bs nx"
  by (induction bs arbitrary: pv) simp_all

lemma tiles_sorted_apart:
  "tiles lo bs hi \<Longrightarrow> hi \<le> 0x80000000 \<Longrightarrow> sorted_wrt apart (map at bs)"
proof (induction bs arbitrary: lo)
  case (Cons b bs)
  then have t: "tiles (unat (at b) + 24 + unat (sz b)) bs hi" by simp
  have "apart (at b) (at c)" if "c \<in> set bs" for c
    using tiles_mem [OF t that] Cons.prems(2) by (intro apart_below) auto
  then show ?case using Cons.IH [OF t Cons.prems(2)] by simp
qed simp

lemma tiles_nonnull: "tiles lo bs hi \<Longrightarrow> 0 < lo \<Longrightarrow> b \<in> set bs \<Longrightarrow> at b \<noteq> NULL"
  using tiles_mem [of lo bs hi b] by force

section \<open>Splitting and merging\<close>

lemma split_block_headers:
  fixes block n m
  defines "h \<equiv> header m block" and "new \<equiv> block + 24 + n" and "m' \<equiv> split_block block n m"
  assumes fit: "n + 40 \<le> bsize h"
    and ap: "apart new block" "bnext h \<noteq> NULL \<Longrightarrow> apart (bnext h) new \<and> apart (bnext h) block"
  shows "header m' block = h\<lparr>bsize := n, bnext := new\<rparr>"
    and "header m' new = \<lparr>bsize = bsize h - n - 24, bfree = 1, bnext = bnext h, bprev = block,
           bmagic = BLOCK_MAGIC\<rparr>"
    and "bnext h \<noteq> NULL \<Longrightarrow> header m' (bnext h) = (header m (bnext h))\<lparr>bprev := new\<rparr>"
    and "apart new c \<Longrightarrow> apart block c \<Longrightarrow> (bnext h \<noteq> NULL \<Longrightarrow> apart (bnext h) c) \<Longrightarrow>
           header m' c = header m c"
    and "outside new 20 x \<Longrightarrow> outside block 20 x \<Longrightarrow> (bnext h \<noteq> NULL \<Longrightarrow> outside (bnext h) 20 x) \<Longrightarrow>
           m' x = m x"
proof -
  note ap' = ap(1) apart_sym [OF ap(1)]
  have fit': "n + 24 + 16 \<le> bsize h" using fit by (simp add: add.assoc)
  have eq: "m' = set_size block n (set_next block new
      ((if bnext h \<noteq> NULL then set_prev (bnext h) new else id)
        (set_prev new block (set_next new (bnext h) (set_magic new BLOCK_MAGIC
          (set_free new 1 (set_size new (bsize h - n - 24) m)))))))"
    using fit'
    by (simp add: m'_def split_block_def h_def new_def [symmetric] Let_def
        header_set_apart [OF ap(1)])
  have nx: "bnext h \<noteq> NULL \<Longrightarrow> apart new (bnext h)" "bnext h \<noteq> NULL \<Longrightarrow> apart block (bnext h)"
    "bnext h \<noteq> NULL \<Longrightarrow> apart (bnext h) new" "bnext h \<noteq> NULL \<Longrightarrow> apart (bnext h) block"
    using ap(2) apart_sym by blast+
  show "header m' block = h\<lparr>bsize := n, bnext := new\<rparr>"
    using nx by (simp add: eq header_set_apart ap' h_def)
  show "header m' new = \<lparr>bsize = bsize h - n - 24, bfree = 1, bnext = bnext h, bprev = block,
           bmagic = BLOCK_MAGIC\<rparr>"
    using nx by (simp add: eq header_set_apart ap')
  show "bnext h \<noteq> NULL \<Longrightarrow> header m' (bnext h) = (header m (bnext h))\<lparr>bprev := new\<rparr>"
    using nx by (simp add: eq header_set_apart)
  show "apart new c \<Longrightarrow> apart block c \<Longrightarrow> (bnext h \<noteq> NULL \<Longrightarrow> apart (bnext h) c) \<Longrightarrow>
           header m' c = header m c"
    by (simp add: eq header_set_apart)
  show "outside new 20 x \<Longrightarrow> outside block 20 x \<Longrightarrow> (bnext h \<noteq> NULL \<Longrightarrow> outside (bnext h) 20 x) \<Longrightarrow>
           m' x = m x"
    by (simp add: eq header_setters_other)
qed

text \<open>
  Both halves of \<open>coalesce_blocks\<close> absorb the successor of a block: of the block itself, and of
  its predecessor.
\<close>

definition absorb_next :: "u32 \<Rightarrow> memory \<Rightarrow> memory" where
  "absorb_next block m =
     (let nx = bnext (header m block); nn = bnext (header m nx);
          m = set_next block nn (set_size block (bsize (header m block) + (24 + bsize (header m nx))) m)
      in if nn \<noteq> NULL then set_prev nn block m else m)"

lemma absorb_next_headers:
  fixes block m
  defines "h \<equiv> header m block" and "m' \<equiv> absorb_next block m"
  defines "hn \<equiv> header m (bnext h)"
  assumes ap: "bnext hn \<noteq> NULL \<Longrightarrow> apart block (bnext hn)"
  shows "header m' block = h\<lparr>bsize := bsize h + (24 + bsize hn), bnext := bnext hn\<rparr>"
    and "bnext hn \<noteq> NULL \<Longrightarrow> header m' (bnext hn) = (header m (bnext hn))\<lparr>bprev := block\<rparr>"
    and "apart block c \<Longrightarrow> (bnext hn \<noteq> NULL \<Longrightarrow> apart (bnext hn) c) \<Longrightarrow> header m' c = header m c"
    and "outside block 20 x \<Longrightarrow> (bnext hn \<noteq> NULL \<Longrightarrow> outside (bnext hn) 20 x) \<Longrightarrow> m' x = m x"
proof -
  have nn: "bnext hn \<noteq> NULL \<Longrightarrow> apart block (bnext hn)" "bnext hn \<noteq> NULL \<Longrightarrow> apart (bnext hn) block"
    using ap apart_sym by blast+
  note eq = m'_def absorb_next_def Let_def h_def [symmetric] hn_def [symmetric]
  show "header m' block = h\<lparr>bsize := bsize h + (24 + bsize hn), bnext := bnext hn\<rparr>"
    using nn by (simp add: eq header_set_apart)
  show "bnext hn \<noteq> NULL \<Longrightarrow> header m' (bnext hn) = (header m (bnext hn))\<lparr>bprev := block\<rparr>"
    using nn by (simp add: eq header_set_apart)
  show "apart block c \<Longrightarrow> (bnext hn \<noteq> NULL \<Longrightarrow> apart (bnext hn) c) \<Longrightarrow> header m' c = header m c"
    by (simp add: eq header_set_apart)
  show "outside block 20 x \<Longrightarrow> (bnext hn \<noteq> NULL \<Longrightarrow> outside (bnext hn) 20 x) \<Longrightarrow> m' x = m x"
    by (simp add: eq header_setters_other)
qed

text \<open>The remainder \<open>split_block\<close> cuts off a block.\<close>

definition rest_block :: "heap_block \<Rightarrow> u32 \<Rightarrow> heap_block" where
  "rest_block b n = \<lparr>at = at b + 24 + n, sz = sz b - n - 24, avail = True\<rparr>"

lemma dll_Cons_apart:
  "sorted_wrt apart (map at (xs @ b # ys)) \<Longrightarrow> c \<in> set xs \<union> set ys \<Longrightarrow> apart (at b) (at c)"
  by (auto simp: sorted_wrt_append intro: apart_sym)

lemma first_at_nonnull: "first_at ys NULL \<noteq> NULL \<Longrightarrow> \<exists>y ys'. ys = y # ys'"
  by (cases ys) simp_all

lemma split_block_dll:
  assumes dll: "dll m pv (xs @ b # ys) NULL"
    and fit: "n + 40 \<le> sz b"
    and sorted: "sorted_wrt apart (map at (xs @ b\<lparr>sz := n\<rparr> # rest_block b n # ys))"
    and nonnull: "\<And>c. c \<in> set ys \<Longrightarrow> at c \<noteq> NULL"
  shows "dll (split_block (at b) n m) pv (xs @ b\<lparr>sz := n\<rparr> # rest_block b n # ys) NULL"
proof -
  let ?new = "at b + 24 + n" and ?m = "split_block (at b) n m" and ?nx = "first_at ys NULL"
  have h: "header m (at b) = header_of b (last_at xs pv) ?nx"
    using dll by (simp add: dll_append)
  have ap: "apart ?new (at b)" "\<And>c. c \<in> set xs \<union> set ys \<Longrightarrow> apart ?new (at c) \<and> apart (at b) (at c)"
    using sorted by (auto simp: sorted_wrt_append rest_block_def intro: apart_sym)
  have nx: "?nx \<noteq> NULL \<Longrightarrow> apart ?nx ?new \<and> apart ?nx (at b)"
    using ap(2) apart_sym by (cases ys) auto
  note hs = split_block_headers [of n m "at b", unfolded h header_of_def, simplified, OF fit ap(1)]
  have other: "header ?m (at c) = header m (at c)"
    if "c \<in> set xs \<union> set ys" "?nx \<noteq> NULL \<Longrightarrow> apart ?nx (at c)" for c
    using hs(4) [of "at c"] nx that ap(2) [OF that(1)] by simp
  have xs: "dll ?m pv xs (at b)"
  proof -
    have "apart ?nx (at c)" if "c \<in> set xs" "?nx \<noteq> NULL" for c
      using that sorted by (cases ys) (auto simp: sorted_wrt_append intro: apart_sym)
    then have "dll ?m pv xs (at b) = dll m pv xs (at b)"
      by (intro dll_frame other) auto
    then show ?thesis using dll by (simp add: dll_append)
  qed
  have ys: "dll ?m ?new ys NULL"
  proof (cases ys)
    case (Cons y ys')
    have "dll ?m (at y) ys' NULL = dll m (at y) ys' NULL"
      using sorted Cons by (intro dll_frame other) (auto simp: sorted_wrt_append)
    moreover have "header ?m (at y) = (header m (at y))\<lparr>bprev := ?new\<rparr>"
      using hs(3) nx Cons nonnull [of y] by simp
    ultimately show ?thesis using dll Cons by (simp add: dll_append header_of_def)
  qed simp
  have "header ?m (at b) = header_of (b\<lparr>sz := n\<rparr>) (last_at xs pv) ?new"
    and "header ?m ?new = header_of (rest_block b n) (at b) ?nx"
    using hs(1,2) nx by (simp_all add: header_of_def rest_block_def)
  with xs ys show ?thesis by (simp add: dll_append rest_block_def)
qed

lemma split_block_bytes:
  assumes dll: "dll m pv (xs @ b # ys) NULL"
    and fit: "n + 40 \<le> sz b"
    and sorted: "sorted_wrt apart (map at (xs @ b\<lparr>sz := n\<rparr> # rest_block b n # ys))"
    and x: "outside (at b) 20 x" "outside (at (rest_block b n)) 20 x" "\<forall>c \<in> set ys. outside (at c) 20 x"
  shows "split_block (at b) n m x = m x"
proof -
  have h: "header m (at b) = header_of b (last_at xs pv) (first_at ys NULL)"
    using dll by (simp add: dll_append)
  have "apart (at b + 24 + n) (at b)"
    using sorted by (auto simp: sorted_wrt_append rest_block_def intro: apart_sym)
  moreover have "first_at ys NULL \<noteq> NULL \<Longrightarrow>
      apart (first_at ys NULL) (at b + 24 + n) \<and> apart (first_at ys NULL) (at b)"
    using sorted by (cases ys) (auto simp: sorted_wrt_append rest_block_def intro: apart_sym)
  moreover have "first_at ys NULL \<noteq> NULL \<Longrightarrow> outside (first_at ys NULL) 20 x"
    using x(3) by (cases ys) simp_all
  ultimately show ?thesis
    using split_block_headers(5) [of n m "at b" x] h x(1,2) fit by (simp add: header_of_def rest_block_def)
qed

lemma absorb_next_dll:
  assumes dll: "dll m pv (xs @ b # c # ys) NULL"
    and sorted: "sorted_wrt apart (map at (xs @ b # c # ys))"
    and nonnull: "\<And>d. d \<in> set ys \<Longrightarrow> at d \<noteq> NULL"
  shows "dll (absorb_next (at b) m) pv (xs @ b\<lparr>sz := sz b + (24 + sz c)\<rparr> # ys) NULL"
proof -
  let ?m = "absorb_next (at b) m" and ?nn = "first_at ys NULL"
  have h: "header m (at b) = header_of b (last_at xs pv) (at c)"
    "header m (at c) = header_of c (at b) ?nn"
    using dll by (simp_all add: dll_append)
  have ap: "\<And>d. d \<in> set xs \<union> set ys \<Longrightarrow> apart (at b) (at d)"
    using sorted by (auto simp: sorted_wrt_append intro: apart_sym)
  have nn: "?nn \<noteq> NULL \<Longrightarrow> apart (at b) ?nn"
    using ap by (cases ys) auto
  note hs = absorb_next_headers [of m "at b", unfolded h header_of_def, simplified, unfolded h header_of_def, simplified]
  have other: "header ?m (at d) = header m (at d)"
    if "d \<in> set xs \<union> set ys" "?nn \<noteq> NULL \<Longrightarrow> apart ?nn (at d)" for d
    using hs(3) [of "at d"] nn that ap [OF that(1)] by simp
  have xs: "dll ?m pv xs (at b)"
  proof -
    have "apart ?nn (at d)" if "d \<in> set xs" "?nn \<noteq> NULL" for d
      using that sorted by (cases ys) (auto simp: sorted_wrt_append intro: apart_sym)
    then have "dll ?m pv xs (at b) = dll m pv xs (at b)"
      by (intro dll_frame other) auto
    then show ?thesis using dll by (simp add: dll_append)
  qed
  have ys: "dll ?m (at b) ys NULL"
  proof (cases ys)
    case (Cons y ys')
    have "dll ?m (at y) ys' NULL = dll m (at y) ys' NULL"
      using sorted Cons by (intro dll_frame other) (auto simp: sorted_wrt_append)
    moreover have "header ?m (at y) = (header m (at y))\<lparr>bprev := at b\<rparr>"
      using hs(2) nn Cons nonnull [of y] by simp
    ultimately show ?thesis using dll Cons by (simp add: dll_append header_of_def)
  qed simp
  have "header ?m (at b) = header_of (b\<lparr>sz := sz b + (24 + sz c)\<rparr>) (last_at xs pv) ?nn"
    using hs(1) nn by (simp add: header_of_def)
  with xs ys show ?thesis by (simp add: dll_append)
qed

definition absorb :: "heap_block \<Rightarrow> heap_block \<Rightarrow> heap_block" where
  "absorb b c = b\<lparr>sz := sz b + (24 + sz c)\<rparr>"

fun merge_right :: "heap_block \<Rightarrow> heap_block list \<Rightarrow> heap_block list" where
  "merge_right b [] = [b]"
| "merge_right b (y # ys) = (if avail y then absorb b y # ys else b # y # ys)"

fun merge_left :: "heap_block list \<Rightarrow> heap_block list \<Rightarrow> heap_block list" where
  "merge_left xs [] = xs"
| "merge_left xs (b # ys) =
     (if xs \<noteq> [] \<and> avail (last xs) then butlast xs @ absorb (last xs) b # ys else xs @ b # ys)"

definition coalesce_next :: "u32 \<Rightarrow> memory \<Rightarrow> memory" where
  "coalesce_next block m =
     (if bnext (header m block) \<noteq> NULL \<and> bfree (header m (bnext (header m block))) \<noteq> 0
      then absorb_next block m else m)"

definition coalesce_prev :: "u32 \<Rightarrow> memory \<Rightarrow> memory" where
  "coalesce_prev block m =
     (if bprev (header m block) \<noteq> NULL \<and> bfree (header m (bprev (header m block))) \<noteq> 0
      then absorb_next (bprev (header m block)) m else m)"

lemma coalesce_blocks_eq:
  fixes block m
  defines "m' \<equiv> coalesce_next block m"
  assumes nx: "bnext (header m block) \<noteq> NULL \<Longrightarrow> apart block (bnext (header m block))"
    and pv: "bprev (header m' block) \<noteq> NULL \<Longrightarrow> apart (bprev (header m' block)) block \<and>
      bnext (header m' (bprev (header m' block))) = block"
  shows "coalesce_blocks block m = coalesce_prev block m'"
proof -
  have "m' = (if bnext (header m block) \<noteq> NULL \<and> bfree (header m (bnext (header m block))) \<noteq> 0 then
          let m = set_size block (bsize (header m block)
                    + (HEADER_SIZE + bsize (header m (bnext (header m block))))) m;
              m = set_next block (bnext (header m (bnext (header m block)))) m
          in if bnext (header m block) \<noteq> NULL then set_prev (bnext (header m block)) block m else m
        else m)"
    using nx by (simp add: m'_def coalesce_next_def absorb_next_def Let_def header_set_apart)
  then have "coalesce_blocks block m =
      (if bprev (header m' block) \<noteq> NULL \<and> bfree (header m' (bprev (header m' block))) \<noteq> 0 then
          let m = set_size (bprev (header m' block)) (bsize (header m' (bprev (header m' block)))
                    + (HEADER_SIZE + bsize (header m' block))) m';
              m = set_next (bprev (header m block)) (bnext (header m block)) m
          in if bnext (header m block) \<noteq> NULL
             then set_prev (bnext (header m block)) (bprev (header m block)) m else m
        else m')"
    by (simp add: coalesce_blocks_def Let_def)
  also have "\<dots> = coalesce_prev block m'"
    using pv by (simp add: coalesce_prev_def absorb_next_def Let_def header_set_apart)
  finally show ?thesis .
qed

lemma coalesce_next_dll:
  assumes dll: "dll m pv (xs @ b # ys) NULL"
    and sorted: "sorted_wrt apart (map at (xs @ b # ys))"
    and nonnull: "\<And>d. d \<in> set ys \<Longrightarrow> at d \<noteq> NULL"
  shows "dll (coalesce_next (at b) m) pv (xs @ merge_right b ys) NULL"
proof (cases ys)
  case Nil
  then show ?thesis using dll by (simp add: dll_append coalesce_next_def header_of_def)
next
  case (Cons y ys')
  have "header m (at b) = header_of b (last_at xs pv) (at y)"
    "bfree (header m (at y)) = (if avail y then 1 else 0)"
    using dll Cons by (simp_all add: dll_append header_of_def)
  moreover have "at y \<noteq> NULL" using nonnull Cons by simp
  ultimately have "coalesce_next (at b) m = (if avail y then absorb_next (at b) m else m)"
    by (simp add: coalesce_next_def header_of_def)
  then show ?thesis using dll sorted nonnull Cons
      absorb_next_dll [of m pv xs b y ys'] by (simp add: absorb_def)
qed

lemma coalesce_prev_dll:
  assumes dll: "dll m NULL (xs @ b # ys) NULL"
    and sorted: "sorted_wrt apart (map at (xs @ b # ys))"
    and nonnull: "\<And>d. d \<in> set (xs @ ys) \<Longrightarrow> at d \<noteq> NULL"
  shows "dll (coalesce_prev (at b) m) NULL (merge_left xs (b # ys)) NULL"
proof (cases xs rule: rev_cases)
  case Nil
  then show ?thesis using dll by (simp add: coalesce_prev_def header_of_def)
next
  case (snoc xs' p)
  have "bprev (header m (at b)) = at p" "bfree (header m (at p)) = (if avail p then 1 else 0)"
    using dll snoc by (simp_all add: dll_append header_of_def last_at_append)
  moreover have "at p \<noteq> NULL" using nonnull snoc by simp
  ultimately have "coalesce_prev (at b) m = (if avail p then absorb_next (at p) m else m)"
    by (simp add: coalesce_prev_def)
  then show ?thesis using dll sorted nonnull snoc
      absorb_next_dll [of m NULL xs' p b ys] by (simp add: absorb_def)
qed

text \<open>Merging blocks that touch keeps the tiling, and so keeps every address apart.\<close>

lemma unat_absorb:
  assumes "unat (at b) + 24 + unat (sz b) = unat (at c)" "unat (at c) + 24 + unat (sz c) \<le> 0x80000000"
  shows "unat (sz (absorb b c)) = unat (sz b) + 24 + unat (sz c)"
proof -
  have "unat (24 + sz c) = 24 + unat (sz c)" using assms by (simp add: unat_add_exact)
  then show ?thesis using assms by (simp add: absorb_def unat_add_exact)
qed

lemma tiles_absorb:
  assumes "tiles lo (xs @ b # c # ys) hi" "hi \<le> 0x80000000"
  shows "tiles lo (xs @ absorb b c # ys) hi"
proof -
  obtain mid where mid: "tiles lo xs mid" "tiles mid (b # c # ys) hi"
    using assms(1) by (auto simp: tiles_append)
  have "unat (at c) + 24 + unat (sz c) \<le> hi" using mid(2) tiles_le by auto
  then have u: "unat (sz (absorb b c)) = unat (sz b) + 24 + unat (sz c)"
    using mid(2) assms(2) by (intro unat_absorb) auto
  then have "tiles mid (absorb b c # ys) hi"
    using mid(2) by (simp add: add.assoc) (simp add: absorb_def add_ac)
  with mid(1) show ?thesis by (auto simp: tiles_append)
qed

lemma tiles_merge_right:
  "tiles lo (xs @ b # ys) hi \<Longrightarrow> hi \<le> 0x80000000 \<Longrightarrow> tiles lo (xs @ merge_right b ys) hi"
  by (cases ys) (auto simp: tiles_absorb)

lemma tiles_merge_left:
  "tiles lo (xs @ b # ys) hi \<Longrightarrow> hi \<le> 0x80000000 \<Longrightarrow> tiles lo (merge_left xs (b # ys)) hi"
  by (cases xs rule: rev_cases) (auto simp: tiles_absorb)

lemma merge_right_Cons: "\<exists>b' ys'. merge_right b ys = b' # ys' \<and> at b' = at b \<and> avail b' = avail b \<and> set ys' \<subseteq> set ys"
  by (cases ys) (auto simp: absorb_def)

lemma coalesce_blocks_parts:
  assumes dll: "dll m NULL (xs @ b # ys) NULL"
    and tiles: "tiles lo (xs @ b # ys) hi" "0 < lo" "hi \<le> 0x80000000"
  shows "coalesce_blocks (at b) m = coalesce_prev (at b) (coalesce_next (at b) m)"
    and "dll (coalesce_next (at b) m) NULL (xs @ merge_right b ys) NULL"
proof -
  let ?m = "coalesce_next (at b) m"
  have nonnull: "at d \<noteq> NULL" if "d \<in> set (xs @ b # ys)" for d
    using tiles_nonnull tiles that by blast
  have sorted: "sorted_wrt apart (map at (xs @ b # ys))"
    using tiles_sorted_apart tiles by blast
  obtain b' ys' where b': "merge_right b ys = b' # ys'" "at b' = at b" "set ys' \<subseteq> set ys"
    using merge_right_Cons by blast
  have dll': "dll ?m NULL (xs @ b' # ys') NULL"
    using coalesce_next_dll [OF dll sorted] nonnull b' by simp
  then show "dll ?m NULL (xs @ merge_right b ys) NULL" using b' by simp
  show "coalesce_blocks (at b) m = coalesce_prev (at b) ?m"
  proof (rule coalesce_blocks_eq)
    have "bnext (header m (at b)) = first_at ys NULL"
      using dll by (simp add: dll_append header_of_def)
    then show "bnext (header m (at b)) \<noteq> NULL \<Longrightarrow> apart (at b) (bnext (header m (at b)))"
      using sorted by (cases ys) (auto simp: sorted_wrt_append)
    have "bprev (header ?m (at b)) = last_at xs NULL"
      using dll' b'(2) by (simp add: dll_append header_of_def)
    then show "bprev (header ?m (at b)) \<noteq> NULL \<Longrightarrow> apart (bprev (header ?m (at b))) (at b) \<and>
      bnext (header ?m (bprev (header ?m (at b)))) = at b"
      using sorted dll' b'(2)
      by (cases xs rule: rev_cases) (auto simp: sorted_wrt_append dll_append last_at_append header_of_def)
  qed
qed

lemma coalesce_blocks_dll:
  assumes dll: "dll m NULL (xs @ b # ys) NULL"
    and tiles: "tiles lo (xs @ b # ys) hi" "0 < lo" "hi \<le> 0x80000000"
  shows "dll (coalesce_blocks (at b) m) NULL (merge_left xs (merge_right b ys)) NULL"
proof -
  obtain b' ys' where b': "merge_right b ys = b' # ys'" "at b' = at b" "set ys' \<subseteq> set ys"
    using merge_right_Cons by blast
  have "sorted_wrt apart (map at (xs @ b' # ys'))"
    using tiles_sorted_apart [OF tiles_merge_right [OF tiles(1,3)] tiles(3)] b' by simp
  moreover have "at d \<noteq> NULL" if "d \<in> set (xs @ ys')" for d
    using tiles_nonnull [OF tiles(1,2)] b'(3) that by auto
  ultimately show ?thesis
    using coalesce_blocks_parts [OF assms] coalesce_prev_dll [of _ xs b' ys'] b' by simp
qed

text \<open>Coalescing writes headers only.\<close>

definition clear :: "heap_block list \<Rightarrow> u32 \<Rightarrow> bool" where
  "clear bs x \<longleftrightarrow> (\<forall>b \<in> set bs. outside (at b) 20 x)"

lemma clear_first_at: "clear ys x \<Longrightarrow> first_at ys NULL \<noteq> NULL \<Longrightarrow> outside (first_at ys NULL) 20 x"
  by (cases ys) (simp_all add: clear_def)

lemma absorb_next_bytes:
  assumes dll: "dll m pv (xs @ b # c # ys) NULL"
    and sorted: "sorted_wrt apart (map at (xs @ b # c # ys))" and x: "clear (xs @ b # c # ys) x"
  shows "absorb_next (at b) m x = m x"
proof -
  have nn: "bnext (header m (bnext (header m (at b)))) = first_at ys NULL"
    using dll by (simp add: dll_append header_of_def)
  have "first_at ys NULL \<noteq> NULL \<Longrightarrow> apart (at b) (first_at ys NULL)"
    using sorted by (cases ys) (auto simp: sorted_wrt_append)
  moreover have "outside (at b) 20 x" "clear ys x" using x by (simp_all add: clear_def)
  ultimately show ?thesis using absorb_next_headers(4) [of m "at b" x] nn clear_first_at [of ys x] by simp
qed

lemma coalesce_next_bytes:
  assumes dll: "dll m pv (xs @ b # ys) NULL"
    and sorted: "sorted_wrt apart (map at (xs @ b # ys))" and x: "clear (xs @ b # ys) x"
  shows "coalesce_next (at b) m x = m x"
proof (cases ys)
  case Nil
  then show ?thesis using dll by (simp add: dll_append coalesce_next_def header_of_def)
next
  case (Cons y ys')
  then show ?thesis using assms absorb_next_bytes [of m pv xs b y ys' x] by (simp add: coalesce_next_def)
qed

lemma coalesce_prev_bytes:
  assumes dll: "dll m NULL (xs @ b # ys) NULL"
    and sorted: "sorted_wrt apart (map at (xs @ b # ys))" and x: "clear (xs @ b # ys) x"
  shows "coalesce_prev (at b) m x = m x"
proof (cases xs rule: rev_cases)
  case Nil
  then show ?thesis using dll by (simp add: coalesce_prev_def header_of_def)
next
  case (snoc xs' p)
  then have "bprev (header m (at b)) = at p" using dll by (simp add: dll_append header_of_def last_at_append)
  then show ?thesis using assms absorb_next_bytes [of m NULL xs' p b ys x] snoc
    by (simp add: coalesce_prev_def)
qed

lemma coalesce_blocks_bytes:
  assumes dll: "dll m NULL (xs @ b # ys) NULL"
    and tiles: "tiles lo (xs @ b # ys) hi" "0 < lo" "hi \<le> 0x80000000" and x: "clear (xs @ b # ys) x"
  shows "coalesce_blocks (at b) m x = m x"
proof -
  obtain b' ys' where b': "merge_right b ys = b' # ys'" "at b' = at b" "set ys' \<subseteq> set ys"
    using merge_right_Cons by blast
  have "sorted_wrt apart (map at (xs @ b # ys))" using tiles_sorted_apart tiles by blast
  from coalesce_next_bytes [OF dll this x] have "coalesce_next (at b) m x = m x" .
  moreover have "coalesce_prev (at b') (coalesce_next (at b) m) x = coalesce_next (at b) m x"
  proof (rule coalesce_prev_bytes)
    show "dll (coalesce_next (at b) m) NULL (xs @ b' # ys') NULL"
      using coalesce_blocks_parts(2) [OF dll tiles] b' by simp
    show "sorted_wrt apart (map at (xs @ b' # ys'))"
      using tiles_sorted_apart [OF tiles_merge_right [OF tiles(1,3)] tiles(3)] b' by simp
    show "clear (xs @ b' # ys') x" using x b' by (auto simp: clear_def)
  qed
  ultimately show ?thesis using coalesce_blocks_parts(1) [OF dll tiles] b'(2) by simp
qed

lemma set_free_dll:
  assumes "dll m pv (xs @ b # ys) nx" "sorted_wrt apart (map at (xs @ b # ys))"
  shows "dll (set_free (at b) (if f then 1 else 0) m) pv (xs @ b\<lparr>avail := f\<rparr> # ys) nx"
proof -
  let ?m = "set_free (at b) (if f then 1 else 0) m"
  have o: "header ?m (at c) = header m (at c)" if "c \<in> set xs \<union> set ys" for c
    using dll_Cons_apart [OF assms(2) that] by (rule header_set_apart)
  have "dll ?m pv xs (at b) = dll m pv xs (at b)" "dll ?m (at b) ys nx = dll m (at b) ys nx"
    by (rule dll_frame, simp add: o)+
  then show ?thesis using assms(1) by (simp add: dll_append header_of_def)
qed

lemma coalesced_append_Cons:
  "coalesced (xs @ b # ys) \<longleftrightarrow> coalesced xs \<and> coalesced ys \<and>
     (xs \<noteq> [] \<longrightarrow> \<not> (avail (last xs) \<and> avail b)) \<and> (ys \<noteq> [] \<longrightarrow> \<not> (avail b \<and> avail (hd ys)))"
  by (auto simp: coalesced_def successively_append_iff successively_Cons)

lemma coalesced_Nil [simp]: "coalesced []"
  by (simp add: coalesced_def)

lemma coalesced_Cons:
  "coalesced (b # ys) \<longleftrightarrow> coalesced ys \<and> (ys \<noteq> [] \<longrightarrow> \<not> (avail b \<and> avail (hd ys)))"
  using coalesced_append_Cons [of "[]" b ys] by simp

lemma merge_right_coalesced:
  assumes "coalesced ys"
  shows "\<exists>c' zs. merge_right c ys = c' # zs \<and> avail c' = avail c \<and> coalesced zs \<and>
    (zs \<noteq> [] \<longrightarrow> \<not> avail (hd zs))"
proof (cases ys)
  case (Cons y ys')
  then show ?thesis using assms by (auto simp: coalesced_Cons absorb_def)
qed simp

lemma merge_left_coalesced:
  assumes "coalesced xs" "avail c" "coalesced zs" "zs \<noteq> [] \<longrightarrow> \<not> avail (hd zs)"
  shows "coalesced (merge_left xs (c # zs))"
proof (cases xs rule: rev_cases)
  case (snoc xs' p)
  then show ?thesis using assms by (auto simp: coalesced_append_Cons coalesced_Cons absorb_def)
qed (use assms in \<open>simp add: coalesced_Cons\<close>)

lemma coalesced_merge:
  assumes "coalesced (xs @ b # ys)" "avail c"
  shows "coalesced (merge_left xs (merge_right c ys))"
  using assms merge_right_coalesced [of ys c] merge_left_coalesced [of xs]
  by (auto simp: coalesced_append_Cons)

section \<open>Walks along the list\<close>

definition fits :: "u32 \<Rightarrow> heap_block \<Rightarrow> bool" where
  "fits n b \<longleftrightarrow> avail b \<and> n \<le> sz b"

lemma find_free_from_dll:
  assumes "dll m pv bs NULL" "\<And>b. b \<in> set bs \<Longrightarrow> at b \<noteq> NULL"
  shows "find_free_from m n (first_at bs NULL) =
    Some (case List.find (fits n) bs of None \<Rightarrow> NULL | Some b \<Rightarrow> at b)"
  using assms
proof (induction bs arbitrary: pv)
  case Nil
  then show ?case by (simp add: find_free_from.simps [of m n NULL])
next
  case (Cons b bs)
  then have "find_free_from m n (first_at bs NULL) =
    Some (case List.find (fits n) bs of None \<Rightarrow> NULL | Some b \<Rightarrow> at b)"
    using Cons.IH [of "at b"] by simp
  then show ?case using Cons.prems
    by (simp add: find_free_from.simps [of m n "at b"] header_of_def fits_def [of n b])
qed

lemma last_block_from_dll:
  assumes "dll m pv (b # bs) NULL" "\<And>c. c \<in> set bs \<Longrightarrow> at c \<noteq> NULL"
  shows "last_block_from m (at b) = Some (last_at (b # bs) NULL)"
  using assms
proof (induction bs arbitrary: pv b)
  case Nil
  then show ?case by (simp add: last_block_from.simps [of m "at b"] header_of_def)
next
  case (Cons c bs)
  then have "last_block_from m (at c) = Some (last_at (c # bs) NULL)" by simp
  then show ?case using Cons.prems by (simp add: last_block_from.simps [of m "at b"] header_of_def)
qed

definition count_block :: "heap_block \<Rightarrow> kmalloc_stats \<Rightarrow> kmalloc_stats" where
  "count_block b stats =
     (if avail b then stats\<lparr>free_size := free_size stats + sz b, num_free_blocks := num_free_blocks stats + 1\<rparr>
      else stats\<lparr>used_size := used_size stats + (sz b + 24), num_allocations := num_allocations stats + 1\<rparr>)"

lemma stats_from_dll:
  assumes "dll m pv bs NULL" "\<And>b. b \<in> set bs \<Longrightarrow> at b \<noteq> NULL"
  shows "stats_from m (first_at bs NULL) st = Some (fold count_block bs st)"
  using assms
proof (induction bs arbitrary: pv st)
  case Nil
  then show ?case by (simp add: stats_from.simps [of m NULL])
next
  case (Cons b bs)
  then have "stats_from m (first_at bs NULL) (count_block b st) = Some (fold count_block bs (count_block b st))"
    using Cons.IH [of "at b"] by simp
  moreover have "stats_from m (at b) st = stats_from m (first_at bs NULL) (count_block b st)"
    using Cons.prems by (simp add: stats_from.simps [of m "at b"] header_of_def count_block_def)
  ultimately show ?case by simp
qed

section \<open>The operations on the list of blocks\<close>

lemma heap_repD:
  assumes "heap_rep s bs"
  shows "dll (mem s) NULL bs NULL" "block_list s = first_at bs NULL" "heap_bounds s" "coalesced bs"
    "tiles (unat (heap_start s)) bs (unat (heap_end s))" "0 < unat (heap_start s)"
    "unat (heap_end s) \<le> 0x80000000" "sorted_wrt apart (map at bs)"
    "b \<in> set bs \<Longrightarrow> at b \<noteq> NULL"
proof -
  show d: "dll (mem s) NULL bs NULL" "block_list s = first_at bs NULL" "heap_bounds s" "coalesced bs"
    and t: "tiles (unat (heap_start s)) bs (unat (heap_end s))"
    and p: "0 < unat (heap_start s)" and e: "unat (heap_end s) \<le> 0x80000000"
    using assms by (auto simp: heap_rep_def heap_bounds_def word_le_unat)
  show "sorted_wrt apart (map at bs)" using t e by (rule tiles_sorted_apart)
  show "b \<in> set bs \<Longrightarrow> at b \<noteq> NULL" using t p by (rule tiles_nonnull)
qed

lemma tiles_avail: "tiles lo (xs @ b\<lparr>avail := f\<rparr> # ys) hi = tiles lo (xs @ b # ys) hi"
  by (simp add: tiles_append)

definition free_blocks :: "heap_block list \<Rightarrow> heap_block \<Rightarrow> heap_block list \<Rightarrow> heap_block list" where
  "free_blocks xs b ys = merge_left xs (merge_right (b\<lparr>avail := True\<rparr>) ys)"

lemma tiles_free_blocks:
  assumes "tiles lo (xs @ b # ys) hi" "hi \<le> 0x80000000"
  shows "tiles lo (free_blocks xs b ys) hi"
proof -
  obtain c zs where c: "merge_right (b\<lparr>avail := True\<rparr>) ys = c # zs"
    using merge_right_Cons by blast
  then have "tiles lo (xs @ c # zs) hi"
    using tiles_merge_right [of lo xs "b\<lparr>avail := True\<rparr>" ys hi] assms by (simp add: tiles_avail)
  then show ?thesis using tiles_merge_left assms(2) c by (simp add: free_blocks_def)
qed

lemma kfree_refines:
  assumes rep: "heap_rep s (xs @ b # ys)" and used: "\<not> avail b"
  shows "\<exists>s'. kfree (at b + 24) s = Inr s' \<and> heap_rep s' (free_blocks xs b ys) \<and>
    s' = s\<lparr>mem := mem s', total_frees := total_frees s + 1\<rparr> \<and>
    (\<forall>x. clear (xs @ b # ys) x \<longrightarrow> mem s' x = mem s x)"
proof -
  note r = heap_repD [OF rep]
  have nn: "at b + 24 \<noteq> NULL"
  proof -
    have "unat (at b) + 24 < 4294967296" using tiles_mem [OF r(5), of b] r(7) by simp
    then have "unat (at b + 24) = unat (at b) + 24" by (simp add: unat_add_exact)
    then show ?thesis by auto
  qed
  have h: "header (mem s) (at b) = header_of b (last_at xs NULL) (first_at ys NULL)"
    using r(1) by (simp add: dll_append)
  let ?m = "set_free (at b) 1 (mem s)"
  have dll1: "dll ?m NULL (xs @ b\<lparr>avail := True\<rparr> # ys) NULL"
    using set_free_dll [OF r(1,8), of True] by simp
  then have dll: "dll (coalesce_blocks (at b) ?m) NULL (free_blocks xs b ys) NULL"
    using coalesce_blocks_dll [of ?m xs "b\<lparr>avail := True\<rparr>" ys] r(5,6,7)
    by (simp add: free_blocks_def tiles_avail)
  have first: "first_at (free_blocks xs b ys) NULL = first_at (xs @ b # ys) NULL"
    by (cases xs rule: rev_cases; cases ys)
      (auto simp: free_blocks_def absorb_def first_at_append)
  let ?s = "s\<lparr>mem := coalesce_blocks (at b) ?m, total_frees := total_frees s + 1\<rparr>"
  have "kfree (at b + 24) s = Inr ?s"
    using nn h used by (simp add: kfree_def header_of_def Let_def)
  moreover have "heap_rep ?s (free_blocks xs b ys)"
    using dll first r tiles_free_blocks [OF r(5,7)] coalesced_merge [OF r(4), of "b\<lparr>avail := True\<rparr>"]
    by (simp add: heap_rep_def free_blocks_def heap_bounds_def)
  moreover have "mem ?s x = mem s x" if "clear (xs @ b # ys) x" for x
    using coalesce_blocks_bytes [OF dll1] r(5,6,7) that
    by (simp add: clear_def tiles_avail header_setters_other)
  ultimately show ?thesis by (intro exI [of _ ?s] conjI) simp_all
qed

text \<open>The size \<open>kmalloc\<close> looks for: the request rounded up to 8 and raised to 16.\<close>

definition request_size :: "u32 \<Rightarrow> u32" where
  "request_size n = (if ALIGN n < MIN_BLOCK_SIZE then MIN_BLOCK_SIZE else ALIGN n)"

lemma unat_ALIGN: "unat (ALIGN n) = (unat n + 7) mod 4294967296 div 8 * 8"
proof -
  have "ALIGN n = push_bit 3 (drop_bit 3 (n + 7))"
    by (simp add: ALIGN_def and_not_mask_shift [symmetric] mask_eq_exp_minus_1)
  then have "unat (ALIGN n) = (unat (n + 7) div 8 * 8) mod 4294967296"
    by (simp add: unat_push_bit_u32 unat_drop_bit_u32)
  also have "\<dots> = unat (n + 7) div 8 * 8" using unat_u32_bound [of "n + 7"] by simp
  finally show ?thesis by (simp add: unat_add_mod)
qed

lemma request_size_aligned: "8 dvd unat (request_size n)" "16 \<le> unat (request_size n)"
  by (auto simp: request_size_def unat_ALIGN word_less_unat)

lemma request_size_bound:
  "unat n \<le> 4294967288 \<Longrightarrow> unat n \<le> unat (request_size n) \<and> unat (request_size n) \<le> max 16 (unat n + 7)"
  by (auto simp: request_size_def unat_ALIGN word_less_unat)

definition place :: "u32 \<Rightarrow> heap_block \<Rightarrow> heap_block list" where
  "place n b = (if unat n + 40 \<le> unat (sz b)
     then [b\<lparr>sz := n, avail := False\<rparr>, rest_block b n] else [b\<lparr>avail := False\<rparr>])"

lemma tiles_split:
  assumes t: "tiles lo (xs @ b # ys) hi" "hi \<le> 0x80000000"
    and n: "16 \<le> unat n" "8 dvd unat n" "unat n + 40 \<le> unat (sz b)"
  shows "tiles lo (xs @ b\<lparr>sz := n\<rparr> # rest_block b n # ys) hi"
proof -
  obtain mid where mid: "tiles lo xs mid" "tiles mid (b # ys) hi"
    using t(1) by (auto simp: tiles_append)
  have end_b: "unat (at b) + 24 + unat (sz b) \<le> 0x80000000"
    using tiles_le [of "unat (at b) + 24 + unat (sz b)" ys hi] mid(2) t(2) by simp
  have "unat (at b + 24) = unat (at b) + 24" using end_b by (simp add: unat_add_exact)
  then have at: "unat (at b + 24 + n) = unat (at b) + 24 + unat n"
    using end_b n by (simp add: unat_add_exact)
  have "unat (sz b - n) = unat (sz b) - unat n"
    using n by (simp add: unat_sub_exact word_le_unat)
  then have rest: "unat (sz b - n - 24) = unat (sz b) - unat n - 24"
    using n by (simp add: unat_sub_exact word_le_unat)
  have "8 dvd unat (sz b) - unat n - 24"
    using n mid(2) by (auto intro!: dvd_diff_nat)
  moreover have "16 \<le> unat (sz b) - unat n - 24" using n by linarith
  moreover have "mid + 24 + unat n + 24 + unat (sz b - n - 24) = mid + 24 + unat (sz b)"
    using rest n by linarith
  then have "tiles (mid + 24 + unat n + 24 + unat (sz b - n - 24)) ys hi"
    using mid(2) by (simp only:) simp
  ultimately have "tiles mid (b\<lparr>sz := n\<rparr> # rest_block b n # ys) hi"
    using mid(2) n at rest by (simp only: tiles.simps rest_block_def heap_block.simps) auto
  with mid(1) show ?thesis by (auto simp: tiles_append)
qed

lemma coalesced_place:
  "coalesced (xs @ b # ys) \<Longrightarrow> avail b \<Longrightarrow> coalesced (xs @ place n b @ ys)"
  by (auto simp: coalesced_append_Cons coalesced_Cons place_def rest_block_def)

lemma find_split:
  "(\<And>x. x \<in> set xs \<Longrightarrow> \<not> P x) \<Longrightarrow> P b \<Longrightarrow> List.find P (xs @ b # ys) = Some b"
  by (induction xs) auto

lemma place_memory:
  assumes rep: "heap_rep s (xs @ b # ys)" and fit: "n \<le> sz b" "16 \<le> unat n" "8 dvd unat n"
  shows "dll (set_free (at b) 0 (split_block (at b) n (mem s))) NULL (xs @ place n b @ ys) NULL"
    "tiles (unat (heap_start s)) (xs @ place n b @ ys) (unat (heap_end s))"
    "clear (xs @ place n b @ ys) x \<Longrightarrow> set_free (at b) 0 (split_block (at b) n (mem s)) x = mem s x"
proof -
  note r = heap_repD [OF rep]
  have h: "bsize (header (mem s) (at b)) = sz b"
    using r(1) by (simp add: dll_append header_of_def)
  have n: "unat n \<le> unat (sz b)" "unat (sz b) \<le> 0x80000000"
    using fit tiles_mem [OF r(5), of b] r(7) by (auto simp: word_le_unat)
  then have n40: "unat (n + 40) = unat n + 40" by (simp add: unat_add_exact)
  show "tiles (unat (heap_start s)) (xs @ place n b @ ys) (unat (heap_end s))"
    using r(5,7) fit tiles_split [OF r(5,7), of n]
    by (auto simp: place_def tiles_avail tiles_append)
  let ?mem = "set_free (at b) 0 (split_block (at b) n (mem s))"
  let ?dll = "dll ?mem NULL (xs @ place n b @ ys) NULL"
  have "?dll \<and> (clear (xs @ place n b @ ys) x \<longrightarrow> ?mem x = mem s x)"
  proof (cases "unat n + 40 \<le> unat (sz b)")
    case True
    have t: "tiles (unat (heap_start s)) (xs @ b\<lparr>sz := n\<rparr> # rest_block b n # ys) (unat (heap_end s))"
      using tiles_split [OF r(5,7)] fit True by simp
    have so: "sorted_wrt apart (map at (xs @ b\<lparr>sz := n\<rparr> # rest_block b n # ys))"
      using t r(7) by (rule tiles_sorted_apart)
    have "dll (split_block (at b) n (mem s)) NULL (xs @ b\<lparr>sz := n\<rparr> # rest_block b n # ys) NULL"
      using True n40 by (intro split_block_dll r(1) so r(9)) (simp_all add: word_le_unat)
    from set_free_dll [OF this so, of False] True have ?dll by (simp add: place_def)
    moreover have "clear (xs @ place n b @ ys) x \<Longrightarrow> ?mem x = mem s x"
      using split_block_bytes [OF r(1) _ so] True n40
      by (simp add: place_def word_le_unat clear_def header_setters_other)
    ultimately show ?thesis by blast
  next
    case False
    then have "\<not> n + 24 + 16 \<le> sz b" using n40 by (simp add: word_le_unat add.assoc)
    then have "split_block (at b) n (mem s) = mem s" using h by (simp add: split_block_def)
    with set_free_dll [OF r(1,8), of False] False show ?thesis
      by (simp add: place_def clear_def header_setters_other)
  qed
  then show ?dll and "clear (xs @ place n b @ ys) x \<Longrightarrow> ?mem x = mem s x" by blast+
qed

lemma first_at_place: "first_at (xs @ place n b @ ys) nx = first_at (xs @ b # ys) nx"
  by (simp add: first_at_append place_def)

lemma kmalloc_reuse:
  assumes rep: "heap_rep s (xs @ b # ys)" and "n \<noteq> 0"
    and first: "\<And>x. x \<in> set xs \<Longrightarrow> \<not> fits (request_size n) x" "fits (request_size n) b"
  shows "\<exists>s'. kmalloc n s = Some (at b + 24, s') \<and> heap_rep s' (xs @ place (request_size n) b @ ys) \<and>
    s' = s\<lparr>mem := mem s', total_allocations := total_allocations s + 1\<rparr> \<and>
    (\<forall>x. clear (xs @ place (request_size n) b @ ys) x \<longrightarrow> mem s' x = mem s x)"
proof -
  note r = heap_repD [OF rep]
  let ?n = "request_size n"
  let ?s = "s\<lparr>mem := set_free (at b) 0 (split_block (at b) ?n (mem s)),
    total_allocations := total_allocations s + 1\<rparr>"
  have "find_free_block s ?n = Some (at b)"
    using find_free_from_dll [OF r(1,9), of ?n] r(2) find_split [of xs "fits ?n" b ys] first
    by (simp add: find_free_block_def)
  moreover have "at b \<noteq> NULL" using r(9) by simp
  ultimately have "kmalloc n s = Some (at b + 24, ?s)"
    using \<open>n \<noteq> 0\<close> by (simp add: kmalloc_def Let_def request_size_def [symmetric])
  moreover have "heap_rep ?s (xs @ place ?n b @ ys)"
    using place_memory [OF rep, of ?n] first(2) request_size_aligned r coalesced_place [OF r(4)]
    by (auto simp: heap_rep_def heap_bounds_def fits_def first_at_place)
  moreover have "mem ?s x = mem s x" if "clear (xs @ place ?n b @ ys) x" for x
    using place_memory(3) [OF rep, of ?n x] first(2) request_size_aligned that by (simp add: fits_def)
  ultimately show ?thesis by (intro exI [of _ ?s] conjI) simp_all
qed

lemma sless_small: "0 < unat (x :: i32) \<Longrightarrow> unat x < 2147483648 \<Longrightarrow> 0 <s x"
  using sint_small [of x] unfolding word_sless_alt by (simp only: sint_0 of_nat_0_less_iff)

lemma kbrk_grow:
  assumes "0 < unat k" "unat k < 2147483648" "heap_bounds s"
  shows "kbrk k s =
    (if unat (heap_end s) + unat k \<le> unat (heap_max s)
     then (heap_end s, s\<lparr>heap_end := heap_end s + k\<rparr>)
     else (MINUS1, warn_con ''kbrk: Heap would exceed maximum size'' s))"
proof -
  have "unat (heap_end s + k) = unat (heap_end s) + unat k"
    using assms by (simp add: unat_add_exact heap_bounds_def word_le_unat)
  moreover have "k \<noteq> 0" using assms(1) by auto
  ultimately show ?thesis using sless_small [of k] assms(1,2)
    by (auto simp: kbrk_def Let_def word_less_unat)
qed

definition fresh_header :: "u32 \<Rightarrow> u32 \<Rightarrow> memory \<Rightarrow> memory" where
  "fresh_header block n m = set_prev block NULL (set_next block NULL (set_magic block BLOCK_MAGIC
     (set_free block 0 (set_size block n m))))"

lemma fresh_header_headers:
  "header (fresh_header block n m) block = header_of \<lparr>at = block, sz = n, avail = False\<rparr> NULL NULL"
  "apart block c \<Longrightarrow> header (fresh_header block n m) c = header m c"
  "outside block 20 x \<Longrightarrow> fresh_header block n m x = m x"
  by (simp_all add: fresh_header_def header_set_apart header_of_def header_setters_other)

lemma append_dll:
  assumes dll: "dll m NULL (xs @ [l]) NULL" and so: "sorted_wrt apart (map at (xs @ [l, b]))"
    and b: "header m (at b) = header_of b NULL NULL"
  shows "dll (set_prev (at b) (at l) (set_next (at l) (at b) m)) NULL (xs @ [l, b]) NULL"
proof -
  let ?m = "set_prev (at b) (at l) (set_next (at l) (at b) m)"
  have ap: "apart (at l) (at b)" "apart (at b) (at l)"
    "\<And>c. c \<in> set xs \<Longrightarrow> apart (at l) (at c) \<and> apart (at b) (at c)"
    using so by (auto simp: sorted_wrt_append intro: apart_sym)
  have "dll ?m NULL xs (at l) = dll m NULL xs (at l)"
    by (rule dll_frame) (simp add: header_set_apart ap)
  then show ?thesis using dll b by (simp add: dll_append header_set_apart ap header_of_def)
qed

lemma tiles_snoc:
  "tiles lo bs (unat e) \<Longrightarrow> 16 \<le> unat n \<Longrightarrow> 8 dvd unat n \<Longrightarrow>
     tiles lo (bs @ [\<lparr>at = e, sz = n, avail = f\<rparr>]) (unat e + 24 + unat n)"
  by (auto simp: tiles_append)

lemma kmalloc_none:
  assumes rep: "heap_rep s bs" and "n \<noteq> 0" and "\<And>b. b \<in> set bs \<Longrightarrow> \<not> fits (request_size n) b"
  shows "find_free_block s (request_size n) = Some NULL"
proof -
  note r = heap_repD [OF rep]
  have "List.find (fits (request_size n)) bs = None" using assms(3) by (auto simp: find_None_iff)
  then show ?thesis using find_free_from_dll [OF r(1,9), of "request_size n"] r(2)
    by (simp add: find_free_block_def)
qed

lemma kmalloc_extend:
  assumes rep: "heap_rep s bs" and "n \<noteq> 0" and none: "\<And>b. b \<in> set bs \<Longrightarrow> \<not> fits (request_size n) b"
    and small: "unat (request_size n) + 24 < 2147483648"
    and room: "unat (heap_end s) + 24 + unat (request_size n) \<le> unat (heap_max s)"
  shows "\<exists>s'. kmalloc n s = Some (heap_end s + 24, s') \<and>
    heap_rep s' (bs @ [\<lparr>at = heap_end s, sz = request_size n, avail = False\<rparr>]) \<and>
    s' = s\<lparr>mem := mem s', heap_end := heap_end s + (24 + request_size n), block_list := block_list s',
      total_allocations := total_allocations s + 1\<rparr> \<and>
    (\<forall>x. clear (bs @ [\<lparr>at = heap_end s, sz = request_size n, avail = False\<rparr>]) x \<longrightarrow> mem s' x = mem s x)"
proof -
  note r = heap_repD [OF rep]
  let ?n = "request_size n" and ?b = "\<lparr>at = heap_end s, sz = request_size n, avail = False\<rparr>"
  let ?m = "fresh_header (heap_end s) ?n (mem s)"
  have k: "unat (24 + ?n) = 24 + unat ?n" using small by (simp add: unat_add_exact)
  have e: "unat (heap_end s + (24 + ?n)) = unat (heap_end s) + 24 + unat ?n"
    using room k unat_u32_bound [of "heap_max s"] by (simp add: unat_add_exact)
  have t: "tiles (unat (heap_start s)) (bs @ [?b]) (unat (heap_end s) + 24 + unat ?n)"
    using tiles_snoc r(5) request_size_aligned by blast
  have hi: "unat (heap_end s) + 24 + unat ?n \<le> 0x80000000"
    using room r(3) unfolding heap_bounds_def by linarith
  have so: "sorted_wrt apart (map at (bs @ [?b]))" using tiles_sorted_apart t hi by blast
  have dll: "dll ?m NULL bs NULL"
    using r(1) so by (subst dll_frame [of _ _ "mem s"])
      (auto simp: sorted_wrt_append intro: fresh_header_headers(2) apart_sym)
  have brk: "kbrk (24 + ?n) s = (heap_end s, s\<lparr>heap_end := heap_end s + (24 + ?n)\<rparr>)"
    using kbrk_grow [of "24 + ?n" s] k small room r(3) by simp
  have ne: "heap_end s \<noteq> MINUS1" using r(7) by (auto simp: word_eq_unat)
  have bounds: "heap_bounds (s\<lparr>heap_end := heap_end s + (24 + ?n)\<rparr>)"
    using r(3) room e by (simp add: heap_bounds_def word_le_unat)
  have km: "kmalloc n s =
    (if block_list s = NULL then Some (heap_end s + 24,
       s\<lparr>mem := ?m, heap_end := heap_end s + (24 + ?n), block_list := heap_end s,
         total_allocations := total_allocations s + 1\<rparr>)
     else case last_block_from ?m (block_list s) of None \<Rightarrow> None
       | Some l \<Rightarrow> Some (heap_end s + 24,
           s\<lparr>mem := set_prev (heap_end s) l (set_next l (heap_end s) ?m),
             heap_end := heap_end s + (24 + ?n), total_allocations := total_allocations s + 1\<rparr>))"
    using kmalloc_none [OF rep \<open>n \<noteq> 0\<close> none] brk ne \<open>n \<noteq> 0\<close>
    by (simp add: kmalloc_def Let_def request_size_def [symmetric] fresh_header_def [symmetric] split: option.split)
  have co: "coalesced (bs @ [?b])" using r(4) by (simp add: coalesced_append_Cons)
  show ?thesis
  proof (cases bs rule: rev_cases)
    case Nil
    let ?s = "s\<lparr>mem := ?m, heap_end := heap_end s + (24 + ?n), block_list := heap_end s,
         total_allocations := total_allocations s + 1\<rparr>"
    have "kmalloc n s = Some (heap_end s + 24, ?s)" using km r(2) Nil by simp
    moreover have "heap_rep ?s (bs @ [?b])"
      unfolding heap_rep_def
    proof (intro conjI)
      show "heap_bounds ?s" using bounds by (simp add: heap_bounds_def)
      show "tiles (unat (heap_start ?s)) (bs @ [?b]) (unat (heap_end ?s))" using t by (simp add: e)
    qed (use Nil co in \<open>simp_all add: fresh_header_headers\<close>)
    moreover have "mem ?s x = mem s x" if "clear (bs @ [?b]) x" for x
      using that by (simp add: clear_def fresh_header_headers)
    ultimately show ?thesis by (intro exI [of _ ?s] conjI) simp_all
  next
    case (snoc xs l)
    let ?m' = "set_prev (heap_end s) (at l) (set_next (at l) (heap_end s) ?m)"
    let ?s = "s\<lparr>mem := ?m', heap_end := heap_end s + (24 + ?n),
         total_allocations := total_allocations s + 1\<rparr>"
    have bl: "block_list s = first_at (xs @ [l]) NULL" "first_at (xs @ [l]) NULL \<noteq> NULL"
      using r(2,9) snoc by (cases xs; simp)+
    have "last_block_from ?m (block_list s) = Some (at l)"
      using last_block_from_dll [of ?m NULL "hd bs" "tl bs"] dll r(9) bl(1) snoc
      by (cases xs) (simp_all add: last_at_append)
    then have "kmalloc n s = Some (heap_end s + 24, ?s)" using km bl by simp
    moreover have "dll ?m' NULL (xs @ [l, ?b]) NULL"
      using append_dll [of ?m xs l ?b] dll so snoc by (simp add: fresh_header_headers)
    then have "heap_rep ?s (bs @ [?b])"
      unfolding heap_rep_def
    proof (intro conjI)
      show "heap_bounds ?s" using bounds by (simp add: heap_bounds_def)
      show "tiles (unat (heap_start ?s)) (bs @ [?b]) (unat (heap_end ?s))" using t by (simp add: e)
    qed (use bl snoc co in \<open>simp_all add: first_at_append\<close>)
    moreover have "mem ?s x = mem s x" if "clear (bs @ [?b]) x" for x
      using that snoc by (simp add: clear_def fresh_header_headers header_setters_other)
    ultimately show ?thesis by (intro exI [of _ ?s] conjI) simp_all
  qed
qed

lemma kmalloc_exhausted:
  assumes rep: "heap_rep s bs" and "n \<noteq> 0" and none: "\<And>b. b \<in> set bs \<Longrightarrow> \<not> fits (request_size n) b"
    and small: "unat (request_size n) + 24 < 2147483648"
    and full: "unat (heap_max s) < unat (heap_end s) + 24 + unat (request_size n)"
  shows "kmalloc n s = Some (NULL, warn_con ''kbrk: Heap would exceed maximum size'' s)"
proof -
  have k: "unat (24 + request_size n) = 24 + unat (request_size n)"
    using small by (simp add: unat_add_exact)
  have "kbrk (24 + request_size n) s = (MINUS1, warn_con ''kbrk: Heap would exceed maximum size'' s)"
    using kbrk_grow [of "24 + request_size n" s] k small full heap_repD(3) [OF rep] by simp
  then show ?thesis using kmalloc_none [OF rep \<open>n \<noteq> 0\<close> none] \<open>n \<noteq> 0\<close>
    by (simp add: kmalloc_def Let_def request_size_def [symmetric])
qed

end
