(* ===== verification/Heap_Spec.thy ===== *)
theory Heap_Spec
  imports Kmalloc
begin

unbundle bit_operations_syntax

text \<open>
  What the kernel heap promises its clients: the contract of an allocator as a locale, its
  interpretation on \<open>kmalloc\<close> and \<open>kfree\<close>, the states the heap can reach when clients allocate,
  release and write inside their own blocks, and the properties of the heap.
\<close>

section \<open>Live allocations\<close>

text \<open>The block list is determined by the state.\<close>

lemma dll_unique:
  assumes "dll m pv bs NULL" "dll m pv cs NULL" "first_at bs NULL = first_at cs NULL"
    and "\<And>b. b \<in> set bs \<union> set cs \<Longrightarrow> at b \<noteq> NULL"
  shows "bs = cs"
  using assms
proof (induction bs arbitrary: pv cs)
  case Nil
  then show ?case by (cases cs) auto
next
  case (Cons b bs)
  then obtain c cs' where cs: "cs = c # cs'" by (cases cs) auto
  then have "header_of b pv (first_at bs NULL) = header_of c pv (first_at cs' NULL)" "at b = at c"
    using Cons.prems(1-3) by simp_all
  then have "first_at bs NULL = first_at cs' NULL" "b = c"
    by (simp_all add: header_of_def split: if_splits)
  then show ?case using Cons.IH [of "at b" cs'] Cons.prems cs by simp
qed

lemma heap_rep_unique: "heap_rep s bs \<Longrightarrow> heap_rep s cs \<Longrightarrow> bs = cs"
  using heap_repD [of s bs] heap_repD [of s cs]
  by (intro dll_unique [of "mem s" NULL]) auto

definition heap_inv :: "'a kheap_scheme \<Rightarrow> bool" where
  "heap_inv s \<longleftrightarrow> (\<exists>bs. heap_rep s bs)"

text \<open>The blocks handed out and not yet released, as payload address and payload size.\<close>

definition allocated :: "heap_block list \<Rightarrow> (u32 \<times> u32) set" where
  "allocated bs = (\<lambda>b. (at b + 24, sz b)) ` {b \<in> set bs. \<not> avail b}"

definition live :: "'a kheap_scheme \<Rightarrow> (u32 \<times> u32) set" where
  "live s = {(p, k). \<exists>bs. heap_rep s bs \<and> (p, k) \<in> allocated bs}"

lemma live_rep: "heap_rep s bs \<Longrightarrow> live s = allocated bs"
  using heap_rep_unique by (auto simp: live_def)

text \<open>The bytes of a block.\<close>

definition payload :: "u32 \<times> u32 \<Rightarrow> nat set" where
  "payload pk = {unat (fst pk)..<unat (fst pk) + unat (snd pk)}"

lemma tiles_disjoint:
  "tiles lo bs hi \<Longrightarrow> b \<in> set bs \<Longrightarrow> c \<in> set bs \<Longrightarrow>
     b = c \<or> unat (at b) + 24 + unat (sz b) \<le> unat (at c) \<or> unat (at c) + 24 + unat (sz c) \<le> unat (at b)"
proof (induction bs arbitrary: lo)
  case (Cons a bs)
  then have t: "tiles (unat (at a) + 24 + unat (sz a)) bs hi" by simp
  then show ?case using Cons.IH [OF t] Cons.prems tiles_mem [OF t, of b] tiles_mem [OF t, of c] by auto
qed simp

lemma block_payload:
  assumes "heap_rep s bs" "b \<in> set bs"
  shows "unat (at b + 24) = unat (at b) + 24"
    "unat (heap_start s) \<le> unat (at b)" "unat (at b) + 24 + unat (sz b) \<le> unat (heap_end s)"
proof -
  note t = tiles_mem [OF heap_repD(5) [OF assms(1)] assms(2)]
  show "unat (heap_start s) \<le> unat (at b)" "unat (at b) + 24 + unat (sz b) \<le> unat (heap_end s)"
    using t by auto
  show "unat (at b + 24) = unat (at b) + 24"
    using t heap_repD(7) [OF assms(1)] by (simp add: unat_add_exact)
qed

lemma outside_below: "unat x < unat a \<Longrightarrow> unat a \<le> 0x80000000 \<Longrightarrow> outside a 20 x"
proof -
  assume lt: "unat x < unat a" and a: "unat a \<le> 0x80000000"
  then have "unat (a - x) = unat a - unat x" by (simp add: unat_sub_exact word_le_unat)
  moreover have "unat (a - x) + unat (x - a) = 4294967296"
    using lt by (intro unat_distances) auto
  ultimately show ?thesis using a unfolding outside_def by linarith
qed

lemma outside_above: "unat a + 20 \<le> unat x \<Longrightarrow> outside a 20 x"
  by (simp add: outside_def unat_sub_exact word_le_unat)

lemma payload_clear:
  assumes rep: "heap_rep s bs" and b: "b \<in> set bs" and x: "unat x \<in> payload (at b + 24, sz b)"
  shows "clear bs x"
  unfolding clear_def
proof
  fix c assume c: "c \<in> set bs"
  have "b = c \<or> unat (at b) + 24 + unat (sz b) \<le> unat (at c) \<or> unat (at c) + 24 + unat (sz c) \<le> unat (at b)"
    using tiles_disjoint heap_repD(5) [OF rep] b c by blast
  moreover have "unat (at b) + 24 \<le> unat x" "unat x < unat (at b) + 24 + unat (sz b)"
    using x block_payload(1) [OF rep b] by (simp_all add: payload_def)
  moreover have "unat (at c) \<le> 0x80000000"
    using block_payload(3) [OF rep c] heap_repD(7) [OF rep] by simp
  ultimately show "outside (at c) 20 x" using outside_below [of x "at c"] outside_above [of "at c" x] by auto
qed

lemma allocated_disjoint:
  assumes rep: "heap_rep s bs" and "(p, k) \<in> allocated bs" "(q, l) \<in> allocated bs" "(p, k) \<noteq> (q, l)"
  shows "payload (p, k) \<inter> payload (q, l) = {}"
proof -
  obtain b c where b: "b \<in> set bs" "p = at b + 24" "k = sz b" and c: "c \<in> set bs" "q = at c + 24" "l = sz c"
    using assms(2,3) by (auto simp: allocated_def)
  then have "b \<noteq> c" using assms(4) by auto
  then have "unat (at b) + 24 + unat (sz b) \<le> unat (at c) \<or> unat (at c) + 24 + unat (sz c) \<le> unat (at b)"
    using tiles_disjoint [OF heap_repD(5) [OF rep] b(1) c(1)] by simp
  then show ?thesis using b c block_payload(1) [OF rep] by (auto simp: payload_def)
qed

text \<open>A write inside an allocated block changes no header.\<close>

lemma header_store8_clear: "outside b 20 x \<Longrightarrow> header (store8 x v m) b = header m b"
  by (rule header_frame) (auto simp: store8_def outside_def)

lemma client_write_rep:
  assumes "heap_rep s bs" "(p, k) \<in> allocated bs" "unat x \<in> payload (p, k)"
  shows "heap_rep (s\<lparr>mem := store8 x v (mem s)\<rparr>) bs"
proof -
  have "clear bs x" using assms payload_clear by (auto simp: allocated_def)
  then have "dll (store8 x v (mem s)) NULL bs NULL = dll (mem s) NULL bs NULL"
    by (intro dll_frame header_store8_clear) (auto simp: clear_def)
  then show ?thesis using assms(1) by (simp add: heap_rep_def heap_bounds_def)
qed

section \<open>Effect of the operations on the live blocks\<close>

lemma mem_warn [simp]: "mem (warn_con t s) = mem s"
  by (simp add: warn_con_def)

lemma heap_rep_warn [simp]: "heap_rep (warn_con t s) bs = heap_rep s bs"
  by (simp add: warn_con_def heap_rep_def heap_bounds_def)

lemma heap_inv_warn [simp]: "heap_inv (warn_con t s) = heap_inv s"
  by (simp add: heap_inv_def)

lemma live_warn [simp]: "live (warn_con t s) = live s"
  by (simp add: live_def)

lemma allocated_append: "allocated (xs @ ys) = allocated xs \<union> allocated ys"
  by (auto simp: allocated_def)

lemma allocated_Cons:
  "allocated (b # ys) = (if avail b then allocated ys else insert (at b + 24, sz b) (allocated ys))"
  by (auto simp: allocated_def)

lemma allocated_Nil [simp]: "allocated [] = {}"
  by (simp add: allocated_def)

lemmas allocated_simps = allocated_append allocated_Cons

lemma allocated_place:
  "avail b \<Longrightarrow> allocated (xs @ place n b @ ys) =
     insert (at b + 24, if unat n + 40 \<le> unat (sz b) then n else sz b) (allocated (xs @ b # ys))"
  by (auto simp: allocated_simps place_def rest_block_def)

lemma allocated_free_blocks: "allocated (free_blocks xs b ys) = allocated xs \<union> allocated ys"
proof -
  have r: "allocated (merge_right c ys) = allocated ys" if "avail c" for c
    using that by (cases ys) (auto simp: allocated_simps absorb_def)
  have l: "allocated (merge_left xs (c # zs)) = allocated xs \<union> allocated zs" if "avail c" for c zs
    using that by (cases xs rule: rev_cases) (auto simp: allocated_simps absorb_def)
  obtain c zs where c: "merge_right (b\<lparr>avail := True\<rparr>) ys = c # zs" "avail c"
    using merge_right_Cons [of "b\<lparr>avail := True\<rparr>" ys] by auto
  then have "allocated (free_blocks xs b ys) = allocated xs \<union> allocated zs"
    using l by (simp add: free_blocks_def)
  moreover have "allocated zs = allocated ys" using r [of "b\<lparr>avail := True\<rparr>"] c by (simp add: allocated_Cons)
  ultimately show ?thesis by simp
qed

lemma allocated_fresh:
  assumes "heap_rep s (xs @ b # ys)"
  shows "(at b + 24, k) \<notin> allocated xs \<union> allocated ys"
proof -
  have "at c \<noteq> at b" if "c \<in> set xs \<union> set ys" for c
    using dll_Cons_apart [OF heap_repD(8) [OF assms] that] by (auto simp: apart_def outside_def)
  then show ?thesis unfolding allocated_def by fastforce
qed

text \<open>Requests the heap can serve: the sum with the header stays a positive \<open>int\<close>.\<close>

definition serveable :: "u32 \<Rightarrow> bool" where
  "serveable n \<longleftrightarrow> 0 < unat n \<and> unat n \<le> 0x7FFFFFE0"

lemma serveable_request:
  assumes "serveable n"
  shows "n \<noteq> 0" "unat n \<le> unat (request_size n)" "unat (request_size n) + 24 < 2147483648"
  using assms request_size_bound [of n] by (auto simp: serveable_def)

lemma first_fit_split:
  "(\<exists>xs b ys. bs = xs @ b # ys \<and> (\<forall>x \<in> set xs. \<not> P x) \<and> P b) \<or> (\<forall>b \<in> set bs. \<not> P b)"
  by (metis split_list_first_prop)

text \<open>Every outcome of \<open>kmalloc\<close> on a serveable request, in one lemma.\<close>

lemma kmalloc_effect:
  assumes inv: "heap_inv s" and n: "serveable n"
  obtains (none) "kmalloc n s = Some (NULL, warn_con ''kbrk: Heap would exceed maximum size'' s)"
  | (some) p k s' where "kmalloc n s = Some (p, s')" "heap_inv s'" "p \<noteq> NULL" "unat n \<le> unat k"
      "live s' = insert (p, k) (live s)" "\<And>l. (p, l) \<notin> live s"
      "\<And>q l x. (q, l) \<in> live s \<Longrightarrow> unat x \<in> payload (q, l) \<Longrightarrow> mem s' x = mem s x"
proof -
  obtain bs where rep: "heap_rep s bs" using inv by (auto simp: heap_inv_def)
  note r = heap_repD [OF rep] and sn = serveable_request [OF n]
  have kept: "mem s' x = mem s x"
    if "(q, l) \<in> live s" "unat x \<in> payload (q, l)" and s': "heap_rep s' cs" "allocated bs \<subseteq> allocated cs"
      and "\<And>x. clear cs x \<Longrightarrow> mem s' x = mem s x" for q l x s' cs
    using that live_rep [OF rep] payload_clear [OF s'(1)] by (force simp: allocated_def)
  from first_fit_split [of bs "fits (request_size n)"] show thesis
  proof (elim disjE exE conjE)
    fix xs b ys assume bs: "bs = xs @ b # ys" and first: "\<forall>x\<in>set xs. \<not> fits (request_size n) x"
      "fits (request_size n) b"
    have "heap_rep s (xs @ b # ys)" using rep bs by simp
    from kmalloc_reuse [OF this sn(1)] first obtain s' where s': "kmalloc n s = Some (at b + 24, s')"
      "heap_rep s' (xs @ place (request_size n) b @ ys)"
      "\<And>x. clear (xs @ place (request_size n) b @ ys) x \<Longrightarrow> mem s' x = mem s x" by blast
    have al: "allocated (xs @ place (request_size n) b @ ys) = insert (at b + 24,
        if unat (request_size n) + 40 \<le> unat (sz b) then request_size n else sz b) (allocated bs)"
      using allocated_place first(2) bs by (simp add: fits_def)
    have "unat (at b + 24) \<noteq> 0" using block_payload(1) [OF rep, of b] bs by simp
    moreover have "(at b + 24, l) \<notin> allocated bs" for l
      using allocated_fresh [of s xs b ys l] rep bs first(2) by (simp add: allocated_simps fits_def)
    moreover have "unat n \<le> unat (if unat (request_size n) + 40 \<le> unat (sz b) then request_size n else sz b)"
      using sn(2) first(2) by (simp add: fits_def word_le_unat)
    moreover have "mem s' x = mem s x" if "(q, l) \<in> live s" "unat x \<in> payload (q, l)" for q l x
      using kept [OF that s'(2) _ s'(3)] al by auto
    ultimately show thesis
      using s' al live_rep [OF rep] live_rep [OF s'(2)]
      by (intro some [of "at b + 24" s'
            "if unat (request_size n) + 40 \<le> unat (sz b) then request_size n else sz b"])
        (auto simp: heap_inv_def)
  next
    assume no: "\<forall>b\<in>set bs. \<not> fits (request_size n) b"
    show thesis
    proof (cases "unat (heap_end s) + 24 + unat (request_size n) \<le> unat (heap_max s)")
      case True
      let ?b = "\<lparr>at = heap_end s, sz = request_size n, avail = False\<rparr>"
      from kmalloc_extend [OF rep sn(1) _ sn(3) True] no obtain s' where
        s': "kmalloc n s = Some (heap_end s + 24, s')" "heap_rep s' (bs @ [?b])"
        "\<And>x. clear (bs @ [?b]) x \<Longrightarrow> mem s' x = mem s x" by blast
      have al: "allocated (bs @ [?b]) = insert (heap_end s + 24, request_size n) (allocated bs)"
        by (auto simp: allocated_simps)
      have "unat (heap_end s + 24) \<noteq> 0" using block_payload(1) [OF s'(2), of ?b] by simp
      moreover have "(heap_end s + 24, l) \<notin> allocated bs" for l
        using allocated_fresh [of s' bs ?b "[]" l] s'(2) by simp
      moreover have "mem s' x = mem s x" if "(q, l) \<in> live s" "unat x \<in> payload (q, l)" for q l x
        using kept [OF that s'(2) _ s'(3)] al by auto
      ultimately show thesis using s' al sn live_rep [OF rep] live_rep [OF s'(2)]
        by (intro some [of "heap_end s + 24" s' "request_size n"]) (auto simp: heap_inv_def)
    next
      case False
      then show thesis using none kmalloc_exhausted [OF rep sn(1) _ sn(3)] no by simp
    qed
  qed
qed

lemma kfree_effect:
  assumes inv: "heap_inv s" and p: "(p, k) \<in> live s"
  obtains s' where "kfree p s = Inr s'" "heap_inv s'" "live s' = live s - {(p, k)}"
    "\<And>q l x. (q, l) \<in> live s' \<Longrightarrow> unat x \<in> payload (q, l) \<Longrightarrow> mem s' x = mem s x"
proof -
  obtain bs where rep: "heap_rep s bs" using inv by (auto simp: heap_inv_def)
  obtain b where b: "b \<in> set bs" "\<not> avail b" "p = at b + 24" "k = sz b"
    using p live_rep [OF rep] by (auto simp: allocated_def)
  then obtain xs ys where bs: "bs = xs @ b # ys" by (auto dest: split_list)
  then have rep': "heap_rep s (xs @ b # ys)" using rep by simp
  from kfree_refines [OF rep' b(2)] obtain s' where s': "kfree p s = Inr s'"
    "heap_rep s' (free_blocks xs b ys)" "\<And>x. clear bs x \<Longrightarrow> mem s' x = mem s x" using b(3) bs by blast
  have "live s' = live s - {(p, k)}"
    using live_rep [OF s'(2)] live_rep [OF rep'] allocated_fresh [OF rep', of k] b
    by (auto simp: allocated_free_blocks allocated_simps)
  moreover have "mem s' x = mem s x" if "(q, l) \<in> live s" "unat x \<in> payload (q, l)" for q l x
    using that live_rep [OF rep] payload_clear [OF rep] s'(3) by (auto simp: allocated_def)
  ultimately show thesis using that [of s'] s' by (auto simp: heap_inv_def)
qed

section \<open>The contract of an allocator\<close>

text \<open>
  What a client relies on: a serveable request is answered, with \<open>NULL\<close> and nothing changed or
  with a block that overlaps no live one; a live block can be released; neither touches the bytes
  of the other live blocks.
\<close>

locale heap_allocator =
  fixes alloc :: "u32 \<Rightarrow> 's \<Rightarrow> (u32 \<times> 's) option"
    and release :: "u32 \<Rightarrow> 's \<Rightarrow> 's outcome"
    and inv :: "'s \<Rightarrow> bool"
    and blocks :: "'s \<Rightarrow> (u32 \<times> u32) set"
    and bytes :: "'s \<Rightarrow> memory"
  assumes alloc_returns: "inv s \<Longrightarrow> serveable n \<Longrightarrow> \<exists>p s'. alloc n s = Some (p, s')"
    and alloc_inv: "inv s \<Longrightarrow> serveable n \<Longrightarrow> alloc n s = Some (p, s') \<Longrightarrow> inv s'"
    and alloc_null: "inv s \<Longrightarrow> serveable n \<Longrightarrow> alloc n s = Some (NULL, s') \<Longrightarrow>
      blocks s' = blocks s \<and> bytes s' = bytes s"
    and alloc_block: "inv s \<Longrightarrow> serveable n \<Longrightarrow> alloc n s = Some (p, s') \<Longrightarrow> p \<noteq> NULL \<Longrightarrow>
      \<exists>k. unat n \<le> unat k \<and> blocks s' = insert (p, k) (blocks s) \<and> (\<forall>l. (p, l) \<notin> blocks s)"
    and alloc_bytes: "inv s \<Longrightarrow> serveable n \<Longrightarrow> alloc n s = Some (p, s') \<Longrightarrow>
      (q, l) \<in> blocks s \<Longrightarrow> unat x \<in> payload (q, l) \<Longrightarrow> bytes s' x = bytes s x"
    and release_ok: "inv s \<Longrightarrow> (p, k) \<in> blocks s \<Longrightarrow>
      \<exists>s'. release p s = Inr s' \<and> inv s' \<and> blocks s' = blocks s - {(p, k)} \<and>
        (\<forall>q l x. (q, l) \<in> blocks s' \<longrightarrow> unat x \<in> payload (q, l) \<longrightarrow> bytes s' x = bytes s x)"
    and disjoint: "inv s \<Longrightarrow> (p, k) \<in> blocks s \<Longrightarrow> (q, l) \<in> blocks s \<Longrightarrow> (p, k) \<noteq> (q, l) \<Longrightarrow>
      payload (p, k) \<inter> payload (q, l) = {}"
begin

text \<open>Allocating and releasing again leaves the live blocks and their contents as they were.\<close>

lemma alloc_release:
  assumes "inv s" "serveable n" "alloc n s = Some (p, s')" "p \<noteq> NULL"
  shows "\<exists>s''. release p s' = Inr s'' \<and> inv s'' \<and> blocks s'' = blocks s \<and>
    (\<forall>q l x. (q, l) \<in> blocks s \<longrightarrow> unat x \<in> payload (q, l) \<longrightarrow> bytes s'' x = bytes s x)"
proof -
  obtain k where k: "blocks s' = insert (p, k) (blocks s)" "\<And>l. (p, l) \<notin> blocks s"
    using alloc_block [OF assms] by blast
  then have "(p, k) \<in> blocks s'" by simp
  then obtain s'' where s'': "release p s' = Inr s''" "inv s''" "blocks s'' = blocks s' - {(p, k)}"
    "\<And>q l x. (q, l) \<in> blocks s'' \<Longrightarrow> unat x \<in> payload (q, l) \<Longrightarrow> bytes s'' x = bytes s' x"
    using release_ok alloc_inv [OF assms(1-3)] by meson
  then have "blocks s'' = blocks s" using k by auto
  then show ?thesis using s'' alloc_bytes [OF assms(1-3)] by auto
qed

text \<open>A run of requests, as a driver makes them; the walk of the list of results.\<close>

fun alloc_run :: "u32 list \<Rightarrow> 's \<Rightarrow> (u32 list \<times> 's) option" where
  "alloc_run [] s = Some ([], s)"
| "alloc_run (n # ns) s = (case alloc n s of None \<Rightarrow> None
     | Some (p, s') \<Rightarrow> (case alloc_run ns s' of None \<Rightarrow> None | Some (ps, t) \<Rightarrow> Some (p # ps, t)))"

lemma alloc_run_returns:
  "inv s \<Longrightarrow> \<forall>n \<in> set ns. serveable n \<Longrightarrow> \<exists>ps t. alloc_run ns s = Some (ps, t) \<and> inv t"
proof (induction ns arbitrary: s)
  case (Cons n ns)
  then obtain p s' where 1: "alloc n s = Some (p, s')" using alloc_returns by fastforce
  with Cons.prems have "inv s'" using alloc_inv by fastforce
  with Cons obtain ps t where "alloc_run ns s' = Some (ps, t)" "inv t" by fastforce
  with 1 show ?case by simp
qed simp

lemma alloc_run_bytes:
  "inv s \<Longrightarrow> \<forall>n \<in> set ns. serveable n \<Longrightarrow> alloc_run ns s = Some (ps, t) \<Longrightarrow>
     blocks s \<subseteq> blocks t \<and> (\<forall>q l x. (q, l) \<in> blocks s \<longrightarrow> unat x \<in> payload (q, l) \<longrightarrow> bytes t x = bytes s x)"
proof (induction ns arbitrary: s ps)
  case (Cons n ns)
  obtain p s' where 1: "alloc n s = Some (p, s')" using alloc_returns Cons.prems by fastforce
  then obtain ps' where 2: "alloc_run ns s' = Some (ps', t)"
    using Cons.prems(3) by (auto split: option.splits)
  have "inv s'" using alloc_inv 1 Cons.prems by fastforce
  then have t: "blocks s' \<subseteq> blocks t"
    "\<And>q l x. (q, l) \<in> blocks s' \<Longrightarrow> unat x \<in> payload (q, l) \<Longrightarrow> bytes t x = bytes s' x"
    using Cons.IH [OF _ _ 2] Cons.prems(2) by auto
  have s': "blocks s \<subseteq> blocks s'"
  proof (cases "p = NULL")
    case True
    then show ?thesis using alloc_null 1 Cons.prems by fastforce
  next
    case False
    then obtain k where "blocks s' = insert (p, k) (blocks s)"
      using alloc_block [of s n p s'] 1 Cons.prems by auto
    then show ?thesis by blast
  qed
  have "bytes s' x = bytes s x" if "(q, l) \<in> blocks s" "unat x \<in> payload (q, l)" for q l x
    using alloc_bytes [OF _ _ 1 that] Cons.prems by simp
  then show ?case using t s' by (metis (no_types, lifting) subset_iff subset_trans)
qed auto

end

interpretation kheap: heap_allocator kmalloc kfree heap_inv live mem
proof unfold_locales
  fix s :: "'a kheap_scheme" and n p s' q l x
  assume s: "heap_inv s" and n: "serveable n"
  show "\<exists>p s'. kmalloc n s = Some (p, s')"
    by (rule kmalloc_effect [OF s n]) auto
  show "kmalloc n s = Some (p, s') \<Longrightarrow> heap_inv s'"
    by (rule kmalloc_effect [OF s n]) (use s in auto)
  show "kmalloc n s = Some (p, s') \<Longrightarrow> (q, l) \<in> live s \<Longrightarrow> unat x \<in> payload (q, l) \<Longrightarrow>
      mem s' x = mem s x"
    by (rule kmalloc_effect [OF s n]) auto
  show "kmalloc n s = Some (p, s') \<Longrightarrow> p \<noteq> NULL \<Longrightarrow>
      \<exists>k. unat n \<le> unat k \<and> live s' = insert (p, k) (live s) \<and> (\<forall>l. (p, l) \<notin> live s)"
    by (rule kmalloc_effect [OF s n]) auto
  show "kmalloc n s = Some (NULL, s') \<Longrightarrow> live s' = live s \<and> mem s' = mem s"
    by (rule kmalloc_effect [OF s n]) auto
next
  fix s :: "'a kheap_scheme" and p k
  assume "heap_inv s" "(p, k) \<in> live s"
  then show "\<exists>s'. kfree p s = Inr s' \<and> heap_inv s' \<and> live s' = live s - {(p, k)} \<and>
        (\<forall>q l x. (q, l) \<in> live s' \<longrightarrow> unat x \<in> payload (q, l) \<longrightarrow> mem s' x = mem s x)"
    by (rule kfree_effect) auto
next
  fix s :: "'a kheap_scheme" and p k q l
  assume "heap_inv s" "(p, k) \<in> live s" "(q, l) \<in> live s" "(p, k) \<noteq> (q, l)"
  moreover from this obtain bs where "heap_rep s bs" by (auto simp: heap_inv_def)
  ultimately show "payload (p, k) \<inter> payload (q, l) = {}"
    using allocated_disjoint [of s bs p k q l] live_rep [of s bs] by simp
qed

section \<open>Reachable heaps\<close>

text \<open>
  From \<open>kmalloc_init\<close> on, with an image that ends below 1.75 GiB: clients allocate, release live
  blocks, release \<open>NULL\<close>, and write bytes inside their own blocks.
\<close>

inductive heap_reachable :: "u32 \<Rightarrow> 'a kheap_scheme \<Rightarrow> bool" for kernel_end :: u32 where
  boot: "unat kernel_end \<le> 0x70000000 \<Longrightarrow> heap_reachable kernel_end (kmalloc_init kernel_end s)"
| malloc: "heap_reachable kernel_end s \<Longrightarrow> serveable n \<Longrightarrow> kmalloc n s = Some (p, s') \<Longrightarrow>
    heap_reachable kernel_end s'"
| aligned: "heap_reachable kernel_end s \<Longrightarrow> serveable (n + a) \<Longrightarrow> kmalloc_aligned n a s = Some (p, s') \<Longrightarrow>
    heap_reachable kernel_end s'"
| free: "heap_reachable kernel_end s \<Longrightarrow> p = NULL \<or> (p, k) \<in> live s \<Longrightarrow> kfree p s = Inr s' \<Longrightarrow>
    heap_reachable kernel_end s'"
| store: "heap_reachable kernel_end s \<Longrightarrow> (p, k) \<in> live s \<Longrightarrow> unat x \<in> payload (p, k) \<Longrightarrow>
    heap_reachable kernel_end (s\<lparr>mem := store8 x v (mem s)\<rparr>)"

inductive_cases heap_reachableE: "heap_reachable kernel_end s"

lemma kmalloc_init_rep:
  assumes "unat kernel_end \<le> 0x70000000"
  shows "heap_rep (kmalloc_init kernel_end s) []"
proof -
  let ?hs = "PAGE_ALIGN_UP (kernel_end + 0x10000)"
  have "unat (kernel_end + 0x10000) = unat kernel_end + 0x10000"
    using assms by (simp add: unat_add_exact)
  then have "unat (kernel_end + 0x10000 + 4095) = unat kernel_end + 0x10000 + 4095"
    using assms by (simp add: unat_add_exact)
  then have hs: "unat ?hs = (unat kernel_end + 0x10000 + 4095) div 4096 * 4096"
    by (simp add: PAGE_ALIGN_UP_eq unat_PAGE_ALIGN_DOWN minus_mod_eq_div_mult)
  then have hs_range: "0 < unat ?hs" "unat ?hs \<le> 0x70011000"
    using assms by (simp_all add: div_greater_zero_iff)
  have "4096 dvd unat ?hs" by (simp add: hs)
  then have "8 dvd unat ?hs" by (rule dvd_trans [rotated]) simp
  moreover have "unat (?hs + 0x800000) = unat ?hs + 0x800000"
    using hs_range by (simp add: unat_add_exact)
  ultimately show ?thesis
    using hs_range by (simp add: heap_rep_def heap_bounds_def kmalloc_init_def Let_def word_le_unat)
qed

lemma kmalloc_aligned_state:
  "kmalloc_aligned n a s = Some (p, s') \<Longrightarrow> \<exists>q. kmalloc (n + a) s = Some (q, s')"
  by (auto simp: kmalloc_aligned_def split: option.splits if_splits)

lemma heap_reachable_inv: "heap_reachable kernel_end s \<Longrightarrow> heap_inv s"
proof (induction rule: heap_reachable.induct)
  case (boot s)
  then show ?case using kmalloc_init_rep by (auto simp: heap_inv_def)
next
  case (malloc s n p s')
  then show ?case using kheap.alloc_inv by blast
next
  case (aligned s n a p s')
  then show ?case using kmalloc_aligned_state [OF aligned.hyps(3)] kheap.alloc_inv by blast
next
  case (free s p k s')
  then show ?case using kheap.release_ok [of s p k] by (auto simp: kfree_def)
next
  case (store s p k x v)
  then obtain bs where "heap_rep s bs" by (auto simp: heap_inv_def)
  then show ?case using store client_write_rep live_rep by (fastforce simp: heap_inv_def)
qed

text \<open>Every block lies on an 8-byte boundary inside the heap.\<close>

lemma tiles_aligned: "tiles lo bs hi \<Longrightarrow> 8 dvd lo \<Longrightarrow> b \<in> set bs \<Longrightarrow> 8 dvd unat (at b)"
proof (induction bs arbitrary: lo)
  case (Cons a bs)
  then have "8 dvd lo + 24 + unat (sz a)" by auto
  with Cons show ?case by auto
qed simp

lemma live_placed:
  assumes "heap_inv s" "(p, k) \<in> live s"
  shows "unat (heap_start s) < unat p" "unat p + unat k \<le> unat (heap_end s)" "8 dvd unat p"
proof -
  obtain bs where rep: "heap_rep s bs" using assms(1) by (auto simp: heap_inv_def)
  then obtain b where b: "b \<in> set bs" "p = at b + 24" "k = sz b"
    using assms(2) live_rep [OF rep] by (auto simp: allocated_def)
  note bp = block_payload [OF rep b(1)]
  show "unat (heap_start s) < unat p" "unat p + unat k \<le> unat (heap_end s)"
    using bp b by simp_all
  have "8 dvd unat (at b)"
    using tiles_aligned heap_repD(3,5) [OF rep] b(1) by (auto simp: heap_bounds_def)
  then show "8 dvd unat p" using bp b by simp
qed

section \<open>Statistics\<close>

definition used_bytes :: "heap_block list \<Rightarrow> nat" where
  "used_bytes bs = (\<Sum>b\<leftarrow>filter (\<lambda>b. \<not> avail b) bs. unat (sz b) + 24)"

definition free_bytes :: "heap_block list \<Rightarrow> nat" where
  "free_bytes bs = (\<Sum>b\<leftarrow>filter avail bs. unat (sz b))"

lemma fold_count_block:
  "fold count_block bs st = st\<lparr>
     used_size := used_size st + word_of_nat (used_bytes bs),
     free_size := free_size st + word_of_nat (free_bytes bs),
     num_allocations := num_allocations st + word_of_nat (length (filter (\<lambda>b. \<not> avail b) bs)),
     num_free_blocks := num_free_blocks st + word_of_nat (length (filter avail bs))\<rparr>"
proof (induction bs arbitrary: st)
  case (Cons b bs)
  show ?case
    by (simp only: fold_Cons o_apply Cons)
      (simp add: count_block_def used_bytes_def free_bytes_def word_arith_nat_add [symmetric] algebra_simps)
qed (simp add: used_bytes_def free_bytes_def)

lemma tiles_bytes:
  "tiles lo bs hi \<Longrightarrow> hi = lo + used_bytes bs + free_bytes bs + 24 * length (filter avail bs) \<and>
     16 * length bs \<le> hi - lo"
proof (induction bs arbitrary: lo)
  case (Cons b bs)
  from Cons.IH [of "lo + 24 + unat (sz b)"] Cons.prems show ?case
    by (auto simp: used_bytes_def free_bytes_def)
qed (simp add: used_bytes_def free_bytes_def)

lemma allocated_inj:
  assumes "heap_rep s bs"
  shows "inj_on (\<lambda>b. (at b + 24, sz b)) (set bs)" "distinct bs"
proof -
  have so: "sorted_wrt apart (map at bs)" by (rule heap_repD(8) [OF assms])
  have d: "sorted_wrt apart xs \<Longrightarrow> distinct xs" for xs
    by (induction xs) (auto simp: apart_def outside_def)
  from d [OF so] have "distinct (map at bs)" .
  then show "distinct bs" "inj_on (\<lambda>b. (at b + 24, sz b)) (set bs)"
    by (auto simp: distinct_map inj_on_def)
qed

lemma card_live:
  assumes "heap_rep s bs"
  shows "card (live s) = length (filter (\<lambda>b. \<not> avail b) bs)"
    "(\<Sum>(p, k)\<in>live s. unat k + 24) = used_bytes bs"
proof -
  let ?f = "\<lambda>b. (at b + 24, sz b)" and ?us = "filter (\<lambda>b. \<not> avail b) bs"
  have inj: "inj_on ?f (set ?us)" using allocated_inj(1) [OF assms] by (auto simp: inj_on_def)
  have d: "distinct ?us" using allocated_inj(2) [OF assms] by simp
  have live: "live s = ?f ` set ?us" using live_rep [OF assms] by (simp add: allocated_def)
  show "card (live s) = length ?us" using card_image [OF inj] distinct_card [OF d] live by simp
  have "(\<Sum>(p, k)\<in>live s. unat k + 24) = (\<Sum>b\<in>set ?us. unat (sz b) + 24)"
    unfolding live by (subst sum.reindex [OF inj]) (simp add: o_def)
  then show "(\<Sum>(p, k)\<in>live s. unat k + 24) = used_bytes bs"
    unfolding used_bytes_def sum_list_distinct_conv_sum_set [OF d] by simp
qed

lemma unat_and_not_mask: "unat ((x :: u32) AND NOT (mask i)) = unat x div 2 ^ i * 2 ^ i"
proof -
  have "unat x div 2 ^ i * 2 ^ i < 4294967296"
    using unat_u32_bound [of x] by (rule le_less_trans [rotated]) simp
  then show ?thesis by (simp add: and_not_mask_shift unat_push_bit_u32 unat_drop_bit_u32)
qed

lemma round_up_bounds:
  assumes "0 < (m :: nat)"
  shows "p \<le> (p + m - 1) div m * m" "(p + m - 1) div m * m \<le> p + m - 1"
proof -
  have "(p + m - 1) div m * m + (p + m - 1) mod m = p + m - 1" by (rule div_mult_mod_eq)
  moreover have "(p + m - 1) mod m < m" using assms by simp
  ultimately show "p \<le> (p + m - 1) div m * m" "(p + m - 1) div m * m \<le> p + m - 1" by linarith+
qed

section \<open>Properties\<close>

text \<open>A machine to evaluate on: cleared memory, no frame used, heap not yet initialised.\<close>

definition blank_kheap :: kheap where
  "blank_kheap = \<lparr>mem = (\<lambda>_. 0), cr0 = 0, cr3 = 0, tlb = Map.empty,
     frames = \<lparr>frame_bitmap = replicate 4096 0, total_memory = 0x1000000, total_frames = 0x1000, used_frames = 0\<rparr>,
     con = [], current_directory = 0, kernel_directory = 0, heap_start = 0, heap_end = 0, heap_max = 0,
     block_list = 0, total_allocations = 0, total_frees = 0\<rparr>"

lemma boot_0x120000: "heap_reachable 0x120000 (kmalloc_init 0x120000 blank_kheap)"
  by (rule heap_reachable.boot) simp

lemma boot_live: "live (kmalloc_init 0x120000 blank_kheap) = {}"
  using live_rep [OF kmalloc_init_rep [of "0x120000" blank_kheap]] by simp

lemma boot_rep: "heap_rep (kmalloc_init 0x120000 blank_kheap) []"
  by (rule kmalloc_init_rep) simp

lemma boot_bounds:
  "heap_end (kmalloc_init 0x120000 blank_kheap) = 0x130000"
  "heap_max (kmalloc_init 0x120000 blank_kheap) = 0x930000"
  by (simp_all add: kmalloc_init_def Let_def PAGE_ALIGN_UP_def)

lemma request_100: "request_size 100 = 104"
  by (simp add: request_size_def ALIGN_def)

text \<open>The first request after boot, as every witness below makes it.\<close>

lemma boot_malloc:
  "\<exists>s'. kmalloc 100 (kmalloc_init 0x120000 blank_kheap) = Some (0x130018, s') \<and>
     heap_rep s' [\<lparr>at = 0x130000, sz = 104, avail = False\<rparr>]"
  using kmalloc_extend [OF boot_rep, of 100] by (auto simp: boot_bounds request_100)

lemma boot_malloc_reachable:
  assumes "kmalloc 100 (kmalloc_init 0x120000 blank_kheap) = Some (p, s')"
  shows "heap_reachable 0x120000 s'"
  using heap_reachable.malloc [OF boot_0x120000 _ assms] by (simp add: serveable_def)

text \<open>
  C8. Whatever clients did before, a request of 1 to \<open>0x7FFFFFE0\<close> bytes returns: \<open>kmalloc\<close> gives
  \<open>NULL\<close> and changes neither the live blocks nor memory, or it gives an 8-byte aligned block of at
  least the requested size, inside the heap, that overlaps no live block, and no byte of a live
  block changes.
\<close>
theorem kmalloc_correct:
  assumes "heap_reachable kernel_end s" "serveable n"
  shows "\<exists>p s'. kmalloc n s = Some (p, s') \<and>
    (p = NULL \<and> live s' = live s \<and> mem s' = mem s \<or>
     (\<exists>k. unat n \<le> unat k \<and> live s' = insert (p, k) (live s) \<and> 8 dvd unat p \<and>
        unat (heap_start s') < unat p \<and> unat p + unat k \<le> unat (heap_end s') \<and>
        (\<forall>q l. (q, l) \<in> live s \<longrightarrow> payload (p, k) \<inter> payload (q, l) = {} \<and>
           (\<forall>x. unat x \<in> payload (q, l) \<longrightarrow> mem s' x = mem s x))))"
proof -
  have s: "heap_inv s" by (rule heap_reachable_inv [OF assms(1)])
  obtain p s' where k: "kmalloc n s = Some (p, s')" using kheap.alloc_returns [OF s assms(2)] by blast
  have s': "heap_inv s'" by (rule kheap.alloc_inv [OF s assms(2) k])
  show ?thesis
  proof (cases "p = NULL")
    case True
    then show ?thesis using k kheap.alloc_null [OF s assms(2)] by blast
  next
    case False
    then obtain k' where b: "unat n \<le> unat k'" "live s' = insert (p, k') (live s)" "\<And>l. (p, l) \<notin> live s"
      using kheap.alloc_block [OF s assms(2) k] by blast
    have "payload (p, k') \<inter> payload (q, l) = {}" if "(q, l) \<in> live s" for q l
      using that b by (intro kheap.disjoint [OF s']) auto
    moreover have "mem s' x = mem s x" if "(q, l) \<in> live s" "unat x \<in> payload (q, l)" for q l x
      by (rule kheap.alloc_bytes [OF s assms(2) k that])
    ultimately show ?thesis using k b live_placed [OF s', of p k'] by blast
  qed
qed

theorem kmalloc_correct_witness:
  "\<exists>p s'. kmalloc 100 (kmalloc_init 0x120000 blank_kheap) = Some (p, s') \<and>
    (p = NULL \<or> (\<exists>k. 100 \<le> unat k \<and> live s' = {(p, k)}))"
  using kmalloc_correct [OF boot_0x120000, of 100] boot_live by (auto simp: serveable_def)

text \<open>
  C9. Releasing a live block never panics: exactly that block stops being live, the bytes of every
  other live block stay, and afterwards the headers in memory are again a doubly linked chain of
  blocks that fills the heap without a gap, with no two neighbouring blocks free.
\<close>
theorem kfree_correct:
  assumes "heap_reachable kernel_end s" "(p, k) \<in> live s"
  shows "\<exists>s' bs. kfree p s = Inr s' \<and> live s' = live s - {(p, k)} \<and>
    (\<forall>q l x. (q, l) \<in> live s' \<longrightarrow> unat x \<in> payload (q, l) \<longrightarrow> mem s' x = mem s x) \<and>
    block_list s' = first_at bs NULL \<and> dll (mem s') NULL bs NULL \<and>
    tiles (unat (heap_start s')) bs (unat (heap_end s')) \<and> coalesced bs"
proof -
  have s: "heap_inv s" by (rule heap_reachable_inv [OF assms(1)])
  obtain s' where s': "kfree p s = Inr s'" "heap_inv s'" "live s' = live s - {(p, k)}"
    "\<And>q l x. (q, l) \<in> live s' \<Longrightarrow> unat x \<in> payload (q, l) \<Longrightarrow> mem s' x = mem s x"
    using kheap.release_ok [OF s assms(2)] by blast
  then obtain bs where "heap_rep s' bs" by (auto simp: heap_inv_def)
  then show ?thesis using s' heap_repD [of s' bs] by blast
qed

theorem kfree_correct_witness:
  "\<exists>s s' :: kheap. live s = {(0x130018, 104)} \<and> kfree 0x130018 s = Inr s' \<and> live s' = {}"
proof -
  obtain s where s: "kmalloc 100 (kmalloc_init 0x120000 blank_kheap) = Some (0x130018, s)"
    "heap_rep s [\<lparr>at = 0x130000, sz = 104, avail = False\<rparr>]" using boot_malloc by blast
  have live: "live s = {(0x130018, 104)}" using live_rep [OF s(2)] by (simp add: allocated_simps)
  have "heap_reachable 0x120000 s" using boot_malloc_reachable s(1) by blast
  moreover have "(0x130018, 104) \<in> live s" by (simp add: live)
  ultimately obtain s' where "kfree 0x130018 s = Inr s'" "live s' = live s - {(0x130018, 104)}"
    using kfree_correct [of "0x120000" s "0x130018" 104] by blast
  then have "live s = {(0x130018, 104)} \<and> kfree 0x130018 s = Inr s' \<and> live s' = {}"
    using live by simp
  then show ?thesis by blast
qed

text \<open>First fit on the list of blocks: the specification \<open>kmalloc\<close> implements.\<close>

fun first_fit :: "u32 \<Rightarrow> heap_block list \<Rightarrow> (u32 \<times> heap_block list) option" where
  "first_fit n [] = None"
| "first_fit n (b # bs) =
     (if fits n b then Some (at b + 24, place n b @ bs)
      else map_option (\<lambda>(p, cs). (p, b # cs)) (first_fit n bs))"

lemma first_fit_Some:
  "(\<And>x. x \<in> set xs \<Longrightarrow> \<not> fits n x) \<Longrightarrow> fits n b \<Longrightarrow>
     first_fit n (xs @ b # ys) = Some (at b + 24, xs @ place n b @ ys)"
  by (induction xs) auto

lemma first_fit_None: "(\<And>b. b \<in> set bs \<Longrightarrow> \<not> fits n b) \<Longrightarrow> first_fit n bs = None"
  by (induction bs) auto

text \<open>
  C12. \<open>kmalloc\<close> refines first fit on the list of blocks: with the request rounded up to a multiple
  of 8 and at least 16, it takes the first free block that is large enough and splits off the rest
  when that leaves room for a header and 16 bytes; when no block fits it appends one at the end of
  the heap, and when the heap would pass its limit it answers \<open>NULL\<close> with a warning and changes
  nothing else.
\<close>
theorem kmalloc_refines_first_fit:
  assumes "heap_rep s bs" "serveable n"
  shows "case first_fit (request_size n) bs of
      Some (p, cs) \<Rightarrow> \<exists>s'. kmalloc n s = Some (p, s') \<and> heap_rep s' cs
    | None \<Rightarrow>
        if unat (heap_end s) + 24 + unat (request_size n) \<le> unat (heap_max s)
        then \<exists>s'. kmalloc n s = Some (heap_end s + 24, s') \<and>
          heap_rep s' (bs @ [\<lparr>at = heap_end s, sz = request_size n, avail = False\<rparr>])
        else kmalloc n s = Some (NULL, warn_con ''kbrk: Heap would exceed maximum size'' s)"
proof -
  note sn = serveable_request [OF assms(2)]
  from first_fit_split [of bs "fits (request_size n)"] show ?thesis
  proof (elim disjE exE conjE)
    fix xs b ys assume h: "bs = xs @ b # ys" "\<forall>x\<in>set xs. \<not> fits (request_size n) x" "fits (request_size n) b"
    then have "first_fit (request_size n) bs = Some (at b + 24, xs @ place (request_size n) b @ ys)"
      using first_fit_Some by blast
    then show ?thesis using kmalloc_reuse [of s xs b ys n] assms(1) sn(1) h by auto
  next
    assume no: "\<forall>b\<in>set bs. \<not> fits (request_size n) b"
    then have "first_fit (request_size n) bs = None" using first_fit_None by blast
    then show ?thesis
      using kmalloc_extend [OF assms(1) sn(1) _ sn(3)] kmalloc_exhausted [OF assms(1) sn(1) _ sn(3)] no by auto
  qed
qed

theorem kmalloc_refines_first_fit_witness:
  "\<exists>s' :: kheap. kmalloc 100 (kmalloc_init 0x120000 blank_kheap) = Some (0x130018, s') \<and>
     heap_rep s' [\<lparr>at = 0x130000, sz = 104, avail = False\<rparr>]"
  using kmalloc_refines_first_fit [OF boot_rep, of 100]
  by (simp add: serveable_def boot_bounds request_100)

text \<open>
  Allocating from a free block and releasing it at once gives the heap its old list of blocks
  back: the remainder that was split off is merged again.
\<close>
lemma kmalloc_kfree_roundtrip:
  assumes "heap_rep s bs" "serveable n" "b \<in> set bs" "fits (request_size n) b"
  shows "\<exists>p s' s''. kmalloc n s = Some (p, s') \<and> kfree p s' = Inr s'' \<and> heap_rep s'' bs"
proof -
  let ?n = "request_size n"
  obtain xs c ys where bs: "bs = xs @ c # ys" and first: "\<forall>x\<in>set xs. \<not> fits ?n x" "fits ?n c"
    using first_fit_split [of bs "fits ?n"] assms(3,4) by blast
  obtain s' where s': "kmalloc n s = Some (at c + 24, s')" "heap_rep s' (xs @ place ?n c @ ys)"
    using kmalloc_reuse [of s xs c ys n] assms(1) bs first serveable_request(1) [OF assms(2)] by auto
  have co: "xs \<noteq> [] \<Longrightarrow> \<not> avail (last xs)" "ys \<noteq> [] \<Longrightarrow> \<not> avail (hd ys)" "avail c"
    using heap_repD(4) [OF assms(1)] first(2) bs by (auto simp: coalesced_append_Cons fits_def)
  obtain c' zs where place: "place ?n c = c' # zs" "at c' = at c" "\<not> avail c'"
    by (cases "unat ?n + 40 \<le> unat (sz c)") (simp_all add: place_def)
  have "free_blocks xs c' (zs @ ys) = bs"
  proof (cases "unat ?n + 40 \<le> unat (sz c)")
    case True
    then have "c' = c\<lparr>sz := ?n, avail := False\<rparr>" "zs = [rest_block c ?n]" using place by (auto simp: place_def)
    then show ?thesis using co bs by (auto simp: free_blocks_def rest_block_def absorb_def)
  next
    case False
    then have "c' = c\<lparr>avail := False\<rparr>" "zs = []" using place by (auto simp: place_def)
    then show ?thesis using co bs by (cases ys) (auto simp: free_blocks_def)
  qed
  then show ?thesis using kfree_refines [of s' xs c' "zs @ ys"] s' place by auto
qed

text \<open>
  The statistics are exact in every reachable state: the walk returns, the count of allocations
  is the number of live blocks, the used size is their bytes with their headers, and the heap is
  exactly the used bytes, the free bytes and one header for each free block.
\<close>
lemma kmalloc_stats_exact:
  assumes "heap_inv s"
  shows "\<exists>st. kmalloc_get_stats s = Some st \<and> heap_size st = heap_end s - heap_start s \<and>
    unat (num_allocations st) = card (live s) \<and>
    unat (used_size st) = (\<Sum>(p, k)\<in>live s. unat k + 24) \<and>
    unat (heap_size st) = unat (used_size st) + unat (free_size st) + 24 * unat (num_free_blocks st)"
proof -
  obtain bs where rep: "heap_rep s bs" using assms by (auto simp: heap_inv_def)
  note r = heap_repD [OF rep] and t = tiles_bytes [OF heap_repD(5) [OF rep]]
  let ?fl = "length (filter avail bs)" and ?ul = "length (filter (\<lambda>b. \<not> avail b) bs)"
  let ?st = "\<lparr>heap_size = heap_end s - heap_start s, used_size = word_of_nat (used_bytes bs),
      free_size = word_of_nat (free_bytes bs), num_allocations = word_of_nat ?ul,
      num_free_blocks = word_of_nat ?fl\<rparr>"
  have "kmalloc_get_stats s = Some ?st"
    using stats_from_dll [OF r(1,9)] r(2) by (simp add: kmalloc_get_stats_def fold_count_block)
  moreover have "unat (heap_end s - heap_start s) = unat (heap_end s) - unat (heap_start s)"
    using tiles_le [OF r(5)] by (simp add: unat_sub_exact word_le_unat)
  moreover have "used_bytes bs < 4294967296" "free_bytes bs < 4294967296" "?ul < 4294967296" "?fl < 4294967296"
    using t r(7) length_filter_le [of avail bs] length_filter_le [of "\<lambda>b. \<not> avail b" bs] by linarith+
  ultimately show ?thesis using t card_live [OF rep]
    by (intro exI [of _ ?st]) (simp add: unat_word_of_nat_u32)
qed

text \<open>
  A request whose size with its header does not fit a positive \<open>int\<close> is not refused: from
  \<open>0x7FFFFFE8\<close> bytes on \<open>kbrk\<close> takes the increment for a negative one, so the block is handed out
  and the heap ends beyond its limit.
\<close>
lemma kmalloc_huge_request_passes_limit:
  assumes rep: "heap_rep s []" and n: "0x7FFFFFE8 \<le> unat (request_size n)" "n \<noteq> 0"
    and fit: "unat (heap_end s) + 24 + unat (request_size n) < 0x100000000"
  shows "\<exists>s'. kmalloc n s = Some (heap_end s + 24, s') \<and> heap_max s' < heap_end s' \<and>
    ksize (heap_end s + 24) s' = request_size n"
proof -
  note r = heap_repD [OF rep]
  let ?n = "request_size n"
  let ?m = "fresh_header (heap_end s) ?n (mem s)"
  have k: "unat (24 + ?n) = 24 + unat ?n" using fit by (simp add: unat_add_exact)
  then have e: "unat (heap_end s + (24 + ?n)) = unat (heap_end s) + 24 + unat ?n"
    using fit by (simp add: unat_add_exact)
  have eq: "heap_start s = heap_end s" using r(5) by (simp add: word_eq_unat)
  have "\<not> 0 <s 24 + ?n"
    using sint_neg_unat [of "24 + ?n"] k n(1) by (simp add: word_sless_alt)
  moreover have "24 + ?n \<noteq> 0" using k by (auto simp: word_eq_unat)
  moreover have "\<not> heap_end s + (24 + ?n) < heap_start s" using e eq by (simp add: word_less_unat)
  ultimately have brk: "kbrk (24 + ?n) s = (heap_end s, s\<lparr>heap_end := heap_end s + (24 + ?n)\<rparr>)"
    by (simp add: kbrk_def Let_def)
  have ne: "heap_end s \<noteq> MINUS1" "heap_end s + 24 \<noteq> NULL"
    using r(7) fit unat_add_exact [of "heap_end s" 24] by (auto simp: word_eq_unat)
  let ?s = "s\<lparr>mem := ?m, heap_end := heap_end s + (24 + ?n), block_list := heap_end s,
      total_allocations := total_allocations s + 1\<rparr>"
  have "kmalloc n s = Some (heap_end s + 24, ?s)"
    using kmalloc_none [OF rep n(2)] brk ne r(2) n(2)
    by (simp add: kmalloc_def Let_def request_size_def [symmetric] fresh_header_def [symmetric])
  moreover have "heap_max ?s < heap_end ?s"
  proof -
    have "unat (heap_max s) \<le> 0x80000000" "0 < unat (heap_end s)"
      using r(3,6) by (simp_all add: heap_bounds_def eq)
    then have "unat (heap_max s) < unat (heap_end s) + 24 + unat ?n"
      using n(1) by linarith
    then show ?thesis using e by (simp add: word_less_unat)
  qed
  moreover have "ksize (heap_end s + 24) ?s = ?n"
    using ne by (simp add: ksize_def Let_def fresh_header_headers header_of_def)
  ultimately show ?thesis by blast
qed

text \<open>
  \<open>kmalloc_aligned\<close> with a power of two: when the sum of size and alignment is serveable it
  returns, and a result other than \<open>NULL\<close> is a multiple of the alignment from which \<open>size\<close> bytes
  lie inside the block that was just allocated.
\<close>
lemma kmalloc_aligned_correct:
  assumes s: "heap_reachable kernel_end s" and n: "unat n + 2 ^ i \<le> 0x7FFFFFE0"
  shows "\<exists>q s'. kmalloc_aligned n (2 ^ i) s = Some (q, s') \<and>
    (q = NULL \<and> live s' = live s \<or>
     (\<exists>p k. live s' = insert (p, k) (live s) \<and> 2 ^ i dvd unat q \<and>
        unat p \<le> unat q \<and> unat q + unat n \<le> unat p + unat k))"
proof -
  have inv: "heap_inv s" by (rule heap_reachable_inv [OF s])
  have "(2 :: nat) ^ i < 4294967296" using n by linarith
  then have a: "unat (2 ^ i :: u32) = 2 ^ i"
    using unat_push_bit_u32 [of i 1] by (simp add: push_bit_eq_mult)
  then have na: "unat (n + 2 ^ i) = unat n + 2 ^ i" using n by (simp add: unat_add_exact)
  then have ok: "serveable (n + 2 ^ i)" using n by (simp add: serveable_def)
  obtain p s' where k: "kmalloc (n + 2 ^ i) s = Some (p, s')"
    using kheap.alloc_returns [OF inv ok] by blast
  show ?thesis
  proof (cases "p = NULL")
    case True
    then show ?thesis using k kheap.alloc_null [OF inv ok] by (simp add: kmalloc_aligned_def)
  next
    case False
    obtain k' where k': "unat (n + 2 ^ i) \<le> unat k'" "live s' = insert (p, k') (live s)"
      using kheap.alloc_block [OF inv ok k False] by blast
    have inv': "heap_inv s'" by (rule kheap.alloc_inv [OF inv ok k])
    have p: "unat p + unat k' \<le> unat (heap_end s')" "unat (heap_end s') \<le> 0x80000000"
      using live_placed [OF inv', of p k'] k'(2) inv' heap_repD(7) by (auto simp: heap_inv_def)
    let ?q = "(p + 2 ^ i - 1) AND NOT (2 ^ i - 1)"
    have "unat (p + 2 ^ i) = unat p + 2 ^ i" using a p k'(1) na by (simp add: unat_add_exact)
    then have p1: "unat (p + 2 ^ i - 1) = unat p + 2 ^ i - 1"
      by (subst unat_dec) (auto simp: word_eq_unat)
    have q: "unat ?q = (unat p + 2 ^ i - 1) div 2 ^ i * 2 ^ i"
      using unat_and_not_mask [of "p + 2 ^ i - 1" i] p1 by (simp add: mask_eq_exp_minus_1)
    have lo: "unat p \<le> unat ?q" and "unat ?q \<le> unat p + 2 ^ i - 1"
      unfolding q by (rule round_up_bounds; simp)+
    then have hi: "unat ?q + unat n \<le> unat p + unat k'" using k'(1) na by linarith
    have "2 ^ i dvd unat ?q" unfolding q by simp
    moreover have "kmalloc_aligned n (2 ^ i) s = Some (?q, s')"
      using k False by (simp add: kmalloc_aligned_def)
    ultimately show ?thesis using k'(2) lo hi by blast
  qed
qed

text \<open>
  Misuse of \<open>kfree\<close>: \<open>NULL\<close> is ignored; a pointer to a block that is free already only draws a
  warning, so releasing a block twice leaves the heap as it was; and a pointer with no magic number
  24 bytes before it panics.
\<close>
lemma kfree_misuse:
  "kfree NULL s = Inr s \<and>
   (heap_rep s bs \<and> b \<in> set bs \<and> avail b \<longrightarrow>
      kfree (at b + 24) s = Inr (warn_con ''kfree: Block already free (double-free attempt)'' s)) \<and>
   (p \<noteq> NULL \<and> load32 (mem s) (p - 24 + 16) \<noteq> BLOCK_MAGIC \<longrightarrow>
      kfree p s = Inl (Panic ''kfree: Invalid block (corrupted or double-free)''))"
proof (intro conjI impI; (elim conjE)?)
  show "kfree NULL s = Inr s" by (simp add: kfree_def)
  show "p \<noteq> NULL \<Longrightarrow> load32 (mem s) (p - 24 + 16) \<noteq> BLOCK_MAGIC \<Longrightarrow>
      kfree p s = Inl (Panic ''kfree: Invalid block (corrupted or double-free)'')"
    by (simp add: kfree_def header_def Let_def)
  assume rep: "heap_rep s bs" and b: "b \<in> set bs" "avail b"
  then obtain xs ys where bs: "bs = xs @ b # ys" by (auto dest: split_list)
  have "header (mem s) (at b) = header_of b (last_at xs NULL) (first_at ys NULL)"
    using heap_repD(1) [OF rep] bs by (simp add: dll_append)
  moreover have "at b + 24 \<noteq> NULL" using block_payload(1) [OF rep b(1)] by auto
  ultimately show "kfree (at b + 24) s = Inr (warn_con ''kfree: Block already free (double-free attempt)'' s)"
    using b(2) by (simp add: kfree_def header_of_def Let_def)
qed

end
