(* ===== verification/Paging.thy ===== *)
theory Paging
  imports Machine
begin

unbundle bit_operations_syntax

text \<open>
  Paging, \<open>kernel/src/paging.c\<close>: the two-level tables in physical memory, the walk the processor
  does over them, and the functions that build and change them. Every access the kernel makes to
  a directory or a table is an access to a virtual address: it goes through the same walk, and ends
  in a page fault where the walk finds nothing.
\<close>

section \<open>Entries and indices (\<open>paging.h\<close>)\<close>

abbreviation (input) PAGE_PRESENT :: u32 where "PAGE_PRESENT \<equiv> 0x001"
abbreviation (input) PAGE_WRITE :: u32 where "PAGE_WRITE \<equiv> 0x002"
abbreviation (input) PAGE_USER :: u32 where "PAGE_USER \<equiv> 0x004"
abbreviation (input) PAGE_KERNEL :: u32 where "PAGE_KERNEL \<equiv> 0x003"
abbreviation (input) PAGE_USER_RW :: u32 where "PAGE_USER_RW \<equiv> 0x007"
abbreviation (input) PAGE_DIR_ENTRIES :: u32 where "PAGE_DIR_ENTRIES \<equiv> 1024"
abbreviation (input) PAGE_TABLE_ENTRIES :: u32 where "PAGE_TABLE_ENTRIES \<equiv> 1024"

definition PAGE_DIR_INDEX :: "u32 \<Rightarrow> u32" where
  "PAGE_DIR_INDEX addr = drop_bit 22 addr AND 0x3FF"

definition PAGE_TABLE_INDEX :: "u32 \<Rightarrow> u32" where
  "PAGE_TABLE_INDEX addr = drop_bit 12 addr AND 0x3FF"

definition PAGE_OFFSET :: "u32 \<Rightarrow> u32" where
  "PAGE_OFFSET addr = addr AND 0xFFF"

definition PAGE_FRAME :: "u32 \<Rightarrow> u32" where
  "PAGE_FRAME entry = entry AND 0xFFFFF000"

definition present :: "u32 \<Rightarrow> bool" where
  "present entry \<longleftrightarrow> entry AND PAGE_PRESENT \<noteq> 0"

text \<open>\<open>&table->entries[i]\<close>.\<close>

definition entry_at :: "u32 \<Rightarrow> u32 \<Rightarrow> u32" where
  "entry_at base i = base + 4 * i"

section \<open>The memory management unit\<close>

text \<open>
  The walk of the i386 with 4 KiB pages (\<open>CR4.PSE\<close> stays clear); supervisor accesses ignore the
  write and user bits (\<open>CR0.WP\<close> stays clear).
\<close>

definition walk :: "memory \<Rightarrow> u32 \<Rightarrow> u32 \<Rightarrow> u32 option" where
  "walk m dir v =
     (let pde = load32 m (entry_at dir (PAGE_DIR_INDEX v)) in
      if \<not> present pde then None
      else
        let pte = load32 m (entry_at (PAGE_FRAME pde) (PAGE_TABLE_INDEX v)) in
        if \<not> present pte then None else Some (PAGE_FRAME pte OR PAGE_OFFSET v))"

abbreviation (input) CR0_PG :: u32 where "CR0_PG \<equiv> 0x80000000"

definition translate :: "'a machine_scheme \<Rightarrow> u32 \<Rightarrow> u32 option" where
  "translate s v = (if cr0 s AND CR0_PG \<noteq> 0 then walk (mem s) (PAGE_FRAME (cr3 s)) v else Some v)"

definition vload32 :: "'a machine_scheme \<Rightarrow> u32 \<Rightarrow> u32 outcome" where
  "vload32 s v = (case translate s v of None \<Rightarrow> Inl (PageFault v) | Some p \<Rightarrow> Inr (load32 (mem s) p))"

definition vstore32 :: "u32 \<Rightarrow> u32 \<Rightarrow> 'a machine_scheme \<Rightarrow> 'a machine_scheme outcome" where
  "vstore32 v x s = (case translate s v of None \<Rightarrow> Inl (PageFault v)
     | Some p \<Rightarrow> Inr (s\<lparr>mem := store32 p x (mem s)\<rparr>))"

definition vstore8 :: "u32 \<Rightarrow> u8 \<Rightarrow> 'a machine_scheme \<Rightarrow> 'a machine_scheme outcome" where
  "vstore8 v x s = (case translate s v of None \<Rightarrow> Inl (PageFault v)
     | Some p \<Rightarrow> Inr (s\<lparr>mem := store8 p x (mem s)\<rparr>))"

section \<open>Registers and the translation cache\<close>

function memset_paging ::
  "u32 \<Rightarrow> u8 \<Rightarrow> u32 \<Rightarrow> 'a machine_scheme \<Rightarrow> 'a machine_scheme outcome" where
  "memset_paging p value n s =
     (if n = 0 then Inr s
      else obind (vstore8 p value s) (\<lambda>s. memset_paging (p + 1) value (n - 1) s))"
  by pat_completeness auto
termination
  by (relation "measure (\<lambda>(p, value, n, s). unat n)") (auto simp: unat_dec unat_gt_0)

declare memset_paging.simps [simp del]

definition load_page_directory :: "u32 \<Rightarrow> 'a machine_scheme \<Rightarrow> 'a machine_scheme" where
  "load_page_directory addr s = s\<lparr>cr3 := addr, tlb := Map.empty\<rparr>"

definition get_cr3 :: "'a machine_scheme \<Rightarrow> u32" where
  "get_cr3 s = cr3 s"

definition paging_enable :: "'a machine_scheme \<Rightarrow> 'a machine_scheme" where
  "paging_enable s = s\<lparr>cr0 := cr0 s OR 0x80000000, tlb := Map.empty\<rparr>"

definition paging_disable :: "'a machine_scheme \<Rightarrow> 'a machine_scheme" where
  "paging_disable s = s\<lparr>cr0 := cr0 s AND NOT 0x80000000, tlb := Map.empty\<rparr>"

definition paging_flush_tlb :: "u32 \<Rightarrow> 'a machine_scheme \<Rightarrow> 'a machine_scheme" where
  "paging_flush_tlb addr s = s\<lparr>tlb := (tlb s)(PAGE_ALIGN_DOWN addr := None)\<rparr>"

definition paging_flush_tlb_all :: "'a machine_scheme \<Rightarrow> 'a machine_scheme" where
  "paging_flush_tlb_all s = load_page_directory (get_cr3 s) s"

section \<open>Building the kernel's tables\<close>

text \<open>
  \<open>kpd\<close> and \<open>kpt\<close> are the addresses of \<open>kernel_page_directory\<close> and \<open>kernel_page_tables\<close>. The
  nested loops of \<open>paging_init\<close>, innermost first.
\<close>

function clear_tables :: "u32 \<Rightarrow> u32 \<Rightarrow> 'a machine_scheme \<Rightarrow> 'a machine_scheme outcome" where
  "clear_tables kpt i s =
     (if i < 4 then obind (memset_paging (kpt + i * 4096) 0 4096 s) (\<lambda>s. clear_tables kpt (i + 1) s)
      else Inr s)"
  by pat_completeness auto
termination
  by (relation "measure (\<lambda>(kpt, i, s). unat (4 :: u32) - unat i)") (auto dest: counter_decreases)

function fill_table :: "u32 \<Rightarrow> u32 \<Rightarrow> u32 \<Rightarrow> 'a machine_scheme \<Rightarrow> 'a machine_scheme outcome" where
  "fill_table kpt i j s =
     (if j < PAGE_TABLE_ENTRIES then
        let phys_addr = (i * PAGE_TABLE_ENTRIES + j) * PAGE_SIZE
        in obind (vstore32 (entry_at (kpt + i * 4096) j) (phys_addr OR PAGE_KERNEL) s)
             (\<lambda>s. fill_table kpt i (j + 1) s)
      else Inr s)"
  by pat_completeness auto
termination
  by (relation "measure (\<lambda>(kpt, i, j, s). unat (1024 :: u32) - unat j)") (auto dest: counter_decreases)

function fill_tables :: "u32 \<Rightarrow> u32 \<Rightarrow> u32 \<Rightarrow> 'a machine_scheme \<Rightarrow> 'a machine_scheme outcome" where
  "fill_tables kpd kpt i s =
     (if i < 4 then
        obind (fill_table kpt i 0 s) (\<lambda>s.
        obind (vstore32 (entry_at kpd i) ((kpt + i * 4096) OR PAGE_KERNEL) s) (\<lambda>s.
        fill_tables kpd kpt (i + 1) s))
      else Inr s)"
  by pat_completeness auto
termination
  by (relation "measure (\<lambda>(kpd, kpt, i, s). unat (4 :: u32) - unat i)") (auto dest: counter_decreases)

declare clear_tables.simps [simp del] fill_table.simps [simp del] fill_tables.simps [simp del]

definition paging_init :: "u32 \<Rightarrow> u32 \<Rightarrow> 'a paging_scheme \<Rightarrow> 'a paging_scheme outcome" where
  "paging_init kpd kpt s =
     obind (memset_paging kpd 0 4096 s) (\<lambda>s.
     obind (clear_tables kpt 0 s) (\<lambda>s.
     obind (fill_tables kpd kpt 0 s) (\<lambda>s.
     let s = s\<lparr>current_directory := kpd\<rparr>;
         s = s\<lparr>kernel_directory := kpd\<rparr>;
         s = load_page_directory kpd s
     in Inr (paging_enable s))))"

section \<open>Mapping\<close>

function copy_entries :: "u32 \<Rightarrow> u32 \<Rightarrow> u32 \<Rightarrow> 'a machine_scheme \<Rightarrow> 'a machine_scheme outcome" where
  "copy_entries destination source i s =
     (if i < PAGE_DIR_ENTRIES then
        obind (vload32 s (entry_at source i)) (\<lambda>e.
        obind (vstore32 (entry_at destination i) e s) (\<lambda>s.
        copy_entries destination source (i + 1) s))
      else Inr s)"
  by pat_completeness auto
termination
  by (relation "measure (\<lambda>(d, e, i, s). unat (1024 :: u32) - unat i)") (auto dest: counter_decreases)

declare copy_entries.simps [simp del]

definition paging_copy_directory ::
  "u32 \<Rightarrow> u32 \<Rightarrow> 'a paging_scheme \<Rightarrow> 'a paging_scheme outcome" where
  "paging_copy_directory destination source s =
     (if destination = NULL \<or> source = NULL then Inr s
      else obind (memset_paging destination 0 4096 s) (\<lambda>s. copy_entries destination source 0 s))"

definition paging_get_or_create_table ::
  "u32 \<Rightarrow> u32 \<Rightarrow> u32 \<Rightarrow> 'a paging_scheme \<Rightarrow> (u32 \<times> 'a paging_scheme) outcome" where
  "paging_get_or_create_table directory virt_addr flags s =
     (let entry = entry_at directory (PAGE_DIR_INDEX virt_addr) in
      obind (vload32 s entry) (\<lambda>e.
      if \<not> present e then
        let (table_phys, fr) = pmm_alloc_frame (frames s);
            s = s\<lparr>frames := fr\<rparr>
        in if table_phys = 0 then Inl (Panic ''paging_map_page: Out of memory for page table'')
           else
             obind (memset_paging table_phys 0 4096 s) (\<lambda>s.
             obind (vstore32 entry (table_phys OR PAGE_PRESENT OR PAGE_WRITE) s) (\<lambda>s.
             if flags AND PAGE_USER \<noteq> 0 then
               obind (vload32 s entry) (\<lambda>e.
               obind (vstore32 entry (e OR PAGE_USER) s) (\<lambda>s. Inr (table_phys, s)))
             else Inr (table_phys, s)))
      else
        obind (if flags AND PAGE_USER \<noteq> 0 then vstore32 entry (e OR PAGE_USER) s else Inr s) (\<lambda>s.
        obind (vload32 s entry) (\<lambda>e. Inr (PAGE_FRAME e, s)))))"

definition paging_map_page_in_directory ::
  "u32 \<Rightarrow> u32 \<Rightarrow> u32 \<Rightarrow> u32 \<Rightarrow> 'a paging_scheme \<Rightarrow> 'a paging_scheme outcome" where
  "paging_map_page_in_directory directory virt_addr phys_addr flags s =
     (if directory = NULL then Inr s
      else
        obind (paging_get_or_create_table directory virt_addr flags s) (\<lambda>(table, s).
        if table = NULL then Inr s
        else
          obind (vstore32 (entry_at table (PAGE_TABLE_INDEX virt_addr))
                   ((phys_addr AND 0xFFFFF000) OR (flags AND 0xFFF)) s) (\<lambda>s.
          Inr (if directory = current_directory s then paging_flush_tlb virt_addr s else s))))"

definition paging_map_page ::
  "u32 \<Rightarrow> u32 \<Rightarrow> u32 \<Rightarrow> 'a paging_scheme \<Rightarrow> 'a paging_scheme outcome" where
  "paging_map_page virt_addr phys_addr flags s =
     paging_map_page_in_directory (current_directory s) virt_addr phys_addr flags s"

definition paging_unmap_page_in_directory ::
  "u32 \<Rightarrow> u32 \<Rightarrow> 'a paging_scheme \<Rightarrow> 'a paging_scheme outcome" where
  "paging_unmap_page_in_directory directory virt_addr s =
     (if directory = NULL then Inr s
      else
        obind (vload32 s (entry_at directory (PAGE_DIR_INDEX virt_addr))) (\<lambda>e.
        if \<not> present e then Inr s
        else
          obind (vstore32 (entry_at (PAGE_FRAME e) (PAGE_TABLE_INDEX virt_addr)) 0 s) (\<lambda>s.
          Inr (if directory = current_directory s then paging_flush_tlb virt_addr s else s))))"

definition paging_unmap_page :: "u32 \<Rightarrow> 'a paging_scheme \<Rightarrow> 'a paging_scheme outcome" where
  "paging_unmap_page virt_addr s = paging_unmap_page_in_directory (current_directory s) virt_addr s"

definition paging_get_physical_in_directory ::
  "u32 \<Rightarrow> u32 \<Rightarrow> 'a paging_scheme \<Rightarrow> u32 outcome" where
  "paging_get_physical_in_directory directory virt_addr s =
     (if directory = NULL then Inr 0
      else
        obind (vload32 s (entry_at directory (PAGE_DIR_INDEX virt_addr))) (\<lambda>e.
        if \<not> present e then Inr 0
        else
          obind (vload32 s (entry_at (PAGE_FRAME e) (PAGE_TABLE_INDEX virt_addr))) (\<lambda>t.
          if \<not> present t then Inr 0
          else Inr (PAGE_FRAME t OR PAGE_OFFSET virt_addr))))"

definition paging_get_physical :: "u32 \<Rightarrow> 'a paging_scheme \<Rightarrow> u32 outcome" where
  "paging_get_physical virt_addr s = paging_get_physical_in_directory (current_directory s) virt_addr s"

definition paging_is_mapped :: "u32 \<Rightarrow> 'a paging_scheme \<Rightarrow> bool outcome" where
  "paging_is_mapped virt_addr s =
     obind (vload32 s (entry_at (current_directory s) (PAGE_DIR_INDEX virt_addr))) (\<lambda>e.
     if \<not> present e then Inr False
     else obind (vload32 s (entry_at (PAGE_FRAME e) (PAGE_TABLE_INDEX virt_addr))) (\<lambda>t. Inr (present t)))"

definition paging_get_directory :: "'a paging_scheme \<Rightarrow> u32" where
  "paging_get_directory s = current_directory s"

definition paging_get_kernel_directory :: "'a paging_scheme \<Rightarrow> u32" where
  "paging_get_kernel_directory s = kernel_directory s"

definition paging_switch_directory :: "u32 \<Rightarrow> 'a paging_scheme \<Rightarrow> 'a paging_scheme" where
  "paging_switch_directory directory s =
     (if directory = NULL then s
      else load_page_directory directory (s\<lparr>current_directory := directory\<rparr>))"

partial_function (option) identity_map_from ::
  "u32 \<Rightarrow> u32 \<Rightarrow> u32 \<Rightarrow> 'a paging_scheme \<Rightarrow> 'a paging_scheme outcome option" where
  "identity_map_from addr limit flags s =
     (if addr < limit then
        (case paging_map_page addr addr flags s of
           Inl e \<Rightarrow> Some (Inl e)
         | Inr s \<Rightarrow> identity_map_from (addr + PAGE_SIZE) limit flags s)
      else Some (Inr s))"

definition paging_identity_map ::
  "u32 \<Rightarrow> u32 \<Rightarrow> u32 \<Rightarrow> 'a paging_scheme \<Rightarrow> 'a paging_scheme outcome option" where
  "paging_identity_map start limit flags s =
     identity_map_from (PAGE_ALIGN_DOWN start) (PAGE_ALIGN_UP limit) flags s"

end
