(* ===== verification/Process.thy ===== *)
theory Process
  imports Paging Cpu_IO Ring_Buffer
begin

unbundle bit_operations_syntax

text \<open>
  Processes, \<open>kernel/src/process.c\<close>, first part: the process table with its lists, the memory of a
  process, creation, release and fork. A \<open>process_t *\<close> always points into \<open>process_table\<close> or is
  null: it is modelled as the index of the slot, \<open>None\<close> for null. Walks along the lists are
  partial functions; their missing result is the outcome \<open>Diverges\<close>.
\<close>

section \<open>Data (\<open>process.h\<close>)\<close>

abbreviation (input) PROCESS_MAX_COUNT :: nat where "PROCESS_MAX_COUNT \<equiv> 16"
abbreviation (input) PROCESS_SIGNAL_QUEUE_CAPACITY :: u32 where "PROCESS_SIGNAL_QUEUE_CAPACITY \<equiv> 16"
abbreviation (input) PROCESS_SOCKET_CAPACITY :: u32 where "PROCESS_SOCKET_CAPACITY \<equiv> 8"
abbreviation (input) PROCESS_PAGE_REGION_BASE :: u32 where "PROCESS_PAGE_REGION_BASE \<equiv> 0x02000000"
abbreviation (input) PROCESS_VIRTUAL_STRIDE :: u32 where "PROCESS_VIRTUAL_STRIDE \<equiv> 0x00020000"
abbreviation (input) PROCESS_RIGHT_ALL :: u32 where "PROCESS_RIGHT_ALL \<equiv> 0xFFFFFFFF"
abbreviation (input) PROCESS_SIGNAL_KILL :: i32 where "PROCESS_SIGNAL_KILL \<equiv> 9"
abbreviation (input) PROCESS_SIGNAL_TERM :: i32 where "PROCESS_SIGNAL_TERM \<equiv> 15"
abbreviation (input) PROCESS_SIGNAL_SOCKET :: i32 where "PROCESS_SIGNAL_SOCKET \<equiv> 17"

datatype process_status = READY | RUN | WAITING | ZOMBIE | THREAD

type_synonym procptr = "nat option"

record process_pending_signal =
  psignal :: i32
  pvalue :: u32

record process_socket =
  socket_values :: "u32 list"
  socket_head :: u32
  socket_tail :: u32

record process_context =
  ctx_ebx :: u32
  ctx_esi :: u32
  ctx_edi :: u32
  ctx_ebp :: u32
  ctx_esp :: u32
  ctx_eip :: u32

record process_memory =
  process_page_directory :: u32
  page_size :: u32
  virtual_base :: u32
  virtual_page :: u32
  process_page :: u32
  data_start :: u32
  data_end :: u32
  bss_start :: u32
  bss_end :: u32
  pheap_start :: u32
  heap_break :: u32
  pheap_end :: u32
  stack_base :: u32
  stack_top :: u32
  physical_page :: u32
  data_page :: u32
  bss_page :: u32
  heap_page :: u32
  stack_page :: u32
  process_page_table :: u32
  code_size :: u32

text \<open>
  A signal handler is a function pointer: null, the default handler of \<open>process.c\<close>, or the address
  of a function given to \<open>process_signal\<close>.
\<close>

datatype signal_handler_ptr = NoHandler | DefaultHandler | UserHandler u32

record process =
  pid :: u32
  status :: process_status
  owner :: u32
  rights :: u32
  parent :: procptr
  children :: procptr
  next_sibling :: procptr
  pnext :: procptr
  pmemory :: process_memory
  pending_process_signals :: "process_pending_signal list"
  psignal_head :: u32
  psignal_tail :: u32
  socket :: process_socket
  entry :: u32
  signal_handler :: signal_handler_ptr
  pcontext :: process_context
  cpu_ticks :: u32
  run_count :: u32
  switch_count :: u32
  last_signal :: u32
  last_signal_value :: u32
  last_socket_value :: u32
  runtime_state :: u32
  runtime_value :: u32
  runtime_arg0 :: u32
  runtime_arg1 :: u32
  exit_code :: i32
  wait_target_pid :: u32
  used :: bool

text \<open>All bytes zero, as \<open>process_memset(process, 0, sizeof(process_t))\<close> leaves them.\<close>

definition zero_memory :: process_memory where
  "zero_memory = \<lparr>process_page_directory = 0, page_size = 0, virtual_base = 0, virtual_page = 0,
     process_page = 0, data_start = 0, data_end = 0, bss_start = 0, bss_end = 0, pheap_start = 0,
     heap_break = 0, pheap_end = 0, stack_base = 0, stack_top = 0, physical_page = 0, data_page = 0,
     bss_page = 0, heap_page = 0, stack_page = 0, process_page_table = 0, code_size = 0\<rparr>"

definition zero_context :: process_context where
  "zero_context = \<lparr>ctx_ebx = 0, ctx_esi = 0, ctx_edi = 0, ctx_ebp = 0, ctx_esp = 0, ctx_eip = 0\<rparr>"

definition zero_process :: process where
  "zero_process = \<lparr>pid = 0, status = READY, owner = 0, rights = 0, parent = None, children = None,
     next_sibling = None, pnext = None, pmemory = zero_memory,
     pending_process_signals = replicate 16 \<lparr>psignal = 0, pvalue = 0\<rparr>, psignal_head = 0, psignal_tail = 0,
     socket = \<lparr>socket_values = replicate 8 0, socket_head = 0, socket_tail = 0\<rparr>, entry = 0,
     signal_handler = NoHandler, pcontext = zero_context, cpu_ticks = 0, run_count = 0, switch_count = 0,
     last_signal = 0, last_signal_value = 0, last_socket_value = 0, runtime_state = 0, runtime_value = 0,
     runtime_arg0 = 0, runtime_arg1 = 0, exit_code = 0, wait_target_pid = 0, used = False\<rparr>"

text \<open>
  The static variables of \<open>process.c\<close>, the CPU flags its critical sections use, and two addresses
  fixed when the kernel is linked: the array \<open>process_page_directories\<close> and \<open>process_bootstrap\<close>.
\<close>

record procsys = paging +
  process_table :: "process list"
  scheduler_context :: process_context
  process_head :: procptr
  current_process :: procptr
  kernel_process :: procptr
  scheduler_cursor :: procptr
  next_pid :: u32
  pending_scheduler_ticks :: u32
  total_scheduler_ticks :: u32
  total_context_switches :: u32
  scheduler_enabled :: bool
  pcpu :: cpu
  process_page_directories :: u32
  process_bootstrap :: u32

abbreviation proc :: "'a procsys_scheme \<Rightarrow> nat \<Rightarrow> process" where
  "proc s i \<equiv> process_table s ! i"

definition upd :: "nat \<Rightarrow> (process \<Rightarrow> process) \<Rightarrow> 'a procsys_scheme \<Rightarrow> 'a procsys_scheme" where
  "upd i f s = s\<lparr>process_table := (process_table s)[i := f (process_table s ! i)]\<rparr>"

definition upd_memory ::
  "nat \<Rightarrow> (process_memory \<Rightarrow> process_memory) \<Rightarrow> 'a procsys_scheme \<Rightarrow> 'a procsys_scheme" where
  "upd_memory i f = upd i (\<lambda>p. p\<lparr>pmemory := f (pmemory p)\<rparr>)"

section \<open>Slots and lists\<close>

definition process_virtual_base_for_slot :: "nat \<Rightarrow> u32" where
  "process_virtual_base_for_slot slot = PROCESS_PAGE_REGION_BASE + word_of_nat slot * PROCESS_VIRTUAL_STRIDE"

fun allocate_slot_from :: "nat list \<Rightarrow> 'a procsys_scheme \<Rightarrow> procptr \<times> 'a procsys_scheme" where
  "allocate_slot_from [] s = (None, s)"
| "allocate_slot_from (slot # slots) s =
     (if \<not> used (proc s slot) then
        let s = upd slot (\<lambda>_. zero_process) s;
            s = upd slot (\<lambda>p. p\<lparr>used := True\<rparr>) s
        in (Some slot, s)
      else allocate_slot_from slots s)"

definition process_allocate_slot :: "'a procsys_scheme \<Rightarrow> procptr \<times> 'a procsys_scheme" where
  "process_allocate_slot s = allocate_slot_from [1..<PROCESS_MAX_COUNT] s"

partial_function (option) list_tail_from :: "process list \<Rightarrow> nat \<Rightarrow> nat option" where
  "list_tail_from t tail =
     (case pnext (t ! tail) of None \<Rightarrow> Some tail | Some n \<Rightarrow> list_tail_from t n)"

definition process_link_global :: "nat \<Rightarrow> 'a procsys_scheme \<Rightarrow> 'a procsys_scheme outcome" where
  "process_link_global process s =
     (case process_head s of
        None \<Rightarrow> Inr (s\<lparr>process_head := Some process\<rparr>)
      | Some h \<Rightarrow>
          obind (of_walk (list_tail_from (process_table s) h)) (\<lambda>tail.
          Inr (upd tail (\<lambda>p. p\<lparr>pnext := Some process\<rparr>) s)))"

partial_function (option) unlink_global_from ::
  "procptr \<Rightarrow> procptr \<Rightarrow> nat \<Rightarrow> 'a procsys_scheme \<Rightarrow> 'a procsys_scheme option" where
  "unlink_global_from cursor previous process s =
     (case cursor of
        None \<Rightarrow> Some s
      | Some c \<Rightarrow>
          if c = process then
            let s = (case previous of
                       None \<Rightarrow> s\<lparr>process_head := pnext (proc s c)\<rparr>
                     | Some pr \<Rightarrow> upd pr (\<lambda>p. p\<lparr>pnext := pnext (proc s c)\<rparr>) s)
            in Some (upd process (\<lambda>p. p\<lparr>pnext := None\<rparr>) s)
          else unlink_global_from (pnext (proc s c)) (Some c) process s)"

definition process_unlink_global :: "nat \<Rightarrow> 'a procsys_scheme \<Rightarrow> 'a procsys_scheme outcome" where
  "process_unlink_global process s = of_walk (unlink_global_from (process_head s) None process s)"

definition process_link_child :: "procptr \<Rightarrow> nat \<Rightarrow> 'a procsys_scheme \<Rightarrow> 'a procsys_scheme" where
  "process_link_child par child s =
     (let s = upd child (\<lambda>p. p\<lparr>parent := par\<rparr>) s;
          s = upd child (\<lambda>p. p\<lparr>next_sibling := None\<rparr>) s
      in case par of
           None \<Rightarrow> s
         | Some q \<Rightarrow>
             if children (proc s q) = None then upd q (\<lambda>p. p\<lparr>children := Some child\<rparr>) s
             else
               let s = upd child (\<lambda>p. p\<lparr>next_sibling := children (proc s q)\<rparr>) s
               in upd q (\<lambda>p. p\<lparr>children := Some child\<rparr>) s)"

partial_function (option) unlink_child_from ::
  "procptr \<Rightarrow> procptr \<Rightarrow> nat \<Rightarrow> nat \<Rightarrow> 'a procsys_scheme \<Rightarrow> 'a procsys_scheme option" where
  "unlink_child_from cursor previous par process s =
     (case cursor of
        None \<Rightarrow> Some s
      | Some c \<Rightarrow>
          if c = process then
            let s = (case previous of
                       None \<Rightarrow> upd par (\<lambda>p. p\<lparr>children := next_sibling (proc s c)\<rparr>) s
                     | Some pr \<Rightarrow> upd pr (\<lambda>p. p\<lparr>next_sibling := next_sibling (proc s c)\<rparr>) s);
                s = upd process (\<lambda>p. p\<lparr>next_sibling := None\<rparr>) s
            in Some (upd process (\<lambda>p. p\<lparr>parent := None\<rparr>) s)
          else unlink_child_from (next_sibling (proc s c)) (Some c) par process s)"

definition process_unlink_child :: "nat \<Rightarrow> 'a procsys_scheme \<Rightarrow> 'a procsys_scheme outcome" where
  "process_unlink_child process s =
     (case parent (proc s process) of
        None \<Rightarrow> Inr s
      | Some par \<Rightarrow> of_walk (unlink_child_from (children (proc s par)) None par process s))"

section \<open>Memory of a process\<close>

definition process_reset_memory :: "nat \<Rightarrow> 'a procsys_scheme \<Rightarrow> 'a procsys_scheme" where
  "process_reset_memory process s =
     (let s = upd_memory process (\<lambda>_. zero_memory) s
      in upd_memory process (\<lambda>m. m\<lparr>page_size := PAGE_SIZE\<rparr>) s)"

text \<open>One of the four page blocks of \<open>process_release_memory\<close>.\<close>

definition release_page ::
  "u32 \<Rightarrow> u32 \<Rightarrow> u32 \<Rightarrow> 'a procsys_scheme \<Rightarrow> 'a procsys_scheme outcome" where
  "release_page directory page start s =
     (if page \<noteq> 0 then
        obind (paging_unmap_page_in_directory directory start s) (\<lambda>s.
        Inr (s\<lparr>frames := pmm_free_frame page (frames s)\<rparr>))
      else Inr s)"

definition process_release_memory :: "nat \<Rightarrow> 'a procsys_scheme \<Rightarrow> 'a procsys_scheme outcome" where
  "process_release_memory process s =
     (let m = pmemory (proc s process); dir = process_page_directory m in
      obind (release_page dir (data_page m) (data_start m) s) (\<lambda>s.
      obind (release_page dir (bss_page m) (bss_start m) s) (\<lambda>s.
      obind (release_page dir (heap_page m) (pheap_start m) s) (\<lambda>s.
      obind (release_page dir (stack_page m) (stack_base m) s) (\<lambda>s.
      obind (if dir \<noteq> NULL \<and> process_page_table m \<noteq> 0 then
               obind (vstore32 (entry_at dir (PAGE_DIR_INDEX (virtual_base m))) 0 s) (\<lambda>s.
               Inr (s\<lparr>frames := pmm_free_frame (process_page_table m) (frames s)\<rparr>))
             else Inr s) (\<lambda>s.
      Inr (process_reset_memory process s)))))))"

definition process_release :: "procptr \<Rightarrow> 'a procsys_scheme \<Rightarrow> 'a procsys_scheme outcome" where
  "process_release ptr s =
     (case ptr of
        None \<Rightarrow> Inr s
      | Some process \<Rightarrow>
          if ptr = kernel_process s then Inr s
          else
            let s = (if scheduler_cursor s = ptr then s\<lparr>scheduler_cursor := process_head s\<rparr> else s)
            in obind (process_release_memory process s) (\<lambda>s.
               obind (process_unlink_child process s) (\<lambda>s.
               obind (process_unlink_global process s) (\<lambda>s.
               Inr (upd process (\<lambda>_. zero_process) s)))))"

definition alloc_process_page ::
  "nat \<Rightarrow> u32 \<Rightarrow> 'a procsys_scheme \<Rightarrow> (u32 option \<times> 'a procsys_scheme) outcome" where
  "alloc_process_page process va s =
     (let (page, fr) = pmm_alloc_frame (frames s);
          s = s\<lparr>frames := fr\<rparr>
      in if page = 0 then Inr (None, s)
         else
           obind (paging_map_page_in_directory (process_page_directory (pmemory (proc s process))) va page
                    PAGE_USER_RW s) (\<lambda>s.
           obind (memset_paging page 0 4096 s) (\<lambda>s.
           Inr (Some page, s))))"

text \<open>
  \<open>process_memory_map\<close> allocates its four pages one after the other; a failure releases what was
  allocated and returns -1 (\<open>False\<close>).
\<close>

definition process_memory_layout :: "nat \<Rightarrow> 'a procsys_scheme \<Rightarrow> 'a procsys_scheme" where
  "process_memory_layout slot s =
     upd_memory slot (\<lambda>m.
       let base = (if virtual_base m = 0 then process_virtual_base_for_slot slot else virtual_base m)
       in m\<lparr>virtual_base := base, page_size := PAGE_SIZE, virtual_page := base, process_page := base,
            data_start := base, data_end := base + PAGE_SIZE,
            bss_start := base + PAGE_SIZE, bss_end := base + PAGE_SIZE + PAGE_SIZE,
            pheap_start := base + PAGE_SIZE * 2, heap_break := base + PAGE_SIZE * 2,
            pheap_end := base + PAGE_SIZE * 2 + PAGE_SIZE,
            stack_base := base + PAGE_SIZE * 3, stack_top := base + PAGE_SIZE * 3 + PAGE_SIZE,
            process_page_directory := process_page_directories s + word_of_nat slot * 4096\<rparr>) s"

definition map_region ::
  "nat \<Rightarrow> (process_memory \<Rightarrow> u32) \<Rightarrow> (u32 \<Rightarrow> process_memory \<Rightarrow> process_memory) \<Rightarrow> 'a procsys_scheme \<Rightarrow>
     (bool \<times> 'a procsys_scheme) outcome" where
  "map_region slot start set_page s =
     obind (alloc_process_page slot (start (pmemory (proc s slot))) s) (\<lambda>(r, s).
       case r of
         None \<Rightarrow> obind (process_release_memory slot s) (\<lambda>s. Inr (False, s))
       | Some page \<Rightarrow> Inr (True, upd_memory slot (set_page page) s))"

definition process_memory_map :: "nat \<Rightarrow> 'a procsys_scheme \<Rightarrow> (bool \<times> 'a procsys_scheme) outcome" where
  "process_memory_map slot s =
     (let kernel_dir = paging_get_kernel_directory s;
          s = process_memory_layout slot s
      in obind (paging_copy_directory (process_page_directory (pmemory (proc s slot))) kernel_dir s) (\<lambda>s.
         obind (map_region slot data_start (\<lambda>p m. m\<lparr>data_page := p\<rparr>) s) (\<lambda>(ok, s).
         if \<not> ok then Inr (False, s) else
         obind (map_region slot bss_start (\<lambda>p m. m\<lparr>bss_page := p\<rparr>) s) (\<lambda>(ok, s).
         if \<not> ok then Inr (False, s) else
         obind (map_region slot pheap_start (\<lambda>p m. m\<lparr>heap_page := p\<rparr>) s) (\<lambda>(ok, s).
         if \<not> ok then Inr (False, s) else
         obind (map_region slot stack_base (\<lambda>p m. m\<lparr>stack_page := p\<rparr>) s) (\<lambda>(ok, s).
         if \<not> ok then Inr (False, s) else
         let s = upd_memory slot (\<lambda>m. m\<lparr>physical_page := data_page m\<rparr>) s;
             m = pmemory (proc s slot)
         in obind (vload32 s (entry_at (process_page_directory m) (PAGE_DIR_INDEX (virtual_base m)))) (\<lambda>e.
            Inr (True, upd_memory slot (\<lambda>m. m\<lparr>process_page_table := PAGE_FRAME e\<rparr>) s))))))))"

definition process_memory_alloc :: "procptr \<Rightarrow> u32 \<Rightarrow> 'a procsys_scheme \<Rightarrow> i32 \<times> 'a procsys_scheme" where
  "process_memory_alloc ptr size' s =
     (case ptr of
        None \<Rightarrow> (-1, s)
      | Some p \<Rightarrow>
          if size' = 0 then (-1, s)
          else if pheap_end (pmemory (proc s p)) < heap_break (pmemory (proc s p)) + size' then (-1, s)
          else (0, upd_memory p (\<lambda>m. m\<lparr>heap_break := heap_break m + size'\<rparr>) s))"

definition process_mmap :: "procptr \<Rightarrow> u32 \<Rightarrow> 'a procsys_scheme \<Rightarrow> u32 \<times> 'a procsys_scheme" where
  "process_mmap ptr size' s =
     (case ptr of
        None \<Rightarrow> (NULL, s)
      | Some p \<Rightarrow>
          if size' = 0 then (NULL, s)
          else
            let old_break = heap_break (pmemory (proc s p));
                (r, s) = process_memory_alloc ptr size' s
            in if r \<noteq> 0 then (NULL, s) else (old_break, s))"

section \<open>Creation\<close>

definition process_initialize_context :: "nat \<Rightarrow> 'a procsys_scheme \<Rightarrow> 'a procsys_scheme" where
  "process_initialize_context process s =
     (let stack_pointer = (stack_top (pmemory (proc s process)) - 16) AND NOT 0x0F
      in upd process (\<lambda>p. p\<lparr>pcontext := zero_context\<lparr>ctx_esp := stack_pointer, ctx_ebp := stack_pointer,
           ctx_eip := process_bootstrap s\<rparr>\<rparr>) s)"

definition socket_create :: "procptr \<Rightarrow> 'a procsys_scheme \<Rightarrow> i32 \<times> 'a procsys_scheme" where
  "socket_create ptr s =
     (case ptr of
        None \<Rightarrow> (-1, s)
      | Some i \<Rightarrow> (0, upd i (\<lambda>p. p\<lparr>socket := (socket p)\<lparr>socket_head := 0, socket_tail := 0\<rparr>\<rparr>) s))"

definition process_create_internal ::
  "procptr \<Rightarrow> u32 \<Rightarrow> u32 \<Rightarrow> u32 \<Rightarrow> u32 \<Rightarrow> 'a procsys_scheme \<Rightarrow> (procptr \<times> 'a procsys_scheme) outcome" where
  "process_create_internal par own requested_base function size' s =
     (let (slot, s) = process_allocate_slot s in
      case slot of
        None \<Rightarrow> Inr (None, s)
      | Some i \<Rightarrow>
          let s = upd i (\<lambda>p. p\<lparr>pid := next_pid s\<rparr>) s;
              s = s\<lparr>next_pid := next_pid s + 1\<rparr>;
              s = upd i (\<lambda>p. p\<lparr>status := READY, owner := own, rights := PROCESS_RIGHT_ALL, entry := function,
                    signal_handler := DefaultHandler\<rparr>) s;
              s = upd_memory i (\<lambda>m. m\<lparr>virtual_base := requested_base, code_size := size'\<rparr>) s;
              (r, s) = socket_create (Some i) s
          in obind (if r \<noteq> 0 then Inr (False, s) else process_memory_map i s) (\<lambda>(ok, s).
             if \<not> ok then obind (process_release (Some i) s) (\<lambda>s. Inr (None, s))
             else
               let s = process_initialize_context i s;
                   s = process_link_child par i s
               in obind (process_link_global i s) (\<lambda>s.
                  obind (if data_page (pmemory (proc s i)) \<noteq> 0
                         then vstore32 (data_page (pmemory (proc s i))) 0 s else Inr s) (\<lambda>s.
                  obind (if bss_page (pmemory (proc s i)) \<noteq> 0
                         then vstore32 (bss_page (pmemory (proc s i))) 0 s else Inr s) (\<lambda>s.
                  Inr (Some i, s))))))"

text \<open>\<open>current_process != NULL ? current_process : kernel_process\<close>.\<close>

definition creator :: "'a procsys_scheme \<Rightarrow> procptr" where
  "creator s = (case current_process s of None \<Rightarrow> kernel_process s | Some c \<Rightarrow> Some c)"

definition process_create_owned ::
  "u32 \<Rightarrow> u32 \<Rightarrow> u32 \<Rightarrow> 'a procsys_scheme \<Rightarrow> (procptr \<times> 'a procsys_scheme) outcome" where
  "process_create_owned own function size' s = process_create_internal (creator s) own 0 function size' s"

definition exec_fn ::
  "u32 \<Rightarrow> u32 \<Rightarrow> u32 \<Rightarrow> 'a procsys_scheme \<Rightarrow> (procptr \<times> 'a procsys_scheme) outcome" where
  "exec_fn addr function size' s =
     (let own = (case current_process s of None \<Rightarrow> 0 | Some c \<Rightarrow> owner (proc s c))
      in process_create_internal (creator s) own addr function size' s)"

function process_memcpy ::
  "u32 \<Rightarrow> u32 \<Rightarrow> u32 \<Rightarrow> 'a machine_scheme \<Rightarrow> 'a machine_scheme outcome" where
  "process_memcpy dest src n s =
     (if n = 0 then Inr s
      else
        obind (case translate s src of None \<Rightarrow> Inl (PageFault src) | Some p \<Rightarrow> Inr (mem s p)) (\<lambda>b.
        obind (vstore8 dest b s) (\<lambda>s. process_memcpy (dest + 1) (src + 1) (n - 1) s)))"
  by pat_completeness auto
termination
  by (relation "measure (\<lambda>(d, e, n, s). unat n)") (auto simp: unat_dec unat_gt_0)

declare process_memcpy.simps [simp del]

text \<open>What \<open>fork_process\<close> copies from the source to the child it has created.\<close>

definition fork_copy :: "nat \<Rightarrow> nat \<Rightarrow> 'a procsys_scheme \<Rightarrow> 'a procsys_scheme outcome" where
  "fork_copy src c s =
     (let q = proc s src;
          s = upd c (\<lambda>p. p\<lparr>rights := rights q, signal_handler := signal_handler q,
                runtime_state := runtime_state q, runtime_value := runtime_value q,
                runtime_arg0 := runtime_arg0 q, runtime_arg1 := runtime_arg1 q,
                last_signal := last_signal q, last_signal_value := last_signal_value q\<rparr>) s;
          m = pmemory (proc s src);
          k = pmemory (proc s c)
      in obind (process_memcpy (data_page k) (data_page m) PAGE_SIZE s) (\<lambda>s.
         obind (process_memcpy (bss_page k) (bss_page m) PAGE_SIZE s) (\<lambda>s.
         obind (process_memcpy (heap_page k) (heap_page m) PAGE_SIZE s) (\<lambda>s.
         let s = upd_memory c (\<lambda>k. k\<lparr>heap_break := pheap_start k +
                   (heap_break (pmemory (proc s src)) - pheap_start (pmemory (proc s src)))\<rparr>) s
         in Inr (upd c (\<lambda>p. p\<lparr>status := READY\<rparr>) s)))))"

definition fork_process :: "procptr \<Rightarrow> 'a procsys_scheme \<Rightarrow> (procptr \<times> 'a procsys_scheme) outcome" where
  "fork_process source s =
     (case source of
        None \<Rightarrow> Inr (None, s)
      | Some src \<Rightarrow>
          if source = kernel_process s \<or> entry (proc s src) = NULL then Inr (None, s)
          else
            obind (process_create_internal source (owner (proc s src)) 0 (entry (proc s src))
                     (code_size (pmemory (proc s src))) s) (\<lambda>(child, s).
            case child of
              None \<Rightarrow> Inr (None, s)
            | Some c \<Rightarrow> obind (fork_copy src c s) (\<lambda>s. Inr (Some c, s))))"

section \<open>Initialisation and queries\<close>

text \<open>\<open>next_pid\<close> keeps its value: it is 1 when the kernel starts.\<close>

definition clear_directories :: "'a procsys_scheme \<Rightarrow> 'a procsys_scheme outcome" where
  "clear_directories s = memset_paging (process_page_directories s) 0 (16 * 4096) s"

definition process_init :: "'a procsys_scheme \<Rightarrow> 'a procsys_scheme outcome" where
  "process_init s =
     (let s = s\<lparr>process_table := replicate PROCESS_MAX_COUNT zero_process\<rparr>
      in obind (clear_directories s) (\<lambda>s.
         let s = fold process_reset_memory [0..<PROCESS_MAX_COUNT] s;
             s = s\<lparr>kernel_process := Some 0\<rparr>;
             s = upd 0 (\<lambda>p. p\<lparr>used := True, pid := next_pid s\<rparr>) s;
             s = s\<lparr>next_pid := next_pid s + 1\<rparr>;
             s = upd 0 (\<lambda>p. p\<lparr>status := THREAD, owner := 0, rights := PROCESS_RIGHT_ALL\<rparr>) s;
             s = upd_memory 0 (\<lambda>m. m\<lparr>process_page_directory := paging_get_directory s\<rparr>) s
         in Inr (s\<lparr>process_head := kernel_process s, current_process := kernel_process s,
              scheduler_cursor := kernel_process s, scheduler_enabled := True,
              pending_scheduler_ticks := 0, total_scheduler_ticks := 0, total_context_switches := 0,
              scheduler_context := zero_context\<rparr>)))"

definition process_root :: "'a procsys_scheme \<Rightarrow> procptr" where
  "process_root s = kernel_process s"

definition process_current :: "'a procsys_scheme \<Rightarrow> procptr" where
  "process_current s = current_process s"

definition process_first :: "'a procsys_scheme \<Rightarrow> procptr" where
  "process_first s = process_head s"

partial_function (option) get_by_pid_from :: "process list \<Rightarrow> u32 \<Rightarrow> procptr \<Rightarrow> procptr option" where
  "get_by_pid_from t pd cursor =
     (case cursor of
        None \<Rightarrow> Some None
      | Some c \<Rightarrow>
          if used (t ! c) \<and> pid (t ! c) = pd then Some (Some c)
          else get_by_pid_from t pd (pnext (t ! c)))"

definition process_get_by_pid :: "u32 \<Rightarrow> 'a procsys_scheme \<Rightarrow> procptr outcome" where
  "process_get_by_pid pd s = of_walk (get_by_pid_from (process_table s) pd (process_head s))"

partial_function (option) count_from :: "process list \<Rightarrow> procptr \<Rightarrow> u32 \<Rightarrow> u32 option" where
  "count_from t cursor count =
     (case cursor of
        None \<Rightarrow> Some count
      | Some c \<Rightarrow> count_from t (pnext (t ! c)) (if used (t ! c) then count + 1 else count))"

definition process_count :: "'a procsys_scheme \<Rightarrow> u32 outcome" where
  "process_count s = of_walk (count_from (process_table s) (process_head s) 0)"

fun process_status_name :: "process_status \<Rightarrow> string" where
  "process_status_name READY = ''READY''"
| "process_status_name RUN = ''RUN''"
| "process_status_name WAITING = ''WAIT''"
| "process_status_name ZOMBIE = ''ZOMBIE''"
| "process_status_name THREAD = ''THREAD''"

definition process_getuid :: "procptr \<Rightarrow> 'a procsys_scheme \<Rightarrow> u32" where
  "process_getuid ptr s = (case ptr of None \<Rightarrow> 0 | Some p \<Rightarrow> owner (proc s p))"

section \<open>Ending and waiting\<close>

definition process_exit :: "procptr \<Rightarrow> i32 \<Rightarrow> 'a procsys_scheme \<Rightarrow> 'a procsys_scheme" where
  "process_exit ptr code s =
     (case ptr of
        None \<Rightarrow> s
      | Some i \<Rightarrow>
          if ptr = kernel_process s then s
          else if status (proc s i) = ZOMBIE then s
          else
            let s = upd i (\<lambda>p. p\<lparr>exit_code := code, status := ZOMBIE\<rparr>) s
            in case parent (proc s i) of
                 None \<Rightarrow> s
               | Some q \<Rightarrow>
                   if status (proc s q) = WAITING \<and>
                      (wait_target_pid (proc s q) = 0 \<or> wait_target_pid (proc s q) = pid (proc s i))
                   then upd q (\<lambda>p. p\<lparr>status := READY\<rparr>) s else s)"

text \<open>The result of \<open>process_wait\<close>: -1, 0 or 1, and the exit code stored on 1.\<close>

definition process_wait ::
  "procptr \<Rightarrow> u32 \<Rightarrow> 'a procsys_scheme \<Rightarrow> (i32 \<times> i32 option \<times> 'a procsys_scheme) outcome" where
  "process_wait par pd s =
     obind (process_get_by_pid pd s) (\<lambda>child.
     case child of
       None \<Rightarrow> Inr (-1, None, s)
     | Some c \<Rightarrow>
         if par \<noteq> kernel_process s \<and> parent (proc s c) \<noteq> par then Inr (-1, None, s)
         else if status (proc s c) \<noteq> ZOMBIE then
           Inr (0, None,
             case par of
               None \<Rightarrow> s
             | Some q \<Rightarrow>
                 let s = upd q (\<lambda>p. p\<lparr>wait_target_pid := pd\<rparr>) s
                 in if par \<noteq> kernel_process s then upd q (\<lambda>p. p\<lparr>status := WAITING\<rparr>) s else s)
         else
           let code = exit_code (proc s c);
               s = (case par of
                      None \<Rightarrow> s
                    | Some q \<Rightarrow> if status (proc s q) = WAITING then upd q (\<lambda>p. p\<lparr>status := THREAD\<rparr>) s else s)
           in obind (process_release (Some c) s) (\<lambda>s. Inr (1, Some code, s)))"

definition wait_process ::
  "procptr \<Rightarrow> u32 \<Rightarrow> 'a procsys_scheme \<Rightarrow> (i32 \<times> i32 option \<times> 'a procsys_scheme) outcome" where
  "wait_process par pd s = process_wait par pd s"

end
