(* ===== verification/Process_Signals.thy ===== *)
theory Process_Signals
  imports Process
begin

unbundle bit_operations_syntax

text \<open>
  Processes, second part: the ring of pending signals of a process with its handlers and
  permissions, and the ring behind its socket (\<open>kernel/src/process.c\<close>).
\<close>

section \<open>Operations\<close>

definition process_can_signal :: "procptr \<Rightarrow> procptr \<Rightarrow> 'a procsys_scheme \<Rightarrow> bool" where
  "process_can_signal sender target s =
     (case target of
        None \<Rightarrow> False
      | Some t \<Rightarrow>
          (case sender of
             None \<Rightarrow> True
           | Some f \<Rightarrow> if owner (proc s f) = 0 \<or> sender = target then True
                       else owner (proc s f) = owner (proc s t)))"

definition process_default_signal_handler ::
  "nat \<Rightarrow> i32 \<Rightarrow> u32 \<Rightarrow> 'a procsys_scheme \<Rightarrow> 'a procsys_scheme" where
  "process_default_signal_handler i sig value s =
     (let s = upd i (\<lambda>p. p\<lparr>last_signal := sig, last_signal_value := value\<rparr>) s
      in if sig = PROCESS_SIGNAL_TERM \<or> sig = PROCESS_SIGNAL_KILL
         then process_exit (Some i) (128 + sig) s else s)"

definition process_signal :: "procptr \<Rightarrow> signal_handler_ptr \<Rightarrow> 'a procsys_scheme \<Rightarrow> i32 \<times> 'a procsys_scheme" where
  "process_signal ptr handler s =
     (case ptr of
        None \<Rightarrow> (-1, s)
      | Some i \<Rightarrow> (0, upd i (\<lambda>p. p\<lparr>signal_handler :=
            (if handler \<noteq> NoHandler then handler else DefaultHandler)\<rparr>) s))"

definition queue_process_signal :: "procptr \<Rightarrow> i32 \<Rightarrow> u32 \<Rightarrow> 'a procsys_scheme \<Rightarrow> i32 \<times> 'a procsys_scheme" where
  "queue_process_signal ptr sig value s =
     (case ptr of
        None \<Rightarrow> (-1, s)
      | Some i \<Rightarrow>
          let (flags, c) = interrupts_save (pcpu s);
              s = s\<lparr>pcpu := c\<rparr>;
              next_tail = (psignal_tail (proc s i) + 1) mod PROCESS_SIGNAL_QUEUE_CAPACITY
          in if next_tail = psignal_head (proc s i) then
               (-1, s\<lparr>pcpu := interrupts_restore flags (pcpu s)\<rparr>)
             else
               let s = upd i (\<lambda>p. p\<lparr>pending_process_signals := (pending_process_signals p)
                         [unat (psignal_tail p) := \<lparr>psignal = sig, pvalue = value\<rparr>]\<rparr>) s;
                   s = upd i (\<lambda>p. p\<lparr>psignal_tail := next_tail\<rparr>) s
               in (0, s\<lparr>pcpu := interrupts_restore flags (pcpu s)\<rparr>))"

text \<open>
  One turn of the loop of \<open>deliver_process_signal\<close>: the oldest signal is taken off the ring,
  recorded and handed to the handler. What a handler registered by \<open>process_signal\<close> does is the
  parameter \<open>user\<close>.
\<close>

definition take_process_signal :: "nat \<Rightarrow> 'a procsys_scheme \<Rightarrow> process_pending_signal \<times> 'a procsys_scheme" where
  "take_process_signal i s =
     (let pending = pending_process_signals (proc s i) ! unat (psignal_head (proc s i))
      in (pending, upd i (\<lambda>p. p\<lparr>psignal_head := (psignal_head p + 1) mod PROCESS_SIGNAL_QUEUE_CAPACITY\<rparr>) s))"

definition handle_process_signal ::
  "(u32 \<Rightarrow> nat \<Rightarrow> i32 \<Rightarrow> u32 \<Rightarrow> 'a procsys_scheme \<Rightarrow> 'a procsys_scheme) \<Rightarrow> nat \<Rightarrow> process_pending_signal \<Rightarrow>
     'a procsys_scheme \<Rightarrow> 'a procsys_scheme" where
  "handle_process_signal user i pending s =
     (let s = upd i (\<lambda>p. p\<lparr>last_signal := psignal pending, last_signal_value := pvalue pending\<rparr>) s
      in case signal_handler (proc s i) of
           UserHandler f \<Rightarrow> user f i (psignal pending) (pvalue pending) s
         | DefaultHandler \<Rightarrow> process_default_signal_handler i (psignal pending) (pvalue pending) s
         | NoHandler \<Rightarrow> process_default_signal_handler i (psignal pending) (pvalue pending) s)"

partial_function (option) deliver_from ::
  "(u32 \<Rightarrow> nat \<Rightarrow> i32 \<Rightarrow> u32 \<Rightarrow> 'a procsys_scheme \<Rightarrow> 'a procsys_scheme) \<Rightarrow> nat \<Rightarrow> u32 \<Rightarrow>
     'a procsys_scheme \<Rightarrow> (u32 \<times> 'a procsys_scheme) option" where
  "deliver_from user i delivered s =
     (if psignal_head (proc s i) \<noteq> psignal_tail (proc s i) then
        let (pending, s) = take_process_signal i s;
            s = handle_process_signal user i pending s;
            delivered = delivered + 1
        in if status (proc s i) = ZOMBIE then Some (delivered, s) else deliver_from user i delivered s
      else Some (delivered, s))"

definition deliver_process_signal ::
  "(u32 \<Rightarrow> nat \<Rightarrow> i32 \<Rightarrow> u32 \<Rightarrow> 'a procsys_scheme \<Rightarrow> 'a procsys_scheme) \<Rightarrow> procptr \<Rightarrow>
     'a procsys_scheme \<Rightarrow> (u32 \<times> 'a procsys_scheme) option" where
  "deliver_process_signal user ptr s =
     (case ptr of None \<Rightarrow> Some (0, s) | Some i \<Rightarrow> deliver_from user i 0 s)"

definition send_signal_to_process ::
  "procptr \<Rightarrow> u32 \<Rightarrow> i32 \<Rightarrow> u32 \<Rightarrow> 'a procsys_scheme \<Rightarrow> (i32 \<times> 'a procsys_scheme) outcome" where
  "send_signal_to_process sender pd sig value s =
     obind (process_get_by_pid pd s) (\<lambda>target.
     Inr (if \<not> process_can_signal sender target s then (-1, s) else queue_process_signal target sig value s))"

definition kill_process :: "procptr \<Rightarrow> u32 \<Rightarrow> i32 \<Rightarrow> 'a procsys_scheme \<Rightarrow> (i32 \<times> 'a procsys_scheme) outcome" where
  "kill_process sender pd sig s = send_signal_to_process sender pd sig 0 s"

definition process_kill :: "procptr \<Rightarrow> u32 \<Rightarrow> i32 \<Rightarrow> 'a procsys_scheme \<Rightarrow> (i32 \<times> 'a procsys_scheme) outcome" where
  "process_kill sender pd sig s = kill_process sender pd sig s"

definition socket_send :: "procptr \<Rightarrow> u32 \<Rightarrow> u32 \<Rightarrow> 'a procsys_scheme \<Rightarrow> (i32 \<times> 'a procsys_scheme) outcome" where
  "socket_send sender pd value s =
     obind (process_get_by_pid pd s) (\<lambda>target.
     case target of
       None \<Rightarrow> Inr (-1, s)
     | Some t \<Rightarrow>
         let k = socket (proc s t);
             next_tail = (socket_tail k + 1) mod PROCESS_SOCKET_CAPACITY
         in if next_tail = socket_head k then Inr (-1, s)
            else
              let s = upd t (\<lambda>p. p\<lparr>socket := (socket p)\<lparr>socket_values :=
                        (socket_values (socket p))[unat (socket_tail (socket p)) := value]\<rparr>\<rparr>) s;
                  s = upd t (\<lambda>p. p\<lparr>socket := (socket p)\<lparr>socket_tail := next_tail\<rparr>\<rparr>) s
              in Inr (queue_process_signal target PROCESS_SIGNAL_SOCKET value s))"

text \<open>\<open>socket_recv\<close> returns -1, or 0 and the value.\<close>

definition socket_recv :: "procptr \<Rightarrow> 'a procsys_scheme \<Rightarrow> u32 option \<times> 'a procsys_scheme" where
  "socket_recv ptr s =
     (case ptr of
        None \<Rightarrow> (None, s)
      | Some i \<Rightarrow>
          if socket_head (socket (proc s i)) = socket_tail (socket (proc s i)) then (None, s)
          else
            let value = socket_values (socket (proc s i)) ! unat (socket_head (socket (proc s i)));
                s = upd i (\<lambda>p. p\<lparr>socket := (socket p)\<lparr>socket_head :=
                      (socket_head (socket p) + 1) mod PROCESS_SOCKET_CAPACITY\<rparr>\<rparr>) s;
                s = upd i (\<lambda>p. p\<lparr>last_socket_value := value\<rparr>) s
            in (Some value, s))"

definition process_signal_pending_count :: "procptr \<Rightarrow> 'a procsys_scheme \<Rightarrow> u32" where
  "process_signal_pending_count ptr s =
     (case ptr of
        None \<Rightarrow> 0
      | Some i \<Rightarrow>
          if psignal_head (proc s i) \<le> psignal_tail (proc s i)
          then psignal_tail (proc s i) - psignal_head (proc s i)
          else PROCESS_SIGNAL_QUEUE_CAPACITY - psignal_head (proc s i) + psignal_tail (proc s i))"

definition process_socket_pending_count :: "procptr \<Rightarrow> 'a procsys_scheme \<Rightarrow> u32" where
  "process_socket_pending_count ptr s =
     (case ptr of
        None \<Rightarrow> 0
      | Some i \<Rightarrow>
          let k = socket (proc s i) in
          if socket_head k \<le> socket_tail k then socket_tail k - socket_head k
          else PROCESS_SOCKET_CAPACITY - socket_head k + socket_tail k)"

end
