(* ===== verification/Scheduler.thy ===== *)
theory Scheduler
  imports Process_Signals
begin

unbundle bit_operations_syntax

text \<open>
  Processes, third part: the round-robin scheduler of \<open>kernel/src/process.c\<close>. Two things lie
  outside the C code and are parameters: \<open>run\<close>, what a process does between being resumed and
  switching back to the scheduler, and \<open>user\<close>, the signal handlers processes install. \<open>regs\<close> is
  what \<open>process_context_switch\<close> saves.
\<close>

section \<open>Operations\<close>

definition process_context_switch_from ::
  "nat \<Rightarrow> process_context \<Rightarrow> 'a procsys_scheme \<Rightarrow> 'a procsys_scheme" where
  "process_context_switch_from i regs s = upd i (\<lambda>p. p\<lparr>pcontext := regs\<rparr>) s"

text \<open>\<open>process_yield\<close> up to the switch to the scheduler's context.\<close>

definition process_yield :: "process_context \<Rightarrow> 'a procsys_scheme \<Rightarrow> 'a procsys_scheme" where
  "process_yield regs s =
     (case current_process s of
        None \<Rightarrow> s
      | Some i \<Rightarrow>
          if current_process s = kernel_process s then s
          else
            let s = (if status (proc s i) = RUN then upd i (\<lambda>p. p\<lparr>status := READY\<rparr>) s else s);
                s = s\<lparr>total_context_switches := total_context_switches s + 1\<rparr>;
                s = upd i (\<lambda>p. p\<lparr>switch_count := switch_count p + 1\<rparr>) s
            in process_context_switch_from i regs s)"

definition process_context_switch_count :: "'a procsys_scheme \<Rightarrow> u32" where
  "process_context_switch_count s = total_context_switches s"

definition scheduler_init :: "'a procsys_scheme \<Rightarrow> 'a procsys_scheme" where
  "scheduler_init s = s\<lparr>pending_scheduler_ticks := 0, total_scheduler_ticks := 0,
     scheduler_cursor := kernel_process s, scheduler_enabled := True\<rparr>"

definition scheduler_tick :: "'a procsys_scheme \<Rightarrow> 'a procsys_scheme" where
  "scheduler_tick s = s\<lparr>total_scheduler_ticks := total_scheduler_ticks s + 1,
     pending_scheduler_ticks := pending_scheduler_ticks s + 1\<rparr>"

definition runnable :: "process \<Rightarrow> bool" where
  "runnable p \<longleftrightarrow> used p \<and> entry p \<noteq> NULL \<and> (status p = READY \<or> status p = THREAD \<or> status p = RUN)"

text \<open>The \<open>do ... while (candidate != start)\<close> loop; \<open>head\<close> is \<open>process_head\<close>.\<close>

partial_function (option) pick_from :: "process list \<Rightarrow> nat \<Rightarrow> nat \<Rightarrow> nat \<Rightarrow> procptr option" where
  "pick_from t head start candidate =
     (let candidate = (case pnext (t ! candidate) of None \<Rightarrow> head | Some n \<Rightarrow> n) in
      if runnable (t ! candidate) then Some (Some candidate)
      else if candidate \<noteq> start then pick_from t head start candidate
      else Some None)"

definition pick_next_process :: "'a procsys_scheme \<Rightarrow> procptr outcome" where
  "pick_next_process s =
     (if \<not> scheduler_enabled s then Inr None
      else case process_head s of
        None \<Rightarrow> Inr None
      | Some h \<Rightarrow>
          let start = (case scheduler_cursor s of None \<Rightarrow> h | Some c \<Rightarrow> c)
          in of_walk (pick_from (process_table s) h start start))"

definition process_switch_to_kernel_space :: "'a procsys_scheme \<Rightarrow> 'a procsys_scheme" where
  "process_switch_to_kernel_space s =
     (case kernel_process s of
        None \<Rightarrow> s
      | Some k \<Rightarrow>
          if process_page_directory (pmemory (proc s k)) \<noteq> NULL
          then paging_switch_directory (process_page_directory (pmemory (proc s k))) s else s)"

text \<open>
  The part of \<open>schedule_next_process\<close> that lets the chosen process run, unless a signal has ended it
  or it waits.
\<close>

definition resume_process ::
  "(nat \<Rightarrow> 'a procsys_scheme \<Rightarrow> 'a procsys_scheme outcome) \<Rightarrow> process_context \<Rightarrow> nat \<Rightarrow>
     'a procsys_scheme \<Rightarrow> 'a procsys_scheme outcome" where
  "resume_process run regs i s =
     (if status (proc s i) \<noteq> ZOMBIE \<and> status (proc s i) \<noteq> WAITING then
        let s = upd i (\<lambda>p. p\<lparr>status := RUN, cpu_ticks := cpu_ticks p + 1, run_count := run_count p + 1\<rparr>) s;
            s = s\<lparr>total_context_switches := total_context_switches s + 1\<rparr>;
            s = upd i (\<lambda>p. p\<lparr>switch_count := switch_count p + 1\<rparr>) s;
            s = paging_switch_directory (process_page_directory (pmemory (proc s i))) s;
            s = s\<lparr>scheduler_context := regs\<rparr>
        in obind (run i s) (\<lambda>s.
           let s = process_switch_to_kernel_space s
           in Inr (if status (proc s i) = RUN then upd i (\<lambda>p. p\<lparr>status := READY\<rparr>) s else s))
      else Inr s)"

definition schedule_next_process ::
  "(u32 \<Rightarrow> nat \<Rightarrow> i32 \<Rightarrow> u32 \<Rightarrow> 'a procsys_scheme \<Rightarrow> 'a procsys_scheme) \<Rightarrow>
   (nat \<Rightarrow> 'a procsys_scheme \<Rightarrow> 'a procsys_scheme outcome) \<Rightarrow> process_context \<Rightarrow>
     'a procsys_scheme \<Rightarrow> (procptr \<times> 'a procsys_scheme) outcome" where
  "schedule_next_process user run regs s =
     obind (pick_next_process s) (\<lambda>nxt.
     case nxt of
       None \<Rightarrow> Inr (None, s)
     | Some i \<Rightarrow>
         let s = s\<lparr>scheduler_cursor := Some i\<rparr>;
             s = s\<lparr>current_process := Some i\<rparr>
         in obind (of_walk (deliver_process_signal user (Some i) s)) (\<lambda>(_, s).
            obind (resume_process run regs i s) (\<lambda>s.
            Inr (Some i, s\<lparr>current_process := kernel_process s\<rparr>))))"

partial_function (option) deliver_all_from ::
  "(u32 \<Rightarrow> nat \<Rightarrow> i32 \<Rightarrow> u32 \<Rightarrow> 'a procsys_scheme \<Rightarrow> 'a procsys_scheme) \<Rightarrow> procptr \<Rightarrow>
     'a procsys_scheme \<Rightarrow> 'a procsys_scheme option" where
  "deliver_all_from user p s =
     (case p of
        None \<Rightarrow> Some s
      | Some i \<Rightarrow>
          (case (if used (proc s i) \<and> psignal_head (proc s i) \<noteq> psignal_tail (proc s i)
                 then deliver_process_signal user p s else Some (0, s)) of
             None \<Rightarrow> None
           | Some (_, s) \<Rightarrow> deliver_all_from user (pnext (proc s i)) s))"

definition process_deliver_all_pending_signals ::
  "(u32 \<Rightarrow> nat \<Rightarrow> i32 \<Rightarrow> u32 \<Rightarrow> 'a procsys_scheme \<Rightarrow> 'a procsys_scheme) \<Rightarrow>
     'a procsys_scheme \<Rightarrow> 'a procsys_scheme outcome" where
  "process_deliver_all_pending_signals user s = of_walk (deliver_all_from user (process_head s) s)"

function run_pending_from ::
  "(u32 \<Rightarrow> nat \<Rightarrow> i32 \<Rightarrow> u32 \<Rightarrow> 'a procsys_scheme \<Rightarrow> 'a procsys_scheme) \<Rightarrow>
   (nat \<Rightarrow> 'a procsys_scheme \<Rightarrow> 'a procsys_scheme outcome) \<Rightarrow> process_context \<Rightarrow> u32 \<Rightarrow> u32 \<Rightarrow>
     'a procsys_scheme \<Rightarrow> (u32 \<times> 'a procsys_scheme) outcome" where
  "run_pending_from user run regs max_ticks executed s =
     (if 0 < pending_scheduler_ticks s \<and> executed < max_ticks then
        let s = s\<lparr>pending_scheduler_ticks := pending_scheduler_ticks s - 1\<rparr>
        in obind (process_deliver_all_pending_signals user s) (\<lambda>s.
           obind (schedule_next_process user run regs s) (\<lambda>(_, s).
           run_pending_from user run regs max_ticks (executed + 1) s))
      else Inr (executed, s))"
  by pat_completeness auto
termination
  by (relation "measure (\<lambda>(user, run, regs, max_ticks, executed, s). unat max_ticks - unat executed)")
    (auto dest: counter_decreases)

declare run_pending_from.simps [simp del]

definition scheduler_run_pending ::
  "(u32 \<Rightarrow> nat \<Rightarrow> i32 \<Rightarrow> u32 \<Rightarrow> 'a procsys_scheme \<Rightarrow> 'a procsys_scheme) \<Rightarrow>
   (nat \<Rightarrow> 'a procsys_scheme \<Rightarrow> 'a procsys_scheme outcome) \<Rightarrow> process_context \<Rightarrow> u32 \<Rightarrow>
     'a procsys_scheme \<Rightarrow> (u32 \<times> 'a procsys_scheme) outcome" where
  "scheduler_run_pending user run regs max_ticks s = run_pending_from user run regs max_ticks 0 s"

function force_ticks_from ::
  "(u32 \<Rightarrow> nat \<Rightarrow> i32 \<Rightarrow> u32 \<Rightarrow> 'a procsys_scheme \<Rightarrow> 'a procsys_scheme) \<Rightarrow>
   (nat \<Rightarrow> 'a procsys_scheme \<Rightarrow> 'a procsys_scheme outcome) \<Rightarrow> process_context \<Rightarrow> u32 \<Rightarrow> u32 \<Rightarrow>
     'a procsys_scheme \<Rightarrow> 'a procsys_scheme outcome" where
  "force_ticks_from user run regs count index s =
     (if index < count then
        obind (scheduler_run_pending user run regs 1 (scheduler_tick s)) (\<lambda>(_, s).
        force_ticks_from user run regs count (index + 1) s)
      else Inr s)"
  by pat_completeness auto
termination
  by (relation "measure (\<lambda>(user, run, regs, count, index, s). unat count - unat index)")
    (auto dest: counter_decreases)

declare force_ticks_from.simps [simp del]

definition scheduler_force_ticks ::
  "(u32 \<Rightarrow> nat \<Rightarrow> i32 \<Rightarrow> u32 \<Rightarrow> 'a procsys_scheme \<Rightarrow> 'a procsys_scheme) \<Rightarrow>
   (nat \<Rightarrow> 'a procsys_scheme \<Rightarrow> 'a procsys_scheme outcome) \<Rightarrow> process_context \<Rightarrow> u32 \<Rightarrow>
     'a procsys_scheme \<Rightarrow> (u32 \<times> 'a procsys_scheme) outcome" where
  "scheduler_force_ticks user run regs count s =
     obind (force_ticks_from user run regs count 0 s) (\<lambda>s. Inr (count, s))"

definition scheduler_tick_count :: "'a procsys_scheme \<Rightarrow> u32" where
  "scheduler_tick_count s = total_scheduler_ticks s"

definition multitasking_enabled :: "'a procsys_scheme \<Rightarrow> bool" where
  "multitasking_enabled s = scheduler_enabled s"

section \<open>The demonstration processes\<close>

definition process_spawn_demo_counter ::
  "u32 \<Rightarrow> u32 \<Rightarrow> u32 \<Rightarrow> u32 \<Rightarrow> 'a procsys_scheme \<Rightarrow> (procptr \<times> 'a procsys_scheme) outcome" where
  "process_spawn_demo_counter demo_counter_process own seed limit s =
     obind (process_create_owned own demo_counter_process PAGE_SIZE s) (\<lambda>(p, s).
     case p of
       None \<Rightarrow> Inr (None, s)
     | Some i \<Rightarrow> Inr (Some i, upd i (\<lambda>q. q\<lparr>runtime_arg0 := seed, runtime_arg1 := limit\<rparr>) s))"

text \<open>Returns -1, or 0 with the process identifiers of sender and receiver.\<close>

definition process_spawn_demo_socket_pair ::
  "u32 \<Rightarrow> u32 \<Rightarrow> u32 \<Rightarrow> u32 \<Rightarrow> 'a procsys_scheme \<Rightarrow> ((u32 \<times> u32) option \<times> 'a procsys_scheme) outcome" where
  "process_spawn_demo_socket_pair demo_socket_receiver_process demo_socket_sender_process own value s =
     obind (process_create_owned own demo_socket_receiver_process PAGE_SIZE s) (\<lambda>(receiver, s).
     case receiver of
       None \<Rightarrow> Inr (None, s)
     | Some r \<Rightarrow>
         obind (process_create_owned own demo_socket_sender_process PAGE_SIZE s) (\<lambda>(sender, s).
         case sender of
           None \<Rightarrow> obind (process_release receiver s) (\<lambda>s. Inr (None, s))
         | Some f \<Rightarrow>
             let s = upd f (\<lambda>p. p\<lparr>runtime_arg0 := pid (proc s r), runtime_arg1 := value\<rparr>) s
             in Inr (Some (pid (proc s f), pid (proc s r)), s)))"

end
