(* ===== verification/Serial.thy ===== *)
theory Serial
  imports Cpu_IO
begin

unbundle bit_operations_syntax

text \<open>
  Port reads and the serial line, \<open>kernel/src/serial.c\<close>. What a device answers may depend on
  everything written to the ports and on how often they were read; it is the argument
  \<open>dev\<close> of every operation that reads. The busy waits on the line status have no result when
  the device never gets ready.
\<close>

section \<open>Reading ports (\<open>io.h\<close>)\<close>

record io = cpu +
  port_reads :: nat

type_synonym device = "(u16 \<times> u8) list \<Rightarrow> nat \<Rightarrow> u16 \<Rightarrow> u8"

definition inb :: "device \<Rightarrow> u16 \<Rightarrow> 'a io_scheme \<Rightarrow> u8 \<times> 'a io_scheme" where
  "inb dev port s = (dev (port_out s) (port_reads s) port, s\<lparr>port_reads := port_reads s + 1\<rparr>)"

text \<open>A C string: its bytes up to the terminating zero.\<close>

type_synonym cstring = "u8 list"

definition cstr :: "string \<Rightarrow> cstring" where
  "cstr text = map of_char text"

section \<open>The serial line\<close>

abbreviation (input) SERIAL_DATA_PORT :: u16 where "SERIAL_DATA_PORT \<equiv> 0x3F8"
abbreviation (input) SERIAL_INTERRUPT_ENABLE_PORT :: u16 where "SERIAL_INTERRUPT_ENABLE_PORT \<equiv> 0x3F9"
abbreviation (input) SERIAL_FIFO_CONTROL_PORT :: u16 where "SERIAL_FIFO_CONTROL_PORT \<equiv> 0x3FA"
abbreviation (input) SERIAL_LINE_CONTROL_PORT :: u16 where "SERIAL_LINE_CONTROL_PORT \<equiv> 0x3FB"
abbreviation (input) SERIAL_MODEM_CONTROL_PORT :: u16 where "SERIAL_MODEM_CONTROL_PORT \<equiv> 0x3FC"
abbreviation (input) SERIAL_LINE_STATUS_PORT :: u16 where "SERIAL_LINE_STATUS_PORT \<equiv> 0x3FD"

record serial = io +
  serial_enabled :: bool

definition serial_transmit_ready :: "device \<Rightarrow> 'a serial_scheme \<Rightarrow> bool \<times> 'a serial_scheme" where
  "serial_transmit_ready dev s =
     (let (v, s) = inb dev SERIAL_LINE_STATUS_PORT s in (v AND 0x20 \<noteq> 0, s))"

definition serial_init :: "'a serial_scheme \<Rightarrow> 'a serial_scheme" where
  "serial_init s =
     (let s = outb SERIAL_INTERRUPT_ENABLE_PORT 0x00 s;
          s = outb SERIAL_LINE_CONTROL_PORT 0x80 s;
          s = outb SERIAL_DATA_PORT 0x03 s;
          s = outb SERIAL_INTERRUPT_ENABLE_PORT 0x00 s;
          s = outb SERIAL_LINE_CONTROL_PORT 0x03 s;
          s = outb SERIAL_FIFO_CONTROL_PORT 0xC7 s;
          s = outb SERIAL_MODEM_CONTROL_PORT 0x0F s
      in s\<lparr>serial_enabled := True\<rparr>)"

definition serial_is_enabled :: "'a serial_scheme \<Rightarrow> bool" where
  "serial_is_enabled s = serial_enabled s"

definition serial_has_data :: "device \<Rightarrow> 'a serial_scheme \<Rightarrow> bool \<times> 'a serial_scheme" where
  "serial_has_data dev s =
     (if serial_enabled s then
        let (v, s) = inb dev SERIAL_LINE_STATUS_PORT s in (v AND 0x01 \<noteq> 0, s)
      else (False, s))"

partial_function (option) wait_data :: "device \<Rightarrow> 'a serial_scheme \<Rightarrow> 'a serial_scheme option" where
  "wait_data dev s =
     (let (ready, s) = serial_has_data dev s in if ready then Some s else wait_data dev s)"

definition serial_read_char :: "device \<Rightarrow> 'a serial_scheme \<Rightarrow> (u8 \<times> 'a serial_scheme) option" where
  "serial_read_char dev s = map_option (inb dev SERIAL_DATA_PORT) (wait_data dev s)"

partial_function (option) wait_transmit :: "device \<Rightarrow> 'a serial_scheme \<Rightarrow> 'a serial_scheme option" where
  "wait_transmit dev s =
     (let (ready, s) = serial_transmit_ready dev s in if ready then Some s else wait_transmit dev s)"

text \<open>\<open>while (!serial_transmit_ready()) {} outb(SERIAL_DATA_PORT, v);\<close>\<close>

definition serial_put :: "device \<Rightarrow> u8 \<Rightarrow> 'a serial_scheme \<Rightarrow> 'a serial_scheme option" where
  "serial_put dev v s = map_option (outb SERIAL_DATA_PORT v) (wait_transmit dev s)"

abbreviation (input) CHAR_NEWLINE :: u8 where "CHAR_NEWLINE \<equiv> 0x0A"
abbreviation (input) CHAR_RETURN :: u8 where "CHAR_RETURN \<equiv> 0x0D"
abbreviation (input) CHAR_BACKSPACE :: u8 where "CHAR_BACKSPACE \<equiv> 0x08"
abbreviation (input) CHAR_SPACE :: u8 where "CHAR_SPACE \<equiv> 0x20"

definition serial_write_char :: "device \<Rightarrow> u8 \<Rightarrow> 'a serial_scheme \<Rightarrow> 'a serial_scheme option" where
  "serial_write_char dev c s =
     (if \<not> serial_enabled s then Some s
      else if c = CHAR_NEWLINE then
        Option.bind (serial_put dev CHAR_RETURN s) (serial_put dev c)
      else if c = CHAR_BACKSPACE then
        Option.bind (serial_put dev CHAR_BACKSPACE s) (\<lambda>s.
        Option.bind (serial_put dev CHAR_SPACE s) (serial_put dev CHAR_BACKSPACE))
      else serial_put dev c s)"

fun serial_write_from :: "device \<Rightarrow> cstring \<Rightarrow> 'a serial_scheme \<Rightarrow> 'a serial_scheme option" where
  "serial_write_from dev [] s = Some s"
| "serial_write_from dev (c # str) s =
     (if c = 0 then Some s else Option.bind (serial_write_char dev c s) (serial_write_from dev str))"

text \<open>\<open>None\<close> is the null pointer.\<close>

definition serial_write :: "device \<Rightarrow> cstring option \<Rightarrow> 'a serial_scheme \<Rightarrow> 'a serial_scheme option" where
  "serial_write dev str s =
     (case str of None \<Rightarrow> Some s
      | Some str \<Rightarrow> if \<not> serial_enabled s then Some s else serial_write_from dev str s)"

section \<open>Writes on a line that gets ready\<close>

text \<open>
  A device is live when, whatever was written, the line status goes on reporting an empty
  transmit register now and then.
\<close>

definition line_live :: "device \<Rightarrow> bool" where
  "line_live dev \<longleftrightarrow> (\<forall>out n. \<exists>k \<ge> n. dev out k SERIAL_LINE_STATUS_PORT AND 0x20 \<noteq> 0)"

lemma wait_transmit_step:
  "wait_transmit dev s =
     (if dev (port_out s) (port_reads s) SERIAL_LINE_STATUS_PORT AND 0x20 \<noteq> 0
      then Some (s\<lparr>port_reads := port_reads s + 1\<rparr>)
      else wait_transmit dev (s\<lparr>port_reads := port_reads s + 1\<rparr>))"
  by (subst wait_transmit.simps) (simp add: serial_transmit_ready_def inb_def)

lemma wait_transmit_returns:
  assumes "line_live dev"
  shows "\<exists>n. wait_transmit dev s = Some (s\<lparr>port_reads := n\<rparr>)"
proof -
  obtain k where k: "port_reads s \<le> k" "dev (port_out s) k SERIAL_LINE_STATUS_PORT AND 0x20 \<noteq> 0"
    using assms by (auto simp: line_live_def)
  then show ?thesis
  proof (induction "k - port_reads s" arbitrary: s)
    case 0
    then show ?case by (subst wait_transmit_step) auto
  next
    case (Suc m)
    have "\<exists>n. wait_transmit dev (s\<lparr>port_reads := port_reads s + 1\<rparr>) =
        Some (s\<lparr>port_reads := port_reads s + 1, port_reads := n\<rparr>)"
      using Suc.hyps(2) Suc.prems by (intro Suc.hyps(1)) simp_all
    then show ?case by (subst wait_transmit_step) auto
  qed
qed

text \<open>A write of bytes to the data port: the trace grows by them, nothing else but the number of reads changes.\<close>

definition sends :: "u8 list \<Rightarrow> 'a serial_scheme \<Rightarrow> 'a serial_scheme \<Rightarrow> bool" where
  "sends bytes s s' \<longleftrightarrow>
     (\<exists>n. s' = s\<lparr>port_out := port_out s @ map (Pair SERIAL_DATA_PORT) bytes, port_reads := n\<rparr>)"

lemma sends_none: "sends [] s s"
  unfolding sends_def by (intro exI [of _ "port_reads s"]) simp

lemma sends_trans: "sends a s t \<Longrightarrow> sends b t u \<Longrightarrow> sends (a @ b) s u"
  by (auto simp: sends_def)

lemma sends_fields:
  assumes "sends b s s'"
  shows "serial_enabled s' = serial_enabled s" "serial.more s' = serial.more s" "eflags s' = eflags s"
  using assms by (auto simp: sends_def)

lemma reads_after_writes [simp]: "s\<lparr>port_reads := n, port_out := p\<rparr> = s\<lparr>port_out := p, port_reads := n\<rparr>"
  by simp

lemma serial_put_sends:
  assumes "line_live dev"
  shows "\<exists>s'. serial_put dev v s = Some s' \<and> sends [v] s s'"
  using wait_transmit_returns [OF assms, of s] by (auto simp: serial_put_def outb_def sends_def)

text \<open>What a character becomes on the line.\<close>

definition on_line :: "u8 \<Rightarrow> u8 list" where
  "on_line c = (if c = CHAR_NEWLINE then [CHAR_RETURN, CHAR_NEWLINE]
     else if c = CHAR_BACKSPACE then [CHAR_BACKSPACE, CHAR_SPACE, CHAR_BACKSPACE] else [c])"

lemma serial_write_char_sends:
  assumes "line_live dev"
  shows "\<exists>s'. serial_write_char dev c s = Some s' \<and> sends (if serial_enabled s then on_line c else []) s s'"
proof -
  have two: "\<exists>s2. Option.bind (serial_put dev a s) (serial_put dev b) = Some s2 \<and> sends [a, b] s s2"
    for a b and s :: "'b serial_scheme"
  proof -
    obtain s1 where s1: "serial_put dev a s = Some s1" "sends [a] s s1"
      using serial_put_sends [OF assms] by blast
    obtain s2 where "serial_put dev b s1 = Some s2" "sends [b] s1 s2"
      using serial_put_sends [OF assms] by blast
    with s1 show ?thesis using sends_trans [of "[a]" s s1 "[b]" s2] by simp
  qed
  obtain s1 where s1: "serial_put dev CHAR_BACKSPACE s = Some s1" "sends [CHAR_BACKSPACE] s s1"
    using serial_put_sends [OF assms] by blast
  obtain s3 where s3: "Option.bind (serial_put dev CHAR_SPACE s1) (serial_put dev CHAR_BACKSPACE) = Some s3"
      "sends [CHAR_SPACE, CHAR_BACKSPACE] s1 s3"
    using two by blast
  show ?thesis
    using two [of CHAR_RETURN s CHAR_NEWLINE] s1(1) s3(1) sends_trans [OF s1(2) s3(2)]
      serial_put_sends [OF assms, of c s] sends_none [of s]
    by (simp add: serial_write_char_def on_line_def)
qed

lemma serial_write_from_sends:
  assumes "line_live dev" "0 \<notin> set str" "serial_enabled s"
  shows "\<exists>s'. serial_write_from dev str s = Some s' \<and> sends (concat (map on_line str)) s s'"
  using assms(2,3)
proof (induction str arbitrary: s)
  case Nil
  then show ?case by (simp add: sends_none)
next
  case (Cons c str)
  obtain s1 where s1: "serial_write_char dev c s = Some s1" "sends (on_line c) s s1"
    using serial_write_char_sends [OF assms(1), of c s] Cons.prems(2) by auto
  moreover obtain s2 where "serial_write_from dev str s1 = Some s2" "sends (concat (map on_line str)) s1 s2"
    using Cons.IH [of s1] Cons.prems sends_fields(1) [OF s1(2)] by auto
  ultimately show ?case using Cons.prems(1) sends_trans [of "on_line c" s s1] by auto
qed

text \<open>
  On a line that goes on getting ready, writing a text returns and sends its characters in
  order, each newline preceded by a carriage return and each backspace as backspace, blank,
  backspace; no other port is written. Before \<open>serial_init\<close> nothing is sent.
\<close>

lemma serial_write_sends_text:
  assumes "line_live dev" "0 \<notin> set str"
  shows "\<exists>s'. serial_write dev (Some str) s = Some s' \<and>
    port_out s' = port_out s @
      map (Pair SERIAL_DATA_PORT) (if serial_enabled s then concat (map on_line str) else []) \<and>
    serial_enabled s' = serial_enabled s"
proof (cases "serial_enabled s")
  case True
  then obtain s' where "serial_write_from dev str s = Some s'" "sends (concat (map on_line str)) s s'"
    using serial_write_from_sends assms by blast
  then show ?thesis using True by (auto simp: serial_write_def sends_def)
qed (simp add: serial_write_def)

end
