(* ===== verification/Interrupts.thy ===== *)
theory Interrupts
  imports Serial
begin

unbundle bit_operations_syntax

text \<open>
  Interrupts, \<open>kernel/src/idt.c\<close>: the descriptor table, the two 8259 interrupt controllers behind
  their ports, the table of handlers, and the dispatch every interrupt stub of \<open>interrupts.asm\<close>
  calls. The controllers are read as the devices the port writes program (\<open>pic_write\<close>).
\<close>

section \<open>Tables and registers (\<open>idt.h\<close>)\<close>

record idt_entry =
  idt_base_low :: u16
  idt_selector :: u16
  idt_zero :: u8
  idt_flags :: u8
  idt_base_high :: u16

record idt_ptr =
  idt_limit :: u16
  idt_base :: u32

record cpu_registers =
  gs :: u32
  fs :: u32
  es :: u32
  ds :: u32
  edi :: u32
  esi :: u32
  ebp :: u32
  esp :: u32
  ebx :: u32
  edx :: u32
  ecx :: u32
  eax :: u32
  int_no :: u32
  err_code :: u32
  eip :: u32
  cs :: u32
  reg_eflags :: u32

text \<open>The functions the kernel registers, and any other function by its address.\<close>

datatype interrupt_handler_ptr =
  Timer_Interrupt | Keyboard_Interrupt | Syscall_Handler | Handler_At u32

text \<open>\<open>idtr\<close> is the register \<open>lidt\<close> loads.\<close>

record idtsys = io +
  idt_entries :: "idt_entry list"
  idt_descriptor :: idt_ptr
  interrupt_handlers :: "interrupt_handler_ptr option list"
  idtr :: idt_ptr

abbreviation (input) IDT_ENTRY_COUNT :: nat where "IDT_ENTRY_COUNT \<equiv> 256"
abbreviation (input) IRQ_BASE_VECTOR :: u32 where "IRQ_BASE_VECTOR \<equiv> 32"
abbreviation (input) IRQ0_VECTOR :: u8 where "IRQ0_VECTOR \<equiv> 32"
abbreviation (input) IRQ1_VECTOR :: u8 where "IRQ1_VECTOR \<equiv> 33"
abbreviation (input) SYSCALL_VECTOR :: u8 where "SYSCALL_VECTOR \<equiv> 0x80"
abbreviation (input) IDT_FLAG_INTERRUPT_GATE :: u8 where "IDT_FLAG_INTERRUPT_GATE \<equiv> 0x8E"
abbreviation (input) IDT_FLAG_SYSCALL_GATE :: u8 where "IDT_FLAG_SYSCALL_GATE \<equiv> 0xEE"
abbreviation (input) GDT_KERNEL_CODE_SELECTOR :: u16 where "GDT_KERNEL_CODE_SELECTOR \<equiv> 0x08"

abbreviation (input) PIC1_COMMAND_PORT :: u16 where "PIC1_COMMAND_PORT \<equiv> 0x20"
abbreviation (input) PIC1_DATA_PORT :: u16 where "PIC1_DATA_PORT \<equiv> 0x21"
abbreviation (input) PIC2_COMMAND_PORT :: u16 where "PIC2_COMMAND_PORT \<equiv> 0xA0"
abbreviation (input) PIC2_DATA_PORT :: u16 where "PIC2_DATA_PORT \<equiv> 0xA1"
abbreviation (input) PIC_ICW1_INIT :: u8 where "PIC_ICW1_INIT \<equiv> 0x10"
abbreviation (input) PIC_ICW1_ICW4 :: u8 where "PIC_ICW1_ICW4 \<equiv> 0x01"
abbreviation (input) PIC_ICW4_8086 :: u8 where "PIC_ICW4_8086 \<equiv> 0x01"
abbreviation (input) PIC_EOI :: u8 where "PIC_EOI \<equiv> 0x20"

definition exception_messages :: "string list" where
  "exception_messages =
     [''Division by zero'', ''Debugger'', ''Non-maskable interrupt'', ''Breakpoint'', ''Overflow'',
      ''Bound range exceeded'', ''Invalid opcode'', ''Device not available'', ''Double fault'',
      ''Coprocessor segment overrun'', ''Invalid task state segment'', ''Segment not present'',
      ''Stack fault'', ''General protection fault'', ''Page fault'', ''Reserved exception'',
      ''Math fault'', ''Alignment check'', ''Machine check'', ''SIMD floating-point exception''] @
     replicate 12 ''Reserved exception''"

section \<open>Operations\<close>

definition idt_set_gate :: "u8 \<Rightarrow> u32 \<Rightarrow> u16 \<Rightarrow> u8 \<Rightarrow> 'a idtsys_scheme \<Rightarrow> 'a idtsys_scheme" where
  "idt_set_gate vector base selector flags s =
     s\<lparr>idt_entries := (idt_entries s)[unat vector :=
        \<lparr>idt_base_low = ucast (base AND 0xFFFF), idt_selector = selector, idt_zero = 0, idt_flags = flags,
         idt_base_high = ucast (drop_bit 16 base AND 0xFFFF)\<rparr>]\<rparr>"

definition null_gate :: idt_entry where
  "null_gate = \<lparr>idt_base_low = 0, idt_selector = 0, idt_zero = 0, idt_flags = 0, idt_base_high = 0\<rparr>"

definition idt_clear_tables :: "'a idtsys_scheme \<Rightarrow> 'a idtsys_scheme" where
  "idt_clear_tables s =
     fold (\<lambda>index s. s\<lparr>idt_entries := (idt_entries s)[index := null_gate],
        interrupt_handlers := (interrupt_handlers s)[index := None]\<rparr>) [0..<IDT_ENTRY_COUNT] s"

definition pic_remap :: "device \<Rightarrow> u8 \<Rightarrow> u8 \<Rightarrow> 'a io_scheme \<Rightarrow> 'a io_scheme" where
  "pic_remap dev master_offset slave_offset s =
     (let (master_mask, s) = inb dev PIC1_DATA_PORT s;
          (slave_mask, s) = inb dev PIC2_DATA_PORT s;
          s = io_wait (outb PIC1_COMMAND_PORT (PIC_ICW1_INIT OR PIC_ICW1_ICW4) s);
          s = io_wait (outb PIC2_COMMAND_PORT (PIC_ICW1_INIT OR PIC_ICW1_ICW4) s);
          s = io_wait (outb PIC1_DATA_PORT master_offset s);
          s = io_wait (outb PIC2_DATA_PORT slave_offset s);
          s = io_wait (outb PIC1_DATA_PORT 4 s);
          s = io_wait (outb PIC2_DATA_PORT 2 s);
          s = io_wait (outb PIC1_DATA_PORT PIC_ICW4_8086 s);
          s = io_wait (outb PIC2_DATA_PORT PIC_ICW4_8086 s);
          s = outb PIC1_DATA_PORT master_mask s
      in outb PIC2_DATA_PORT slave_mask s)"

definition pic_send_eoi :: "u8 \<Rightarrow> 'a io_scheme \<Rightarrow> 'a io_scheme" where
  "pic_send_eoi irq s =
     (let s = (if 8 \<le> irq then outb PIC2_COMMAND_PORT PIC_EOI s else s)
      in outb PIC1_COMMAND_PORT PIC_EOI s)"

text \<open>The port of a request line and the bit of the line there.\<close>

definition pic_line :: "u8 \<Rightarrow> u16 \<times> u8" where
  "pic_line irq = (if irq < 8 then (PIC1_DATA_PORT, irq) else (PIC2_DATA_PORT, irq - 8))"

definition pic_set_mask :: "device \<Rightarrow> u8 \<Rightarrow> 'a io_scheme \<Rightarrow> 'a io_scheme" where
  "pic_set_mask dev irq s =
     (let (port, irq) = pic_line irq;
          (value, s) = inb dev port s
      in outb port (value OR ucast (push_bit (unat irq) 1 :: u32)) s)"

definition pic_clear_mask :: "device \<Rightarrow> u8 \<Rightarrow> 'a io_scheme \<Rightarrow> 'a io_scheme" where
  "pic_clear_mask dev irq s =
     (let (port, irq) = pic_line irq;
          (value, s) = inb dev port s
      in outb port (value AND ucast (NOT (push_bit (unat irq) 1 :: u32))) s)"

text \<open>
  \<open>stubs\<close>, \<open>isr128\<close> and \<open>idt_addr\<close> are the addresses the linker gives the entries of
  \<open>interrupt_stub_table\<close>, \<open>isr128\<close> and \<open>idt_entries\<close>.
\<close>

definition idt_init :: "device \<Rightarrow> u32 list \<Rightarrow> u32 \<Rightarrow> u32 \<Rightarrow> 'a idtsys_scheme \<Rightarrow> 'a idtsys_scheme" where
  "idt_init dev stubs isr128 idt_addr s =
     (let s = idt_clear_tables s;
          s = fold (\<lambda>vector. idt_set_gate (word_of_nat vector) (stubs ! vector) GDT_KERNEL_CODE_SELECTOR
                 IDT_FLAG_INTERRUPT_GATE) [0..<48] s;
          s = idt_set_gate SYSCALL_VECTOR isr128 GDT_KERNEL_CODE_SELECTOR IDT_FLAG_SYSCALL_GATE s;
          s = s\<lparr>idt_descriptor := \<lparr>idt_limit = 8 * 256 - 1, idt_base = idt_addr\<rparr>\<rparr>;
          s = pic_remap dev 32 (32 + 8) s;
          s = outb PIC1_DATA_PORT 0xF9 s;
          s = outb PIC2_DATA_PORT 0xFF s
      in s\<lparr>idtr := idt_descriptor s\<rparr>)"

definition idt_register_handler ::
  "u8 \<Rightarrow> interrupt_handler_ptr option \<Rightarrow> 'a idtsys_scheme \<Rightarrow> 'a idtsys_scheme" where
  "idt_register_handler vector handler s =
     s\<lparr>interrupt_handlers := (interrupt_handlers s)[unat vector := handler]\<rparr>"

definition idt_unregister_handler :: "u8 \<Rightarrow> 'a idtsys_scheme \<Rightarrow> 'a idtsys_scheme" where
  "idt_unregister_handler vector s = s\<lparr>interrupt_handlers := (interrupt_handlers s)[unat vector := None]\<rparr>"

definition idt_get_descriptor :: "'a idtsys_scheme \<Rightarrow> u32 \<times> u16" where
  "idt_get_descriptor s = (idt_base (idt_descriptor s), idt_limit (idt_descriptor s))"

text \<open>
  The kernel's state is whatever the handlers work on: \<open>get\<close> and \<open>put\<close> reach the part of it kept
  here, and \<open>call\<close> is what a handler does. A null pointer for the registers is \<open>None\<close>.
\<close>

definition idt_handle_interrupt ::
  "('s \<Rightarrow> idtsys) \<Rightarrow> ((idtsys \<Rightarrow> idtsys) \<Rightarrow> 's \<Rightarrow> 's) \<Rightarrow>
   (interrupt_handler_ptr \<Rightarrow> cpu_registers \<Rightarrow> 's \<Rightarrow> (cpu_registers \<times> 's) outcome) \<Rightarrow>
   cpu_registers option \<Rightarrow> 's \<Rightarrow> (cpu_registers option \<times> 's) outcome" where
  "idt_handle_interrupt get put call registers s =
     (case registers of
        None \<Rightarrow> Inr (None, s)
      | Some r \<Rightarrow>
          let vector = int_no r AND 0xFF in
          obind (case interrupt_handlers (get s) ! unat vector of
                   Some handler \<Rightarrow> call handler r s
                 | None \<Rightarrow> if vector < 32 then Inl (Panic (exception_messages ! unat vector)) else Inr (r, s))
            (\<lambda>(r, s).
             Inr (Some r, if IRQ_BASE_VECTOR \<le> vector \<and> vector < IRQ_BASE_VECTOR + 16
                          then put (pic_send_eoi (ucast (vector - IRQ_BASE_VECTOR))) s else s)))"

end
