(* ===== verification/Syscall.thy ===== *)
theory Syscall
  imports Process_Signals Interrupts
begin

unbundle bit_operations_syntax

text \<open>
  System calls, \<open>kernel/src/syscall.c\<close>: the table of handlers, the calls themselves and the
  dispatch on the number in \<open>eax\<close>. A handler is a function pointer: one of the functions of this
  file, or a function given to \<open>syscall_register\<close>, whose effect is the parameter \<open>ext\<close>.
\<close>

section \<open>Operations\<close>

abbreviation (input) SYSCALL_MAX_HANDLERS :: u32 where "SYSCALL_MAX_HANDLERS \<equiv> 8"
abbreviation (input) SYSCALL_GET_MAGIC :: nat where "SYSCALL_GET_MAGIC \<equiv> 0"
abbreviation (input) SYSCALL_FORK :: nat where "SYSCALL_FORK \<equiv> 1"
abbreviation (input) SYSCALL_WAIT :: nat where "SYSCALL_WAIT \<equiv> 2"
abbreviation (input) SYSCALL_EXIT :: nat where "SYSCALL_EXIT \<equiv> 3"
abbreviation (input) SYSCALL_GETUID :: nat where "SYSCALL_GETUID \<equiv> 4"
abbreviation (input) SYSCALL_SIGNAL :: nat where "SYSCALL_SIGNAL \<equiv> 5"
abbreviation (input) SYSCALL_KILL :: nat where "SYSCALL_KILL \<equiv> 6"

datatype syscall_handler_ptr =
  Syscall_Not_Implemented | Syscall_Get_Magic | Sys_Fork | Sys_Wait | Sys_Exit | Sys_Getuid
| Sys_Signal | Sys_Kill | External u32

text \<open>\<open>idt\<close> is the state of \<open>idt.c\<close>, where \<open>syscall_init\<close> registers its handler.\<close>

record syssys = procsys +
  syscall_table :: "syscall_handler_ptr list"
  idt :: idtsys

type_synonym 's call_result = "(u32 \<times> 's) outcome"

definition syscall_get_magic :: "u32 \<Rightarrow> u32 \<Rightarrow> u32 \<Rightarrow> u32 \<Rightarrow> 'a procsys_scheme \<Rightarrow> 'a procsys_scheme call_result" where
  "syscall_get_magic arg0 arg1 arg2 arg3 s = Inr (0x4B465334, s)"

definition sys_fork :: "u32 \<Rightarrow> u32 \<Rightarrow> u32 \<Rightarrow> u32 \<Rightarrow> 'a procsys_scheme \<Rightarrow> 'a procsys_scheme call_result" where
  "sys_fork pid_hint arg1 arg2 arg3 s =
     obind (if pid_hint \<noteq> 0 then process_get_by_pid pid_hint s else Inr (process_current s)) (\<lambda>source.
     obind (fork_process source s) (\<lambda>(child, s).
     Inr (case child of None \<Rightarrow> 0xFFFFFFFF | Some c \<Rightarrow> pid (proc s c), s)))"

definition sys_wait :: "u32 \<Rightarrow> u32 \<Rightarrow> u32 \<Rightarrow> u32 \<Rightarrow> 'a procsys_scheme \<Rightarrow> 'a procsys_scheme call_result" where
  "sys_wait pd arg1 arg2 arg3 s =
     (let par = (case process_current s of None \<Rightarrow> process_root s | Some c \<Rightarrow> Some c)
      in obind (process_wait par pd s) (\<lambda>(result, code, s).
         if result <s 0 then Inr (0xFFFFFFFF, s)
         else if result = 0 then Inr (0, s)
         else Inr (case code of None \<Rightarrow> 0 | Some x \<Rightarrow> x, s)))"

definition sys_exit :: "u32 \<Rightarrow> u32 \<Rightarrow> u32 \<Rightarrow> u32 \<Rightarrow> 'a procsys_scheme \<Rightarrow> 'a procsys_scheme call_result" where
  "sys_exit code arg1 arg2 arg3 s = Inr (code, process_exit (process_current s) code s)"

definition sys_getuid :: "u32 \<Rightarrow> u32 \<Rightarrow> u32 \<Rightarrow> u32 \<Rightarrow> 'a procsys_scheme \<Rightarrow> 'a procsys_scheme call_result" where
  "sys_getuid arg0 arg1 arg2 arg3 s = Inr (process_getuid (process_current s) s, s)"

definition sys_signal :: "u32 \<Rightarrow> u32 \<Rightarrow> u32 \<Rightarrow> u32 \<Rightarrow> 'a procsys_scheme \<Rightarrow> 'a procsys_scheme call_result" where
  "sys_signal pd sig value arg3 s =
     obind (send_signal_to_process (process_current s) pd sig value s) (\<lambda>(r, s).
     Inr (if r = 0 then 0 else 0xFFFFFFFF, s))"

definition sys_kill :: "u32 \<Rightarrow> u32 \<Rightarrow> u32 \<Rightarrow> u32 \<Rightarrow> 'a procsys_scheme \<Rightarrow> 'a procsys_scheme call_result" where
  "sys_kill pd sig arg2 arg3 s =
     obind (kill_process (process_current s) pd sig s) (\<lambda>(r, s). Inr (if r = 0 then 0 else 0xFFFFFFFF, s))"

definition syscall_not_implemented ::
  "u32 \<Rightarrow> u32 \<Rightarrow> u32 \<Rightarrow> u32 \<Rightarrow> 'a procsys_scheme \<Rightarrow> 'a procsys_scheme call_result" where
  "syscall_not_implemented arg0 arg1 arg2 arg3 s = Inr (0xFFFFFFFF, s)"

fun syscall_call ::
  "(u32 \<Rightarrow> u32 \<Rightarrow> u32 \<Rightarrow> u32 \<Rightarrow> u32 \<Rightarrow> 'a procsys_scheme \<Rightarrow> 'a procsys_scheme call_result) \<Rightarrow>
   syscall_handler_ptr \<Rightarrow> u32 \<Rightarrow> u32 \<Rightarrow> u32 \<Rightarrow> u32 \<Rightarrow> 'a procsys_scheme \<Rightarrow> 'a procsys_scheme call_result" where
  "syscall_call ext Syscall_Not_Implemented = syscall_not_implemented"
| "syscall_call ext Syscall_Get_Magic = syscall_get_magic"
| "syscall_call ext Sys_Fork = sys_fork"
| "syscall_call ext Sys_Wait = sys_wait"
| "syscall_call ext Sys_Exit = sys_exit"
| "syscall_call ext Sys_Getuid = sys_getuid"
| "syscall_call ext Sys_Signal = sys_signal"
| "syscall_call ext Sys_Kill = sys_kill"
| "syscall_call ext (External f) = ext f"

definition syscall_init :: "'a syssys_scheme \<Rightarrow> 'a syssys_scheme" where
  "syscall_init s =
     s\<lparr>syscall_table := (replicate 8 Syscall_Not_Implemented)
        [SYSCALL_GET_MAGIC := Syscall_Get_Magic, SYSCALL_FORK := Sys_Fork, SYSCALL_WAIT := Sys_Wait,
         SYSCALL_EXIT := Sys_Exit, SYSCALL_GETUID := Sys_Getuid, SYSCALL_SIGNAL := Sys_Signal,
         SYSCALL_KILL := Sys_Kill],
       idt := idt_register_handler SYSCALL_VECTOR (Some Syscall_Handler) (idt s)\<rparr>"

text \<open>A null handler is \<open>None\<close>.\<close>

definition syscall_register ::
  "u32 \<Rightarrow> syscall_handler_ptr option \<Rightarrow> 'a syssys_scheme \<Rightarrow> i32 \<times> 'a syssys_scheme" where
  "syscall_register number handler s =
     (case handler of
        None \<Rightarrow> (-1, s)
      | Some h \<Rightarrow>
          if SYSCALL_MAX_HANDLERS \<le> number then (-1, s)
          else (0, s\<lparr>syscall_table := (syscall_table s)[unat number := h]\<rparr>))"

definition syscall_dispatch ::
  "(u32 \<Rightarrow> u32 \<Rightarrow> u32 \<Rightarrow> u32 \<Rightarrow> u32 \<Rightarrow> 'a syssys_scheme \<Rightarrow> 'a syssys_scheme call_result) \<Rightarrow>
   u32 \<Rightarrow> u32 \<Rightarrow> u32 \<Rightarrow> u32 \<Rightarrow> u32 \<Rightarrow> 'a syssys_scheme \<Rightarrow> 'a syssys_scheme call_result" where
  "syscall_dispatch ext number arg0 arg1 arg2 arg3 s =
     (if SYSCALL_MAX_HANDLERS \<le> number then Inr (0xFFFFFFFF, s)
      else syscall_call ext (syscall_table s ! unat number) arg0 arg1 arg2 arg3 s)"

definition syscall_handler ::
  "(u32 \<Rightarrow> u32 \<Rightarrow> u32 \<Rightarrow> u32 \<Rightarrow> u32 \<Rightarrow> 'a syssys_scheme \<Rightarrow> 'a syssys_scheme call_result) \<Rightarrow>
   cpu_registers \<Rightarrow> 'a syssys_scheme \<Rightarrow> (cpu_registers \<times> 'a syssys_scheme) outcome" where
  "syscall_handler ext r s =
     obind (syscall_dispatch ext (eax r) (ebx r) (ecx r) (edx r) (esi r) s) (\<lambda>(v, s).
     Inr (r\<lparr>eax := v\<rparr>, s))"

end
