(* ===== verification/Process_Spec.thy ===== *)
theory Process_Spec
  imports Scheduler Syscall
begin

unbundle bit_operations_syntax

text \<open>
  The data structures of the process code: linked lists of slots and the walks along them, the
  round-robin search, and the ring of pending signals as a bounded queue.
\<close>

section \<open>The list of processes\<close>

lemma length_upd [simp]: "length (process_table (upd i f s)) = length (process_table s)"
  by (simp add: upd_def)

lemma proc_upd:
  "i < length (process_table s) \<Longrightarrow> proc (upd i f s) j = (if i = j then f (proc s i) else proc s j)"
  by (simp add: upd_def)

lemma upd_fields [simp]:
  "process_head (upd i f s) = process_head s" "kernel_process (upd i f s) = kernel_process s"
  "current_process (upd i f s) = current_process s" "scheduler_cursor (upd i f s) = scheduler_cursor s"
  "next_pid (upd i f s) = next_pid s" "scheduler_enabled (upd i f s) = scheduler_enabled s"
  "pcpu (upd i f s) = pcpu s" "frames (upd i f s) = frames s" "mem (upd i f s) = mem s"
  "total_context_switches (upd i f s) = total_context_switches s"
  "pending_scheduler_ticks (upd i f s) = pending_scheduler_ticks s"
  by (simp_all add: upd_def)

text \<open>
  \<open>linked nx t p L\<close>: following the pointer \<open>nx\<close> from \<open>p\<close> visits the slots \<open>L\<close>. The list of all
  processes is linked by \<open>next\<close>, the children of a process by \<open>next_sibling\<close>.
\<close>

primrec linked :: "(process \<Rightarrow> procptr) \<Rightarrow> process list \<Rightarrow> procptr \<Rightarrow> nat list \<Rightarrow> bool" where
  "linked nx t p [] \<longleftrightarrow> p = None"
| "linked nx t p (i # is) \<longleftrightarrow> p = Some i \<and> i < length t \<and> linked nx t (nx (t ! i)) is"

abbreviation chain :: "process list \<Rightarrow> procptr \<Rightarrow> nat list \<Rightarrow> bool" where
  "chain \<equiv> linked pnext"

lemma linked_bound: "linked nx t p L \<Longrightarrow> i \<in> set L \<Longrightarrow> i < length t"
  by (induction L arbitrary: p) auto

text \<open>Changing other fields leaves the list.\<close>

lemma linked_cong:
  "(\<And>i. i \<in> set L \<Longrightarrow> nx (t' ! i) = nx (t ! i)) \<Longrightarrow> length t' = length t \<Longrightarrow> linked nx t' p L = linked nx t p L"
  by (induction L arbitrary: p) simp_all

lemma linked_unlink:
  assumes "linked nx t p (A @ q # i # B)" "length t' = length t" "nx (t' ! q) = nx (t ! i)"
    "\<And>k. k \<in> set A \<union> set B \<Longrightarrow> nx (t' ! k) = nx (t ! k)"
  shows "linked nx t' p (A @ q # B)"
  using assms
proof (induction A arbitrary: p)
  case Nil
  then have "linked nx t' (nx (t ! i)) B = linked nx t (nx (t ! i)) B" by (intro linked_cong) auto
  then show ?case using Nil by auto
qed auto

lemma linked_snoc:
  assumes "linked nx t p (L @ [j])" "n < length t" "length t' = length t" "nx (t' ! j) = Some n"
    "nx (t' ! n) = None" "\<And>k. k \<in> set L \<Longrightarrow> nx (t' ! k) = nx (t ! k)"
  shows "linked nx t' p (L @ [j, n])"
  using assms by (induction L arbitrary: p) auto

lemma linked_unique: "linked nx t p L \<Longrightarrow> linked nx t p L' \<Longrightarrow> L = L'"
proof (induction L arbitrary: p L')
  case Nil
  then show ?case by (cases L') auto
next
  case (Cons i L)
  then show ?case by (cases L') auto
qed

lemma get_by_pid_chain:
  "chain t p L \<Longrightarrow> get_by_pid_from t pd p = Some (List.find (\<lambda>i. used (t ! i) \<and> pid (t ! i) = pd) L)"
proof (induction L arbitrary: p)
  case Nil
  then show ?case by (simp add: get_by_pid_from.simps [of t pd None])
next
  case (Cons i L)
  then show ?case by (simp add: get_by_pid_from.simps [of t pd "Some i"])
qed

lemma count_chain:
  "chain t p L \<Longrightarrow> count_from t p n = Some (n + word_of_nat (length (filter (\<lambda>i. used (t ! i)) L)))"
proof (induction L arbitrary: p n)
  case Nil
  then show ?case by (simp add: count_from.simps [of t None])
next
  case (Cons i L)
  then show ?case by (simp add: count_from.simps [of t "Some i"] algebra_simps)
qed

lemma list_tail_chain: "chain t (Some i) (L @ [j]) \<Longrightarrow> list_tail_from t i = Some j"
proof (induction L arbitrary: i)
  case Nil
  then show ?case by (auto simp: list_tail_from.simps [of t j])
next
  case (Cons k L)
  then obtain n where "pnext (t ! i) = Some n" by (cases L) auto
  with Cons show ?case by (auto simp: list_tail_from.simps [of t k])
qed

text \<open>Taking a process out of the list: \<open>pv\<close> is the slot before the part still to be searched.\<close>

lemma unlink_global_chain:
  assumes "chain (process_table s) cursor (A @ i # B)" "distinct (A @ i # B)" "pv \<notin> set (A @ i # B)"
  shows "\<exists>s'. unlink_global_from cursor (Some pv) i s = Some s' \<and>
    s' = (let q = last (pv # A); t = process_table s in
          s\<lparr>process_table := (t[q := (t ! q)\<lparr>pnext := pnext (t ! i)\<rparr>])[i := (t ! i)\<lparr>pnext := None\<rparr>]\<rparr>)"
  using assms
proof (induction A arbitrary: cursor pv)
  case Nil
  then show ?case
    by (simp add: unlink_global_from.simps [of "Some i" "Some pv" i s] upd_def Let_def)
next
  case (Cons a A)
  have "unlink_global_from cursor (Some pv) i s = unlink_global_from (pnext (proc s a)) (Some a) i s"
    using Cons.prems by (auto simp: unlink_global_from.simps [of "Some a" "Some pv" i s])
  moreover have "\<exists>s'. unlink_global_from (pnext (proc s a)) (Some a) i s = Some s' \<and>
    s' = (let q = last (a # A); t = process_table s in
          s\<lparr>process_table := (t[q := (t ! q)\<lparr>pnext := pnext (t ! i)\<rparr>])[i := (t ! i)\<lparr>pnext := None\<rparr>]\<rparr>)"
    using Cons.prems by (intro Cons.IH) auto
  ultimately show ?case by simp
qed

section \<open>Round robin\<close>

text \<open>The order in which the scheduler looks at processes: behind the cursor, round to the cursor.\<close>

definition after :: "nat \<Rightarrow> nat list \<Rightarrow> nat list" where
  "after c L = tl (dropWhile (\<lambda>i. i \<noteq> c) L) @ takeWhile (\<lambda>i. i \<noteq> c) L @ [c]"

lemma after_split: "c \<notin> set A \<Longrightarrow> after c (A @ c # B) = B @ A @ [c]"
proof -
  assume "c \<notin> set A"
  then have "dropWhile (\<lambda>i. i \<noteq> c) (A @ c # B) = c # B" "takeWhile (\<lambda>i. i \<noteq> c) (A @ c # B) = A"
    by (induction A) auto
  then show ?thesis by (simp add: after_def)
qed

definition succ_of :: "process list \<Rightarrow> nat \<Rightarrow> nat \<Rightarrow> nat" where
  "succ_of t h i = (case pnext (t ! i) of None \<Rightarrow> h | Some n \<Rightarrow> n)"

primrec steps :: "process list \<Rightarrow> nat \<Rightarrow> nat \<Rightarrow> nat list \<Rightarrow> bool" where
  "steps t h x [] \<longleftrightarrow> True"
| "steps t h x (y # ys) \<longleftrightarrow> succ_of t h x = y \<and> steps t h y ys"

lemma pick_from_steps:
  "steps t h x ys \<Longrightarrow> ys \<noteq> [] \<Longrightarrow> last ys = c \<Longrightarrow> c \<notin> set (butlast ys) \<Longrightarrow>
     pick_from t h c x = Some (List.find (\<lambda>i. runnable (t ! i)) ys)"
proof (induction ys arbitrary: x)
  case (Cons y ys)
  have y: "(case pnext (t ! x) of None \<Rightarrow> h | Some n \<Rightarrow> n) = y" using Cons.prems(1) by (simp add: succ_of_def)
  show ?case
  proof (cases "ys = []")
    case True
    then show ?thesis using y Cons.prems(3) by (simp add: pick_from.simps [of t h c x] Let_def)
  next
    case False
    then have "y \<noteq> c" "pick_from t h c y = Some (List.find (\<lambda>i. runnable (t ! i)) ys)"
      using Cons by auto
    then show ?thesis using y by (simp add: pick_from.simps [of t h c x] Let_def)
  qed
qed simp

lemma steps_append: "steps t h x (ys @ zs) \<longleftrightarrow> steps t h x ys \<and> steps t h (last (x # ys)) zs"
  by (induction ys arbitrary: x) auto

lemma chain_steps: "chain t p (x # ys) \<Longrightarrow> steps t h x ys \<and> pnext (t ! last (x # ys)) = None"
proof (induction ys arbitrary: x p)
  case (Cons y ys)
  then have "steps t h y ys \<and> pnext (t ! last (y # ys)) = None" by auto
  moreover have "succ_of t h x = y" using Cons.prems by (simp add: succ_of_def)
  ultimately show ?case by simp
qed simp

lemma chain_suffix: "chain t p (A @ x # B) \<Longrightarrow> chain t (Some x) (x # B)"
  by (induction A arbitrary: p) auto

lemma after_steps:
  assumes "chain t (Some h) L" "distinct L" "c \<in> set L"
  shows "steps t h c (after c L)"
proof -
  obtain A B where L: "L = A @ c # B" "c \<notin> set A" using assms(3) by (metis split_list_first)
  have cB: "steps t h c B" "pnext (t ! last (c # B)) = None"
    using chain_steps [OF chain_suffix] assms(1) L by blast+
  have "steps t h (last (c # B)) (A @ [c])"
  proof (cases A)
    case Nil
    then show ?thesis using assms(1) L cB(2) by (simp add: succ_of_def)
  next
    case (Cons a A')
    then have "a = h" "steps t h h (A' @ c # B)"
      using assms(1) L chain_steps [of t "Some h" h "A' @ c # B" h] by simp_all
    then have "steps t h h (A' @ [c])" by (simp add: steps_append)
    then show ?thesis using Cons \<open>a = h\<close> cB(2) by (simp add: succ_of_def)
  qed
  then show ?thesis using cB(1) L(1) after_split [OF L(2)] by (simp add: steps_append)
qed

section \<open>Ring indices in range\<close>

definition ring_ok :: "process \<Rightarrow> bool" where
  "ring_ok p \<longleftrightarrow> length (pending_process_signals p) = 16 \<and> unat (psignal_head p) < 16 \<and> unat (psignal_tail p) < 16 \<and>
     length (socket_values (socket p)) = 8 \<and> unat (socket_head (socket p)) < 8 \<and> unat (socket_tail (socket p)) < 8"

section \<open>Pending signals as a bounded queue\<close>

definition signal_items :: "nat \<Rightarrow> 'a procsys_scheme \<Rightarrow> process_pending_signal list" where
  "signal_items i s = ring_items 16 (pending_process_signals (proc s i))
     (unat (psignal_head (proc s i))) (unat (psignal_tail (proc s i)))"

definition put_signal :: "nat \<Rightarrow> process_pending_signal \<Rightarrow> 'a procsys_scheme \<Rightarrow> bool \<times> 'a procsys_scheme" where
  "put_signal i x s = (let (r, s') = queue_process_signal (Some i) (psignal x) (pvalue x) s in (r = 0, s'))"

definition get_signal :: "nat \<Rightarrow> 'a procsys_scheme \<Rightarrow> process_pending_signal option \<times> 'a procsys_scheme" where
  "get_signal i s = (if psignal_head (proc s i) \<noteq> psignal_tail (proc s i)
     then let (x, s') = take_process_signal i s in (Some x, s') else (None, s))"

definition slot_ok :: "nat \<Rightarrow> 'a procsys_scheme \<Rightarrow> bool" where
  "slot_ok i s \<longleftrightarrow> i < length (process_table s) \<and> ring_ok (proc s i)"

lemma cpu_critical [simp]: "s\<lparr>pcpu := interrupts_restore (fst (interrupts_save (pcpu s))) (snd (interrupts_save (pcpu s)))\<rparr> = s"
  by simp

lemma queue_signal_full:
  assumes "slot_ok i s" "(psignal_tail (proc s i) + 1) mod 16 = psignal_head (proc s i)"
  shows "queue_process_signal (Some i) sig v s = (-1, s)"
  using assms cpu_critical [of s]
  by (simp add: queue_process_signal_def split_beta Let_def)

lemma queue_signal_room:
  assumes "slot_ok i s" "(psignal_tail (proc s i) + 1) mod 16 \<noteq> psignal_head (proc s i)"
  shows "queue_process_signal (Some i) sig v s =
    (0, upd i (\<lambda>p. p\<lparr>pending_process_signals := (pending_process_signals p)
          [unat (psignal_tail p) := \<lparr>psignal = sig, pvalue = v\<rparr>],
        psignal_tail := (psignal_tail p + 1) mod 16\<rparr>) s)"
  using assms
  by (simp add: queue_process_signal_def split_beta Let_def upd_def slot_ok_def)

lemma signal_index:
  assumes "slot_ok i s"
  defines "h \<equiv> unat (psignal_head (proc s i))" and "t \<equiv> unat (psignal_tail (proc s i))"
  shows "h < 16" "t < 16" "length (pending_process_signals (proc s i)) = 16"
    "unat ((psignal_tail (proc s i) + 1) mod 16) = Suc t mod 16"
    "unat ((psignal_head (proc s i) + 1) mod 16) = Suc h mod 16"
    "(psignal_tail (proc s i) + 1) mod 16 = psignal_head (proc s i) \<longleftrightarrow> Suc t mod 16 = h"
    "psignal_head (proc s i) = psignal_tail (proc s i) \<longleftrightarrow> h = t"
proof -
  show b: "h < 16" "t < 16" "length (pending_process_signals (proc s i)) = 16"
    using assms(1) by (simp_all add: slot_ok_def ring_ok_def h_def t_def)
  show n: "unat ((psignal_tail (proc s i) + 1) mod 16) = Suc t mod 16"
    "unat ((psignal_head (proc s i) + 1) mod 16) = Suc h mod 16"
    using b(1,2) unat_ring_next [of _ 16 16] by (simp_all add: h_def t_def)
  show "(psignal_tail (proc s i) + 1) mod 16 = psignal_head (proc s i) \<longleftrightarrow> Suc t mod 16 = h"
    using n(1) by (simp add: word_eq_unat h_def)
  show "psignal_head (proc s i) = psignal_tail (proc s i) \<longleftrightarrow> h = t"
    by (simp add: word_eq_unat h_def t_def)
qed

lemma slot_ok_upd: "slot_ok i s \<Longrightarrow> ring_ok (f (proc s i)) \<Longrightarrow> slot_ok i (upd i f s)"
  by (simp add: slot_ok_def proc_upd)

lemma put_signal_room:
  assumes ok: "slot_ok i s" and room: "length (signal_items i s) < 15"
  shows "queue_process_signal (Some i) (psignal x) (pvalue x) s = (0, snd (put_signal i x s))"
    "signal_items i (snd (put_signal i x s)) = signal_items i s @ [x]" "slot_ok i (snd (put_signal i x s))"
    "put_signal i x s = (True, upd i (\<lambda>p. p\<lparr>pending_process_signals := (pending_process_signals p)
          [unat (psignal_tail p) := x], psignal_tail := (psignal_tail p + 1) mod 16\<rparr>) s)"
proof -
  note ix = signal_index [OF ok]
  have i: "i < length (process_table s)" using ok by (simp add: slot_ok_def)
  have ne: "Suc (unat (psignal_tail (proc s i))) mod 16 \<noteq> unat (psignal_head (proc s i))"
    using room ring_next(1) [OF ix(1,2)] by (simp add: signal_items_def)
  have x: "\<lparr>psignal = psignal x, pvalue = pvalue x\<rparr> = x" by simp
  show eq: "put_signal i x s = (True, upd i (\<lambda>p. p\<lparr>pending_process_signals := (pending_process_signals p)
          [unat (psignal_tail p) := x], psignal_tail := (psignal_tail p + 1) mod 16\<rparr>) s)"
    using queue_signal_room [OF ok] ne ix(6) by (simp add: put_signal_def x)
  show "queue_process_signal (Some i) (psignal x) (pvalue x) s = (0, snd (put_signal i x s))"
    using queue_signal_room [OF ok] ne ix(6) eq by (simp add: x)
  show "signal_items i (snd (put_signal i x s)) = signal_items i s @ [x]"
    using ring_items_put [OF ix(1,2,3) ne] by (simp add: eq signal_items_def proc_upd i ix(4))
  show "slot_ok i (snd (put_signal i x s))"
    unfolding eq snd_conv by (rule slot_ok_upd [OF ok]) (use ok ix(2,3,4) in \<open>simp add: slot_ok_def ring_ok_def\<close>)
qed

lemma take_signal:
  assumes ok: "slot_ok i s" and it: "signal_items i s = x # xs"
  shows "fst (take_process_signal i s) = x"
    "signal_items i (snd (take_process_signal i s)) = xs" "slot_ok i (snd (take_process_signal i s))"
    "psignal_head (proc s i) \<noteq> psignal_tail (proc s i)"
proof -
  note ix = signal_index [OF ok]
  have i: "i < length (process_table s)" using ok by (simp add: slot_ok_def)
  have ne: "unat (psignal_head (proc s i)) \<noteq> unat (psignal_tail (proc s i))"
    using it ring_count_zero [OF ix(1,2)] by (auto simp: signal_items_def ring_items_def)
  then show "psignal_head (proc s i) \<noteq> psignal_tail (proc s i)" by auto
  have "signal_items i s = pending_process_signals (proc s i) ! unat (psignal_head (proc s i)) #
      ring_items 16 (pending_process_signals (proc s i)) (Suc (unat (psignal_head (proc s i))) mod 16)
        (unat (psignal_tail (proc s i)))"
    using ring_items_get [OF ix(1,2) ne] by (simp add: signal_items_def)
  then show "fst (take_process_signal i s) = x"
    "signal_items i (snd (take_process_signal i s)) = xs"
    using it ix(5) by (simp_all add: take_process_signal_def Let_def signal_items_def proc_upd i)
  show "slot_ok i (snd (take_process_signal i s))"
    unfolding take_process_signal_def Let_def snd_conv
    by (rule slot_ok_upd [OF ok]) (use ok ix(1,5) in \<open>simp add: slot_ok_def ring_ok_def\<close>)
qed

interpretation process_signals:
  bounded_queue "put_signal i" "get_signal i" "signal_items i" "\<lambda>x. True" "slot_ok i" 15 for i
proof unfold_locales
  fix s :: "'a procsys_scheme" and x xs
  assume ok: "slot_ok i s"
  note ix = signal_index [OF ok]
  show "length (signal_items i s) \<le> 15"
    using ring_count_less [of 16] by (simp add: signal_items_def less_Suc_eq_le [symmetric])
  show "length (signal_items i s) < 15 \<Longrightarrow> fst (put_signal i x s) \<and>
      signal_items i (snd (put_signal i x s)) = signal_items i s @ [x] \<and> slot_ok i (snd (put_signal i x s))"
    using put_signal_room [OF ok] by simp
  show "length (signal_items i s) = 15 \<Longrightarrow> put_signal i x s = (False, s)"
    using queue_signal_full [OF ok] ring_next(1) [OF ix(1,2)] ix(6)
    by (simp add: signal_items_def put_signal_def)
  show "signal_items i s = [] \<Longrightarrow> get_signal i s = (None, s)"
    using ring_count_zero [OF ix(1,2)] ix(7) by (auto simp: signal_items_def get_signal_def ring_items_def)
  show "signal_items i s = x # xs \<Longrightarrow> fst (get_signal i s) = Some x \<and> signal_items i (snd (get_signal i s)) = xs \<and>
      slot_ok i (snd (get_signal i s))"
    using take_signal [OF ok] by (simp add: get_signal_def split_beta)
qed simp

end
