(* ===== verification/Process_Table.thy ===== *)
theory Process_Table
  imports Process_Spec
begin

unbundle bit_operations_syntax

text \<open>
  The invariant of the process table: the list of processes visits every slot in use once, the
  children of a process are linked to it, rings are in range, process identifiers differ. Every
  operation of the process code keeps it, and none of its walks runs forever.
\<close>

section \<open>Outcomes\<close>

text \<open>\<open>runs P r\<close>: the call \<open>r\<close> does not diverge, and \<open>P\<close> holds of its result when it does not fault.\<close>

definition runs :: "('a \<Rightarrow> bool) \<Rightarrow> 'a outcome \<Rightarrow> bool" where
  "runs P r \<longleftrightarrow> (case r of Inl e \<Rightarrow> e \<noteq> Diverges | Inr x \<Rightarrow> P x)"

lemma runs_simps [simp]: "runs P (Inr x) \<longleftrightarrow> P x" "runs P (Inl e) \<longleftrightarrow> e \<noteq> Diverges"
  by (simp_all add: runs_def)

lemma runs_bind: "runs P r \<Longrightarrow> (\<And>x. P x \<Longrightarrow> runs Q (k x)) \<Longrightarrow> runs Q (obind r k)"
  by (cases r) auto

lemma runs_mono: "runs P r \<Longrightarrow> (\<And>x. P x \<Longrightarrow> Q x) \<Longrightarrow> runs Q r"
  by (cases r) auto

lemma runs_Inr: "runs P r \<Longrightarrow> r = Inr x \<Longrightarrow> P x"
  by simp

section \<open>Operations on memory\<close>

text \<open>Only memory, cached translations and frames differ.\<close>

definition memory_only :: "'a machine_scheme \<Rightarrow> 'a machine_scheme \<Rightarrow> bool" where
  "memory_only s s' \<longleftrightarrow> s'\<lparr>mem := mem s, tlb := tlb s, frames := frames s\<rparr> = s"

lemma memory_only_refl [simp]: "memory_only s s"
  by (simp add: memory_only_def)

lemma memory_only_trans: "memory_only s s1 \<Longrightarrow> memory_only s1 s2 \<Longrightarrow> memory_only s s2"
proof -
  assume a: "memory_only s s1" "memory_only s1 s2"
  have "s2\<lparr>mem := mem s, tlb := tlb s, frames := frames s\<rparr> =
      (s2\<lparr>mem := mem s1, tlb := tlb s1, frames := frames s1\<rparr>)\<lparr>mem := mem s, tlb := tlb s, frames := frames s\<rparr>"
    by simp
  also have "\<dots> = s" using a unfolding memory_only_def by simp
  finally show ?thesis unfolding memory_only_def .
qed

lemma memory_only_upd [simp]:
  "memory_only s (s'\<lparr>mem := m\<rparr>) \<longleftrightarrow> memory_only s s'" "memory_only s (s'\<lparr>tlb := t\<rparr>) \<longleftrightarrow> memory_only s s'"
  "memory_only s (s'\<lparr>frames := f\<rparr>) \<longleftrightarrow> memory_only s s'"
  by (simp_all add: memory_only_def)

lemma memory_only_flush [simp]: "memory_only s (paging_flush_tlb v s') \<longleftrightarrow> memory_only s s'"
  by (simp add: paging_flush_tlb_def)

lemma memory_only_fields:
  assumes "memory_only s (s' :: 'a procsys_scheme)"
  shows "process_table s' = process_table s" "process_head s' = process_head s"
    "kernel_process s' = kernel_process s" "current_process s' = current_process s"
    "scheduler_cursor s' = scheduler_cursor s" "next_pid s' = next_pid s"
    "process_page_directories s' = process_page_directories s" "current_directory s' = current_directory s"
    "kernel_directory s' = kernel_directory s" "process_bootstrap s' = process_bootstrap s"
  using assms [unfolded memory_only_def]
  by (auto dest: arg_cong [where f = process_table] arg_cong [where f = process_head]
      arg_cong [where f = kernel_process] arg_cong [where f = current_process]
      arg_cong [where f = scheduler_cursor] arg_cong [where f = next_pid]
      arg_cong [where f = process_page_directories] arg_cong [where f = current_directory]
      arg_cong [where f = kernel_directory] arg_cong [where f = process_bootstrap])

abbreviation touches_memory :: "'a machine_scheme \<Rightarrow> 'a machine_scheme outcome \<Rightarrow> bool" where
  "touches_memory s \<equiv> runs (memory_only s)"

lemma touches_bind: "touches_memory s r \<Longrightarrow> (\<And>s'. touches_memory s' (k s')) \<Longrightarrow> touches_memory s (obind r k)"
  by (rule runs_bind, assumption) (blast intro: runs_mono memory_only_trans)

lemma runs_load [simp]: "runs (\<lambda>_. True) (vload32 s v)"
  by (simp add: vload32_def split: option.split)

lemma touches_vstore32 [simp]: "touches_memory s (vstore32 v x s)"
  by (simp add: vstore32_def split: option.split)

lemma touches_vstore8 [simp]: "touches_memory s (vstore8 v x s)"
  by (simp add: vstore8_def split: option.split)

lemma touches_memset [simp]: "touches_memory s (memset_paging p v n s)"
proof (induction p v n s rule: memset_paging.induct)
  case (1 p v n s)
  show ?case
  proof (cases "n = 0")
    case False
    then show ?thesis unfolding memset_paging.simps [of p v n s]
      by (simp add: touches_bind 1)
  qed (simp add: memset_paging.simps [of p v 0 s])
qed

lemma touches_memcpy [simp]: "touches_memory s (process_memcpy d e n s)"
proof (induction d e n s rule: process_memcpy.induct)
  case (1 d e n s)
  show ?case
  proof (cases "n = 0")
    case False
    then show ?thesis unfolding process_memcpy.simps [of d e n s]
      by (cases "translate s e") (auto intro!: touches_bind 1)
  qed (simp add: process_memcpy.simps [of d e 0 s])
qed

lemma runs_bind_load: "(\<And>e. runs Q (k e)) \<Longrightarrow> runs Q (obind (vload32 s v) k)"
  by (rule runs_bind [OF runs_load])

lemma touches_copy_entries: "touches_memory s (copy_entries d e i s)"
proof (induction d e i s rule: copy_entries.induct)
  case (1 d e i s)
  show ?case unfolding copy_entries.simps [of d e i s]
    by (auto intro!: runs_bind_load touches_bind 1)
qed

lemma touches_copy_directory [simp]: "touches_memory s (paging_copy_directory d e s)"
  by (simp add: paging_copy_directory_def touches_bind touches_copy_entries)

lemma touches_get_or_create:
  "runs (\<lambda>r. memory_only s (snd r)) (paging_get_or_create_table d v f s)"
proof -
  let ?P = "\<lambda>r :: u32 \<times> _. memory_only s (snd r)"
  have *: "touches_memory s r \<Longrightarrow> (\<And>s'. memory_only s s' \<Longrightarrow> runs ?P (k s')) \<Longrightarrow> runs ?P (obind r k)" for r k
    by (rule runs_bind)
  have st: "memory_only s s' \<Longrightarrow> touches_memory s (vstore32 a x s')" for s' a x
    by (rule runs_mono [OF touches_vstore32]) (rule memory_only_trans)
  have ms: "memory_only s s' \<Longrightarrow> touches_memory s (memset_paging a x n s')" for s' a x n
    by (rule runs_mono [OF touches_memset]) (rule memory_only_trans)
  show ?thesis
    unfolding paging_get_or_create_table_def Let_def split_beta
    by (auto intro!: runs_bind_load * st ms)
qed

lemma touches_map [simp]: "touches_memory s (paging_map_page_in_directory d v p f s)"
proof -
  have "touches_memory s (obind (paging_get_or_create_table d v f s) (\<lambda>(table, s).
        if table = NULL then Inr s
        else obind (vstore32 (entry_at table (PAGE_TABLE_INDEX v)) ((p AND 0xFFFFF000) OR (f AND 0xFFF)) s) (\<lambda>s.
          Inr (if d = current_directory s then paging_flush_tlb v s else s))))"
    by (rule runs_bind [OF touches_get_or_create])
      (auto intro!: runs_bind [OF touches_vstore32], erule (1) memory_only_trans)
  then show ?thesis unfolding paging_map_page_in_directory_def by simp
qed

lemma touches_unmap [simp]: "touches_memory s (paging_unmap_page_in_directory d v s)"
  unfolding paging_unmap_page_in_directory_def by (auto intro!: runs_bind_load touches_bind)

section \<open>Operations that leave the lists alone\<close>

text \<open>Identity, links and the form of the rings are kept; anything else of a process may change.\<close>

definition benign :: "process \<Rightarrow> process \<Rightarrow> bool" where
  "benign p p' \<longleftrightarrow> pid p' = pid p \<and> used p' = used p \<and> pnext p' = pnext p \<and> parent p' = parent p \<and>
     children p' = children p \<and> next_sibling p' = next_sibling p \<and> (ring_ok p \<longrightarrow> ring_ok p')"

definition keeps :: "'a procsys_scheme \<Rightarrow> 'a procsys_scheme \<Rightarrow> bool" where
  "keeps s s' \<longleftrightarrow> length (process_table s') = length (process_table s) \<and>
     (\<forall>i < length (process_table s). benign (proc s i) (proc s' i)) \<and> process_head s' = process_head s \<and>
     kernel_process s' = kernel_process s \<and> current_process s' = current_process s \<and>
     scheduler_cursor s' = scheduler_cursor s \<and> next_pid s' = next_pid s"

lemma benign_refl [simp]: "benign p p" and benign_trans: "benign p q \<Longrightarrow> benign q r \<Longrightarrow> benign p r"
  by (simp_all add: benign_def)

lemma keeps_refl [simp]: "keeps s s"
  by (simp add: keeps_def)

lemma keeps_trans: "keeps s s1 \<Longrightarrow> keeps s1 s2 \<Longrightarrow> keeps s s2"
  unfolding keeps_def using benign_trans by (metis (no_types, lifting))

lemma keeps_upd: "(\<And>p. benign p (f p)) \<Longrightarrow> keeps s (upd i f s)"
proof -
  assume f: "\<And>p. benign p (f p)"
  have "benign (proc s k) ((process_table s)[i := f (proc s i)] ! k)" if "k < length (process_table s)" for k
    using f [of "proc s i"] that by (cases "k = i") simp_all
  then show ?thesis by (simp add: keeps_def upd_def)
qed

lemma keeps_then: "keeps s s1 \<Longrightarrow> (\<And>p. benign p (f p)) \<Longrightarrow> keeps s (upd i f s1)"
  by (rule keeps_trans, assumption) (rule keeps_upd)

lemma keeps_machine [simp]: "keeps s (s'\<lparr>frames := f\<rparr>) \<longleftrightarrow> keeps s s'" "keeps s (s'\<lparr>pcpu := c\<rparr>) \<longleftrightarrow> keeps s s'"
  "keeps s (s'\<lparr>total_context_switches := n\<rparr>) \<longleftrightarrow> keeps s s'" "keeps s (s'\<lparr>scheduler_context := k\<rparr>) \<longleftrightarrow> keeps s s'"
  "keeps s (s'\<lparr>pending_scheduler_ticks := n\<rparr>) \<longleftrightarrow> keeps s s'" "keeps s (s'\<lparr>total_scheduler_ticks := n\<rparr>) \<longleftrightarrow> keeps s s'"
  "keeps s (s'\<lparr>cr3 := d, tlb := t\<rparr>) \<longleftrightarrow> keeps s s'" "keeps s (s'\<lparr>current_directory := d\<rparr>) \<longleftrightarrow> keeps s s'"
  by (simp_all add: keeps_def)

lemma keeps_memory: "memory_only s s' \<Longrightarrow> keeps s s'"
  by (simp add: keeps_def memory_only_fields)

text \<open>The operations on the memory of process \<open>i\<close> change, of the table, the memory part of slot \<open>i\<close>.\<close>

definition moves :: "nat \<Rightarrow> 'a procsys_scheme \<Rightarrow> 'a procsys_scheme \<Rightarrow> bool" where
  "moves i s s' \<longleftrightarrow> (\<exists>m. process_table s' = (process_table s)[i := (proc s i)\<lparr>pmemory := m\<rparr>]) \<and>
     process_head s' = process_head s \<and> kernel_process s' = kernel_process s \<and>
     current_process s' = current_process s \<and> scheduler_cursor s' = scheduler_cursor s \<and> next_pid s' = next_pid s"

lemma moves_memory: "memory_only s s' \<Longrightarrow> moves i s s'"
  unfolding moves_def by (simp add: memory_only_fields) (intro exI [of _ "pmemory (proc s i)"], simp)

lemma moves_refl [simp]: "moves i s s"
  by (rule moves_memory) simp

lemma moves_trans: "moves i s s1 \<Longrightarrow> moves i s1 s2 \<Longrightarrow> moves i s s2"
  unfolding moves_def by (cases "i < length (process_table s)") (auto simp: list_update_beyond)

lemma moves_keeps: "moves i s s' \<Longrightarrow> keeps s s'"
proof -
  assume m: "moves i s s'"
  then obtain x where x: "process_table s' = (process_table s)[i := (proc s i)\<lparr>pmemory := x\<rparr>]"
    unfolding moves_def by blast
  have "benign (proc s k) (proc s' k)" if "k < length (process_table s)" for k
    unfolding x using that by (cases "k = i") (simp_all add: benign_def ring_ok_def)
  then show ?thesis using m x unfolding moves_def keeps_def by simp
qed

lemma moves_machine [simp]: "moves i s (s'\<lparr>frames := f\<rparr>) \<longleftrightarrow> moves i s s'"
  by (simp add: moves_def)

lemma moves_upd_memory: "moves i s (upd_memory i f s)"
  unfolding moves_def by (auto simp: upd_memory_def upd_def)

lemma moves_then_memory [simp]: "moves i s s1 \<Longrightarrow> moves i s (upd_memory i f s1)"
  by (rule moves_trans, assumption) (rule moves_upd_memory)

lemma moves_run: "touches_memory s1 r \<Longrightarrow> moves i s s1 \<Longrightarrow> runs (moves i s) r"
  by (erule runs_mono) (blast intro: moves_trans moves_memory)

lemma moves_reset_memory [simp]: "moves i s s1 \<Longrightarrow> moves i s (process_reset_memory i s1)"
  by (simp add: process_reset_memory_def)

lemma moves_release_page: "moves i s s1 \<Longrightarrow> runs (moves i s) (release_page d p v s1)"
  unfolding release_page_def by (auto intro!: runs_bind [OF moves_run [OF touches_unmap]])

lemma moves_release_memory: "moves i s s1 \<Longrightarrow> runs (moves i s) (process_release_memory i s1)"
  unfolding process_release_memory_def Let_def
  by (intro runs_bind [OF moves_release_page])
    (auto intro!: moves_run [OF touches_vstore32] runs_bind [where P = "moves i s"])

lemma moves_alloc_page:
  "moves i s s1 \<Longrightarrow> runs (\<lambda>r. moves i s (snd r)) (alloc_process_page i v s1)"
  unfolding alloc_process_page_def Let_def split_beta
  by (auto intro!: runs_bind [OF moves_run [OF touches_map]] runs_bind [OF moves_run [OF touches_memset]])

lemma moves_map_region: "moves i s s1 \<Longrightarrow> runs (\<lambda>r. moves i s (snd r)) (map_region i st f s1)"
  unfolding map_region_def
  by (auto intro!: runs_bind [OF moves_alloc_page] runs_bind [OF moves_release_memory] split: option.split)

lemma moves_memory_map: "moves i s s1 \<Longrightarrow> runs (\<lambda>r. moves i s (snd r)) (process_memory_map i s1)"
  unfolding process_memory_map_def Let_def process_memory_layout_def
  by (intro runs_bind [OF moves_run [OF touches_copy_directory]])
    (auto intro!: moves_then_memory runs_bind [OF moves_map_region] runs_bind_load)

section \<open>The invariant\<close>

definition family :: "process list \<Rightarrow> nat list \<Rightarrow> nat \<Rightarrow> bool" where
  "family t L q \<longleftrightarrow> (\<exists>C. linked next_sibling t (children (t ! q)) C \<and> distinct C \<and> set C \<subseteq> set L \<and>
     (\<forall>c \<in> set C. parent (t ! c) = Some q) \<and> (\<not> used (t ! q) \<longrightarrow> C = []))"

text \<open>
  \<open>X\<close> holds the slots taken but not linked yet: it is empty but for the time of a creation. The
  list begins with the kernel's slot; the cursor and the running process are in it. Children of a
  released process keep its slot as their parent, so a parent is any slot but one's own.
\<close>

definition table_ok :: "nat set \<Rightarrow> nat list \<Rightarrow> 'a procsys_scheme \<Rightarrow> bool" where
  "table_ok X L s \<longleftrightarrow> length (process_table s) = 16 \<and> chain (process_table s) (process_head s) L \<and> distinct L \<and>
     set L = {i. i < 16 \<and> used (proc s i)} - X \<and> kernel_process s = Some 0 \<and> process_head s = Some 0 \<and>
     (\<forall>i < 16. ring_ok (proc s i)) \<and> (\<exists>c \<in> set L. scheduler_cursor s = Some c) \<and>
     (\<exists>c \<in> set L. current_process s = Some c) \<and> inj_on (\<lambda>i. pid (proc s i)) (set L) \<and>
     (\<forall>i \<in> set L. pid (proc s i) < next_pid s) \<and> (\<forall>q < 16. family (process_table s) L q) \<and>
     (\<forall>i \<in> set L. \<forall>q. parent (proc s i) = Some q \<longrightarrow> q < 16 \<and> q \<noteq> i)"

lemma table_okD:
  assumes "table_ok X L s"
  shows "length (process_table s) = 16" "chain (process_table s) (process_head s) L" "distinct L"
    "set L = {i. i < 16 \<and> used (proc s i)} - X" "kernel_process s = Some 0" "process_head s = Some 0"
    "i < 16 \<Longrightarrow> ring_ok (proc s i)" "\<exists>c \<in> set L. scheduler_cursor s = Some c"
    "\<exists>c \<in> set L. current_process s = Some c" "inj_on (\<lambda>i. pid (proc s i)) (set L)"
    "i \<in> set L \<Longrightarrow> pid (proc s i) < next_pid s" "q < 16 \<Longrightarrow> family (process_table s) L q"
    "i \<in> set L \<Longrightarrow> parent (proc s i) = Some q \<Longrightarrow> q < 16 \<and> q \<noteq> i"
  using assms unfolding table_ok_def by blast+

lemma table_ok_bound: "table_ok X L s \<Longrightarrow> i \<in> set L \<Longrightarrow> i < 16"
  using table_okD(4) by fastforce

lemma family_cong:
  assumes "length t' = length t" "children (t' ! q) = children (t ! q)" "used (t' ! q) = used (t ! q)"
    "\<And>i. i \<in> set L \<Longrightarrow> next_sibling (t' ! i) = next_sibling (t ! i) \<and> parent (t' ! i) = parent (t ! i)"
  shows "family t L q \<Longrightarrow> family t' L q"
proof -
  assume "family t L q"
  then obtain C where C: "linked next_sibling t (children (t ! q)) C" "distinct C" "set C \<subseteq> set L"
      "\<forall>c \<in> set C. parent (t ! c) = Some q" "\<not> used (t ! q) \<longrightarrow> C = []"
    unfolding family_def by blast
  have "linked next_sibling t' (children (t ! q)) C = linked next_sibling t (children (t ! q)) C"
    using assms C(3) by (intro linked_cong) auto
  then show ?thesis unfolding family_def using C assms by (intro exI [of _ C]) auto
qed

lemma table_ok_keeps:
  assumes ok: "table_ok X L s" and k: "keeps s s'"
  shows "table_ok X L s'"
proof -
  note D = table_okD [OF ok]
  have b: "benign (proc s i) (proc s' i)" if "i < 16" for i using k that D(1) by (simp add: keeps_def)
  have L: "i \<in> set L \<Longrightarrow> i < 16" for i using D(4) by auto
  have f: "process_head s' = process_head s" "kernel_process s' = kernel_process s"
      "current_process s' = current_process s" "scheduler_cursor s' = scheduler_cursor s"
      "next_pid s' = next_pid s" "length (process_table s') = length (process_table s)"
    using k by (simp_all add: keeps_def)
  have c: "chain (process_table s') (process_head s') L"
    using D(2) b L f linked_cong [of L pnext "process_table s'" "process_table s"] by (simp add: benign_def)
  have u: "set L = {i. i < 16 \<and> used (proc s' i)} - X"
    unfolding D(4) using b by (auto simp: benign_def)
  have p: "inj_on (\<lambda>i. pid (proc s' i)) (set L)"
    using D(10) b L by (simp add: inj_on_def benign_def)
  have fm: "\<forall>q < 16. family (process_table s') L q"
  proof (intro allI impI)
    fix q :: nat assume "q < 16"
    then show "family (process_table s') L q"
      by (intro family_cong [OF _ _ _ _ D(12)]) (use b L f in \<open>auto simp: benign_def\<close>)
  qed
  have r: "\<forall>i < 16. ring_ok (proc s' i)" using D(7) b unfolding benign_def by blast
  have n: "\<forall>i \<in> set L. pid (proc s' i) < next_pid s'" using D(11) b L f(5) by (simp add: benign_def)
  have q: "\<forall>i \<in> set L. \<forall>q. parent (proc s' i) = Some q \<longrightarrow> q < 16 \<and> q \<noteq> i"
    using D(13) b L by (simp add: benign_def)
  have h: "length (process_table s') = 16" "kernel_process s' = Some 0" "process_head s' = Some 0"
      "\<exists>c \<in> set L. scheduler_cursor s' = Some c" "\<exists>c \<in> set L. current_process s' = Some c"
    unfolding f by (fact D)+
  show ?thesis
    unfolding table_ok_def by (intro conjI; fact c u p fm r n q h D(3))
qed

section \<open>Lookups\<close>

lemma get_by_pid_list:
  assumes "table_ok {} L s"
  shows "process_get_by_pid pd s = Inr (List.find (\<lambda>i. pid (proc s i) = pd) L)"
proof -
  have "List.find (\<lambda>i. used (proc s i) \<and> pid (proc s i) = pd) L = List.find (\<lambda>i. pid (proc s i) = pd) L"
    using table_okD(4) [OF assms] by (intro find_cong) auto
  then show ?thesis
    using get_by_pid_chain [OF table_okD(2) [OF assms], of pd] by (simp add: process_get_by_pid_def)
qed

lemma get_by_pid_Some:
  assumes "table_ok {} L s" "i \<in> set L"
  shows "process_get_by_pid (pid (proc s i)) s = Inr (Some i)"
proof -
  obtain j where "List.find (\<lambda>j. pid (proc s j) = pid (proc s i)) L = Some j"
    using assms(2) by (metis (mono_tags, lifting) find_None_iff option.exhaust)
  moreover from this have "j \<in> set L" "pid (proc s j) = pid (proc s i)"
    by (auto simp: find_Some_iff)
  then have "j = i" using table_okD(10) [OF assms(1)] assms(2) by (auto simp: inj_on_def)
  ultimately show ?thesis using get_by_pid_list [OF assms(1)] by simp
qed

lemma get_by_pid_cases:
  assumes "table_ok {} L s"
  obtains (None) "process_get_by_pid pd s = Inr None" "\<forall>i \<in> set L. pid (proc s i) \<noteq> pd"
  | (Some) i where "process_get_by_pid pd s = Inr (Some i)" "i \<in> set L" "pid (proc s i) = pd"
proof (cases "List.find (\<lambda>i. pid (proc s i) = pd) L")
  case None
  then show ?thesis using that(1) get_by_pid_list [OF assms] by (auto simp: find_None_iff)
next
  case (Some i)
  then have "i \<in> set L" "pid (proc s i) = pd" by (auto simp: find_Some_iff)
  then show ?thesis using that(2) get_by_pid_list [OF assms] Some by simp
qed

section \<open>Taking a process out of its lists\<close>

lemma unlink_child_absent:
  "linked next_sibling (process_table s) cursor C \<Longrightarrow> i \<notin> set C \<Longrightarrow> unlink_child_from cursor pv par i s = Some s"
proof (induction C arbitrary: cursor pv)
  case Nil
  then show ?case by (simp add: unlink_child_from.simps [of None])
next
  case (Cons c C)
  then show ?case by (auto simp: unlink_child_from.simps [of "Some c" pv])
qed

lemma unlink_child_chain:
  assumes "linked next_sibling (process_table s) cursor (A @ i # B)" "distinct (A @ i # B)" "pv \<notin> set (A @ i # B)"
  shows "unlink_child_from cursor (Some pv) par i s =
    (let q = last (pv # A); t = process_table s in
     Some (s\<lparr>process_table := (t[q := (t ! q)\<lparr>next_sibling := next_sibling (t ! i)\<rparr>])
       [i := (t ! i)\<lparr>next_sibling := None, parent := None\<rparr>]\<rparr>))"
  using assms
proof (induction A arbitrary: cursor pv)
  case Nil
  then show ?case
    by (simp add: unlink_child_from.simps [of "Some i" "Some pv" par i s] upd_def Let_def)
next
  case (Cons a A)
  have "unlink_child_from cursor (Some pv) par i s = unlink_child_from (next_sibling (proc s a)) (Some a) par i s"
    using Cons.prems by (auto simp: unlink_child_from.simps [of "Some a" "Some pv" par i s])
  moreover have "unlink_child_from (next_sibling (proc s a)) (Some a) par i s =
    (let q = last (a # A); t = process_table s in
     Some (s\<lparr>process_table := (t[q := (t ! q)\<lparr>next_sibling := next_sibling (t ! i)\<rparr>])
       [i := (t ! i)\<lparr>next_sibling := None, parent := None\<rparr>]\<rparr>))"
    using Cons.prems by (intro Cons.IH) auto
  ultimately show ?case by simp
qed

lemma nth_update_two:
  "i < length t \<Longrightarrow> j < length t \<Longrightarrow> t[j := y, i := x] ! k = (if k = i then x else if k = j then y else t ! k)"
  by simp

text \<open>What taking the child \<open>i\<close> away from its parent does to the table.\<close>

definition no_links :: "process \<Rightarrow> process" where
  "no_links p = p\<lparr>pnext := None, children := None, next_sibling := None\<rparr>"

definition unlinked :: "nat \<Rightarrow> nat list \<Rightarrow> process list \<Rightarrow> process list \<Rightarrow> bool" where
  "unlinked i L t t' \<longleftrightarrow> length t' = length t \<and>
     (\<forall>k. pid (t' ! k) = pid (t ! k) \<and> used (t' ! k) = used (t ! k) \<and> pnext (t' ! k) = pnext (t ! k) \<and>
        (ring_ok (t ! k) \<longrightarrow> ring_ok (t' ! k)) \<and> (k \<noteq> i \<longrightarrow> parent (t' ! k) = parent (t ! k) \<and> no_links (t' ! k) = no_links (t ! k))) \<and>
     (\<forall>q < 16. family t' (remove1 i L) q)"

lemma family_remove:
  assumes "family t L q" "parent (t ! i) \<noteq> Some q" "distinct L"
  shows "family t (remove1 i L) q"
  using assms unfolding family_def by fastforce

lemma family_other:
  assumes f: "family t L q'" and i: "parent (t ! i) = Some q" "q' \<noteq> q" "distinct L" and l: "length t' = length t"
    and q: "children (t' ! q') = children (t ! q')" "used (t' ! q') = used (t ! q')"
    and k: "\<And>k. parent (t ! k) \<noteq> Some q \<Longrightarrow> next_sibling (t' ! k) = next_sibling (t ! k) \<and> parent (t' ! k) = parent (t ! k)"
  shows "family t' (remove1 i L) q'"
proof -
  obtain C where C: "linked next_sibling t (children (t ! q')) C" "distinct C" "set C \<subseteq> set L"
      "\<forall>c \<in> set C. parent (t ! c) = Some q'" "\<not> used (t ! q') \<longrightarrow> C = []"
    using f unfolding family_def by blast
  have c: "next_sibling (t' ! c) = next_sibling (t ! c) \<and> parent (t' ! c) = parent (t ! c) \<and> c \<noteq> i" if "c \<in> set C" for c
    using C(4) that i k [of c] by auto
  then have "linked next_sibling t' (children (t ! q')) C" using C(1) l linked_cong [of C next_sibling t' t] by simp
  then show ?thesis unfolding family_def using C c q i(3) by (intro exI [of _ C]) auto
qed

lemma unlink_child_effect:
  assumes ok: "table_ok X L s" and i: "i < 16" "i \<notin> set L \<longrightarrow> parent (proc s i) = None"
  shows "\<exists>t'. process_unlink_child i s = Inr (s\<lparr>process_table := t'\<rparr>) \<and> unlinked i L (process_table s) t'"
proof (cases "parent (proc s i)")
  case None
  then have "unlinked i L (process_table s) (process_table s)"
    unfolding unlinked_def using table_okD(3,12) [OF ok] by (auto intro: family_remove)
  then show ?thesis using None by (intro exI [of _ "process_table s"]) (simp add: process_unlink_child_def)
next
  case (Some q)
  let ?t = "process_table s"
  have q: "q < 16" "q \<noteq> i" using i(2) Some table_okD(13) [OF ok] by auto
  note l = table_okD(1) [OF ok] and d = table_okD(3) [OF ok]
  obtain C where C: "linked next_sibling ?t (children (?t ! q)) C" "distinct C" "set C \<subseteq> set L"
      "\<forall>c \<in> set C. parent (?t ! c) = Some q" "\<not> used (?t ! q) \<longrightarrow> C = []"
    using table_okD(12) [OF ok q(1)] unfolding family_def by blast
  have other: "\<forall>q' < 16. q' \<noteq> q \<longrightarrow> family t' (remove1 i L) q'"
    if "length t' = length ?t" "\<forall>k. k \<noteq> q \<longrightarrow> children (t' ! k) = children (?t ! k)" "\<forall>k. used (t' ! k) = used (?t ! k)"
      "\<forall>k. parent (?t ! k) \<noteq> Some q \<longrightarrow> next_sibling (t' ! k) = next_sibling (?t ! k) \<and> parent (t' ! k) = parent (?t ! k)" for t'
    using that by (intro allI impI family_other [OF table_okD(12) [OF ok] Some _ d]) auto
  consider (absent) "i \<notin> set C" | (first) B where "C = i # B" | (inner) a A B where "C = (a # A) @ i # B"
    by (metis append_Cons append_Nil neq_Nil_conv split_list)
  then show ?thesis
  proof cases
    case absent
    then have "family ?t (remove1 i L) q" unfolding family_def using C d by (intro exI [of _ C]) auto
    then have "unlinked i L ?t ?t" unfolding unlinked_def using other [of ?t] by auto
    then show ?thesis
      using unlink_child_absent [OF C(1) absent] Some
      by (intro exI [of _ ?t]) (simp add: process_unlink_child_def)
  next
    case first
    let ?t' = "(?t[q := (?t ! q)\<lparr>children := next_sibling (?t ! i)\<rparr>])[i := (?t ! i)\<lparr>next_sibling := None, parent := None\<rparr>]"
    have "process_unlink_child i s = Inr (s\<lparr>process_table := ?t'\<rparr>)"
      using C(1) Some q l by (simp add: process_unlink_child_def first unlink_child_from.simps [of "Some i"] upd_def Let_def)
    moreover have "unlinked i L ?t ?t'"
    proof -
      have nth: "?t' ! k = (if k = i then (?t ! i)\<lparr>next_sibling := None, parent := None\<rparr>
          else if k = q then (?t ! q)\<lparr>children := next_sibling (?t ! i)\<rparr> else ?t ! k)" for k
        using i(1) q(1) l by (intro nth_update_two) simp_all
      have il: "i \<notin> set B" using C(2) first by auto
      have "linked next_sibling ?t' (next_sibling (?t ! i)) B = linked next_sibling ?t (next_sibling (?t ! i)) B"
        by (rule linked_cong) (use il in \<open>auto simp: nth\<close>)
      then have "family ?t' (remove1 i L) q"
        unfolding family_def using C first q d il by (intro exI [of _ B]) (auto simp: nth)
      moreover have "\<forall>q' < 16. q' \<noteq> q \<longrightarrow> family ?t' (remove1 i L) q'"
        by (rule other) (use Some in \<open>auto simp: nth\<close>)
      ultimately have "\<forall>q' < 16. family ?t' (remove1 i L) q'" by blast
      then show ?thesis unfolding unlinked_def by (auto simp: nth ring_ok_def no_links_def)
    qed
    ultimately show ?thesis by blast
  next
    case inner
    define p where "p = last (a # A)"
    let ?t' = "(?t[p := (?t ! p)\<lparr>next_sibling := next_sibling (?t ! i)\<rparr>])[i := (?t ! i)\<lparr>next_sibling := None, parent := None\<rparr>]"
    have al: "a \<noteq> i" "distinct (A @ i # B)" "a \<notin> set (A @ i # B)"
      using C(2) inner by auto
    have li: "linked next_sibling ?t (next_sibling (?t ! a)) (A @ i # B)" "children (?t ! q) = Some a"
      using C(1) inner by auto
    have "unlink_child_from (Some a) None q i s = unlink_child_from (next_sibling (?t ! a)) (Some a) q i s"
      using al(1) by (simp add: unlink_child_from.simps [of "Some a"])
    then have "process_unlink_child i s = Inr (s\<lparr>process_table := ?t'\<rparr>)"
      using unlink_child_chain [OF li(1) al(2,3)] li(2) Some by (simp add: process_unlink_child_def Let_def p_def del: last.simps)
    moreover have "unlinked i L ?t ?t'"
    proof -
      obtain D where D: "a # A = D @ [p]" unfolding p_def by (metis append_butlast_last_id list.distinct(1))
      have CD: "C = D @ p # i # B" using inner D by simp
      then have pC: "p \<in> set C" by simp
      have pi: "p \<noteq> i" using C(2) unfolding CD by simp
      have nth: "?t' ! k = (if k = i then (?t ! i)\<lparr>next_sibling := None, parent := None\<rparr>
          else if k = p then (?t ! p)\<lparr>next_sibling := next_sibling (?t ! i)\<rparr> else ?t ! k)" for k
        using i(1) linked_bound [OF C(1) pC] l by (intro nth_update_two) simp_all
      have "linked next_sibling ?t' (children (?t ! q)) (D @ p # B)"
        by (rule linked_unlink [of _ ?t _ _ _ i]) (use C CD pi in \<open>auto simp: nth\<close>)
      then have "family ?t' (remove1 i L) q"
        unfolding family_def using C CD q d by (intro exI [of _ "D @ p # B"]) (auto simp: nth)
      moreover have "\<forall>q' < 16. q' \<noteq> q \<longrightarrow> family ?t' (remove1 i L) q'"
        by (rule other) (use Some C(4) pC in \<open>auto simp: nth\<close>)
      ultimately have "\<forall>q' < 16. family ?t' (remove1 i L) q'" by blast
      then show ?thesis unfolding unlinked_def by (auto simp: nth ring_ok_def no_links_def)
    qed
    ultimately show ?thesis by blast
  qed
qed

lemma unlink_global_absent:
  "chain (process_table s) cursor L \<Longrightarrow> i \<notin> set L \<Longrightarrow> unlink_global_from cursor pv i s = Some s"
proof (induction L arbitrary: cursor pv)
  case Nil
  then show ?case by (simp add: unlink_global_from.simps [of None])
next
  case (Cons c C)
  then show ?case by (auto simp: unlink_global_from.simps [of "Some c" pv])
qed

lemma unlink_global_effect:
  assumes c: "chain (process_table s) (process_head s) L" "distinct L" "process_head s = Some 0" and i: "i \<noteq> 0"
  shows "\<exists>t'. process_unlink_global i s = Inr (s\<lparr>process_table := t'\<rparr>) \<and> length t' = length (process_table s) \<and>
    (\<forall>k. k \<noteq> i \<longrightarrow> t' ! k = (proc s k)\<lparr>pnext := pnext (t' ! k)\<rparr>) \<and>
    chain (t'[i := z]) (process_head s) (remove1 i L)"
proof (cases "i \<in> set L")
  case False
  then have "chain ((process_table s)[i := z]) (process_head s) L"
    by (subst linked_cong [of L pnext _ "process_table s"]) (use c(1) False in \<open>auto intro: arg_cong [where f = pnext] nth_list_update_neq\<close>)
  then show ?thesis
    using unlink_global_absent [OF c(1) False] False
    by (intro exI [of _ "process_table s"]) (simp add: process_unlink_global_def remove1_idem)
next
  case True
  let ?t = "process_table s"
  obtain A B where L0: "L = 0 # A @ i # B"
    using True c(1,3) i by (cases L) (auto dest: split_list)
  then have w: "chain ?t (pnext (?t ! 0)) (A @ i # B)" "distinct (A @ i # B)" "0 \<notin> set (A @ i # B)"
    using c by auto
  define q where "q = last (0 # A)"
  obtain D where D: "0 # A = D @ [q]" unfolding q_def by (metis append_butlast_last_id list.distinct(1))
  have L: "L = D @ q # i # B" using L0 D by simp
  then have qi: "q \<noteq> i" "q \<notin> set D \<union> set B" "i \<notin> set D \<union> set B" using c(2) by auto
  let ?t' = "?t[q := (?t ! q)\<lparr>pnext := pnext (?t ! i)\<rparr>, i := (?t ! i)\<lparr>pnext := None\<rparr>]"
  have b: "i < length ?t" "q < length ?t" using linked_bound [OF c(1)] L by auto
  have nth: "?t' ! k = (if k = i then (?t ! i)\<lparr>pnext := None\<rparr>
      else if k = q then (?t ! q)\<lparr>pnext := pnext (?t ! i)\<rparr> else ?t ! k)" for k
    using b by (rule nth_update_two)
  have "unlink_global_from (Some 0) None i s = unlink_global_from (pnext (?t ! 0)) (Some 0) i s"
    using i by (simp add: unlink_global_from.simps [of "Some 0"])
  then have "process_unlink_global i s = Inr (s\<lparr>process_table := ?t'\<rparr>)"
    using unlink_global_chain [OF w] c(3) by (simp add: process_unlink_global_def Let_def q_def del: last.simps)
  moreover have "chain (?t'[i := z]) (process_head s) (D @ q # B)"
    by (rule linked_unlink [of _ ?t _ _ _ i]) (use c(1) L qi b in \<open>auto simp: nth_update_two\<close>)
  moreover have "remove1 i L = D @ q # B" unfolding L using qi by (simp add: remove1_append)
  ultimately show ?thesis by (intro exI [of _ ?t']) (simp add: nth)
qed

text \<open>
  After a release the slot is blank, the list and the families go on without it, and every other
  process differs in its links at most.
\<close>

definition released :: "nat \<Rightarrow> nat list \<Rightarrow> 'a procsys_scheme \<Rightarrow> 'a procsys_scheme \<Rightarrow> bool" where
  "released i L s s' \<longleftrightarrow> table_ok {} (remove1 i L) s' \<and> proc s' i = zero_process \<and>
     (\<forall>k. k \<noteq> i \<longrightarrow> no_links (proc s' k) = no_links (proc s k)) \<and>
     current_process s' = current_process s \<and> next_pid s' = next_pid s"

lemma release_table:
  assumes ok: "table_ok X L s" and i: "i < 16" "i \<noteq> 0" "X \<subseteq> {i}" "i \<notin> set L \<longrightarrow> parent (proc s i) = None"
    and c: "current_process s \<noteq> Some i" "scheduler_cursor s \<noteq> Some i"
  shows "runs (released i L s) (obind (process_unlink_child i s) (\<lambda>s.
      obind (process_unlink_global i s) (\<lambda>s. Inr (upd i (\<lambda>_. zero_process) s))))"
proof -
  note D = table_okD [OF ok]
  obtain t where t: "process_unlink_child i s = Inr (s\<lparr>process_table := t\<rparr>)" "unlinked i L (process_table s) t"
    using unlink_child_effect [OF ok i(1,4)] by blast
  have u: "length t = 16" "pid (t ! k) = pid (proc s k)" "used (t ! k) = used (proc s k)" "pnext (t ! k) = pnext (proc s k)"
      "ring_ok (proc s k) \<Longrightarrow> ring_ok (t ! k)" "k \<noteq> i \<Longrightarrow> parent (t ! k) = parent (proc s k)"
      "k \<noteq> i \<Longrightarrow> no_links (t ! k) = no_links (proc s k)" "q < 16 \<Longrightarrow> family t (remove1 i L) q" for k q
    using t(2) D(1) unfolding unlinked_def by auto
  have ch: "chain t (process_head s) L" using D(1,2) u(1,4) linked_cong [of L pnext t "process_table s"] by simp
  obtain t' where t': "process_unlink_global i (s\<lparr>process_table := t\<rparr>) = Inr (s\<lparr>process_table := t'\<rparr>)"
      "length t' = 16" "\<forall>k. k \<noteq> i \<longrightarrow> t' ! k = (t ! k)\<lparr>pnext := pnext (t' ! k)\<rparr>"
      "chain (t'[i := zero_process]) (process_head s) (remove1 i L)"
    using unlink_global_effect [of "s\<lparr>process_table := t\<rparr>" L i zero_process] ch D(3,6) i(2) u(1) by auto
  let ?t = "t'[i := zero_process]" and ?L = "remove1 i L"
  have nth: "k \<noteq> i \<Longrightarrow> ?t ! k = (t ! k)\<lparr>pnext := pnext (t' ! k)\<rparr>" "?t ! i = zero_process" for k
    using t'(2,3) i(1) by auto
  have L: "set ?L = set L - {i}" using D(3) by simp
  have f: "pid (?t ! k) = pid (proc s k)" "used (?t ! k) = used (proc s k)" "parent (?t ! k) = parent (proc s k)"
      "ring_ok (proc s k) \<Longrightarrow> ring_ok (?t ! k)" "next_sibling (?t ! k) = next_sibling (t ! k)"
      "children (?t ! k) = children (t ! k)" "no_links (?t ! k) = no_links (proc s k)" if "k \<noteq> i" for k
  proof -
    obtain x where "?t ! k = (t ! k)\<lparr>pnext := x\<rparr>" using nth(1) \<open>k \<noteq> i\<close> by blast
    then show "pid (?t ! k) = pid (proc s k)" "used (?t ! k) = used (proc s k)" "parent (?t ! k) = parent (proc s k)"
      "ring_ok (proc s k) \<Longrightarrow> ring_ok (?t ! k)" "next_sibling (?t ! k) = next_sibling (t ! k)"
      "children (?t ! k) = children (t ! k)" "no_links (?t ! k) = no_links (proc s k)"
      using u(2-7) [of k] \<open>k \<noteq> i\<close> by (simp_all add: ring_ok_def no_links_def)
  qed
  have z: "ring_ok zero_process" "\<not> used zero_process" "children zero_process = None"
    by (simp_all add: zero_process_def ring_ok_def)
  let ?s = "s\<lparr>process_table := ?t\<rparr>"
  have "table_ok {} ?L ?s"
    unfolding table_ok_def
  proof (intro conjI)
    show "set ?L = {k. k < 16 \<and> used (proc ?s k)} - {}"
    proof (rule set_eqI)
      fix k show "k \<in> set ?L \<longleftrightarrow> k \<in> {k. k < 16 \<and> used (proc ?s k)} - {}"
        unfolding L using D(4) i(3) f(2) [of k] nth(2) z(2) by (cases "k = i") auto
    qed
    show "\<forall>k < 16. ring_ok (proc ?s k)"
    proof (intro allI impI)
      fix k :: nat assume "k < 16"
      then show "ring_ok (proc ?s k)" using f(4) [of k] D(7) [of k] nth(2) z(1) by (cases "k = i") auto
    qed
    show "\<forall>q < 16. family (process_table ?s) ?L q"
    proof (intro allI impI)
      fix q :: nat assume q: "q < 16"
      have "family ?t ?L q"
      proof (cases "q = i")
        case True
        then show ?thesis using nth(2) z unfolding family_def by (intro exI [of _ "[]"]) simp
      next
        case False
        show ?thesis
          by (rule family_cong [OF _ _ _ _ u(8) [OF q]]) (use f False L u(1,3,6) t'(2) in auto)
      qed
      then show "family (process_table ?s) ?L q" by simp
    qed
    show "inj_on (\<lambda>k. pid (proc ?s k)) (set ?L)" unfolding L using D(10) f(1) by (auto simp: inj_on_def)
    show "\<forall>k \<in> set ?L. pid (proc ?s k) < next_pid ?s" unfolding L using D(11) f(1) by auto
    show "\<forall>k \<in> set ?L. \<forall>q. parent (proc ?s k) = Some q \<longrightarrow> q < 16 \<and> q \<noteq> k" unfolding L using D(13) f(3) by auto
    show "\<exists>c \<in> set ?L. scheduler_cursor ?s = Some c" "\<exists>c \<in> set ?L. current_process ?s = Some c"
      unfolding L using D(8,9) c by auto
    show "chain (process_table ?s) (process_head ?s) ?L" using t'(4) by simp
  qed (use t'(2) D(3,5,6) in simp_all)
  then have "released i L s ?s" unfolding released_def using nth(2) f(7) by simp
  then show ?thesis using t(1) t'(1) by (simp add: upd_def)
qed

end
