(* ===== verification/Process_Life.thy ===== *)
theory Process_Life
  imports Process_Table
begin

unbundle bit_operations_syntax

text \<open>
  The life of a process: every operation that creates, ends, signals, schedules or reaps processes
  keeps the invariant of the table, and what each does to the processes concerned.
\<close>

section \<open>Release\<close>

lemma table_ok_fields:
  assumes ok: "table_ok X L s" and f: "process_table s' = process_table s" "process_head s' = process_head s"
      "kernel_process s' = kernel_process s"
    and c: "\<forall>i \<in> set L. pid (proc s i) < next_pid s'" "\<exists>c \<in> set L. scheduler_cursor s' = Some c" "\<exists>c \<in> set L. current_process s' = Some c"
  shows "table_ok X L s'"
  using ok c unfolding table_ok_def f by (elim conjE, intro conjI) assumption+

lemma table_ok_cursor: "table_ok X L s \<Longrightarrow> c \<in> set L \<Longrightarrow> table_ok X L (s\<lparr>scheduler_cursor := Some c\<rparr>)"
  by (rule table_ok_fields, assumption) (simp_all add: table_okD(9,11))

lemma table_ok_current: "table_ok X L s \<Longrightarrow> c \<in> set L \<Longrightarrow> table_ok X L (s\<lparr>current_process := Some c\<rparr>)"
  by (rule table_ok_fields, assumption) (simp_all add: table_okD(8,11))

lemma release_ok:
  assumes ok: "table_ok X L s" and i: "i < 16" "i \<noteq> 0" "X \<subseteq> {i}" "i \<notin> set L \<longrightarrow> parent (proc s i) = None"
    and c: "current_process s \<noteq> Some i"
  shows "runs (released i L s) (process_release (Some i) s)"
proof -
  note D = table_okD [OF ok]
  let ?s = "if scheduler_cursor s = Some i then s\<lparr>scheduler_cursor := process_head s\<rparr> else s"
  have "0 \<in> set L" using D(2,6) by (cases L) auto
  then have ok': "table_ok X L ?s" using ok table_ok_cursor [OF ok] D(6) by simp
  have s: "current_process ?s = current_process s" "scheduler_cursor ?s \<noteq> Some i" "process_table ?s = process_table s"
      "length (process_table ?s) = 16" "next_pid ?s = next_pid s"
    using c i D(1,6) by auto
  have "runs (released i L s) (obind (process_release_memory i ?s) (\<lambda>s.
      obind (process_unlink_child i s) (\<lambda>s. obind (process_unlink_global i s) (\<lambda>s.
      Inr (upd i (\<lambda>_. zero_process) s)))))"
  proof (rule runs_bind [OF moves_release_memory [OF moves_refl]])
    fix s' assume m: "moves i ?s s'"
    then obtain x where x: "process_table s' = (process_table s)[i := (proc s i)\<lparr>pmemory := x\<rparr>]"
        "current_process s' = current_process s" "scheduler_cursor s' = scheduler_cursor ?s" "next_pid s' = next_pid s"
      unfolding moves_def s by blast
    have "runs (released i L s') (obind (process_unlink_child i s') (\<lambda>s.
        obind (process_unlink_global i s) (\<lambda>s. Inr (upd i (\<lambda>_. zero_process) s))))"
      using i c s(2) x D(1) by (intro release_table [OF table_ok_keeps [OF ok' moves_keeps [OF m]]]) simp_all
    then show "runs (released i L s) (obind (process_unlink_child i s') (\<lambda>s.
        obind (process_unlink_global i s) (\<lambda>s. Inr (upd i (\<lambda>_. zero_process) s))))"
      by (rule runs_mono) (simp add: released_def x)
  qed
  then show ?thesis using D(5) i(2) by (simp add: process_release_def Let_def)
qed

section \<open>Creation\<close>

lemma allocate_slot_cases:
  assumes "slots \<noteq> [] \<longrightarrow> Max (set slots) < length (process_table s)"
  shows "(fst (allocate_slot_from slots s) = None \<and> snd (allocate_slot_from slots s) = s \<and> (\<forall>i \<in> set slots. used (proc s i))) \<or>
    (\<exists>i \<in> set slots. \<not> used (proc s i) \<and> allocate_slot_from slots s = (Some i, upd i (\<lambda>_. zero_process\<lparr>used := True\<rparr>) s))"
  using assms
proof (induction slots)
  case (Cons i slots)
  then have "i < length (process_table s)" by (simp split: if_splits)
  then show ?case using Cons by (auto simp: upd_def)
qed simp

text \<open>Writing to a slot that is not in the list.\<close>

lemma table_ok_slot:
  assumes ok: "table_ok X L s" and i: "i < 16" "i \<notin> set L" "X \<subseteq> {i}"
    and f: "ring_ok (f (proc s i))" "children (f (proc s i)) = None"
  shows "table_ok {i} L (upd i f s)"
proof -
  note D = table_okD [OF ok]
  have p: "proc (upd i f s) k = (if i = k then f (proc s i) else proc s k)" for k
    using i(1) D(1) by (simp add: proc_upd)
  have n: "k \<in> set L \<Longrightarrow> proc (upd i f s) k = proc s k" for k using i(2) p by auto
  have "chain (process_table (upd i f s)) (process_head s) L"
    by (subst linked_cong [of L pnext _ "process_table s"]) (simp_all add: n D(2))
  moreover have "set L = {k. k < 16 \<and> used (proc (upd i f s) k)} - {i}"
  proof (rule set_eqI)
    fix k show "k \<in> set L \<longleftrightarrow> k \<in> {k. k < 16 \<and> used (proc (upd i f s) k)} - {i}"
      using D(4) i p [of k] by (cases "k = i") auto
  qed
  moreover have "\<forall>k < 16. ring_ok (proc (upd i f s) k)" using D(7) f(1) p by simp
  moreover have "\<forall>q < 16. family (process_table (upd i f s)) L q"
  proof (intro allI impI)
    fix q :: nat assume q: "q < 16"
    show "family (process_table (upd i f s)) L q"
    proof (cases "q = i")
      case True
      then show ?thesis unfolding family_def using p f(2) by (intro exI [of _ "[]"]) simp
    next
      case False
      then show ?thesis by (intro family_cong [OF _ _ _ _ D(12) [OF q]]) (use i(2) in \<open>auto simp: p\<close>)
    qed
  qed
  moreover have "inj_on (\<lambda>k. pid (proc (upd i f s) k)) (set L)" using D(10) n by (simp add: inj_on_def)
  moreover have "\<forall>k \<in> set L. pid (proc (upd i f s) k) < next_pid (upd i f s)" using D(11) n by simp
  moreover have "\<forall>k \<in> set L. \<forall>q. parent (proc (upd i f s) k) = Some q \<longrightarrow> q < 16 \<and> q \<noteq> k" using D(13) n by simp
  ultimately show ?thesis
    unfolding table_ok_def length_upd upd_fields using D(1,3,5,6,8,9) by (intro conjI)
qed

lemma next_pid_less: "(n :: u32) \<noteq> 0xFFFFFFFF \<Longrightarrow> n < n + 1"
proof -
  assume "n \<noteq> 0xFFFFFFFF"
  then have "unat n \<noteq> 4294967295" by (simp add: word_eq_unat)
  then have "unat n + unat (1 :: u32) < 4294967296" using unat_u32_bound [of n] by simp
  then show ?thesis by (simp add: word_less_nat_alt unat_add_exact)
qed

lemma table_ok_next_pid:
  assumes ok: "table_ok X L s" and n: "next_pid s \<noteq> 0xFFFFFFFF"
  shows "table_ok X L (s\<lparr>next_pid := next_pid s + 1\<rparr>)"
proof -
  have "next_pid s < next_pid s + 1" using n by (rule next_pid_less)
  then have "\<forall>k \<in> set L. pid (proc s k) < next_pid s + 1" using table_okD(11) [OF ok] by fastforce
  then show ?thesis by (intro table_ok_fields [OF ok]) (simp_all add: table_okD(8,9) [OF ok])
qed

lemma link_child_eq:
  assumes "q \<noteq> i" "i < length (process_table s)" "q < length (process_table s)"
  shows "process_link_child (Some q) i s =
    upd q (\<lambda>p. p\<lparr>children := Some i\<rparr>) (upd i (\<lambda>p. p\<lparr>parent := Some q, next_sibling := children (proc s q)\<rparr>) s)"
  using assms by (cases "children (proc s q)") (simp_all add: process_link_child_def Let_def upd_def list_update_swap)

lemma ring_ok_links [simp]:
  "ring_ok (p\<lparr>pnext := x\<rparr>) = ring_ok p" "ring_ok (p\<lparr>parent := x\<rparr>) = ring_ok p"
  "ring_ok (p\<lparr>children := x\<rparr>) = ring_ok p" "ring_ok (p\<lparr>next_sibling := x\<rparr>) = ring_ok p"
  by (simp_all add: ring_ok_def)

lemma link_ok:
  assumes ok: "table_ok {i} L s" and i: "i < 16" "i \<notin> set L" "used (proc s i)" "pnext (proc s i) = None"
      "children (proc s i) = None" and q: "q \<in> set L"
    and pd: "pid (proc s i) < next_pid s" "\<forall>k \<in> set L. pid (proc s k) \<noteq> pid (proc s i)"
  shows "\<exists>s'. process_link_global i (process_link_child (Some q) i s) = Inr s' \<and> table_ok {} (L @ [i]) s' \<and>
    proc s' i = (proc s i)\<lparr>parent := Some q, next_sibling := children (proc s q)\<rparr> \<and>
    current_process s' = current_process s"
proof -
  note D = table_okD [OF ok]
  have qi: "q \<noteq> i" "q < 16" using q i(2) D(4) by auto
  let ?s1 = "process_link_child (Some q) i s"
  have s1: "?s1 = upd q (\<lambda>p. p\<lparr>children := Some i\<rparr>)
      (upd i (\<lambda>p. p\<lparr>parent := Some q, next_sibling := children (proc s q)\<rparr>) s)"
    using qi i(1) D(1) by (intro link_child_eq) simp_all
  have p1: "proc ?s1 k = (if k = i then (proc s i)\<lparr>parent := Some q, next_sibling := children (proc s q)\<rparr>
      else if k = q then (proc s q)\<lparr>children := Some i\<rparr> else proc s k)" for k
    unfolding s1 using qi i(1) D(1) by (simp add: proc_upd)
  have h1: "process_head ?s1 = Some 0" "length (process_table ?s1) = 16" "kernel_process ?s1 = Some 0"
      "scheduler_cursor ?s1 = scheduler_cursor s" "current_process ?s1 = current_process s" "next_pid ?s1 = next_pid s"
    unfolding s1 using D(1,5,6) by simp_all
  have c1: "chain (process_table ?s1) (Some 0) L"
    by (subst linked_cong [of L pnext _ "process_table s"]) (use D(1,2,6) h1 i(2) in \<open>auto simp: p1\<close>)
  obtain L0 j where L: "L = L0 @ [j]" using q by (metis empty_iff list.set(1) rev_exhaust)
  have j: "j \<in> set L" "j \<noteq> i" "j < 16" using L i(2) D(4) by auto
  let ?s2 = "upd j (\<lambda>p. p\<lparr>pnext := Some i\<rparr>) ?s1"
  have p2: "proc ?s2 k = (if k = j then (proc ?s1 j)\<lparr>pnext := Some i\<rparr> else proc ?s1 k)" for k
    using j(3) h1(2) by (simp add: proc_upd)
  have f: "pid (proc ?s2 k) = pid (proc s k)" "used (proc ?s2 k) = used (proc s k)"
      "ring_ok (proc ?s2 k) = ring_ok (proc s k)"
      "parent (proc ?s2 k) = (if k = i then Some q else parent (proc s k))"
      "next_sibling (proc ?s2 k) = (if k = i then children (proc s q) else next_sibling (proc s k))"
      "children (proc ?s2 k) = (if k = q then Some i else children (proc s k))"
      "pnext (proc ?s2 k) = (if k = j then Some i else pnext (proc s k))" for k
    unfolding p2 using qi j(2) by (simp_all add: p1)
  have "process_link_global i ?s1 = Inr ?s2"
    using list_tail_chain c1 L h1(1) by (simp add: process_link_global_def)
  moreover have "table_ok {} (L @ [i]) ?s2"
    unfolding table_ok_def length_upd upd_fields
  proof (intro conjI)
    have "linked pnext (process_table ?s2) (Some 0) (L0 @ [j, i])"
      by (rule linked_snoc [where t = "process_table s"])
        (use D(1,2,3,6) L i(1,4) h1(2) j(2) in \<open>auto simp: f\<close>)
    then show "chain (process_table ?s2) (process_head ?s1) (L @ [i])" using L h1(1) by simp
    show "set (L @ [i]) = {k. k < 16 \<and> used (proc ?s2 k)} - {}"
      unfolding f using i(1,3) by (auto simp: D(4))
    show "\<forall>k < 16. ring_ok (proc ?s2 k)" unfolding f using D(7) by blast
    show "inj_on (\<lambda>k. pid (proc ?s2 k)) (set (L @ [i]))"
      unfolding f using D(10) pd(2) i(2) by (auto simp: inj_on_def)
    show "\<forall>k \<in> set (L @ [i]). pid (proc ?s2 k) < next_pid ?s1" unfolding f h1 using D(11) pd(1) by auto
    show "\<forall>k \<in> set (L @ [i]). \<forall>p. parent (proc ?s2 k) = Some p \<longrightarrow> p < 16 \<and> p \<noteq> k"
      unfolding f using D(13) qi i(2) by auto
    show "\<forall>p < 16. family (process_table ?s2) (L @ [i]) p"
    proof (intro allI impI)
      fix p :: nat assume p: "p < 16"
      obtain C where C: "linked next_sibling (process_table s) (children (proc s p)) C" "distinct C" "set C \<subseteq> set L"
          "\<forall>c \<in> set C. parent (proc s c) = Some p" "\<not> used (proc s p) \<longrightarrow> C = []"
        using D(12) [OF p] unfolding family_def by blast
      have iC: "i \<notin> set C" using C(3) i(2) by auto
      have l: "linked next_sibling (process_table ?s2) (children (proc s p)) C"
        by (subst linked_cong [of C next_sibling _ "process_table s"]) (use C(1) h1(2) D(1) iC in \<open>auto simp: f\<close>)
      show "family (process_table ?s2) (L @ [i]) p"
      proof (cases "p = q")
        case True
        have "used (proc s q)" using q D(4) by auto
        then show ?thesis unfolding family_def using C iC l True i(1,2) h1(2)
          by (intro exI [of _ "i # C"]) (auto simp: f)
      next
        case False
        then show ?thesis unfolding family_def using C iC l by (intro exI [of _ C]) (auto simp: f)
      qed
    qed
  qed (use D(1,3,5,6,8,9) i(2) h1 in auto)
  moreover have "proc ?s2 i = (proc s i)\<lparr>parent := Some q, next_sibling := children (proc s q)\<rparr>"
    unfolding p2 p1 using j(2) by simp
  ultimately show ?thesis using h1(5) by (intro exI [of _ ?s2]) simp
qed

text \<open>The slot of a process being created, before it gets its memory.\<close>

definition fresh_process :: "u32 \<Rightarrow> u32 \<Rightarrow> u32 \<Rightarrow> u32 \<Rightarrow> u32 \<Rightarrow> process" where
  "fresh_process pd own base function size' = zero_process\<lparr>used := True, pid := pd, status := READY, owner := own,
     rights := 0xFFFFFFFF, entry := function, signal_handler := DefaultHandler,
     pmemory := zero_memory\<lparr>virtual_base := base, code_size := size'\<rparr>\<rparr>"

lemma upd_upd: "i < length (process_table s) \<Longrightarrow> upd i f (upd i g s) = upd i (\<lambda>p. f (g p)) s"
  by (simp add: upd_def)

lemma upd_next_pid: "upd i f (s\<lparr>next_pid := n\<rparr>) = (upd i f s)\<lparr>next_pid := n\<rparr>"
  by (simp add: upd_def)

text \<open>What follows once the memory is there.\<close>

definition finish_create :: "procptr \<Rightarrow> nat \<Rightarrow> 'a procsys_scheme \<Rightarrow> (procptr \<times> 'a procsys_scheme) outcome" where
  "finish_create par i s =
     obind (process_link_global i (process_link_child par i (process_initialize_context i s))) (\<lambda>s.
     obind (if data_page (pmemory (proc s i)) \<noteq> 0 then vstore32 (data_page (pmemory (proc s i))) 0 s else Inr s) (\<lambda>s.
     obind (if bss_page (pmemory (proc s i)) \<noteq> 0 then vstore32 (bss_page (pmemory (proc s i))) 0 s else Inr s) (\<lambda>s.
     Inr (Some i, s))))"

lemma create_slot:
  assumes "i < length (process_table s)" "process_allocate_slot s = (Some i, upd i (\<lambda>_. zero_process\<lparr>used := True\<rparr>) s)"
  shows "process_create_internal par own base function size' s =
    (let s = (upd i (\<lambda>_. fresh_process (next_pid s) own base function size') s)\<lparr>next_pid := next_pid s + 1\<rparr> in
     obind (process_memory_map i s) (\<lambda>(ok, s).
       if \<not> ok then obind (process_release (Some i) s) (\<lambda>s. Inr (None, s))
       else finish_create par i s))"
proof -
  have "fresh_process (next_pid s) own base function size' =
      zero_process\<lparr>used := True, pid := next_pid s, status := READY, owner := own,
        rights := 0xFFFFFFFF, entry := function, signal_handler := DefaultHandler,
        pmemory := (pmemory zero_process)\<lparr>virtual_base := base, code_size := size'\<rparr>,
        socket := (socket zero_process)\<lparr>socket_head := 0, socket_tail := 0\<rparr>\<rparr>"
    by (simp add: fresh_process_def zero_process_def)
  then show ?thesis
    using assms unfolding process_create_internal_def finish_create_def Let_def
    by (simp add: upd_memory_def socket_create_def upd_next_pid upd_upd)
qed

text \<open>
  A creation by the process in slot \<open>q\<close>: it fails and leaves the list as it was, or the new
  process is at the end of the list.
\<close>

definition created :: "nat \<Rightarrow> u32 \<Rightarrow> u32 \<Rightarrow> nat list \<Rightarrow> 'a procsys_scheme \<Rightarrow> procptr \<times> 'a procsys_scheme \<Rightarrow> bool" where
  "created q own function L s r \<longleftrightarrow>
     (case r of
        (None, s') \<Rightarrow> table_ok {} L s'
      | (Some i, s') \<Rightarrow> table_ok {} (L @ [i]) s' \<and> i \<notin> set L \<and> i \<noteq> 0 \<and> pid (proc s' i) = next_pid s \<and>
          parent (proc s' i) = Some q \<and> status (proc s' i) = READY \<and> owner (proc s' i) = own \<and>
          entry (proc s' i) = function \<and> signal_handler (proc s' i) = DefaultHandler) \<and>
     current_process (snd r) = current_process s \<and> next_pid (snd r) \<in> {next_pid s, next_pid s + 1}"

lemma next_pid_link:
  "next_pid (process_link_child par i s) = next_pid s"
  "process_link_global i s = Inr s' \<Longrightarrow> next_pid s' = next_pid s"
  by (auto simp: process_link_child_def process_link_global_def Let_def upd_def of_walk_def obind_def
      split: option.splits if_splits sum.splits)

lemma finish_create_ok:
  assumes ok: "table_ok {i} L s" and i: "i < 16" "i \<notin> set L" "used (proc s i)" "pnext (proc s i) = None"
      "children (proc s i) = None" and q: "q \<in> set L"
    and pd: "pid (proc s i) < next_pid s" "\<forall>k \<in> set L. pid (proc s k) \<noteq> pid (proc s i)"
  shows "runs (\<lambda>(r, s'). r = Some i \<and> table_ok {} (L @ [i]) s' \<and> current_process s' = current_process s \<and>
      next_pid s' = next_pid s \<and>
      (\<exists>c x. proc s' i = (proc s i)\<lparr>pcontext := c, parent := Some q, next_sibling := x\<rparr>)) (finish_create (Some q) i s)"
proof -
  obtain c where c: "process_initialize_context i s = upd i (\<lambda>p. p\<lparr>pcontext := c\<rparr>) s"
    unfolding process_initialize_context_def Let_def by blast
  let ?s = "upd i (\<lambda>p. p\<lparr>pcontext := c\<rparr>) s"
  have "keeps s ?s" by (rule keeps_upd) (simp add: benign_def ring_ok_def)
  then have ok1: "table_ok {i} L ?s" by (rule table_ok_keeps [OF ok])
  have p1: "proc ?s k = (if i = k then (proc s i)\<lparr>pcontext := c\<rparr> else proc s k)" for k
    using i(1) table_okD(1) [OF ok] by (simp add: proc_upd)
  obtain s2 where s2: "process_link_global i (process_link_child (Some q) i ?s) = Inr s2" "table_ok {} (L @ [i]) s2"
      "proc s2 i = (proc ?s i)\<lparr>parent := Some q, next_sibling := children (proc ?s q)\<rparr>"
      "current_process s2 = current_process ?s"
  proof -
    have "\<forall>k \<in> set L. pid (proc ?s k) \<noteq> pid (proc ?s i)" using pd(2) i(2) p1 by auto
    then show ?thesis using that link_ok [OF ok1 i(1,2) _ _ _ q] i(3-5) pd(1) by (auto simp: p1 [of i])
  qed
  have n2: "next_pid s2 = next_pid s" using next_pid_link(2) [OF s2(1)] by (simp add: next_pid_link(1) upd_def)
  have st: "runs (memory_only s2) (if b then vstore32 a 0 s' else Inr s')" if "memory_only s2 s'" for s' b a
    using that by (auto intro: runs_mono [OF touches_vstore32] memory_only_trans)
  show ?thesis
    unfolding finish_create_def c s2(1) obind_simps
  proof (rule runs_bind [OF st], simp, rule runs_bind [OF st], assumption)
    fix s3 assume m: "memory_only s2 s3"
    then have "table_ok {} (L @ [i]) s3" by (rule table_ok_keeps [OF s2(2) keeps_memory])
    then show "runs (\<lambda>(r, s'). r = Some i \<and> table_ok {} (L @ [i]) s' \<and> current_process s' = current_process s \<and>
        next_pid s' = next_pid s \<and>
        (\<exists>c x. proc s' i = (proc s i)\<lparr>pcontext := c, parent := Some q, next_sibling := x\<rparr>)) (Inr (Some i, s3))"
      using s2(3,4) n2 p1 memory_only_fields [OF m] by auto
  qed
qed

lemma create_ok:
  assumes ok: "table_ok {} L s" and q: "q \<in> set L" and n: "next_pid s \<noteq> 0xFFFFFFFF"
  shows "runs (created q own function L s) (process_create_internal (Some q) own base function size' s)"
proof -
  note D = table_okD [OF ok]
  have "(process_allocate_slot s = (None, s)) \<or>
      (\<exists>i \<in> {1..<16}. \<not> used (proc s i) \<and> process_allocate_slot s = (Some i, upd i (\<lambda>_. zero_process\<lparr>used := True\<rparr>) s))"
    using allocate_slot_cases [of "[1..<16]" s] D(1) unfolding process_allocate_slot_def
    by (auto simp: prod_eq_iff)
  then show ?thesis
  proof
    assume "process_allocate_slot s = (None, s)"
    then show ?thesis using ok by (simp add: process_create_internal_def created_def)
  next
    assume "\<exists>i \<in> {1..<16}. \<not> used (proc s i) \<and> process_allocate_slot s = (Some i, upd i (\<lambda>_. zero_process\<lparr>used := True\<rparr>) s)"
    then obtain i where i: "1 \<le> i" "i < 16" "\<not> used (proc s i)"
        "process_allocate_slot s = (Some i, upd i (\<lambda>_. zero_process\<lparr>used := True\<rparr>) s)" by auto
    have iL: "i \<notin> set L" using i(3) D(4) by auto
    define p where "p = fresh_process (next_pid s) own base function size'"
    have p: "ring_ok p" "children p = None" "pnext p = None" "parent p = None" "used p" "pid p = next_pid s"
        "status p = READY" "owner p = own" "entry p = function" "signal_handler p = DefaultHandler"
      by (simp_all add: p_def fresh_process_def zero_process_def ring_ok_def)
    let ?s = "(upd i (\<lambda>_. p) s)\<lparr>next_pid := next_pid s + 1\<rparr>"
    have ok1: "table_ok {i} L ?s"
      using table_ok_next_pid [OF table_ok_slot [OF ok i(2) iL, of "\<lambda>_. p"]] p n by simp
    have p1: "proc ?s k = (if i = k then p else proc s k)" for k using i(2) D(1) by (simp add: proc_upd)
    have cur: "current_process s \<noteq> Some i" using D(9) iL by auto
    have "runs (created q own function L s) (obind (process_memory_map i ?s) (\<lambda>(ok, s).
       if \<not> ok then obind (process_release (Some i) s) (\<lambda>s. Inr (None, s)) else finish_create (Some q) i s))"
    proof (rule runs_bind [OF moves_memory_map [OF moves_refl]], clarify)
      fix ok s' assume "moves i ?s (snd (ok :: bool, s'))"
      then have m: "moves i ?s s'" by simp
      note ok2 = table_ok_keeps [OF ok1 moves_keeps [OF m]]
      obtain x where x: "process_table s' = (process_table ?s)[i := p\<lparr>pmemory := x\<rparr>]"
          "current_process s' = current_process s" "next_pid s' = next_pid s + 1"
        using m unfolding moves_def p1 by auto
      have pi: "proc s' i = p\<lparr>pmemory := x\<rparr>" "k \<noteq> i \<Longrightarrow> proc s' k = proc s k" for k
        unfolding x(1) using i(2) D(1) by (simp_all add: proc_upd)
      show "runs (created q own function L s) (if \<not> ok then obind (process_release (Some i) s') (\<lambda>s. Inr (None, s))
          else finish_create (Some q) i s')"
      proof (cases ok)
        case True
        have np: "next_pid s < next_pid s + 1" using n by (rule next_pid_less)
        have "runs (\<lambda>(r, s''). r = Some i \<and> table_ok {} (L @ [i]) s'' \<and> current_process s'' = current_process s' \<and>
            next_pid s'' = next_pid s' \<and>
            (\<exists>c x. proc s'' i = (proc s' i)\<lparr>pcontext := c, parent := Some q, next_sibling := x\<rparr>)) (finish_create (Some q) i s')"
        proof (rule finish_create_ok [OF ok2 i(2) iL _ _ _ q])
          show "\<forall>k \<in> set L. pid (proc s' k) \<noteq> pid (proc s' i)"
          proof
            fix k assume k: "k \<in> set L"
            then have "k \<noteq> i" using iL by auto
            then have "pid (proc s' k) < next_pid s" using pi(2) D(11) [OF k] by simp
            then show "pid (proc s' k) \<noteq> pid (proc s' i)" using pi(1) p(6) by simp
          qed
        qed (use pi(1) p x(3) np in simp_all)
        then show ?thesis using True i(1)
          by (auto elim!: runs_mono simp: created_def pi p x(2,3) iL)
      next
        case False
        have "runs (released i L s') (process_release (Some i) s')"
          using i iL cur p pi x(2) by (intro release_ok [OF ok2]) auto
        then show ?thesis using False iL x(2,3)
          by (auto elim!: runs_bind simp: created_def released_def remove1_idem)
      qed
    qed
    then show ?thesis using create_slot [OF _ i(4)] i(2) D(1) by (simp add: p_def)
  qed
qed

section \<open>Operations that keep the lists\<close>

lemma keeps_exit: "keeps s s1 \<Longrightarrow> keeps s (process_exit p code s1)"
  unfolding process_exit_def Let_def
  by (auto split: option.split intro!: keeps_then simp: benign_def ring_ok_def)

lemma keeps_default_handler: "keeps s s1 \<Longrightarrow> keeps s (process_default_signal_handler i sig v s1)"
  unfolding process_default_signal_handler_def Let_def
  by (auto intro!: keeps_exit keeps_then simp: benign_def ring_ok_def)

lemma ring_step: "unat ((x + 1) mod (16 :: u32)) < 16" "unat ((x + 1) mod (8 :: u32)) < 8"
  by (simp_all add: unat_mod)

lemma keeps_queue_signal: "keeps s s1 \<Longrightarrow> keeps s (snd (queue_process_signal p sig v s1))"
  unfolding queue_process_signal_def Let_def split_beta
  by (auto split: option.split intro!: keeps_then simp: benign_def ring_ok_def ring_step)

lemma keeps_take_signal: "keeps s s1 \<Longrightarrow> keeps s (snd (take_process_signal i s1))"
  unfolding take_process_signal_def Let_def
  by (auto intro!: keeps_then simp: benign_def ring_ok_def ring_step)

lemma keeps_socket_recv: "keeps s s1 \<Longrightarrow> keeps s (snd (socket_recv p s1))"
  unfolding socket_recv_def Let_def
  by (auto split: option.split intro!: keeps_then simp: benign_def ring_ok_def ring_step)

lemma keeps_memory_alloc: "keeps s s1 \<Longrightarrow> keeps s (snd (process_memory_alloc p n s1))"
  unfolding process_memory_alloc_def upd_memory_def
  by (auto split: option.split intro!: keeps_then simp: benign_def ring_ok_def)

lemma keeps_mmap: "keeps s s1 \<Longrightarrow> keeps s (snd (process_mmap p n s1))"
  unfolding process_mmap_def Let_def split_beta
  by (auto split: option.split intro!: keeps_memory_alloc)

lemma keeps_signal_handler: "keeps s s1 \<Longrightarrow> keeps s (snd (process_signal p h s1))"
  unfolding process_signal_def by (auto split: option.split intro!: keeps_then simp: benign_def ring_ok_def)

lemma keeps_yield: "keeps s s1 \<Longrightarrow> keeps s (process_yield regs s1)"
  unfolding process_yield_def Let_def process_context_switch_from_def
  by (auto split: option.split intro!: keeps_then simp: benign_def ring_ok_def)

section \<open>Signals\<close>

text \<open>
  What a handler installed by a process must do for the table to stay in order and for delivery
  to end: it keeps the lists and does not queue more signals for the process it runs for.
\<close>

definition handlers_ok :: "(u32 \<Rightarrow> nat \<Rightarrow> i32 \<Rightarrow> u32 \<Rightarrow> 'a procsys_scheme \<Rightarrow> 'a procsys_scheme) \<Rightarrow> bool" where
  "handlers_ok user \<longleftrightarrow> (\<forall>f i sig v s. keeps s (user f i sig v s) \<and>
     signal_items i (user f i sig v s) = signal_items i s)"

lemma signal_items_upd:
  "pending_process_signals (f (proc s j)) = pending_process_signals (proc s j) \<Longrightarrow>
   psignal_head (f (proc s j)) = psignal_head (proc s j) \<Longrightarrow> psignal_tail (f (proc s j)) = psignal_tail (proc s j) \<Longrightarrow>
   signal_items i (upd j f s) = signal_items i s"
  by (cases "i = j"; cases "j < length (process_table s)") (simp_all add: signal_items_def upd_def list_update_beyond)

lemma signal_items_exit: "signal_items i (process_exit p code s) = signal_items i s"
  by (auto simp: process_exit_def Let_def signal_items_upd split: option.split)

lemma handle_signal:
  assumes "handlers_ok user"
  shows "keeps s (handle_process_signal user i x s)" "signal_items i (handle_process_signal user i x s) = signal_items i s"
proof -
  let ?s = "upd i (\<lambda>p. p\<lparr>last_signal := psignal x, last_signal_value := pvalue x\<rparr>) s"
  have 1: "keeps s ?s" by (rule keeps_upd) (simp add: benign_def ring_ok_def)
  have u: "keeps ?s (user f i (psignal x) (pvalue x) ?s)" "signal_items i (user f i (psignal x) (pvalue x) ?s) = signal_items i ?s" for f
    using assms by (auto simp: handlers_ok_def)
  have 2: "signal_items i (process_default_signal_handler i (psignal x) (pvalue x) ?s) = signal_items i s"
    by (simp add: process_default_signal_handler_def Let_def signal_items_exit signal_items_upd)
  show "keeps s (handle_process_signal user i x s)"
    unfolding handle_process_signal_def Let_def
    using 1 keeps_trans [OF 1 u(1)] by (auto split: signal_handler_ptr.split intro: keeps_default_handler)
  show "signal_items i (handle_process_signal user i x s) = signal_items i s"
    unfolding handle_process_signal_def Let_def
    using u(2) 2 by (auto split: signal_handler_ptr.split simp: signal_items_upd)
qed

lemma slot_ok_keeps: "keeps s s' \<Longrightarrow> slot_ok i s \<Longrightarrow> slot_ok i s'"
  by (simp add: slot_ok_def keeps_def benign_def)

lemma deliver_returns:
  assumes u: "handlers_ok user"
  shows "slot_ok i s \<Longrightarrow> \<exists>n s'. deliver_from user i d s = Some (n, s') \<and> keeps s s'"
proof (induction "length (signal_items i s)" arbitrary: d s rule: less_induct)
  case less
  note ok = less.prems
  show ?case
  proof (cases "signal_items i s")
    case Nil
    then have "psignal_head (proc s i) = psignal_tail (proc s i)"
      using ring_count_zero [OF signal_index(1,2) [OF ok]] signal_index(7) [OF ok]
      by (auto simp: signal_items_def ring_items_def)
    then show ?thesis by (simp add: deliver_from.simps [of user i d s])
  next
    case (Cons x xs)
    note t = take_signal [OF ok Cons]
    let ?s1 = "snd (take_process_signal i s)"
    let ?s2 = "handle_process_signal user i x ?s1"
    note h = handle_signal [OF u, where i = i and x = x and s = "?s1"]
    have k1: "keeps s ?s1" by (rule keeps_take_signal) simp
    then have k: "keeps s ?s2" using h(1) by (rule keeps_trans)
    have "\<exists>n s'. deliver_from user i (d + 1) ?s2 = Some (n, s') \<and> keeps ?s2 s'"
      using less.hyps [of ?s2 "d + 1"] h(2) t(2) Cons slot_ok_keeps [OF h(1) t(3)] by simp
    then show ?thesis
      using t(1,4) k by (auto simp: deliver_from.simps [of user i d s] split_beta Let_def intro: keeps_trans)
  qed
qed

section \<open>Every operation keeps the invariant\<close>

definition proc_ok :: "'a procsys_scheme \<Rightarrow> bool" where
  "proc_ok s \<longleftrightarrow> (\<exists>L. table_ok {} L s)"

lemma proc_ok_keeps: "proc_ok s \<Longrightarrow> keeps s s' \<Longrightarrow> proc_ok s'"
  unfolding proc_ok_def using table_ok_keeps by blast

lemma proc_ok_release:
  assumes "table_ok {} L s" "i \<in> set L" "current_process s \<noteq> Some i"
  shows "runs proc_ok (process_release (Some i) s)"
proof (cases "i = 0")
  case True
  then show ?thesis using assms(1) table_okD(5) [OF assms(1)] by (auto simp: process_release_def proc_ok_def)
next
  case False
  then show ?thesis
    using release_ok [OF assms(1) table_ok_bound [OF assms(1,2)] False _ _ assms(3)] assms(2)
    by (auto elim!: runs_mono simp: released_def proc_ok_def)
qed

lemma proc_ok_wait:
  assumes ok: "proc_ok s"
  shows "runs (\<lambda>(r, c, s'). proc_ok s') (process_wait (current_process s) pd s)"
proof -
  obtain L where L: "table_ok {} L s" using ok by (auto simp: proc_ok_def)
  obtain q where q: "current_process s = Some q" "q \<in> set L" using table_okD(9) [OF L] by blast
  have k: "keeps s (upd j f s) \<Longrightarrow> proc_ok (upd j f s)" for j f by (rule proc_ok_keeps [OF ok])
  have k2: "keeps s (upd j f (upd j g s))" if "\<And>p. benign p (f p)" "\<And>p. benign p (g p)" for j f g
    using that by (intro keeps_then keeps_refl)
  show ?thesis
  proof (cases rule: get_by_pid_cases [OF L, where pd = pd, case_names None Some])
    case None
    then show ?thesis using ok by (simp add: process_wait_def)
  next
    case (Some c)
    let ?s = "if status (proc s q) = WAITING then upd q (\<lambda>p. p\<lparr>status := THREAD\<rparr>) s else s"
    have ks: "keeps s ?s" by (auto intro!: keeps_then simp: benign_def ring_ok_def)
    then have L': "table_ok {} L ?s" by (rule table_ok_keeps [OF L])
    have rel: "runs proc_ok (process_release (Some c) ?s)" if "q \<noteq> 0 \<longrightarrow> parent (proc s c) = Some q"
    proof (cases "c = q")
      case True
      then have "q = 0" using that table_okD(13) [OF L Some(2)] by auto
      then show ?thesis using True L' table_okD(5) [OF L'] by (auto simp: process_release_def proc_ok_def)
    next
      case False
      then show ?thesis using q(1) by (intro proc_ok_release [OF L' Some(2)]) auto
    qed
    have b: "benign p (p\<lparr>wait_target_pid := pd\<rparr>)" "benign p (p\<lparr>status := st\<rparr>)" for p st
      by (simp_all add: benign_def ring_ok_def)
    show ?thesis
      using Some q(1) ok rel table_okD(5) [OF L] proc_ok_keeps [OF ok keeps_upd] proc_ok_keeps [OF ok k2] b
      unfolding process_wait_def Some(1) obind_simps
      by (auto simp: Let_def intro!: runs_bind)
  qed
qed

lemma proc_ok_send_signal:
  assumes "proc_ok s" shows "runs (\<lambda>r. proc_ok (snd r)) (send_signal_to_process p pd sig v s)"
proof -
  obtain L where L: "table_ok {} L s" using assms by (auto simp: proc_ok_def)
  show ?thesis
    unfolding send_signal_to_process_def get_by_pid_list [OF L]
    using assms proc_ok_keeps [OF assms keeps_queue_signal [OF keeps_refl]] by auto
qed

lemma proc_ok_socket_send:
  assumes "proc_ok s" shows "runs (\<lambda>r. proc_ok (snd r)) (socket_send p pd v s)"
proof -
  obtain L where L: "table_ok {} L s" using assms by (auto simp: proc_ok_def)
  have "keeps s (upd j (\<lambda>p. p\<lparr>socket := (socket p)\<lparr>socket_tail := (x + 1) mod 8\<rparr>\<rparr>)
      (upd j (\<lambda>p. p\<lparr>socket := (socket p)\<lparr>socket_values := (socket_values (socket p))[n p := v]\<rparr>\<rparr>) s))" for j x n
    by (intro keeps_then keeps_refl) (auto simp: benign_def ring_ok_def ring_step)
  note k = keeps_queue_signal [OF this]
  show ?thesis
    unfolding socket_send_def get_by_pid_list [OF L]
    using assms by (auto simp: Let_def split: option.split intro: proc_ok_keeps k)
qed

lemma proc_ok_created: "created q own f L s r \<Longrightarrow> proc_ok (snd r)"
  by (auto simp: created_def proc_ok_def split: prod.splits option.splits)

lemma creator_eq: "table_ok {} L s \<Longrightarrow> current_process s = Some q \<Longrightarrow> creator s = Some q"
  by (simp add: creator_def)

lemma proc_ok_create:
  assumes ok: "proc_ok s" and n: "next_pid s \<noteq> 0xFFFFFFFF"
  shows "runs (\<lambda>r. proc_ok (snd r)) (process_create_owned own f size' s)"
    "runs (\<lambda>r. proc_ok (snd r)) (exec_fn addr f size' s)"
proof -
  obtain L where L: "table_ok {} L s" using ok by (auto simp: proc_ok_def)
  obtain q where q: "current_process s = Some q" "q \<in> set L" using table_okD(9) [OF L] by blast
  have "runs (\<lambda>r. proc_ok (snd r)) (process_create_internal (creator s) o' a f size' s)" for o' a
    unfolding creator_eq [OF L q(1)] by (rule runs_mono [OF create_ok [OF L q(2) n]]) (rule proc_ok_created)
  then show "runs (\<lambda>r. proc_ok (snd r)) (process_create_owned own f size' s)"
    "runs (\<lambda>r. proc_ok (snd r)) (exec_fn addr f size' s)"
    by (simp_all add: process_create_owned_def exec_fn_def Let_def)
qed

lemma keeps_memcpy: "keeps s s1 \<Longrightarrow> runs (keeps s) (process_memcpy a b c s1)"
  by (rule runs_mono [OF touches_memcpy]) (blast intro: keeps_trans keeps_memory)

lemma keeps_fork_copy: "runs (keeps s) (fork_copy src c s)"
  unfolding fork_copy_def Let_def upd_memory_def
  by (intro runs_bind [OF keeps_memcpy] keeps_then keeps_refl) (auto intro!: keeps_then simp: benign_def ring_ok_def)

lemma proc_ok_fork:
  assumes ok: "proc_ok s" and n: "next_pid s \<noteq> 0xFFFFFFFF" and src: "used (proc s src)" "src < 16"
  shows "runs (\<lambda>r. proc_ok (snd r)) (fork_process (Some src) s)"
proof -
  obtain L where L: "table_ok {} L s" using ok by (auto simp: proc_ok_def)
  have q: "src \<in> set L" using src table_okD(4) [OF L] by simp
  have "runs (\<lambda>r. proc_ok (snd r)) (obind (fork_copy src c s') (\<lambda>s. Inr (Some c, s)))" if "proc_ok s'" for c s'
    by (rule runs_bind [OF keeps_fork_copy]) (simp add: proc_ok_keeps [OF that])
  then show ?thesis
    using ok unfolding fork_process_def
    by (auto intro!: runs_bind [OF create_ok [OF L q n]] dest!: proc_ok_created split: option.split)
qed

section \<open>The scheduler\<close>

lemma pick_next_list:
  assumes L: "table_ok {} L s" and c: "scheduler_cursor s = Some c" and e: "scheduler_enabled s"
  shows "pick_next_process s = Inr (List.find (\<lambda>i. runnable (proc s i)) (after c L))"
proof -
  note D = table_okD [OF L]
  have cL: "c \<in> set L" using D(8) c by auto
  then obtain A B where AB: "L = A @ c # B" "c \<notin> set A" by (metis split_list_first)
  have a: "after c L = B @ A @ [c]" using after_split AB by simp
  have "c \<notin> set B" using D(3) AB(1) by simp
  then have "after c L \<noteq> []" "last (after c L) = c" "c \<notin> set (butlast (after c L))"
    using AB(2) by (simp_all add: a butlast_append)
  then have "pick_from (process_table s) 0 c c = Some (List.find (\<lambda>i. runnable (proc s i)) (after c L))"
    using D(2,3,6) cL by (intro pick_from_steps after_steps) auto
  then show ?thesis using c e D(6) by (simp add: pick_next_process_def)
qed

lemma set_after: "c \<in> set L \<Longrightarrow> set (after c L) = set L"
proof -
  assume "c \<in> set L"
  then obtain A B where "L = A @ c # B" "c \<notin> set A" by (metis split_list_first)
  then show ?thesis using after_split by auto
qed

lemma pick_next_cases:
  assumes L: "table_ok {} L s"
  obtains (None) "pick_next_process s = Inr None"
  | (Some) i where "pick_next_process s = Inr (Some i)" "i \<in> set L" "runnable (proc s i)"
proof (cases "scheduler_enabled s")
  case True
  obtain c where c: "scheduler_cursor s = Some c" "c \<in> set L" using table_okD(8) [OF L] by blast
  note p = pick_next_list [OF L c(1) True]
  show ?thesis
  proof (cases "List.find (\<lambda>i. runnable (proc s i)) (after c L)")
    case None
    then show ?thesis using that(1) p by simp
  next
    case (Some i)
    then have "i \<in> set (after c L)" "runnable (proc s i)" by (auto simp: find_Some_iff)
    then show ?thesis using that(2) p Some set_after [OF c(2)] by simp
  qed
qed (use that(1) in \<open>simp add: pick_next_process_def\<close>)

text \<open>
  What a process may do while it runs: anything that keeps the invariant and comes back to the
  scheduler.
\<close>

definition run_ok :: "(nat \<Rightarrow> 'a procsys_scheme \<Rightarrow> 'a procsys_scheme outcome) \<Rightarrow> bool" where
  "run_ok run \<longleftrightarrow> (\<forall>i s. proc_ok s \<longrightarrow> runs proc_ok (run i s))"

lemma keeps_switch_directory: "keeps s s1 \<Longrightarrow> keeps s (paging_switch_directory d s1)"
  by (simp add: paging_switch_directory_def load_page_directory_def)

lemma keeps_kernel_space: "keeps s s1 \<Longrightarrow> keeps s (process_switch_to_kernel_space s1)"
  by (simp add: process_switch_to_kernel_space_def keeps_switch_directory split: option.split)

lemma proc_ok_current:
  assumes "proc_ok s" shows "proc_ok (s\<lparr>current_process := kernel_process s\<rparr>)"
proof -
  obtain L where L: "table_ok {} L s" using assms by (auto simp: proc_ok_def)
  have "0 \<in> set L" using table_okD(2,6) [OF L] by (cases L) auto
  then show ?thesis using table_ok_current [OF L] table_okD(5) [OF L] by (auto simp: proc_ok_def)
qed

lemma proc_ok_resume:
  assumes r: "run_ok run" and ok: "proc_ok s"
  shows "runs proc_ok (resume_process run regs i s)"
proof -
  have b: "benign p (p\<lparr>status := st, cpu_ticks := a, run_count := c\<rparr>)" "benign p (p\<lparr>switch_count := a\<rparr>)"
      "benign p (p\<lparr>status := st\<rparr>)" for p st a c by (simp_all add: benign_def ring_ok_def)
  have run: "runs proc_ok (run i s')" if "keeps s s'" for s'
    using r proc_ok_keeps [OF ok that] by (simp add: run_ok_def)
  have ret: "proc_ok (upd i (\<lambda>p. p\<lparr>status := READY\<rparr>) (process_switch_to_kernel_space s'))"
      "proc_ok (process_switch_to_kernel_space s')" if "proc_ok s'" for s'
    using b by (auto intro!: proc_ok_keeps [OF that] keeps_then keeps_kernel_space)
  show ?thesis
    unfolding resume_process_def Let_def
    using ok by (auto intro!: runs_bind [OF run] ret keeps_switch_directory keeps_then b)
qed

lemma deliver_slot:
  assumes "handlers_ok user" "table_ok X L s" "i < 16"
  obtains n s' where "deliver_process_signal user (Some i) s = Some (n, s')" "keeps s s'"
proof -
  have "slot_ok i s" using table_okD(1,7) [OF assms(2)] assms(3) by (simp add: slot_ok_def)
  then show thesis using that deliver_returns [OF assms(1), of i s 0] by (auto simp: deliver_process_signal_def)
qed

lemma proc_ok_schedule:
  assumes u: "handlers_ok user" and r: "run_ok run" and ok: "proc_ok s"
  shows "runs (\<lambda>r. proc_ok (snd r)) (schedule_next_process user run regs s)"
proof -
  obtain L where L: "table_ok {} L s" using ok by (auto simp: proc_ok_def)
  show ?thesis
  proof (cases rule: pick_next_cases [OF L])
    case 1
    then show ?thesis using ok by (simp add: schedule_next_process_def)
  next
    case (2 i)
    let ?s = "s\<lparr>scheduler_cursor := Some i, current_process := Some i\<rparr>"
    have L1: "table_ok {} L ?s" using table_ok_current [OF table_ok_cursor [OF L 2(2)] 2(2)] .
    obtain n s1 where s1: "deliver_process_signal user (Some i) ?s = Some (n, s1)" "keeps ?s s1"
      using deliver_slot [OF u L1 table_ok_bound [OF L1 2(2)]] .
    then have "proc_ok s1" using L1 by (auto simp: proc_ok_def intro: table_ok_keeps)
    then show ?thesis
      unfolding schedule_next_process_def 2(1) obind_simps
      using s1(1) by (auto intro!: runs_bind [OF proc_ok_resume [OF r]] proc_ok_current simp: Let_def)
  qed
qed

text \<open>Delivery to all processes walks the list while handlers run.\<close>

lemma deliver_all_list:
  assumes u: "handlers_ok user"
  shows "table_ok {} L s \<Longrightarrow> L = A @ B \<Longrightarrow> chain (process_table s) p B \<Longrightarrow>
    \<exists>s'. deliver_all_from user p s = Some s' \<and> keeps s s'"
proof (induction B arbitrary: p A s)
  case Nil
  then show ?case by (simp add: deliver_all_from.simps [of user None])
next
  case (Cons i B)
  have i: "p = Some i" "i < 16" using Cons.prems table_okD(1) [OF Cons.prems(1)] by auto
  let ?d = "if used (proc s i) \<and> psignal_head (proc s i) \<noteq> psignal_tail (proc s i)
      then deliver_process_signal user (Some i) s else Some (0, s)"
  obtain n s1 where s1: "?d = Some (n, s1)" "keeps s s1"
    using deliver_slot [OF u Cons.prems(1) i(2)] keeps_refl [of s] by metis
  have "chain (process_table s1) (pnext (proc s1 i)) B"
  proof -
    have b: "pnext (proc s1 k) = pnext (proc s k)" if "k < 16" for k
      using s1(2) that table_okD(1) [OF Cons.prems(1)] by (simp add: keeps_def benign_def)
    have "k < 16" if "k \<in> set B" for k using that table_ok_bound [OF Cons.prems(1)] Cons.prems(2) by auto
    then have "chain (process_table s1) (pnext (proc s i)) B = chain (process_table s) (pnext (proc s i)) B"
      using b s1(2) by (intro linked_cong) (simp_all add: keeps_def)
    then show ?thesis using Cons.prems(3) b i by simp
  qed
  then have "\<exists>s'. deliver_all_from user (pnext (proc s1 i)) s1 = Some s' \<and> keeps s1 s'"
    using Cons.prems(2) by (intro Cons.IH [of s1 "A @ [i]"] table_ok_keeps [OF Cons.prems(1) s1(2)]) simp_all
  then show ?case
    using s1 i(1) by (auto simp: deliver_all_from.simps [of user "Some i" s] intro: keeps_trans)
qed

lemma proc_ok_deliver_all:
  assumes u: "handlers_ok user" and ok: "proc_ok s"
  shows "runs proc_ok (process_deliver_all_pending_signals user s)"
proof -
  obtain L where L: "table_ok {} L s" using ok by (auto simp: proc_ok_def)
  obtain s' where "deliver_all_from user (process_head s) s = Some s'" "keeps s s'"
    using deliver_all_list [OF u L, of "[]" L] table_okD(2) [OF L] by auto
  then show ?thesis using proc_ok_keeps [OF ok] by (simp add: process_deliver_all_pending_signals_def)
qed

lemma proc_ok_run_pending:
  "handlers_ok user \<Longrightarrow> run_ok run \<Longrightarrow> proc_ok s \<Longrightarrow>
     runs (\<lambda>r. proc_ok (snd r)) (run_pending_from user run regs m n s)"
proof (induction user run regs m n s rule: run_pending_from.induct)
  case (1 user run regs m n s)
  have ok: "proc_ok (s\<lparr>pending_scheduler_ticks := k\<rparr>)" for k by (rule proc_ok_keeps [OF 1(4)]) simp
  show ?case
  proof (cases "0 < pending_scheduler_ticks s \<and> n < m")
    case True
    have "runs (\<lambda>r. proc_ok (snd r)) (obind (process_deliver_all_pending_signals user
        (s\<lparr>pending_scheduler_ticks := pending_scheduler_ticks s - 1\<rparr>)) (\<lambda>s.
        obind (schedule_next_process user run regs s) (\<lambda>(_, s). run_pending_from user run regs m (n + 1) s)))"
      using 1(1) [OF True refl 1(2,3)]
      by (auto intro!: runs_bind [OF proc_ok_deliver_all [OF 1(2) ok]] runs_bind [OF proc_ok_schedule [OF 1(2,3)]])
    then show ?thesis using True by (simp add: run_pending_from.simps [of user run regs m n s] Let_def)
  next
    case False
    then show ?thesis using 1(4) by (auto simp: run_pending_from.simps [of user run regs m n s])
  qed
qed

end
