(* ===== verification/Paging_Spec.thy ===== *)
theory Paging_Spec
  imports Paging PMM_Boot
begin

unbundle bit_operations_syntax

text \<open>
  What the paging functions do to address spaces: the arithmetic of indices and entries, the
  well-formedness of a directory, the effect of writing one entry on every translation, and the
  properties of initialisation, mapping, unmapping and lookup.
\<close>

section \<open>Indices and entries\<close>

lemma unat_and_mask: "unat ((x :: u32) AND mask n) = unat x mod 2 ^ n"
proof -
  have "unat (x AND mask n) = unat (take_bit n x)" by (simp add: take_bit_eq_mask)
  also have "\<dots> = take_bit n (unat x)" by (simp add: unsigned_take_bit_eq)
  finally show ?thesis by (simp add: take_bit_eq_mod)
qed

lemma index_mask: "(1023 :: u32) = mask 10" "(4095 :: u32) = mask 12"
  by (simp_all add: mask_eq_exp_minus_1)

lemma unat_PAGE_DIR_INDEX: "unat (PAGE_DIR_INDEX v) = unat v div 0x400000"
proof -
  have "unat (PAGE_DIR_INDEX v) = unat v div 0x400000 mod 1024"
    by (simp add: PAGE_DIR_INDEX_def index_mask unat_and_mask unat_drop_bit_u32)
  then show ?thesis using unat_u32_bound [of v] by simp
qed

lemma unat_PAGE_TABLE_INDEX: "unat (PAGE_TABLE_INDEX v) = unat v div 4096 mod 1024"
  by (simp add: PAGE_TABLE_INDEX_def index_mask unat_and_mask unat_drop_bit_u32)

lemma unat_PAGE_OFFSET: "unat (PAGE_OFFSET v) = unat v mod 4096"
  by (simp add: PAGE_OFFSET_def index_mask unat_and_mask)

lemma frame_mask: "(0xFFFFF000 :: u32) = NOT (mask 12)"
  by (simp add: mask_eq_exp_minus_1)

lemma PAGE_FRAME_eq: "PAGE_FRAME e = PAGE_ALIGN_DOWN e"
  by (simp only: PAGE_FRAME_def PAGE_ALIGN_DOWN_def frame_mask) (simp add: mask_eq_exp_minus_1)

lemma index_bounds: "unat (PAGE_DIR_INDEX v) < 1024" "unat (PAGE_TABLE_INDEX v) < 1024"
  using unat_u32_bound [of v] by (simp_all add: unat_PAGE_DIR_INDEX unat_PAGE_TABLE_INDEX)

lemma same_page_iff:
  "PAGE_ALIGN_DOWN v = PAGE_ALIGN_DOWN w \<longleftrightarrow>
     PAGE_DIR_INDEX v = PAGE_DIR_INDEX w \<and> PAGE_TABLE_INDEX v = PAGE_TABLE_INDEX w"
proof -
  have d: "n div 0x400000 = n div 4096 div 1024" for n :: nat by (simp add: div_mult2_eq [symmetric])
  have q: "a = b \<longleftrightarrow> a div 1024 = b div 1024 \<and> a mod 1024 = b mod 1024" for a b :: nat
    by (metis div_mult_mod_eq)
  have "PAGE_ALIGN_DOWN v = PAGE_ALIGN_DOWN w \<longleftrightarrow> unat v div 4096 = unat w div 4096"
    by (simp add: word_eq_unat unat_PAGE_ALIGN_DOWN minus_mod_eq_div_mult)
  then show ?thesis
    by (simp add: word_eq_unat unat_PAGE_DIR_INDEX unat_PAGE_TABLE_INDEX d q [of "unat v div 4096"])
qed

text \<open>Entries: the present bit, and a frame combined with flags.\<close>

lemma present_bit: "present e \<longleftrightarrow> bit e 0"
  unfolding present_def bit_0 and_one_eq by (simp add: even_iff_mod_2_eq_zero)

lemma bit_page_mask: "bit (0xFFFFF000 :: u32) n \<longleftrightarrow> 12 \<le> n \<and> n < 32"
  by (simp only: frame_mask bit_not_iff bit_mask_iff) auto

lemma bit_PAGE_FRAME: "bit (PAGE_FRAME e) n \<longleftrightarrow> bit e n \<and> 12 \<le> n"
  unfolding PAGE_FRAME_def bit_and_iff bit_page_mask by (auto dest: bit_imp_le_length)

lemma bit_offset: "bit ((f :: u32) AND 0xFFF) n \<longleftrightarrow> bit f n \<and> n < 12"
  unfolding index_mask bit_and_iff bit_mask_iff by (auto dest: bit_imp_le_length)

lemma frame_entry:
  "PAGE_FRAME ((p AND 0xFFFFF000) OR (f AND 0xFFF)) = PAGE_FRAME p"
  "present ((p AND 0xFFFFF000) OR (f AND 0xFFF)) \<longleftrightarrow> present f"
proof -
  have p: "p AND 0xFFFFF000 = PAGE_FRAME p" by (simp only: PAGE_FRAME_def)
  show "PAGE_FRAME ((p AND 0xFFFFF000) OR (f AND 0xFFF)) = PAGE_FRAME p"
    unfolding p by (rule bit_word_eqI) (simp only: bit_PAGE_FRAME bit_or_iff bit_offset, auto)
  show "present ((p AND 0xFFFFF000) OR (f AND 0xFFF)) \<longleftrightarrow> present f"
    unfolding p present_bit bit_PAGE_FRAME bit_or_iff bit_offset by simp
qed

lemma flag_entry:
  assumes "unat f < 4096"
  shows "PAGE_FRAME (e OR f) = PAGE_FRAME e"
proof (rule bit_word_eqI)
  have "f = f AND 0xFFF"
    using assms by (simp add: word_eq_unat index_mask unat_and_mask)
  then have "\<not> bit f n" if "12 \<le> n" for n using bit_offset [of f n] that by simp
  then show "bit (PAGE_FRAME (e OR f)) n = bit (PAGE_FRAME e) n" for n
    by (auto simp: bit_PAGE_FRAME bit_or_iff)
qed

lemma present_or: "present (e OR f) \<longleftrightarrow> present e \<or> present f"
  by (simp add: present_bit bit_or_iff)

lemma present_flags: "present 3" "present 7" "present 1" "\<not> present 0"
  by (simp_all add: present_def)

text \<open>Pages below 16 MiB other than page 0, where tables live.\<close>

definition low_page :: "u32 \<Rightarrow> bool" where
  "low_page b \<longleftrightarrow> 0 < unat b \<and> unat b mod 4096 = 0 \<and> unat b + 4096 \<le> 0x1000000"

lemma PAGE_FRAME_aligned: "unat b mod 4096 = 0 \<Longrightarrow> PAGE_FRAME b = b"
  by (simp add: PAGE_FRAME_eq word_eq_unat unat_PAGE_ALIGN_DOWN)

lemma low_page_frame [simp]: "low_page b \<Longrightarrow> PAGE_FRAME b = b"
  by (simp add: low_page_def PAGE_FRAME_aligned)

lemma unat_entry_at:
  "low_page b \<Longrightarrow> unat i < 1024 \<Longrightarrow> unat (entry_at b i) = unat b + 4 * unat i"
proof -
  assume "low_page b" "unat i < 1024"
  moreover from this have "unat (4 * i) = 4 * unat i" by (simp add: unat_mult_exact)
  ultimately show ?thesis by (simp add: entry_at_def unat_add_exact low_page_def)
qed

lemma low_page_apart:
  assumes "low_page b" "low_page c" "b \<noteq> c"
  shows "unat b + 4096 \<le> unat c \<or> unat c + 4096 \<le> unat b"
proof -
  obtain p q where pq: "unat b = 4096 * p" "unat c = 4096 * q"
    using assms by (auto simp: low_page_def elim!: dvdE simp flip: dvd_eq_mod_eq_0)
  moreover have "p \<noteq> q" using assms(3) pq by (auto simp: word_eq_unat)
  ultimately show ?thesis by linarith
qed

lemma load32_store32_nat:
  assumes "unat a + 4 \<le> unat b \<or> unat b + 4 \<le> unat a" "unat a < 0x1000000" "unat b < 0x1000000"
  shows "load32 (store32 a v m) b = load32 m b"
proof (rule load32_store32_other)
  have "a \<noteq> b" using assms(1) by auto
  then have "unat (a - b) + unat (b - a) = 4294967296" by (rule unat_distances)
  moreover have "unat b + 4 \<le> unat a \<and> unat (a - b) = unat a - unat b \<or>
      unat a + 4 \<le> unat b \<and> unat (b - a) = unat b - unat a"
    using assms(1) by (auto simp: unat_sub_exact word_le_unat)
  ultimately have "4 \<le> unat (a - b) \<and> 4 \<le> unat (b - a)"
    using assms(2,3) by auto
  then show "outside a 4 b" "outside b 4 a" by (simp_all add: outside_def)
qed

lemma load_entry_store:
  assumes "low_page b" "low_page c" "unat i < 1024" "unat j < 1024"
  shows "load32 (store32 (entry_at b i) v m) (entry_at c j) =
    (if b = c \<and> i = j then v else load32 m (entry_at c j))"
proof (cases "b = c \<and> i = j")
  case False
  have u: "unat (entry_at b i) = unat b + 4 * unat i" "unat (entry_at c j) = unat c + 4 * unat j"
    using assms by (simp_all add: unat_entry_at)
  have "unat (entry_at b i) + 4 \<le> unat (entry_at c j) \<or> unat (entry_at c j) + 4 \<le> unat (entry_at b i)"
  proof (cases "b = c")
    case True
    then have "unat i \<noteq> unat j" using False by (simp add: word_eq_unat)
    then show ?thesis using u True by auto
  next
    case ne: False
    then show ?thesis using low_page_apart [OF assms(1,2)] u assms(3,4) by auto
  qed
  moreover have "unat (entry_at b i) < 0x1000000" "unat (entry_at c j) < 0x1000000"
    using u assms by (auto simp: low_page_def)
  ultimately show ?thesis using False by (subst load32_store32_nat) auto
qed simp

section \<open>Directories\<close>

abbreviation pde :: "memory \<Rightarrow> u32 \<Rightarrow> u32 \<Rightarrow> u32" where
  "pde m d i \<equiv> load32 m (entry_at d i)"

text \<open>The frames a directory names as tables.\<close>

definition table_of :: "memory \<Rightarrow> u32 \<Rightarrow> u32 \<Rightarrow> u32" where
  "table_of m d i = PAGE_FRAME (pde m d i)"

definition tables :: "memory \<Rightarrow> u32 \<Rightarrow> u32 set" where
  "tables m d = table_of m d ` {i. unat i < 1024 \<and> present (pde m d i)}"

text \<open>
  A well-formed directory: it and its tables are pages below 16 MiB, the tables are different from
  it and from each other.
\<close>

definition dir_wf :: "memory \<Rightarrow> u32 \<Rightarrow> bool" where
  "dir_wf m d \<longleftrightarrow> low_page d \<and>
     (\<forall>i. unat i < 1024 \<longrightarrow> present (pde m d i) \<longrightarrow> low_page (table_of m d i) \<and> table_of m d i \<noteq> d) \<and>
     (\<forall>i j. unat i < 1024 \<longrightarrow> unat j < 1024 \<longrightarrow> present (pde m d i) \<longrightarrow> present (pde m d j) \<longrightarrow>
        table_of m d i = table_of m d j \<longrightarrow> i = j)"

lemma dir_wfD:
  assumes "dir_wf m d"
  shows "low_page d"
    "unat i < 1024 \<Longrightarrow> present (pde m d i) \<Longrightarrow> low_page (table_of m d i)"
    "unat i < 1024 \<Longrightarrow> present (pde m d i) \<Longrightarrow> table_of m d i \<noteq> d"
    "unat i < 1024 \<Longrightarrow> unat j < 1024 \<Longrightarrow> present (pde m d i) \<Longrightarrow> present (pde m d j) \<Longrightarrow>
       table_of m d i = table_of m d j \<Longrightarrow> i = j"
  using assms unfolding dir_wf_def by blast+

lemma walk_eq:
  "walk m d v = (if present (pde m d (PAGE_DIR_INDEX v)) \<and>
       present (load32 m (entry_at (table_of m d (PAGE_DIR_INDEX v)) (PAGE_TABLE_INDEX v)))
     then Some (PAGE_FRAME (load32 m (entry_at (table_of m d (PAGE_DIR_INDEX v)) (PAGE_TABLE_INDEX v)))
       OR PAGE_OFFSET v) else None)"
  by (simp add: walk_def table_of_def Let_def)

text \<open>
  A directory is read the same in two memories that agree on its entries and on the entries of its
  tables.
\<close>

lemma walk_cong:
  assumes "\<And>i. unat i < 1024 \<Longrightarrow> pde m' d i = pde m d i"
    and "\<And>i j. unat i < 1024 \<Longrightarrow> unat j < 1024 \<Longrightarrow> present (pde m d i) \<Longrightarrow>
      load32 m' (entry_at (table_of m d i) j) = load32 m (entry_at (table_of m d i) j)"
  shows "walk m' d v = walk m d v"
proof -
  let ?i = "PAGE_DIR_INDEX v"
  have "pde m' d ?i = pde m d ?i" using assms(1) index_bounds by blast
  moreover from this have "table_of m' d ?i = table_of m d ?i" by (simp add: table_of_def)
  ultimately show ?thesis using assms(2) [of ?i "PAGE_TABLE_INDEX v"] index_bounds [of v]
    by (auto simp: walk_eq)
qed

lemma dir_wf_cong: "(\<And>i. unat i < 1024 \<Longrightarrow> pde m' d i = pde m d i) \<Longrightarrow> dir_wf m' d = dir_wf m d"
  by (simp add: dir_wf_def table_of_def cong: conj_cong imp_cong)

lemma tables_cong:
  "(\<And>i. unat i < 1024 \<Longrightarrow> present (pde m' d i) = present (pde m d i)) \<Longrightarrow>
   (\<And>i. unat i < 1024 \<Longrightarrow> table_of m' d i = table_of m d i) \<Longrightarrow> tables m' d = tables m d"
  unfolding tables_def by (rule image_cong) auto

text \<open>Writing an entry of a page that is neither the directory nor one of its tables.\<close>

lemma store_elsewhere:
  assumes "dir_wf m d" "low_page b" "b \<noteq> d" "b \<notin> tables m d" "unat i < 1024"
  shows "walk (store32 (entry_at b i) e m) d v = walk m d v"
    "dir_wf (store32 (entry_at b i) e m) d"
    "tables (store32 (entry_at b i) e m) d = tables m d"
proof -
  let ?m = "store32 (entry_at b i) e m"
  have p: "pde ?m d j = pde m d j" if "unat j < 1024" for j
    using load_entry_store [of b d i j e m] dir_wfD(1) [OF assms(1)] assms that by simp
  then show "dir_wf ?m d" using assms(1) dir_wf_cong by blast
  show "tables ?m d = tables m d" using p by (intro tables_cong) (simp_all add: table_of_def)
  show "walk ?m d v = walk m d v"
  proof (rule walk_cong [OF p])
    fix k j :: u32 assume k: "unat k < 1024" "unat j < 1024" "present (pde m d k)"
    then have "table_of m d k \<noteq> b" using assms(4) by (auto simp: tables_def)
    then show "load32 ?m (entry_at (table_of m d k) j) = load32 m (entry_at (table_of m d k) j)"
      using load_entry_store [of b "table_of m d k" i j e m] dir_wfD(2) [OF assms(1)] assms k by auto
  qed
qed

text \<open>Writing one entry of a table changes the translation of exactly one page.\<close>

lemma store_pte:
  fixes va e m d
  defines "T \<equiv> table_of m d (PAGE_DIR_INDEX va)"
  assumes wf: "dir_wf m d" and pr: "present (pde m d (PAGE_DIR_INDEX va))"
  defines "m' \<equiv> store32 (entry_at T (PAGE_TABLE_INDEX va)) e m"
  shows "walk m' d v = (if PAGE_ALIGN_DOWN v = PAGE_ALIGN_DOWN va
      then (if present e then Some (PAGE_FRAME e OR PAGE_OFFSET v) else None) else walk m d v)"
    and "dir_wf m' d" and "tables m' d = tables m d" and "unat i < 1024 \<Longrightarrow> pde m' d i = pde m d i"
proof -
  note ib = index_bounds
  have T: "low_page T" "T \<noteq> d" using dir_wfD(2,3) [OF wf ib(1) pr] by (simp_all add: T_def)
  show p: "pde m' d i = pde m d i" if "unat i < 1024" for i
    using load_entry_store [OF T(1) dir_wfD(1) [OF wf] ib(2) that] T(2) by (simp add: m'_def)
  then show "dir_wf m' d" using wf dir_wf_cong by blast
  show "tables m' d = tables m d" using p by (intro tables_cong) (simp_all add: table_of_def)
  let ?i = "PAGE_DIR_INDEX v" and ?j = "PAGE_TABLE_INDEX v"
  have pv: "pde m' d ?i = pde m d ?i" using p ib by blast
  then have tv: "table_of m' d ?i = table_of m d ?i" by (simp add: table_of_def)
  show "walk m' d v = (if PAGE_ALIGN_DOWN v = PAGE_ALIGN_DOWN va
      then (if present e then Some (PAGE_FRAME e OR PAGE_OFFSET v) else None) else walk m d v)"
  proof (cases "present (pde m d ?i)")
    case False
    then have "?i \<noteq> PAGE_DIR_INDEX va" using pr by auto
    then show ?thesis using False pv by (simp add: walk_eq same_page_iff)
  next
    case True
    have "table_of m d ?i = T \<longleftrightarrow> ?i = PAGE_DIR_INDEX va"
      using dir_wfD(4) [OF wf ib(1) ib(1) True pr] by (auto simp: T_def)
    then have "load32 m' (entry_at (table_of m d ?i) ?j) =
        (if PAGE_ALIGN_DOWN v = PAGE_ALIGN_DOWN va then e else load32 m (entry_at (table_of m d ?i) ?j))"
      using load_entry_store [OF T(1) dir_wfD(2) [OF wf ib(1) True] ib(2) ib(2)]
      by (auto simp: m'_def same_page_iff)
    then show ?thesis using True pv tv by (simp add: walk_eq)
  qed
qed

text \<open>Changing flag bits of a present directory entry changes no translation.\<close>

lemma store_pde_flags:
  assumes wf: "dir_wf m d" and i: "unat i < 1024" and pr: "present (pde m d i)"
    and e: "present e" "PAGE_FRAME e = PAGE_FRAME (pde m d i)"
  shows "walk (store32 (entry_at d i) e m) d v = walk m d v"
    "dir_wf (store32 (entry_at d i) e m) d"
    "tables (store32 (entry_at d i) e m) d = tables m d"
proof -
  let ?m = "store32 (entry_at d i) e m"
  have low: "low_page d" by (rule dir_wfD(1) [OF wf])
  have p: "pde ?m d j = (if i = j then e else pde m d j)" if "unat j < 1024" for j
    using load_entry_store [OF low low i that] by simp
  then have pp: "present (pde ?m d j) = present (pde m d j)" "table_of ?m d j = table_of m d j"
    if "unat j < 1024" for j using that pr e by (auto simp: table_of_def)
  show "dir_wf ?m d" using wf pp unfolding dir_wf_def by simp
  show "tables ?m d = tables m d" using pp by (intro tables_cong) simp_all
  have "load32 ?m (entry_at (table_of m d k) j) = load32 m (entry_at (table_of m d k) j)"
    if "unat k < 1024" "unat j < 1024" "present (pde m d k)" for k j
    using load_entry_store [OF low dir_wfD(2) [OF wf that(1,3)] i that(2)] dir_wfD(3) [OF wf that(1,3)]
    by auto
  then show "walk ?m d v = walk m d v"
    using pp [OF index_bounds(1)] index_bounds [of v] by (auto simp: walk_eq)
qed

text \<open>A fresh table: a cleared page entered into the directory.\<close>

lemma byte_of_entry:
  assumes "low_page c" "unat j < 1024" "k < 4"
  shows "unat (entry_at c j + word_of_nat k) = unat c + 4 * unat j + k"
proof -
  have "unat (word_of_nat k :: u32) = k" using assms(3) by (simp add: unat_of_nat)
  then show ?thesis using assms unat_entry_at [OF assms(1,2)] by (simp add: unat_add_exact low_page_def)
qed

lemma page_byte:
  assumes "low_page t" "unat x < 0x1000000"
  shows "unat (x - t) < 4096 \<longleftrightarrow> unat t \<le> unat x \<and> unat x < unat t + 4096"
proof (cases "unat t \<le> unat x")
  case True
  then show ?thesis by (auto simp: unat_sub_exact word_le_unat)
next
  case False
  then have "unat (t - x) = unat t - unat x" "t \<noteq> x" by (auto simp: unat_sub_exact word_le_unat)
  moreover from this(2) have "unat (t - x) + unat (x - t) = 4294967296" by (rule unat_distances)
  moreover have "unat t \<le> 0x1000000" using assms(1) by (simp add: low_page_def)
  ultimately have "\<not> unat (x - t) < 4096" using False by linarith
  then show ?thesis using False by simp
qed

lemma entry_byte_in_page:
  assumes "low_page t" "low_page c" "unat j < 1024" "k < 4"
  shows "unat (entry_at c j + word_of_nat k - t) < 4096 \<longleftrightarrow> c = t"
proof -
  have x: "unat (entry_at c j + word_of_nat k) = unat c + 4 * unat j + k"
    using byte_of_entry assms by blast
  then have "unat (entry_at c j + word_of_nat k) < 0x1000000"
    using assms by (simp add: low_page_def)
  from page_byte [OF assms(1) this] show ?thesis
    using x low_page_apart [OF assms(1,2)] assms(3,4) by (cases "c = t") auto
qed

text \<open>Two memories that differ inside the page \<open>t\<close> only.\<close>

definition same_but :: "u32 \<Rightarrow> memory \<Rightarrow> memory \<Rightarrow> bool" where
  "same_but t m m' \<longleftrightarrow> (\<forall>x. \<not> unat (x - t) < 4096 \<longrightarrow> m' x = m x)"

lemma load_entry_same_but:
  assumes "same_but t m m'" "low_page t" "low_page c" "unat j < 1024" "c \<noteq> t"
  shows "load32 m' (entry_at c j) = load32 m (entry_at c j)"
  using assms(1) entry_byte_in_page [OF assms(2-4)] assms(5)
  by (intro load32_cong) (auto simp: same_but_def)

lemma page_elsewhere:
  assumes "same_but t m m'" "dir_wf m d" "low_page t" "t \<noteq> d" "t \<notin> tables m d"
  shows "walk m' d v = walk m d v" "unat i < 1024 \<Longrightarrow> pde m' d i = pde m d i"
proof -
  show p: "pde m' d i = pde m d i" if "unat i < 1024" for i
    using load_entry_same_but [OF assms(1,3) dir_wfD(1) [OF assms(2)] that] assms(4) by simp
  show "walk m' d v = walk m d v"
  proof (rule walk_cong [OF p])
    fix k j :: u32 assume k: "unat k < 1024" "unat j < 1024" "present (pde m d k)"
    then have "table_of m d k \<noteq> t" using assms(5) by (auto simp: tables_def)
    then show "load32 m' (entry_at (table_of m d k) j) = load32 m (entry_at (table_of m d k) j)"
      using load_entry_same_but [OF assms(1,3) dir_wfD(2) [OF assms(2) k(1,3)] k(2)] by simp
  qed
qed

lemma memset_same_but: "same_but t m (memset t v 4096 m)"
  by (simp add: same_but_def memset_byte)

lemmas memset_elsewhere = page_elsewhere [OF memset_same_but]

lemma load_entry_memset:
  assumes "low_page t" "unat j < 1024"
  shows "load32 (memset t 0 4096 m) (entry_at t j) = 0"
proof -
  have b: "memset t 0 4096 m (entry_at t j + word_of_nat k) = 0" if "k < 4" for k
    using entry_byte_in_page [OF assms(1,1,2) that] by (simp add: memset_byte)
  show ?thesis using b [of 0] b [of 1] b [of 2] b [of 3] by (simp add: load32_def)
qed

lemma new_table:
  fixes m d t i e
  defines "m' \<equiv> store32 (entry_at d i) e (memset t 0 4096 m)"
  assumes wf: "dir_wf m d" and t: "low_page t" "t \<noteq> d" "t \<notin> tables m d"
    and i: "unat i < 1024" "\<not> present (pde m d i)" and e: "present e" "PAGE_FRAME e = t"
  shows "walk m' d v = walk m d v" "dir_wf m' d" "tables m' d = insert t (tables m d)"
    "unat j < 1024 \<Longrightarrow> pde m' d j = (if i = j then e else pde m d j)"
proof -
  have low: "low_page d" by (rule dir_wfD(1) [OF wf])
  show p: "pde m' d j = (if i = j then e else pde m d j)" if "unat j < 1024" for j
    using load_entry_store [OF low low i(1) that] memset_elsewhere(2) [OF wf t that] by (simp add: m'_def)
  have tab: "table_of m' d j = (if i = j then t else table_of m d j)" if "unat j < 1024" for j
    using p [OF that] e by (simp add: table_of_def)
  have not_t: "table_of m d j \<noteq> t" if "unat j < 1024" "present (pde m d j)" for j
    using t(3) that by (auto simp: tables_def)
  show "dir_wf m' d"
    unfolding dir_wf_def using low p tab t(1,2) not_t dir_wfD [OF wf] i e(1) by auto
  have "{j. unat j < 1024 \<and> present (pde m' d j)} = insert i {j. unat j < 1024 \<and> present (pde m d j)}"
    using p i e(1) by auto
  then show "tables m' d = insert t (tables m d)" using tab i by (auto simp: tables_def image_iff)
  let ?i = "PAGE_DIR_INDEX v" and ?j = "PAGE_TABLE_INDEX v"
  note ib = index_bounds [of v]
  show "walk m' d v = walk m d v"
  proof (cases "?i = i")
    case True
    have "load32 m' (entry_at t ?j) = 0"
      using load_entry_store [OF low t(1) i(1) ib(2)] load_entry_memset [OF t(1) ib(2)] t(2)
      by (auto simp: m'_def)
    then show ?thesis using True tab [OF ib(1)] i(2) by (simp add: walk_eq present_flags)
  next
    case False
    have "walk m' d v = walk (memset t 0 4096 m) d v"
    proof -
      have "load32 m' (entry_at (table_of m d ?i) ?j) = load32 (memset t 0 4096 m) (entry_at (table_of m d ?i) ?j)"
        if "present (pde m d ?i)"
        using load_entry_store [OF low dir_wfD(2) [OF wf ib(1) that] i(1) ib(2)] dir_wfD(3) [OF wf ib(1) that]
        by (auto simp: m'_def)
      moreover have "table_of (memset t 0 4096 m) d ?i = table_of m d ?i"
        using memset_elsewhere(2) [OF wf t ib(1)] by (simp add: table_of_def)
      ultimately show ?thesis
        using False p [OF ib(1)] tab [OF ib(1)] memset_elsewhere(2) [OF wf t ib(1)] by (auto simp: walk_eq)
    qed
    then show ?thesis using memset_elsewhere(1) [OF wf t] by simp
  qed
qed

section \<open>The running kernel's address space\<close>

definition low_identity :: "memory \<Rightarrow> u32 \<Rightarrow> bool" where
  "low_identity m d \<longleftrightarrow> (\<forall>v. unat v < 0x1000000 \<longrightarrow> walk m d v = Some v)"

definition paging_ok :: "'a paging_scheme \<Rightarrow> bool" where
  "paging_ok s \<longleftrightarrow> cr0 s AND CR0_PG \<noteq> 0 \<and> cr3 s = current_directory s \<and> current_directory s \<noteq> NULL \<and>
     dir_wf (mem s) (cr3 s) \<and> low_identity (mem s) (cr3 s) \<and> pmm_ok (frames s) \<and>
     (\<forall>t \<in> insert (cr3 s) (tables (mem s) (cr3 s)). unat t div 4096 \<in> used_set (frames s))"

lemma paging_okD:
  assumes "paging_ok s"
  shows "cr0 s AND CR0_PG \<noteq> 0" "cr3 s = current_directory s" "current_directory s \<noteq> NULL"
    "dir_wf (mem s) (cr3 s)" "low_identity (mem s) (cr3 s)" "pmm_ok (frames s)" "low_page (cr3 s)"
    "PAGE_FRAME (cr3 s) = cr3 s"
    "t = cr3 s \<or> t \<in> tables (mem s) (cr3 s) \<Longrightarrow> unat t div 4096 \<in> used_set (frames s)"
  using assms dir_wfD(1) [of "mem s" "cr3 s"] unfolding paging_ok_def by auto

lemma translate_walk: "paging_ok s \<Longrightarrow> translate s v = walk (mem s) (current_directory s) v"
  using paging_okD(1,2,8) [of s] by (simp add: translate_def)

text \<open>
  Accesses below 16 MiB reach the memory they name, as long as the walk of the loaded directory is
  the identity there.
\<close>

definition low_access :: "'a machine_scheme \<Rightarrow> bool" where
  "low_access s \<longleftrightarrow> (\<forall>v. unat v < 0x1000000 \<longrightarrow> translate s v = Some v)"

lemma paging_ok_low_access: "paging_ok s \<Longrightarrow> low_access s"
  using paging_okD(2,5) [of s] by (simp add: low_access_def translate_walk low_identity_def)

lemma low_entry: "low_page b \<Longrightarrow> unat i < 1024 \<Longrightarrow> unat (entry_at b i) < 0x1000000"
  by (simp add: unat_entry_at low_page_def)

lemma vload32_low: "low_access s \<Longrightarrow> low_page b \<Longrightarrow> unat i < 1024 \<Longrightarrow>
    vload32 s (entry_at b i) = Inr (load32 (mem s) (entry_at b i))"
  by (simp add: vload32_def low_access_def low_entry)

lemma vstore32_low: "low_access s \<Longrightarrow> low_page b \<Longrightarrow> unat i < 1024 \<Longrightarrow>
    vstore32 (entry_at b i) x s = Inr (s\<lparr>mem := store32 (entry_at b i) x (mem s)\<rparr>)"
  by (simp add: vstore32_def low_access_def low_entry)

lemma memset_paging_run:
  assumes t: "low_page t"
    and acc: "\<And>m. same_but t (mem s) m \<Longrightarrow> low_access (s\<lparr>mem := m\<rparr>)"
    and m: "same_but t (mem s) m" and p: "unat t \<le> unat p" "unat p + unat n \<le> unat t + 4096"
  shows "memset_paging p v n (s\<lparr>mem := m\<rparr>) = Inr (s\<lparr>mem := memset p v n m\<rparr>)"
  using m p
proof (induction p v n m rule: memset.induct)
  case (1 p v n m)
  show ?case
  proof (cases "n = 0")
    case True
    then show ?thesis by (simp add: memset_paging.simps [of p v 0] memset.simps [of p v 0 m])
  next
    case False
    then have n: "0 < unat n" "unat (n - 1) = unat n - 1" by (simp_all add: unat_gt_0 unat_dec)
    have low: "unat p < 0x1000000" using 1(3,4) n t by (simp add: low_page_def)
    have "vstore8 p v (s\<lparr>mem := m\<rparr>) = Inr (s\<lparr>mem := store8 p v m\<rparr>)"
      using acc [OF 1(2)] low by (simp add: vstore8_def low_access_def)
    moreover have "unat (p - t) < 4096"
      using page_byte [OF t low] 1(3,4) n by simp
    then have "same_but t (mem s) (store8 p v m)" using 1(2) by (auto simp: same_but_def store8_def)
    moreover have "unat (p + 1) = unat p + 1" using low by (simp add: unat_add_exact)
    ultimately show ?thesis using 1(1) [OF False] False 1(3,4) n
      by (simp add: memset_paging.simps [of p v n] memset.simps [of p v n m])
  qed
qed

section \<open>Effect of the operations\<close>

lemma store32_twice [simp]: "store32 a v (store32 a w m) = store32 a v m"
  by (rule ext) (simp add: store32_def)

text \<open>
  The table for a page can be provided: it is there already, or the frame allocator has a frame
  below 16 MiB for it.
\<close>

definition table_ready :: "'a paging_scheme \<Rightarrow> u32 \<Rightarrow> bool" where
  "table_ready s va \<longleftrightarrow> present (pde (mem s) (current_directory s) (PAGE_DIR_INDEX va)) \<or>
     (fst (pmm_alloc_frame (frames s)) \<noteq> 0 \<and> low_page (fst (pmm_alloc_frame (frames s))))"

lemma translate_frames: "translate (s\<lparr>frames := f\<rparr>) v = translate s v"
  by (simp add: translate_def)

lemma low_access_mem:
  assumes ok: "paging_ok s" and "\<And>v. walk m (cr3 s) v = walk (mem s) (cr3 s) v"
  shows "low_access (s\<lparr>mem := m, frames := fr\<rparr>)"
  using assms paging_okD [OF ok] by (simp add: low_access_def translate_def low_identity_def)

lemma fresh_frame:
  assumes "paging_ok s" "fst (pmm_alloc_frame (frames s)) \<noteq> 0"
  shows "fst (pmm_alloc_frame (frames s)) \<noteq> cr3 s" "fst (pmm_alloc_frame (frames s)) \<notin> tables (mem s) (cr3 s)"
  using pmm_frames.alloc_fresh [OF paging_okD(6) [OF assms(1)] assms(2)] paging_okD(9) [OF assms(1)] by blast+

lemma create_table:
  fixes t flags :: u32
  assumes ok: "paging_ok s"
    and absent: "\<not> present (pde (mem s) (current_directory s) (PAGE_DIR_INDEX va))"
    and frame: "pmm_alloc_frame (frames s) = (t, fr)" "t \<noteq> 0" "low_page t"
  defines "e \<equiv> (if flags AND PAGE_USER \<noteq> 0 then t OR 7 else t OR 3)"
  shows "paging_get_or_create_table (current_directory s) va flags s =
    Inr (t, s\<lparr>mem := store32 (entry_at (current_directory s) (PAGE_DIR_INDEX va)) e (memset t 0 4096 (mem s)),
      frames := fr\<rparr>)"
proof -
  note k = paging_okD [OF ok] and ib = index_bounds(1) [of va]
  let ?d = "current_directory s" and ?i = "PAGE_DIR_INDEX va"
  let ?m1 = "memset t 0 4096 (mem s)"
  have t: "t \<noteq> cr3 s" "t \<notin> tables (mem s) (cr3 s)" using fresh_frame [OF ok] frame by simp_all
  have acc: "low_access (s\<lparr>mem := m, frames := fr\<rparr>)" if "same_but t (mem s) m" for m
    using page_elsewhere(1) [OF that k(4) frame(3) t] by (rule low_access_mem [OF ok])
  have clr: "memset_paging t 0 4096 (s\<lparr>frames := fr\<rparr>) = Inr (s\<lparr>mem := ?m1, frames := fr\<rparr>)"
    using memset_paging_run [OF frame(3), of "s\<lparr>frames := fr\<rparr>" "mem s" t 4096 0] acc
    by (simp add: same_but_def)
  have low: "low_page ?d" using k(2,7) by simp
  have w: "walk (store32 (entry_at ?d ?i) e' ?m1) (cr3 s) v = walk (mem s) (cr3 s) v"
    if "present e'" "PAGE_FRAME e' = t" for e' v
    using new_table(1) [OF k(4) frame(3) t ib _ that] absent k(2) by simp
  have e3: "present (t OR 3)" "PAGE_FRAME (t OR 3) = t"
    using frame(3) by (simp_all add: present_or present_flags flag_entry)
  have "vload32 s (entry_at ?d ?i) = Inr (pde (mem s) ?d ?i)"
    by (rule vload32_low [OF paging_ok_low_access [OF ok] low ib])
  moreover have "vstore32 (entry_at ?d ?i) (t OR 3) (s\<lparr>mem := ?m1, frames := fr\<rparr>) =
      Inr (s\<lparr>mem := store32 (entry_at ?d ?i) (t OR 3) ?m1, frames := fr\<rparr>)"
    using vstore32_low [OF acc [OF memset_same_but] low ib] by simp
  moreover have "low_access (s\<lparr>mem := store32 (entry_at ?d ?i) (t OR 3) ?m1, frames := fr\<rparr>)"
    using w [OF e3] by (rule low_access_mem [OF ok])
  note vload32_low [OF this low ib] vstore32_low [OF this low ib]
  moreover have "t OR 1 OR 2 = t OR 3" "(t OR 3) OR 4 = t OR 7"
    by (simp_all add: or.assoc)
  ultimately show ?thesis
    using absent frame(1,2) clr
    by (auto simp: paging_get_or_create_table_def Let_def e_def)
qed

lemma use_table:
  fixes flags :: u32
  assumes ok: "paging_ok s"
    and here: "present (pde (mem s) (current_directory s) (PAGE_DIR_INDEX va))"
  defines "m \<equiv> (if flags AND PAGE_USER \<noteq> 0
      then store32 (entry_at (current_directory s) (PAGE_DIR_INDEX va))
        (pde (mem s) (current_directory s) (PAGE_DIR_INDEX va) OR PAGE_USER) (mem s) else mem s)"
  shows "paging_get_or_create_table (current_directory s) va flags s =
      Inr (table_of (mem s) (current_directory s) (PAGE_DIR_INDEX va), s\<lparr>mem := m\<rparr>)"
    and "walk m (cr3 s) v = walk (mem s) (cr3 s) v" "dir_wf m (cr3 s)"
    "tables m (cr3 s) = tables (mem s) (cr3 s)"
    "present (pde m (current_directory s) (PAGE_DIR_INDEX va))"
    "table_of m (current_directory s) (PAGE_DIR_INDEX va) =
       table_of (mem s) (current_directory s) (PAGE_DIR_INDEX va)"
proof -
  note k = paging_okD [OF ok] and ib = index_bounds(1) [of va]
  let ?d = "current_directory s" and ?i = "PAGE_DIR_INDEX va"
  have low: "low_page ?d" using k(2,7) by simp
  have e: "present (pde (mem s) ?d ?i OR 4)" "PAGE_FRAME (pde (mem s) ?d ?i OR 4) = PAGE_FRAME (pde (mem s) ?d ?i)"
    using here by (simp_all add: present_or flag_entry)
  note st = store_pde_flags [OF k(4) ib, unfolded k(2), OF here e]
  show w: "walk m (cr3 s) v = walk (mem s) (cr3 s) v" for v using st(1) k(2) by (simp add: m_def)
  show "dir_wf m (cr3 s)" using st(2) k(2,4) by (simp add: m_def)
  show "tables m (cr3 s) = tables (mem s) (cr3 s)" using st(3) k(2) by (simp add: m_def)
  show "present (pde m ?d ?i)" "table_of m ?d ?i = table_of (mem s) ?d ?i"
    using here e by (simp_all add: m_def table_of_def)
  have "low_access (s\<lparr>mem := m, frames := frames s\<rparr>)" using w by (rule low_access_mem [OF ok])
  then have "low_access (s\<lparr>mem := m\<rparr>)" by simp
  note acc = vload32_low [OF this low ib]
  show "paging_get_or_create_table ?d va flags s = Inr (table_of (mem s) ?d ?i, s\<lparr>mem := m\<rparr>)"
    using here acc e(2) vload32_low [OF paging_ok_low_access [OF ok] low ib]
      vstore32_low [OF paging_ok_low_access [OF ok] low ib]
    by (auto simp: paging_get_or_create_table_def Let_def m_def table_of_def)
qed

text \<open>Both cases together: the table is there afterwards, and no translation has changed.\<close>

lemma get_or_create_table_effect:
  assumes ok: "paging_ok s" and ready: "table_ready s va"
  obtains m f where
    "paging_get_or_create_table (current_directory s) va flags s =
       Inr (table_of m (current_directory s) (PAGE_DIR_INDEX va), s\<lparr>mem := m, frames := f\<rparr>)"
    "paging_ok (s\<lparr>mem := m, frames := f\<rparr>)"
    "present (pde m (current_directory s) (PAGE_DIR_INDEX va))"
    "\<And>v. walk m (current_directory s) v = walk (mem s) (current_directory s) v"
proof (cases "present (pde (mem s) (current_directory s) (PAGE_DIR_INDEX va))")
  case True
  let ?m = "if flags AND PAGE_USER \<noteq> 0
      then store32 (entry_at (current_directory s) (PAGE_DIR_INDEX va))
        (pde (mem s) (current_directory s) (PAGE_DIR_INDEX va) OR PAGE_USER) (mem s) else mem s"
  note u = use_table [OF ok True, of flags] and k = paging_okD [OF ok]
  have "paging_ok (s\<lparr>mem := ?m, frames := frames s\<rparr>)"
    using u(2-4) k by (simp add: paging_ok_def low_identity_def)
  then show ?thesis using u k(2) by (intro that [of ?m "frames s"]) simp_all
next
  case False
  then obtain t fr where t: "pmm_alloc_frame (frames s) = (t, fr)" "t \<noteq> 0" "low_page t"
    using ready by (cases "pmm_alloc_frame (frames s)") (auto simp: table_ready_def)
  note k = paging_okD [OF ok] and ib = index_bounds(1) [of va]
  let ?e = "if flags AND PAGE_USER \<noteq> 0 then t OR 7 else t OR 3"
  let ?m = "store32 (entry_at (current_directory s) (PAGE_DIR_INDEX va)) ?e (memset t 0 4096 (mem s))"
  have e: "present ?e" "PAGE_FRAME ?e = t"
    using t(3) by (simp_all add: present_or present_flags flag_entry)
  have fr: "t \<noteq> cr3 s" "t \<notin> tables (mem s) (cr3 s)" using fresh_frame [OF ok] t by simp_all
  note nt = new_table [OF k(4) t(3) fr ib _ e, unfolded k(2), OF False]
  have "pmm_ok fr" "used_set fr = insert (unat t div 4096) (used_set (frames s))"
    using pmm_frames.alloc_inv [OF k(6)] pmm_frames.alloc_used [OF k(6)] t by simp_all
  then have "paging_ok (s\<lparr>mem := ?m, frames := fr\<rparr>)"
    using nt(1-3) k by (auto simp: paging_ok_def low_identity_def)
  moreover have "present (pde ?m (current_directory s) (PAGE_DIR_INDEX va))"
    "table_of ?m (current_directory s) (PAGE_DIR_INDEX va) = t"
    using e by (simp_all add: table_of_def)
  ultimately show ?thesis
    using create_table [OF ok False t, of flags] nt(1) k(2) by (intro that [of ?m fr]) simp_all
qed

text \<open>A write to one table entry, in a state where everything else is in place.\<close>

lemma set_pte:
  fixes e :: u32
  assumes ok: "paging_ok s" and here: "present (pde (mem s) (current_directory s) (PAGE_DIR_INDEX va))"
  defines "T \<equiv> table_of (mem s) (current_directory s) (PAGE_DIR_INDEX va)"
  defines "m \<equiv> store32 (entry_at T (PAGE_TABLE_INDEX va)) e (mem s)"
  shows "vstore32 (entry_at T (PAGE_TABLE_INDEX va)) e s = Inr (s\<lparr>mem := m\<rparr>)"
    and "walk m (current_directory s) v = (if PAGE_ALIGN_DOWN v = PAGE_ALIGN_DOWN va
      then (if present e then Some (PAGE_FRAME e OR PAGE_OFFSET v) else None)
      else walk (mem s) (current_directory s) v)"
    and "0x1000000 \<le> unat va \<Longrightarrow> paging_ok (s\<lparr>mem := m, tlb := c\<rparr>)"
proof -
  note k = paging_okD [OF ok] and ib = index_bounds [of va]
  have d: "cr3 s = current_directory s" by (rule k(2))
  have T: "low_page T" using dir_wfD(2) [OF k(4) ib(1)] here d by (simp add: T_def)
  then show "vstore32 (entry_at T (PAGE_TABLE_INDEX va)) e s = Inr (s\<lparr>mem := m\<rparr>)"
    using vstore32_low [OF paging_ok_low_access [OF ok] T ib(2)] by (simp add: m_def)
  note sp = store_pte [OF k(4), unfolded d, OF here, folded T_def, of e, folded m_def]
  show "walk m (current_directory s) v = (if PAGE_ALIGN_DOWN v = PAGE_ALIGN_DOWN va
      then (if present e then Some (PAGE_FRAME e OR PAGE_OFFSET v) else None)
      else walk (mem s) (current_directory s) v)" by (rule sp(1))
  assume va: "0x1000000 \<le> unat va"
  have "PAGE_ALIGN_DOWN v \<noteq> PAGE_ALIGN_DOWN va" if "unat v < 0x1000000" for v
  proof -
    have "unat v div 4096 < 4096" "4096 \<le> unat va div 4096" using that va by simp_all
    then show ?thesis by (auto simp: word_eq_unat unat_PAGE_ALIGN_DOWN minus_mod_eq_div_mult)
  qed
  then have "low_identity m (current_directory s)"
    using k(5) d sp(1) by (simp add: low_identity_def)
  then show "paging_ok (s\<lparr>mem := m, tlb := c\<rparr>)"
    using k d sp(2,3) by (simp add: paging_ok_def)
qed

lemma map_page_effect:
  assumes ok: "paging_ok s" and ready: "table_ready s va"
  obtains m f where
    "paging_map_page va pa flags s =
       Inr (s\<lparr>mem := m, frames := f, tlb := (tlb s)(PAGE_ALIGN_DOWN va := None)\<rparr>)"
    "\<And>v. walk m (current_directory s) v =
       (if PAGE_ALIGN_DOWN v = PAGE_ALIGN_DOWN va
        then (if present flags then Some (PAGE_FRAME pa OR PAGE_OFFSET v) else None)
        else walk (mem s) (current_directory s) v)"
    "0x1000000 \<le> unat va \<Longrightarrow>
       paging_ok (s\<lparr>mem := m, frames := f, tlb := (tlb s)(PAGE_ALIGN_DOWN va := None)\<rparr>)"
proof -
  let ?d = "current_directory s" and ?i = "PAGE_DIR_INDEX va" and ?j = "PAGE_TABLE_INDEX va"
  let ?e = "(pa AND 0xFFFFF000) OR (flags AND 0xFFF)" and ?tl = "(tlb s)(PAGE_ALIGN_DOWN va := None)"
  obtain m f where s1: "paging_get_or_create_table ?d va flags s =
      Inr (table_of m ?d ?i, s\<lparr>mem := m, frames := f\<rparr>)"
    and ok1: "paging_ok (s\<lparr>mem := m, frames := f\<rparr>)" and here: "present (pde m ?d ?i)"
    and same: "\<And>v. walk m ?d v = walk (mem s) ?d v"
    using get_or_create_table_effect [OF ok ready, of flags] by blast
  let ?m = "store32 (entry_at (table_of m ?d ?i) ?j) ?e m"
  note sp = set_pte [OF ok1, where va = va and e = ?e, simplified, OF here]
  have "low_page (table_of m ?d ?i)"
    using dir_wfD(2) [OF paging_okD(4) [OF ok1] index_bounds(1) [of va]] here paging_okD(2) [OF ok] by simp
  then have nn: "?d \<noteq> NULL" "table_of m ?d ?i \<noteq> NULL"
    using paging_okD(3) [OF ok] by (auto simp: low_page_def)
  show thesis
  proof (rule that [where m = ?m and f = f])
    show "paging_map_page va pa flags s = Inr (s\<lparr>mem := ?m, frames := f, tlb := ?tl\<rparr>)"
      using s1 sp(1) nn by (simp add: paging_map_page_def paging_map_page_in_directory_def paging_flush_tlb_def)
  qed (use sp(2,3) same in \<open>simp_all add: frame_entry\<close>)
qed

lemma unmap_page_effect:
  assumes ok: "paging_ok s"
  obtains m c where "paging_unmap_page va s = Inr (s\<lparr>mem := m, tlb := c\<rparr>)"
    "\<And>v. walk m (current_directory s) v = (if PAGE_ALIGN_DOWN v = PAGE_ALIGN_DOWN va then None
        else walk (mem s) (current_directory s) v)"
    "0x1000000 \<le> unat va \<Longrightarrow> paging_ok (s\<lparr>mem := m, tlb := c\<rparr>)"
    "c = (tlb s)(PAGE_ALIGN_DOWN va := None) \<or>
       c = tlb s \<and> walk (mem s) (current_directory s) (PAGE_ALIGN_DOWN va) = None"
proof -
  let ?d = "current_directory s" and ?i = "PAGE_DIR_INDEX va"
  note k = paging_okD [OF ok] and ib = index_bounds [of va]
  have low: "low_page ?d" using k(2,7) by simp
  have ld: "vload32 s (entry_at ?d ?i) = Inr (pde (mem s) ?d ?i)"
    by (rule vload32_low [OF paging_ok_low_access [OF ok] low ib(1)])
  show thesis
  proof (cases "present (pde (mem s) ?d ?i)")
    case True
    note sp = set_pte [OF ok True, where e = 0]
    show thesis
      by (rule that [where m = "store32 (entry_at (table_of (mem s) ?d ?i) (PAGE_TABLE_INDEX va)) 0 (mem s)"
            and c = "(tlb s)(PAGE_ALIGN_DOWN va := None)"])
        (use True ld sp k(3) in \<open>simp_all add: paging_unmap_page_def paging_unmap_page_in_directory_def
          table_of_def paging_flush_tlb_def present_flags\<close>)
  next
    case False
    have none: "walk (mem s) ?d v = None" if "PAGE_ALIGN_DOWN v = PAGE_ALIGN_DOWN va" for v
      using that False by (simp add: same_page_iff walk_eq)
    have "PAGE_ALIGN_DOWN (PAGE_ALIGN_DOWN va) = PAGE_ALIGN_DOWN va"
      by (simp add: PAGE_ALIGN_DOWN_def and.assoc)
    with none have "walk (mem s) ?d (PAGE_ALIGN_DOWN va) = None" by blast
    then show thesis
      by (intro that [where m = "mem s" and c = "tlb s"])
        (use False ld k(3) none ok in \<open>simp_all add: paging_unmap_page_def paging_unmap_page_in_directory_def\<close>)
  qed
qed

text \<open>The processor's cached translations agree with the tables.\<close>

definition tlb_coherent :: "'a machine_scheme \<Rightarrow> bool" where
  "tlb_coherent s \<longleftrightarrow> (\<forall>v p. tlb s v = Some p \<longrightarrow> PAGE_ALIGN_DOWN v = v \<and> translate s v = Some p)"

text \<open>The lookup the kernel does in software.\<close>

lemma get_physical_walk:
  assumes ok: "paging_ok s"
  shows "paging_get_physical v s = Inr (case walk (mem s) (current_directory s) v of None \<Rightarrow> 0 | Some p \<Rightarrow> p)"
    "paging_is_mapped v s = Inr (walk (mem s) (current_directory s) v \<noteq> None)"
proof -
  let ?d = "current_directory s" and ?i = "PAGE_DIR_INDEX v" and ?j = "PAGE_TABLE_INDEX v"
  note k = paging_okD [OF ok] and ib = index_bounds [of v]
  note acc = vload32_low [OF paging_ok_low_access [OF ok]]
  have low: "low_page ?d" using k(2,7) by simp
  have T: "present (pde (mem s) ?d ?i) \<Longrightarrow> low_page (table_of (mem s) ?d ?i)"
    using dir_wfD(2) [OF k(4) ib(1)] k(2) by simp
  show "paging_get_physical v s = Inr (case walk (mem s) ?d v of None \<Rightarrow> 0 | Some p \<Rightarrow> p)"
    using acc [OF low ib(1)] acc [OF T ib(2)] k(3)
    by (simp add: paging_get_physical_def paging_get_physical_in_directory_def walk_eq table_of_def)
  show "paging_is_mapped v s = Inr (walk (mem s) ?d v \<noteq> None)"
    using acc [OF low ib(1)] acc [OF T ib(2)]
    by (simp add: paging_is_mapped_def walk_eq table_of_def)
qed

section \<open>Initialisation\<close>

lemma page_join: "PAGE_ALIGN_DOWN v OR PAGE_OFFSET v = v"
  by (rule bit_word_eqI)
    (simp only: PAGE_FRAME_eq [symmetric] PAGE_OFFSET_def bit_or_iff bit_PAGE_FRAME bit_offset, auto)

text \<open>With paging off every address reaches the memory it names.\<close>

definition paging_off :: "'a machine_scheme \<Rightarrow> bool" where
  "paging_off s \<longleftrightarrow> cr0 s AND CR0_PG = 0"

lemma paging_off_access: "paging_off s \<Longrightarrow> low_access (s\<lparr>mem := m\<rparr>)"
  by (simp add: paging_off_def low_access_def translate_def)

lemma paging_off_mem [simp]: "paging_off (s\<lparr>mem := m\<rparr>) = paging_off s"
  by (simp add: paging_off_def)

definition ident_entry :: "u32 \<Rightarrow> u32 \<Rightarrow> u32" where
  "ident_entry i j = ((i * 1024 + j) * 4096) OR PAGE_KERNEL"

lemma fill_table_effect:
  assumes "paging_off s" "low_page (kpt + i * 4096)"
  shows "\<exists>m. fill_table kpt i j s = Inr (s\<lparr>mem := m\<rparr>) \<and>
    (\<forall>c k. low_page c \<longrightarrow> unat k < 1024 \<longrightarrow> load32 m (entry_at c k) =
       (if c = kpt + i * 4096 \<and> j \<le> k then ident_entry i k else load32 (mem s) (entry_at c k)))"
  using assms
proof (induction kpt i j s rule: fill_table.induct)
  case (1 kpt i j s)
  let ?t = "kpt + i * 4096"
  show ?case
  proof (cases "j < 1024")
    case True
    then have j: "unat j < 1024" by (simp add: word_less_unat)
    let ?s = "s\<lparr>mem := store32 (entry_at ?t j) (ident_entry i j) (mem s)\<rparr>"
    have st: "vstore32 (entry_at ?t j) (ident_entry i j) s = Inr ?s"
      using vstore32_low [OF paging_off_access [OF 1(2), of "mem s"] 1(3) j] by simp
    obtain m where m: "fill_table kpt i (j + 1) ?s = Inr (?s\<lparr>mem := m\<rparr>)"
      "\<And>c k. low_page c \<Longrightarrow> unat k < 1024 \<Longrightarrow> load32 m (entry_at c k) =
         (if c = ?t \<and> j + 1 \<le> k then ident_entry i k else load32 (mem ?s) (entry_at c k))"
      using 1(1) [OF True refl, of ?s] 1(2,3) by auto
    have le: "j + 1 \<le> k \<longleftrightarrow> j \<le> k \<and> j \<noteq> k" for k
      using unat_inc [OF True] by (auto simp: word_le_unat word_eq_unat)
    have "load32 m (entry_at c k) =
        (if c = ?t \<and> j \<le> k then ident_entry i k else load32 (mem s) (entry_at c k))"
      if "low_page c" "unat k < 1024" for c k
      using m(2) [OF that] load_entry_store [OF 1(3) that(1) j that(2)] by (auto simp: le)
    then show ?thesis using True st m(1)
      by (auto simp: fill_table.simps [of kpt i j] Let_def ident_entry_def)
  next
    case False
    then have "\<not> j \<le> k" if "unat k < 1024" for k
      using that by (simp add: word_less_unat word_le_unat)
    then show ?thesis using False by (auto simp: fill_table.simps [of kpt i j] intro!: exI [of _ "mem s"])
  qed
qed

text \<open>
  The image: a directory and four consecutive tables, on pages of their own below 16 MiB.
\<close>

definition image_layout :: "u32 \<Rightarrow> u32 \<Rightarrow> bool" where
  "image_layout kpd kpt \<longleftrightarrow> low_page kpd \<and> 0 < unat kpt \<and> unat kpt mod 4096 = 0 \<and>
     unat kpt + 0x4000 \<le> 0x1000000 \<and> (unat kpd + 4096 \<le> unat kpt \<or> unat kpt + 0x4000 \<le> unat kpd)"

lemma kernel_tables:
  assumes "image_layout kpd kpt" "i < 4"
  shows "unat (kpt + i * 4096) = unat kpt + unat i * 4096" "low_page (kpt + i * 4096)"
    "kpt + i * 4096 \<noteq> kpd"
proof -
  have i: "unat i < 4" using assms(2) by (simp add: word_less_unat)
  then have "unat (i * 4096) = unat i * 4096" by (simp add: unat_mult_exact)
  then show u: "unat (kpt + i * 4096) = unat kpt + unat i * 4096"
    using assms(1) i by (simp add: unat_add_exact image_layout_def)
  then show "low_page (kpt + i * 4096)"
    using assms(1) i by (simp add: low_page_def image_layout_def)
  have "unat (kpt + i * 4096) \<noteq> unat kpd"
    unfolding u using assms(1) i by (auto simp: image_layout_def low_page_def)
  then show "kpt + i * 4096 \<noteq> kpd" by auto
qed

lemma kernel_tables_inj:
  "image_layout kpd kpt \<Longrightarrow> i < 4 \<Longrightarrow> j < 4 \<Longrightarrow> kpt + i * 4096 = kpt + j * 4096 \<Longrightarrow> i = j"
  using kernel_tables(1) [of kpd kpt i] kernel_tables(1) [of kpd kpt j] by (simp add: word_eq_unat)

lemma fill_tables_effect:
  assumes "paging_off s" "image_layout kpd kpt"
  shows "\<exists>m. fill_tables kpd kpt i s = Inr (s\<lparr>mem := m\<rparr>) \<and>
    (\<forall>k j. i \<le> k \<longrightarrow> k < 4 \<longrightarrow> unat j < 1024 \<longrightarrow> load32 m (entry_at (kpt + k * 4096) j) = ident_entry k j) \<and>
    (\<forall>k. unat k < 1024 \<longrightarrow> pde m kpd k =
       (if i \<le> k \<and> k < 4 then (kpt + k * 4096) OR 3 else pde (mem s) kpd k)) \<and>
    (\<forall>c j. low_page c \<longrightarrow> c \<noteq> kpd \<longrightarrow> (\<forall>k. i \<le> k \<longrightarrow> k < 4 \<longrightarrow> c \<noteq> kpt + k * 4096) \<longrightarrow> unat j < 1024 \<longrightarrow>
       load32 m (entry_at c j) = load32 (mem s) (entry_at c j))"
  using assms
proof (induction kpd kpt i s rule: fill_tables.induct)
  case (1 kpd kpt i s)
  let ?t = "kpt + i * 4096"
  show ?case
  proof (cases "i < 4")
    case True
    note t = kernel_tables [OF 1(3) True]
    have kpd: "low_page kpd" and i: "unat i < 1024" using 1(3) True by (auto simp: image_layout_def word_less_unat)
    obtain m1 where m1: "fill_table kpt i 0 s = Inr (s\<lparr>mem := m1\<rparr>)"
      "\<And>c k. low_page c \<Longrightarrow> unat k < 1024 \<Longrightarrow> load32 m1 (entry_at c k) =
         (if c = ?t then ident_entry i k else load32 (mem s) (entry_at c k))"
      using fill_table_effect [OF 1(2) t(2), of 0] by auto
    let ?m2 = "store32 (entry_at kpd i) (?t OR 3) m1"
    let ?s2 = "s\<lparr>mem := ?m2\<rparr>"
    have st: "vstore32 (entry_at kpd i) (?t OR 3) (s\<lparr>mem := m1\<rparr>) = Inr ?s2"
      using vstore32_low [OF paging_off_access [OF 1(2)] kpd i] by simp
    have m2: "load32 ?m2 (entry_at c k) = (if c = kpd \<and> i = k then ?t OR 3 else
        if c = ?t then ident_entry i k else load32 (mem s) (entry_at c k))"
      if "low_page c" "unat k < 1024" for c k
      using load_entry_store [OF kpd that(1) i that(2)] m1(2) [OF that] t(3) by auto
    obtain m where m: "fill_tables kpd kpt (i + 1) ?s2 = Inr (s\<lparr>mem := m\<rparr>)"
      "\<And>k j. i + 1 \<le> k \<Longrightarrow> k < 4 \<Longrightarrow> unat j < 1024 \<Longrightarrow> load32 m (entry_at (kpt + k * 4096) j) = ident_entry k j"
      "\<And>k. unat k < 1024 \<Longrightarrow> pde m kpd k = (if i + 1 \<le> k \<and> k < 4 then (kpt + k * 4096) OR 3 else pde ?m2 kpd k)"
      "\<And>c j. low_page c \<Longrightarrow> c \<noteq> kpd \<Longrightarrow> (\<And>k. i + 1 \<le> k \<Longrightarrow> k < 4 \<Longrightarrow> c \<noteq> kpt + k * 4096) \<Longrightarrow> unat j < 1024 \<Longrightarrow>
         load32 m (entry_at c j) = load32 ?m2 (entry_at c j)"
      using 1(1) [OF True, of ?s2] 1(2,3) by auto
    have le: "i + 1 \<le> k \<longleftrightarrow> i \<le> k \<and> i \<noteq> k" for k
      using unat_inc [OF True] by (auto simp: word_le_unat word_eq_unat)
    have here: "load32 m (entry_at ?t j) = ident_entry i j" if "unat j < 1024" for j
    proof -
      have "?t \<noteq> kpt + k * 4096" if "i + 1 \<le> k" "k < 4" for k
        using kernel_tables_inj [OF 1(3) True that(2)] that(1) by (auto simp: le)
      then show ?thesis using m(4) [OF t(2,3) _ that] m2 [OF t(2) that] t(3) by auto
    qed
    have "load32 m (entry_at (kpt + k * 4096) j) = ident_entry k j"
      if "i \<le> k" "k < 4" "unat j < 1024" for k j
      using m(2) [OF _ that(2,3)] here [OF that(3)] that(1) by (cases "k = i") (auto simp: le)
    moreover have "pde m kpd k = (if i \<le> k \<and> k < 4 then (kpt + k * 4096) OR 3 else pde (mem s) kpd k)"
      if "unat k < 1024" for k
      using m(3) [OF that] m2 [OF kpd that] t(3) True by (auto simp: le)
    moreover have "load32 m (entry_at c j) = load32 (mem s) (entry_at c j)"
      if "low_page c" "c \<noteq> kpd" "\<forall>k. i \<le> k \<longrightarrow> k < 4 \<longrightarrow> c \<noteq> kpt + k * 4096" "unat j < 1024" for c j
      using m(4) [OF that(1,2) _ that(4)] m2 [OF that(1,4)] that True by (auto simp: le)
    moreover have "fill_tables kpd kpt i s = Inr (s\<lparr>mem := m\<rparr>)"
      using True m1(1) st m(1) by (simp add: fill_tables.simps [of kpd kpt i])
    ultimately show ?thesis by blast
  next
    case False
    then have "\<not> (i \<le> k \<and> k < 4)" for k by (auto simp: word_less_unat word_le_unat)
    then show ?thesis using False
      by (intro exI [of _ "mem s"]) (auto simp: fill_tables.simps [of kpd kpt i])
  qed
qed

lemma clear_tables_effect:
  assumes "paging_off s" "image_layout kpd kpt"
  shows "\<exists>m. clear_tables kpt i s = Inr (s\<lparr>mem := m\<rparr>) \<and>
    (\<forall>c j. low_page c \<longrightarrow> (\<forall>k. i \<le> k \<longrightarrow> k < 4 \<longrightarrow> c \<noteq> kpt + k * 4096) \<longrightarrow> unat j < 1024 \<longrightarrow>
       load32 m (entry_at c j) = load32 (mem s) (entry_at c j))"
  using assms
proof (induction kpt i s rule: clear_tables.induct)
  case (1 kpt i s)
  show ?case
  proof (cases "i < 4")
    case True
    let ?t = "kpt + i * 4096"
    note t = kernel_tables [OF 1(3) True]
    let ?s = "s\<lparr>mem := memset ?t 0 4096 (mem s)\<rparr>"
    have c: "memset_paging ?t 0 4096 s = Inr ?s"
      using memset_paging_run [OF t(2) paging_off_access [OF 1(2)], of "mem s" ?t 4096 0]
      by (simp add: same_but_def)
    obtain m where m: "clear_tables kpt (i + 1) ?s = Inr (s\<lparr>mem := m\<rparr>)"
      "\<And>c j. low_page c \<Longrightarrow> (\<And>k. i + 1 \<le> k \<Longrightarrow> k < 4 \<Longrightarrow> c \<noteq> kpt + k * 4096) \<Longrightarrow> unat j < 1024 \<Longrightarrow>
         load32 m (entry_at c j) = load32 (mem ?s) (entry_at c j)"
      using 1(1) [OF True, of ?s] 1(2,3) by auto
    have le: "i + 1 \<le> k \<Longrightarrow> i \<le> k" for k
      using unat_inc [OF True] by (auto simp: word_le_unat)
    have "load32 m (entry_at c j) = load32 (mem s) (entry_at c j)"
      if "low_page c" "\<forall>k. i \<le> k \<longrightarrow> k < 4 \<longrightarrow> c \<noteq> kpt + k * 4096" "unat j < 1024" for c j
    proof -
      have "c \<noteq> ?t" using that(2) True by auto
      then show ?thesis
        using m(2) [OF that(1) _ that(3)] that(2) le load_entry_same_but [OF memset_same_but t(2) that(1,3)] by auto
    qed
    then show ?thesis using c m(1) True by (auto simp: clear_tables.simps [of kpt i])
  next
    case False
    then show ?thesis by (intro exI [of _ "mem s"]) (simp add: clear_tables.simps [of kpt i])
  qed
qed

text \<open>The memory \<open>paging_init\<close> leaves: four directory entries, and identity entries in their tables.\<close>

lemma paging_init_effect:
  assumes off: "paging_off s" and lay: "image_layout kpd kpt"
  obtains m where
    "paging_init kpd kpt s = Inr (s\<lparr>mem := m, cr0 := cr0 s OR CR0_PG, cr3 := kpd, tlb := Map.empty,
       current_directory := kpd, kernel_directory := kpd\<rparr>)"
    "\<And>k. unat k < 1024 \<Longrightarrow> pde m kpd k = (if k < 4 then (kpt + k * 4096) OR 3 else 0)"
    "\<And>k j. k < 4 \<Longrightarrow> unat j < 1024 \<Longrightarrow> load32 m (entry_at (kpt + k * 4096) j) = ident_entry k j"
proof -
  have kpd: "low_page kpd" using lay by (simp add: image_layout_def)
  let ?m1 = "memset kpd 0 4096 (mem s)"
  have c1: "memset_paging kpd 0 4096 s = Inr (s\<lparr>mem := ?m1\<rparr>)"
    using memset_paging_run [OF kpd paging_off_access [OF off], of "mem s" kpd 4096 0]
    by (simp add: same_but_def)
  obtain m2 where m2: "clear_tables kpt 0 (s\<lparr>mem := ?m1\<rparr>) = Inr (s\<lparr>mem := m2\<rparr>)"
    "\<And>j. unat j < 1024 \<Longrightarrow> pde m2 kpd j = pde ?m1 kpd j"
  proof -
    obtain m where "clear_tables kpt 0 (s\<lparr>mem := ?m1\<rparr>) = Inr (s\<lparr>mem := m\<rparr>)"
      "\<And>c j. low_page c \<Longrightarrow> \<forall>k. k < 4 \<longrightarrow> c \<noteq> kpt + k * 4096 \<Longrightarrow> unat j < 1024 \<Longrightarrow>
         load32 m (entry_at c j) = load32 ?m1 (entry_at c j)"
      using clear_tables_effect [of "s\<lparr>mem := ?m1\<rparr>" kpd kpt 0] off lay by auto
    moreover have "\<forall>k. k < 4 \<longrightarrow> kpd \<noteq> kpt + k * 4096" using kernel_tables(3) [OF lay] by metis
    ultimately show thesis using that [of m] kpd by blast
  qed
  obtain m where m: "fill_tables kpd kpt 0 (s\<lparr>mem := m2\<rparr>) = Inr (s\<lparr>mem := m\<rparr>)"
    "\<And>k j. k < 4 \<Longrightarrow> unat j < 1024 \<Longrightarrow> load32 m (entry_at (kpt + k * 4096) j) = ident_entry k j"
    "\<And>k. unat k < 1024 \<Longrightarrow> pde m kpd k = (if k < 4 then (kpt + k * 4096) OR 3 else pde m2 kpd k)"
    using fill_tables_effect [of "s\<lparr>mem := m2\<rparr>" kpd kpt 0] off lay by auto
  show thesis
  proof (rule that [of m])
    show "paging_init kpd kpt s = Inr (s\<lparr>mem := m, cr0 := cr0 s OR CR0_PG, cr3 := kpd, tlb := Map.empty,
       current_directory := kpd, kernel_directory := kpd\<rparr>)"
      using c1 m2(1) m(1) by (simp add: paging_init_def load_page_directory_def paging_enable_def Let_def)
    show "pde m kpd k = (if k < 4 then (kpt + k * 4096) OR 3 else 0)" if "unat k < 1024" for k
      using m(3) [OF that] m2(2) [OF that] load_entry_memset [OF kpd that] by simp
  qed (rule m(2))
qed

lemma ident_entry_frame:
  assumes "k < 4" "unat j < 1024"
  shows "present (ident_entry k j)" "unat (PAGE_FRAME (ident_entry k j)) = (unat k * 1024 + unat j) * 4096"
proof -
  have k: "unat k < 4" using assms(1) by (simp add: word_less_unat)
  have "unat (k * 1024) = unat k * 1024" using k by (simp add: unat_mult_exact)
  then have "unat (k * 1024 + j) = unat k * 1024 + unat j" using k assms(2) by (simp add: unat_add_exact)
  then have u: "unat ((k * 1024 + j) * 4096) = (unat k * 1024 + unat j) * 4096"
    using k assms(2) unat_mult_exact [of "k * 1024 + j" 4096] by (simp only:) simp
  show "present (ident_entry k j)" by (simp add: ident_entry_def present_or present_flags)
  have "PAGE_FRAME (ident_entry k j) = PAGE_FRAME ((k * 1024 + j) * 4096)"
    by (simp add: ident_entry_def flag_entry)
  also have "\<dots> = (k * 1024 + j) * 4096" by (rule PAGE_FRAME_aligned) (simp only: u mod_mult_self2_is_0)
  finally show "unat (PAGE_FRAME (ident_entry k j)) = (unat k * 1024 + unat j) * 4096" by (simp only: u)
qed

lemma kernel_directory_walk:
  assumes lay: "image_layout kpd kpt"
    and d: "\<And>k. unat k < 1024 \<Longrightarrow> pde m kpd k = (if k < 4 then (kpt + k * 4096) OR 3 else 0)"
    and t: "\<And>k j. k < 4 \<Longrightarrow> unat j < 1024 \<Longrightarrow> load32 m (entry_at (kpt + k * 4096) j) = ident_entry k j"
  shows "walk m kpd v = (if unat v < 0x1000000 then Some v else None)" "dir_wf m kpd"
    "tables m kpd = (\<lambda>k. kpt + k * 4096) ` {k. k < 4}"
proof -
  have pr: "present (pde m kpd k) \<longleftrightarrow> k < 4" if "unat k < 1024" for k
    using d [OF that] by (simp add: present_or present_flags)
  have tab: "table_of m kpd k = kpt + k * 4096" if "k < 4" for k
  proof -
    have "unat k < 1024" using that by (simp add: word_less_unat)
    then show ?thesis using d [of k] that kernel_tables(2) [OF lay that]
      by (simp add: table_of_def flag_entry)
  qed
  show "dir_wf m kpd"
    unfolding dir_wf_def using pr tab kernel_tables [OF lay] kernel_tables_inj [OF lay] lay
    by (auto simp: image_layout_def)
  have "{i. unat i < 1024 \<and> present (pde m kpd i)} = {k. k < 4}"
    using pr by (auto simp: word_less_unat)
  then show "tables m kpd = (\<lambda>k. kpt + k * 4096) ` {k. k < 4}"
    unfolding tables_def using tab by (simp cong: image_cong_simp)
  let ?i = "PAGE_DIR_INDEX v" and ?j = "PAGE_TABLE_INDEX v"
  note ib = index_bounds [of v]
  have i4: "?i < 4 \<longleftrightarrow> unat v < 0x1000000"
    by (simp add: word_less_unat unat_PAGE_DIR_INDEX div_less_iff_less_mult)
  show "walk m kpd v = (if unat v < 0x1000000 then Some v else None)"
  proof (cases "?i < 4")
    case True
    have q: "(n div 0x400000 * 1024 + n div 4096 mod 1024) * 4096 = n div 4096 * 4096" for n :: nat
    proof -
      have "n div 0x400000 = n div 4096 div 1024" by (simp add: div_mult2_eq [symmetric])
      then show ?thesis by (simp only: div_mult_mod_eq)
    qed
    have "unat (PAGE_FRAME (ident_entry ?i ?j)) = unat (PAGE_ALIGN_DOWN v)"
      unfolding ident_entry_frame(2) [OF True ib(2)] unat_PAGE_DIR_INDEX unat_PAGE_TABLE_INDEX
        unat_PAGE_ALIGN_DOWN minus_mod_eq_div_mult by (rule q)
    then have "PAGE_FRAME (ident_entry ?i ?j) = PAGE_ALIGN_DOWN v" by (simp add: word_eq_unat)
    then show ?thesis using True i4 pr [OF ib(1)] tab [OF True] t [OF True ib(2)] ident_entry_frame(1) [OF True ib(2)]
      by (simp add: walk_eq page_join)
  next
    case False
    then show ?thesis using i4 pr [OF ib(1)] by (simp add: walk_eq)
  qed
qed

section \<open>Copies of a directory\<close>

lemma same_but_trans: "same_but t m m1 \<Longrightarrow> same_but t m1 m2 \<Longrightarrow> same_but t m m2"
  by (simp add: same_but_def)

lemma same_but_refl: "same_but t m m"
  by (simp add: same_but_def)

lemma store_entry_same_but:
  assumes "low_page t" "unat i < 1024"
  shows "same_but t m (store32 (entry_at t i) e m)"
  unfolding same_but_def
proof (intro allI impI)
  fix x assume "\<not> unat (x - t) < 4096"
  moreover have eq: "x - entry_at t i = (x - t) - 4 * i" by (simp add: entry_at_def)
  moreover have "unat (4 * i) = 4 * unat i" using assms(2) by (simp add: unat_mult_exact)
  ultimately have "4 \<le> unat (x - entry_at t i)"
    unfolding eq using assms(2) by (subst unat_sub_exact) (simp_all add: word_le_unat)
  then show "store32 (entry_at t i) e m x = m x" by (intro store32_other) (simp add: outside_def)
qed

lemma copy_entries_effect:
  assumes dst: "low_page dst" and src: "low_page src" "src \<noteq> dst"
    and acc: "\<And>m. same_but dst (mem s) m \<Longrightarrow> low_access (s\<lparr>mem := m\<rparr>)"
    and m: "same_but dst (mem s) m"
  shows "\<exists>m'. copy_entries dst src i (s\<lparr>mem := m\<rparr>) = Inr (s\<lparr>mem := m'\<rparr>) \<and> same_but dst (mem s) m' \<and>
    (\<forall>j. unat j < 1024 \<longrightarrow> pde m' dst j = (if i \<le> j then pde m src j else pde m dst j))"
  using m
proof (induction "1024 - unat i" arbitrary: i m)
  case 0
  then have "\<not> i < 1024" by (simp add: word_less_unat)
  moreover from this have "\<not> i \<le> j" if "unat j < 1024" for j using that by (simp add: word_less_unat word_le_unat)
  ultimately show ?case using 0 by (intro exI [of _ m]) (simp add: copy_entries.simps [of dst src i])
next
  case (Suc n)
  then have i: "i < 1024" "unat i < 1024" by (simp_all add: word_less_unat)
  let ?m = "store32 (entry_at dst i) (pde m src i) m"
  note a = acc [OF Suc.prems]
  have step: "copy_entries dst src i (s\<lparr>mem := m\<rparr>) = copy_entries dst src (i + 1) (s\<lparr>mem := ?m\<rparr>)"
    using i vload32_low [OF a src(1) i(2)] vstore32_low [OF a dst i(2)]
    by (simp add: copy_entries.simps [of dst src i])
  have le: "i + 1 \<le> j \<longleftrightarrow> i \<le> j \<and> i \<noteq> j" for j
    using unat_inc [OF i(1)] by (auto simp: word_le_unat word_eq_unat)
  have "same_but dst (mem s) ?m"
    using same_but_trans [OF Suc.prems store_entry_same_but [OF dst i(2)]] .
  moreover have "n = 1024 - unat (i + 1)" using Suc.hyps(2) unat_inc [OF i(1)] by simp
  ultimately obtain m' where m': "copy_entries dst src (i + 1) (s\<lparr>mem := ?m\<rparr>) = Inr (s\<lparr>mem := m'\<rparr>)"
    "same_but dst (mem s) m'"
    "\<And>j. unat j < 1024 \<Longrightarrow> pde m' dst j = (if i + 1 \<le> j then pde ?m src j else pde ?m dst j)"
    using Suc.hyps(1) by blast
  have "pde m' dst j = (if i \<le> j then pde m src j else pde m dst j)" if "unat j < 1024" for j
    using m'(3) [OF that] load_entry_store [OF dst src(1) i(2) that] load_entry_store [OF dst dst i(2) that] src(2)
    by (auto simp: le)
  then show ?case using step m'(1,2) by auto
qed

lemma copy_directory_effect:
  assumes ok: "paging_ok s" and dst: "low_page dst" "dst \<noteq> cr3 s" "dst \<notin> tables (mem s) (cr3 s)"
    and src: "dir_wf (mem s) src" "src \<noteq> dst" "dst \<notin> tables (mem s) src"
  obtains m where "paging_copy_directory dst src s = Inr (s\<lparr>mem := m\<rparr>)" "same_but dst (mem s) m"
    "\<And>v. walk m dst v = walk (mem s) src v" "\<And>v. walk m (cr3 s) v = walk (mem s) (cr3 s) v"
    "\<And>j. unat j < 1024 \<Longrightarrow> pde m dst j = pde (mem s) src j"
proof -
  note k = paging_okD [OF ok]
  have low: "low_page src" by (rule dir_wfD(1) [OF src(1)])
  have acc: "low_access (s\<lparr>mem := m\<rparr>)" if "same_but dst (mem s) m" for m
    using low_access_mem [OF ok page_elsewhere(1) [OF that k(4) dst], of "frames s"] by simp
  let ?m1 = "memset dst 0 4096 (mem s)"
  have c: "memset_paging dst 0 4096 s = Inr (s\<lparr>mem := ?m1\<rparr>)"
    using memset_paging_run [OF dst(1) acc same_but_refl, of dst 4096 0] by simp
  obtain m where m: "copy_entries dst src 0 (s\<lparr>mem := ?m1\<rparr>) = Inr (s\<lparr>mem := m\<rparr>)"
    "same_but dst (mem s) m" "\<And>j. unat j < 1024 \<Longrightarrow> pde m dst j = pde ?m1 src j"
    using copy_entries_effect [OF dst(1) low src(2) acc memset_same_but, of 0] by auto
  have e: "pde m dst j = pde (mem s) src j" if "unat j < 1024" for j
    using m(3) [OF that] page_elsewhere(2) [OF memset_same_but src(1) dst(1) not_sym [OF src(2)] src(3) that] by simp
  have "walk m dst v = walk (mem s) src v" for v
  proof -
    let ?i = "PAGE_DIR_INDEX v" and ?j = "PAGE_TABLE_INDEX v"
    note ib = index_bounds [of v]
    have t: "table_of m dst ?i = table_of (mem s) src ?i" using e [OF ib(1)] by (simp add: table_of_def)
    have "load32 m (entry_at (table_of (mem s) src ?i) ?j) = load32 (mem s) (entry_at (table_of (mem s) src ?i) ?j)"
      if "present (pde (mem s) src ?i)"
    proof -
      have "table_of (mem s) src ?i \<noteq> dst" using src(3) that ib(1) by (auto simp: tables_def)
      then show ?thesis
        using load_entry_same_but [OF m(2) dst(1) dir_wfD(2) [OF src(1) ib(1) that] ib(2)] by simp
    qed
    then show ?thesis using e [OF ib(1)] t by (auto simp: walk_eq)
  qed
  moreover have "walk m (cr3 s) v = walk (mem s) (cr3 s) v" for v
    by (rule page_elsewhere(1) [OF m(2) k(4) dst])
  moreover have "dst \<noteq> NULL" "src \<noteq> NULL" using dst(1) low by (auto simp: low_page_def)
  ultimately show thesis using that [of m] c m(1,2) e by (simp add: paging_copy_directory_def)
qed

lemma dir_wf_copy:
  assumes "dir_wf m d" "low_page d'" "d' \<notin> tables m d"
    and e: "\<And>j. unat j < 1024 \<Longrightarrow> pde m' d' j = pde m d j"
  shows "dir_wf m' d'" "tables m' d' = tables m d"
proof -
  have t: "table_of m' d' j = table_of m d j" if "unat j < 1024" for j
    using e [OF that] by (simp add: table_of_def)
  have n: "table_of m d j \<noteq> d'" if "unat j < 1024" "present (pde m d j)" for j
    using assms(3) that by (auto simp: tables_def)
  show "dir_wf m' d'"
    unfolding dir_wf_def using assms(2) e t n dir_wfD [OF assms(1)] by auto
  show "tables m' d' = tables m d"
    unfolding tables_def by (rule image_cong) (use e t in auto)
qed

section \<open>Properties\<close>

lemma paging_init_establishes:
  assumes "paging_off s" "image_layout kpd kpt" "pmm_ok (frames s)"
    and "unat kpd div 4096 \<in> used_set (frames s)"
    and "\<And>k. k < 4 \<Longrightarrow> unat kpt div 4096 + k \<in> used_set (frames s)"
  shows "\<exists>s'. paging_init kpd kpt s = Inr s' \<and> paging_ok s' \<and> kernel_directory s' = kpd \<and>
    frames s' = frames s \<and> tlb s' = Map.empty \<and> (\<forall>v. translate s' v = (if unat v < 0x1000000 then Some v else None))"
proof -
  obtain m where m: "paging_init kpd kpt s = Inr (s\<lparr>mem := m, cr0 := cr0 s OR CR0_PG, cr3 := kpd,
      tlb := Map.empty, current_directory := kpd, kernel_directory := kpd\<rparr>)" (is "_ = Inr ?s")
    and d: "\<And>k. unat k < 1024 \<Longrightarrow> pde m kpd k = (if k < 4 then (kpt + k * 4096) OR 3 else 0)"
    and t: "\<And>k j. k < 4 \<Longrightarrow> unat j < 1024 \<Longrightarrow> load32 m (entry_at (kpt + k * 4096) j) = ident_entry k j"
    using paging_init_effect [OF assms(1,2)] by blast
  note w = kernel_directory_walk [OF assms(2) d t]
  have pg: "(cr0 s OR CR0_PG) AND CR0_PG \<noteq> 0"
  proof -
    have "bit ((cr0 s OR push_bit 31 1) AND push_bit 31 1) 31"
      by (simp only: bit_or_iff bit_and_iff) (simp add: bit_simps)
    then show ?thesis by auto
  qed
  have kpd: "low_page kpd" using assms(2) by (simp add: image_layout_def)
  have used: "unat (kpt + k * 4096) div 4096 \<in> used_set (frames s)" if "k < 4" for k
  proof -
    have "unat (kpt + k * 4096) div 4096 = unat kpt div 4096 + unat k"
      by (simp add: kernel_tables(1) [OF assms(2) that])
    then show ?thesis using assms(5) [of "unat k"] that by (simp add: word_less_unat)
  qed
  have "low_identity m kpd" using w(1) by (simp add: low_identity_def)
  then have "paging_ok ?s"
    using pg w(2,3) used assms(3,4) kpd by (auto simp: paging_ok_def low_page_def)
  moreover from this have "translate ?s v = (if unat v < 0x1000000 then Some v else None)" for v
    using w(1) by (simp add: translate_walk)
  ultimately show ?thesis using m by (intro exI [of _ ?s]) simp
qed

text \<open>The machine of the witnesses: paging off, one free frame below 16 MiB.\<close>

definition blank_paging :: paging where
  "blank_paging = \<lparr>mem = (\<lambda>_. 0), cr0 = 0, cr3 = 0, tlb = Map.empty, frames = one_free, con = [],
     current_directory = 0, kernel_directory = 0\<rparr>"

lemma blank_paging_ready:
  "paging_off blank_paging" "image_layout 0x110000 0x111000" "pmm_ok (frames blank_paging)"
  "unat (0x110000 :: u32) div 4096 \<in> used_set (frames blank_paging)"
  "k < 4 \<Longrightarrow> unat (0x111000 :: u32) div 4096 + k \<in> used_set (frames blank_paging)"
  by (simp_all add: blank_paging_def paging_off_def image_layout_def low_page_def one_free_state)

lemma boot_paging:
  "\<exists>s. paging_init 0x110000 0x111000 blank_paging = Inr s \<and> paging_ok s \<and> frames s = one_free \<and>
     tlb s = Map.empty \<and> (\<forall>v. translate s v = (if unat v < 0x1000000 then Some v else None))"
proof -
  obtain s where s: "paging_init 0x110000 0x111000 blank_paging = Inr s" "paging_ok s"
    "frames s = frames blank_paging" "tlb s = Map.empty" "\<forall>v. translate s v = (if unat v < 0x1000000 then Some v else None)"
    using paging_init_establishes [OF blank_paging_ready] by blast
  then show ?thesis using s by (simp add: blank_paging_def)
qed

lemma one_free_alloc: "fst (pmm_alloc_frame one_free) = 0x12C000"
  using pmm_alloc_frame_Some(1) [OF one_free_state(1,5)] by (simp add: word_eq_unat)

text \<open>
  C11. \<open>paging_init\<close> turns paging on with an address space in which the first 16 MiB translate to
  themselves and nothing else translates; the directory and its four tables are well formed, so the
  kernel can go on changing them. The directory and tables of the image must be in pages of their
  own below 16 MiB, reserved in the frame allocator.
\<close>
theorem paging_init_identity:
  assumes "paging_off s" "image_layout kpd kpt" "pmm_ok (frames s)"
    and "unat kpd div 4096 \<in> used_set (frames s)"
    and "\<And>k. k < 4 \<Longrightarrow> unat kpt div 4096 + k \<in> used_set (frames s)"
  shows "\<exists>s'. paging_init kpd kpt s = Inr s' \<and> paging_ok s' \<and> kernel_directory s' = kpd \<and>
    frames s' = frames s \<and> tlb s' = Map.empty \<and> (\<forall>v. translate s' v = (if unat v < 0x1000000 then Some v else None))"
  using assms by (rule paging_init_establishes)

theorem paging_init_identity_witness:
  "\<exists>s'. paging_init 0x110000 0x111000 blank_paging = Inr s' \<and> paging_ok s' \<and>
     translate s' 0xB8000 = Some 0xB8000 \<and> translate s' 0x1000000 = None"
  using paging_init_identity [OF blank_paging_ready] by auto

text \<open>
  C10. \<open>paging_map_page\<close> changes the translation of exactly one page: addresses in the page of
  \<open>virt_addr\<close> go to the same offset of the frame, or nowhere when the flags lack the present bit,
  and every other address translates as before. The cached translations stay coherent with the
  tables. This holds for pages from 16 MiB on when their table exists or the frame allocator can
  give a frame below 16 MiB for it.
\<close>
theorem paging_map_page_correct:
  assumes "paging_ok s" "table_ready s va" "0x1000000 \<le> unat va" "tlb_coherent s"
  shows "\<exists>s'. paging_map_page va pa flags s = Inr s' \<and> paging_ok s' \<and> tlb_coherent s' \<and>
    (\<forall>v. translate s' v =
       (if PAGE_ALIGN_DOWN v = PAGE_ALIGN_DOWN va
        then (if present flags then Some (PAGE_FRAME pa OR PAGE_OFFSET v) else None)
        else translate s v))"
proof -
  obtain m f where m: "paging_map_page va pa flags s =
      Inr (s\<lparr>mem := m, frames := f, tlb := (tlb s)(PAGE_ALIGN_DOWN va := None)\<rparr>)"
    and w: "\<And>v. walk m (current_directory s) v = (if PAGE_ALIGN_DOWN v = PAGE_ALIGN_DOWN va
        then (if present flags then Some (PAGE_FRAME pa OR PAGE_OFFSET v) else None)
        else walk (mem s) (current_directory s) v)"
    and ok: "paging_ok (s\<lparr>mem := m, frames := f, tlb := (tlb s)(PAGE_ALIGN_DOWN va := None)\<rparr>)"
    using map_page_effect [OF assms(1,2), of pa flags] assms(3) by blast
  let ?s = "s\<lparr>mem := m, frames := f, tlb := (tlb s)(PAGE_ALIGN_DOWN va := None)\<rparr>"
  have t: "translate ?s v = (if PAGE_ALIGN_DOWN v = PAGE_ALIGN_DOWN va
        then (if present flags then Some (PAGE_FRAME pa OR PAGE_OFFSET v) else None)
        else translate s v)" for v
    using w by (simp add: translate_walk [OF ok] translate_walk [OF assms(1)])
  have "tlb_coherent ?s"
    unfolding tlb_coherent_def
  proof (intro allI impI)
    fix v p assume "tlb ?s v = Some p"
    then have "tlb s v = Some p" "v \<noteq> PAGE_ALIGN_DOWN va" by (auto split: if_splits)
    then show "PAGE_ALIGN_DOWN v = v \<and> translate ?s v = Some p"
      using assms(4) t [of v] by (auto simp: tlb_coherent_def)
  qed
  then show ?thesis using m ok t by blast
qed

theorem paging_map_page_correct_witness:
  "\<exists>(s :: paging) s'. translate s 0x1000123 = None \<and> paging_map_page 0x1000000 0x200000 PAGE_KERNEL s = Inr s' \<and>
     translate s' 0x1000123 = Some 0x200123 \<and> translate s' 0x1001123 = None"
proof -
  obtain s :: paging where s: "paging_ok s" "frames s = one_free" "tlb s = Map.empty"
    "\<forall>v. translate s v = (if unat v < 0x1000000 then Some v else None)" using boot_paging by blast
  have "table_ready s 0x1000000"
    using s(2) one_free_alloc by (simp add: table_ready_def low_page_def)
  moreover have "tlb_coherent s" using s(3) by (simp add: tlb_coherent_def)
  ultimately obtain s' where "paging_map_page 0x1000000 0x200000 PAGE_KERNEL s = Inr s'"
    "\<And>v. translate s' v = (if PAGE_ALIGN_DOWN v = PAGE_ALIGN_DOWN 0x1000000
        then (if present PAGE_KERNEL then Some (PAGE_FRAME 0x200000 OR PAGE_OFFSET v) else None)
        else translate s v)"
    using paging_map_page_correct [OF s(1), of "0x1000000" "0x200000" 3] by auto
  moreover from this(2) [of "0x1000123"] this(2) [of "0x1001123"] s(4)
  have "translate s' 0x1000123 = Some 0x200123" "translate s' 0x1001123 = None" "translate s 0x1000123 = None"
    by (simp_all add: PAGE_ALIGN_DOWN_def PAGE_FRAME_def PAGE_OFFSET_def present_def)
  ultimately show ?thesis by blast
qed

text \<open>
  C13. \<open>paging_unmap_page\<close> removes the translation of exactly one page and leaves no cached copy of
  it behind; unmapping what is not mapped does nothing.
\<close>
theorem paging_unmap_page_correct:
  assumes "paging_ok s" "0x1000000 \<le> unat va" "tlb_coherent s"
  shows "\<exists>s'. paging_unmap_page va s = Inr s' \<and> paging_ok s' \<and> tlb_coherent s' \<and> frames s' = frames s \<and>
    (\<forall>v. translate s' v = (if PAGE_ALIGN_DOWN v = PAGE_ALIGN_DOWN va then None else translate s v))"
proof -
  obtain m c where m: "paging_unmap_page va s = Inr (s\<lparr>mem := m, tlb := c\<rparr>)"
    and w: "\<And>v. walk m (current_directory s) v = (if PAGE_ALIGN_DOWN v = PAGE_ALIGN_DOWN va then None
        else walk (mem s) (current_directory s) v)"
    and ok: "paging_ok (s\<lparr>mem := m, tlb := c\<rparr>)"
    and c: "c = (tlb s)(PAGE_ALIGN_DOWN va := None) \<or>
       c = tlb s \<and> walk (mem s) (current_directory s) (PAGE_ALIGN_DOWN va) = None"
    using unmap_page_effect [OF assms(1), of va] assms(2) by blast
  let ?s = "s\<lparr>mem := m, tlb := c\<rparr>"
  have t: "translate ?s v = (if PAGE_ALIGN_DOWN v = PAGE_ALIGN_DOWN va then None else translate s v)" for v
    using w by (simp add: translate_walk [OF ok] translate_walk [OF assms(1)])
  have "tlb_coherent ?s"
    unfolding tlb_coherent_def
  proof (intro allI impI)
    fix v p assume "tlb ?s v = Some p"
    then have v: "tlb s v = Some p" "v \<noteq> PAGE_ALIGN_DOWN va"
      using c assms(3) by (auto simp: tlb_coherent_def translate_walk [OF assms(1)] split: if_splits)
    then show "PAGE_ALIGN_DOWN v = v \<and> translate ?s v = Some p"
      using assms(3) t [of v] by (auto simp: tlb_coherent_def)
  qed
  then show ?thesis using m ok t by auto
qed

theorem paging_unmap_page_correct_witness:
  "\<exists>(s :: paging) s'. paging_ok s \<and> paging_unmap_page 0x1000000 s = Inr s' \<and>
     translate s' 0x1000123 = None \<and> translate s' 0xB8000 = Some 0xB8000"
proof -
  obtain s :: paging where s: "paging_ok s" "tlb s = Map.empty"
    "\<forall>v. translate s v = (if unat v < 0x1000000 then Some v else None)" using boot_paging by blast
  then have "tlb_coherent s" by (simp add: tlb_coherent_def)
  then obtain s' where "paging_unmap_page 0x1000000 s = Inr s'"
    "\<forall>v. translate s' v = (if PAGE_ALIGN_DOWN v = PAGE_ALIGN_DOWN 0x1000000 then None else translate s v)"
    using paging_unmap_page_correct [OF s(1), of "0x1000000"] by auto
  then show ?thesis using s by (intro exI [of _ s] exI [of _ s']) (simp add: PAGE_ALIGN_DOWN_def)
qed

text \<open>
  The lookups the kernel does in software agree with the walk the processor does:
  \<open>paging_get_physical\<close> returns the translated address, 0 when there is none, and
  \<open>paging_is_mapped\<close> tells whether there is one. Neither faults.
\<close>
lemma paging_lookup_is_translation:
  assumes "paging_ok s"
  shows "paging_get_physical v s = Inr (case translate s v of None \<Rightarrow> 0 | Some p \<Rightarrow> p) \<and>
    paging_is_mapped v s = Inr (translate s v \<noteq> None)"
  using get_physical_walk [OF assms] by (simp add: translate_walk [OF assms])

text \<open>
  The kernel clears a new page table through its physical address. When the frame allocator
  hands out a frame that has no translation at that address, as it does for every frame from 16 MiB
  on that nobody mapped, mapping a page ends in a page fault at the first byte of the frame.
\<close>
lemma paging_map_high_frame_faults:
  assumes "paging_ok s" "\<not> present (pde (mem s) (current_directory s) (PAGE_DIR_INDEX va))"
    and "fst (pmm_alloc_frame (frames s)) = t" "t \<noteq> 0" "translate s t = None"
  shows "paging_map_page va pa flags s = Inl (PageFault t)"
proof -
  let ?d = "current_directory s" and ?i = "PAGE_DIR_INDEX va"
  note k = paging_okD [OF assms(1)] and ib = index_bounds(1) [of va]
  obtain fr where fr: "pmm_alloc_frame (frames s) = (t, fr)" using assms(3) by (cases "pmm_alloc_frame (frames s)") auto
  have low: "low_page ?d" using k(2,7) by simp
  have "vload32 s (entry_at ?d ?i) = Inr (pde (mem s) ?d ?i)"
    by (rule vload32_low [OF paging_ok_low_access [OF assms(1)] low ib])
  moreover have "translate (s\<lparr>frames := fr\<rparr>) t = None" using assms(5) by (simp only: translate_frames)
  then have "memset_paging t 0 4096 (s\<lparr>frames := fr\<rparr>) = Inl (PageFault t)"
    by (simp add: memset_paging.simps [of t 0 4096] vstore8_def)
  ultimately show ?thesis using assms(2,4) fr k(3)
    by (simp add: paging_map_page_def paging_map_page_in_directory_def paging_get_or_create_table_def Let_def)
qed

text \<open>32 MiB with frame 5000, above 16 MiB, as the only free frame.\<close>

definition high_free :: pmm where
  "high_free = pmm_free_frame 0x1388000 (all_used 0x2000000)"

lemma high_free_state:
  "pmm_ok high_free" "used_set high_free = {0..<8192} - {5000}" "fst (pmm_alloc_frame high_free) = 0x1388000"
proof -
  have all: "pmm_inv (all_used 0x2000000)" "used_set (all_used 0x2000000) = {0..<8192}"
    using all_used_inv [of "0x2000000"] by simp_all
  have inv: "pmm_inv high_free" and used: "used_set high_free = {0..<8192} - {5000}"
    using pmm_free_frame_effect [OF all(1), of "0x1388000"] by (simp_all add: high_free_def all)
  then show "used_set high_free = {0..<8192} - {5000}" "pmm_ok high_free" by (simp_all add: pmm_ok_def)
  have tot: "total_frames high_free = 8192" by (simp add: high_free_def) (simp add: all_used_def)
  have "free_set high_free = {5000}" by (auto simp: free_set_def used tot)
  then have "first_free high_free = Some 5000" by (auto simp: first_free_Some tot)
  from pmm_alloc_frame_Some(1) [OF inv this] show "fst (pmm_alloc_frame high_free) = 0x1388000"
    by (simp add: word_eq_unat)
qed

text \<open>
  C14. Copying the running directory to a fresh page and switching to the copy changes no
  translation: the copy shares every page table with the original, and the state after the switch
  is again one in which the kernel can map and unmap pages.
\<close>
theorem paging_copy_and_switch:
  assumes ok: "paging_ok s" and dst: "low_page dst" "unat dst div 4096 \<in> used_set (frames s)"
    "dst \<noteq> current_directory s" "dst \<notin> tables (mem s) (current_directory s)"
  shows "\<exists>s'. paging_copy_directory dst (current_directory s) s = Inr s' \<and>
    tables (mem s') dst = tables (mem s) (current_directory s) \<and>
    paging_ok (paging_switch_directory dst s') \<and> tlb_coherent (paging_switch_directory dst s') \<and>
    (\<forall>v. translate s' v = translate s v \<and> translate (paging_switch_directory dst s') v = translate s v)"
proof -
  note k = paging_okD [OF ok]
  have d: "dst \<noteq> cr3 s" "dst \<notin> tables (mem s) (cr3 s)" using dst(3,4) k(2) by simp_all
  have src: "dir_wf (mem s) (current_directory s)" "current_directory s \<noteq> dst" "dst \<notin> tables (mem s) (current_directory s)"
    using k(2,4) dst(3,4) by auto
  obtain m where m: "paging_copy_directory dst (current_directory s) s = Inr (s\<lparr>mem := m\<rparr>)" "same_but dst (mem s) m"
    "\<And>v. walk m dst v = walk (mem s) (current_directory s) v" "\<And>v. walk m (cr3 s) v = walk (mem s) (cr3 s) v"
    "\<And>j. unat j < 1024 \<Longrightarrow> pde m dst j = pde (mem s) (current_directory s) j"
    using copy_directory_effect [OF ok dst(1) d src] by blast
  note w = dir_wf_copy [OF src(1) dst(1) src(3) m(5)]
  let ?t = "paging_switch_directory dst (s\<lparr>mem := m\<rparr>)"
  have nn: "dst \<noteq> NULL" using dst(1) by (auto simp: low_page_def)
  then have sw: "mem ?t = m" "cr0 ?t = cr0 s" "cr3 ?t = dst" "current_directory ?t = dst" "frames ?t = frames s" "tlb ?t = Map.empty"
    by (simp_all add: paging_switch_directory_def load_page_directory_def)
  have "low_identity m dst" using k(2,5) m(3) by (simp add: low_identity_def)
  then have ok': "paging_ok ?t"
    unfolding paging_ok_def sw using k nn w dst(2) by auto
  have "translate ?t v = translate s v" for v
    using m(3) by (simp add: translate_walk [OF ok'] translate_walk [OF ok] sw)
  moreover have "translate (s\<lparr>mem := m\<rparr>) v = translate s v" for v
    using m(4) k(1,8) by (simp add: translate_def)
  moreover have "tlb_coherent ?t" by (simp add: tlb_coherent_def sw)
  ultimately show ?thesis using m(1) ok' w(2) by auto
qed

theorem paging_copy_and_switch_witness:
  "\<exists>(s :: paging) s'. paging_copy_directory 0x180000 (current_directory s) s = Inr s' \<and>
     translate (paging_switch_directory 0x180000 s') 0xB8000 = Some 0xB8000"
proof -
  obtain s where s: "paging_init 0x110000 0x111000 blank_paging = Inr s" "paging_ok s" "frames s = one_free"
    "\<forall>v. translate s v = (if unat v < 0x1000000 then Some v else None)" using boot_paging by blast
  have d: "current_directory s = 0x110000 \<and> tables (mem s) 0x110000 = (\<lambda>k. 0x111000 + k * 4096) ` {k. k < 4}"
  proof (rule paging_init_effect [OF blank_paging_ready(1,2)])
    fix m assume m: "paging_init 0x110000 0x111000 blank_paging = Inr (blank_paging\<lparr>mem := m,
        cr0 := cr0 blank_paging OR CR0_PG, cr3 := 0x110000, tlb := Map.empty,
        current_directory := 0x110000, kernel_directory := 0x110000\<rparr>)"
      and d: "\<And>k. unat k < 1024 \<Longrightarrow> pde m 0x110000 k = (if k < 4 then (0x111000 + k * 4096) OR 3 else 0)"
      and t: "\<And>k j. k < 4 \<Longrightarrow> unat j < 1024 \<Longrightarrow> load32 m (entry_at (0x111000 + k * 4096) j) = ident_entry k j"
    show ?thesis using m s(1) kernel_directory_walk(3) [OF blank_paging_ready(2) d t] by auto
  qed
  have "(0x180000 :: u32) \<noteq> 0x111000 + k * 4096" if "k < 4" for k
    using kernel_tables(1) [OF blank_paging_ready(2) that] that by (auto simp: word_eq_unat word_less_unat)
  then have "0x180000 \<notin> tables (mem s) (current_directory s)" using d by auto
  then obtain s' where "paging_copy_directory 0x180000 (current_directory s) s = Inr s'"
    "\<forall>v. translate (paging_switch_directory 0x180000 s') v = translate s v"
    using paging_copy_and_switch [OF s(2), of "0x180000"] s(3) d
    by (auto simp: low_page_def one_free_state)
  then show ?thesis using s(4) by (intro exI [of _ s] exI [of _ s']) simp
qed

end
