(* ===== verification/Process_Claims.thy ===== *)
theory Process_Claims
  imports Process_Life Paging_Spec
begin

unbundle bit_operations_syntax

text \<open>
  What the process code promises, over the lemmas of \<open>Process_Spec\<close>, \<open>Process_Table\<close> and
  \<open>Process_Life\<close>: the invariant over any sequence of operations, termination of the walks, fair
  scheduling, signals, the end of a process, and the system calls.
\<close>

section \<open>Start\<close>

lemma fold_reset: "keeps s (fold process_reset_memory ks s)"
proof (induction ks arbitrary: s)
  case (Cons k ks)
  have "keeps s (process_reset_memory k s)" by (rule moves_keeps) (rule moves_reset_memory [OF moves_refl])
  then show ?case using Cons by (auto intro: keeps_trans)
qed simp

lemma init_table:
  assumes len: "length t = 16" and z: "\<And>k. k < 16 \<Longrightarrow> benign zero_process (t ! k)" and n: "n \<noteq> 0xFFFFFFFF"
    and p: "used p" "pid p = n" "pnext p = None" "children p = None" "parent p = None" "ring_ok p"
    and s: "process_table s = t[0 := p]" "process_head s = Some 0" "kernel_process s = Some 0"
      "current_process s = Some 0" "scheduler_cursor s = Some 0" "next_pid s = n + 1"
  shows "table_ok {} [0] s"
proof -
  have k: "proc s k = (if k = 0 then p else t ! k)" for k using len s(1) by simp
  have zk: "\<not> used (t ! k)" "ring_ok (t ! k)" "children (t ! k) = None" if "k < 16" for k
    using z [OF that] by (simp_all add: benign_def zero_process_def ring_ok_def)
  have u: "{i. i < 16 \<and> used (proc s i)} = {0}" using zk(1) p(1) by (auto simp: k split: if_splits)
  have f: "\<forall>q < 16. family (process_table s) [0] q"
  proof (intro allI impI)
    fix q :: nat assume "q < 16"
    then have "children (proc s q) = None" using zk(3) p(4) by (simp add: k)
    then show "family (process_table s) [0] q" unfolding family_def by (intro exI [of _ "[]"]) simp
  qed
  have r: "\<forall>i < 16. ring_ok (proc s i)" using zk(2) p(6) by (simp add: k)
  have l: "length (process_table s) = 16" using len s(1) by simp
  have c: "chain (process_table s) (process_head s) [0]" using l p(3) s(2) by (simp add: k)
  show ?thesis
    unfolding table_ok_def using u f r l c s(2-6) p(2,5) next_pid_less [OF n] by (simp add: k)
qed

lemma process_init_ok:
  assumes n: "next_pid s \<noteq> 0xFFFFFFFF"
  shows "runs (table_ok {} [0]) (process_init s)"
proof -
  let ?s = "s\<lparr>process_table := replicate 16 zero_process\<rparr>"
  have "runs (memory_only ?s) (clear_directories ?s)" unfolding clear_directories_def by simp
  then show ?thesis
    unfolding process_init_def Let_def
  proof (rule runs_bind, goal_cases)
    case (1 s1)
    let ?s2 = "fold process_reset_memory [0..<16] s1"
    have k: "keeps ?s ?s2" using keeps_trans [OF keeps_memory [OF 1] fold_reset] .
    then have b: "length (process_table ?s2) = 16" "\<And>i. i < 16 \<Longrightarrow> benign zero_process (proc ?s2 i)" "next_pid ?s2 = next_pid s"
      by (simp_all add: keeps_def)
    then have r: "benign zero_process (proc ?s2 0)" by simp
    show ?case
      unfolding runs_simps
      by (rule init_table [OF b(1,2) n, where p = "(proc ?s2 0)\<lparr>used := True, pid := next_pid s, status := THREAD,
            owner := 0, rights := 0xFFFFFFFF, pmemory := (pmemory (proc ?s2 0))\<lparr>process_page_directory := current_directory ?s2\<rparr>\<rparr>"])
        (use r b(1,3) in \<open>simp_all add: benign_def zero_process_def ring_ok_def upd_def upd_memory_def paging_get_directory_def\<close>)
  qed
qed

section \<open>Sequences of operations\<close>

text \<open>
  The states the process code reaches: the operations of \<open>process.h\<close>, in any order, each returning.
  New processes appear as long as process identifiers last (\<open>next_pid\<close> is never reset).
\<close>

inductive proc_reachable ::
  "(u32 \<Rightarrow> nat \<Rightarrow> i32 \<Rightarrow> u32 \<Rightarrow> 'a procsys_scheme \<Rightarrow> 'a procsys_scheme) \<Rightarrow>
   (nat \<Rightarrow> 'a procsys_scheme \<Rightarrow> 'a procsys_scheme outcome) \<Rightarrow> 'a procsys_scheme \<Rightarrow> bool" for user run where
  init: "next_pid s \<noteq> 0xFFFFFFFF \<Longrightarrow> process_init s = Inr s' \<Longrightarrow> proc_reachable user run s'"
| create: "proc_reachable user run s \<Longrightarrow> next_pid s \<noteq> 0xFFFFFFFF \<Longrightarrow>
    process_create_owned own f n s = Inr (r, s') \<Longrightarrow> proc_reachable user run s'"
| exec: "proc_reachable user run s \<Longrightarrow> next_pid s \<noteq> 0xFFFFFFFF \<Longrightarrow>
    exec_fn addr f n s = Inr (r, s') \<Longrightarrow> proc_reachable user run s'"
| fork: "proc_reachable user run s \<Longrightarrow> next_pid s \<noteq> 0xFFFFFFFF \<Longrightarrow> used (proc s src) \<Longrightarrow> src < 16 \<Longrightarrow>
    fork_process (Some src) s = Inr (r, s') \<Longrightarrow> proc_reachable user run s'"
| exit: "proc_reachable user run s \<Longrightarrow> proc_reachable user run (process_exit p code s)"
| wait: "proc_reachable user run s \<Longrightarrow> process_wait (current_process s) pd s = Inr (r, c, s') \<Longrightarrow> proc_reachable user run s'"
| send: "proc_reachable user run s \<Longrightarrow> send_signal_to_process p pd sig v s = Inr (r, s') \<Longrightarrow> proc_reachable user run s'"
| handler: "proc_reachable user run s \<Longrightarrow> proc_reachable user run (snd (process_signal p h s))"
| socket_send: "proc_reachable user run s \<Longrightarrow> socket_send p pd v s = Inr (r, s') \<Longrightarrow> proc_reachable user run s'"
| socket_recv: "proc_reachable user run s \<Longrightarrow> proc_reachable user run (snd (socket_recv p s))"
| mmap: "proc_reachable user run s \<Longrightarrow> proc_reachable user run (snd (process_mmap p n s))"
| tick: "proc_reachable user run s \<Longrightarrow> proc_reachable user run (scheduler_tick s)"
| yield: "proc_reachable user run s \<Longrightarrow> proc_reachable user run (process_yield regs s)"
| deliver: "proc_reachable user run s \<Longrightarrow> process_deliver_all_pending_signals user s = Inr s' \<Longrightarrow> proc_reachable user run s'"
| run_pending: "proc_reachable user run s \<Longrightarrow> scheduler_run_pending user run regs m s = Inr (n, s') \<Longrightarrow> proc_reachable user run s'"

lemma reachable_proc_ok:
  assumes "handlers_ok user" "run_ok run"
  shows "proc_reachable user run s \<Longrightarrow> proc_ok s"
proof (induction rule: proc_reachable.induct)
  case (init s s')
  then show ?case using process_init_ok [of s] by (auto simp: proc_ok_def)
next
  case (create s own f n r s')
  then show ?case using proc_ok_create(1) [of s own f n] by simp
next
  case (exec s addr f n r s')
  then show ?case using proc_ok_create(2) [of s addr f n] by simp
next
  case (fork s src r s')
  then show ?case using proc_ok_fork [of s src] by simp
next
  case (exit s p code)
  show ?case by (rule proc_ok_keeps [OF exit.IH]) (rule keeps_exit [OF keeps_refl])
next
  case (wait s pd r c s')
  then show ?case using proc_ok_wait [of s pd] by simp
next
  case (send s p pd sig v r s')
  then show ?case using proc_ok_send_signal [of s p pd sig v] by simp
next
  case (handler s p h)
  show ?case by (rule proc_ok_keeps [OF handler.IH]) (rule keeps_signal_handler [OF keeps_refl])
next
  case (socket_send s p pd v r s')
  then show ?case using proc_ok_socket_send [of s p pd v] by simp
next
  case (socket_recv s p)
  show ?case by (rule proc_ok_keeps [OF socket_recv.IH]) (rule keeps_socket_recv [OF keeps_refl])
next
  case (mmap s p n)
  show ?case by (rule proc_ok_keeps [OF mmap.IH]) (rule keeps_mmap [OF keeps_refl])
next
  case (tick s)
  show ?case by (rule proc_ok_keeps [OF tick.IH]) (simp add: scheduler_tick_def)
next
  case (yield s regs)
  show ?case by (rule proc_ok_keeps [OF yield.IH]) (rule keeps_yield [OF keeps_refl])
next
  case (deliver s s')
  then show ?case using proc_ok_deliver_all [OF assms(1), of s] by simp
next
  case (run_pending s regs m n s')
  then show ?case using proc_ok_run_pending [OF assms, of s regs m 0] by (simp add: scheduler_run_pending_def)
qed

text \<open>Before paging is on, \<open>process_init\<close> cannot fault; a machine to start from.\<close>

lemma memset_off: "cr0 s AND CR0_PG = 0 \<Longrightarrow> \<exists>m. memset_paging p v n s = Inr (s\<lparr>mem := m\<rparr>)"
proof (induction p v n s rule: memset_paging.induct)
  case (1 p v n s)
  show ?case
  proof (cases "n = 0")
    case True
    then show ?thesis by (intro exI [of _ "mem s"]) (simp add: memset_paging.simps [of p v 0 s])
  next
    case False
    have "vstore8 p v s = Inr (s\<lparr>mem := store8 p v (mem s)\<rparr>)" using 1(2) by (simp add: vstore8_def translate_def)
    then show ?thesis using 1(1) [OF False, of "s\<lparr>mem := store8 p v (mem s)\<rparr>"] 1(2) False
      by (auto simp: memset_paging.simps [of p v n s])
  qed
qed

definition blank_machine :: procsys where
  "blank_machine = \<lparr>mem = \<lambda>_. 0, cr0 = 0, cr3 = 0, tlb = Map.empty, frames = one_free, con = [],
     current_directory = 0, kernel_directory = 0, process_table = [], scheduler_context = zero_context,
     process_head = None, current_process = None, kernel_process = None, scheduler_cursor = None, next_pid = 1,
     pending_scheduler_ticks = 0, total_scheduler_ticks = 0, total_context_switches = 0, scheduler_enabled = False,
     pcpu = \<lparr>eflags = 0, port_out = []\<rparr>, process_page_directories = 0x110000, process_bootstrap = 0x100000\<rparr>"

lemma init_blank: "\<exists>s. process_init blank_machine = Inr s \<and> table_ok {} [0] s \<and> scheduler_enabled s \<and> status (proc s 0) = THREAD"
proof -
  let ?s = "blank_machine\<lparr>process_table := replicate 16 zero_process\<rparr>"
  obtain m where "clear_directories ?s = Inr (?s\<lparr>mem := m\<rparr>)"
    using memset_off [of ?s "0x110000" 0 "16 * 4096"] by (auto simp: clear_directories_def blank_machine_def)
  moreover have "length (process_table (fold process_reset_memory [0..<16] (?s\<lparr>mem := m\<rparr>))) = 16"
    using fold_reset [of "?s\<lparr>mem := m\<rparr>" "[0..<16]"] by (simp add: keeps_def)
  ultimately obtain s where "process_init blank_machine = Inr s" "scheduler_enabled s" "status (proc s 0) = THREAD"
    unfolding process_init_def Let_def by (simp add: upd_memory_def upd_def del: upt_rec_numeral upt_Suc fold_simps)
  then show ?thesis using process_init_ok [of blank_machine] by (auto simp: blank_machine_def)
qed

text \<open>A table with the kernel's process alone.\<close>

definition only_kernel :: "'a procsys_scheme \<Rightarrow> 'a procsys_scheme" where
  "only_kernel s = s\<lparr>process_table := (replicate 16 zero_process)[0 := zero_process\<lparr>used := True, pid := 1\<rparr>],
     process_head := Some 0, kernel_process := Some 0, current_process := Some 0, scheduler_cursor := Some 0, next_pid := 2\<rparr>"

lemma only_kernel_ok: "table_ok {} [0] (only_kernel s)"
  unfolding only_kernel_def
  by (rule init_table [where t = "replicate 16 zero_process" and n = 1 and p = "zero_process\<lparr>used := True, pid := 1\<rparr>"])
    (simp_all add: zero_process_def ring_ok_def)

lemma handlers_ok_ignore: "handlers_ok (\<lambda>f i sig v s. s)"
  by (simp add: handlers_ok_def)

lemma run_ok_yield: "run_ok (\<lambda>i s. Inr (process_yield regs s))"
  by (simp add: run_ok_def proc_ok_keeps [OF _ keeps_yield [OF keeps_refl]])

lemma boot_reachable:
  obtains s where "process_init blank_machine = Inr s"
    "proc_reachable (\<lambda>f i sig v s. s) (\<lambda>i s. Inr (process_yield zero_context s)) s"
proof -
  obtain s where s: "process_init blank_machine = Inr s" using init_blank by blast
  have "proc_reachable (\<lambda>f i sig v s. s) (\<lambda>i s. Inr (process_yield zero_context s)) s"
    by (rule proc_reachable.init [OF _ s]) (simp add: blank_machine_def)
  then show thesis using that s by blast
qed

section \<open>Properties of the table\<close>

text \<open>
  C15. The process table stays in order. Whatever operations of \<open>process.c\<close> run after
  \<open>process_init\<close>, in any order, the list from \<open>process_head\<close> visits every slot in use exactly once and
  ends, beginning with the kernel's slot; the children of a process are linked to it; cursor and
  running process are in the list; ring indices are in range; process identifiers are distinct.
\<close>

theorem process_table_invariant:
  assumes "handlers_ok user" "run_ok run" "proc_reachable user run s"
  shows "\<exists>L. table_ok {} L s"
  using reachable_proc_ok [OF assms] by (simp add: proc_ok_def)

theorem process_table_invariant_witness:
  "\<exists>s. process_init blank_machine = Inr s \<and>
     (\<exists>L. table_ok {} L (scheduler_tick (process_exit (Some 0) 3 s)))"
proof -
  obtain s where s: "process_init blank_machine = Inr s"
    and r: "proc_reachable (\<lambda>f i sig v s. s) (\<lambda>i s. Inr (process_yield zero_context s)) s"
    by (rule boot_reachable)
  from r have "proc_reachable (\<lambda>f i sig v s. s) (\<lambda>i s. Inr (process_yield zero_context s))
      (scheduler_tick (process_exit (Some 0) 3 s))"
    by (intro proc_reachable.tick proc_reachable.exit)
  from process_table_invariant [OF handlers_ok_ignore run_ok_yield this] s show ?thesis by blast
qed

lemma runs_not_diverges: "runs P r \<Longrightarrow> r \<noteq> Inl Diverges"
  by (cases r) auto



text \<open>
  Lookup and count agree with the table. In every reachable state \<open>process_get_by_pid\<close> finds
  the slot of each process by its identifier, finds nothing for an identifier no process has, and
  \<open>process_count\<close> is the number of slots in use.
\<close>

lemma process_lookup_correct:
  assumes "handlers_ok user" "run_ok run" "proc_reachable user run s"
  shows "(\<forall>i < 16. used (proc s i) \<longrightarrow> process_get_by_pid (pid (proc s i)) s = Inr (Some i)) \<and>
    ((\<forall>i < 16. used (proc s i) \<longrightarrow> pid (proc s i) \<noteq> pd) \<longrightarrow> process_get_by_pid pd s = Inr None) \<and>
    process_count s = Inr (word_of_nat (card {i. i < 16 \<and> used (proc s i)}))"
proof -
  obtain L where L: "table_ok {} L s" using reachable_proc_ok [OF assms] by (auto simp: proc_ok_def)
  note D = table_okD [OF L]
  have set: "set L = {i. i < 16 \<and> used (proc s i)}" using D(4) by simp
  have "filter (\<lambda>i. used (proc s i)) L = L" using set by (auto simp: filter_id_conv)
  moreover have "length L = card {i. i < 16 \<and> used (proc s i)}" using distinct_card [OF D(3)] set by simp
  ultimately have "process_count s = Inr (word_of_nat (card {i. i < 16 \<and> used (proc s i)}))"
    using count_chain [OF D(2), of 0] by (simp add: process_count_def)
  moreover have "process_get_by_pid pd s = Inr None" if "\<forall>i < 16. used (proc s i) \<longrightarrow> pid (proc s i) \<noteq> pd"
    using that set by (cases rule: get_by_pid_cases [OF L, of pd]) auto
  ultimately show ?thesis using get_by_pid_Some [OF L] set by blast
qed

section \<open>Round robin\<close>

lemma after_rotate:
  assumes "distinct L" "c \<in> set L" "after c L = X @ j # Y"
  shows "after j L = Y @ X @ [j]"
proof -
  obtain A B where L: "L = A @ c # B" "c \<notin> set A" using assms(2) by (metis split_list_first)
  have eq: "B @ A @ [c] = X @ j # Y" using after_split [OF L(2)] assms(3) L(1) by simp
  have "distinct (X @ j # Y)" using assms(1) L unfolding eq [symmetric] by auto
  then have split: "X' @ j # Y' = X @ j # Y \<Longrightarrow> X = X' \<and> Y = Y'" for X' Y'
    using append_Cons_eq_iff [of j X Y X' Y'] by auto
  have "j \<in> set (B @ A @ [c])" unfolding eq by simp
  then consider B1 B2 where "B = B1 @ j # B2" | A1 A2 where "A = A1 @ j # A2" | "j = c"
    by (auto dest: split_list)
  then show ?thesis
  proof cases
    case 1
    then have "X = B1 \<and> Y = B2 @ A @ [c]" using eq by (intro split) simp
    moreover have "j \<notin> set (A @ c # B1)" using assms(1) L 1 by auto
    from after_split [OF this, of B2] have "after j L = B2 @ (A @ c # B1) @ [j]" using L 1 by simp
    ultimately show ?thesis by simp
  next
    case 2
    then have "X = B @ A1 \<and> Y = A2 @ [c]" using eq by (intro split) simp
    moreover have "j \<notin> set A1" using assms(1) L 2 by auto
    from after_split [OF this, of "A2 @ c # B"] have "after j L = (A2 @ c # B) @ A1 @ [j]" using L 2 by simp
    ultimately show ?thesis by simp
  next
    case 3
    then have "X = B @ A \<and> Y = []" using eq by (intro split) simp
    then show ?thesis using after_split [OF L(2)] L(1) 3 by simp
  qed
qed

text \<open>The scheduler's choice comes no later than the process \<open>i\<close> in the order behind the cursor.\<close>

lemma pick_before:
  assumes "distinct L" "c \<in> set L" "i \<in> set L" "P i"
  obtains "List.find P (after c L) = Some i"
  | j where "List.find P (after c L) = Some j" "j \<in> set L"
      "length (takeWhile (\<lambda>k. k \<noteq> i) (after j L)) < length (takeWhile (\<lambda>k. k \<noteq> i) (after c L))"
proof -
  have "i \<in> set (after c L)" using set_after [OF assms(2)] assms(3) by simp
  then obtain j where j: "List.find P (after c L) = Some j"
    using assms(4) by (metis (mono_tags, lifting) find_None_iff option.exhaust)
  obtain X Y where XY: "after c L = X @ j # Y" "\<forall>k \<in> set X. \<not> P k"
  proof -
    obtain n where "n < length (after c L)" "j = after c L ! n" "\<forall>m < n. \<not> P (after c L ! m)"
      using j by (auto simp: find_Some_iff)
    then show thesis
      by (intro that [of "take n (after c L)" "drop (Suc n) (after c L)"])
        (auto simp: id_take_nth_drop in_set_conv_nth)
  qed
  show thesis
  proof (cases "j = i")
    case True
    then show thesis using that(1) j by simp
  next
    case False
    have iX: "i \<notin> set X" using XY(2) assms(4) by auto
    then have iY: "i \<in> set Y" using \<open>i \<in> set (after c L)\<close> XY(1) False by auto
    have "after j L = Y @ X @ [j]" by (rule after_rotate [OF assms(1,2) XY(1)])
    then have "takeWhile (\<lambda>k. k \<noteq> i) (after j L) = takeWhile (\<lambda>k. k \<noteq> i) Y" using iY by (simp add: takeWhile_append1)
    moreover have "takeWhile (\<lambda>k. k \<noteq> i) (after c L) = X @ j # takeWhile (\<lambda>k. k \<noteq> i) Y"
      unfolding XY(1) using iX False by (subst takeWhile_append2) auto
    moreover have "j \<in> set L" using set_after [OF assms(2)] XY(1) by auto
    ultimately show thesis using that(2) j by simp
  qed
qed



section \<open>Signals\<close>

definition fatal :: "process_pending_signal \<Rightarrow> bool" where
  "fatal x \<longleftrightarrow> psignal x = PROCESS_SIGNAL_TERM \<or> psignal x = PROCESS_SIGNAL_KILL"

lemma proc_upd_other: "i \<noteq> j \<Longrightarrow> proc (upd j f s) i = proc s i"
  by (simp add: upd_def)

lemma exit_slot:
  assumes "i < length (process_table s)" "Some i \<noteq> kernel_process s" "status (proc s i) \<noteq> ZOMBIE"
  shows "proc (process_exit (Some i) code s) i = (proc s i)\<lparr>exit_code := code, status := ZOMBIE\<rparr>"
  using assms by (auto simp: process_exit_def Let_def proc_upd proc_upd_other split: option.split)

lemma handle_default:
  fixes x :: process_pending_signal
  assumes i: "i < length (process_table s)" "Some i \<noteq> kernel_process s" "status (proc s i) \<noteq> ZOMBIE"
    and h: "\<And>f. signal_handler (proc s i) \<noteq> UserHandler f"
  defines "p \<equiv> (proc s i)\<lparr>last_signal := psignal x, last_signal_value := pvalue x\<rparr>"
  shows "proc (handle_process_signal user i x s) i =
    (if fatal x then p\<lparr>exit_code := 128 + psignal x, status := ZOMBIE\<rparr> else p)"
proof -
  let ?s = "upd i (\<lambda>p. p\<lparr>last_signal := psignal x, last_signal_value := pvalue x\<rparr>) s"
  have p: "proc ?s i = p" using i(1) by (simp add: proc_upd p_def)
  have "handle_process_signal user i x s = process_default_signal_handler i (psignal x) (pvalue x) ?s"
    using h p by (auto simp: handle_process_signal_def Let_def p_def split: signal_handler_ptr.split)
  moreover have "upd i (\<lambda>p. p\<lparr>last_signal := psignal x, last_signal_value := pvalue x\<rparr>) ?s = ?s"
    using i(1) by (simp add: upd_def)
  ultimately have eq: "handle_process_signal user i x s =
      (if fatal x then process_exit (Some i) (128 + psignal x) ?s else ?s)"
    by (simp add: process_default_signal_handler_def Let_def fatal_def)
  have "proc (process_exit (Some i) (128 + psignal x) ?s) i = p\<lparr>exit_code := 128 + psignal x, status := ZOMBIE\<rparr>"
    using exit_slot [of i ?s "128 + psignal x"] i p by (simp add: p_def)
  then show ?thesis unfolding eq by (simp add: p)
qed

lemma handlers_default:
  "(\<And>f. signal_handler (proc s i) \<noteq> UserHandler f) \<Longrightarrow>
   handle_process_signal user i x s = handle_process_signal (\<lambda>f i sig v s. s) i x s" if "i < length (process_table s)"
  using that by (auto simp: handle_process_signal_def Let_def proc_upd split: signal_handler_ptr.split)

text \<open>
  The number of signals a delivery handles: up to and including the first fatal one, or all.
\<close>

definition handled :: "process_pending_signal list \<Rightarrow> nat" where
  "handled xs = (if \<exists>x \<in> set xs. fatal x then Suc (length (takeWhile (\<lambda>x. \<not> fatal x) xs)) else length xs)"

lemma handled_simps [simp]: "handled [] = 0" "handled (x # xs) = (if fatal x then 1 else Suc (handled xs))"
  by (auto simp: handled_def)

lemma deliver_default:
  assumes "slot_ok i s" "Some i \<noteq> kernel_process s" "status (proc s i) \<noteq> ZOMBIE"
    "\<And>f. signal_handler (proc s i) \<noteq> UserHandler f"
  shows "\<exists>s'. deliver_from user i d s = Some (d + word_of_nat (handled (signal_items i s)), s') \<and>
    signal_items i s' = drop (handled (signal_items i s)) (signal_items i s) \<and>
    (case List.find fatal (signal_items i s) of
       None \<Rightarrow> status (proc s' i) = status (proc s i)
     | Some x \<Rightarrow> status (proc s' i) = ZOMBIE \<and> exit_code (proc s' i) = 128 + psignal x \<and> last_signal (proc s' i) = psignal x)"
  using assms
proof (induction "signal_items i s" arbitrary: d s)
  case Nil
  then have "psignal_head (proc s i) = psignal_tail (proc s i)"
    using ring_count_zero [OF signal_index(1,2) [OF Nil.prems(1)]] signal_index(7) [OF Nil.prems(1)]
    by (auto simp: signal_items_def ring_items_def)
  then show ?case using Nil.hyps by (simp add: deliver_from.simps [of user i d s] flip: Nil.hyps)
next
  case (Cons x xs)
  note t = take_signal [OF Cons.prems(1) Cons.hyps(2) [symmetric]]
  let ?s1 = "snd (take_process_signal i s)"
  let ?s2 = "handle_process_signal user i x ?s1"
  have i: "i < length (process_table s)" "i < length (process_table ?s1)"
    using Cons.prems(1) t(3) by (simp_all add: slot_ok_def)
  have p1: "proc ?s1 i = (proc s i)\<lparr>psignal_head := (psignal_head (proc s i) + 1) mod 16\<rparr>" "kernel_process ?s1 = kernel_process s"
    using i(1) by (simp_all add: take_process_signal_def Let_def proc_upd)
  have h1: "signal_handler (proc ?s1 i) \<noteq> UserHandler f" for f using Cons.prems(4) p1 by simp
  have p2: "proc ?s2 i = (let p = (proc ?s1 i)\<lparr>last_signal := psignal x, last_signal_value := pvalue x\<rparr> in
      if fatal x then p\<lparr>exit_code := 128 + psignal x, status := ZOMBIE\<rparr> else p)"
    using handle_default [OF i(2) _ _ h1, of user x] Cons.prems(2,3) p1 by (simp add: Let_def)
  have ign: "?s2 = handle_process_signal (\<lambda>f i sig v s. s) i x ?s1" using handlers_default [OF i(2) h1] .
  note k2 = handle_signal [OF handlers_ok_ignore, where i = i and x = x and s = ?s1, folded ign]
  have items: "signal_items i ?s2 = xs" using k2(2) t(2) by simp
  have step: "deliver_from user i d s = (if status (proc ?s2 i) = ZOMBIE then Some (d + 1, ?s2) else deliver_from user i (d + 1) ?s2)"
    using t(1,4) by (simp add: deliver_from.simps [of user i d s] split_beta Let_def)
  show ?case
  proof (cases "fatal x")
    case True
    then show ?thesis using step p2 items by (simp add: Let_def flip: Cons.hyps(2))
  next
    case False
    have st: "status (proc ?s2 i) = status (proc s i)" "signal_handler (proc ?s2 i) = signal_handler (proc s i)"
      using p2 p1 False by (simp_all add: Let_def)
    have "kernel_process ?s2 = kernel_process s" using k2(1) p1(2) by (simp add: keeps_def)
    then obtain s' where s': "deliver_from user i (d + 1) ?s2 = Some (d + 1 + word_of_nat (handled xs), s')"
        "signal_items i s' = drop (handled xs) xs"
        "case List.find fatal xs of None \<Rightarrow> status (proc s' i) = status (proc ?s2 i)
         | Some x \<Rightarrow> status (proc s' i) = ZOMBIE \<and> exit_code (proc s' i) = 128 + psignal x \<and> last_signal (proc s' i) = psignal x"
      using Cons.hyps(1) [of ?s2 "d + 1", OF items [symmetric] slot_ok_keeps [OF k2(1) t(3)]] items st Cons.prems(2-4) by auto
    then show ?thesis using step False st Cons.prems(3) s'(3) [unfolded st(1)]
      by (intro exI [of _ s']) (simp add: algebra_simps flip: Cons.hyps(2))
  qed
qed

lemma queue_full_items:
  "slot_ok i s \<Longrightarrow> length (signal_items i s) = 15 \<Longrightarrow> queue_process_signal (Some i) sig v s = (-1, s)"
proof -
  assume ok: "slot_ok i s" and "length (signal_items i s) = 15"
  then show ?thesis
    using queue_signal_full [OF ok] ring_next(1) [OF signal_index(1,2) [OF ok]] signal_index(6) [OF ok]
    by (simp add: signal_items_def)
qed

definition queue_signals :: "nat \<Rightarrow> process_pending_signal list \<Rightarrow> 'a procsys_scheme \<Rightarrow> 'a procsys_scheme" where
  "queue_signals i xs s = fold (\<lambda>x s. snd (queue_process_signal (Some i) (psignal x) (pvalue x) s)) xs s"

lemma queue_one:
  fixes x :: process_pending_signal
  assumes "slot_ok i s"
  defines "s' \<equiv> snd (queue_process_signal (Some i) (psignal x) (pvalue x) s)"
  shows "s' = snd (put_signal i x s)" "slot_ok i s'" "status (proc s' i) = status (proc s i)"
    "signal_handler (proc s' i) = signal_handler (proc s i)" "kernel_process s' = kernel_process s"
proof -
  show eq: "s' = snd (put_signal i x s)" by (simp add: s'_def put_signal_def split_beta)
  show "slot_ok i s'" unfolding eq by (rule process_signals.put_inv [OF assms(1)])
  have i: "i < length (process_table s)" using assms(1) by (simp add: slot_ok_def)
  have "s' = s \<or> s' = upd i (\<lambda>p. p\<lparr>pending_process_signals := (pending_process_signals p)
      [unat (psignal_tail p) := \<lparr>psignal = psignal x, pvalue = pvalue x\<rparr>], psignal_tail := (psignal_tail p + 1) mod 16\<rparr>) s"
    unfolding s'_def
    by (cases "(psignal_tail (proc s i) + 1) mod 16 = psignal_head (proc s i)")
      (simp_all add: queue_signal_full [OF assms(1)] queue_signal_room [OF assms(1)])
  then show "status (proc s' i) = status (proc s i)" "signal_handler (proc s' i) = signal_handler (proc s i)"
      "kernel_process s' = kernel_process s"
    using i by (auto simp: proc_upd)
qed

lemma queue_signals_Cons:
  "queue_signals i (x # xs) s = queue_signals i xs (snd (queue_process_signal (Some i) (psignal x) (pvalue x) s))"
  by (simp add: queue_signals_def)

lemma queue_signals_put_all: "slot_ok i s \<Longrightarrow> queue_signals i xs s = process_signals.put_all i xs s"
proof (induction xs arbitrary: s)
  case (Cons x xs)
  note q = queue_one [OF Cons.prems, of x]
  show ?case unfolding queue_signals_Cons Cons.IH [OF q(2)] by (simp add: q(1))
qed (simp add: queue_signals_def)

lemma queue_signals_fields:
  "slot_ok i s \<Longrightarrow> slot_ok i (queue_signals i xs s) \<and>
     status (proc (queue_signals i xs s) i) = status (proc s i) \<and>
     signal_handler (proc (queue_signals i xs s) i) = signal_handler (proc s i) \<and>
     kernel_process (queue_signals i xs s) = kernel_process s"
proof (induction xs arbitrary: s)
  case (Cons x xs)
  note q = queue_one [OF Cons.prems, of x]
  show ?case unfolding queue_signals_Cons using Cons.IH [OF q(2)] q(3-5) by simp
qed (simp add: queue_signals_def)



text \<open>
  C19. Who may signal whom. \<open>send_signal_to_process\<close> and \<open>kill_process\<close> find the target by its
  identifier; they answer -1 and change nothing when there is no such process, when the sender is
  neither the target nor owned by user 0 nor owned by the target's user, or when the target has 15
  signals pending. Otherwise they answer 0 and the signal is the last one pending.
\<close>

theorem send_signal_permissions:
  assumes L: "table_ok {} L s" and f: "f < 16"
  shows "(\<forall>t \<in> set L. pid (proc s t) \<noteq> pd) \<and> send_signal_to_process (Some f) pd sig v s = Inr (-1, s) \<or>
    (\<exists>t \<in> set L. pid (proc s t) = pd \<and>
      (if owner (proc s f) \<noteq> 0 \<and> f \<noteq> t \<and> owner (proc s f) \<noteq> owner (proc s t) \<or> length (signal_items t s) = 15
       then send_signal_to_process (Some f) pd sig v s = Inr (-1, s)
       else \<exists>s'. send_signal_to_process (Some f) pd sig v s = Inr (0, s') \<and>
         signal_items t s' = signal_items t s @ [\<lparr>psignal = sig, pvalue = v\<rparr>]))"
proof (cases rule: get_by_pid_cases [OF L, of pd])
  case 1
  then show ?thesis by (simp add: send_signal_to_process_def process_can_signal_def)
next
  case (2 t)
  have ok: "slot_ok t s" using table_okD(1,7) [OF L] table_ok_bound [OF L 2(2)] by (simp add: slot_ok_def)
  let ?x = "\<lparr>psignal = sig, pvalue = v\<rparr>"
  have can: "process_can_signal (Some f) (Some t) s \<longleftrightarrow> owner (proc s f) = 0 \<or> f = t \<or> owner (proc s f) = owner (proc s t)"
    by (auto simp: process_can_signal_def)
  note full = queue_full_items [OF ok]
  have room: "\<exists>s'. queue_process_signal (Some t) sig v s = (0, s') \<and> signal_items t s' = signal_items t s @ [?x]"
    if "length (signal_items t s) \<noteq> 15"
    using that put_signal_room [OF ok, of ?x] process_signals.bounded [OF ok] by auto
  show ?thesis
    using 2 can full room by (auto simp: send_signal_to_process_def)
qed

theorem send_signal_permissions_witness:
  "\<exists>s :: procsys. table_ok {} [0] s \<and>
    ((\<forall>t \<in> set [0 :: nat]. pid (proc s t) \<noteq> 99) \<and> send_signal_to_process (Some 0) 99 15 0 s = Inr (-1, s) \<or>
    (\<exists>t \<in> set [0 :: nat]. pid (proc s t) = 99 \<and>
      (if owner (proc s 0) \<noteq> 0 \<and> 0 \<noteq> t \<and> owner (proc s 0) \<noteq> owner (proc s t) \<or> length (signal_items t s) = 15
       then send_signal_to_process (Some 0) 99 15 0 s = Inr (-1, s)
       else \<exists>s'. send_signal_to_process (Some 0) 99 15 0 s = Inr (0, s') \<and>
         signal_items t s' = signal_items t s @ [\<lparr>psignal = 15, pvalue = 0\<rparr>])))"
proof -
  obtain s :: procsys where s: "table_ok {} [0] s" using init_blank by blast
  show ?thesis using send_signal_permissions [OF s, of 0 99 15 0] s by (intro exI [of _ s]) simp
qed

section \<open>Sockets\<close>

definition socket_items :: "nat \<Rightarrow> 'a procsys_scheme \<Rightarrow> u32 list" where
  "socket_items i s = ring_items 8 (socket_values (socket (proc s i)))
     (unat (socket_head (socket (proc s i)))) (unat (socket_tail (socket (proc s i))))"

lemma socket_index:
  assumes "slot_ok i s"
  defines "h \<equiv> unat (socket_head (socket (proc s i)))" and "t \<equiv> unat (socket_tail (socket (proc s i)))"
  shows "h < 8" "t < 8" "length (socket_values (socket (proc s i))) = 8"
    "unat ((socket_tail (socket (proc s i)) + 1) mod 8) = Suc t mod 8"
    "unat ((socket_head (socket (proc s i)) + 1) mod 8) = Suc h mod 8"
    "(socket_tail (socket (proc s i)) + 1) mod 8 = socket_head (socket (proc s i)) \<longleftrightarrow> Suc t mod 8 = h"
    "socket_head (socket (proc s i)) = socket_tail (socket (proc s i)) \<longleftrightarrow> h = t"
proof -
  show b: "h < 8" "t < 8" "length (socket_values (socket (proc s i))) = 8"
    using assms(1) by (simp_all add: slot_ok_def ring_ok_def h_def t_def)
  show n: "unat ((socket_tail (socket (proc s i)) + 1) mod 8) = Suc t mod 8"
    "unat ((socket_head (socket (proc s i)) + 1) mod 8) = Suc h mod 8"
    using b(1,2) unat_ring_next [of _ 8 8] by (simp_all add: h_def t_def)
  show "(socket_tail (socket (proc s i)) + 1) mod 8 = socket_head (socket (proc s i)) \<longleftrightarrow> Suc t mod 8 = h"
    using n(1) by (simp add: word_eq_unat h_def)
  show "socket_head (socket (proc s i)) = socket_tail (socket (proc s i)) \<longleftrightarrow> h = t"
    by (simp add: word_eq_unat h_def t_def)
qed

text \<open>What a send to the process in slot \<open>i\<close> stores.\<close>

definition socket_store :: "nat \<Rightarrow> u32 \<Rightarrow> 'a procsys_scheme \<Rightarrow> 'a procsys_scheme" where
  "socket_store i v s = upd i (\<lambda>p. p\<lparr>socket := (socket p)\<lparr>socket_values :=
       (socket_values (socket p))[unat (socket_tail (socket p)) := v],
     socket_tail := (socket_tail (socket p) + 1) mod 8\<rparr>\<rparr>) s"

lemma socket_store_effect:
  assumes ok: "slot_ok i s" and room: "length (socket_items i s) < 7"
  shows "socket_items i (socket_store i v s) = socket_items i s @ [v]" "slot_ok i (socket_store i v s)"
    "signal_items i (socket_store i v s) = signal_items i s"
proof -
  note ix = socket_index [OF ok]
  have i: "i < length (process_table s)" using ok by (simp add: slot_ok_def)
  have ne: "Suc (unat (socket_tail (socket (proc s i)))) mod 8 \<noteq> unat (socket_head (socket (proc s i)))"
    using room ring_next(1) [OF ix(1,2)] by (simp add: socket_items_def)
  show "socket_items i (socket_store i v s) = socket_items i s @ [v]"
    using ring_items_put [OF ix(1,2,3) ne] by (simp add: socket_store_def socket_items_def proc_upd i ix(4))
  show "slot_ok i (socket_store i v s)"
    unfolding socket_store_def by (rule slot_ok_upd [OF ok]) (use ok ix(2,3,4) in \<open>simp add: slot_ok_def ring_ok_def\<close>)
  show "signal_items i (socket_store i v s) = signal_items i s"
    unfolding socket_store_def by (rule signal_items_upd) simp_all
qed

lemma socket_send_eq:
  assumes L: "table_ok {} L s" and i: "i \<in> set L"
  shows "socket_send f (pid (proc s i)) v s =
    (if length (socket_items i s) = 7 then Inr (-1, s)
     else Inr (queue_process_signal (Some i) PROCESS_SIGNAL_SOCKET v (socket_store i v s)))"
proof -
  have ok: "slot_ok i s" using table_okD(1,7) [OF L] table_ok_bound [OF L i] by (simp add: slot_ok_def)
  note ix = socket_index [OF ok]
  have "(socket_tail (socket (proc s i)) + 1) mod 8 = socket_head (socket (proc s i)) \<longleftrightarrow> length (socket_items i s) = 7"
    using ix(6) ring_next(1) [OF ix(1,2)] by (simp add: socket_items_def)
  moreover have "upd i (\<lambda>p. p\<lparr>socket := (socket p)\<lparr>socket_tail := (socket_tail (socket (proc s i)) + 1) mod 8\<rparr>\<rparr>)
      (upd i (\<lambda>p. p\<lparr>socket := (socket p)\<lparr>socket_values := (socket_values (socket p))[unat (socket_tail (socket p)) := v]\<rparr>\<rparr>) s) =
      socket_store i v s"
    using ok by (simp add: socket_store_def upd_def slot_ok_def)
  ultimately show ?thesis
    unfolding socket_send_def get_by_pid_Some [OF L i] by (simp add: Let_def)
qed

definition socket_put :: "nat \<Rightarrow> u32 \<Rightarrow> 'a procsys_scheme \<Rightarrow> bool \<times> 'a procsys_scheme" where
  "socket_put i v s =
     (case socket_send None (pid (proc s i)) v s of
        Inl e \<Rightarrow> (False, s)
      | Inr (r, s') \<Rightarrow> (length (socket_items i s) < 7, s'))"

definition socket_inv :: "nat \<Rightarrow> 'a procsys_scheme \<Rightarrow> bool" where
  "socket_inv i s \<longleftrightarrow> proc_ok s \<and> i < 16 \<and> used (proc s i)"

lemma socket_invD:
  assumes "socket_inv i s"
  obtains L where "table_ok {} L s" "i \<in> set L" "slot_ok i s"
proof -
  obtain L where L: "table_ok {} L s" using assms by (auto simp: socket_inv_def proc_ok_def)
  then have "i \<in> set L" "slot_ok i s"
    using assms table_okD(1,4,7) [OF L] by (simp_all add: socket_inv_def slot_ok_def)
  then show thesis using that L by blast
qed

lemma socket_inv_keeps: "socket_inv i s \<Longrightarrow> keeps s s' \<Longrightarrow> socket_inv i s'"
proof -
  assume a: "socket_inv i s" "keeps s s'"
  obtain L where L: "table_ok {} L s" using socket_invD [OF a(1)] by blast
  have i: "i < 16" "used (proc s i)" "proc_ok s" using a(1) by (simp_all add: socket_inv_def)
  have "benign (proc s i) (proc s' i)" using a(2) i(1) table_okD(1) [OF L] by (simp add: keeps_def)
  then show ?thesis using i proc_ok_keeps [OF i(3) a(2)] by (simp add: socket_inv_def benign_def)
qed

lemma queue_signal_socket:
  assumes "slot_ok i s"
  shows "socket (proc (snd (queue_process_signal (Some i) g v s)) i) = socket (proc s i)"
  using assms
  by (cases "(psignal_tail (proc s i) + 1) mod 16 = psignal_head (proc s i)")
    (simp_all add: queue_signal_full queue_signal_room proc_upd slot_ok_def)

lemma socket_put_room:
  assumes inv: "socket_inv i s" and room: "length (socket_items i s) < 7"
  shows "fst (socket_put i v s)" "socket_items i (snd (socket_put i v s)) = socket_items i s @ [v]"
    "socket_inv i (snd (socket_put i v s))"
proof -
  obtain L where L: "table_ok {} L s" "i \<in> set L" "slot_ok i s" using socket_invD [OF inv] .
  note st = socket_store_effect [OF L(3) room, of v]
  have eq: "socket_put i v s = (True, snd (queue_process_signal (Some i) PROCESS_SIGNAL_SOCKET v (socket_store i v s)))"
    using room by (simp add: socket_put_def socket_send_eq [OF L(1,2)] split_beta)
  show "fst (socket_put i v s)" by (simp add: eq)
  show "socket_items i (snd (socket_put i v s)) = socket_items i s @ [v]"
    using st(1) queue_signal_socket [OF st(2)] by (simp add: eq socket_items_def)
  have "keeps s (socket_store i v s)"
    unfolding socket_store_def by (rule keeps_upd) (simp add: benign_def ring_ok_def ring_step)
  then show "socket_inv i (snd (socket_put i v s))"
    unfolding eq snd_conv by (intro socket_inv_keeps [OF inv] keeps_queue_signal)
qed

lemma socket_recv_item:
  assumes inv: "socket_inv i s" and it: "socket_items i s = x # xs"
  shows "fst (socket_recv (Some i) s) = Some x" "socket_items i (snd (socket_recv (Some i) s)) = xs"
    "socket_inv i (snd (socket_recv (Some i) s))" "last_socket_value (proc (snd (socket_recv (Some i) s)) i) = x"
proof -
  obtain L where L: "table_ok {} L s" "i \<in> set L" "slot_ok i s" using socket_invD [OF inv] .
  note ix = socket_index [OF L(3)]
  have i: "i < length (process_table s)" using L(3) by (simp add: slot_ok_def)
  have ne: "unat (socket_head (socket (proc s i))) \<noteq> unat (socket_tail (socket (proc s i)))"
    using it ring_count_zero [OF ix(1,2)] by (auto simp: socket_items_def ring_items_def)
  have items: "socket_items i s = socket_values (socket (proc s i)) ! unat (socket_head (socket (proc s i))) #
      ring_items 8 (socket_values (socket (proc s i))) (Suc (unat (socket_head (socket (proc s i)))) mod 8)
        (unat (socket_tail (socket (proc s i))))"
    using ring_items_get [OF ix(1,2) ne] by (simp add: socket_items_def)
  from items have x: "socket_values (socket (proc s i)) ! unat (socket_head (socket (proc s i))) = x"
      "ring_items 8 (socket_values (socket (proc s i))) (Suc (unat (socket_head (socket (proc s i)))) mod 8)
        (unat (socket_tail (socket (proc s i)))) = xs"
    using it by simp_all
  have eq: "socket_recv (Some i) s = (Some x, upd i (\<lambda>p. p\<lparr>last_socket_value := x\<rparr>)
      (upd i (\<lambda>p. p\<lparr>socket := (socket p)\<lparr>socket_head := (socket_head (socket p) + 1) mod 8\<rparr>\<rparr>) s))"
    using ne ix(7) x(1) by (simp add: socket_recv_def Let_def)
  have p: "proc (snd (socket_recv (Some i) s)) i = (proc s i)\<lparr>socket := (socket (proc s i))
      \<lparr>socket_head := (socket_head (socket (proc s i)) + 1) mod 8\<rparr>, last_socket_value := x\<rparr>"
    unfolding eq snd_conv using i by (simp add: proc_upd)
  show "fst (socket_recv (Some i) s) = Some x" by (simp add: eq)
  show "socket_items i (snd (socket_recv (Some i) s)) = xs" unfolding socket_items_def p using x(2) ix(5) by simp
  show "last_socket_value (proc (snd (socket_recv (Some i) s)) i) = x" unfolding p by simp
  show "socket_inv i (snd (socket_recv (Some i) s))"
    by (rule socket_inv_keeps [OF inv]) (rule keeps_socket_recv [OF keeps_refl])
qed

interpretation process_sockets:
  bounded_queue "socket_put i" "socket_recv (Some i)" "socket_items i" "\<lambda>v. True" "socket_inv i" 7 for i
proof unfold_locales
  fix s :: "'a procsys_scheme" and v xs
  assume inv: "socket_inv i s"
  obtain L where L: "table_ok {} L s" "i \<in> set L" "slot_ok i s" using socket_invD [OF inv] .
  note ix = socket_index [OF L(3)]
  show "length (socket_items i s) \<le> 7"
    using ring_count_less [of 8] by (simp add: socket_items_def less_Suc_eq_le [symmetric])
  show "length (socket_items i s) < 7 \<Longrightarrow> fst (socket_put i v s) \<and>
      socket_items i (snd (socket_put i v s)) = socket_items i s @ [v] \<and> socket_inv i (snd (socket_put i v s))"
    using socket_put_room [OF inv] by simp
  show "length (socket_items i s) = 7 \<Longrightarrow> socket_put i v s = (False, s)"
    by (simp add: socket_put_def socket_send_eq [OF L(1,2)])
  show "socket_items i s = [] \<Longrightarrow> socket_recv (Some i) s = (None, s)"
    using ring_count_zero [OF ix(1,2)] ix(7) by (auto simp: socket_items_def socket_recv_def ring_items_def)
  show "socket_items i s = v # xs \<Longrightarrow> fst (socket_recv (Some i) s) = Some v \<and>
      socket_items i (snd (socket_recv (Some i) s)) = xs \<and> socket_inv i (snd (socket_recv (Some i) s))"
    using socket_recv_item [OF inv] by simp
qed simp

primrec send_all :: "nat \<Rightarrow> u32 list \<Rightarrow> 'a procsys_scheme \<Rightarrow> 'a procsys_scheme" where
  "send_all i [] s = s"
| "send_all i (v # vs) s = (case socket_send None (pid (proc s i)) v s of Inl e \<Rightarrow> s | Inr (r, s') \<Rightarrow> send_all i vs s')"

primrec recv_many :: "nat \<Rightarrow> nat \<Rightarrow> 'a procsys_scheme \<Rightarrow> u32 list" where
  "recv_many i 0 s = []"
| "recv_many i (Suc n) s = (case socket_recv (Some i) s of (None, s') \<Rightarrow> [] | (Some v, s') \<Rightarrow> v # recv_many i n s')"

lemma send_all_put: "socket_inv i s \<Longrightarrow> send_all i vs s = process_sockets.put_all i vs s"
proof (induction vs arbitrary: s)
  case (Cons v vs)
  obtain L where L: "table_ok {} L s" "i \<in> set L" using socket_invD [OF Cons.prems] by blast
  obtain r s' where s': "socket_send None (pid (proc s i)) v s = Inr (r, s')"
    unfolding socket_send_eq [OF L] by (cases "length (socket_items i s) = 7"; cases "queue_process_signal (Some i) 17 v (socket_store i v s)") auto
  then have p: "snd (socket_put i v s) = s'" by (simp add: socket_put_def)
  then have "socket_inv i s'" using process_sockets.put_inv [OF Cons.prems, of v] by simp
  then show ?case using Cons.IH s' p by simp
qed simp

lemma recv_many_get: "recv_many i n s = fst (process_sockets.get_many i n s)"
  by (induction n arbitrary: s) (auto simp: split_beta Let_def split: prod.splits option.splits)

lemma open_socket:
  obtains s :: procsys where "table_ok {} [0] s" "slot_ok 0 s" "socket_items 0 s = []"
proof -
  obtain s :: procsys where s: "table_ok {} [0] s" using init_blank by blast
  let ?s = "snd (socket_create (Some 0) s)"
  have eq: "?s = upd 0 (\<lambda>p. p\<lparr>socket := (socket p)\<lparr>socket_head := 0, socket_tail := 0\<rparr>\<rparr>) s"
    by (simp add: socket_create_def)
  have "keeps s ?s" unfolding eq by (rule keeps_upd) (simp add: benign_def ring_ok_def)
  then have L: "table_ok {} [0] ?s" by (rule table_ok_keeps [OF s])
  moreover have "slot_ok 0 ?s" using table_okD(1,7) [OF L] by (simp add: slot_ok_def)
  moreover have "socket_items 0 ?s = []"
    using table_okD(1) [OF s] unfolding eq by (simp add: socket_items_def ring_items_def ring_count_def proc_upd)
  ultimately show thesis by (rule that)
qed

text \<open>
  C20. A socket is a first-in first-out channel of seven values: of the values sent to a process
  whose socket is empty, \<open>socket_recv\<close> returns the first seven in the order they were sent; the
  others were refused.
\<close>

theorem socket_fifo:
  assumes "proc_ok s" "i < 16" "used (proc s i)" "socket_items i s = []"
  shows "recv_many i n (send_all i vs s) = take n (take 7 vs)"
proof -
  have inv: "socket_inv i s" using assms by (simp add: socket_inv_def)
  show ?thesis
    using process_sockets.fifo [OF inv assms(4), of n vs]
    by (simp add: recv_many_get send_all_put [OF inv])
qed

theorem socket_fifo_witness:
  "\<exists>s :: procsys. proc_ok s \<and> recv_many 0 3 (send_all 0 [5, 6, 7, 8] s) = [5, 6, 7]"
proof -
  obtain s :: procsys where s: "table_ok {} [0] s" "socket_items 0 s = []" by (rule open_socket)
  have "proc_ok s" "used (proc s 0)" "(0 :: nat) < 16" using s(1) table_okD(4) [OF s(1)] by (auto simp: proc_ok_def)
  then show ?thesis using socket_fifo [of s 0 3 "[5, 6, 7, 8]"] s(2) by (intro exI [of _ s]) simp
qed

text \<open>
  A send that cannot announce itself still delivers. When the receiver has 15 signals pending
  and room in its socket, \<open>socket_send\<close> stores the value and then answers -1: the sender cannot
  tell it from a refusal, and a retry delivers the value twice.
\<close>

lemma socket_send_stores_and_fails:
  assumes L: "table_ok {} L s" and i: "i \<in> set L"
    and room: "length (socket_items i s) < 7" and full: "length (signal_items i s) = 15"
  shows "\<exists>s'. socket_send f (pid (proc s i)) v s = Inr (-1, s') \<and> socket_items i s' = socket_items i s @ [v]"
proof -
  have ok: "slot_ok i s" using table_okD(1,7) [OF L] table_ok_bound [OF L i] by (simp add: slot_ok_def)
  note st = socket_store_effect [OF ok room, of v]
  have "queue_process_signal (Some i) PROCESS_SIGNAL_SOCKET v (socket_store i v s) = (-1, socket_store i v s)"
    by (rule queue_full_items [OF st(2)]) (simp add: st(3) full)
  then show ?thesis using room st(1) by (simp add: socket_send_eq [OF L i])
qed

lemma queue_signals_keeps: "keeps s (queue_signals i xs s)"
proof (induction xs arbitrary: s)
  case (Cons x xs)
  show ?case unfolding queue_signals_Cons
    by (rule keeps_trans [OF keeps_queue_signal [OF keeps_refl] Cons.IH])
qed (simp add: queue_signals_def)

lemma queue_signals_socket: "slot_ok i s \<Longrightarrow> socket_items i (queue_signals i xs s) = socket_items i s"
proof (induction xs arbitrary: s)
  case (Cons x xs)
  show ?case unfolding queue_signals_Cons Cons.IH [OF queue_one(2) [OF Cons.prems]]
    by (simp add: socket_items_def queue_signal_socket [OF Cons.prems])
qed (simp add: queue_signals_def)

section \<open>The heap of a process\<close>

text \<open>
  \<open>process_mmap\<close> stays inside the heap page. With the break between the start and the end of
  the heap, and a request whose end does not pass the top of the address space: a request that
  fits returns the old break and moves the break by its size, so that successive regions do not
  overlap and end within the heap; one that does not fit, and one of size 0, returns NULL and
  changes nothing.
\<close>

lemma process_mmap_bounds:
  fixes n :: u32
  assumes i: "i < length (process_table s)"
    and h: "pheap_start (pmemory (proc s i)) \<le> heap_break (pmemory (proc s i))"
      "heap_break (pmemory (proc s i)) \<le> pheap_end (pmemory (proc s i))"
    and n: "unat (heap_break (pmemory (proc s i))) + unat n < 4294967296"
  defines "b \<equiv> heap_break (pmemory (proc s i))"
  shows "if n \<noteq> 0 \<and> unat b + unat n \<le> unat (pheap_end (pmemory (proc s i)))
    then \<exists>s'. process_mmap (Some i) n s = (b, s') \<and> unat (heap_break (pmemory (proc s' i))) = unat b + unat n \<and>
      pheap_start (pmemory (proc s' i)) \<le> heap_break (pmemory (proc s' i)) \<and>
      heap_break (pmemory (proc s' i)) \<le> pheap_end (pmemory (proc s' i)) \<and> (\<forall>k. k \<noteq> i \<longrightarrow> proc s' k = proc s k)
    else process_mmap (Some i) n s = (NULL, s)"
proof -
  have sum: "unat (b + n) = unat b + unat n" using n by (simp add: unat_add_exact b_def)
  have fits: "pheap_end (pmemory (proc s i)) < b + n \<longleftrightarrow> \<not> unat b + unat n \<le> unat (pheap_end (pmemory (proc s i)))"
    using sum by (simp add: word_less_unat not_le)
  let ?s = "upd_memory i (\<lambda>m. m\<lparr>heap_break := heap_break m + n\<rparr>) s"
  have p: "pmemory (proc ?s i) = (pmemory (proc s i))\<lparr>heap_break := b + n\<rparr>" "k \<noteq> i \<Longrightarrow> proc ?s k = proc s k" for k
    using i by (simp_all add: upd_memory_def proc_upd b_def)
  have le: "pheap_start (pmemory (proc s i)) \<le> b + n"
    using h(1) sum by (simp add: word_le_unat b_def)
  show ?thesis
  proof (cases "n \<noteq> 0 \<and> unat b + unat n \<le> unat (pheap_end (pmemory (proc s i)))")
    case True
    then have "process_mmap (Some i) n s = (b, ?s)"
      using fits by (simp add: process_mmap_def process_memory_alloc_def b_def)
    then show ?thesis using True p le sum fits by (simp add: not_less)
  next
    case False
    then show ?thesis using fits by (auto simp: process_mmap_def process_memory_alloc_def b_def)
  qed
qed

text \<open>
  The check in \<open>process_memory_alloc\<close> can be passed by a request that does not fit: for a size
  that carries the sum with the break over the top of the address space, the call succeeds and the
  break moves below the start of the heap.
\<close>

lemma process_mmap_wraps:
  assumes i: "i < length (process_table s)" and b: "heap_break (pmemory (proc s i)) = 0x02002000"
    and e: "pheap_start (pmemory (proc s i)) = 0x02002000" "pheap_end (pmemory (proc s i)) = 0x02003000"
  shows "\<exists>s'. process_mmap (Some i) 0xFE000000 s = (0x02002000, s') \<and>
    heap_break (pmemory (proc s' i)) = 0x2000 \<and> heap_break (pmemory (proc s' i)) < pheap_start (pmemory (proc s' i))"
proof -
  let ?s = "upd_memory i (\<lambda>m. m\<lparr>heap_break := heap_break m + 0xFE000000\<rparr>) s"
  have "process_mmap (Some i) 0xFE000000 s = (0x02002000, ?s)"
    by (simp add: process_mmap_def process_memory_alloc_def b e)
  moreover have "pmemory (proc ?s i) = (pmemory (proc s i))\<lparr>heap_break := 0x2000\<rparr>"
    using i b by (simp add: upd_memory_def proc_upd)
  ultimately show ?thesis using e by simp
qed

end
