(* ===== verification/Interrupts_Spec.thy ===== *)
theory Interrupts_Spec
  imports Interrupts
begin

unbundle bit_operations_syntax

text \<open>
  The interrupt controllers as devices, and what \<open>idt_init\<close> and the mask operations make of them
  and of the descriptor table.
\<close>

section \<open>The 8259\<close>

text \<open>
  One controller at the command port \<open>c\<close> and the data port \<open>c + 1\<close>. A command with bit 4 starts
  the initialisation and clears the mask; the data written next are the vector offset, the cascade
  line and the mode; from then on data are the mask. The command 0x20 ends an interrupt.
\<close>

record pic =
  pic_phase :: nat
  pic_offset :: u8
  pic_cascade :: u8
  pic_imr :: u8
  pic_eois :: nat

definition pic_write :: "u16 \<Rightarrow> u16 \<times> u8 \<Rightarrow> pic \<Rightarrow> pic" where
  "pic_write c w p =
     (if fst w = c then
        (if snd w AND 0x10 \<noteq> 0 then p\<lparr>pic_phase := 1, pic_imr := 0\<rparr>
         else if snd w = 0x20 then p\<lparr>pic_eois := pic_eois p + 1\<rparr> else p)
      else if fst w = c + 1 then
        (if pic_phase p = 1 then p\<lparr>pic_offset := snd w, pic_phase := 2\<rparr>
         else if pic_phase p = 2 then p\<lparr>pic_cascade := snd w, pic_phase := 3\<rparr>
         else if pic_phase p = 3 then p\<lparr>pic_phase := 0\<rparr>
         else p\<lparr>pic_imr := snd w\<rparr>)
      else p)"

definition pic_after :: "u16 \<Rightarrow> pic \<Rightarrow> (u16 \<times> u8) list \<Rightarrow> pic" where
  "pic_after c p out = fold (pic_write c) out p"

lemma pic_after_append: "pic_after c p (out @ out') = fold (pic_write c) out' (pic_after c p out)"
  by (simp add: pic_after_def)

text \<open>Outside the initialisation a read of the data port returns the mask.\<close>

definition pic_answers :: "pic \<Rightarrow> pic \<Rightarrow> device \<Rightarrow> bool" where
  "pic_answers p1 p2 dev \<longleftrightarrow>
     (\<forall>out n. pic_phase (pic_after 0x20 p1 out) = 0 \<longrightarrow> dev out n 0x21 = pic_imr (pic_after 0x20 p1 out)) \<and>
     (\<forall>out n. pic_phase (pic_after 0xA0 p2 out) = 0 \<longrightarrow> dev out n 0xA1 = pic_imr (pic_after 0xA0 p2 out))"

section \<open>Programming the controllers\<close>

lemma remap_trace:
  "\<exists>m n. port_out (pic_remap dev a b s) = port_out s @
     [(0x20, 0x11), (0x80, 0), (0xA0, 0x11), (0x80, 0), (0x21, a), (0x80, 0), (0xA1, b), (0x80, 0),
      (0x21, 4), (0x80, 0), (0xA1, 2), (0x80, 0), (0x21, 1), (0x80, 0), (0xA1, 1), (0x80, 0), (0x21, m), (0xA1, n)]"
  by (auto simp: pic_remap_def Let_def inb_def io_wait_def outb_def split: prod.splits)

lemma remap_fields [simp]:
  fixes s :: "'a idtsys_scheme"
  shows "idt_entries (pic_remap dev a b s) = idt_entries s" "idt_descriptor (pic_remap dev a b s) = idt_descriptor s"
    "interrupt_handlers (pic_remap dev a b s) = interrupt_handlers s"
  by (simp_all add: pic_remap_def Let_def inb_def io_wait_def outb_def split: prod.splits)

lemma set_gates_trace:
  "port_out (fold (\<lambda>v. idt_set_gate (f v) (g v) c d) vs s) = port_out s"
  "interrupt_handlers (fold (\<lambda>v. idt_set_gate (f v) (g v) c d) vs s) = interrupt_handlers s"
  by (induction vs arbitrary: s) (simp_all add: idt_set_gate_def)

lemma clear_tables_trace: "port_out (idt_clear_tables s) = port_out s"
proof -
  have "port_out (fold (\<lambda>index s. s\<lparr>idt_entries := (idt_entries s)[index := null_gate],
      interrupt_handlers := (interrupt_handlers s)[index := None]\<rparr>) xs s) = port_out s" for xs
    by (induction xs arbitrary: s) simp_all
  then show ?thesis by (simp add: idt_clear_tables_def)
qed

lemma clear_cells: "length xs = n \<Longrightarrow> m \<le> n \<Longrightarrow> fold (\<lambda>i xs. xs[i := v]) [0..<m] xs = replicate m v @ drop m xs"
proof (induction m)
  case (Suc m)
  then show ?case
    by (simp add: list_update_append Cons_nth_drop_Suc [symmetric, of m xs] replicate_append_same)
qed simp

lemma clear_tables_eq:
  assumes "length (idt_entries s) = 256" "length (interrupt_handlers s) = 256"
  shows "idt_entries (idt_clear_tables s) = replicate 256 null_gate"
    "interrupt_handlers (idt_clear_tables s) = replicate 256 None"
proof -
  have f: "idt_entries (fold (\<lambda>index s. s\<lparr>idt_entries := (idt_entries s)[index := null_gate],
        interrupt_handlers := (interrupt_handlers s)[index := None]\<rparr>) xs s) =
      fold (\<lambda>i xs. xs[i := null_gate]) xs (idt_entries s)"
    "interrupt_handlers (fold (\<lambda>index s. s\<lparr>idt_entries := (idt_entries s)[index := null_gate],
        interrupt_handlers := (interrupt_handlers s)[index := None]\<rparr>) xs s) =
      fold (\<lambda>i xs. xs[i := None]) xs (interrupt_handlers s)" for xs
    by (induction xs arbitrary: s) simp_all
  show "idt_entries (idt_clear_tables s) = replicate 256 null_gate"
    "interrupt_handlers (idt_clear_tables s) = replicate 256 None"
    using clear_cells [OF assms(1) order_refl, of null_gate] clear_cells [OF assms(2) order_refl, of None] assms
    unfolding idt_clear_tables_def f by simp_all
qed

section \<open>Gates\<close>

text \<open>The address a gate holds.\<close>

definition gate_base :: "idt_entry \<Rightarrow> u32" where
  "gate_base e = ucast (idt_base_low e) OR push_bit 16 (ucast (idt_base_high e))"

lemma halves_join: "ucast (ucast (base AND 0xFFFF) :: u16) OR push_bit 16 (ucast (ucast (drop_bit 16 base AND 0xFFFF) :: u16)) = (base :: u32)"
proof -
  have m: "(0xFFFF :: u32) = mask 16" by (simp add: mask_eq_exp_minus_1)
  show ?thesis
  proof (rule bit_word_eqI)
    fix n assume "n < LENGTH(32)"
    then show "bit ((ucast (ucast (base AND 0xFFFF) :: u16) :: u32) OR
        push_bit 16 (ucast (ucast (drop_bit 16 base AND 0xFFFF) :: u16))) n = bit base n"
      unfolding m by (cases "n < 16") (auto simp: bit_simps)
  qed
qed

definition gate :: "u32 \<Rightarrow> u8 \<Rightarrow> idt_entry" where
  "gate base flags = \<lparr>idt_base_low = ucast (base AND 0xFFFF), idt_selector = GDT_KERNEL_CODE_SELECTOR, idt_zero = 0,
     idt_flags = flags, idt_base_high = ucast (drop_bit 16 base AND 0xFFFF)\<rparr>"

lemma gate_base_gate [simp]: "gate_base (gate base flags) = base"
  by (simp add: gate_base_def gate_def halves_join)

lemma set_gates:
  assumes "length (idt_entries s) = 256" "n \<le> 256"
  shows "length (idt_entries (fold (\<lambda>v. idt_set_gate (word_of_nat v) (stubs ! v) GDT_KERNEL_CODE_SELECTOR fl) [0..<n] s)) = 256 \<and>
    (\<forall>v < 256. idt_entries (fold (\<lambda>v. idt_set_gate (word_of_nat v) (stubs ! v) GDT_KERNEL_CODE_SELECTOR fl) [0..<n] s) ! v =
      (if v < n then gate (stubs ! v) fl else idt_entries s ! v))"
  using assms(2)
proof (induction n)
  case (Suc n)
  have "unat (word_of_nat n :: u8) = n" using Suc.prems by (simp add: unat_of_nat)
  then show ?case using Suc by (auto simp: idt_set_gate_def gate_def nth_list_update)
qed (simp add: assms(1))

lemma idt_init_table:
  assumes "length (idt_entries s) = 256" "length (interrupt_handlers s) = 256"
  shows "\<forall>v < 256. idt_entries (idt_init dev stubs syscall_stub addr s) ! v =
      (if v < 48 then gate (stubs ! v) 0x8E else if v = 128 then gate syscall_stub 0xEE else null_gate)"
    "length (idt_entries (idt_init dev stubs syscall_stub addr s)) = 256"
    "interrupt_handlers (idt_init dev stubs syscall_stub addr s) = replicate 256 None"
    "idtr (idt_init dev stubs syscall_stub addr s) = \<lparr>idt_limit = 2047, idt_base = addr\<rparr>"
proof -
  note c = clear_tables_eq [OF assms]
  have l: "length (idt_entries (idt_clear_tables s)) = 256" using c by simp
  let ?t = "fold (\<lambda>v. idt_set_gate (word_of_nat v) (stubs ! v) GDT_KERNEL_CODE_SELECTOR IDT_FLAG_INTERRUPT_GATE) [0..<48] (idt_clear_tables s)"
  have e: "idt_entries (idt_init dev stubs syscall_stub addr s) = (idt_entries ?t)[128 := gate syscall_stub 0xEE]"
    by (simp add: idt_init_def Let_def outb_def idt_set_gate_def [of 128] gate_def)
  note g = set_gates [OF l, of 48 stubs IDT_FLAG_INTERRUPT_GATE]
  then show "\<forall>v < 256. idt_entries (idt_init dev stubs syscall_stub addr s) ! v =
      (if v < 48 then gate (stubs ! v) 0x8E else if v = 128 then gate syscall_stub 0xEE else null_gate)"
    "length (idt_entries (idt_init dev stubs syscall_stub addr s)) = 256"
    unfolding e using c(1) by (simp_all add: nth_list_update)
  show "interrupt_handlers (idt_init dev stubs syscall_stub addr s) = replicate 256 None"
    using c(2) by (simp add: idt_init_def Let_def outb_def set_gates_trace idt_set_gate_def [of 128])
  show "idtr (idt_init dev stubs syscall_stub addr s) = \<lparr>idt_limit = 2047, idt_base = addr\<rparr>"
    by (simp add: idt_init_def Let_def outb_def)
qed

lemma idt_init_trace:
  "\<exists>m n. port_out (idt_init dev stubs syscall_stub addr s) = port_out s @
     [(0x20, 0x11), (0x80, 0), (0xA0, 0x11), (0x80, 0), (0x21, 32), (0x80, 0), (0xA1, 40), (0x80, 0),
      (0x21, 4), (0x80, 0), (0xA1, 2), (0x80, 0), (0x21, 1), (0x80, 0), (0xA1, 1), (0x80, 0), (0x21, m), (0xA1, n),
      (0x21, 0xF9), (0xA1, 0xFF)]"
proof -
  let ?t = "(idt_set_gate SYSCALL_VECTOR syscall_stub GDT_KERNEL_CODE_SELECTOR IDT_FLAG_SYSCALL_GATE
    (fold (\<lambda>v. idt_set_gate (word_of_nat v) (stubs ! v) GDT_KERNEL_CODE_SELECTOR IDT_FLAG_INTERRUPT_GATE) [0..<48]
      (idt_clear_tables s)))\<lparr>idt_descriptor := \<lparr>idt_limit = 2047, idt_base = addr\<rparr>\<rparr>"
  have "port_out ?t = port_out s" by (simp add: idt_set_gate_def [of 128] set_gates_trace clear_tables_trace)
  moreover have "port_out (idt_init dev stubs syscall_stub addr s) =
      port_out (pic_remap dev 32 40 ?t) @ [(0x21, 0xF9), (0xA1, 0xFF)]"
    by (simp add: idt_init_def Let_def outb_def)
  ultimately show ?thesis using remap_trace [of dev 32 40 ?t] by auto
qed

section \<open>Properties\<close>

text \<open>
  C26. \<open>idt_init\<close> sets the interrupts up: the 48 stubs get present kernel gates, vector 0x80 a gate
  user code may call, every other vector none; no handler is registered; the processor is given the
  table; and the two controllers, whatever state they were in, send their requests to the vectors
  from 32 and from 40 on, cascaded over line 2, with only lines 1 and 2 enabled.
\<close>

theorem idt_init_correct:
  assumes "length (idt_entries s) = 256" "length (interrupt_handlers s) = 256" "length stubs = 48"
  shows "let s' = idt_init dev stubs syscall_stub addr s in
    (\<forall>v < 256. idt_entries s' ! v =
       (if v < 48 then gate (stubs ! v) 0x8E else if v = 128 then gate syscall_stub 0xEE else null_gate)) \<and>
    (\<forall>v < 48. gate_base (idt_entries s' ! v) = stubs ! v) \<and> gate_base (idt_entries s' ! 128) = syscall_stub \<and>
    interrupt_handlers s' = replicate 256 None \<and> idtr s' = \<lparr>idt_limit = 2047, idt_base = addr\<rparr> \<and>
    pic_after 0x20 p1 (port_out s') = (pic_after 0x20 p1 (port_out s))
      \<lparr>pic_phase := 0, pic_offset := 32, pic_cascade := 4, pic_imr := 0xF9\<rparr> \<and>
    pic_after 0xA0 p2 (port_out s') = (pic_after 0xA0 p2 (port_out s))
      \<lparr>pic_phase := 0, pic_offset := 40, pic_cascade := 2, pic_imr := 0xFF\<rparr>"
proof -
  note t = idt_init_table [OF assms(1,2), of dev stubs syscall_stub addr]
  obtain m n where o: "port_out (idt_init dev stubs syscall_stub addr s) = port_out s @
     [(0x20, 0x11), (0x80, 0), (0xA0, 0x11), (0x80, 0), (0x21, 32), (0x80, 0), (0xA1, 40), (0x80, 0),
      (0x21, 4), (0x80, 0), (0xA1, 2), (0x80, 0), (0x21, 1), (0x80, 0), (0xA1, 1), (0x80, 0), (0x21, m), (0xA1, n),
      (0x21, 0xF9), (0xA1, 0xFF)]"
    using idt_init_trace by blast
  have "pic_after 0x20 p1 (port_out (idt_init dev stubs syscall_stub addr s)) = (pic_after 0x20 p1 (port_out s))
      \<lparr>pic_phase := 0, pic_offset := 32, pic_cascade := 4, pic_imr := 0xF9\<rparr>"
    "pic_after 0xA0 p2 (port_out (idt_init dev stubs syscall_stub addr s)) = (pic_after 0xA0 p2 (port_out s))
      \<lparr>pic_phase := 0, pic_offset := 40, pic_cascade := 2, pic_imr := 0xFF\<rparr>"
    unfolding o pic_after_append by (simp_all add: pic_write_def)
  then show ?thesis unfolding Let_def using t by auto
qed

definition blank_idt :: idtsys where
  "blank_idt = \<lparr>eflags = 0, port_out = [], port_reads = 0, idt_entries = replicate 256 null_gate,
     idt_descriptor = \<lparr>idt_limit = 0, idt_base = 0\<rparr>, interrupt_handlers = replicate 256 None,
     idtr = \<lparr>idt_limit = 0, idt_base = 0\<rparr>\<rparr>"

definition fresh_pic :: pic where
  "fresh_pic = \<lparr>pic_phase = 0, pic_offset = 8, pic_cascade = 0, pic_imr = 0, pic_eois = 0\<rparr>"

theorem idt_init_correct_witness:
  "gate_base (idt_entries (idt_init (\<lambda>out n port. 0) (map (\<lambda>v. 0x100000 + 16 * word_of_nat v) [0..<48]) 0x101000 0x200000 blank_idt) ! 33) = 0x100210 \<and>
   pic_offset (pic_after 0xA0 fresh_pic (port_out (idt_init (\<lambda>out n port. 0)
     (map (\<lambda>v. 0x100000 + 16 * word_of_nat v) [0..<48]) 0x101000 0x200000 blank_idt))) = 40"
proof -
  let ?stubs = "map (\<lambda>v. 0x100000 + 16 * word_of_nat v) [0..<48] :: u32 list"
  have l: "length (idt_entries blank_idt) = 256" "length (interrupt_handlers blank_idt) = 256" "length ?stubs = 48"
    by (simp_all add: blank_idt_def)
  have "?stubs ! 33 = 0x100210" by simp
  then show ?thesis
    using idt_init_correct [OF l, where dev = "\<lambda>out n port. 0" and syscall_stub = "0x101000" and addr = "0x200000"
        and ?p1.0 = fresh_pic and ?p2.0 = fresh_pic]
    unfolding Let_def by simp
qed

text \<open>Whether a request line is masked, after the writes \<open>out\<close>.\<close>

definition irq_masked :: "pic \<Rightarrow> pic \<Rightarrow> (u16 \<times> u8) list \<Rightarrow> nat \<Rightarrow> bool" where
  "irq_masked p1 p2 out k =
     (if k < 8 then bit (pic_imr (pic_after 0x20 p1 out)) k else bit (pic_imr (pic_after 0xA0 p2 out)) (k - 8))"

lemma clear_line: "k < 8 \<Longrightarrow> i < 8 \<Longrightarrow> bit ((v :: u8) AND ucast (NOT (push_bit i 1 :: u32))) k \<longleftrightarrow> bit v k \<and> k \<noteq> i"
  by (auto simp: bit_simps)

lemma set_line: "k < 8 \<Longrightarrow> i < 8 \<Longrightarrow> bit ((v :: u8) OR ucast (push_bit i 1 :: u32)) k \<longleftrightarrow> bit v k \<or> k = i"
  by (auto simp: bit_simps)

text \<open>A value written to the data port of one controller outside its initialisation.\<close>

lemma write_mask1:
  "pic_phase (pic_after 0x20 p1 out) = 0 \<Longrightarrow>
   irq_masked p1 p2 (out @ [(0x21, v)]) k = (if k < 8 then bit v k else irq_masked p1 p2 out k)"
  by (simp add: irq_masked_def pic_after_append pic_write_def)

lemma write_mask2:
  "pic_phase (pic_after 0xA0 p2 out) = 0 \<Longrightarrow>
   irq_masked p1 p2 (out @ [(0xA1, v)]) k = (if k < 8 then irq_masked p1 p2 out k else bit v (k - 8))"
  by (simp add: irq_masked_def pic_after_append pic_write_def)

lemma pic_mask_lines:
  assumes dev: "pic_answers p1 p2 dev"
    and ready: "pic_phase (pic_after 0x20 p1 (port_out s)) = 0" "pic_phase (pic_after 0xA0 p2 (port_out s)) = 0"
    and irq: "unat irq < 16" and k: "k < 16"
  shows "(irq_masked p1 p2 (port_out (pic_clear_mask dev irq s)) k \<longleftrightarrow>
      irq_masked p1 p2 (port_out s) k \<and> k \<noteq> unat irq) \<and>
    (irq_masked p1 p2 (port_out (pic_set_mask dev irq s)) k \<longleftrightarrow>
      irq_masked p1 p2 (port_out s) k \<or> k = unat irq)"
proof -
  have a: "dev (port_out s) n 0x21 = pic_imr (pic_after 0x20 p1 (port_out s))"
    "dev (port_out s) n 0xA1 = pic_imr (pic_after 0xA0 p2 (port_out s))" for n
    using dev ready by (simp_all add: pic_answers_def)
  show ?thesis
  proof (cases "irq < 8")
    case True
    let ?m = "pic_imr (pic_after 0x20 p1 (port_out s))"
    have i: "unat irq < 8" using True by (simp add: word_less_unat)
    have c: "port_out (pic_clear_mask dev irq s) = port_out s @ [(0x21, ?m AND ucast (NOT (push_bit (unat irq) 1 :: u32)))]"
      "port_out (pic_set_mask dev irq s) = port_out s @ [(0x21, ?m OR ucast (push_bit (unat irq) 1 :: u32))]"
      using True by (simp_all add: pic_clear_mask_def pic_set_mask_def pic_line_def inb_def outb_def a)
    have "irq_masked p1 p2 (port_out s) k = bit ?m k" if "k < 8" using that by (simp add: irq_masked_def)
    then show ?thesis unfolding c write_mask1 [OF ready(1)] using i
      by (cases "k < 8") (simp_all only: clear_line set_line if_True if_False, auto)
  next
    case False
    let ?m = "pic_imr (pic_after 0xA0 p2 (port_out s))"
    have le: "8 \<le> irq" using False by simp
    then have u: "unat (irq - 8) = unat irq - 8" by (simp add: unat_sub)
    have i: "8 \<le> unat irq" "unat irq - 8 < 8" using le irq by (simp_all add: word_le_unat)
    have c: "port_out (pic_clear_mask dev irq s) = port_out s @ [(0xA1, ?m AND ucast (NOT (push_bit (unat irq - 8) 1 :: u32)))]"
      "port_out (pic_set_mask dev irq s) = port_out s @ [(0xA1, ?m OR ucast (push_bit (unat irq - 8) 1 :: u32))]"
      using False by (simp_all add: pic_clear_mask_def pic_set_mask_def pic_line_def inb_def outb_def a u)
    have "irq_masked p1 p2 (port_out s) k = bit ?m (k - 8)" if "\<not> k < 8" using that by (simp add: irq_masked_def)
    moreover have "k - 8 < 8" using k by simp
    ultimately show ?thesis unfolding c write_mask2 [OF ready(2)] using i
      by (cases "k < 8") (simp_all only: clear_line set_line if_True if_False, auto)
  qed
qed

text \<open>
  Masking is per line: with both controllers initialised, \<open>pic_clear_mask\<close> enables the request
  line it is given and \<open>pic_set_mask\<close> disables it, on either controller; every other line stays as
  it was.
\<close>

lemma pic_mask_correct:
  assumes "pic_answers p1 p2 dev"
    and "pic_phase (pic_after 0x20 p1 (port_out s)) = 0" "pic_phase (pic_after 0xA0 p2 (port_out s)) = 0"
    and "unat irq < 16" and "k < 16"
  shows "(irq_masked p1 p2 (port_out (pic_clear_mask dev irq s)) k \<longleftrightarrow>
      irq_masked p1 p2 (port_out s) k \<and> k \<noteq> unat irq) \<and>
    (irq_masked p1 p2 (port_out (pic_set_mask dev irq s)) k \<longleftrightarrow>
      irq_masked p1 p2 (port_out s) k \<or> k = unat irq)"
  by (rule pic_mask_lines [OF assms])

text \<open>Clearing a mask leaves the tables alone and the controllers initialised.\<close>

lemma clear_mask_fields [simp]:
  fixes i :: "'a idtsys_scheme"
  shows "interrupt_handlers (pic_clear_mask dev irq i) = interrupt_handlers i"
    "idt_entries (pic_clear_mask dev irq i) = idt_entries i"
  by (simp_all add: pic_clear_mask_def inb_def outb_def pic_line_def)

lemma clear_mask_phase:
  assumes "pic_phase (pic_after 0x20 p1 (port_out i)) = 0" "pic_phase (pic_after 0xA0 p2 (port_out i)) = 0"
  shows "pic_phase (pic_after 0x20 p1 (port_out (pic_clear_mask dev irq i))) = 0"
    "pic_phase (pic_after 0xA0 p2 (port_out (pic_clear_mask dev irq i))) = 0"
  using assms by (simp_all add: pic_clear_mask_def inb_def outb_def pic_line_def pic_after_append pic_write_def)

section \<open>Dispatch\<close>

text \<open>Acknowledgements, counted at each controller.\<close>

lemma eoi_count:
  "pic_eois (pic_after 0x20 p1 (port_out (pic_send_eoi irq s))) = Suc (pic_eois (pic_after 0x20 p1 (port_out s)))"
  "pic_eois (pic_after 0xA0 p2 (port_out (pic_send_eoi irq s))) =
     (if 8 \<le> unat irq then Suc else id) (pic_eois (pic_after 0xA0 p2 (port_out s)))"
  by (simp_all add: pic_send_eoi_def outb_def pic_after_append pic_write_def word_le_unat)

definition no_registers :: cpu_registers where
  "no_registers = \<lparr>gs = 0, fs = 0, es = 0, ds = 0, edi = 0, esi = 0, ebp = 0, esp = 0, ebx = 0, edx = 0, ecx = 0,
     eax = 0, int_no = 0, err_code = 0, eip = 0, cs = 0, reg_eflags = 0\<rparr>"

end
