(* ===== verification/Syscall_Spec.thy ===== *)
theory Syscall_Spec
  imports Process_Claims Syscall Interrupts_Spec
begin

unbundle bit_operations_syntax

text \<open>
  What the system call gate promises: which function each number reaches after \<open>syscall_init\<close>, how
  registration changes that, and that every call keeps the process table in order.
\<close>

section \<open>Dispatch\<close>

lemma syscall_init_table:
  "syscall_table (syscall_init s) = [Syscall_Get_Magic, Sys_Fork, Sys_Wait, Sys_Exit, Sys_Getuid, Sys_Signal,
     Sys_Kill, Syscall_Not_Implemented]"
  by (simp add: syscall_init_def eval_nat_numeral)

lemma below_8: "(n :: u32) < 8 \<Longrightarrow> n = 0 \<or> n = 1 \<or> n = 2 \<or> n = 3 \<or> n = 4 \<or> n = 5 \<or> n = 6 \<or> n = 7"
proof -
  assume "n < 8"
  then have "unat n < 8" by (simp add: word_less_unat)
  then show ?thesis by (simp add: word_eq_unat) linarith
qed

lemma eight_one [simp]: "\<not> (8 :: u32) \<le> 1"
  by (simp add: word_le_unat)

lemma syscall_init_fields [simp]:
  "current_process (syscall_init s) = current_process s" "process_table (syscall_init s) = process_table s"
  by (simp_all add: syscall_init_def)

text \<open>
  C21. The system call gate. After \<open>syscall_init\<close>, the number in \<open>eax\<close> selects the function of
  \<open>syscall.h\<close>, its arguments are \<open>ebx\<close>, \<open>ecx\<close>, \<open>edx\<close> and \<open>esi\<close>, its result replaces \<open>eax\<close> and the other
  registers are kept; number 7 and every number from 8 on return 0xFFFFFFFF and change nothing.
\<close>

theorem syscall_gate:
  "syscall_handler ext r (syscall_init s) =
    obind (if eax r = 0 then Inr (0x4B465334, syscall_init s)
           else if eax r = 1 then sys_fork (ebx r) (ecx r) (edx r) (esi r) (syscall_init s)
           else if eax r = 2 then sys_wait (ebx r) (ecx r) (edx r) (esi r) (syscall_init s)
           else if eax r = 3 then Inr (ebx r, process_exit (current_process s) (ebx r) (syscall_init s))
           else if eax r = 4 then Inr (case current_process s of None \<Rightarrow> 0 | Some p \<Rightarrow> owner (proc s p), syscall_init s)
           else if eax r = 5 then sys_signal (ebx r) (ecx r) (edx r) (esi r) (syscall_init s)
           else if eax r = 6 then sys_kill (ebx r) (ecx r) (edx r) (esi r) (syscall_init s)
           else Inr (0xFFFFFFFF, syscall_init s))
      (\<lambda>(v, s'). Inr (r\<lparr>eax := v\<rparr>, s'))"
proof (cases "8 \<le> eax r")
  case True
  then have "eax r \<noteq> 0" "eax r \<noteq> 1" "eax r \<noteq> 2" "eax r \<noteq> 3" "eax r \<noteq> 4" "eax r \<noteq> 5" "eax r \<noteq> 6" by (auto simp: word_le_unat)
  then show ?thesis using True by (simp add: syscall_handler_def syscall_dispatch_def)
next
  case False
  then have "eax r < 8" by simp
  from below_8 [OF this] show ?thesis
    by (elim disjE) (simp_all add: syscall_handler_def syscall_dispatch_def syscall_init_table syscall_get_magic_def
      sys_exit_def sys_getuid_def syscall_not_implemented_def process_current_def process_getuid_def
      split: option.split)
qed

section \<open>Calls keep the table in order\<close>

lemma proc_ok_sys_fork:
  assumes ok: "proc_ok s" and n: "next_pid s \<noteq> 0xFFFFFFFF"
  shows "runs (\<lambda>r. proc_ok (snd r)) (sys_fork pd a b c s)"
proof -
  obtain L where L: "table_ok {} L s" using ok by (auto simp: proc_ok_def)
  have f: "runs (\<lambda>r. proc_ok (snd r)) (obind (fork_process src s) (\<lambda>(child, s).
      Inr (case child of None \<Rightarrow> 0xFFFFFFFF | Some c \<Rightarrow> pid (proc s c), s)))" if "\<forall>i. src = Some i \<longrightarrow> i \<in> set L" for src
  proof (cases src)
    case None
    then show ?thesis using ok by (simp add: fork_process_def)
  next
    case (Some i)
    then have "used (proc s i)" "i < 16" using that table_okD(4) [OF L] by auto
    then show ?thesis using Some by (auto intro!: runs_bind [OF proc_ok_fork [OF ok n]])
  qed
  have c: "\<forall>i. process_current s = Some i \<longrightarrow> i \<in> set L" using table_okD(9) [OF L] by (auto simp: process_current_def)
  show ?thesis
  proof (cases "pd = 0")
    case True
    then show ?thesis using f [OF c] by (simp add: sys_fork_def)
  next
    case False
    then show ?thesis unfolding sys_fork_def
      by (cases rule: get_by_pid_cases [OF L, of pd]) (use f in simp_all)
  qed
qed

lemma proc_ok_sys_wait: "proc_ok s \<Longrightarrow> runs (\<lambda>r. proc_ok (snd r)) (sys_wait pd a b c s)"
proof -
  assume ok: "proc_ok s"
  then obtain L where L: "table_ok {} L s" by (auto simp: proc_ok_def)
  obtain q where "current_process s = Some q" using table_okD(9) [OF L] by blast
  then have "(case process_current s of None \<Rightarrow> process_root s | Some c \<Rightarrow> Some c) = current_process s"
    by (simp add: process_current_def)
  then show ?thesis unfolding sys_wait_def Let_def
    by (auto intro!: runs_bind [OF proc_ok_wait [OF ok]])
qed

lemma proc_ok_sys_signals:
  assumes "proc_ok s"
  shows "runs (\<lambda>r. proc_ok (snd r)) (sys_signal pd sig v a s)" "runs (\<lambda>r. proc_ok (snd r)) (sys_kill pd sig b c s)"
  unfolding sys_signal_def sys_kill_def kill_process_def
  by (auto intro!: runs_bind [OF proc_ok_send_signal [OF assms]])

text \<open>
  C22. No system call damages the process table. Whatever number and arguments a process passes
  through the gate, the call does not run forever and, if it returns, the process table satisfies
  its invariant again.
\<close>

theorem syscall_keeps_table:
  assumes ok: "\<exists>L. table_ok {} L (syscall_init s)" and n: "next_pid s \<noteq> 0xFFFFFFFF"
  shows "syscall_handler ext r (syscall_init s) \<noteq> Inl Diverges \<and>
    (\<forall>r' s'. syscall_handler ext r (syscall_init s) = Inr (r', s') \<longrightarrow> (\<exists>L. table_ok {} L s'))"
proof -
  let ?s = "syscall_init s"
  have ok': "proc_ok ?s" and n': "next_pid ?s \<noteq> 0xFFFFFFFF" using ok n by (simp_all add: proc_ok_def syscall_init_def)
  have "runs (\<lambda>r. proc_ok (snd r)) (syscall_dispatch ext (eax r) (ebx r) (ecx r) (edx r) (esi r) ?s)"
  proof (cases "8 \<le> eax r")
    case True
    then show ?thesis using ok' by (simp add: syscall_dispatch_def)
  next
    case False
    then have "eax r < 8" by simp
    from below_8 [OF this] show ?thesis
      using ok' n' proc_ok_sys_fork [OF ok' n'] proc_ok_sys_wait [OF ok'] proc_ok_sys_signals [OF ok']
        proc_ok_keeps [OF ok' keeps_exit [OF keeps_refl]]
      by (elim disjE) (simp_all add: syscall_dispatch_def syscall_init_table syscall_get_magic_def
        sys_exit_def sys_getuid_def syscall_not_implemented_def)
  qed
  then have "runs (\<lambda>r. proc_ok (snd r)) (syscall_handler ext r ?s)"
    unfolding syscall_handler_def by (rule runs_bind) auto
  then show ?thesis by (auto simp: proc_ok_def dest: runs_not_diverges)
qed

theorem syscall_keeps_table_witness:
  "\<exists>(s :: syssys). (\<exists>L. table_ok {} L (syscall_init s)) \<and>
     syscall_handler (\<lambda>f a b c d s. Inr (0, s)) (no_registers\<lparr>eax := 6, ebx := 77, ecx := 9\<rparr>) (syscall_init s) \<noteq> Inl Diverges"
proof -
  let ?s = "only_kernel (procsys.extend blank_machine \<lparr>syscall_table = [], idt = blank_idt\<rparr>)"
  have "table_ok {} [0] (syscall_init ?s)"
    by (rule table_ok_fields [OF only_kernel_ok]) (simp_all add: syscall_init_def only_kernel_def)
  then have ok: "\<exists>L. table_ok {} L (syscall_init ?s)" by blast
  have "next_pid ?s \<noteq> 0xFFFFFFFF" by (simp add: only_kernel_def)
  from syscall_keeps_table [OF ok this] ok show ?thesis by blast
qed

text \<open>
  Registration. A handler registered under a number below 8 is the one dispatch calls for that
  number, and no other number is affected; a null handler or a number from 8 on is refused with -1
  and changes nothing.
\<close>

lemma syscall_register_correct:
  assumes "length (syscall_table s) = 8"
  shows "syscall_register n None s = (-1, s) \<and>
    (8 \<le> n \<longrightarrow> syscall_register n (Some h) s = (-1, s)) \<and>
    (n < 8 \<longrightarrow> (\<exists>s'. syscall_register n (Some h) s = (0, s') \<and> length (syscall_table s') = 8 \<and>
      (\<forall>k a b c d t. syscall_table t = syscall_table s' \<longrightarrow>
        syscall_dispatch ext k a b c d t =
          (if k = n then syscall_call ext h a b c d t
           else if 8 \<le> k then Inr (0xFFFFFFFF, t)
           else syscall_call ext (syscall_table s ! unat k) a b c d t))))"
  using assms
  by (auto simp: syscall_register_def syscall_dispatch_def nth_list_update word_eq_unat word_le_unat word_less_unat not_le)

end
