(* ===== verification/Timer.thy ===== *)
theory Timer
  imports Scheduler Syscall
begin

unbundle bit_operations_syntax

text \<open>
  The timer, \<open>kernel/src/timer.c\<close>: programming the 8253 interval timer, and the interrupt that
  counts ticks and hands each to the scheduler.
\<close>

abbreviation (input) PIT_CHANNEL0_PORT :: u16 where "PIT_CHANNEL0_PORT \<equiv> 0x40"
abbreviation (input) PIT_COMMAND_PORT :: u16 where "PIT_COMMAND_PORT \<equiv> 0x43"
abbreviation (input) PIT_BASE_FREQUENCY :: u32 where "PIT_BASE_FREQUENCY \<equiv> 1193182"

record timersys = syssys +
  pit_ticks :: u32
  pit_frequency :: u32

definition timer_interrupt :: "cpu_registers \<Rightarrow> 'a timersys_scheme \<Rightarrow> 'a timersys_scheme" where
  "timer_interrupt registers s = scheduler_tick (s\<lparr>pit_ticks := pit_ticks s + 1\<rparr>)"

definition timer_divisor :: "u32 \<Rightarrow> u32" where
  "timer_divisor frequency =
     (let divisor = PIT_BASE_FREQUENCY div frequency in if divisor = 0 then 1 else divisor)"

definition timer_init :: "device \<Rightarrow> u32 \<Rightarrow> 'a timersys_scheme \<Rightarrow> 'a timersys_scheme" where
  "timer_init dev frequency s =
     (let frequency = (if frequency = 0 then 100 else frequency);
          divisor = timer_divisor frequency;
          s = s\<lparr>pit_frequency := frequency\<rparr>;
          i = idt_register_handler IRQ0_VECTOR (Some Timer_Interrupt) (idt s);
          i = outb PIT_COMMAND_PORT 0x36 i;
          i = outb PIT_CHANNEL0_PORT (ucast (divisor AND 0xFF)) i;
          i = outb PIT_CHANNEL0_PORT (ucast (drop_bit 8 divisor AND 0xFF)) i;
          i = pic_clear_mask dev 0 i;
          i = pic_clear_mask dev 2 i
      in s\<lparr>idt := i\<rparr>)"

definition timer_get_ticks :: "'a timersys_scheme \<Rightarrow> u32" where
  "timer_get_ticks s = pit_ticks s"

definition timer_get_frequency :: "'a timersys_scheme \<Rightarrow> u32" where
  "timer_get_frequency s = pit_frequency s"

end
