(* ===== verification/Timer_Spec.thy ===== *)
theory Timer_Spec
  imports Timer Interrupts_Spec Process_Claims
begin

unbundle bit_operations_syntax

text \<open>
  The interrupts of the running kernel: the dispatch of \<open>idt.c\<close> joined with the handlers the timer
  and the system calls register. What the keyboard handler and handlers at other addresses do is
  the parameter \<open>other\<close>.
\<close>

fun kernel_handler ::
  "(u32 \<Rightarrow> u32 \<Rightarrow> u32 \<Rightarrow> u32 \<Rightarrow> u32 \<Rightarrow> 'a timersys_scheme \<Rightarrow> 'a timersys_scheme call_result) \<Rightarrow>
   (interrupt_handler_ptr \<Rightarrow> cpu_registers \<Rightarrow> 'a timersys_scheme \<Rightarrow> (cpu_registers \<times> 'a timersys_scheme) outcome) \<Rightarrow>
   interrupt_handler_ptr \<Rightarrow> cpu_registers \<Rightarrow> 'a timersys_scheme \<Rightarrow> (cpu_registers \<times> 'a timersys_scheme) outcome" where
  "kernel_handler ext other Timer_Interrupt r s = Inr (r, timer_interrupt r s)"
| "kernel_handler ext other Syscall_Handler r s = syscall_handler ext r s"
| "kernel_handler ext other h r s = other h r s"

definition on_idt :: "(idtsys \<Rightarrow> idtsys) \<Rightarrow> 'a syssys_scheme \<Rightarrow> 'a syssys_scheme" where
  "on_idt f s = s\<lparr>idt := f (idt s)\<rparr>"

definition kernel_interrupt ::
  "(u32 \<Rightarrow> u32 \<Rightarrow> u32 \<Rightarrow> u32 \<Rightarrow> u32 \<Rightarrow> 'a timersys_scheme \<Rightarrow> 'a timersys_scheme call_result) \<Rightarrow>
   (interrupt_handler_ptr \<Rightarrow> cpu_registers \<Rightarrow> 'a timersys_scheme \<Rightarrow> (cpu_registers \<times> 'a timersys_scheme) outcome) \<Rightarrow>
   cpu_registers \<Rightarrow> 'a timersys_scheme \<Rightarrow> (cpu_registers option \<times> 'a timersys_scheme) outcome" where
  "kernel_interrupt ext other r s = idt_handle_interrupt idt on_idt (kernel_handler ext other) (Some r) s"

lemma send_eoi_fields [simp]:
  fixes i :: "'a idtsys_scheme"
  shows "interrupt_handlers (pic_send_eoi irq i) = interrupt_handlers i"
  by (simp add: pic_send_eoi_def outb_def Let_def)

lemma timer_init_handlers:
  "interrupt_handlers (idt (timer_init dev f s)) = (interrupt_handlers (idt s))[32 := Some Timer_Interrupt]"
  by (simp add: timer_init_def Let_def idt_register_handler_def outb_def)

lemma timer_init_port_out:
  "\<exists>a b i. port_out i = port_out (idt s) @ [(0x43, 0x36), (0x40, a), (0x40, b)] \<and>
     idt (timer_init dev f s) = pic_clear_mask dev 2 (pic_clear_mask dev 0 i)"
proof -
  let ?f = "if f = 0 then 100 else f"
  let ?i = "outb PIT_CHANNEL0_PORT (ucast (drop_bit 8 (timer_divisor ?f) AND 0xFF))
    (outb PIT_CHANNEL0_PORT (ucast (timer_divisor ?f AND 0xFF)) (outb PIT_COMMAND_PORT 0x36
      (idt_register_handler IRQ0_VECTOR (Some Timer_Interrupt) (idt s))))"
  have "idt (timer_init dev f s) = pic_clear_mask dev 2 (pic_clear_mask dev 0 ?i)"
    by (simp add: timer_init_def Let_def)
  moreover have "port_out ?i = port_out (idt s) @ [(0x43, 0x36), (0x40, ucast (timer_divisor ?f AND 0xFF)),
      (0x40, ucast (drop_bit 8 (timer_divisor ?f) AND 0xFF))]"
    by (simp add: outb_def idt_register_handler_def)
  ultimately show ?thesis by blast
qed

section \<open>Boot\<close>

text \<open>The order of \<open>kernel_main\<close>: \<open>idt_init\<close>, \<open>syscall_init\<close>, \<open>timer_init(50)\<close>.\<close>

definition wire :: "device \<Rightarrow> u32 list \<Rightarrow> u32 \<Rightarrow> u32 \<Rightarrow> 'a timersys_scheme \<Rightarrow> 'a timersys_scheme" where
  "wire dev stubs syscall_stub addr s = timer_init dev 50 (syscall_init (on_idt (idt_init dev stubs syscall_stub addr) s))"

lemma wire_handlers:
  assumes "length (idt_entries (idt s)) = 256" "length (interrupt_handlers (idt s)) = 256"
  shows "interrupt_handlers (idt (wire dev stubs syscall_stub addr s)) =
    (replicate 256 None)[128 := Some Syscall_Handler, 32 := Some Timer_Interrupt]"
  using idt_init_table(3) [OF assms]
  by (simp add: wire_def timer_init_handlers syscall_init_def idt_register_handler_def on_idt_def)

lemma pic_after_other: "\<forall>w \<in> set out. fst w \<noteq> c \<and> fst w \<noteq> c + 1 \<Longrightarrow> fold (pic_write c) out p = p"
  by (induction out) (simp_all add: pic_write_def)

lemma pic_after_quiet:
  "\<forall>w \<in> set out'. fst w \<noteq> c \<and> fst w \<noteq> c + 1 \<Longrightarrow> pic_after c p (out @ out') = pic_after c p out"
  by (simp add: pic_after_append pic_after_other)

lemma wire_masks:
  assumes "pic_answers p1 p2 dev" "k < 16"
  shows "irq_masked p1 p2 (port_out (idt (wire dev stubs syscall_stub addr s))) k \<longleftrightarrow> k \<notin> {0, 1, 2}"
proof -
  let ?i0 = "idt_init dev stubs syscall_stub addr (idt s)"
  let ?s1 = "syscall_init (on_idt (idt_init dev stubs syscall_stub addr) s)"
  have o1: "port_out (idt ?s1) = port_out ?i0" by (simp add: syscall_init_def on_idt_def idt_register_handler_def)
  obtain m n where o: "port_out ?i0 = port_out (idt s) @
     [(0x20, 0x11), (0x80, 0), (0xA0, 0x11), (0x80, 0), (0x21, 32), (0x80, 0), (0xA1, 40), (0x80, 0),
      (0x21, 4), (0x80, 0), (0xA1, 2), (0x80, 0), (0x21, 1), (0x80, 0), (0xA1, 1), (0x80, 0), (0x21, m), (0xA1, n),
      (0x21, 0xF9), (0xA1, 0xFF)]"
    using idt_init_trace by blast
  have p: "pic_phase (pic_after 0x20 p1 (port_out ?i0)) = 0" "pic_imr (pic_after 0x20 p1 (port_out ?i0)) = 0xF9"
    "pic_phase (pic_after 0xA0 p2 (port_out ?i0)) = 0" "pic_imr (pic_after 0xA0 p2 (port_out ?i0)) = 0xFF"
    unfolding o pic_after_append by (simp_all add: pic_write_def)
  obtain a b i where i: "port_out i = port_out ?i0 @ [(0x43, 0x36), (0x40, a), (0x40, b)]"
      "idt (wire dev stubs syscall_stub addr s) = pic_clear_mask dev 2 (pic_clear_mask dev 0 i)"
    using timer_init_port_out [of ?s1 dev 50] unfolding o1 wire_def by blast
  have q: "pic_after 0x20 p1 (port_out i) = pic_after 0x20 p1 (port_out ?i0)"
    "pic_after 0xA0 p2 (port_out i) = pic_after 0xA0 p2 (port_out ?i0)"
    unfolding i(1) by (simp_all add: pic_after_quiet)
  have r: "pic_phase (pic_after 0x20 p1 (port_out i)) = 0" "pic_phase (pic_after 0xA0 p2 (port_out i)) = 0"
    unfolding q by (fact p)+
  note r' = clear_mask_phase [OF r, of dev 0]
  have k: "k \<in> {0, 1, 2, 3, 4, 5, 6, 7} \<or> 8 \<le> k" by auto
  have "irq_masked p1 p2 (port_out i) k \<longleftrightarrow> k \<noteq> 1 \<and> k \<noteq> 2"
  proof (cases "k < 8")
    case True
    then have "bit (0xF9 :: u8) k \<longleftrightarrow> k \<noteq> 1 \<and> k \<noteq> 2"
      using k by (elim disjE insertE) simp_all
    then show ?thesis unfolding irq_masked_def q p using True by simp
  next
    case False
    have f: "(0xFF :: u8) = mask 8" by (simp add: mask_eq_exp_minus_1)
    then have "bit (0xFF :: u8) (k - 8)" unfolding f using assms(2) by (simp add: bit_simps)
    then show ?thesis unfolding irq_masked_def q p using False by simp
  qed
  then show ?thesis
    using pic_mask_lines [OF assms(1) r', of 2 k] pic_mask_lines [OF assms(1) r, of 0 k] assms(2)
    unfolding i(2) by auto
qed

lemma vector_byte: "unat (n AND 0xFF :: u32) < 256"
proof -
  have "n AND 0xFF = n mod 256" by (simp add: take_bit_eq_mask mask_eq_exp_minus_1 flip: take_bit_eq_mod [of 8, simplified])
  then show ?thesis by (simp add: unat_mod)
qed


text \<open>A machine before \<open>idt_init\<close>, and controllers that answer reads with their masks.\<close>

definition blank_timer :: timersys where
  "blank_timer = procsys.extend blank_machine
     \<lparr>syscall_table = [], idt = blank_idt, pit_ticks = 0, pit_frequency = 0\<rparr>"

definition mask_reader :: device where
  "mask_reader out n port =
     (if port = 0x21 then pic_imr (pic_after 0x20 fresh_pic out) else pic_imr (pic_after 0xA0 fresh_pic out))"

lemma mask_reader_answers: "pic_answers fresh_pic fresh_pic mask_reader"
  by (simp add: pic_answers_def mask_reader_def)

lemma blank_timer_idt: "length (idt_entries (idt blank_timer)) = 256" "length (interrupt_handlers (idt blank_timer)) = 256"
  by (simp_all add: blank_timer_def blank_idt_def procsys.defs)


section \<open>Ticks\<close>

text \<open>\<open>n\<close> timer interrupts in a row.\<close>

primrec timer_irqs where
  "timer_irqs ext other r 0 s = Inr s"
| "timer_irqs ext other r (Suc n) s =
     obind (kernel_interrupt ext other r s) (\<lambda>(_, s). timer_irqs ext other r n s)"

lemma timer_irq:
  assumes "interrupt_handlers (idt s) ! 32 = Some Timer_Interrupt" "int_no r AND 0xFF = 32"
  shows "kernel_interrupt ext other r s = Inr (Some r, on_idt (pic_send_eoi 0) (timer_interrupt r s))"
  using assms by (simp add: kernel_interrupt_def idt_handle_interrupt_def)

lemma timer_interrupt_fields [simp]:
  "idt (timer_interrupt r s) = idt s" "pit_ticks (timer_interrupt r s) = pit_ticks s + 1"
  "total_scheduler_ticks (timer_interrupt r s) = total_scheduler_ticks s + 1"
  "pending_scheduler_ticks (timer_interrupt r s) = pending_scheduler_ticks s + 1"
  "process_table (timer_interrupt r s) = process_table s"
  by (simp_all add: timer_interrupt_def scheduler_tick_def)

lemma on_idt_fields [simp]:
  fixes s :: "'a timersys_scheme"
  shows "idt (on_idt f s) = f (idt s)" "pit_ticks (on_idt f s) = pit_ticks s"
  "total_scheduler_ticks (on_idt f s) = total_scheduler_ticks s"
  "pending_scheduler_ticks (on_idt f s) = pending_scheduler_ticks s" "process_table (on_idt f s) = process_table s"
  by (simp_all add: on_idt_def)

text \<open>
  No tick is lost: with the timer's handler registered, \<open>n\<close> timer interrupts return, raise the
  timer's and the scheduler's counters by \<open>n\<close> (modulo \<open>2 ^ 32\<close>), leave \<open>n\<close> ticks pending for the
  scheduler on top of those there, and send \<open>n\<close> acknowledgements to the first controller and none
  to the second; no process is switched or changed inside an interrupt.
\<close>

lemma timer_counts_ticks:
  fixes s :: "'a timersys_scheme"
  assumes "interrupt_handlers (idt s) ! 32 = Some Timer_Interrupt" and r: "int_no r AND 0xFF = 32"
  shows "\<exists>s'. timer_irqs ext other r n s = Inr s' \<and> pit_ticks s' = pit_ticks s + word_of_nat n \<and>
    total_scheduler_ticks s' = total_scheduler_ticks s + word_of_nat n \<and>
    pending_scheduler_ticks s' = pending_scheduler_ticks s + word_of_nat n \<and> process_table s' = process_table s \<and>
    pic_eois (pic_after 0x20 p1 (port_out (idt s'))) = pic_eois (pic_after 0x20 p1 (port_out (idt s))) + n \<and>
    pic_eois (pic_after 0xA0 p2 (port_out (idt s'))) = pic_eois (pic_after 0xA0 p2 (port_out (idt s)))"
  using assms(1)
proof (induction n arbitrary: s)
  case (Suc n)
  let ?s = "on_idt (pic_send_eoi 0) (timer_interrupt r s)"
  have "interrupt_handlers (idt ?s) ! 32 = Some Timer_Interrupt" using Suc.prems by simp
  from Suc.IH [OF this] obtain s' where s': "timer_irqs ext other r n ?s = Inr s'" "pit_ticks s' = pit_ticks s + word_of_nat (Suc n)"
      "total_scheduler_ticks s' = total_scheduler_ticks s + word_of_nat (Suc n)"
      "pending_scheduler_ticks s' = pending_scheduler_ticks s + word_of_nat (Suc n)" "process_table s' = process_table s"
      "pic_eois (pic_after 0x20 p1 (port_out (idt s'))) = pic_eois (pic_after 0x20 p1 (port_out (idt s))) + Suc n"
      "pic_eois (pic_after 0xA0 p2 (port_out (idt s'))) = pic_eois (pic_after 0xA0 p2 (port_out (idt s)))"
    by (auto simp: eoi_count add.assoc)
  then show ?case using timer_irq [OF Suc.prems r, of ext other] by (intro exI [of _ s']) simp
qed simp

section \<open>The rate\<close>

lemma unat_timer_divisor: "unat (timer_divisor f) = max 1 (1193182 div unat f)"
proof (cases "PIT_BASE_FREQUENCY div f = 0")
  case True
  then have "unat (PIT_BASE_FREQUENCY div f) = 0" by (simp only: unat_0)
  then have "1193182 div unat f = 0" unfolding unat_div by simp
  then show ?thesis using True by (simp add: timer_divisor_def)
next
  case False
  then have "unat (PIT_BASE_FREQUENCY div f) \<noteq> 0" by (simp add: word_eq_unat)
  then have "1193182 div unat f \<noteq> 0" by (simp add: unat_div)
  then show ?thesis using False by (simp add: timer_divisor_def unat_div max_def)
qed

lemma unat_low_byte: "unat (ucast ((d :: u32) AND 0xFF) :: u8) = unat d mod 256"
proof -
  have "ucast (d AND 0xFF) = (ucast d :: u8)"
  proof (rule bit_word_eqI)
    have m: "(0xFF :: u32) = mask 8" by (simp add: mask_eq_exp_minus_1)
    fix n assume "n < LENGTH(8)"
    then show "bit (ucast (d AND 0xFF) :: u8) n = bit (ucast d :: u8) n" unfolding m by (simp add: bit_simps)
  qed
  then show ?thesis by (simp add: unsigned_ucast_eq take_bit_eq_mod)
qed

text \<open>
  The divisor reaches the interval timer through two bytes: what is programmed is the divisor
  modulo 65536. From 19 Hz on (and for 0, taken as 100 Hz) that is the divisor of the requested
  frequency; for 1 to 18 Hz the divisor does not fit and the timer runs at another rate.
\<close>

lemma timer_divisor_truncated:
  "\<exists>a b. filter (\<lambda>w. fst w = 0x40) (port_out (idt (timer_init dev f s))) =
      filter (\<lambda>w. fst w = 0x40) (port_out (idt s)) @ [(0x40, a), (0x40, b)] \<and>
    unat a + 256 * unat b = max 1 (1193182 div (if f = 0 then 100 else unat f)) mod 65536 \<and>
    (unat a + 256 * unat b = max 1 (1193182 div (if f = 0 then 100 else unat f)) \<longleftrightarrow> f = 0 \<or> 19 \<le> unat f)"
proof -
  let ?f = "if f = 0 then 100 else f" and ?n = "if f = 0 then 100 else unat f"
  let ?d = "timer_divisor ?f"
  let ?a = "ucast (?d AND 0xFF) :: u8" and ?b = "ucast (drop_bit 8 ?d AND 0xFF) :: u8"
  have d: "unat ?d = max 1 (1193182 div ?n)" by (simp add: unat_timer_divisor)
  have "unat ?a + 256 * unat ?b = unat ?d mod 256 + 256 * (unat ?d div 256 mod 256)"
    by (simp add: unat_low_byte unat_drop_bit_u32)
  also have "\<dots> = unat ?d mod 65536" using mod_mult2_eq [of "unat ?d" 256 256] by simp
  finally have v: "unat ?a + 256 * unat ?b = max 1 (1193182 div ?n) mod 65536" unfolding d .
  have "max 1 (1193182 div ?n) mod 65536 = max 1 (1193182 div ?n) \<longleftrightarrow> f = 0 \<or> 19 \<le> unat f"
  proof (cases "f = 0 \<or> 19 \<le> unat f")
    case True
    then have "1193182 div ?n \<le> 1193182 div 19" by (intro div_le_mono2) auto
    then have "max 1 (1193182 div ?n) < 65536" by simp
    then show ?thesis using True by simp
  next
    case False
    then have "0 < unat f" by (simp add: unat_gt_0)
    then have "1193182 div 18 \<le> 1193182 div unat f" using False by (intro div_le_mono2) auto
    then have "65536 < max 1 (1193182 div ?n)" using False by simp
    moreover have "max 1 (1193182 div ?n) mod 65536 < 65536" by simp
    ultimately show ?thesis using False by linarith
  qed
  moreover have "filter (\<lambda>w. fst w = 0x40) (port_out (idt (timer_init dev f s))) =
      filter (\<lambda>w. fst w = 0x40) (port_out (idt s)) @ [(0x40, ?a), (0x40, ?b)]"
    by (simp add: timer_init_def Let_def pic_clear_mask_def pic_line_def inb_def outb_def idt_register_handler_def)
  ultimately show ?thesis using v by (intro exI [of _ ?a] exI [of _ ?b]) simp
qed

end
