(* ===== verification/Terminal.thy ===== *)
theory Terminal
  imports Serial
begin

unbundle bit_operations_syntax

text \<open>
  The terminal of \<open>kernel/src/main.c\<close>: a buffer of 200 lines of 80 cells, the cursor in it, the
  25 lines of VGA memory that show part of it, and the serial line every character is copied to.
  The definitions come first; then the text the buffer holds (an abstract terminal every
  character is a step of) and the agreement of the screen with the buffer. An index outside the
  buffer or the screen would overwrite other memory in C; the invariant shows there is none.
\<close>

section \<open>Cells (\<open>vga.h\<close>)\<close>

abbreviation (input) VGA_COLOR_BLACK :: u8 where "VGA_COLOR_BLACK \<equiv> 0"
abbreviation (input) VGA_COLOR_BLUE :: u8 where "VGA_COLOR_BLUE \<equiv> 1"
abbreviation (input) VGA_COLOR_CYAN :: u8 where "VGA_COLOR_CYAN \<equiv> 3"
abbreviation (input) VGA_COLOR_RED :: u8 where "VGA_COLOR_RED \<equiv> 4"
abbreviation (input) VGA_COLOR_LIGHT_GREY :: u8 where "VGA_COLOR_LIGHT_GREY \<equiv> 7"
abbreviation (input) VGA_COLOR_LIGHT_BLUE :: u8 where "VGA_COLOR_LIGHT_BLUE \<equiv> 9"
abbreviation (input) VGA_COLOR_LIGHT_CYAN :: u8 where "VGA_COLOR_LIGHT_CYAN \<equiv> 11"
abbreviation (input) VGA_COLOR_LIGHT_BROWN :: u8 where "VGA_COLOR_LIGHT_BROWN \<equiv> 14"
abbreviation (input) VGA_COLOR_WHITE :: u8 where "VGA_COLOR_WHITE \<equiv> 15"

definition vga_entry_color :: "u8 \<Rightarrow> u8 \<Rightarrow> u8" where
  "vga_entry_color fg bg = fg OR push_bit 4 bg"

definition vga_entry :: "u8 \<Rightarrow> u8 \<Rightarrow> u16" where
  "vga_entry uc color = ucast uc OR push_bit 8 (ucast color)"

section \<open>State and operations\<close>

abbreviation (input) VGA_WIDTH :: u32 where "VGA_WIDTH \<equiv> 80"
abbreviation (input) VGA_HEIGHT :: u32 where "VGA_HEIGHT \<equiv> 25"
abbreviation (input) SCROLLBACK_LINES :: u32 where "SCROLLBACK_LINES \<equiv> 200"

record terminal = serial +
  scroll_buffer :: "u16 list"
  terminal_row :: u32
  terminal_column :: u32
  terminal_color :: u8
  scroll_offset :: u32
  vga_memory :: "u16 list"

definition display_start :: "'a terminal_scheme \<Rightarrow> u32" where
  "display_start s = (if VGA_HEIGHT \<le> terminal_row s then terminal_row s - VGA_HEIGHT + 1 else 0)"

definition update_cursor :: "'a terminal_scheme \<Rightarrow> 'a terminal_scheme" where
  "update_cursor s =
     (let pos :: u16 = (if scroll_offset s \<noteq> 0 then ucast (VGA_HEIGHT * VGA_WIDTH)
            else let visible_row = terminal_row s - display_start s
                 in ucast (visible_row * VGA_WIDTH + terminal_column s));
          s = outb 0x3D4 0x0F s;
          s = outb 0x3D5 (ucast (pos AND 0xFF)) s;
          s = outb 0x3D4 0x0E s
      in outb 0x3D5 (ucast (drop_bit 8 pos AND 0xFF)) s)"

text \<open>\<open>buffer[y * VGA_WIDTH + x]\<close>.\<close>

definition cell :: "u32 \<Rightarrow> u32 \<Rightarrow> nat" where
  "cell y x = unat (y * VGA_WIDTH + x)"

definition terminal_scroll_buffer :: "'a terminal_scheme \<Rightarrow> 'a terminal_scheme" where
  "terminal_scroll_buffer s =
     (let b = fold (\<lambda>i b. b[i := b ! (i + 80)]) [0..<199 * 80] (scroll_buffer s);
          blank = vga_entry CHAR_SPACE (terminal_color s);
          b = fold (\<lambda>x b. b[199 * 80 + x := blank]) [0..<80] b
      in s\<lparr>scroll_buffer := b, terminal_row := SCROLLBACK_LINES - 1\<rparr>)"

definition vga_scroll :: "'a terminal_scheme \<Rightarrow> 'a terminal_scheme" where
  "vga_scroll s =
     (let v = fold (\<lambda>y. fold (\<lambda>x v. v[(y - 1) * 80 + x := v ! (y * 80 + x)]) [0..<80]) [1..<25] (vga_memory s);
          blank = vga_entry CHAR_SPACE (terminal_color s);
          v = fold (\<lambda>x v. v[24 * 80 + x := blank]) [0..<80] v
      in s\<lparr>vga_memory := v\<rparr>)"

definition terminal_initialize :: "'a terminal_scheme \<Rightarrow> 'a terminal_scheme" where
  "terminal_initialize s =
     (let s = s\<lparr>terminal_row := 0, terminal_column := 0, scroll_offset := 0\<rparr>;
          s = s\<lparr>terminal_color := vga_entry_color VGA_COLOR_WHITE VGA_COLOR_BLACK\<rparr>;
          blank = vga_entry CHAR_SPACE (terminal_color s);
          s = s\<lparr>scroll_buffer := fold (\<lambda>i b. b[i := blank]) [0..<200 * 80] (scroll_buffer s)\<rparr>;
          s = s\<lparr>vga_memory := fold (\<lambda>i v. v[i := blank]) [0..<25 * 80] (vga_memory s)\<rparr>
      in update_cursor s)"

definition terminal_putchar_at :: "u8 \<Rightarrow> u8 \<Rightarrow> u32 \<Rightarrow> u32 \<Rightarrow> 'a terminal_scheme \<Rightarrow> 'a terminal_scheme" where
  "terminal_putchar_at c color x y s =
     (let s = s\<lparr>scroll_buffer := (scroll_buffer s)[cell y x := vga_entry c color]\<rparr> in
      if scroll_offset s = 0 then
        let ds = display_start s in
        if ds \<le> y \<and> y < ds + VGA_HEIGHT
        then s\<lparr>vga_memory := (vga_memory s)[cell (y - ds) x := vga_entry c color]\<rparr>
        else s
      else s)"

fun strlen :: "cstring \<Rightarrow> u32" where
  "strlen [] = 0"
| "strlen (c # str) = (if c = 0 then 0 else strlen str + 1)"

definition terminal_refresh_display :: "'a terminal_scheme \<Rightarrow> 'a terminal_scheme" where
  "terminal_refresh_display s =
     (let ds = display_start s;
          ds = (if scroll_offset s \<le> ds then ds - scroll_offset s else 0);
          v = fold (\<lambda>y. fold (\<lambda>x v. v[y * 80 + x :=
                 scroll_buffer s ! cell (ds + word_of_nat y) (word_of_nat x)]) [0..<80]) [0..<25] (vga_memory s)
      in update_cursor (s\<lparr>vga_memory := v\<rparr>))"

text \<open>The block both ends of a line run: the cursor moves to the next line, and buffer or screen scroll.\<close>

definition terminal_next_row :: "'a terminal_scheme \<Rightarrow> 'a terminal_scheme" where
  "terminal_next_row s =
     (let s = s\<lparr>terminal_column := 0\<rparr>;
          old_ds = display_start s;
          s = s\<lparr>terminal_row := terminal_row s + 1\<rparr>
      in if terminal_row s = SCROLLBACK_LINES then terminal_refresh_display (terminal_scroll_buffer s)
         else if display_start s \<noteq> old_ds then vga_scroll s
         else s)"

definition terminal_putchar :: "device \<Rightarrow> u8 \<Rightarrow> 'a terminal_scheme \<Rightarrow> 'a terminal_scheme option" where
  "terminal_putchar dev c s =
     Option.bind (serial_write_char dev c s) (\<lambda>s.
     let s = (if scroll_offset s \<noteq> 0 then terminal_refresh_display (s\<lparr>scroll_offset := 0\<rparr>) else s) in
     if c = CHAR_BACKSPACE then
       let s = (if 0 < terminal_column s then s\<lparr>terminal_column := terminal_column s - 1\<rparr>
                else if 0 < terminal_row s
                then s\<lparr>terminal_row := terminal_row s - 1, terminal_column := VGA_WIDTH - 1\<rparr>
                else s);
           s = terminal_putchar_at CHAR_SPACE (terminal_color s) (terminal_column s) (terminal_row s) s
       in Some (update_cursor s)
     else if c = CHAR_NEWLINE then Some (update_cursor (terminal_next_row s))
     else
       let s = terminal_putchar_at c (terminal_color s) (terminal_column s) (terminal_row s) s;
           s = s\<lparr>terminal_column := terminal_column s + 1\<rparr>;
           s = (if terminal_column s = VGA_WIDTH then terminal_next_row s else s)
       in Some (update_cursor s))"

fun terminal_write :: "device \<Rightarrow> cstring \<Rightarrow> 'a terminal_scheme \<Rightarrow> 'a terminal_scheme option" where
  "terminal_write dev [] s = Some s"
| "terminal_write dev (c # str) s =
     (if c = 0 then Some s else Option.bind (terminal_putchar dev c s) (terminal_write dev str))"

definition terminal_scroll_up :: "u32 \<Rightarrow> 'a terminal_scheme \<Rightarrow> 'a terminal_scheme" where
  "terminal_scroll_up lines s =
     (let max_offset = (if VGA_HEIGHT \<le> terminal_row s then terminal_row s - VGA_HEIGHT + 1 else 0);
          s = s\<lparr>scroll_offset := scroll_offset s + lines\<rparr>;
          s = (if max_offset < scroll_offset s then s\<lparr>scroll_offset := max_offset\<rparr> else s)
      in terminal_refresh_display s)"

definition terminal_scroll_down :: "u32 \<Rightarrow> 'a terminal_scheme \<Rightarrow> 'a terminal_scheme" where
  "terminal_scroll_down lines s =
     (let s = (if lines \<le> scroll_offset s then s\<lparr>scroll_offset := scroll_offset s - lines\<rparr>
               else s\<lparr>scroll_offset := 0\<rparr>)
      in terminal_refresh_display s)"

definition header_colors :: "u8 list" where
  "header_colors =
     [vga_entry_color VGA_COLOR_LIGHT_BLUE VGA_COLOR_BLACK, vga_entry_color VGA_COLOR_LIGHT_CYAN VGA_COLOR_BLACK,
      vga_entry_color VGA_COLOR_CYAN VGA_COLOR_BLACK, vga_entry_color VGA_COLOR_BLUE VGA_COLOR_BLACK]"

fun writestr_centered_from ::
  "cstring \<Rightarrow> u32 \<Rightarrow> u32 \<Rightarrow> u32 \<Rightarrow> 'a terminal_scheme \<Rightarrow> 'a terminal_scheme" where
  "writestr_centered_from [] i col row s = s"
| "writestr_centered_from (c # str) i col row s =
     (if c = 0 then s
      else writestr_centered_from str (i + 1) col row
        (terminal_putchar_at c (header_colors ! unat ((i + row) mod 4)) (col + i) row s))"

definition terminal_writestr_centered :: "cstring \<Rightarrow> u32 \<Rightarrow> 'a terminal_scheme \<Rightarrow> 'a terminal_scheme" where
  "terminal_writestr_centered str row s =
     (let len = strlen str; col = (VGA_WIDTH - len) div 2 in writestr_centered_from str 0 col row s)"

definition HEADER :: "cstring list" where
  "HEADER =
     [cstr ''    AAAA    N   N  TTTTT  H   H  RRRR   OOO  DDDD   RRRR  '',
      cstr ''   A    A   NN  N    T    H   H  R   R O   O D   D  R   R '',
      cstr ''   AAAAAA   N N N    T    HHHHH  RRRR  O   O D   D  RRRR  '',
      cstr ''   A    A   N  NN    T    H   H  R  R  O   O D   D  R  R  '',
      cstr ''   A    A   N   N    T    H   H  R   R  OOO  DDDD   R   R '',
      [],
      cstr ''           Anthrodr - KFS-5 (Processes, Scheduling, Memory)      '',
      []]"

definition print_header :: "'a terminal_scheme \<Rightarrow> 'a terminal_scheme" where
  "print_header s =
     (let s = fold (\<lambda>i. terminal_writestr_centered (HEADER ! i) (word_of_nat i)) [0..<length HEADER] s
      in s\<lparr>terminal_row := 10, terminal_column := 0\<rparr>)"

end
