(* ===== verification/Terminal_Spec.thy ===== *)
theory Terminal_Spec
  imports Terminal
begin

unbundle bit_operations_syntax

text \<open>
  What the terminal shows. \<open>holds t s\<close>: the buffer holds the text \<open>t\<close> and blanks after it, and
  the cursor stands at its end. Every character is a step on such texts (\<open>text_step\<close>), so the
  terminal refines a list of cells. \<open>on_screen s\<close>: VGA memory shows the lines of the buffer it is
  meant to show.
\<close>

section \<open>Loops over cells\<close>

lemma shift_cells:
  "n + w \<le> length b \<Longrightarrow> fold (\<lambda>i b. b[i := b ! (i + w)]) [0..<n] b = take n (drop w b) @ drop n b"
proof (induction n)
  case (Suc n)
  let ?b = "take n (drop w b) @ drop n b"
  have l: "length (take n (drop w b)) = n" using Suc.prems by simp
  have "?b ! (n + w) = b ! (n + w)" using Suc.prems by (cases w) (simp_all add: nth_append)
  then have "fold (\<lambda>i b. b[i := b ! (i + w)]) [0..<Suc n] b = ?b[n := b ! (n + w)]"
    using Suc by simp
  also have "\<dots> = take (Suc n) (drop w b) @ drop (Suc n) b"
    using Suc.prems l by (simp add: list_update_append take_Suc_conv_app_nth add.commute
        Cons_nth_drop_Suc [symmetric, of n b])
  finally show ?case .
qed simp

lemma fill_cells:
  "a + n \<le> length b \<Longrightarrow> fold (\<lambda>x b. b[a + x := v]) [0..<n] b = take a b @ replicate n v @ drop (a + n) b"
proof (induction n)
  case (Suc n)
  have "fold (\<lambda>x b. b[a + x := v]) [0..<Suc n] b = (take a b @ replicate n v @ drop (a + n) b)[a + n := v]"
    using Suc by simp
  also have "\<dots> = take a b @ replicate n v @ v # drop (Suc (a + n)) b"
    using Suc.prems by (simp add: list_update_append Cons_nth_drop_Suc [symmetric, of "a + n" b])
  also have "\<dots> = take a b @ replicate (Suc n) v @ drop (a + Suc n) b"
    by (simp add: replicate_app_Cons_same)
  finally show ?case .
qed simp

lemma copy_cells:
  "n \<le> length v \<Longrightarrow> fold (\<lambda>i v. v[i := f i]) [0..<n] v = map f [0..<n] @ drop n v"
proof (induction n)
  case (Suc n)
  then show ?case
    by (simp add: list_update_append Cons_nth_drop_Suc [symmetric, of n v])
qed simp

lemma upt_lines: "[0..<Suc h * w] = [0..<h * w] @ map (\<lambda>x. h * w + x) [0..<w]"
proof -
  have "[0..<Suc h * w] = [0..<h * w] @ [h * w..<h * w + w]"
    using upt_add_eq_append [of 0 "h * w" w] by (simp add: add.commute)
  then show ?thesis by (simp add: map_add_upt add.commute [of "h * w"])
qed

lemma fold_lines:
  "fold (\<lambda>y. fold (\<lambda>x. f (y * w + x)) [0..<w]) [0..<h] v = fold f [0..<h * w] v"
proof (induction h)
  case (Suc h)
  then show ?case unfolding upt_lines by (simp add: fold_map comp_def)
qed simp

section \<open>The abstract terminal\<close>

definition blank :: "'a terminal_scheme \<Rightarrow> u16" where
  "blank s = vga_entry CHAR_SPACE (terminal_color s)"

text \<open>The text after a character, in colour \<open>color\<close>; a full buffer loses its first line.\<close>

definition trim :: "u16 list \<Rightarrow> u16 list" where
  "trim t = (if length t = 16000 then drop 80 t else t)"

definition text_step :: "u8 \<Rightarrow> u8 \<Rightarrow> u16 list \<Rightarrow> u16 list" where
  "text_step color c t =
     (if c = CHAR_BACKSPACE then butlast t
      else if c = CHAR_NEWLINE then trim (t @ replicate (80 - length t mod 80) (vga_entry CHAR_SPACE color))
      else trim (t @ [vga_entry c color]))"

definition holds :: "u16 list \<Rightarrow> 'a terminal_scheme \<Rightarrow> bool" where
  "holds t s \<longleftrightarrow> length t < 16000 \<and>
     scroll_buffer s = t @ replicate (16000 - length t) (blank s) \<and>
     unat (terminal_row s) = length t div 80 \<and> unat (terminal_column s) = length t mod 80"

text \<open>The first line of the buffer the screen shows, and the screen.\<close>

definition top_line :: "'a terminal_scheme \<Rightarrow> nat" where
  "top_line s = unat (display_start s) - unat (scroll_offset s)"

definition on_screen :: "'a terminal_scheme \<Rightarrow> bool" where
  "on_screen s \<longleftrightarrow> unat (scroll_offset s) \<le> unat (display_start s) \<and>
     vga_memory s = take 2000 (drop (80 * top_line s) (scroll_buffer s))"

lemma unat_display_start:
  "unat (terminal_row s) < 200 \<Longrightarrow> unat (display_start s) = unat (terminal_row s) - 24"
proof -
  assume r: "unat (terminal_row s) < 200"
  show ?thesis
  proof (cases "VGA_HEIGHT \<le> terminal_row s")
    case True
    then have "24 \<le> terminal_row s" by (simp add: word_le_unat)
    then show ?thesis using True by (simp add: display_start_def unat_sub_exact)
  qed (simp add: display_start_def word_le_unat)
qed

lemma cell_eq: "unat y < 1000 \<Longrightarrow> unat x < 80 \<Longrightarrow> cell y x = unat y * 80 + unat x"
  by (simp add: cell_def unat_add_mod unat_mult_mod)

lemma update_cursor_fields [simp]:
  "scroll_buffer (update_cursor s) = scroll_buffer s" "terminal_row (update_cursor s) = terminal_row s"
  "terminal_column (update_cursor s) = terminal_column s" "terminal_color (update_cursor s) = terminal_color s"
  "scroll_offset (update_cursor s) = scroll_offset s" "vga_memory (update_cursor s) = vga_memory s"
  "display_start (update_cursor s) = display_start s" "serial_enabled (update_cursor s) = serial_enabled s"
  by (simp_all add: update_cursor_def outb_def display_start_def Let_def)

lemma display_start_update [simp]:
  "display_start (s\<lparr>scroll_buffer := b\<rparr>) = display_start s" "display_start (s\<lparr>vga_memory := v\<rparr>) = display_start s"
  "display_start (s\<lparr>terminal_column := c\<rparr>) = display_start s" "display_start (s\<lparr>scroll_offset := f\<rparr>) = display_start s"
  by (simp_all add: display_start_def)

lemma holds_cong:
  "scroll_buffer s' = scroll_buffer s \<Longrightarrow> terminal_row s' = terminal_row s \<Longrightarrow>
   terminal_column s' = terminal_column s \<Longrightarrow> terminal_color s' = terminal_color s \<Longrightarrow> holds t s' = holds t s"
  by (simp add: holds_def blank_def)

lemma holdsD:
  assumes "holds t s"
  shows "length (scroll_buffer s) = 16000" "length t < 16000" "unat (terminal_row s) < 200"
    "unat (terminal_column s) < 80" "cell (terminal_row s) (terminal_column s) = length t"
    "unat (display_start s) = length t div 80 - 24"
proof -
  show l: "length t < 16000" and "length (scroll_buffer s) = 16000" using assms by (simp_all add: holds_def)
  show r: "unat (terminal_row s) < 200" and c: "unat (terminal_column s) < 80"
    using assms by (auto simp: holds_def)
  show "cell (terminal_row s) (terminal_column s) = length t"
    using assms r by (simp add: cell_eq holds_def)
  show "unat (display_start s) = length t div 80 - 24"
    using assms unat_display_start [OF r] by (simp add: holds_def)
qed

lemma refresh_shows:
  assumes "holds t s" "length (vga_memory s) = 2000" "unat (scroll_offset s) \<le> unat (display_start s)"
  shows "vga_memory (terminal_refresh_display s) = take 2000 (drop (80 * top_line s) (scroll_buffer s))"
proof -
  note d = holdsD [OF assms(1)]
  let ?ds = "display_start s - scroll_offset s"
  have le: "scroll_offset s \<le> display_start s" using assms(3) by (simp add: word_le_unat)
  then have t: "unat ?ds = top_line s" by (simp add: top_line_def unat_sub_exact)
  have top: "top_line s \<le> 175" using d(3) unat_display_start [OF d(3)] by (simp add: top_line_def)
  have c: "cell (?ds + word_of_nat y) (word_of_nat x) = 80 * top_line s + (y * 80 + x)"
    if "y < 25" "x < 80" for x y
  proof -
    have "unat (?ds + word_of_nat y) = top_line s + y"
      using that top t unat_word_of_nat_u32 [of y] by (subst unat_add_exact) simp_all
    moreover have "unat (word_of_nat x :: u32) = x" using that by (simp add: unat_word_of_nat_u32)
    ultimately show ?thesis using that top by (simp add: cell_eq)
  qed
  have "vga_memory (terminal_refresh_display s) =
      fold (\<lambda>y. fold (\<lambda>x v. v[y * 80 + x := scroll_buffer s ! (80 * top_line s + (y * 80 + x))]) [0..<80]) [0..<25] (vga_memory s)"
    unfolding terminal_refresh_display_def Let_def update_cursor_fields
    by (simp add: le, intro fold_cong refl ext) (simp add: c)
  also have "\<dots> = fold (\<lambda>i v. v[i := scroll_buffer s ! (80 * top_line s + i)]) [0..<25 * 80] (vga_memory s)"
    by (rule fold_lines)
  also have "\<dots> = map (\<lambda>i. scroll_buffer s ! (80 * top_line s + i)) [0..<2000]"
    using assms(2) by (simp add: copy_cells)
  also have "\<dots> = take 2000 (drop (80 * top_line s) (scroll_buffer s))"
    using d(1) top by (intro nth_equalityI) simp_all
  finally show ?thesis .
qed

section \<open>Moving to the next line\<close>

lemma vga_scroll_eq:
  assumes "length (vga_memory s) = 2000"
  shows "vga_scroll s = s\<lparr>vga_memory := drop 80 (vga_memory s) @ replicate 80 (blank s)\<rparr>"
proof -
  have "fold (\<lambda>y. fold (\<lambda>x v. v[(y - 1) * 80 + x := v ! (y * 80 + x)]) [0..<80]) [1..<25] (vga_memory s) =
      fold (\<lambda>y. fold (\<lambda>x v. v[y * 80 + x := v ! (y * 80 + x + 80)]) [0..<80]) [0..<24] (vga_memory s)"
  proof -
    have "[1..<25] = map Suc [0..<24]" by (simp add: map_Suc_upt)
    then show ?thesis by (simp add: fold_map comp_def algebra_simps)
  qed
  also have "\<dots> = fold (\<lambda>i v. v[i := v ! (i + 80)]) [0..<24 * 80] (vga_memory s)"
    by (rule fold_lines)
  also have "\<dots> = take 1920 (drop 80 (vga_memory s)) @ drop 1920 (vga_memory s)"
    using shift_cells [of "24 * 80" 80 "vga_memory s"] assms by simp
  finally have f: "fold (\<lambda>y. fold (\<lambda>x v. v[(y - 1) * 80 + x := v ! (y * 80 + x)]) [0..<80]) [1..<25] (vga_memory s) =
      take 1920 (drop 80 (vga_memory s)) @ drop 1920 (vga_memory s)" .
  have "fold (\<lambda>x v. v[24 * 80 + x := blank s]) [0..<80] (take 1920 (drop 80 (vga_memory s)) @ drop 1920 (vga_memory s)) =
      drop 80 (vga_memory s) @ replicate 80 (blank s)"
    using fill_cells [of "24 * 80" 80 "take 1920 (drop 80 (vga_memory s)) @ drop 1920 (vga_memory s)"] assms by simp
  then show ?thesis unfolding vga_scroll_def f Let_def blank_def [symmetric] by simp
qed

lemma scroll_buffer_eq:
  assumes "length (scroll_buffer s) = 16000"
  shows "terminal_scroll_buffer s = s\<lparr>scroll_buffer := drop 80 (scroll_buffer s) @ replicate 80 (blank s),
    terminal_row := 199\<rparr>"
proof -
  have f: "fold (\<lambda>i b. b[i := b ! (i + 80)]) [0..<199 * 80] (scroll_buffer s) =
      take 15920 (drop 80 (scroll_buffer s)) @ drop 15920 (scroll_buffer s)"
    using shift_cells [of "199 * 80" 80 "scroll_buffer s"] assms by simp
  have "fold (\<lambda>x b. b[199 * 80 + x := blank s]) [0..<80]
        (take 15920 (drop 80 (scroll_buffer s)) @ drop 15920 (scroll_buffer s)) =
      drop 80 (scroll_buffer s) @ replicate 80 (blank s)"
    using fill_cells [of "199 * 80" 80 "take 15920 (drop 80 (scroll_buffer s)) @ drop 15920 (scroll_buffer s)"] assms
    by simp
  then show ?thesis unfolding terminal_scroll_buffer_def f Let_def blank_def [symmetric] by simp
qed

lemma refresh_fields [simp]:
  "scroll_buffer (terminal_refresh_display s) = scroll_buffer s" "terminal_row (terminal_refresh_display s) = terminal_row s"
  "terminal_column (terminal_refresh_display s) = terminal_column s"
  "terminal_color (terminal_refresh_display s) = terminal_color s"
  "scroll_offset (terminal_refresh_display s) = scroll_offset s"
  "serial_enabled (terminal_refresh_display s) = serial_enabled s"
  "display_start (terminal_refresh_display s) = display_start s"
  by (simp_all add: terminal_refresh_display_def Let_def display_start_def)

lemma refresh_on_screen:
  assumes "holds t s" "length (vga_memory s) = 2000" "unat (scroll_offset s) \<le> unat (display_start s)"
  shows "on_screen (terminal_refresh_display s)"
  using refresh_shows [OF assms] assms(3) by (simp add: on_screen_def top_line_def)

lemma refresh_holds: "holds t (terminal_refresh_display s) = holds t s"
  by (rule holds_cong) simp_all

lemma screen_length: "on_screen s \<Longrightarrow> holds t s \<Longrightarrow> length (vga_memory s) = 2000"
proof -
  assume s: "on_screen s" "holds t s"
  have "top_line s \<le> 175"
    using holdsD(3) [OF s(2)] unat_display_start [of s] by (simp add: top_line_def)
  then show ?thesis using s(1) holdsD(1) [OF s(2)] by (simp add: on_screen_def)
qed

text \<open>
  The cursor stands in the line that ends with \<open>t\<close>, all of whose cells are written; the column is
  whatever the caller left.
\<close>

lemma next_row_step:
  assumes b: "scroll_buffer s = t @ replicate (16000 - length t) (blank s)"
    and t: "length t = 80 * Suc (unat (terminal_row s))" and r: "unat (terminal_row s) < 200"
    and v: "scroll_offset s = 0" "length (vga_memory s) = 2000"
  shows "holds (trim t) (terminal_next_row s)" "on_screen s \<Longrightarrow> on_screen (terminal_next_row s)"
    "scroll_offset (terminal_next_row s) = 0" "terminal_color (terminal_next_row s) = terminal_color s"
    "length (vga_memory (terminal_next_row s)) = 2000"
proof -
  let ?s = "s\<lparr>terminal_column := 0, terminal_row := terminal_row s + 1\<rparr>"
  have r1: "unat (terminal_row s + 1) = Suc (unat (terminal_row s))"
    using r by (simp add: unat_add_exact)
  have len: "length (scroll_buffer s) = 16000" using b t r by simp
  consider (full) "unat (terminal_row s) = 199" | (scroll) "24 \<le> unat (terminal_row s)" "unat (terminal_row s) < 199"
    | (still) "unat (terminal_row s) < 24" using r by linarith
  then have "holds (trim t) (terminal_next_row s) \<and> (on_screen s \<longrightarrow> on_screen (terminal_next_row s)) \<and>
    scroll_offset (terminal_next_row s) = 0 \<and> terminal_color (terminal_next_row s) = terminal_color s \<and>
    length (vga_memory (terminal_next_row s)) = 2000"
  proof cases
    case full
    let ?s' = "s\<lparr>terminal_column := 0, scroll_buffer := drop 80 (scroll_buffer s) @ replicate 80 (blank s), terminal_row := 199\<rparr>"
    have "terminal_row s + 1 = 200" using r1 full by (simp add: word_eq_unat)
    then have n: "terminal_next_row s = terminal_refresh_display ?s'"
      using scroll_buffer_eq [of ?s] len by (simp add: terminal_next_row_def Let_def blank_def)
    have h: "holds (trim t) ?s'" using b t full by (simp add: holds_def trim_def blank_def)
    moreover have "on_screen (terminal_refresh_display ?s')" using v by (intro refresh_on_screen [OF h]) simp_all
    moreover have "length (vga_memory (terminal_refresh_display ?s')) = 2000"
      using calculation by (intro screen_length [where t = "trim t"]) (simp_all add: refresh_holds)
    ultimately show ?thesis using v unfolding n refresh_holds by simp
  next
    case scroll
    have "terminal_row s + 1 \<noteq> 200" using r1 scroll by (auto simp: word_eq_unat)
    moreover have "unat (display_start ?s) = Suc (unat (display_start s))"
      using scroll r1 by (simp add: unat_display_start Suc_diff_le)
    then have "display_start ?s \<noteq> display_start s" by (auto simp: word_eq_unat)
    moreover have "display_start (s\<lparr>terminal_column := 0\<rparr>) = display_start s" by (simp add: display_start_def)
    ultimately have n: "terminal_next_row s = ?s\<lparr>vga_memory := drop 80 (vga_memory s) @ replicate 80 (blank s)\<rparr>"
      using vga_scroll_eq [of ?s] v(2) by (simp add: terminal_next_row_def Let_def blank_def)
    have h: "holds (trim t) (terminal_next_row s)"
      unfolding n using b t r1 scroll by (simp add: holds_def trim_def blank_def)
    have "on_screen (terminal_next_row s)" if "on_screen s"
    proof -
      let ?k = "unat (terminal_row s) - 24"
      have w: "vga_memory s = take 2000 (drop (80 * ?k) (scroll_buffer s))"
        using that v(1) r by (simp add: on_screen_def top_line_def unat_display_start)
      have "take 80 (drop (80 * Suc (unat (terminal_row s))) (scroll_buffer s)) = replicate 80 (blank s)"
        using b t scroll by simp
      moreover have "take 2000 (drop (80 * Suc ?k) (scroll_buffer s)) =
          take 1920 (drop (80 * Suc ?k) (scroll_buffer s)) @ take 80 (drop (80 * Suc ?k + 1920) (scroll_buffer s))"
        using take_add [of 1920 80 "drop (80 * Suc ?k) (scroll_buffer s)"] by (simp add: add.commute)
      moreover have "80 * Suc ?k + 1920 = 80 * Suc (unat (terminal_row s))" using scroll by simp
      moreover have "drop 80 (vga_memory s) = take 1920 (drop (80 * Suc ?k) (scroll_buffer s))"
        unfolding w by (simp add: drop_take add.commute)
      ultimately have "drop 80 (vga_memory s) @ replicate 80 (blank s) = take 2000 (drop (80 * Suc ?k) (scroll_buffer s))"
        by (simp only:)
      moreover have "unat (display_start (terminal_next_row s)) = Suc ?k"
        unfolding n using scroll r1 by (simp add: unat_display_start Suc_diff_le)
      ultimately show ?thesis unfolding on_screen_def top_line_def by (simp add: n v(1))
    qed
    then show ?thesis using h v unfolding n by simp
  next
    case still
    have "terminal_row s + 1 \<noteq> 200" using r1 still by (auto simp: word_eq_unat)
    moreover have d: "display_start ?s = display_start s" "display_start (s\<lparr>terminal_column := 0\<rparr>) = display_start s"
      using still r1 by (simp_all add: display_start_def word_le_unat)
    ultimately have n: "terminal_next_row s = ?s" by (simp add: terminal_next_row_def Let_def)
    have "holds (trim t) (terminal_next_row s)"
      unfolding n using b t r1 still by (simp add: holds_def trim_def blank_def)
    then show ?thesis using v d(1) unfolding n on_screen_def top_line_def by simp
  qed
  then show "holds (trim t) (terminal_next_row s)" "on_screen s \<Longrightarrow> on_screen (terminal_next_row s)"
    "scroll_offset (terminal_next_row s) = 0" "terminal_color (terminal_next_row s) = terminal_color s"
    "length (vga_memory (terminal_next_row s)) = 2000"
    by blast+
qed

section \<open>One character\<close>

lemma putchar_at_fields [simp]:
  "terminal_row (terminal_putchar_at c color x y s) = terminal_row s"
  "terminal_column (terminal_putchar_at c color x y s) = terminal_column s"
  "terminal_color (terminal_putchar_at c color x y s) = terminal_color s"
  "scroll_offset (terminal_putchar_at c color x y s) = scroll_offset s"
  "serial_enabled (terminal_putchar_at c color x y s) = serial_enabled s"
  "display_start (terminal_putchar_at c color x y s) = display_start s"
  "length (vga_memory (terminal_putchar_at c color x y s)) = length (vga_memory s)"
  "scroll_buffer (terminal_putchar_at c color x y s) = (scroll_buffer s)[cell y x := vga_entry c color]"
  by (simp_all add: terminal_putchar_at_def Let_def display_start_def)

text \<open>A cell of a line on the screen is written in the buffer and on the screen alike.\<close>

lemma putchar_at_on_screen:
  assumes s: "on_screen s" "scroll_offset s = 0" and y: "unat y = unat (terminal_row s)" "unat y < 200" and x: "unat x < 80"
  shows "on_screen (terminal_putchar_at c color x y s)"
proof -
  have d: "unat (display_start s) = unat y - 24" using y by (simp add: unat_display_start)
  have le: "display_start s \<le> y" using d y(2) by (simp add: word_le_unat)
  have "unat (display_start s + VGA_HEIGHT) = unat y - 24 + 25" using d y(2) by (simp add: unat_add_exact)
  then have lt: "y < display_start s + VGA_HEIGHT" using y(2) by (simp add: word_less_unat)
  have u: "unat (y - display_start s) = unat y - (unat y - 24)" using le d by (simp add: unat_sub_exact)
  have c1: "cell y x = 80 * (unat y - 24) + (80 * (unat y - (unat y - 24)) + unat x)"
    using x y(2) by (simp add: cell_eq)
  have c2: "cell (y - display_start s) x = 80 * (unat y - (unat y - 24)) + unat x"
    using x y(2) u by (simp add: cell_eq)
  have small: "80 * (unat y - (unat y - 24)) + unat x < 2000" using x by simp
  have "vga_memory (terminal_putchar_at c color x y s) =
      (vga_memory s)[cell (y - display_start s) x := vga_entry c color]"
    using le lt s(2) by (simp add: terminal_putchar_at_def Let_def)
  then show ?thesis
    using s small unfolding on_screen_def top_line_def putchar_at_fields c2
    by (simp add: d c1 drop_update_swap take_update_swap)
qed

lemma holds_append:
  assumes h: "holds t s"
  shows "(scroll_buffer s)[cell (terminal_row s) (terminal_column s) := e] =
    (t @ [e]) @ replicate (16000 - length (t @ [e])) (blank s)"
proof -
  note d = holdsD [OF h]
  have "16000 - length t = Suc (16000 - length (t @ [e]))" using d(2) by simp
  then show ?thesis using h unfolding d(5) by (simp add: holds_def list_update_append)
qed

lemma pad_line: "n + (80 - n mod 80) = 80 * Suc (n div 80)" for n :: nat
  by presburger

text \<open>The three kinds of characters, on a screen that is not scrolled back.\<close>

lemma newline_step:
  assumes h: "holds t s" and v: "scroll_offset s = 0" "length (vga_memory s) = 2000"
  shows "holds (text_step (terminal_color s) CHAR_NEWLINE t) (terminal_next_row s)"
    "on_screen s \<Longrightarrow> on_screen (terminal_next_row s)"
    "scroll_offset (terminal_next_row s) = 0" "terminal_color (terminal_next_row s) = terminal_color s"
    "length (vga_memory (terminal_next_row s)) = 2000"
proof -
  note d = holdsD [OF h]
  let ?t = "t @ replicate (80 - length t mod 80) (blank s)"
  have l: "length ?t = 80 * Suc (unat (terminal_row s))"
    using h pad_line [of "length t"] by (simp add: holds_def)
  have "80 - length t mod 80 + (16000 - length ?t) = 16000 - length t" using l d(3) by simp
  then have b: "scroll_buffer s = ?t @ replicate (16000 - length ?t) (blank s)"
    using h by (simp add: holds_def flip: replicate_add)
  note n = next_row_step [OF b l d(3) v]
  have "text_step (terminal_color s) CHAR_NEWLINE t = trim ?t" by (simp add: text_step_def blank_def)
  then show "holds (text_step (terminal_color s) CHAR_NEWLINE t) (terminal_next_row s)" using n(1) by simp
  show "on_screen s \<Longrightarrow> on_screen (terminal_next_row s)"
    "scroll_offset (terminal_next_row s) = 0" "terminal_color (terminal_next_row s) = terminal_color s"
    "length (vga_memory (terminal_next_row s)) = 2000" using n(2-5) by blast+
qed

lemma trim_room: "length t < 16000 \<Longrightarrow> trim t = t"
  by (simp add: trim_def)

definition put_cell :: "u8 \<Rightarrow> 'a terminal_scheme \<Rightarrow> 'a terminal_scheme" where
  "put_cell c s =
     (let s = terminal_putchar_at c (terminal_color s) (terminal_column s) (terminal_row s) s;
          s = s\<lparr>terminal_column := terminal_column s + 1\<rparr>
      in if terminal_column s = VGA_WIDTH then terminal_next_row s else s)"

lemma put_cell_step:
  assumes h: "holds t s" and v: "scroll_offset s = 0" "length (vga_memory s) = 2000"
    and c: "c \<noteq> CHAR_BACKSPACE" "c \<noteq> CHAR_NEWLINE"
  shows "holds (text_step (terminal_color s) c t) (put_cell c s)" "on_screen s \<Longrightarrow> on_screen (put_cell c s)"
    "scroll_offset (put_cell c s) = 0" "terminal_color (put_cell c s) = terminal_color s"
    "length (vga_memory (put_cell c s)) = 2000"
proof -
  note d = holdsD [OF h]
  let ?e = "vga_entry c (terminal_color s)"
  let ?s = "(terminal_putchar_at c (terminal_color s) (terminal_column s) (terminal_row s) s)
    \<lparr>terminal_column := terminal_column s + 1\<rparr>"
  have b: "scroll_buffer ?s = (t @ [?e]) @ replicate (16000 - length (t @ [?e])) (blank ?s)"
    using holds_append [OF h, of ?e] by (simp add: blank_def)
  have col: "unat (terminal_column s + 1) = Suc (length t mod 80)"
    using h d(4) by (simp add: holds_def unat_add_exact)
  have t: "text_step (terminal_color s) c t = trim (t @ [?e])" using c by (simp add: text_step_def)
  have os: "on_screen ?s" if "on_screen s"
    using putchar_at_on_screen [OF that v(1) refl d(3,4)] by (simp add: on_screen_def top_line_def)
  have "holds (text_step (terminal_color s) c t) (put_cell c s) \<and> (on_screen s \<longrightarrow> on_screen (put_cell c s)) \<and>
    scroll_offset (put_cell c s) = 0 \<and> terminal_color (put_cell c s) = terminal_color s \<and>
    length (vga_memory (put_cell c s)) = 2000"
  proof (cases "terminal_column s + 1 = VGA_WIDTH")
    case True
    then have "length t mod 80 = 79" using col by simp
    then have l: "length (t @ [?e]) = 80 * Suc (unat (terminal_row ?s))"
      using h div_mult_mod_eq [of "length t" 80] by (simp add: holds_def)
    note n = next_row_step [OF b l]
    have "put_cell c s = terminal_next_row ?s" using True by (simp add: put_cell_def Let_def)
    then show ?thesis using n d(3) v os unfolding t by simp
  next
    case False
    then have "length t mod 80 \<noteq> 79" using col by (auto simp: word_eq_unat)
    then have m: "Suc (length t) mod 80 = Suc (length t mod 80)" "Suc (length t) div 80 = length t div 80"
      using d(4) h by (auto simp: mod_Suc div_Suc)
    have "length t \<noteq> 15999" using \<open>length t mod 80 \<noteq> 79\<close> by auto
    then have "holds (t @ [?e]) ?s" "trim (t @ [?e]) = t @ [?e]"
      using b h m col d(2) by (simp_all add: holds_def trim_def blank_def)
    moreover have "put_cell c s = ?s" using False by (simp add: put_cell_def Let_def)
    ultimately show ?thesis using v os unfolding t by simp
  qed
  then show "holds (text_step (terminal_color s) c t) (put_cell c s)" "on_screen s \<Longrightarrow> on_screen (put_cell c s)"
    "scroll_offset (put_cell c s) = 0" "terminal_color (put_cell c s) = terminal_color s"
    "length (vga_memory (put_cell c s)) = 2000" by blast+
qed

text \<open>Backspace; \<open>crosses\<close> is the step back to a line above that moves the lines on the screen.\<close>

definition erase_cell :: "'a terminal_scheme \<Rightarrow> 'a terminal_scheme" where
  "erase_cell s =
     (let s = (if 0 < terminal_column s then s\<lparr>terminal_column := terminal_column s - 1\<rparr>
               else if 0 < terminal_row s
               then s\<lparr>terminal_row := terminal_row s - 1, terminal_column := VGA_WIDTH - 1\<rparr>
               else s)
      in terminal_putchar_at CHAR_SPACE (terminal_color s) (terminal_column s) (terminal_row s) s)"

definition crosses :: "u8 \<Rightarrow> 'a terminal_scheme \<Rightarrow> bool" where
  "crosses c s \<longleftrightarrow> c = CHAR_BACKSPACE \<and> terminal_column s = 0 \<and> VGA_HEIGHT \<le> terminal_row s"

lemma erase_start: "holds [] s \<Longrightarrow> holds [] (erase_cell s)"
  and erase_start_screen: "holds [] s \<Longrightarrow> scroll_offset s = 0 \<Longrightarrow> on_screen s \<Longrightarrow> on_screen (erase_cell s)"
proof -
  assume h: "holds [] s"
  have z: "terminal_row s = 0" "terminal_column s = 0" using h by (simp_all add: holds_def word_eq_unat)
  have e: "erase_cell s = terminal_putchar_at CHAR_SPACE (terminal_color s) (terminal_column s) (terminal_row s) s"
    using z by (simp add: erase_cell_def)
  have "(scroll_buffer s)[cell (terminal_row s) (terminal_column s) := blank s] = scroll_buffer s"
    using h by (simp add: z cell_def holds_def list_update_same_conv)
  then show "holds [] (erase_cell s)" unfolding e using h by (simp add: holds_def blank_def)
  assume "scroll_offset s = 0" "on_screen s"
  then show "on_screen (erase_cell s)" unfolding e by (intro putchar_at_on_screen) (simp_all add: z)
qed

lemma erase_last:
  assumes h: "holds (t @ [e]) s"
  shows "holds t (erase_cell s)"
    "scroll_offset s = 0 \<Longrightarrow> on_screen s \<Longrightarrow> \<not> crosses CHAR_BACKSPACE s \<Longrightarrow> on_screen (erase_cell s)"
proof -
  note d = holdsD [OF h]
  define s1 where "s1 = (if 0 < terminal_column s then s\<lparr>terminal_column := terminal_column s - 1\<rparr>
    else s\<lparr>terminal_row := terminal_row s - 1, terminal_column := 79\<rparr>)"
  have rc: "unat (terminal_row s) = Suc (length t) div 80" "unat (terminal_column s) = Suc (length t) mod 80"
    using h by (simp_all add: holds_def)
  have r1: "unat (terminal_row s1) = length t div 80" and c1: "unat (terminal_column s1) = length t mod 80"
  proof -
    have "unat (terminal_row s1) = length t div 80 \<and> unat (terminal_column s1) = length t mod 80"
    proof (cases "terminal_column s = 0")
      case True
      then have "Suc (length t) mod 80 = 0" using rc by simp
      then have "length t mod 80 = 79" "Suc (length t) div 80 = Suc (length t div 80)"
        by (simp_all add: mod_Suc div_Suc split: if_splits)
      moreover from this have "terminal_row s \<noteq> 0" using rc by (auto simp: word_eq_unat)
      ultimately show ?thesis using True rc by (simp add: s1_def unat_dec)
    next
      case False
      then have "Suc (length t) mod 80 \<noteq> 0" using rc(2) by (auto simp: word_eq_unat)
      then have "length t mod 80 = Suc (length t) mod 80 - 1" "Suc (length t) div 80 = length t div 80"
        by (simp_all add: mod_Suc div_Suc split: if_splits)
      then show ?thesis using False rc by (simp add: s1_def unat_dec word_gt_0)
    qed
    then show "unat (terminal_row s1) = length t div 80" "unat (terminal_column s1) = length t mod 80" by auto
  qed
  have pos: "0 < terminal_row s" if "terminal_column s = 0"
  proof -
    have "Suc (length t) mod 80 = 0" using that rc(2) by simp
    then have "Suc (length t) div 80 \<noteq> 0" by (simp add: mod_Suc div_Suc split: if_splits)
    then show ?thesis using rc(1) by (simp add: word_less_unat)
  qed
  have e: "erase_cell s = terminal_putchar_at CHAR_SPACE (terminal_color s1) (terminal_column s1) (terminal_row s1) s1"
    using pos by (cases "terminal_column s = 0") (simp_all add: erase_cell_def s1_def Let_def word_gt_0)
  have f: "scroll_buffer s1 = scroll_buffer s" "terminal_color s1 = terminal_color s" "scroll_offset s1 = scroll_offset s"
    "vga_memory s1 = vga_memory s"
    by (simp_all add: s1_def)
  have lt: "length t < 16000" "unat (terminal_row s1) < 200" using d(2) r1 by simp_all
  have c: "cell (terminal_row s1) (terminal_column s1) = length t" using lt(2) r1 c1 by (simp add: cell_eq)
  have "16000 - length t = Suc (16000 - length (t @ [e]))" using d(2) by simp
  then have "(scroll_buffer s)[length t := blank s] = t @ replicate (16000 - length t) (blank s)"
    using h by (simp add: holds_def list_update_append)
  then show "holds t (erase_cell s)"
    unfolding e using lt r1 c1 by (simp add: holds_def blank_def f c)
  assume o: "scroll_offset s = 0" "on_screen s" "\<not> crosses CHAR_BACKSPACE s"
  have "display_start s1 = display_start s"
  proof (cases "terminal_column s = 0")
    case True
    then have "unat (terminal_row s) < 25" using o(3) by (simp add: crosses_def word_le_unat)
    then have "unat (display_start s1) = unat (display_start s)"
      using d(3) lt(2) True pos by (simp add: unat_display_start s1_def unat_dec word_gt_0)
    then show ?thesis by (simp add: word_eq_unat)
  qed (simp add: s1_def word_gt_0)
  then have "on_screen s1" using o(2) by (simp add: on_screen_def top_line_def f)
  then show "on_screen (erase_cell s)"
    unfolding e using o(1) lt(2) c1 by (intro putchar_at_on_screen) (simp_all add: f)
qed

section \<open>The terminal as a whole\<close>

text \<open>The terminal holds the text \<open>t\<close> and can be drawn.\<close>

definition screen_ok :: "u16 list \<Rightarrow> 'a terminal_scheme \<Rightarrow> bool" where
  "screen_ok t s \<longleftrightarrow> holds t s \<and> length (vga_memory s) = 2000 \<and> unat (scroll_offset s) \<le> unat (display_start s)"

text \<open>What \<open>terminal_putchar\<close> does once the serial line has taken the character.\<close>

definition snap_back :: "'a terminal_scheme \<Rightarrow> 'a terminal_scheme" where
  "snap_back s = (if scroll_offset s \<noteq> 0 then terminal_refresh_display (s\<lparr>scroll_offset := 0\<rparr>) else s)"

definition draw_char :: "u8 \<Rightarrow> 'a terminal_scheme \<Rightarrow> 'a terminal_scheme" where
  "draw_char c s =
     (if c = CHAR_BACKSPACE then erase_cell s else if c = CHAR_NEWLINE then terminal_next_row s else put_cell c s)"

lemma terminal_putchar_eq:
  "terminal_putchar dev c s =
     map_option (\<lambda>s. update_cursor (draw_char c (snap_back s))) (serial_write_char dev c s)"
  by (cases "serial_write_char dev c s")
    (simp_all add: terminal_putchar_def snap_back_def draw_char_def erase_cell_def put_cell_def Let_def)

lemma snap_back_ok:
  assumes "screen_ok t s"
  shows "screen_ok t (snap_back s)" "scroll_offset (snap_back s) = 0" "terminal_color (snap_back s) = terminal_color s"
    "on_screen s \<Longrightarrow> on_screen (snap_back s)"
    "terminal_row (snap_back s) = terminal_row s" "terminal_column (snap_back s) = terminal_column s"
proof -
  have h: "holds t (s\<lparr>scroll_offset := 0\<rparr>)" using assms by (simp add: screen_ok_def holds_def blank_def)
  have o: "on_screen (terminal_refresh_display (s\<lparr>scroll_offset := 0\<rparr>))"
    using assms by (intro refresh_on_screen [OF h]) (simp_all add: screen_ok_def)
  have l: "length (vga_memory (terminal_refresh_display (s\<lparr>scroll_offset := 0\<rparr>))) = 2000"
    using screen_length [OF o, of t] h by (simp add: refresh_holds)
  show "screen_ok t (snap_back s)" using assms h l by (simp add: screen_ok_def snap_back_def refresh_holds)
  show "on_screen s \<Longrightarrow> on_screen (snap_back s)" using o by (simp add: snap_back_def)
  show "scroll_offset (snap_back s) = 0" "terminal_color (snap_back s) = terminal_color s"
    "terminal_row (snap_back s) = terminal_row s" "terminal_column (snap_back s) = terminal_column s"
    by (simp_all add: snap_back_def)
qed

lemma erase_fields:
  "scroll_offset (erase_cell s) = scroll_offset s" "terminal_color (erase_cell s) = terminal_color s"
  "length (vga_memory (erase_cell s)) = length (vga_memory s)"
  by (simp_all add: erase_cell_def Let_def)

lemma draw_char_ok:
  assumes s: "screen_ok t s" "scroll_offset s = 0"
  shows "screen_ok (text_step (terminal_color s) c t) (draw_char c s)"
    "scroll_offset (draw_char c s) = 0" "terminal_color (draw_char c s) = terminal_color s"
    "on_screen s \<Longrightarrow> \<not> crosses c s \<Longrightarrow> on_screen (draw_char c s)"
proof -
  have h: "holds t s" "length (vga_memory s) = 2000" using s(1) by (simp_all add: screen_ok_def)
  have "screen_ok (text_step (terminal_color s) c t) (draw_char c s) \<and>
    scroll_offset (draw_char c s) = 0 \<and> terminal_color (draw_char c s) = terminal_color s \<and>
    (on_screen s \<longrightarrow> \<not> crosses c s \<longrightarrow> on_screen (draw_char c s))"
  proof -
    consider (bs) "c = CHAR_BACKSPACE" | (nl) "c = CHAR_NEWLINE" | (ch) "c \<noteq> CHAR_BACKSPACE" "c \<noteq> CHAR_NEWLINE" by blast
    then show ?thesis
    proof cases
      case bs
      have "holds (butlast t) (erase_cell s)" using h(1) erase_start erase_last
        by (cases t rule: rev_cases) auto
      moreover have "on_screen (erase_cell s)" if "on_screen s" "\<not> crosses c s"
        using h(1) erase_start_screen [OF _ s(2) that(1)] erase_last(2) [OF _ s(2) that(1)] that(2) bs
        by (cases t rule: rev_cases) auto
      ultimately show ?thesis
        using bs h(2) s(2) by (simp add: draw_char_def text_step_def screen_ok_def erase_fields)
    next
      case nl
      then show ?thesis using newline_step [OF h(1) s(2) h(2)] by (simp add: draw_char_def screen_ok_def)
    next
      case ch
      then show ?thesis using put_cell_step [OF h(1) s(2) h(2) ch] by (simp add: draw_char_def screen_ok_def)
    qed
  qed
  then show "screen_ok (text_step (terminal_color s) c t) (draw_char c s)"
    "scroll_offset (draw_char c s) = 0" "terminal_color (draw_char c s) = terminal_color s"
    "on_screen s \<Longrightarrow> \<not> crosses c s \<Longrightarrow> on_screen (draw_char c s)" by blast+
qed

lemma update_cursor_keeps: "screen_ok t (update_cursor s) = screen_ok t s" "on_screen (update_cursor s) = on_screen s"
  by (simp_all add: screen_ok_def on_screen_def top_line_def holds_def blank_def)

lemma sends_terminal:
  assumes "sends b s s'"
  shows "screen_ok t s' = screen_ok t s" "on_screen s' = on_screen s" "terminal_color s' = terminal_color s"
    "terminal_row s' = terminal_row s" "terminal_column s' = terminal_column s"
  using assms by (auto simp: sends_def screen_ok_def on_screen_def top_line_def holds_def blank_def display_start_def)

lemma putchar_ok:
  assumes "line_live dev" "screen_ok t s"
  shows "\<exists>s'. terminal_putchar dev c s = Some s' \<and> screen_ok (text_step (terminal_color s) c t) s' \<and>
    scroll_offset s' = 0 \<and> terminal_color s' = terminal_color s \<and>
    (on_screen s \<longrightarrow> \<not> crosses c s \<longrightarrow> on_screen s')"
proof -
  obtain s1 b where s1: "serial_write_char dev c s = Some s1" "sends b s s1"
    using serial_write_char_sends [OF assms(1)] by blast
  note k = sends_terminal [OF s1(2)]
  have ok: "screen_ok t s1" using assms(2) k(1) by blast
  note b = snap_back_ok [OF ok]
  note d = draw_char_ok [OF b(1,2), of c]
  have "crosses c (snap_back s1) = crosses c s" using b(5,6) k(4,5) by (simp add: crosses_def)
  then show ?thesis using s1(1) d b(3,4) k(2,3) by (simp add: terminal_putchar_eq update_cursor_keeps)
qed

lemma terminal_write_ok:
  assumes "line_live dev" "screen_ok t s" "0 \<notin> set str"
  shows "\<exists>s'. terminal_write dev str s = Some s' \<and> screen_ok (fold (text_step (terminal_color s)) str t) s' \<and>
    terminal_color s' = terminal_color s \<and> (scroll_offset s = 0 \<longrightarrow> scroll_offset s' = 0) \<and>
    (CHAR_BACKSPACE \<notin> set str \<longrightarrow> on_screen s \<longrightarrow> on_screen s')"
  using assms(2,3)
proof (induction str arbitrary: s t)
  case (Cons c str)
  obtain s1 where s1: "terminal_putchar dev c s = Some s1" "screen_ok (text_step (terminal_color s) c t) s1"
      "terminal_color s1 = terminal_color s" "scroll_offset s1 = 0" "on_screen s \<longrightarrow> \<not> crosses c s \<longrightarrow> on_screen s1"
    using putchar_ok [OF assms(1) Cons.prems(1), of c] by blast
  from Cons.IH [OF s1(2)] show ?case using Cons.prems(2) s1 by (auto simp: crosses_def)
qed simp

lemma initialize_ok:
  assumes "length (scroll_buffer s) = 16000" "length (vga_memory s) = 2000"
  shows "screen_ok [] (terminal_initialize s)" "on_screen (terminal_initialize s)"
proof -
  let ?b = "vga_entry CHAR_SPACE (vga_entry_color VGA_COLOR_WHITE VGA_COLOR_BLACK)"
  have f: "fold (\<lambda>i b. b[i := ?b]) [0..<16000] (scroll_buffer s) = replicate 16000 ?b"
    "fold (\<lambda>i b. b[i := ?b]) [0..<2000] (vga_memory s) = replicate 2000 ?b"
    using assms by (simp_all add: copy_cells map_replicate_const)
  have "screen_ok [] (terminal_initialize s) \<and> on_screen (terminal_initialize s)"
    unfolding terminal_initialize_def Let_def update_cursor_keeps
    by (simp add: f screen_ok_def holds_def on_screen_def top_line_def blank_def display_start_def)
  then show "screen_ok [] (terminal_initialize s)" "on_screen (terminal_initialize s)" by blast+
qed

text \<open>Scrolling back and forth moves the first line shown.\<close>

lemma scrolled:
  assumes "screen_ok t s" "unat f \<le> unat (display_start s)"
  shows "screen_ok t (terminal_refresh_display (s\<lparr>scroll_offset := f\<rparr>))"
    "on_screen (terminal_refresh_display (s\<lparr>scroll_offset := f\<rparr>))"
proof -
  have h: "holds t (s\<lparr>scroll_offset := f\<rparr>)" using assms(1) by (simp add: screen_ok_def holds_def blank_def)
  show o: "on_screen (terminal_refresh_display (s\<lparr>scroll_offset := f\<rparr>))"
    using assms by (intro refresh_on_screen [OF h]) (simp_all add: screen_ok_def)
  show "screen_ok t (terminal_refresh_display (s\<lparr>scroll_offset := f\<rparr>))"
    using screen_length [OF o, of t] h assms(2) by (simp add: screen_ok_def refresh_holds)
qed

lemma scroll_up_eq:
  "terminal_scroll_up n s = terminal_refresh_display (s\<lparr>scroll_offset :=
     (if display_start s < scroll_offset s + n then display_start s else scroll_offset s + n)\<rparr>)"
  by (simp add: terminal_scroll_up_def Let_def display_start_def)

lemma scroll_down_eq:
  "terminal_scroll_down n s = terminal_refresh_display (s\<lparr>scroll_offset :=
     (if n \<le> scroll_offset s then scroll_offset s - n else 0)\<rparr>)"
  by (simp add: terminal_scroll_down_def Let_def)

lemma scroll_up_ok:
  assumes "screen_ok t s"
  shows "screen_ok t (terminal_scroll_up n s)" "on_screen (terminal_scroll_up n s)"
  unfolding scroll_up_eq using assms by (auto intro!: scrolled simp: word_less_unat)

lemma scroll_down_ok:
  assumes "screen_ok t s"
  shows "screen_ok t (terminal_scroll_down n s)" "on_screen (terminal_scroll_down n s)"
proof -
  have "unat (if n \<le> scroll_offset s then scroll_offset s - n else 0) \<le> unat (display_start s)"
    using assms by (auto simp: screen_ok_def unat_sub_exact)
  from scrolled [OF assms this]
  show "screen_ok t (terminal_scroll_down n s)" "on_screen (terminal_scroll_down n s)"
    unfolding scroll_down_eq by blast+
qed

section \<open>The banner\<close>

text \<open>Writing into the first ten lines while the cursor is at the start.\<close>

definition banner_ok :: "'a terminal_scheme \<Rightarrow> bool" where
  "banner_ok s \<longleftrightarrow> terminal_row s = 0 \<and> scroll_offset s = 0 \<and> length (vga_memory s) = 2000 \<and>
     length (scroll_buffer s) = 16000 \<and> drop 800 (scroll_buffer s) = replicate 15200 (blank s) \<and> on_screen s"

lemma banner_putchar:
  assumes s: "banner_ok s" and y: "unat y < 10" and x: "unat x < 80"
  shows "banner_ok (terminal_putchar_at c color x y s)"
proof -
  have z: "terminal_row s = 0" "scroll_offset s = 0" using s by (simp_all add: banner_ok_def)
  have d: "display_start s = 0" using z by (simp add: display_start_def)
  have k: "cell y x < 800" using x y by (simp add: cell_eq)
  have "y < VGA_HEIGHT" using y by (simp add: word_less_unat)
  then have v: "vga_memory (terminal_putchar_at c color x y s) = (vga_memory s)[cell y x := vga_entry c color]"
    using z d by (simp add: terminal_putchar_at_def Let_def)
  have w: "vga_memory s = take 2000 (scroll_buffer s)" using s by (simp add: banner_ok_def on_screen_def top_line_def d)
  have "on_screen (terminal_putchar_at c color x y s)"
    unfolding on_screen_def top_line_def v putchar_at_fields d using z k by (simp add: w take_update_swap)
  then show ?thesis using s k by (simp add: banner_ok_def blank_def drop_update_cancel)
qed

lemma banner_line:
  assumes "banner_ok s" "unat row < 10" "unat (col + i) + length str \<le> 80"
  shows "banner_ok (writestr_centered_from str i col row s)"
  using assms
proof (induction str arbitrary: i s)
  case (Cons c str)
  have i: "unat (col + (i + 1)) = Suc (unat (col + i))"
    using Cons.prems(3) unat_add_exact [of "col + i" 1] by (simp add: add.assoc)
  have "banner_ok (terminal_putchar_at c (header_colors ! unat ((i + row) mod 4)) (col + i) row s)"
    using Cons.prems by (intro banner_putchar) simp_all
  then show ?case using Cons.IH [of _ "i + 1"] Cons.prems(1,2,3) i by simp
qed simp

lemma strlen_cstr: "0 \<notin> set str \<Longrightarrow> length str < 4294967296 \<Longrightarrow> unat (strlen str) = length str"
proof (induction str)
  case (Cons c str)
  then have "unat (strlen str) = length str" by simp
  then show ?case using Cons.prems by (simp add: unat_add_exact)
qed simp

lemma banner_centered:
  assumes "banner_ok s" "unat row < 10" "0 \<notin> set str" "length str \<le> 80"
  shows "banner_ok (terminal_writestr_centered str row s)"
proof -
  have l: "unat (strlen str) = length str" using assms by (intro strlen_cstr) simp_all
  then have "unat (VGA_WIDTH - strlen str) = 80 - length str"
    using assms(4) by (subst unat_sub_exact) (simp_all add: word_le_unat)
  then have "unat ((VGA_WIDTH - strlen str) div 2) = (80 - length str) div 2" by (simp add: unat_div)
  then show ?thesis
    unfolding terminal_writestr_centered_def Let_def using assms by (intro banner_line) simp_all
qed

lemma header_lines: "i < length HEADER \<Longrightarrow> 0 \<notin> set (HEADER ! i) \<and> length (HEADER ! i) \<le> 80"
proof -
  have "\<forall>str \<in> set HEADER. 0 \<notin> set str \<and> length str \<le> 80" by (simp add: HEADER_def cstr_def)
  then show "i < length HEADER \<Longrightarrow> 0 \<notin> set (HEADER ! i) \<and> length (HEADER ! i) \<le> 80" by simp
qed

lemma print_header_ok:
  assumes "banner_ok s"
  shows "\<exists>t. screen_ok t (print_header s)" "on_screen (print_header s)"
proof -
  let ?f = "\<lambda>i. terminal_writestr_centered (HEADER ! i) (word_of_nat i)"
  have "banner_ok (fold ?f [0..<n] s)" if "n \<le> length HEADER" for n
    using that
  proof (induction n)
    case (Suc n)
    have "n < 10" using Suc.prems by (simp add: HEADER_def)
    then show ?case using Suc header_lines [of n] by (simp add: banner_centered unat_word_of_nat_u32)
  qed (simp add: assms)
  from this [OF order_refl] have b: "banner_ok (fold ?f [0..<length HEADER] s)" (is "banner_ok ?s") .
  let ?t = "take 800 (scroll_buffer ?s)"
  have "scroll_buffer ?s = ?t @ replicate (16000 - 800) (blank ?s)"
    using b append_take_drop_id [of 800 "scroll_buffer ?s"] by (simp add: banner_ok_def)
  then have h: "holds ?t (print_header s)"
    using b by (simp add: print_header_def Let_def holds_def banner_ok_def blank_def)
  have "screen_ok ?t (print_header s)" using h b
    by (simp add: screen_ok_def print_header_def Let_def banner_ok_def)
  then show "\<exists>t. screen_ok t (print_header s)" by blast
  show "on_screen (print_header s)" using b
    by (simp add: print_header_def Let_def banner_ok_def on_screen_def top_line_def display_start_def)
qed

section \<open>Properties\<close>

text \<open>
  C23. The terminal is a text: after \<open>terminal_initialize\<close> and any string the buffer holds exactly
  the text the characters build one after the other (a newline fills the line, a backspace takes
  back the last cell, a full buffer loses its first line), blanks follow it and the cursor stands at
  its end; writing always returns as long as the serial line gets ready.
\<close>

theorem terminal_refines_text:
  assumes "length (scroll_buffer s) = 16000" "length (vga_memory s) = 2000"
    and "line_live dev" "0 \<notin> set str"
  shows "\<exists>s' t. terminal_write dev str (terminal_initialize s) = Some s' \<and>
    t = fold (text_step 0x0F) str [] \<and> length t < 16000 \<and>
    scroll_buffer s' = t @ replicate (16000 - length t) (vga_entry CHAR_SPACE 0x0F) \<and>
    unat (terminal_row s') = length t div 80 \<and> unat (terminal_column s') = length t mod 80"
proof -
  have c: "terminal_color (terminal_initialize s) = 0x0F"
    by (simp add: terminal_initialize_def Let_def vga_entry_color_def)
  obtain s' where "terminal_write dev str (terminal_initialize s) = Some s'"
      "screen_ok (fold (text_step 0x0F) str []) s'" "terminal_color s' = 0x0F"
    using terminal_write_ok [OF assms(3) initialize_ok(1) [OF assms(1,2)] assms(4)] c by auto
  then show ?thesis by (auto simp: screen_ok_def holds_def blank_def)
qed

text \<open>A terminal before \<open>terminal_initialize\<close>, and a serial line that is always ready.\<close>

definition blank_terminal :: terminal where
  "blank_terminal = \<lparr>eflags = 0, port_out = [], port_reads = 0, serial_enabled = False,
     scroll_buffer = replicate 16000 0, terminal_row = 0, terminal_column = 0, terminal_color = 0,
     scroll_offset = 0, vga_memory = replicate 2000 0\<rparr>"

definition ready_line :: device where
  "ready_line out n port = 0x20"

lemma ready_line_live: "line_live ready_line"
  by (auto simp: line_live_def ready_line_def)

lemma blank_terminal_sizes: "length (scroll_buffer blank_terminal) = 16000" "length (vga_memory blank_terminal) = 2000"
  by (simp_all add: blank_terminal_def)

theorem terminal_refines_text_witness:
  "\<exists>s'. terminal_write ready_line [0x41, 0x42, CHAR_BACKSPACE, CHAR_NEWLINE, 0x43] (terminal_initialize blank_terminal) = Some s' \<and>
     terminal_row s' = 1 \<and> terminal_column s' = 1 \<and>
     scroll_buffer s' ! 0 = 0x0F41 \<and> scroll_buffer s' ! 80 = 0x0F43"
  using terminal_refines_text [OF blank_terminal_sizes ready_line_live, of "[0x41, 0x42, CHAR_BACKSPACE, CHAR_NEWLINE, 0x43]"]
  by (auto simp: text_step_def trim_def vga_entry_def word_eq_unat nth_append)

text \<open>The states of the terminal in which no backspace has stepped to a line above with the screen scrolled.\<close>

inductive term_run :: "device \<Rightarrow> 'a terminal_scheme \<Rightarrow> bool" for dev where
  run_init: "length (scroll_buffer s) = 16000 \<Longrightarrow> length (vga_memory s) = 2000 \<Longrightarrow> term_run dev (terminal_initialize s)"
| run_header: "length (scroll_buffer s) = 16000 \<Longrightarrow> length (vga_memory s) = 2000 \<Longrightarrow>
    term_run dev (print_header (terminal_initialize s))"
| run_put: "term_run dev s \<Longrightarrow> \<not> (c = CHAR_BACKSPACE \<and> terminal_column s = 0 \<and> VGA_HEIGHT \<le> terminal_row s) \<Longrightarrow>
    terminal_putchar dev c s = Some s' \<Longrightarrow> term_run dev s'"
| run_up: "term_run dev s \<Longrightarrow> term_run dev (terminal_scroll_up n s)"
| run_down: "term_run dev s \<Longrightarrow> term_run dev (terminal_scroll_down n s)"

lemma initialize_banner:
  assumes "length (scroll_buffer s) = 16000" "length (vga_memory s) = 2000"
  shows "banner_ok (terminal_initialize s)"
proof -
  note i = initialize_ok [OF assms]
  have "terminal_row (terminal_initialize s) = 0" "scroll_offset (terminal_initialize s) = 0"
    by (simp_all add: terminal_initialize_def Let_def)
  then show ?thesis using i by (simp add: banner_ok_def screen_ok_def holds_def)
qed

lemma term_run_ok:
  assumes "term_run dev s" "line_live dev"
  shows "(\<exists>t. screen_ok t s) \<and> on_screen s"
  using assms(1)
proof induction
  case (run_put s c s')
  then obtain t where t: "screen_ok t s" "on_screen s" by blast
  then show ?case using putchar_ok [OF assms(2) t(1), of c] run_put.hyps(2,3) by (auto simp: crosses_def)
next
  case (run_init s)
  then show ?case using initialize_ok by blast
next
  case (run_header s)
  then show ?case using print_header_ok [OF initialize_banner] by blast
next
  case (run_up s n)
  then show ?case using scroll_up_ok by blast
next
  case (run_down s n)
  then show ?case using scroll_down_ok by blast
qed

text \<open>
  C24. The screen shows the buffer: in every state reached from \<open>terminal_initialize\<close>, with or
  without the banner, by writing characters and scrolling, as long as no backspace steps to the
  line above while the first line on the screen is not the first of the buffer, VGA memory equals
  the 25 lines of the buffer from the one the display starts at, less the lines scrolled back. The
  cursor and every index stay within the buffer.
\<close>

theorem terminal_screen_shows_buffer:
  assumes "line_live dev" "term_run dev s"
  shows "vga_memory s = take 2000 (drop (80 * (unat (display_start s) - unat (scroll_offset s))) (scroll_buffer s)) \<and>
    unat (scroll_offset s) \<le> unat (display_start s) \<and>
    length (scroll_buffer s) = 16000 \<and> unat (terminal_row s) < 200 \<and> unat (terminal_column s) < 80"
proof -
  obtain t where t: "screen_ok t s" "on_screen s" using term_run_ok [OF assms(2,1)] by blast
  then have "holds t s" by (simp add: screen_ok_def)
  note d = holdsD [OF this]
  show ?thesis using t(2) d(1,3,4) by (simp add: on_screen_def top_line_def)
qed

theorem terminal_screen_shows_buffer_witness:
  "vga_memory (print_header (terminal_initialize blank_terminal)) =
     take 2000 (scroll_buffer (print_header (terminal_initialize blank_terminal)))"
proof -
  have r: "term_run ready_line (print_header (terminal_initialize blank_terminal))"
    by (rule run_header) (simp_all add: blank_terminal_sizes)
  have "terminal_row (print_header (terminal_initialize blank_terminal)) = 10" by (simp add: print_header_def Let_def)
  then have "display_start (print_header (terminal_initialize blank_terminal)) = 0" by (simp add: display_start_def)
  then show ?thesis using terminal_screen_shows_buffer [OF ready_line_live r] by simp
qed

text \<open>
  A backspace at the start of a line, with the cursor below line 24, tears the screen: the
  cursor moves to the line above and the display starts one line earlier, but the lines in VGA
  memory are not moved, so the screen no longer shows the buffer (unless the line that should come
  into view equals the one below it).
\<close>

lemma terminal_backspace_tears_screen:
  assumes dev: "line_live dev" and s: "screen_ok t s" "on_screen s" "scroll_offset s = 0"
    and at: "terminal_column s = 0" "VGA_HEIGHT \<le> terminal_row s"
    and diff: "take 80 (drop (80 * (unat (display_start s) - 1)) (scroll_buffer s)) \<noteq>
      take 80 (drop (80 * unat (display_start s)) (scroll_buffer s))"
  shows "\<exists>s'. terminal_putchar dev CHAR_BACKSPACE s = Some s' \<and>
    unat (display_start s') = unat (display_start s) - 1 \<and>
    vga_memory s' \<noteq> take 2000 (drop (80 * unat (display_start s')) (scroll_buffer s'))"
proof -
  obtain s1 b where s1: "serial_write_char dev CHAR_BACKSPACE s = Some s1" "sends b s s1"
    using serial_write_char_sends [OF dev] by blast
  have s1': "\<exists>p n. s1 = s\<lparr>port_out := p, port_reads := n\<rparr>" using s1(2) by (auto simp: sends_def)
  have h: "holds t s" using s(1) by (simp add: screen_ok_def)
  note d = holdsD [OF h]
  let ?x = "terminal_putchar_at CHAR_SPACE (terminal_color s) 79 (terminal_row s - 1)
    (s1\<lparr>terminal_row := terminal_row s - 1, terminal_column := 79\<rparr>)"
  have pos: "0 < terminal_row s" "25 \<le> unat (terminal_row s)" using at(2) by (simp_all add: word_less_unat word_le_unat)
  have e: "terminal_putchar dev CHAR_BACKSPACE s = Some (update_cursor ?x)"
    using s1(1) s1' s(3) at(1) pos(1) by (auto simp: terminal_putchar_def Let_def)
  have r: "unat (terminal_row s - 1) = unat (terminal_row s) - 1" using pos by (simp add: unat_dec word_gt_0)
  have ds: "unat (display_start ?x) = unat (terminal_row s) - 25" "unat (display_start s) = unat (terminal_row s) - 24"
    using d(3) r pos by (simp_all add: unat_display_start)
  have c: "cell (terminal_row s - 1) 79 = 80 * (unat (terminal_row s) - 1) + 79"
    using r d(3) by (simp add: cell_eq)
  have v: "take 80 (vga_memory ?x) = take 80 (vga_memory s)"
  proof -
    have "80 \<le> cell (terminal_row s - 1 - display_start (s1\<lparr>terminal_row := terminal_row s - 1, terminal_column := 79\<rparr>)) 79"
    proof -
      let ?d = "display_start (s1\<lparr>terminal_row := terminal_row s - 1, terminal_column := 79\<rparr>)"
      have "unat ?d = unat (terminal_row s) - 25" using d(3) r pos by (simp add: unat_display_start)
      then have "unat (terminal_row s - 1 - ?d) = 24"
        using r pos by (subst unat_sub_exact) (simp_all add: word_le_unat)
      then show ?thesis by (simp add: cell_eq)
    qed
    then show ?thesis using s1' by (auto simp: terminal_putchar_at_def Let_def take_update_cancel)
  qed
  have "take 80 (drop (80 * (unat (terminal_row s) - 25)) (scroll_buffer ?x)) =
      take 80 (drop (80 * (unat (terminal_row s) - 25)) (scroll_buffer s))"
    using s1' pos by (auto simp: c drop_update_swap take_update_cancel)
  moreover have "take 80 (vga_memory s) = take 80 (drop (80 * (unat (terminal_row s) - 24)) (scroll_buffer s))"
    using s(2,3) ds(2) by (simp add: on_screen_def top_line_def min_def)
  moreover have "take 80 (drop (80 * (unat (terminal_row s) - 25)) (scroll_buffer s)) \<noteq>
      take 80 (drop (80 * (unat (terminal_row s) - 24)) (scroll_buffer s))"
    using diff ds(2) by simp
  ultimately have "take 80 (vga_memory ?x) \<noteq> take 80 (drop (80 * (unat (terminal_row s) - 25)) (scroll_buffer ?x))"
    using v by simp
  then have x: "vga_memory ?x \<noteq> take 2000 (drop (80 * (unat (terminal_row s) - 25)) (scroll_buffer ?x))"
    using take_take [of 80 2000 "drop (80 * (unat (terminal_row s) - 25)) (scroll_buffer ?x)"] by auto
  show ?thesis
  proof (intro exI conjI)
    show "terminal_putchar dev CHAR_BACKSPACE s = Some (update_cursor ?x)" by (rule e)
    show "unat (display_start (update_cursor ?x)) = unat (display_start s) - 1"
      unfolding update_cursor_fields ds using pos by simp
    show "vga_memory (update_cursor ?x) \<noteq>
        take 2000 (drop (80 * unat (display_start (update_cursor ?x))) (scroll_buffer (update_cursor ?x)))"
      unfolding update_cursor_fields ds(1) by (rule x)
  qed
qed

lemma text_newlines:
  "length t mod 80 = 0 \<Longrightarrow> length t + 80 * n < 16000 \<Longrightarrow>
   fold (text_step color) (replicate n CHAR_NEWLINE) t = t @ replicate (80 * n) (vga_entry CHAR_SPACE color)"
proof (induction n arbitrary: t)
  case (Suc n)
  have "text_step color CHAR_NEWLINE t = t @ replicate 80 (vga_entry CHAR_SPACE color)"
    using Suc.prems by (simp add: text_step_def trim_room)
  then show ?case using Suc.IH [of "t @ replicate 80 (vga_entry CHAR_SPACE color)"] Suc.prems
    by (simp flip: replicate_add)
qed simp

end
