(* ===== verification/Gdt.thy ===== *)
theory Gdt
  imports Machine
begin

unbundle bit_operations_syntax

text \<open>
  Segmentation, \<open>kernel/src/gdt.c\<close>: building the seven descriptors, copying them to 0x800 and
  loading the registers; and the descriptors as the processor reads them back from memory.
\<close>

section \<open>Entries and registers (\<open>gdt.h\<close>)\<close>

record gdt_entry =
  limit_low :: u16
  base_low :: u16
  base_middle :: u8
  access :: u8
  granularity :: u8
  base_high :: u8

record gdt_ptr =
  gdt_limit :: u16
  gdt_base :: u32

record segments =
  seg_cs :: u16
  seg_ds :: u16
  seg_es :: u16
  seg_fs :: u16
  seg_gs :: u16
  seg_ss :: u16

record gdtsys =
  gdt_mem :: memory
  gdt_entries :: "gdt_entry list"
  gdt_descriptor :: gdt_ptr
  gdtr :: gdt_ptr
  segs :: segments

abbreviation (input) GDT_BASE_ADDRESS :: u32 where "GDT_BASE_ADDRESS \<equiv> 0x800"
abbreviation (input) GDT_ENTRY_COUNT :: nat where "GDT_ENTRY_COUNT \<equiv> 7"

section \<open>Operations\<close>

text \<open>The packed structure as bytes.\<close>

definition gdt_bytes :: "gdt_entry \<Rightarrow> u8 list" where
  "gdt_bytes e = [ucast (limit_low e), ucast (drop_bit 8 (limit_low e)), ucast (base_low e),
     ucast (drop_bit 8 (base_low e)), base_middle e, access e, granularity e, base_high e]"

text \<open>\<open>rep movsb\<close>.\<close>

fun movsb :: "u32 \<Rightarrow> u8 list \<Rightarrow> memory \<Rightarrow> memory" where
  "movsb dst [] m = m"
| "movsb dst (b # src) m = movsb (dst + 1) src (store8 dst b m)"

definition gdt_copy_to_low_memory :: "gdtsys \<Rightarrow> gdtsys" where
  "gdt_copy_to_low_memory s =
     s\<lparr>gdt_mem := movsb GDT_BASE_ADDRESS (concat (map gdt_bytes (gdt_entries s))) (gdt_mem s)\<rparr>"

definition gdt_set_gate :: "nat \<Rightarrow> u32 \<Rightarrow> u32 \<Rightarrow> u8 \<Rightarrow> u8 \<Rightarrow> gdtsys \<Rightarrow> gdtsys" where
  "gdt_set_gate num base limit acc gran s =
     s\<lparr>gdt_entries := (gdt_entries s)[num :=
        \<lparr>limit_low = ucast (limit AND 0xFFFF), base_low = ucast (base AND 0xFFFF),
         base_middle = ucast (drop_bit 16 base AND 0xFF), access = acc,
         granularity = ucast (drop_bit 16 limit AND 0x0F) OR (gran AND 0xF0),
         base_high = ucast (drop_bit 24 base AND 0xFF)\<rparr>]\<rparr>"

definition init_gdt :: "gdtsys \<Rightarrow> gdtsys" where
  "init_gdt s =
     (let s = s\<lparr>gdt_descriptor := \<lparr>gdt_limit = 8 * 7 - 1, gdt_base = GDT_BASE_ADDRESS\<rparr>\<rparr>;
          s = gdt_set_gate 0 0 0 0 0 s;
          s = gdt_set_gate 1 0 0xFFFFFFFF 0x9A 0xCF s;
          s = gdt_set_gate 2 0 0xFFFFFFFF 0x92 0xCF s;
          s = gdt_set_gate 3 0 0xFFFFFFFF 0x92 0xCF s;
          s = gdt_set_gate 4 0 0xFFFFFFFF 0xFA 0xCF s;
          s = gdt_set_gate 5 0 0xFFFFFFFF 0xF2 0xCF s;
          s = gdt_set_gate 6 0 0xFFFFFFFF 0xF2 0xCF s;
          s = gdt_copy_to_low_memory s;
          s = s\<lparr>gdtr := gdt_descriptor s\<rparr>
      in s\<lparr>segs := \<lparr>seg_cs = 0x08, seg_ds = 0x10, seg_es = 0x10, seg_fs = 0x10, seg_gs = 0x10, seg_ss = 0x18\<rparr>\<rparr>)"

section \<open>Descriptors in memory\<close>

text \<open>
  How the processor reads the eight bytes at \<open>a\<close>: the base, the limit in bytes (counted in pages
  when the granularity bit is set), and the access byte.
\<close>

definition descriptor_base :: "memory \<Rightarrow> u32 \<Rightarrow> u32" where
  "descriptor_base m a = ucast (m (a + 2)) OR push_bit 8 (ucast (m (a + 3))) OR
     push_bit 16 (ucast (m (a + 4))) OR push_bit 24 (ucast (m (a + 7)))"

definition descriptor_limit :: "memory \<Rightarrow> u32 \<Rightarrow> u32" where
  "descriptor_limit m a =
     (let raw = ucast (m a) OR push_bit 8 (ucast (m (a + 1))) OR push_bit 16 (ucast (m (a + 6) AND 0x0F))
      in if m (a + 6) AND 0x80 \<noteq> 0 then push_bit 12 raw OR 0xFFF else raw)"

definition descriptor_access :: "memory \<Rightarrow> u32 \<Rightarrow> u8" where
  "descriptor_access m a = m (a + 5)"

lemma movsb_byte:
  "length src < 4294967296 \<Longrightarrow>
   movsb dst src m x = (if unat (x - dst) < length src then src ! unat (x - dst) else m x)"
proof (induction src arbitrary: dst m)
  case (Cons b src)
  show ?case
  proof (cases "x = dst")
    case True
    have "\<not> unat (x - (dst + 1)) < length src"
      using Cons.prems True by (simp add: unsigned_minus_1_eq_mask mask_eq_exp_minus_1)
    then show ?thesis using Cons True by simp
  next
    case False
    then have "x - dst \<noteq> 0" by simp
    then have "unat (x - dst) = Suc (unat (x - (dst + 1)))"
      using unat_dec [of "x - dst"] by (simp add: algebra_simps unat_gt_0)
    then show ?thesis using Cons False by (simp add: store8_other)
  qed
qed simp

lemma gdt_bytes_length: "length (gdt_bytes e) = 8"
  by (simp add: gdt_bytes_def)

lemma concat_gdt_bytes: "i < length es \<Longrightarrow> j < 8 \<Longrightarrow> concat (map gdt_bytes es) ! (8 * i + j) = gdt_bytes (es ! i) ! j"
proof (induction es arbitrary: i)
  case (Cons e es)
  then show ?case by (cases i) (simp_all add: nth_append gdt_bytes_length)
qed simp

lemma length_concat_gdt: "length (concat (map gdt_bytes es)) = 8 * length es"
  by (induction es) (simp_all add: gdt_bytes_length)

text \<open>Byte \<open>j\<close> of descriptor \<open>i\<close>, once copied.\<close>

lemma low_memory_byte:
  assumes "length (gdt_entries s) = 7" "i < 7" "j < 8"
  shows "gdt_mem (gdt_copy_to_low_memory s) (GDT_BASE_ADDRESS + 8 * word_of_nat i + word_of_nat j) =
    gdt_bytes (gdt_entries s ! i) ! j"
proof -
  have "GDT_BASE_ADDRESS + 8 * word_of_nat i + word_of_nat j - GDT_BASE_ADDRESS = (word_of_nat (8 * i + j) :: u32)"
    by simp
  moreover have "unat (word_of_nat (8 * i + j) :: u32) = 8 * i + j" by (rule unat_word_of_nat_u32) (use assms in simp)
  ultimately show ?thesis using assms concat_gdt_bytes [of i "gdt_entries s" j]
    by (simp add: gdt_copy_to_low_memory_def movsb_byte length_concat_gdt)
qed

definition flat :: "u8 \<Rightarrow> gdt_entry" where
  "flat acc = \<lparr>limit_low = 0xFFFF, base_low = 0, base_middle = 0, access = acc, granularity = 0xCF, base_high = 0\<rparr>"

definition null_segment :: gdt_entry where
  "null_segment = \<lparr>limit_low = 0, base_low = 0, base_middle = 0, access = 0, granularity = 0, base_high = 0\<rparr>"

definition the_gdt :: "gdt_entry list" where
  "the_gdt = [null_segment, flat 0x9A, flat 0x92, flat 0x92, flat 0xFA, flat 0xF2, flat 0xF2]"

lemma update_seven:
  "[a, b, c, d, e, f, g][0 := x] = [x, b, c, d, e, f, g]" "[a, b, c, d, e, f, g][Suc 0 := x] = [a, x, c, d, e, f, g]"
  "[a, b, c, d, e, f, g][2 := x] = [a, b, x, d, e, f, g]" "[a, b, c, d, e, f, g][3 := x] = [a, b, c, x, e, f, g]"
  "[a, b, c, d, e, f, g][4 := x] = [a, b, c, d, x, f, g]" "[a, b, c, d, e, f, g][5 := x] = [a, b, c, d, e, x, g]"
  "[a, b, c, d, e, f, g][6 := x] = [a, b, c, d, e, f, x]"
  by (simp_all add: numeral_eq_Suc)

lemma gates:
  "gdt_set_gate n 0 0xFFFFFFFF acc 0xCF s = s\<lparr>gdt_entries := (gdt_entries s)[n := flat acc]\<rparr>"
  "gdt_set_gate n 0 0 0 0 s = s\<lparr>gdt_entries := (gdt_entries s)[n := null_segment]\<rparr>"
  by (simp_all add: gdt_set_gate_def flat_def null_segment_def)

lemma init_gdt_entries:
  assumes "length (gdt_entries s) = 7"
  shows "\<exists>s1. gdt_entries s1 = the_gdt \<and> gdt_mem (init_gdt s) = gdt_mem (gdt_copy_to_low_memory s1)"
proof -
  obtain a b c d e f g where s: "gdt_entries s = [a, b, c, d, e, f, g]"
    using assms by (auto simp: numeral_eq_Suc length_Suc_conv)
  let ?s = "s\<lparr>gdt_descriptor := \<lparr>gdt_limit = 8 * 7 - 1, gdt_base = GDT_BASE_ADDRESS\<rparr>, gdt_entries := the_gdt\<rparr>"
  have "gdt_mem (init_gdt s) = gdt_mem (gdt_copy_to_low_memory ?s)"
    unfolding init_gdt_def Let_def gates
    by (simp add: s update_seven the_gdt_def gdt_copy_to_low_memory_def del: list_update.simps list_update_code)
  then show ?thesis by (intro exI [of _ ?s]) simp
qed

text \<open>
  C28. \<open>init_gdt\<close> leaves a flat memory model: the processor is pointed at 0x800, where it finds a null
  descriptor and six segments from 0 over all 4 GiB (kernel code, kernel data twice, user code,
  user data twice, by their access bytes), and the segment registers select kernel code, data and
  stack.
\<close>

theorem init_gdt_correct:
  assumes "length (gdt_entries s) = 7"
  shows "gdtr (init_gdt s) = \<lparr>gdt_limit = 55, gdt_base = 0x800\<rparr> \<and>
    (\<forall>i < 7. let a = gdt_base (gdtr (init_gdt s)) + 8 * word_of_nat i; m = gdt_mem (init_gdt s) in
       descriptor_base m a = 0 \<and> descriptor_limit m a = (if i = 0 then 0 else 0xFFFFFFFF) \<and>
       descriptor_access m a = [0, 0x9A, 0x92, 0x92, 0xFA, 0xF2, 0xF2] ! i) \<and>
    segs (init_gdt s) = \<lparr>seg_cs = 8 * 1, seg_ds = 8 * 2, seg_es = 8 * 2, seg_fs = 8 * 2, seg_gs = 8 * 2, seg_ss = 8 * 3\<rparr>"
proof -
  obtain s1 where s1: "gdt_entries s1 = the_gdt" "gdt_mem (init_gdt s) = gdt_mem (gdt_copy_to_low_memory s1)"
    using init_gdt_entries [OF assms] by blast
  have r: "gdtr (init_gdt s) = \<lparr>gdt_limit = 55, gdt_base = 0x800\<rparr>"
    by (simp add: init_gdt_def Let_def gates gdt_copy_to_low_memory_def)
  have "descriptor_base (gdt_mem (init_gdt s)) (0x800 + 8 * word_of_nat i) = 0 \<and>
      descriptor_limit (gdt_mem (init_gdt s)) (0x800 + 8 * word_of_nat i) = (if i = 0 then 0 else 0xFFFFFFFF) \<and>
      descriptor_access (gdt_mem (init_gdt s)) (0x800 + 8 * word_of_nat i) = [0, 0x9A, 0x92, 0x92, 0xFA, 0xF2, 0xF2] ! i"
    if "i < 7" for i
  proof -
    have l: "length (gdt_entries s1) = 7" by (simp add: s1 the_gdt_def)
    note b = low_memory_byte [OF l that, unfolded s1]
    have "i \<in> {0, 1, 2, 3, 4, 5, 6}" using that by auto
    then show ?thesis
      using b [of 0] b [of 1] b [of 2] b [of 3] b [of 4] b [of 5] b [of 6] b [of 7]
      unfolding s1(2) descriptor_base_def descriptor_limit_def descriptor_access_def Let_def
      by (elim insertE emptyE) (simp_all add: the_gdt_def gdt_bytes_def flat_def null_segment_def)
  qed
  moreover have "segs (init_gdt s) = \<lparr>seg_cs = 8 * 1, seg_ds = 8 * 2, seg_es = 8 * 2, seg_fs = 8 * 2, seg_gs = 8 * 2, seg_ss = 8 * 3\<rparr>"
    by (simp add: init_gdt_def Let_def)
  ultimately show ?thesis using r by (simp add: Let_def)
qed

definition blank_gdt :: gdtsys where
  "blank_gdt = \<lparr>gdt_mem = (\<lambda>_. 0), gdt_entries = replicate 7 null_segment, gdt_descriptor = \<lparr>gdt_limit = 0, gdt_base = 0\<rparr>,
     gdtr = \<lparr>gdt_limit = 0, gdt_base = 0\<rparr>,
     segs = \<lparr>seg_cs = 0, seg_ds = 0, seg_es = 0, seg_fs = 0, seg_gs = 0, seg_ss = 0\<rparr>\<rparr>"

theorem init_gdt_correct_witness:
  "descriptor_access (gdt_mem (init_gdt blank_gdt)) 0x808 = 0x9A \<and> descriptor_limit (gdt_mem (init_gdt blank_gdt)) 0x808 = 0xFFFFFFFF"
proof -
  have "length (gdt_entries blank_gdt) = 7" by (simp add: blank_gdt_def)
  from conjunct1 [OF conjunct2 [OF init_gdt_correct [OF this]]] conjunct1 [OF init_gdt_correct [OF this]]
  show ?thesis by (auto simp: Let_def dest: spec [of _ 1])
qed

end
