(* ===== verification/Format.thy ===== *)
theory Format
  imports Kernel_Prelude
begin

unbundle bit_operations_syntax

text \<open>
  Numbers and strings as text: the hexadecimal and decimal output every file of the kernel carries
  a copy of (\<open>print_hex\<close>, \<open>print_dec\<close>), the size format of \<open>main.c\<close>, and the string functions and
  number parsers of \<open>kernel/src/shell.c\<close>. A C string is the list of its characters; reading past
  the last one finds the terminating zero.
\<close>

section \<open>Output\<close>

definition hex_chars :: string where
  "hex_chars = ''0123456789ABCDEF''"

text \<open>The loop from \<open>str[7]\<close> down to \<open>str[0]\<close>.\<close>

fun hex_from :: "nat \<Rightarrow> u32 \<Rightarrow> string \<Rightarrow> string" where
  "hex_from 0 num str = str"
| "hex_from (Suc i) num str = hex_from i (drop_bit 4 num) (hex_chars ! unat (num AND 0xF) # str)"

definition hex_string :: "u32 \<Rightarrow> string" where
  "hex_string num = hex_from 8 num []"

definition hex_byte :: "u8 \<Rightarrow> string" where
  "hex_byte byte = [hex_chars ! unat (drop_bit 4 byte AND 0xF), hex_chars ! unat (byte AND 0xF)]"

text \<open>\<open>'0' + d\<close>, and the loop \<open>while (num > 0 && i >= 0) buf[i--] = '0' + num % 10\<close>, \<open>i + 1\<close> cells being left.\<close>

definition digit :: "u32 \<Rightarrow> char" where
  "digit d = char_of (48 + unat d)"

fun dec_from :: "nat \<Rightarrow> u32 \<Rightarrow> string \<Rightarrow> string" where
  "dec_from 0 num buf = buf"
| "dec_from (Suc i) num buf =
     (if 0 < num then dec_from i (num div 10) (digit (num mod 10) # buf) else buf)"

definition dec_string :: "u32 \<Rightarrow> string" where
  "dec_string num = (if num = 0 then ''0'' else dec_from 11 num [])"

text \<open>\<open>while (temp > 0) buf[i++] = '0' + temp % 10\<close>: the digits, the last one first.\<close>

lemma unat_div_10: "(n :: u32) \<noteq> 0 \<Longrightarrow> unat (n div 10) < unat n"
proof -
  assume "n \<noteq> 0"
  then have "unat n \<noteq> 0" by (simp add: word_eq_unat)
  then show ?thesis by (simp add: unat_div)
qed

function rev_digits :: "u32 \<Rightarrow> string" where
  "rev_digits num = (if 0 < num then digit (num mod 10) # rev_digits (num div 10) else [])"
  by pat_completeness auto
termination
  by (relation "measure unat") (auto intro: unat_div_10)

declare rev_digits.simps [simp del]

definition memory_size :: "u32 \<Rightarrow> string" where
  "memory_size bytes =
     (if 1024 * 1024 \<le> bytes then
        let mb = bytes div (1024 * 1024);
            kb_remainder = (bytes mod (1024 * 1024)) div 1024
        in (if mb = 0 then ''0'' else rev (rev_digits mb)) @ '' MB'' @
           (if 0 < kb_remainder then '' '' @ rev (rev_digits kb_remainder) @ '' KB'' else [])
      else if 1024 \<le> bytes then rev (rev_digits (bytes div 1024)) @ '' KB''
      else (if bytes = 0 then ''0'' else rev (rev_digits bytes)) @ '' bytes'')"

definition shell_size :: "u32 \<Rightarrow> string" where
  "shell_size bytes =
     (if 1024 * 1024 \<le> bytes then dec_string (bytes div (1024 * 1024)) @ '' MB''
      else if 1024 \<le> bytes then dec_string (bytes div 1024) @ '' KB''
      else dec_string bytes @ '' bytes'')"

section \<open>Strings\<close>

text \<open>\<open>*str\<close>, as the unsigned value of the character.\<close>

fun ch :: "string \<Rightarrow> nat" where
  "ch [] = 0"
| "ch (c # str) = of_char c"

function strcmp :: "string \<Rightarrow> string \<Rightarrow> int" where
  "strcmp s1 s2 = (if ch s1 \<noteq> 0 \<and> ch s1 = ch s2 then strcmp (tl s1) (tl s2) else int (ch s1) - int (ch s2))"
  by pat_completeness auto
termination
  by (relation "measure (\<lambda>(s1, s2). length s1)") (auto simp: neq_Nil_conv intro: diff_less elim: ch.elims)

fun strncmp :: "string \<Rightarrow> string \<Rightarrow> nat \<Rightarrow> int" where
  "strncmp s1 s2 0 = 0"
| "strncmp s1 s2 (Suc n) =
     (if ch s1 \<noteq> 0 \<and> ch s1 = ch s2 then strncmp (tl s1) (tl s2) n else int (ch s1) - int (ch s2))"

declare strcmp.simps [simp del]

fun skip_spaces :: "string \<Rightarrow> string" where
  "skip_spaces [] = []"
| "skip_spaces (c # text) = (if of_char c = (32 :: nat) then skip_spaces text else c # text)"

section \<open>Input\<close>

fun parse_uint_from :: "u32 \<Rightarrow> string \<Rightarrow> u32" where
  "parse_uint_from result [] = result"
| "parse_uint_from result (c # str) =
     (if 48 \<le> (of_char c :: nat) \<and> (of_char c :: nat) \<le> 57
      then parse_uint_from (result * 10 + word_of_nat (of_char c - 48)) str else result)"

definition parse_uint :: "string \<Rightarrow> u32" where
  "parse_uint str = parse_uint_from 0 str"

fun parse_hex_from :: "u32 \<Rightarrow> string \<Rightarrow> u32" where
  "parse_hex_from result [] = result"
| "parse_hex_from result (c # str) =
     (let c = of_char c :: nat in
      if 48 \<le> c \<and> c \<le> 57 then parse_hex_from (push_bit 4 result OR word_of_nat (c - 48)) str
      else if 97 \<le> c \<and> c \<le> 102 then parse_hex_from (push_bit 4 result OR word_of_nat (c - 97 + 10)) str
      else if 65 \<le> c \<and> c \<le> 70 then parse_hex_from (push_bit 4 result OR word_of_nat (c - 65 + 10)) str
      else result)"

definition parse_hex :: "string \<Rightarrow> u32" where
  "parse_hex str =
     parse_hex_from 0 (if ch str = 48 \<and> (ch (tl str) = 120 \<or> ch (tl str) = 88) then drop 2 str else str)"

section \<open>Hexadecimal round trip\<close>

lemma below_16: "(d :: nat) < 16 \<Longrightarrow> d \<in> {0, 1, 2, 3, 4, 5, 6, 7, 8, 9, 10, 11, 12, 13, 14, 15}"
  unfolding insert_iff empty_iff by presburger

lemma hex_chars_nth:
  assumes "d < 16"
  shows "parse_hex_from r (hex_chars ! d # str) = parse_hex_from (push_bit 4 r OR word_of_nat d) str"
  using below_16 [OF assms] by (auto simp: hex_chars_def)

lemma nibble_bound: "unat ((num :: u32) AND 0xF) < 16"
proof -
  have "num AND 0xF = num mod 16" by (simp add: take_bit_eq_mask mask_eq_exp_minus_1 flip: take_bit_eq_mod [of 4, simplified])
  then show ?thesis by (simp add: unat_mod)
qed

lemma nibble_shift:
  "push_bit 4 (push_bit (4 * i) r OR take_bit (4 * i) (drop_bit 4 num)) OR (num AND 0xF) =
     push_bit (4 * Suc i) r OR take_bit (4 * Suc i) (num :: u32)"
proof -
  have m: "(0xF :: u32) = mask 4" by (simp add: mask_eq_exp_minus_1)
  show ?thesis
    by (rule bit_word_eqI) (auto simp: m bit_simps ac_simps)
qed

lemma parse_hex_hex_from:
  "parse_hex_from r (hex_from i num str) = parse_hex_from (push_bit (4 * i) r OR take_bit (4 * i) num) str"
proof (induction i arbitrary: num str)
  case (Suc i)
  then show ?case
    using nibble_shift [of i r num] by (simp add: hex_chars_nth [OF nibble_bound] del: parse_hex_from.simps)
qed simp

lemma parse_hex_string: "parse_hex_from 0 (hex_string num @ rest) = parse_hex_from num rest"
proof -
  have a: "hex_from i n str @ rest = hex_from i n (str @ rest)" for i n str
    by (induction i arbitrary: n str) simp_all
  have t: "take_bit 32 num = num" by (rule bit_word_eqI) (simp add: bit_simps)
  show ?thesis using parse_hex_hex_from [of 0 8 num rest] by (simp add: hex_string_def a t)
qed

lemma length_hex_string: "length (hex_string num) = 8"
proof -
  have "length (hex_from i n str) = i + length str" for i n str
    by (induction i arbitrary: n str) simp_all
  then show ?thesis by (simp add: hex_string_def)
qed

lemma hex_from_chars: "set (hex_from i n str) \<subseteq> set hex_chars \<union> set str"
proof (induction i arbitrary: n str)
  case (Suc i)
  have "hex_chars ! unat (n AND 0xF) \<in> set hex_chars"
    using nibble_bound [of n] by (intro nth_mem) (simp add: hex_chars_def)
  then show ?case using Suc by fastforce
qed simp

lemma hex_second: "ch (tl (hex_string num @ rest)) \<notin> {120, 88}"
proof -
  obtain a b r where h: "hex_string num = a # b # r"
    using length_hex_string [of num] by (auto simp: numeral_eq_Suc length_Suc_conv)
  then have "b \<in> set hex_chars" using hex_from_chars [of 8 num "[]"] by (simp add: hex_string_def)
  then show ?thesis using h by (auto simp: hex_chars_def)
qed

section \<open>Decimal round trip\<close>

lemma of_char_digit: "unat d < 10 \<Longrightarrow> (of_char (digit d) :: nat) = 48 + unat d"
  by (simp add: digit_def)

lemma unat_mod_10: "unat ((n :: u32) mod 10) = unat n mod 10" "unat (n mod 10) < 10"
  by (simp_all add: unat_mod)

lemma parse_uint_digit: "parse_uint_from r (digit (n mod 10) # str) = parse_uint_from (r * 10 + n mod 10) str"
  using unat_mod_10(2) [of n] by (simp add: of_char_digit)

lemma div_mod_10: "(n :: u32) div 10 * 10 + n mod 10 = n"
  by (rule div_mult_mod_eq)

lemma parse_uint_dec_from:
  "unat num < 10 ^ i \<Longrightarrow> parse_uint_from 0 (dec_from i num buf) = parse_uint_from num buf"
proof (induction i arbitrary: num buf)
  case 0
  then have "num = 0" by (simp add: word_eq_unat)
  then show ?case by simp
next
  case (Suc i)
  show ?case
  proof (cases "num = 0")
    case False
    have "unat (num div 10) < 10 ^ i" using Suc.prems by (simp add: unat_div)
    then show ?thesis using False Suc.IH div_mod_10 [of num] by (simp add: parse_uint_digit word_gt_0 del: parse_uint_from.simps)
  qed simp
qed

lemma dec_from_append: "dec_from i n buf @ rest = dec_from i n (buf @ rest)"
  by (induction i arbitrary: n buf) simp_all

lemma parse_dec_string: "parse_uint_from 0 (dec_string num @ rest) = parse_uint_from num rest"
proof (cases "num = 0")
  case False
  have "unat num < 10 ^ 11" using unat_u32_bound [of num] by simp
  then show ?thesis using False parse_uint_dec_from [of num 11 rest] by (simp add: dec_string_def dec_from_append)
qed (simp add: dec_string_def)

text \<open>The buffer filled from its end and the one printed backwards hold the same digits.\<close>

lemma dec_from_rev_digits: "unat num < 10 ^ i \<Longrightarrow> dec_from i num buf = rev (rev_digits num) @ buf"
proof (induction i arbitrary: num buf)
  case 0
  then have "num = 0" by (simp add: word_eq_unat)
  then show ?case by (simp add: rev_digits.simps)
next
  case (Suc i)
  have "unat (num div 10) < 10 ^ i" using Suc.prems by (simp add: unat_div)
  then show ?case using Suc.IH by (simp add: rev_digits.simps [of num])
qed

lemma rev_digits_dec_string: "num \<noteq> 0 \<Longrightarrow> rev (rev_digits num) = dec_string num"
  using dec_from_rev_digits [of num 11 "[]"] unat_u32_bound [of num] by (simp add: dec_string_def)

lemma memory_size_eq:
  "memory_size bytes =
     (if 1024 * 1024 \<le> bytes then dec_string (bytes div (1024 * 1024)) @ '' MB'' @
        (if bytes mod (1024 * 1024) div 1024 = 0 then [] else '' '' @ dec_string (bytes mod (1024 * 1024) div 1024) @ '' KB'')
      else if 1024 \<le> bytes then dec_string (bytes div 1024) @ '' KB'' else dec_string bytes @ '' bytes'')"
proof -
  have "bytes div 1024 \<noteq> 0" if "1024 \<le> bytes" using that by (simp add: word_eq_unat unat_div word_le_unat div_eq_0_iff)
  moreover have "bytes div (1024 * 1024) \<noteq> 0" if "1024 * 1024 \<le> bytes"
    using that by (simp add: word_eq_unat unat_div word_le_unat div_eq_0_iff)
  ultimately show ?thesis
    by (simp add: memory_size_def Let_def rev_digits_dec_string word_gt_0 dec_string_def [of 0])
qed

section \<open>Comparing strings\<close>

lemma ch_nonzero: "CHR 0x00 \<notin> set s \<Longrightarrow> ch s = 0 \<longleftrightarrow> s = []"
proof (cases s)
  case (Cons c r)
  assume "CHR 0x00 \<notin> set s"
  then have "c \<noteq> CHR 0x00" using Cons by auto
  then have "of_char c \<noteq> (of_char (CHR 0x00) :: nat)" by (simp only: of_char_eq_iff not_False_eq_True)
  then show ?thesis using Cons by simp
qed simp

lemma ch_eq: "CHR 0x00 \<notin> set s \<Longrightarrow> CHR 0x00 \<notin> set r \<Longrightarrow> ch s \<noteq> 0 \<Longrightarrow> ch s = ch r \<Longrightarrow>
  \<exists>c s' r'. s = c # s' \<and> r = c # r'"
  by (cases s; cases r) auto

lemma strcmp_eq_0: "CHR 0x00 \<notin> set s1 \<Longrightarrow> CHR 0x00 \<notin> set s2 \<Longrightarrow> strcmp s1 s2 = 0 \<longleftrightarrow> s1 = s2"
proof (induction s1 s2 rule: strcmp.induct)
  case (1 s1 s2)
  show ?case
  proof (cases "ch s1 \<noteq> 0 \<and> ch s1 = ch s2")
    case True
    then obtain c r1 r2 where s: "s1 = c # r1" "s2 = c # r2" using ch_eq [OF 1(2,3)] by blast
    then show ?thesis using 1 True by (subst strcmp.simps) simp
  next
    case False
    then show ?thesis using ch_nonzero [OF 1(2)] ch_nonzero [OF 1(3)]
      by (subst strcmp.simps) auto
  qed
qed

lemma strncmp_eq_0:
  "CHR 0x00 \<notin> set s1 \<Longrightarrow> CHR 0x00 \<notin> set s2 \<Longrightarrow> length s2 = n \<Longrightarrow> strncmp s1 s2 n = 0 \<longleftrightarrow> take n s1 = s2"
proof (induction s1 s2 n rule: strncmp.induct)
  case (2 s1 s2 n)
  show ?case
  proof (cases "ch s1 \<noteq> 0 \<and> ch s1 = ch s2")
    case True
    then obtain c r1 r2 where s: "s1 = c # r1" "s2 = c # r2" using ch_eq [OF 2(2,3)] by blast
    then show ?thesis using 2 True by simp
  next
    case False
    then show ?thesis using ch_nonzero [OF 2(2)] ch_nonzero [OF 2(3)] 2(4)
      by (cases s1; cases s2) auto
  qed
qed simp

section \<open>Properties\<close>

text \<open>
  C25. Numbers survive being printed and read back: \<open>parse_hex\<close> reads what the hexadecimal printers
  wrote, with or without the prefix, always eight digits, and \<open>parse_uint\<close> what the decimal
  printers wrote, whatever follows that is not a digit.
\<close>

theorem number_text_roundtrip:
  fixes num :: u32
  assumes "rest = [] \<or> ch rest = 32"
  shows "parse_hex (''0x'' @ hex_string num @ rest) = num \<and> parse_hex (hex_string num @ rest) = num \<and>
    length (hex_string num) = 8 \<and> parse_uint (dec_string num @ rest) = num"
proof -
  have stop: "parse_hex_from r rest = r" "parse_uint_from r rest = r" for r
    using assms by (cases rest; auto)+
  have x: "ch (tl (hex_string num @ rest)) \<noteq> 120" "ch (tl (hex_string num @ rest)) \<noteq> 88"
    using hex_second [of num rest] by auto
  have "parse_hex (hex_string num @ rest) = num"
    using x by (simp add: parse_hex_def parse_hex_string stop)
  moreover have "parse_hex (''0x'' @ hex_string num @ rest) = num"
    by (simp add: parse_hex_def parse_hex_string stop)
  ultimately show ?thesis by (simp add: length_hex_string parse_uint_def parse_dec_string stop)
qed

theorem number_text_roundtrip_witness:
  "parse_hex (''0x'' @ hex_string 0xC0DE1234 @ '' 12'') = 0xC0DE1234 \<and>
   parse_uint (dec_string 4294967295 @ '' KB'') = 4294967295"
  using number_text_roundtrip [where rest = "'' 12''" and num = "0xC0DE1234"]
    number_text_roundtrip [where rest = "'' KB''" and num = 4294967295]
  by simp

text \<open>
  The string comparisons decide equality and prefixes: \<open>strcmp\<close> is zero exactly on equal
  strings, \<open>strncmp\<close> with the length of its second argument exactly when that is a prefix.
\<close>

lemma string_compare_correct:
  assumes "CHR 0x00 \<notin> set s1" "CHR 0x00 \<notin> set s2"
  shows "(strcmp s1 s2 = 0 \<longleftrightarrow> s1 = s2) \<and> (strncmp s1 s2 (length s2) = 0 \<longleftrightarrow> (\<exists>r. s1 = s2 @ r))"
proof -
  have "take (length s2) s1 = s2 \<longleftrightarrow> (\<exists>r. s1 = s2 @ r)"
    by (metis append_eq_conv_conj append_take_drop_id)
  then show ?thesis using strcmp_eq_0 [OF assms] strncmp_eq_0 [OF assms refl] by simp
qed

end
