(* ===== verification/Vmalloc.thy ===== *)
theory Vmalloc
  imports Kmalloc Paging Format
begin

unbundle bit_operations_syntax

text \<open>
  The virtual allocator, \<open>kernel/src/vmalloc.c\<close>: regions of whole pages above the identity mapping,
  each page backed by a frame of its own, and a list of region descriptors in heap blocks. It is a
  client of the kernel heap, of the frame allocator and of paging. Descriptors lie in the kernel
  heap, whose addresses are mapped to themselves; the pages of a region are reached through the
  memory management unit.
\<close>

section \<open>Region descriptors\<close>

record vm_region =
  rvirt_addr :: u32
  rsize :: u32
  rmapped_size :: u32
  rnum_pages :: u32
  rnext :: u32
  rmagic :: u32

abbreviation (input) VM_MAGIC :: u32 where "VM_MAGIC \<equiv> 0xCAFEBABE"
abbreviation (input) VMALLOC_START :: u32 where "VMALLOC_START \<equiv> 0x01000000"
abbreviation (input) VMALLOC_END :: u32 where "VMALLOC_END \<equiv> 0x10000000"

text \<open>\<open>sizeof(vm_region_t)\<close>.\<close>

abbreviation (input) SIZEOF_VM_REGION :: u32 where "SIZEOF_VM_REGION \<equiv> 24"

definition vm_region_at :: "memory \<Rightarrow> u32 \<Rightarrow> vm_region" where
  "vm_region_at m r = \<lparr>rvirt_addr = load32 m r, rsize = load32 m (r + 4), rmapped_size = load32 m (r + 8),
     rnum_pages = load32 m (r + 12), rnext = load32 m (r + 16), rmagic = load32 m (r + 20)\<rparr>"

definition set_rnext :: "u32 \<Rightarrow> u32 \<Rightarrow> memory \<Rightarrow> memory" where
  "set_rnext r v = store32 (r + 16) v"

definition set_rmagic :: "u32 \<Rightarrow> u32 \<Rightarrow> memory \<Rightarrow> memory" where
  "set_rmagic r v = store32 (r + 20) v"

record vmsys = kheap +
  vmalloc_current :: u32
  region_list :: u32
  total_regions :: u32
  total_pages_allocated :: u32

section \<open>Operations\<close>

definition vmalloc_memset :: "u32 \<Rightarrow> u8 \<Rightarrow> u32 \<Rightarrow> 'a machine_scheme \<Rightarrow> 'a machine_scheme outcome" where
  "vmalloc_memset ptr value n s = memset_paging ptr value n s"

partial_function (option) highest_end_from :: "memory \<Rightarrow> u32 \<Rightarrow> u32 \<Rightarrow> u32 option" where
  "highest_end_from m highest current =
     (if current = NULL then Some highest
      else
        let r = vm_region_at m current;
            end = rvirt_addr r + rmapped_size r
        in highest_end_from m (if highest < end then end else highest) (rnext r))"

definition vmalloc_highest_end :: "'a vmsys_scheme \<Rightarrow> u32 outcome" where
  "vmalloc_highest_end s = of_walk (highest_end_from (mem s) VMALLOC_START (region_list s))"

text \<open>The region and the one before it, \<open>NULL\<close> for none.\<close>

partial_function (option) find_region_from :: "memory \<Rightarrow> u32 \<Rightarrow> u32 \<Rightarrow> u32 \<Rightarrow> (u32 \<times> u32) option" where
  "find_region_from m virt_addr previous current =
     (if current = NULL then Some (NULL, NULL)
      else if rmagic (vm_region_at m current) = VM_MAGIC \<and> rvirt_addr (vm_region_at m current) = virt_addr
      then Some (current, previous)
      else find_region_from m virt_addr current (rnext (vm_region_at m current)))"

definition vmalloc_find_region :: "u32 \<Rightarrow> 'a vmsys_scheme \<Rightarrow> (u32 \<times> u32) outcome" where
  "vmalloc_find_region ptr s = of_walk (find_region_from (mem s) ptr NULL (region_list s))"

definition vmalloc_init :: "'a vmsys_scheme \<Rightarrow> 'a vmsys_scheme" where
  "vmalloc_init s = s\<lparr>vmalloc_current := VMALLOC_START, region_list := NULL, total_regions := 0,
     total_pages_allocated := 0\<rparr>"

definition vbrk :: "i32 \<Rightarrow> 'a vmsys_scheme \<Rightarrow> (u32 \<times> 'a vmsys_scheme) outcome" where
  "vbrk increment s =
     (let old_current = vmalloc_current s in
      obind (vmalloc_highest_end s) (\<lambda>min_current.
      if increment = 0 then Inr (vmalloc_current s, s)
      else if 0 <s increment then
        let new_current = vmalloc_current s + increment in
        if VMALLOC_END < new_current
        then Inr (MINUS1, warn_con ''vbrk: Would exceed virtual address space'' s)
        else Inr (old_current, s\<lparr>vmalloc_current := new_current\<rparr>)
      else
        let new_current = vmalloc_current s + increment;
            new_current = (if new_current < min_current then min_current else new_current)
        in Inr (old_current, s\<lparr>vmalloc_current := new_current\<rparr>)))"

text \<open>Out of frames at page \<open>i\<close>: the pages mapped so far are unmapped and their frames freed.\<close>

function unmap_mapped :: "u32 \<Rightarrow> u32 \<Rightarrow> u32 \<Rightarrow> 'a paging_scheme \<Rightarrow> 'a paging_scheme outcome" where
  "unmap_mapped virt_addr i j s =
     (if j < i then
        let addr = virt_addr + j * PAGE_SIZE in
        obind (paging_get_physical addr s) (\<lambda>phys.
        obind (paging_unmap_page addr s) (\<lambda>s.
        unmap_mapped virt_addr i (j + 1) (s\<lparr>frames := pmm_free_frame phys (frames s)\<rparr>)))
      else Inr s)"
  by pat_completeness auto
termination
  by (relation "measure (\<lambda>(v, i, j, s). unat i - unat j)") (auto dest: counter_decreases)

text \<open>The loop over the pages of a new region; \<open>False\<close> is out of frames, with the pages taken back.\<close>

function map_pages :: "u32 \<Rightarrow> u32 \<Rightarrow> u32 \<Rightarrow> 'a paging_scheme \<Rightarrow> (bool \<times> 'a paging_scheme) outcome" where
  "map_pages virt_addr num_pages i s =
     (if i < num_pages then
        let (phys_addr, fr) = pmm_alloc_frame (frames s);
            s = s\<lparr>frames := fr\<rparr>
        in if phys_addr = 0 then obind (unmap_mapped virt_addr i 0 s) (\<lambda>s. Inr (False, s))
           else
             obind (paging_map_page (virt_addr + i * PAGE_SIZE) phys_addr PAGE_KERNEL s) (\<lambda>s.
             obind (vmalloc_memset (virt_addr + i * PAGE_SIZE) 0 PAGE_SIZE s) (\<lambda>s.
             map_pages virt_addr num_pages (i + 1) s))
      else Inr (True, s))"
  by pat_completeness auto
termination
  by (relation "measure (\<lambda>(v, n, i, s). unat n - unat i)") (auto dest: counter_decreases)

declare unmap_mapped.simps [simp del] map_pages.simps [simp del]

definition vmalloc :: "u32 \<Rightarrow> 'a vmsys_scheme \<Rightarrow> (u32 \<times> 'a vmsys_scheme) outcome" where
  "vmalloc size' s =
     (if size' = 0 then Inr (NULL, s)
      else
        let num_pages = (size' + PAGE_SIZE - 1) div PAGE_SIZE;
            alloc_size = num_pages * PAGE_SIZE
        in if VMALLOC_END < vmalloc_current s + alloc_size
           then Inr (NULL, warn_con ''vmalloc: Out of virtual address space'' s)
           else
             obind (of_walk (kmalloc SIZEOF_VM_REGION s)) (\<lambda>(region, s).
             if region = NULL then Inr (NULL, warn_con ''vmalloc: Out of kernel memory for metadata'' s)
             else
               let virt_addr = vmalloc_current s in
               obind (map_pages virt_addr num_pages 0 s) (\<lambda>(mapped, s).
               if \<not> mapped then
                 obind (kfree region s) (\<lambda>s. Inr (NULL, warn_con ''vmalloc: Out of physical memory'' s))
               else
                 let m = store32 region virt_addr (mem s);
                     m = store32 (region + 4) size' m;
                     m = store32 (region + 8) alloc_size m;
                     m = store32 (region + 12) num_pages m;
                     m = set_rmagic region VM_MAGIC m;
                     m = set_rnext region (region_list s) m;
                     s = s\<lparr>mem := m\<rparr>;
                     s = s\<lparr>region_list := region\<rparr>;
                     s = s\<lparr>total_regions := total_regions s + 1,
                           total_pages_allocated := total_pages_allocated s + num_pages\<rparr>
                 in Inr (virt_addr, s\<lparr>vmalloc_current := vmalloc_current s + alloc_size\<rparr>))))"

text \<open>The loop of \<open>vfree\<close> reads the descriptor again in every turn.\<close>

partial_function (option) free_pages_from ::
  "u32 \<Rightarrow> u32 \<Rightarrow> 'a paging_scheme \<Rightarrow> 'a paging_scheme outcome option" where
  "free_pages_from region i s =
     (if i < rnum_pages (vm_region_at (mem s) region) then
        let vaddr = rvirt_addr (vm_region_at (mem s) region) + i * PAGE_SIZE in
        (case paging_get_physical vaddr s of
           Inl e \<Rightarrow> Some (Inl e)
         | Inr paddr \<Rightarrow>
             if paddr \<noteq> 0 then
               (case paging_unmap_page vaddr s of
                  Inl e \<Rightarrow> Some (Inl e)
                | Inr s \<Rightarrow> free_pages_from region (i + 1) (s\<lparr>frames := pmm_free_frame paddr (frames s)\<rparr>))
             else free_pages_from region (i + 1) s)
      else Some (Inr s))"

definition free_pages :: "u32 \<Rightarrow> 'a paging_scheme \<Rightarrow> 'a paging_scheme outcome" where
  "free_pages region s = (case free_pages_from region 0 s of None \<Rightarrow> Inl Diverges | Some r \<Rightarrow> r)"

definition vfree :: "u32 \<Rightarrow> 'a vmsys_scheme \<Rightarrow> 'a vmsys_scheme outcome" where
  "vfree ptr s =
     (if ptr = NULL then Inr s
      else
        obind (vmalloc_find_region ptr s) (\<lambda>(region, prev_region).
        if region = NULL then Inl (Panic ''vfree: Invalid region (corrupted or double-free)'')
        else
          let s = (if prev_region \<noteq> NULL
                   then s\<lparr>mem := set_rnext prev_region (rnext (vm_region_at (mem s) region)) (mem s)\<rparr>
                   else s\<lparr>region_list := rnext (vm_region_at (mem s) region)\<rparr>)
          in obind (free_pages region s) (\<lambda>s.
             let s = s\<lparr>total_regions := total_regions s - 1\<rparr>;
                 s = s\<lparr>total_pages_allocated := total_pages_allocated s - rnum_pages (vm_region_at (mem s) region)\<rparr>;
                 s = s\<lparr>mem := set_rmagic region 0 (mem s)\<rparr>
             in obind (kfree region s) (\<lambda>s.
                obind (vmalloc_highest_end s) (\<lambda>highest. Inr (s\<lparr>vmalloc_current := highest\<rparr>))))))"

definition vsize :: "u32 \<Rightarrow> 'a vmsys_scheme \<Rightarrow> u32 outcome" where
  "vsize ptr s =
     (if ptr = NULL then Inr 0
      else
        obind (vmalloc_find_region ptr s) (\<lambda>(region, _).
        Inr (if region = NULL then 0 else rsize (vm_region_at (mem s) region))))"

record vmalloc_stats =
  total_virtual :: u32
  used_virtual :: u32
  num_regions :: u32

definition vmalloc_get_stats :: "'a vmsys_scheme \<Rightarrow> vmalloc_stats" where
  "vmalloc_get_stats s =
     \<lparr>total_virtual = total_pages_allocated s * PAGE_SIZE, used_virtual = total_pages_allocated s * PAGE_SIZE,
      num_regions = total_regions s\<rparr>"

section \<open>Printing\<close>

definition print_hex_vm :: "u32 \<Rightarrow> 'a machine_scheme \<Rightarrow> 'a machine_scheme" where
  "print_hex_vm num s = terminal_print (hex_string num) s"

definition print_dec_vm :: "u32 \<Rightarrow> 'a machine_scheme \<Rightarrow> 'a machine_scheme" where
  "print_dec_vm num s = terminal_print (dec_string num) s"

text \<open>One line of the dump, and the walk that prints them.\<close>

definition region_line :: "u32 \<Rightarrow> vm_region \<Rightarrow> 'a machine_scheme \<Rightarrow> 'a machine_scheme" where
  "region_line region_num r s =
     (let s = print_dec_vm region_num (terminal_print ''  ['' s);
          s = print_hex_vm (rvirt_addr r) (terminal_print ''] vaddr=0x'' s);
          s = print_dec_vm (rnum_pages r) (terminal_print '' pages='' s);
          s = print_dec_vm (rsize r) (terminal_print '' size='' s);
          s = print_dec_vm (rmapped_size r) (terminal_print '' mapped='' s)
      in terminal_print [CHR 0x0A] s)"

partial_function (option) dump_regions_from ::
  "u32 \<Rightarrow> u32 \<Rightarrow> 'a machine_scheme \<Rightarrow> 'a machine_scheme option" where
  "dump_regions_from current region_num s =
     (if current \<noteq> NULL \<and> rmagic (vm_region_at (mem s) current) = VM_MAGIC
      then dump_regions_from (rnext (vm_region_at (mem s) current)) (region_num + 1)
             (region_line region_num (vm_region_at (mem s) current) s)
      else Some s)"

definition vmalloc_dump :: "'a vmsys_scheme \<Rightarrow> 'a vmsys_scheme outcome" where
  "vmalloc_dump s =
     (let s = terminal_print (CHR 0x0A # ''=== Virtual Memory Dump ==='' @ [CHR 0x0A]) s;
          s = print_hex_vm VMALLOC_START (terminal_print ''VMalloc range: 0x'' s);
          s = print_hex_vm (vmalloc_current s) (terminal_print '' - 0x'' s);
          s = terminal_print [CHR 0x0A] s;
          s = print_dec_vm (total_regions s) (terminal_print ''Total regions: '' s);
          s = terminal_print [CHR 0x0A] s;
          s = print_dec_vm (total_pages_allocated s) (terminal_print ''Total pages: '' s);
          s = print_dec_vm (total_pages_allocated s * PAGE_SIZE div 1024) (terminal_print '' ('' s);
          s = terminal_print ('' KB)'' @ [CHR 0x0A]) s;
          s = terminal_print (CHR 0x0A # ''Regions:'' @ [CHR 0x0A]) s
      in of_walk (dump_regions_from (region_list s) 0 s))"

end
