(* ===== verification/Heap_Dump.thy ===== *)
theory Heap_Dump
  imports Vmalloc
begin

unbundle bit_operations_syntax

text \<open>
  The reports the kernel prints about its memory: the debug printers of \<open>kernel/src/kmalloc.c\<close>, and
  the formats of \<open>kernel/src/shell.c\<close> the memory commands share. What a command prints is given as the
  list of the texts it hands to \<open>terminal_write\<close> one after the other.
\<close>

definition say :: "string list \<Rightarrow> 'a machine_scheme \<Rightarrow> 'a machine_scheme" where
  "say texts s = terminal_print (concat texts) s"

text \<open>A text followed by a newline.\<close>

definition line :: "string \<Rightarrow> string" where
  "line text = text @ [CHR 0x0A]"

section \<open>The heap dump (\<open>kmalloc.c\<close>)\<close>

definition print_hex_km :: "u32 \<Rightarrow> 'a machine_scheme \<Rightarrow> 'a machine_scheme" where
  "print_hex_km num s = terminal_print (hex_string num) s"

definition print_dec_km :: "u32 \<Rightarrow> 'a machine_scheme \<Rightarrow> 'a machine_scheme" where
  "print_dec_km num s = terminal_print (dec_string num) s"

text \<open>One line of the dump, and the walk that prints them.\<close>

definition block_line :: "u32 \<Rightarrow> u32 \<Rightarrow> block_header \<Rightarrow> 'a machine_scheme \<Rightarrow> 'a machine_scheme" where
  "block_line block_num current h s =
     (let s = print_dec_km block_num (terminal_print ''  ['' s);
          s = print_hex_km current (terminal_print ''] addr=0x'' s);
          s = print_dec_km (bsize h) (terminal_print '' size='' s);
          s = terminal_print '' '' s;
          s = terminal_print (if bfree h \<noteq> 0 then ''FREE'' else ''USED'') s
      in terminal_print (line []) s)"

partial_function (option) dump_blocks_from :: "u32 \<Rightarrow> u32 \<Rightarrow> 'a machine_scheme \<Rightarrow> 'a machine_scheme option" where
  "dump_blocks_from current block_num s =
     (if current \<noteq> NULL
      then dump_blocks_from (bnext (header (mem s) current)) (block_num + 1)
             (block_line block_num current (header (mem s) current) s)
      else Some s)"

definition kmalloc_dump :: "'a kheap_scheme \<Rightarrow> 'a kheap_scheme outcome" where
  "kmalloc_dump s =
     (let s = terminal_print (line [] @ line ''=== Kernel Heap Dump ==='') s;
          s = print_hex_km (heap_start s) (terminal_print ''Heap start: 0x'' s);
          s = print_hex_km (heap_end s) (terminal_print (line [] @ ''Heap end: 0x'') s);
          s = print_dec_km (heap_end s - heap_start s) (terminal_print (line [] @ ''Heap size: '') s);
          s = terminal_print (line '' bytes'' @ line []) s;
          s = terminal_print (line ''Blocks:'') s
      in obind (of_walk (dump_blocks_from (block_list s) 0 s)) (\<lambda>s.
         let s = print_dec_km (total_allocations s) (terminal_print (line [] @ ''Total allocations: '') s);
             s = print_dec_km (total_frees s) (terminal_print '', Total frees: '' s)
         in Inr (terminal_print (line []) s)))"

section \<open>The shell's formats (\<open>shell.c\<close>)\<close>

definition shell_hex :: "u32 \<Rightarrow> string" where
  "shell_hex num = ''0x'' @ hex_string num"

text \<open>One byte, as \<open>shell_print_byte\<close> prints it, is \<^const>\<open>hex_byte\<close>; a byte of memory the kernel reads.\<close>

definition vload8 :: "'a machine_scheme \<Rightarrow> u32 \<Rightarrow> u8 outcome" where
  "vload8 s v = (case translate s v of None \<Rightarrow> Inl (PageFault v) | Some p \<Rightarrow> Inr (mem s p))"

text \<open>The bytes of one line of a hexdump, the blanks for those past the end, and the characters.\<close>

fun hexdump_pad :: "nat list \<Rightarrow> string" where
  "hexdump_pad [] = []"
| "hexdump_pad (j # js) = ''   '' @ (if j = 7 then '' '' else []) @ hexdump_pad js"

fun hexdump_bytes ::
  "u32 \<Rightarrow> u32 \<Rightarrow> u32 \<Rightarrow> nat list \<Rightarrow> 'a machine_scheme \<Rightarrow> 'a machine_scheme outcome" where
  "hexdump_bytes ptr n i [] s = Inr s"
| "hexdump_bytes ptr n i (j # js) s =
     (if i + word_of_nat j < n then
        obind (vload8 s (ptr + (i + word_of_nat j))) (\<lambda>byte.
        hexdump_bytes ptr n i js (say [hex_byte byte, '' '', if j = 7 then '' '' else []] s))
      else Inr (say [hexdump_pad (j # js)] s))"

definition printable :: "u8 \<Rightarrow> char" where
  "printable c = (if 32 \<le> c \<and> c < 127 then char_of (unat c) else CHR ''.'')"

fun hexdump_ascii ::
  "u32 \<Rightarrow> u32 \<Rightarrow> u32 \<Rightarrow> nat list \<Rightarrow> 'a machine_scheme \<Rightarrow> 'a machine_scheme outcome" where
  "hexdump_ascii ptr n i [] s = Inr s"
| "hexdump_ascii ptr n i (j # js) s =
     (if i + word_of_nat j < n then
        obind (vload8 s (ptr + (i + word_of_nat j))) (\<lambda>c.
        hexdump_ascii ptr n i js (say [[printable c]] s))
      else Inr s)"

definition hexdump_row :: "u32 \<Rightarrow> u32 \<Rightarrow> u32 \<Rightarrow> 'a machine_scheme \<Rightarrow> 'a machine_scheme outcome" where
  "hexdump_row addr n i s =
     (let s = say [shell_hex (addr + i), '': ''] s in
      obind (hexdump_bytes addr n i [0..<16] s) (\<lambda>s.
      obind (hexdump_ascii addr n i [0..<16] (say ['' |''] s)) (\<lambda>s.
      Inr (say [line ''|''] s))))"

partial_function (option) hexdump_from ::
  "u32 \<Rightarrow> u32 \<Rightarrow> u32 \<Rightarrow> 'a machine_scheme \<Rightarrow> 'a machine_scheme outcome option" where
  "hexdump_from addr n i s =
     (if i < n then
        (case hexdump_row addr n i s of
           Inl e \<Rightarrow> Some (Inl e)
         | Inr s \<Rightarrow> hexdump_from addr n (i + 16) s)
      else Some (Inr s))"

definition shell_hexdump :: "u32 \<Rightarrow> u32 \<Rightarrow> 'a machine_scheme \<Rightarrow> 'a machine_scheme outcome" where
  "shell_hexdump addr n s = (case hexdump_from addr n 0 s of None \<Rightarrow> Inl Diverges | Some r \<Rightarrow> r)"

end
