(* ===== verification/Shell_Memory.thy ===== *)
theory Shell_Memory
  imports Heap_Dump
begin

unbundle bit_operations_syntax

text \<open>
  The memory commands of the shell, \<open>kernel/src/shell.c\<close>: the branches of \<open>shell_run\<close> that report on
  physical memory, the kernel heap and the virtual allocator, allocate and free, read and write
  memory, and the self tests. Each is a function of the arguments it parses; the texts it prints go
  to the console.
\<close>

text \<open>The shell's static variables for the heap commands.\<close>

record shmem = vmsys +
  last_alloc :: u32
  last_alloc_size :: u32

section \<open>Reports\<close>

definition cmd_meminfo :: "'a vmsys_scheme \<Rightarrow> 'a vmsys_scheme outcome" where
  "cmd_meminfo s =
     (let p = pmm_get_stats (frames s) in
      obind (of_walk (kmalloc_get_stats s)) (\<lambda>k.
      let v = vmalloc_get_stats s in
      Inr (say
        [line [] @ line ''=== Physical Memory ==='', ''Total: '', shell_size (st_total_memory p),
         line [] @ ''Used:  '', shell_size (st_used_frames p * 4096), '' ('', dec_string (st_used_frames p),
         line '' pages)'', ''Free:  '', shell_size (st_free_frames p * 4096), '' ('', dec_string (st_free_frames p),
         line '' pages)'',
         line [] @ line ''=== Kernel Heap ==='', ''Heap size: '', shell_size (heap_size k),
         line [] @ ''Used:      '', shell_size (used_size k), line [] @ ''Free:      '', shell_size (free_size k),
         line [] @ ''Allocs:    '', dec_string (num_allocations k), line [],
         line [] @ line ''=== Virtual Memory ==='', ''Allocated: '', shell_size (total_virtual v),
         line [] @ ''Regions:   '', dec_string (num_regions v), line []] s)))"

text \<open>The loop over the entries of a page directory that counts the present ones.\<close>

fun count_tables :: "u32 \<Rightarrow> nat list \<Rightarrow> u32 \<Rightarrow> 'a machine_scheme \<Rightarrow> u32 outcome" where
  "count_tables pd [] mapped_tables s = Inr mapped_tables"
| "count_tables pd (i # is) mapped_tables s =
     obind (vload32 s (entry_at pd (word_of_nat i))) (\<lambda>e.
     count_tables pd is (if e AND PAGE_PRESENT \<noteq> 0 then mapped_tables + 1 else mapped_tables) s)"

definition cmd_vmap :: "'a vmsys_scheme \<Rightarrow> 'a vmsys_scheme outcome" where
  "cmd_vmap s =
     obind (vmalloc_dump s) (\<lambda>s.
     let pd = paging_get_directory s;
         s = say [line [] @ line ''=== Page Directory Info ==='', ''Page directory at: '', shell_hex pd, line []] s
     in obind (count_tables pd [0..<1024] 0 s) (\<lambda>mapped_tables.
        Inr (say [''Mapped page tables: '', dec_string mapped_tables, line ''/1024''] s)))"

text \<open>The line \<open>pagedir\<close> prints for entry \<open>i\<close>.\<close>

definition pagedir_line :: "u32 \<Rightarrow> u32 \<Rightarrow> string list" where
  "pagedir_line i e =
     [''  ['', dec_string i, ''] -> '', shell_hex (e AND 0xFFFFF000), '' ('',
      if e AND PAGE_WRITE \<noteq> 0 then ''RW'' else ''RO'', if e AND PAGE_USER \<noteq> 0 then '',U'' else '',K'',
      '') VA: '', shell_hex (i * 4 * 1024 * 1024), ''-'', shell_hex ((i + 1) * 4 * 1024 * 1024 - 1), line []]"

fun pagedir_from :: "u32 \<Rightarrow> nat list \<Rightarrow> nat \<Rightarrow> 'a machine_scheme \<Rightarrow> 'a machine_scheme outcome" where
  "pagedir_from pd [] count s = Inr s"
| "pagedir_from pd (i # is) count s =
     obind (vload32 s (entry_at pd (word_of_nat i))) (\<lambda>e.
     if e AND PAGE_PRESENT \<noteq> 0 then
       let s = say (pagedir_line (word_of_nat i) e) s;
           count = count + 1
       in if 10 \<le> count then
            let s = say [''  ... (''] s in
            obind (count_tables pd [0..<1024] 0 s) (\<lambda>total. Inr (say [dec_string total, line '' total)''] s))
          else pagedir_from pd is count s
     else pagedir_from pd is count s)"

definition cmd_pagedir :: "'a paging_scheme \<Rightarrow> 'a paging_scheme outcome" where
  "cmd_pagedir s =
     (let pd = paging_get_directory s;
          s = say [line ''=== Page Directory ==='', ''Address: '', shell_hex pd,
                   line [] @ line [] @ line ''Mapped page tables:''] s
      in pagedir_from pd [0..<1024] 0 s)"

section \<open>Heap commands\<close>

definition cmd_alloc :: "string \<Rightarrow> 'a shmem_scheme \<Rightarrow> 'a shmem_scheme outcome" where
  "cmd_alloc args s =
     (let n = parse_uint args in
      if n = 0 then Inr (say [line ''Usage: alloc SIZE (in bytes)''] s)
      else
        obind (of_walk (kmalloc n s)) (\<lambda>(ptr, s).
        if ptr \<noteq> NULL then
          let s = say [''Allocated '', dec_string n, '' bytes at '', shell_hex ptr, line []] s
          in Inr (s\<lparr>last_alloc := ptr, last_alloc_size := n\<rparr>)
        else Inr (say [line ''Allocation failed!''] s)))"

definition cmd_free :: "'a shmem_scheme \<Rightarrow> 'a shmem_scheme outcome" where
  "cmd_free s =
     (if last_alloc s = NULL then Inr (say [line ''No allocation to free''] s)
      else
        let s = say [''Freeing '', dec_string (last_alloc_size s), '' bytes at '', shell_hex (last_alloc s), line []] s
        in obind (kfree (last_alloc s) s) (\<lambda>s. Inr (s\<lparr>last_alloc := NULL, last_alloc_size := 0\<rparr>)))"

section \<open>Reading and writing memory\<close>

text \<open>
  A double word at any address: its four bytes may lie in two pages, and both are translated before
  anything is read or written.
\<close>

definition translate4 :: "'a machine_scheme \<Rightarrow> u32 \<Rightarrow> (u32 \<times> u32 \<times> u32 \<times> u32) outcome" where
  "translate4 s v =
     (let byte = (\<lambda>a. case translate s a of None \<Rightarrow> Inl (PageFault a) | Some p \<Rightarrow> Inr p) in
      obind (byte v) (\<lambda>p0. obind (byte (v + 1)) (\<lambda>p1. obind (byte (v + 2)) (\<lambda>p2.
      obind (byte (v + 3)) (\<lambda>p3. Inr (p0, p1, p2, p3))))))"

definition peek32 :: "'a machine_scheme \<Rightarrow> u32 \<Rightarrow> u32 outcome" where
  "peek32 s v =
     obind (translate4 s v) (\<lambda>(p0, p1, p2, p3).
     Inr (ucast (mem s p0) OR push_bit 8 (ucast (mem s p1)) OR push_bit 16 (ucast (mem s p2))
       OR push_bit 24 (ucast (mem s p3))))"

definition poke32 :: "u32 \<Rightarrow> u32 \<Rightarrow> 'a machine_scheme \<Rightarrow> 'a machine_scheme outcome" where
  "poke32 v x s =
     obind (translate4 s v) (\<lambda>(p0, p1, p2, p3).
     Inr (s\<lparr>mem := (mem s)(p0 := ucast x, p1 := ucast (drop_bit 8 x), p2 := ucast (drop_bit 16 x),
       p3 := ucast (drop_bit 24 x))\<rparr>))"

definition cmd_peek :: "string \<Rightarrow> 'a machine_scheme \<Rightarrow> 'a machine_scheme outcome" where
  "cmd_peek args s =
     (let addr = parse_hex args;
          s = say [''Value at '', shell_hex addr, '': ''] s
      in obind (peek32 s addr) (\<lambda>v.
         let s = say [shell_hex v, '' (''] s in
         obind (peek32 s addr) (\<lambda>v. Inr (say [dec_string v, line '')''] s))))"

text \<open>\<open>while (*args && *args != ' ') args++\<close>.\<close>

fun skip_word :: "string \<Rightarrow> string" where
  "skip_word [] = []"
| "skip_word (c # args) =
     (if of_char c \<noteq> (0 :: nat) \<and> of_char c \<noteq> (32 :: nat) then skip_word args else c # args)"

definition cmd_poke :: "string \<Rightarrow> 'a machine_scheme \<Rightarrow> 'a machine_scheme outcome" where
  "cmd_poke args s =
     (let addr = parse_hex args;
          args = skip_word args
      in if ch args = 32 then
           let args = tl args;
               value = parse_hex args
           in obind (poke32 addr value s) (\<lambda>s.
              Inr (say [''Wrote '', shell_hex value, '' to '', shell_hex addr, line []] s))
         else Inr (say [line ''Usage: poke ADDR VALUE''] s))"

definition cmd_hexdump :: "string \<Rightarrow> 'a machine_scheme \<Rightarrow> 'a machine_scheme outcome" where
  "cmd_hexdump args s =
     (let addr = parse_hex args;
          n = 64;
          args = skip_word args;
          n = (if ch args = 32 then
                 let parsed_size = parse_uint (tl args) in if 0 < parsed_size then parsed_size else n
               else n);
          n = (if 512 < n then 512 else n);
          s = say [''Memory dump at '', shell_hex addr, '' ('', dec_string n, line '' bytes):''] s
      in shell_hexdump addr n s)"

text \<open>\<open>esp\<close> and \<open>ebp\<close> are the registers when \<open>shell_dump_stack\<close> reads them.\<close>

definition shell_dump_stack :: "u32 \<Rightarrow> u32 \<Rightarrow> 'a machine_scheme \<Rightarrow> 'a machine_scheme outcome" where
  "shell_dump_stack esp' ebp' s =
     (let s = say [line ''=== Stack Dump ==='', ''ESP: '', shell_hex esp', ''  EBP: '', shell_hex ebp', line [] @ line []] s;
          s = say [line ''Stack contents (64 bytes from ESP):''] s
      in shell_hexdump esp' 64 s)"

end
