(* ===== verification/Shell_Tests.thy ===== *)
theory Shell_Tests
  imports Shell_Memory
begin

unbundle bit_operations_syntax

text \<open>
  The self tests of the shell, \<open>kernel/src/shell.c\<close>: \<open>pagetest\<close>, \<open>pageperm\<close>, \<open>pmmtest\<close>, \<open>vmtest\<close> and
  \<open>heaptest\<close>. Each exercises one allocator and prints its verdict.
\<close>

abbreviation (input) PAGE_USER_RO :: u32 where "PAGE_USER_RO \<equiv> 0x005"
abbreviation (input) TEST_VADDR :: u32 where "TEST_VADDR \<equiv> 0x40000000"

definition cmd_pagetest :: "'a paging_scheme \<Rightarrow> 'a paging_scheme outcome" where
  "cmd_pagetest s =
     (let test_vaddr = TEST_VADDR;
          (frame, fr) = pmm_alloc_frame (frames s);
          s = s\<lparr>frames := fr\<rparr>
      in if frame = 0 then Inr (say [line ''pagetest: FAIL (no free frames)''] s)
         else
           let s = say [''pagetest: alloc frame='', shell_hex frame, line []] s in
           obind (paging_map_page test_vaddr frame PAGE_KERNEL s) (\<lambda>s.
           let s = say [''pagetest: mapped VA='', shell_hex test_vaddr, '' -> PA='', shell_hex frame, line []] s in
           obind (vstore32 test_vaddr 0xCAFE4242 s) (\<lambda>s.
           let s = say [line ''pagetest: write 0xCAFE4242 OK''] s in
           obind (vload32 s test_vaddr) (\<lambda>readback.
           let s = say [''pagetest: read '', shell_hex readback] s;
               s = say [if readback = 0xCAFE4242 then line '' OK'' @ line ''pagetest: match OK'' else line '' FAIL''] s
           in obind (paging_unmap_page test_vaddr s) (\<lambda>s.
              let s = say [''pagetest: unmapped VA='', shell_hex test_vaddr, line []] s;
                  s = s\<lparr>frames := pmm_free_frame frame (frames s)\<rparr>;
                  s = say [line ''pagetest: freed frame''] s
              in Inr (say [if readback = 0xCAFE4242 then line ''pagetest: PASS'' else line ''pagetest: FAIL''] s))))))"

text \<open>One of the three blocks of \<open>pageperm\<close>: map with \<open>flags\<close>, read the entry back, compare its bits.\<close>

definition flag_bit :: "u32 \<Rightarrow> u32 \<Rightarrow> u32" where
  "flag_bit pte flag = (if pte AND flag \<noteq> 0 then 1 else 0)"

definition perm_check ::
  "string \<Rightarrow> u32 \<Rightarrow> u32 \<Rightarrow> u32 \<Rightarrow> u32 \<Rightarrow> u32 \<Rightarrow> u32 \<Rightarrow> u32 \<Rightarrow> bool \<Rightarrow> 'a paging_scheme \<Rightarrow>
     (bool \<times> 'a paging_scheme) outcome" where
  "perm_check name flags want_p want_w want_u pd test_vaddr frame pass s =
     (let dir_idx = PAGE_DIR_INDEX test_vaddr;
          tbl_idx = PAGE_TABLE_INDEX test_vaddr
      in obind (paging_map_page test_vaddr frame flags s) (\<lambda>s.
         obind (vload32 s (entry_at pd dir_idx)) (\<lambda>e.
         let table = PAGE_FRAME e in
         obind (vload32 s (entry_at table tbl_idx)) (\<lambda>pte.
         let p = flag_bit pte PAGE_PRESENT; w = flag_bit pte PAGE_WRITE; u = flag_bit pte PAGE_USER;
             s = say [''pageperm: '', name, '' -> P='', dec_string p, '' W='', dec_string w, '' U='', dec_string u] s
         in if p = want_p \<and> w = want_w \<and> u = want_u then Inr (pass, say [line '' OK''] s)
            else Inr (False, say [line '' FAIL''] s)))))"

definition cmd_pageperm :: "'a paging_scheme \<Rightarrow> 'a paging_scheme outcome" where
  "cmd_pageperm s =
     (let test_vaddr = TEST_VADDR;
          (frame, fr) = pmm_alloc_frame (frames s);
          s = s\<lparr>frames := fr\<rparr>
      in if frame = 0 then Inr (say [line ''pageperm: FAIL (no free frames)''] s)
         else
           let pd = paging_get_directory s in
           obind (perm_check ''KERNEL'' PAGE_KERNEL 1 1 0 pd test_vaddr frame True s) (\<lambda>(pass, s).
           obind (perm_check ''USER_RO'' PAGE_USER_RO 1 0 1 pd test_vaddr frame pass s) (\<lambda>(pass, s).
           obind (perm_check ''USER_RW'' PAGE_USER_RW 1 1 1 pd test_vaddr frame pass s) (\<lambda>(pass, s).
           obind (paging_unmap_page test_vaddr s) (\<lambda>s.
           let s = s\<lparr>frames := pmm_free_frame frame (frames s)\<rparr>
           in Inr (say [if pass then line ''pageperm: PASS'' else line ''pageperm: FAIL''] s))))))"

text \<open>The part of \<open>pmmtest\<close> after the three frames are given back: four frames in a row.\<close>

definition pmmtest_contiguous :: "u32 \<Rightarrow> bool \<Rightarrow> 'a machine_scheme \<Rightarrow> bool \<times> 'a machine_scheme" where
  "pmmtest_contiguous initial_free pass s =
     (let (contig, fr) = pmm_alloc_frames 4 (frames s);
          s = s\<lparr>frames := fr\<rparr>
      in if contig = 0 then (False, say [line ''pmmtest: contiguous alloc FAIL''] s)
         else
           let s = say [''pmmtest: contiguous alloc 4 at '', shell_hex contig, line '' OK''] s;
               s = s\<lparr>frames := pmm_free_frames contig 4 (frames s)\<rparr>;
               stats = pmm_get_stats (frames s);
               s = say [''pmmtest: contiguous free OK (free='', dec_string (st_free_frames stats), line '')''] s
           in (if st_free_frames stats \<noteq> initial_free then False else pass, s))"

text \<open>The part after three frames were taken: the counters, and giving the frames back.\<close>

definition pmmtest_frames :: "u32 \<Rightarrow> u32 \<Rightarrow> u32 \<Rightarrow> u32 \<Rightarrow> 'a machine_scheme \<Rightarrow> bool \<times> 'a machine_scheme" where
  "pmmtest_frames initial_free f1 f2 f3 s =
     (let stats = pmm_get_stats (frames s);
          delta = st_free_frames stats - initial_free;
          s = say [''pmmtest: alloc 3 frames OK (free='', dec_string (st_free_frames stats), line '')'' @ ''pmmtest: delta=''] s;
          s = say (if delta <s 0 then [''-'', dec_string (- delta)] else [dec_string delta]) s;
          pass = (delta = -3);
          s = say [if delta = -3 then line '' OK'' else line '' FAIL''] s;
          s = s\<lparr>frames := pmm_free_frame f3 (pmm_free_frame f2 (pmm_free_frame f1 (frames s)))\<rparr>;
          stats = pmm_get_stats (frames s);
          s = say [''pmmtest: freed 3 frames (free='', dec_string (st_free_frames stats), line '')''] s;
          s = say [if st_free_frames stats = initial_free then line ''pmmtest: restored OK''
                   else line ''pmmtest: restored FAIL''] s
      in (if st_free_frames stats = initial_free then pass else False, s))"

definition alloc3 :: "pmm \<Rightarrow> u32 \<times> u32 \<times> u32 \<times> pmm" where
  "alloc3 p = (let (f1, q) = pmm_alloc_frame p; (f2, q) = pmm_alloc_frame q; (f3, q) = pmm_alloc_frame q in (f1, f2, f3, q))"

definition cmd_pmmtest :: "'a machine_scheme \<Rightarrow> 'a machine_scheme" where
  "cmd_pmmtest s =
     (let initial_free = st_free_frames (pmm_get_stats (frames s));
          s = say [''pmmtest: initial free='', dec_string initial_free, line []] s;
          (f1, f2, f3, fr) = alloc3 (frames s);
          s = s\<lparr>frames := fr\<rparr>
      in if f1 = 0 \<or> f2 = 0 \<or> f3 = 0 then say [line ''pmmtest: FAIL (alloc returned 0)''] s
         else
           let (pass, s) = pmmtest_frames initial_free f1 f2 f3 s;
               (pass, s) = pmmtest_contiguous initial_free pass s
           in say [if pass then line ''pmmtest: PASS'' else line ''pmmtest: FAIL''] s)"

text \<open>The part of \<open>vmtest\<close> that uses the region.\<close>

definition vmtest_pages :: "u32 \<Rightarrow> 'a vmsys_scheme \<Rightarrow> 'a vmsys_scheme outcome" where
  "vmtest_pages region s =
     (let p0 = region; p1 = region + 4096;
          s = say [''vmtest: vmalloc 8192 at '', shell_hex region, line []] s
      in obind (vstore32 p0 0xDEAD0001 s) (\<lambda>s.
         let s = say [line ''vmtest: write page0 OK''] s in
         obind (vstore32 p1 0xDEAD0002 s) (\<lambda>s.
         let s = say [line ''vmtest: write page1 OK''] s in
         obind (vload32 s p0) (\<lambda>v0.
         let s = say [if v0 = 0xDEAD0001 then line ''vmtest: read page0 OK'' else line ''vmtest: read page0 FAIL''] s;
             pass = (v0 = 0xDEAD0001)
         in obind (vload32 s p1) (\<lambda>v1.
            let s = say [if v1 = 0xDEAD0002 then line ''vmtest: read page1 OK'' else line ''vmtest: read page1 FAIL''] s;
                pass = (if v1 = 0xDEAD0002 then pass else False)
            in obind (vfree region s) (\<lambda>s.
               let s = say [line ''vmtest: vfree OK''] s in
               Inr (say [if pass then line ''vmtest: PASS'' else line ''vmtest: FAIL''] s)))))))"

definition cmd_vmtest :: "'a vmsys_scheme \<Rightarrow> 'a vmsys_scheme outcome" where
  "cmd_vmtest s =
     obind (vmalloc 8192 s) (\<lambda>(region, s).
     if region = NULL then Inr (say [line ''vmtest: FAIL (vmalloc returned NULL)''] s)
     else vmtest_pages region s)"

text \<open>\<open>heaptest\<close> up to the block that may reuse the place of the freed one, and the rest.\<close>

definition heaptest_allocs :: "'a kheap_scheme \<Rightarrow> (u32 \<times> u32 \<times> u32 \<times> 'a kheap_scheme) outcome" where
  "heaptest_allocs s =
     obind (of_walk (kmalloc 64 s)) (\<lambda>(a, s).
     obind (of_walk (kmalloc 128 s)) (\<lambda>(b, s).
     obind (of_walk (kmalloc 64 s)) (\<lambda>(c, s).
     let s = say [''heaptest: alloc A=64 at '', shell_hex a, line [] @ ''heaptest: alloc B=128 at '', shell_hex b,
                  line [] @ ''heaptest: alloc C=64 at '', shell_hex c, line []] s
     in obind (kfree b s) (\<lambda>s.
        let s = say [line ''heaptest: free B OK''] s in
        obind (of_walk (kmalloc 64 s)) (\<lambda>(d, s).
        let reuse = (b \<le> d \<and> d < b + 128);
            s = say [''heaptest: alloc D=64 at '', shell_hex d, '' (reuse='', if reuse then ''YES'' else ''NO'', line '')''] s
        in Inr (a, c, d, s))))))"

definition heaptest_frees :: "u32 \<Rightarrow> u32 \<Rightarrow> u32 \<Rightarrow> 'a kheap_scheme \<Rightarrow> 'a kheap_scheme outcome" where
  "heaptest_frees a c d s =
     obind (kfree a s) (\<lambda>s.
     let s = say [line ''heaptest: free A OK''] s in
     obind (kfree c s) (\<lambda>s.
     let s = say [line ''heaptest: free C OK''] s in
     obind (kfree d s) (\<lambda>s. Inr (say [line ''heaptest: free D OK''] s))))"

definition cmd_heaptest :: "'a kheap_scheme \<Rightarrow> 'a kheap_scheme outcome" where
  "cmd_heaptest s =
     obind (heaptest_allocs s) (\<lambda>(a, c, d, s).
     obind (heaptest_frees a c d s) (\<lambda>s.
     obind (of_walk (kmalloc_get_stats s)) (\<lambda>stats.
     let s = say [''heaptest: allocs='', dec_string (num_allocations stats)] s;
         pass = (num_allocations stats = 0);
         s = say [if num_allocations stats = 0 then line '' OK'' else line '' FAIL''] s
     in Inr (say [if pass then line ''heaptest: PASS'' else line ''heaptest: FAIL''] s))))"

end
