(* ===== verification/Vm_Pages.thy ===== *)
theory Vm_Pages
  imports Paging_Spec Vmalloc Heap_Spec
begin

unbundle bit_operations_syntax

text \<open>
  Pages backed by frames of their own, the ground \<open>vmalloc\<close> and the processes build on: mapping a
  fresh frame, clearing it through the new page, and unmapping it again, with what each does to the
  frames of the tables, to a reserved set of frames (the kernel heap) and to the pages mapped
  before. Machines with at most 16 MiB are considered: there every frame the allocator hands out
  lies in the identity mapping.
\<close>

section \<open>Frames and pages by number\<close>

definition frm :: "u32 \<Rightarrow> nat" where
  "frm x = unat x div 4096"

definition page :: "nat \<Rightarrow> u32" where
  "page g = word_of_nat (4096 * g)"

lemma unat_page: "g < 1048576 \<Longrightarrow> unat (page g) = 4096 * g"
  unfolding page_def by (rule unat_word_of_nat_u32) simp

lemma frm_page [simp]: "g < 1048576 \<Longrightarrow> frm (page g) = g"
  by (simp add: frm_def unat_page)

lemma frm_bound: "frm x < 1048576"
  using unat_u32_bound [of x] by (simp add: frm_def)

lemma same_frame: "PAGE_ALIGN_DOWN v = PAGE_ALIGN_DOWN w \<longleftrightarrow> frm v = frm w"
  by (simp add: word_eq_unat unat_PAGE_ALIGN_DOWN minus_mod_eq_div_mult frm_def)

lemma low_page_page: "0 < g \<Longrightarrow> g < 4096 \<Longrightarrow> low_page (page g)"
  by (simp add: low_page_def unat_page)

lemma page_frm: "unat t mod 4096 = 0 \<Longrightarrow> page (frm t) = t"
proof -
  assume "unat t mod 4096 = 0"
  then have "4096 * (unat t div 4096) = unat t" by auto
  then show ?thesis by (simp add: page_def frm_def)
qed

lemma low_page_frm: "low_page t \<Longrightarrow> page (frm t) = t" "low_page t \<Longrightarrow> 0 < frm t" "low_page t \<Longrightarrow> frm t < 4096"
  by (auto simp: low_page_def frm_def intro!: page_frm [unfolded frm_def])

lemma in_page: "low_page t \<Longrightarrow> unat (x - t) < 4096 \<longleftrightarrow> frm x = frm t"
proof -
  assume t: "low_page t"
  then obtain g where g: "unat t = 4096 * g" "unat t + 4096 \<le> 0x1000000"
    by (auto simp: low_page_def elim!: dvdE simp flip: dvd_eq_mod_eq_0)
  then have fg: "frm t = g" by (simp add: frm_def)
  show ?thesis
  proof (cases "t \<le> x")
    case True
    then have "unat (x - t) = unat x - unat t" "unat t \<le> unat x" by (simp_all add: unat_sub_exact word_le_unat)
    then have "unat (x - t) < 4096 \<longleftrightarrow> unat x < 4096 * g + 4096" "4096 * g \<le> unat x" using g(1) by auto
    moreover have "frm x = g \<longleftrightarrow> 4096 * g \<le> unat x \<and> unat x < 4096 * g + 4096"
      by (auto simp: frm_def)
    ultimately show ?thesis using fg by simp
  next
    case False
    then have lt: "unat x < unat t" by (simp add: word_le_unat)
    then have "unat (t - x) = unat t - unat x" by (simp add: unat_sub_exact word_le_unat)
    moreover have "unat (t - x) + unat (x - t) = 4294967296" using lt by (intro unat_distances) auto
    ultimately have "\<not> unat (x - t) < 4096" using g(2) by linarith
    moreover have "frm x < g" using lt g(1) by (simp add: frm_def less_mult_imp_div_less mult.commute)
    ultimately show ?thesis using fg by simp
  qed
qed

section \<open>Tables\<close>

definition table_frames :: "'a machine_scheme \<Rightarrow> nat set" where
  "table_frames s = frm ` insert (cr3 s) (tables (mem s) (cr3 s))"

lemma tables_low: "paging_ok s \<Longrightarrow> t \<in> insert (cr3 s) (tables (mem s) (cr3 s)) \<Longrightarrow> low_page t"
  using paging_okD(4,7) [of s] dir_wfD(2) [of "mem s" "cr3 s"] by (auto simp: tables_def)

lemma table_frames_used: "paging_ok s \<Longrightarrow> table_frames s \<subseteq> used_set (frames s)"
  using paging_okD(9) [of s] by (auto simp: table_frames_def frm_def)

text \<open>A page that is no table: its address is none either.\<close>

lemma not_table:
  assumes "paging_ok s" "low_page t" "frm t \<notin> table_frames s"
  shows "t \<noteq> cr3 s" "t \<notin> tables (mem s) (cr3 s)"
  using assms by (auto simp: table_frames_def)

lemma alloc_low:
  assumes "pmm_ok p" "unat (total_frames p) \<le> 4096" "fst (pmm_alloc_frame p) \<noteq> 0"
  shows "low_page (fst (pmm_alloc_frame p))"
proof -
  obtain n where n: "first_free p = Some n" using assms(1,3) pmm_alloc_zero_iff by fastforce
  have inv: "pmm_inv p" using assms(1) by (simp add: pmm_ok_def)
  have "unat (fst (pmm_alloc_frame p)) = n * 4096" by (rule pmm_alloc_frame_Some(1) [OF inv n])
  moreover have "n < 4096" using n assms(2) by (auto simp: first_free_Some in_free_set)
  moreover have "n \<noteq> 0" using pmm_ok_first_free [OF assms(1)] n by auto
  ultimately show ?thesis by (simp add: low_page_def)
qed

lemma store_entry_bytes:
  assumes "low_page t" "unat i < 1024" "frm x \<noteq> frm t"
  shows "store32 (entry_at t i) e m x = m x"
proof -
  have "x \<noteq> entry_at t i + word_of_nat k" if "k < 4" for k
  proof
    assume x: "x = entry_at t i + word_of_nat k"
    have "unat x = unat t + 4 * unat i + k" unfolding x using byte_of_entry assms(1,2) that by blast
    moreover obtain g where "unat t = 4096 * g"
      using assms(1) by (auto simp: low_page_def elim!: dvdE simp flip: dvd_eq_mod_eq_0)
    ultimately have "frm x = frm t" using assms(2) that by (simp add: frm_def)
    then show False using assms(3) by simp
  qed
  from this [of 0] this [of 1] this [of 2] this [of 3] show ?thesis by (simp add: store32_def)
qed

lemma memset_page_bytes: "low_page t \<Longrightarrow> memset t v 4096 m x = (if frm x = frm t then v else m x)"
  by (simp add: memset_byte in_page)

section \<open>Frames in use that are no tables\<close>

text \<open>A machine of at most 16 MiB with paging on: every frame the allocator has is identity mapped.\<close>

definition small_ok :: "'a paging_scheme \<Rightarrow> bool" where
  "small_ok s \<longleftrightarrow> paging_ok s \<and> unat (total_frames (frames s)) \<le> 4096"

definition owned :: "'a paging_scheme \<Rightarrow> nat set" where
  "owned s = used_set (frames s) - table_frames s"

lemma small_okD: "small_ok s \<Longrightarrow> paging_ok s" "small_ok s \<Longrightarrow> unat (total_frames (frames s)) \<le> 4096"
  by (simp_all add: small_ok_def)

lemma used_owned: "small_ok s \<Longrightarrow> used_set (frames s) = owned s \<union> table_frames s"
  using table_frames_used [of s] by (auto simp: owned_def small_ok_def)

lemma table_bound: "small_ok s \<Longrightarrow> g \<in> table_frames s \<Longrightarrow> 0 < g \<and> g < 4096"
  using low_page_frm(2,3) tables_low [of s] by (force simp: table_frames_def small_ok_def)

lemma owned_bound: "small_ok s \<Longrightarrow> g \<in> owned s \<Longrightarrow> g < 4096"
  by (auto simp: owned_def small_ok_def used_set_def)

text \<open>
  A frame of the allocator: below 16 MiB, not in use before.
\<close>

lemma small_alloc:
  assumes ok: "small_ok s" and a: "pmm_alloc_frame (frames s) = (t, fr)" "t \<noteq> 0"
  shows "low_page t" "frm t \<notin> used_set (frames s)" "used_set fr = insert (frm t) (used_set (frames s))"
    "pmm_ok fr" "total_frames fr = total_frames (frames s)"
proof -
  note k = paging_okD [OF small_okD(1) [OF ok]]
  show "low_page t" using alloc_low [OF k(6)] a small_okD(2) [OF ok] by simp
  show "frm t \<notin> used_set (frames s)" "used_set fr = insert (frm t) (used_set (frames s))" "pmm_ok fr"
    using pmm_frames.alloc_fresh [OF k(6)] pmm_frames.alloc_used [OF k(6)] pmm_frames.alloc_inv [OF k(6)] a
    by (simp_all add: frm_def)
  show "total_frames fr = total_frames (frames s)" using pmm_alloc_frame_total [of "frames s"] a by simp
qed

text \<open>At most \<open>k\<close> frames are taken.\<close>

definition took :: "nat \<Rightarrow> pmm \<Rightarrow> pmm \<Rightarrow> bool" where
  "took k p q \<longleftrightarrow> total_frames q = total_frames p \<and> card (used_set q) \<le> card (used_set p) + k"

text \<open>The table of a page: there before, or in a frame of its own, or none to be had.\<close>

lemma kernel_table:
  fixes s :: "'a paging_scheme" and va
  defines "d \<equiv> current_directory s" and "i \<equiv> PAGE_DIR_INDEX va"
  assumes ok: "small_ok s"
  obtains (panic) "paging_get_or_create_table d va PAGE_KERNEL s =
      Inl (Panic ''paging_map_page: Out of memory for page table'')" "fst (pmm_alloc_frame (frames s)) = 0"
  | (table) m f where "paging_get_or_create_table d va PAGE_KERNEL s =
        Inr (table_of m d i, s\<lparr>mem := m, frames := f\<rparr>)"
      "small_ok (s\<lparr>mem := m, frames := f\<rparr>)" "present (pde m d i)"
      "\<And>v. walk m d v = walk (mem s) d v"
      "table_frames s \<subseteq> table_frames (s\<lparr>mem := m, frames := f\<rparr>)" "owned (s\<lparr>mem := m, frames := f\<rparr>) = owned s"
      "\<And>x. frm x \<notin> table_frames (s\<lparr>mem := m, frames := f\<rparr>) \<Longrightarrow> m x = mem s x"
      "took 1 (frames s) f"
proof -
  note pok = small_okD(1) [OF ok] and ib = index_bounds(1) [of va]
  note k = paging_okD [OF pok]
  show thesis
  proof (cases "present (pde (mem s) d i)")
    case True
    have "paging_get_or_create_table d va PAGE_KERNEL s = Inr (table_of (mem s) d i, s)"
      using use_table(1) [OF pok, of va PAGE_KERNEL] True by (simp add: d_def i_def)
    then show thesis using True ok by (intro table [of "mem s" "frames s"]) (simp_all add: took_def)
  next
    case False
    obtain t fr where a: "pmm_alloc_frame (frames s) = (t, fr)" by (cases "pmm_alloc_frame (frames s)")
    have ld: "vload32 s (entry_at d i) = Inr (pde (mem s) d i)"
      using vload32_low [OF paging_ok_low_access [OF pok] _ ib] k(2,7) by (simp add: d_def i_def)
    show thesis
    proof (cases "t = 0")
      case True
      then show thesis using ld False a
        by (intro panic) (simp_all add: paging_get_or_create_table_def d_def i_def)
    next
      case t0: False
      note sa = small_alloc [OF ok a t0]
      let ?m = "store32 (entry_at d i) (t OR 3) (memset t 0 4096 (mem s))"
      let ?s = "s\<lparr>mem := ?m, frames := fr\<rparr>"
      have e: "present (t OR 3)" "PAGE_FRAME (t OR 3) = t"
        using sa(1) by (simp_all add: present_or present_flags flag_entry)
      have fr: "t \<noteq> cr3 s" "t \<notin> tables (mem s) (cr3 s)" using fresh_frame [OF pok] a t0 by simp_all
      note nt = new_table [OF k(4) sa(1) fr ib _ e, unfolded k(2), folded d_def i_def, OF False]
      have tab: "table_frames ?s = insert (frm t) (table_frames s)"
        using nt(3) k(2) by (auto simp: table_frames_def d_def)
      have "paging_ok ?s" using nt(1-3) k sa(3,4) by (auto simp: paging_ok_def low_identity_def frm_def d_def)
      then have "small_ok ?s" using sa(5) ok by (simp add: small_ok_def)
      moreover have "paging_get_or_create_table d va PAGE_KERNEL s = Inr (table_of ?m d i, ?s)"
        using create_table [OF pok False [unfolded d_def i_def] a t0 sa(1), of PAGE_KERNEL] e(2)
        by (simp add: d_def i_def table_of_def)
      moreover have "owned ?s = owned s" using tab sa(2,3) by (auto simp: owned_def)
      moreover have "?m x = mem s x" if "frm x \<notin> table_frames ?s" for x
      proof -
        have "frm x \<noteq> frm t" "frm x \<noteq> frm d" using that [unfolded tab] k(2)
          by (auto simp: table_frames_def d_def)
        then show ?thesis
          using store_entry_bytes [of d i x] ib k(2,7) memset_page_bytes [OF sa(1)] by (simp add: d_def i_def)
      qed
      ultimately show thesis using nt(1) e(1) tab sa(2,3,5) by (intro table [of ?m fr]) (auto simp: took_def)
    qed
  qed
qed

text \<open>Clearing a page through the memory management unit clears its frame.\<close>

lemma memset_mapped:
  fixes s :: "'a paging_scheme" and va t :: u32
  assumes ok: "small_ok s" and t: "low_page t" "frm t \<notin> table_frames s" and va: "unat va mod 4096 = 0" "unat va + 4096 < 4294967296"
    and w: "\<And>v. PAGE_ALIGN_DOWN v = va \<Longrightarrow> walk (mem s) (current_directory s) v = Some (t OR PAGE_OFFSET v)"
  shows "memset_paging va b 4096 s = Inr (s\<lparr>mem := memset t b 4096 (mem s)\<rparr>)"
proof -
  note k = paging_okD [OF small_okD(1) [OF ok]] and nt = not_table [OF small_okD(1) [OF ok] t]
  have tr: "translate (s\<lparr>mem := m\<rparr>) v = walk (mem s) (current_directory s) v" if "same_but t (mem s) m" for m v
    using page_elsewhere(1) [OF that k(4) t(1) nt] k(1,2,8) by (simp add: translate_def)
  have run: "memset_paging p b n (s\<lparr>mem := m\<rparr>) = Inr (s\<lparr>mem := memset q b n m\<rparr>)"
    if "same_but t (mem s) m" "unat p = unat va + j" "unat q = unat t + j" "j + unat n = 4096" for p q n m j
    using that
  proof (induction "unat n" arbitrary: p q n m j)
    case 0
    then have "n = 0" by (simp add: unat_eq_0)
    then show ?case by (simp add: memset_paging.simps [of p b 0] memset.simps [of q b 0 m])
  next
    case (Suc l)
    have n: "n \<noteq> 0" using Suc.hyps(2) by auto
    then have l: "unat (n - 1) = l" using Suc.hyps(2) by (simp add: unat_dec)
    have j: "j < 4096" using Suc.prems(4) Suc.hyps(2) by simp
    have "unat (PAGE_ALIGN_DOWN p) = unat va"
      using Suc.prems(2) va j by (auto simp: unat_PAGE_ALIGN_DOWN)
    then have "translate (s\<lparr>mem := m\<rparr>) p = Some (t OR PAGE_OFFSET p)"
      using tr [OF Suc.prems(1)] w [of p] by (simp add: word_eq_unat)
    moreover have "t OR PAGE_OFFSET p = q"
    proof -
      have "PAGE_OFFSET p = PAGE_OFFSET q"
        using Suc.prems(2,3) va(1) t(1) by (simp add: word_eq_unat unat_PAGE_OFFSET low_page_def mod_add_left_eq [symmetric])
      moreover have "PAGE_ALIGN_DOWN q = t"
        using Suc.prems(3) t(1) j by (auto simp: word_eq_unat unat_PAGE_ALIGN_DOWN low_page_def)
      ultimately show ?thesis using page_join [of q] by simp
    qed
    ultimately have st: "vstore8 p b (s\<lparr>mem := m\<rparr>) = Inr (s\<lparr>mem := store8 q b m\<rparr>)"
      by (simp add: vstore8_def)
    have "unat (q - t) < 4096" using in_page [OF t(1), of q] Suc.prems(3) j t(1) by (auto simp: frm_def low_page_def)
    then have "same_but t (mem s) (store8 q b m)" using Suc.prems(1) by (auto simp: same_but_def store8_def)
    moreover have "unat (p + 1) = unat va + (j + 1)" "unat (q + 1) = unat t + (j + 1)"
      using Suc.prems(2,3) va j t(1) by (simp_all add: unat_add_exact low_page_def)
    moreover have "(j + 1) + unat (n - 1) = 4096" using Suc.prems(4) Suc.hyps(2) l by simp
    ultimately show ?case using Suc.hyps(1) [OF l [symmetric]] n st
      by (simp add: memset_paging.simps [of p b n] memset.simps [of q b n m])
  qed
  have "memset_paging va b 4096 (s\<lparr>mem := mem s\<rparr>) = Inr (s\<lparr>mem := memset t b 4096 (mem s)\<rparr>)"
    by (rule run [where j = 0]) (simp_all add: same_but_def)
  then show ?thesis by simp
qed

text \<open>Writing one entry of a table that is there.\<close>

lemma kernel_entry:
  fixes s :: "'a paging_scheme" and va e :: u32 and c
  defines "d \<equiv> current_directory s" and "i \<equiv> PAGE_DIR_INDEX va"
  defines "s' \<equiv> s\<lparr>mem := store32 (entry_at (table_of (mem s) d i) (PAGE_TABLE_INDEX va)) e (mem s), tlb := c\<rparr>"
  assumes ok: "small_ok s" and va: "0x1000000 \<le> unat va" and here: "present (pde (mem s) d i)"
  shows "vstore32 (entry_at (table_of (mem s) d i) (PAGE_TABLE_INDEX va)) e s = Inr (s\<lparr>mem := mem s'\<rparr>)"
    "small_ok s'" "table_frames s' = table_frames s" "owned s' = owned s"
    "walk (mem s') d v = (if frm v = frm va
       then (if present e then Some (PAGE_FRAME e OR PAGE_OFFSET v) else None) else walk (mem s) d v)"
    "frm x \<notin> table_frames s \<Longrightarrow> mem s' x = mem s x"
proof -
  note pok = small_okD(1) [OF ok] and ib = index_bounds [of va]
  note k = paging_okD [OF pok] and sp = set_pte [OF pok here [unfolded d_def i_def], where e = e, folded d_def i_def]
  show "vstore32 (entry_at (table_of (mem s) d i) (PAGE_TABLE_INDEX va)) e s = Inr (s\<lparr>mem := mem s'\<rparr>)"
    using sp(1) by (simp add: s'_def)
  have "paging_ok s'" using sp(3) [OF va] by (simp add: s'_def)
  then show "small_ok s'" using ok by (simp add: small_ok_def s'_def)
  have "tables (mem s') (cr3 s') = tables (mem s) (cr3 s)"
    using store_pte(3) [OF k(4), of va e] here k(2) by (simp add: s'_def d_def i_def)
  then show tf: "table_frames s' = table_frames s" by (simp add: table_frames_def s'_def)
  then show "owned s' = owned s" by (simp add: owned_def s'_def)
  show "walk (mem s') d v = (if frm v = frm va
       then (if present e then Some (PAGE_FRAME e OR PAGE_OFFSET v) else None) else walk (mem s) d v)"
    using sp(2) by (simp add: s'_def same_frame)
  assume x: "frm x \<notin> table_frames s"
  have T: "table_of (mem s) d i \<in> tables (mem s) (cr3 s)"
    using here ib(1) k(2) by (auto simp: tables_def d_def i_def)
  then have "frm x \<noteq> frm (table_of (mem s) d i)" "low_page (table_of (mem s) d i)"
    using x tables_low [OF pok] by (auto simp: table_frames_def)
  then show "mem s' x = mem s x" using store_entry_bytes ib(2) by (simp add: s'_def)
qed

lemma map_kernel_page:
  fixes s :: "'a paging_scheme"
  assumes ok: "small_ok s" and va: "0x1000000 \<le> unat va"
  obtains (panic) "paging_map_page va pa PAGE_KERNEL s =
      Inl (Panic ''paging_map_page: Out of memory for page table'')" "fst (pmm_alloc_frame (frames s)) = 0"
  | (mapped) m f c where "paging_map_page va pa PAGE_KERNEL s = Inr (s\<lparr>mem := m, frames := f, tlb := c\<rparr>)"
      "small_ok (s\<lparr>mem := m, frames := f, tlb := c\<rparr>)"
      "\<And>v. walk m (current_directory s) v = (if frm v = frm va then Some (PAGE_FRAME pa OR PAGE_OFFSET v)
         else walk (mem s) (current_directory s) v)"
      "table_frames s \<subseteq> table_frames (s\<lparr>mem := m, frames := f, tlb := c\<rparr>)"
      "owned (s\<lparr>mem := m, frames := f, tlb := c\<rparr>) = owned s"
      "\<And>x. frm x \<notin> table_frames (s\<lparr>mem := m, frames := f, tlb := c\<rparr>) \<Longrightarrow> m x = mem s x"
      "took 1 (frames s) f"
proof -
  let ?d = "current_directory s" and ?i = "PAGE_DIR_INDEX va"
  note k = paging_okD [OF small_okD(1) [OF ok]]
  show thesis
  proof (rule kernel_table [OF ok, of va])
    assume "paging_get_or_create_table ?d va PAGE_KERNEL s =
      Inl (Panic ''paging_map_page: Out of memory for page table'')" "fst (pmm_alloc_frame (frames s)) = 0"
    then show thesis using k(3) by (intro panic) (simp_all add: paging_map_page_def paging_map_page_in_directory_def)
  next
    fix m f
    let ?s = "s\<lparr>mem := m, frames := f\<rparr>" and ?e = "(pa AND 0xFFFFF000) OR (PAGE_KERNEL AND 0xFFF)"
    let ?c = "(tlb s)(PAGE_ALIGN_DOWN va := None)"
    assume tab: "paging_get_or_create_table ?d va PAGE_KERNEL s = Inr (table_of m ?d ?i, ?s)"
      and s: "small_ok ?s" "present (pde m ?d ?i)" "\<And>v. walk m ?d v = walk (mem s) ?d v"
        "table_frames s \<subseteq> table_frames ?s" "owned ?s = owned s"
        "\<And>x. frm x \<notin> table_frames ?s \<Longrightarrow> m x = mem s x" "took 1 (frames s) f"
    define e where "e = ?e"
    then have e: "pa AND 0xFFFFF000 OR 3 = e" by simp
    have E: "present e" "PAGE_FRAME e = PAGE_FRAME pa"
      using frame_entry [of pa PAGE_KERNEL] by (simp_all add: e_def present_flags)
    let ?m = "store32 (entry_at (table_of m ?d ?i) (PAGE_TABLE_INDEX va)) e m"
    note en = kernel_entry [OF s(1) va, where e = e and c = ?c, simplified, OF s(2)]
    have "low_page (table_of m ?d ?i)"
      using dir_wfD(2) [OF paging_okD(4) [OF small_okD(1) [OF s(1)]] index_bounds(1) [of va]] s(2) k(2) by simp
    then have nn: "table_of m ?d ?i \<noteq> NULL" by (auto simp: low_page_def)
    show thesis
    proof (rule mapped [where m = ?m and f = f and c = ?c])
      show "paging_map_page va pa PAGE_KERNEL s = Inr (s\<lparr>mem := ?m, frames := f, tlb := ?c\<rparr>)"
        using tab en(1) nn k(3)
        by (simp add: paging_map_page_def paging_map_page_in_directory_def paging_flush_tlb_def e)
    qed (use en s E in simp_all)
  qed
qed

text \<open>Unmapping a page and giving its frame back.\<close>

lemma unmap_kernel_page:
  fixes s :: "'a paging_scheme"
  assumes ok: "small_ok s" and va: "0x1000000 \<le> unat va" and g: "g \<in> owned s" "0 < g"
    and w: "walk (mem s) (current_directory s) va = Some (page g)"
  obtains m c where "paging_unmap_page va s = Inr (s\<lparr>mem := m, tlb := c\<rparr>)"
    "small_ok (s\<lparr>mem := m, tlb := c, frames := pmm_free_frame (page g) (frames s)\<rparr>)"
    "\<And>v. walk m (current_directory s) v =
       (if frm v = frm va then None else walk (mem s) (current_directory s) v)"
    "table_frames (s\<lparr>mem := m, tlb := c, frames := pmm_free_frame (page g) (frames s)\<rparr>) = table_frames s"
    "owned (s\<lparr>mem := m, tlb := c, frames := pmm_free_frame (page g) (frames s)\<rparr>) = owned s - {g}"
    "\<And>x. frm x \<notin> table_frames s \<Longrightarrow> m x = mem s x"
proof -
  let ?d = "current_directory s" and ?i = "PAGE_DIR_INDEX va" and ?c = "(tlb s)(PAGE_ALIGN_DOWN va := None)"
  let ?m = "store32 (entry_at (table_of (mem s) ?d ?i) (PAGE_TABLE_INDEX va)) 0 (mem s)"
  let ?fr = "pmm_free_frame (page g) (frames s)"
  let ?s = "s\<lparr>mem := ?m, tlb := ?c\<rparr>"
  note pok = small_okD(1) [OF ok]
  note k = paging_okD [OF pok]
  have here: "present (pde (mem s) ?d ?i)" using w by (simp add: walk_eq split: if_splits)
  note en = kernel_entry [OF ok va here, where e = 0 and c = ?c]
  have low: "low_page ?d" using k(2,7) by simp
  have un: "paging_unmap_page va s = Inr ?s"
    using en(1) here k(3) vload32_low [OF paging_ok_low_access [OF pok] low index_bounds(1) [of va]]
    by (simp add: paging_unmap_page_def paging_unmap_page_in_directory_def table_of_def paging_flush_tlb_def)
  have g': "unat (page g) div 4096 = g" using owned_bound [OF ok g(1)] by (simp add: unat_page)
  have fr: "pmm_ok ?fr" "used_set ?fr = used_set (frames s) - {g}"
    using pmm_frames.release_inv [OF k(6), of "page g"] pmm_frames.release_used [OF k(6), of "page g"] g(2)
    by (simp_all add: g')
  have notab: "g \<notin> table_frames s" using g(1) by (simp add: owned_def)
  have tf: "table_frames (s\<lparr>mem := ?m, tlb := ?c, frames := ?fr\<rparr>) = table_frames s"
    using en(3) by (simp add: table_frames_def)
  have "paging_ok ?s" by (rule small_okD(1) [OF en(2)])
  then have "paging_ok (s\<lparr>mem := ?m, tlb := ?c, frames := ?fr\<rparr>)"
    using fr notab en(3) by (auto simp: paging_ok_def table_frames_def frm_def)
  then have "small_ok (s\<lparr>mem := ?m, tlb := ?c, frames := ?fr\<rparr>)" using ok by (simp add: small_ok_def)
  moreover have "owned (s\<lparr>mem := ?m, tlb := ?c, frames := ?fr\<rparr>) = owned s - {g}"
    using tf fr(2) by (auto simp: owned_def)
  ultimately show thesis using un tf en(5,6)
    by (intro that [where m = ?m and c = ?c]) (simp_all add: present_flags)
qed

text \<open>Writes outside the directory and its tables change no translation.\<close>

lemma entry_byte_frm:
  assumes "low_page t" "unat i < 1024" "k < 4"
  shows "frm (entry_at t i + word_of_nat k) = frm t"
proof -
  obtain g where "unat t = 4096 * g"
    using assms(1) by (auto simp: low_page_def elim!: dvdE simp flip: dvd_eq_mod_eq_0)
  then show ?thesis using byte_of_entry [OF assms] assms(2,3) by (simp add: frm_def)
qed

lemma bytes_elsewhere:
  fixes s :: "'a paging_scheme"
  assumes ok: "small_ok s" and m: "\<And>x. frm x \<in> table_frames s \<Longrightarrow> m x = mem s x"
  shows "walk m (current_directory s) v = walk (mem s) (current_directory s) v" "small_ok (s\<lparr>mem := m\<rparr>)"
    "table_frames (s\<lparr>mem := m\<rparr>) = table_frames s" "owned (s\<lparr>mem := m\<rparr>) = owned s"
proof -
  note pok = small_okD(1) [OF ok]
  note k = paging_okD [OF pok]
  have ent: "load32 m (entry_at t j) = load32 (mem s) (entry_at t j)"
    if "t \<in> insert (cr3 s) (tables (mem s) (cr3 s))" "unat j < 1024" for t j
  proof -
    have "m (entry_at t j + word_of_nat n) = mem s (entry_at t j + word_of_nat n)" if "n < 4" for n
      using m entry_byte_frm [OF tables_low [OF pok \<open>t \<in> _\<close>] \<open>unat j < 1024\<close> that] \<open>t \<in> _\<close>
      by (auto simp: table_frames_def)
    from this [of 0] this [of 1] this [of 2] this [of 3] show ?thesis by (simp add: load32_def)
  qed
  have pde: "pde m (cr3 s) i = pde (mem s) (cr3 s) i" if "unat i < 1024" for i using ent that by simp
  have w: "walk m (cr3 s) v = walk (mem s) (cr3 s) v" for v
    by (rule walk_cong) (auto intro!: ent simp: tables_def)
  then show "walk m (current_directory s) v = walk (mem s) (current_directory s) v" using k(2) by simp
  have t: "tables m (cr3 s) = tables (mem s) (cr3 s)" using pde by (intro tables_cong) (simp_all add: table_of_def)
  then show "table_frames (s\<lparr>mem := m\<rparr>) = table_frames s" by (simp add: table_frames_def)
  then show "owned (s\<lparr>mem := m\<rparr>) = owned s" by (simp add: owned_def)
  have "paging_ok (s\<lparr>mem := m\<rparr>)"
    using k dir_wf_cong [OF pde] w t by (auto simp: paging_ok_def low_identity_def)
  then show "small_ok (s\<lparr>mem := m\<rparr>)" using ok by (simp add: small_ok_def)
qed

section \<open>Runs of backed pages\<close>

text \<open>
  From page number \<open>b\<close> on, \<open>j\<close> pages are unmapped and the next ones are backed by the frames \<open>G\<close>,
  which nothing else owns; the frames \<open>A\<close> have the contents \<open>M\<close>, the other pages translate by \<open>W\<close>,
  and the frames \<open>T\<close> are still tables.
\<close>

definition backed ::
  "nat set \<Rightarrow> (u32 \<Rightarrow> u32 option) \<Rightarrow> memory \<Rightarrow> nat set \<Rightarrow> nat \<Rightarrow> nat \<Rightarrow> nat list \<Rightarrow> 'a paging_scheme \<Rightarrow> bool" where
  "backed A W M T b j G s \<longleftrightarrow> small_ok s \<and> owned s = A \<union> set G \<and> A \<inter> set G = {} \<and> distinct G \<and> 0 \<notin> set G \<and>
     T \<subseteq> table_frames s \<and> (\<forall>x. frm x \<in> A \<longrightarrow> mem s x = M x) \<and>
     (\<forall>v. walk (mem s) (current_directory s) v =
        (if b \<le> frm v \<and> frm v < b + j then None
         else if b + j \<le> frm v \<and> frm v < b + j + length G
         then Some (page (G ! (frm v - b - j)) OR PAGE_OFFSET v) else W v))"

lemma backedD:
  assumes "backed A W M T b j G s"
  shows "small_ok s" "owned s = A \<union> set G" "A \<inter> set G = {}" "distinct G" "0 \<notin> set G" "T \<subseteq> table_frames s"
    "frm x \<in> A \<Longrightarrow> mem s x = M x"
    "walk (mem s) (current_directory s) v =
        (if b \<le> frm v \<and> frm v < b + j then None
         else if b + j \<le> frm v \<and> frm v < b + j + length G
         then Some (page (G ! (frm v - b - j)) OR PAGE_OFFSET v) else W v)"
  using assms unfolding backed_def by auto

lemma backed_start:
  "small_ok s \<Longrightarrow> backed (owned s) (walk (mem s) (current_directory s)) (mem s) (table_frames s) b 0 [] s"
  by (auto simp: backed_def)

lemma page_offset_0 [simp]: "n < 1048576 \<Longrightarrow> PAGE_OFFSET (page n) = 0"
  by (simp add: word_eq_unat unat_PAGE_OFFSET unat_page)

text \<open>The last page of the run comes in, cleared.\<close>

lemma backed_page_in:
  fixes s :: "'a paging_scheme"
  assumes run: "backed A W M T b j G s" and b: "4096 \<le> b" "b + j + length G < 1048575"
    and a: "pmm_alloc_frame (frames s) = (t, fr)" "t \<noteq> 0"
  defines "va \<equiv> page (b + j + length G)"
  obtains (panic) "paging_map_page va t PAGE_KERNEL (s\<lparr>frames := fr\<rparr>) =
      Inl (Panic ''paging_map_page: Out of memory for page table'')" "fst (pmm_alloc_frame fr) = 0"
  | (mapped) s1 m f c where "paging_map_page va t PAGE_KERNEL (s\<lparr>frames := fr\<rparr>) = Inr s1"
      "vmalloc_memset va 0 PAGE_SIZE s1 = Inr (s\<lparr>mem := m, frames := f, tlb := c\<rparr>)"
      "backed A W M T b j (G @ [frm t]) (s\<lparr>mem := m, frames := f, tlb := c\<rparr>)"
      "\<And>x. frm x \<in> set G \<Longrightarrow> m x = mem s x" "\<And>x. frm x = frm t \<Longrightarrow> m x = 0"
      "took 2 (frames s) f"
proof -
  note r = backedD [OF run]
  note sa = small_alloc [OF r(1) a] and pok = small_okD(1) [OF r(1)]
  let ?s = "s\<lparr>frames := fr\<rparr>" and ?d = "current_directory s"
  have va: "unat va = 4096 * (b + j + length G)" "frm va = b + j + length G" "0x1000000 \<le> unat va"
    using b by (simp_all add: va_def unat_page)
  have tf: "table_frames ?s = table_frames s" by (simp add: table_frames_def)
  have "paging_ok ?s" using pok sa(3,4) by (auto simp: paging_ok_def)
  then have ok: "small_ok ?s" using sa(5) r(1) by (simp add: small_ok_def)
  have tn: "frm t \<notin> table_frames s" using sa(2) table_frames_used [OF pok] by auto
  then have ow: "owned ?s = insert (frm t) (A \<union> set G)" using r(2) sa(3) tf by (auto simp: owned_def)
  show thesis
  proof (rule map_kernel_page [OF ok va(3), of t])
    assume "paging_map_page va t PAGE_KERNEL ?s = Inl (Panic ''paging_map_page: Out of memory for page table'')"
      "fst (pmm_alloc_frame (frames ?s)) = 0"
    then show thesis by (intro panic) simp_all
  next
    fix m f c
    let ?s1 = "?s\<lparr>mem := m, frames := f, tlb := c\<rparr>" and ?m = "memset t 0 4096 m"
    let ?s2 = "s\<lparr>mem := ?m, frames := f, tlb := c\<rparr>"
    assume map: "paging_map_page va t PAGE_KERNEL ?s = Inr ?s1" and s1: "small_ok ?s1"
      and w: "\<And>v. walk m (current_directory ?s) v = (if frm v = frm va then Some (PAGE_FRAME t OR PAGE_OFFSET v)
         else walk (mem ?s) (current_directory ?s) v)"
      and t1: "table_frames ?s \<subseteq> table_frames ?s1" and o1: "owned ?s1 = owned ?s"
      and bytes: "\<And>x. frm x \<notin> table_frames ?s1 \<Longrightarrow> m x = mem ?s x"
      and room: "took 1 (frames ?s) f"
    have nt: "frm t \<notin> table_frames ?s1" using o1 ow by (auto simp: owned_def)
    have al: "frm v = frm va" if "PAGE_ALIGN_DOWN v = va" for v
      using same_frame [of v va] that va(1) by (simp add: word_eq_unat unat_PAGE_ALIGN_DOWN)
    have clr: "memset_paging va 0 4096 ?s1 = Inr (?s1\<lparr>mem := ?m\<rparr>)"
      using memset_mapped [OF s1 sa(1) nt, of va 0] w al sa(1) b va(1) by simp
    have tb: "?m x = mem ?s1 x" if "frm x \<in> table_frames ?s1" for x
      using that nt memset_page_bytes [OF sa(1)] by auto
    note e = bytes_elsewhere [OF s1, where m = ?m, OF tb]
    have own: "owned (?s1\<lparr>mem := ?m\<rparr>) = insert (frm t) (A \<union> set G)" using e(4) o1 ow by simp
    have old: "?m x = mem s x" if "frm x \<in> A \<union> set G" for x
    proof -
      have "frm x \<in> owned s" using that r(2) by simp
      then have "frm x \<noteq> frm t" "frm x \<notin> table_frames ?s1"
        using sa(2) o1 ow that by (auto simp: owned_def)
      then show ?thesis using memset_page_bytes [OF sa(1)] bytes by simp
    qed
    have fresh: "frm t \<notin> A \<union> set G" using sa(2) r(2) by (auto simp: owned_def)
    have wk: "walk ?m ?d v = (if b \<le> frm v \<and> frm v < b + j then None
         else if b + j \<le> frm v \<and> frm v < b + j + length (G @ [frm t])
         then Some (page ((G @ [frm t]) ! (frm v - b - j)) OR PAGE_OFFSET v) else W v)" for v
      using e(1) [of v] w [of v] r(8) [of v] va(2) sa(1) low_page_frm(1) [OF sa(1)]
      by (auto simp: nth_append)
    have eq: "?s1\<lparr>mem := ?m\<rparr> = ?s2" by (cases s) simp
    have "backed A W M T b j (G @ [frm t]) (?s1\<lparr>mem := ?m\<rparr>)"
      unfolding backed_def using e(2,3) own old r(3-7) t1 tf fresh wk low_page_frm(2) [OF sa(1)] by auto
    then have "backed A W M T b j (G @ [frm t]) ?s2" by (simp only: eq)
    moreover have "vmalloc_memset va 0 PAGE_SIZE ?s1 = Inr ?s2" by (simp only: vmalloc_memset_def clr eq)
    moreover have "took 2 (frames s) f" using room sa(2,3,5) by (simp add: took_def)
    ultimately show thesis using map old memset_page_bytes [OF sa(1)]
      by (intro mapped [where m = ?m and f = f and c = c]) auto
  qed
qed

text \<open>The first page of the run goes out.\<close>

lemma backed_page_out:
  fixes s :: "'a paging_scheme"
  assumes run: "backed A W M T b j (g # G) s" and b: "4096 \<le> b" "b + j < 1048576"
  obtains m c where "paging_get_physical (page (b + j)) s = Inr (page g)" "page g \<noteq> 0"
    "paging_unmap_page (page (b + j)) s = Inr (s\<lparr>mem := m, tlb := c\<rparr>)"
    "backed A W M T b (Suc j) G (s\<lparr>mem := m, tlb := c, frames := pmm_free_frame (page g) (frames s)\<rparr>)"
proof -
  note r = backedD [OF run]
  let ?va = "page (b + j)" and ?d = "current_directory s" and ?fr = "pmm_free_frame (page g) (frames s)"
  have va: "frm ?va = b + j" "0x1000000 \<le> unat ?va" "PAGE_OFFSET ?va = 0" using b by (simp_all add: unat_page)
  have g: "g \<in> owned s" "0 < g" using r(2,5) by auto
  have w: "walk (mem s) ?d ?va = Some (page g)" using r(8) [of ?va] va by simp
  have "page g \<noteq> 0" using g owned_bound [OF r(1) g(1)] unat_page [of g] by (auto simp: word_eq_unat)
  moreover have "paging_get_physical ?va s = Inr (page g)" using get_physical_walk(1) [OF small_okD(1) [OF r(1)]] w by simp
  moreover obtain m c where u: "paging_unmap_page ?va s = Inr (s\<lparr>mem := m, tlb := c\<rparr>)"
    "small_ok (s\<lparr>mem := m, tlb := c, frames := ?fr\<rparr>)"
    "\<And>v. walk m ?d v = (if frm v = frm ?va then None else walk (mem s) ?d v)"
    "table_frames (s\<lparr>mem := m, tlb := c, frames := ?fr\<rparr>) = table_frames s"
    "owned (s\<lparr>mem := m, tlb := c, frames := ?fr\<rparr>) = owned s - {g}"
    "\<And>x. frm x \<notin> table_frames s \<Longrightarrow> m x = mem s x"
    using unmap_kernel_page [OF r(1) va(2) g w] by metis
  moreover have "m x = M x" if "frm x \<in> A" for x
  proof -
    have "frm x \<in> owned s" using that r(2) by simp
    then show ?thesis using that r(7) u(6) by (simp add: owned_def)
  qed
  moreover have "walk m ?d v = (if b \<le> frm v \<and> frm v < b + Suc j then None
         else if b + Suc j \<le> frm v \<and> frm v < b + Suc j + length G
         then Some (page (G ! (frm v - b - Suc j)) OR PAGE_OFFSET v) else W v)" for v
  proof (cases "frm v = b + j")
    case True
    then show ?thesis using u(3) [of v] va by simp
  next
    case False
    moreover have "(g # G) ! (frm v - b - j) = G ! (frm v - b - Suc j)" if "b + j < frm v"
      using that by (simp add: nth_Cons')
    ultimately show ?thesis using u(3) [of v] va r(8) [of v] by auto
  qed
  moreover have "owned s - {g} = A \<union> set G" using r(2-4) by auto
  ultimately have "backed A W M T b (Suc j) G (s\<lparr>mem := m, tlb := c, frames := ?fr\<rparr>)"
    unfolding backed_def using r(3-6) by auto
  then show thesis using that [where m = m and c = c] u(1) \<open>page g \<noteq> 0\<close> \<open>paging_get_physical ?va s = _\<close> by blast
qed

text \<open>The page an index of the loops names.\<close>

lemma page_index: "b + unat i < 1048576 \<Longrightarrow> page b + i * 4096 = page (b + unat i)"
proof -
  assume "b + unat i < 1048576"
  then have "unat (page b) = 4096 * b" "unat (i * 4096) = unat i * 4096" "4096 * b + unat i * 4096 < 4294967296"
    "unat (page (b + unat i)) = 4096 * (b + unat i)"
    by (simp_all add: unat_page unat_mult_exact)
  then show ?thesis by (simp add: word_eq_unat unat_add_exact)
qed

text \<open>Only memory, the frames and the cached translations may differ.\<close>

definition only_pages :: "'a machine_scheme \<Rightarrow> 'a machine_scheme \<Rightarrow> bool" where
  "only_pages s s' \<longleftrightarrow> (\<exists>m f c. s' = s\<lparr>mem := m, frames := f, tlb := c\<rparr>)"

lemma only_pages_refl: "only_pages s s"
  unfolding only_pages_def by (intro exI [of _ "mem s"] exI [of _ "frames s"] exI [of _ "tlb s"]) simp

lemma only_pages_trans: "only_pages s s1 \<Longrightarrow> only_pages s1 s2 \<Longrightarrow> only_pages s s2"
  by (cases s) (auto simp: only_pages_def)

lemma only_pages_upd: "only_pages s (s\<lparr>mem := m, frames := f, tlb := c\<rparr>)"
    "only_pages s (s\<lparr>mem := m, tlb := c, frames := f\<rparr>)" "only_pages s (s\<lparr>frames := f\<rparr>)"
  by (cases s; auto simp: only_pages_def)+

text \<open>Taking a whole run back.\<close>

lemma unmap_mapped_effect:
  fixes s :: "'a paging_scheme"
  assumes "backed A W M T b (unat j) G s" "4096 \<le> b" "b + unat i < 1048576" "unat i = unat j + length G"
  shows "\<exists>s'. unmap_mapped (page b) i j s = Inr s' \<and> only_pages s s' \<and> backed A W M T b (unat i) [] s'"
  using assms
proof (induction G arbitrary: j s)
  case Nil
  then have "i = j" by (simp add: word_eq_unat)
  then show ?case using Nil.prems(1) only_pages_refl by (simp add: unmap_mapped.simps [of _ _ j])
next
  case (Cons g G)
  have j: "j < i" "unat (j + 1) = Suc (unat j)" using Cons.prems(3,4) by (simp_all add: word_less_nat_alt unat_add_exact)
  have bj: "b + unat j < 1048576" using Cons.prems(3,4) by simp
  obtain m c where p: "paging_get_physical (page (b + unat j)) s = Inr (page g)"
    "paging_unmap_page (page (b + unat j)) s = Inr (s\<lparr>mem := m, tlb := c\<rparr>)"
    "backed A W M T b (unat (j + 1)) G (s\<lparr>mem := m, tlb := c, frames := pmm_free_frame (page g) (frames s)\<rparr>)"
    using backed_page_out [OF Cons.prems(1,2) bj] j(2) by metis
  let ?s = "s\<lparr>mem := m, tlb := c, frames := pmm_free_frame (page g) (frames s)\<rparr>"
  obtain s' where r: "unmap_mapped (page b) i (j + 1) ?s = Inr s'" "only_pages ?s s'"
    "backed A W M T b (unat i) [] s'"
    using Cons.IH [OF p(3) Cons.prems(2,3)] j(2) Cons.prems(4) by auto
  have "unmap_mapped (page b) i j s = Inr s'"
    using p(1,2) r(1) j(1) page_index [OF bj] by (simp add: unmap_mapped.simps [of _ _ j])
  then show ?case using r only_pages_trans [OF only_pages_upd(2) r(2)] by blast
qed

text \<open>
  Too few frames for \<open>n\<close> more pages, with a table for each. The search for a frame looks at whole
  bytes of the bitmap, so this says something when the number of frames is a multiple of eight.
\<close>

definition cramped :: "pmm \<Rightarrow> nat \<Rightarrow> bool" where
  "cramped p n \<longleftrightarrow> \<not> (8 dvd unat (total_frames p) \<and> card (used_set p) + 2 * n \<le> unat (total_frames p))"

lemma alloc_zero_full:
  assumes "pmm_ok p" "fst (pmm_alloc_frame p) = 0" "8 dvd unat (total_frames p)"
  shows "unat (total_frames p) \<le> card (used_set p)"
proof -
  have "first_free p = None" using assms(1,2) pmm_alloc_zero_iff by blast
  then have "free_set p = {}" using assms(3) by (auto simp: first_free_None free_set_def)
  then have "{0..<unat (total_frames p)} \<subseteq> used_set p" by (auto simp: free_set_def)
  from card_mono [OF finite_used_set this] show ?thesis by simp
qed

text \<open>The loop of \<open>vmalloc\<close>: out of table frames, out of frames with everything taken back, or done.\<close>

lemma map_pages_effect:
  fixes s :: "'a paging_scheme"
  assumes "backed A W M T b 0 G s" "4096 \<le> b" "b + unat n < 1048575" "unat i = length G" "length G \<le> unat n"
    and "\<And>x. frm x \<in> set G \<Longrightarrow> mem s x = 0"
  shows "cramped (frames s) (unat n - unat i) \<and>
      map_pages (page b) n i s = Inl (Panic ''paging_map_page: Out of memory for page table'') \<or>
    cramped (frames s) (unat n - unat i) \<and>
      (\<exists>k s'. map_pages (page b) n i s = Inr (False, s') \<and> only_pages s s' \<and> k < unat n \<and> backed A W M T b k [] s') \<or>
    (\<exists>G s'. map_pages (page b) n i s = Inr (True, s') \<and> only_pages s s' \<and> length G = unat n \<and>
       backed A W M T b 0 G s' \<and> (\<forall>x. frm x \<in> set G \<longrightarrow> mem s' x = 0))"
  using assms
proof (induction "unat n - unat i" arbitrary: i G s)
  case 0
  then have "i = n" by (simp add: word_eq_unat)
  then show ?case using 0 only_pages_refl by (auto simp: map_pages.simps [of _ _ n])
next
  case (Suc l)
  have i: "i < n" "unat (i + 1) = Suc (unat i)" using Suc.hyps(2) Suc.prems(3)
    by (simp_all add: word_less_nat_alt unat_add_exact)
  have bi: "b + 0 + length G < 1048575" "b + unat i < 1048576" using Suc.prems(3-5) by simp_all
  obtain t fr where a: "pmm_alloc_frame (frames s) = (t, fr)" by (cases "pmm_alloc_frame (frames s)")
  have va: "page b + i * 4096 = page (b + 0 + length G)" using page_index [OF bi(2)] Suc.prems(4) by simp
  have ok: "small_ok s" by (rule backedD(1) [OF Suc.prems(1)])
  have pmm: "pmm_ok (frames s)" by (rule paging_okD(6) [OF small_okD(1) [OF ok]])
  show ?case
  proof (cases "t = 0")
    case True
    then have fr: "fr = frames s" using pmm_frames.alloc_fail [OF pmm] a by simp
    have "unat n - unat i \<noteq> 0" using Suc.hyps(2) by simp
    then have k: "unat i < unat n" by simp
    obtain s' where "unmap_mapped (page b) i 0 s = Inr s'" "only_pages s s'" "backed A W M T b (unat i) [] s'"
      using unmap_mapped_effect [of A W M T b 0 G s i] Suc.prems bi(2) by auto
    then have "map_pages (page b) n i s = Inr (False, s') \<and> only_pages s s' \<and> unat i < unat n \<and>
        backed A W M T b (unat i) [] s'"
      using i(1) a True fr k by (simp add: map_pages.simps [of _ _ i])
    moreover have "cramped (frames s) (unat n - unat i)" 
      using alloc_zero_full [OF pmm] a True k by (auto simp: cramped_def)
    ultimately show ?thesis by blast
  next
    case t: False
    show ?thesis
    proof (rule backed_page_in [OF Suc.prems(1,2) bi(1) a t])
      assume "paging_map_page (page (b + 0 + length G)) t PAGE_KERNEL (s\<lparr>frames := fr\<rparr>) =
        Inl (Panic ''paging_map_page: Out of memory for page table'')" "fst (pmm_alloc_frame fr) = 0"
      note p = this and sa = small_alloc [OF ok a t]
      have "cramped (frames s) (unat n - unat i)"
        using alloc_zero_full [OF sa(4) p(2)] sa(2,3,5) Suc.hyps(2) by (auto simp: cramped_def)
      then show ?thesis using p(1) i(1) a t va by (simp add: map_pages.simps [of _ _ i])
    next
      fix s1 m f c
      let ?s = "s\<lparr>mem := m, frames := f, tlb := c\<rparr>"
      assume p: "paging_map_page (page (b + 0 + length G)) t PAGE_KERNEL (s\<lparr>frames := fr\<rparr>) = Inr s1"
        "vmalloc_memset (page (b + 0 + length G)) 0 PAGE_SIZE s1 = Inr ?s"
        "backed A W M T b 0 (G @ [frm t]) ?s"
        "\<And>x. frm x \<in> set G \<Longrightarrow> m x = mem s x" "\<And>x. frm x = frm t \<Longrightarrow> m x = 0" "took 2 (frames s) f"
      have cr: "cramped (frames s) (unat n - unat i)" if "cramped f (unat n - unat (i + 1))"
        using that p(6) i(2) Suc.hyps(2) by (auto simp: cramped_def took_def)
      have eq: "map_pages (page b) n i s = map_pages (page b) n (i + 1) ?s"
        using i(1) a t va p(1,2) by (simp add: map_pages.simps [of _ _ i])
      have z: "\<And>x. frm x \<in> set (G @ [frm t]) \<Longrightarrow> mem ?s x = 0" using p(4,5) Suc.prems(6) by auto
      have l: "l = unat n - unat (i + 1)" "unat (i + 1) = length (G @ [frm t])" "length (G @ [frm t]) \<le> unat n"
        using Suc.hyps(2) i(2) Suc.prems(4) by simp_all
      show ?thesis
        using Suc.hyps(1) [OF l(1) p(3) Suc.prems(2,3) l(2,3) z] only_pages_trans [OF only_pages_upd(1)] cr
        unfolding eq by simp blast
    qed
  qed
qed

end
