(* ===== verification/Heap_Frame.thy ===== *)
theory Heap_Frame
  imports Heap_Spec
begin

text \<open>
  What the kernel heap leaves alone. \<open>kmalloc\<close> and \<open>kfree\<close> write inside the heap's own range and
  change nothing but the heap's variables; a client that writes outside that range or inside its
  own block does not disturb the heap. With these a component can keep data in heap blocks and work
  on the rest of the machine.
\<close>

definition heap_bytes :: "'a kheap_scheme \<Rightarrow> nat set" where
  "heap_bytes s = {unat (heap_start s)..<unat (heap_max s)}"

lemma clear_outside:
  assumes rep: "heap_rep s bs" and x: "unat x \<notin> heap_bytes s"
  shows "clear bs x"
  unfolding clear_def
proof
  fix b assume b: "b \<in> set bs"
  note bp = block_payload [OF rep b] and r = heap_repD [OF rep]
  have "unat (heap_end s) \<le> unat (heap_max s)" using r(3) by (simp add: heap_bounds_def word_le_unat)
  then have "unat x < unat (at b) \<or> unat (at b) + 20 \<le> unat x"
    using x bp by (auto simp: heap_bytes_def)
  moreover have "unat (at b) \<le> 0x80000000" using bp(3) r(7) by simp
  ultimately show "outside (at b) 20 x" using outside_below outside_above by blast
qed

text \<open>The heap is read off five variables and the headers.\<close>

lemma heap_rep_cong:
  assumes rep: "heap_rep s bs"
    and "heap_start s' = heap_start s" "heap_end s' = heap_end s" "heap_max s' = heap_max s" "block_list s' = block_list s"
    and m: "\<And>x. \<not> clear bs x \<Longrightarrow> mem s' x = mem s x"
  shows "heap_rep s' bs"
proof -
  have "dll (mem s') NULL bs NULL = dll (mem s) NULL bs NULL"
    by (intro dll_frame header_frame m) (force simp: clear_def outside_def)
  then show ?thesis using assms(1-5) by (simp add: heap_rep_def heap_bounds_def)
qed

lemma heap_client:
  assumes inv: "heap_inv s"
    and "heap_start s' = heap_start s" "heap_end s' = heap_end s" "heap_max s' = heap_max s" "block_list s' = block_list s"
    and m: "\<And>x. mem s' x \<noteq> mem s x \<Longrightarrow> unat x \<notin> heap_bytes s \<or> (\<exists>q l. (q, l) \<in> live s \<and> unat x \<in> payload (q, l))"
  shows "heap_inv s'" "live s' = live s"
proof -
  obtain bs where rep: "heap_rep s bs" using inv by (auto simp: heap_inv_def)
  have "clear bs x" if "mem s' x \<noteq> mem s x" for x
    using m [OF that] clear_outside [OF rep] payload_clear [OF rep] live_rep [OF rep] by (auto simp: allocated_def)
  then have "heap_rep s' bs" using heap_rep_cong [OF rep assms(2-5)] by blast
  then show "heap_inv s'" "live s' = live s" using live_rep [OF rep] live_rep [of s' bs] by (auto simp: heap_inv_def)
qed

text \<open>Only the heap's variables, the console, and memory inside the heap may differ.\<close>

definition only_heap :: "'a kheap_scheme \<Rightarrow> 'a kheap_scheme \<Rightarrow> bool" where
  "only_heap s s' \<longleftrightarrow> (\<forall>x. unat x \<notin> heap_bytes s \<longrightarrow> mem s' x = mem s x) \<and>
     (\<exists>m c e b a f. s' = s\<lparr>mem := m, con := c, heap_end := e, block_list := b, total_allocations := a, total_frees := f\<rparr>)"

lemma only_heap_warn: "only_heap s (warn_con t s)"
  unfolding only_heap_def
  by (intro conjI exI [of _ "mem s"] exI [of _ "con (warn_con t s)"] exI [of _ "heap_end s"] exI [of _ "block_list s"]
      exI [of _ "total_allocations s"] exI [of _ "total_frees s"])
    (simp_all add: warn_con_def)

text \<open>States with the writes kept to headers, as the heap's operations leave them.\<close>

lemma only_headers:
  assumes "heap_rep t cs" "heap_start t = heap_start s" "heap_max t = heap_max s"
    and "\<And>x. clear cs x \<Longrightarrow> mem t x = mem s x"
    and "\<exists>m e b a f. t = s\<lparr>mem := m, heap_end := e, block_list := b, total_allocations := a, total_frees := f\<rparr>"
  shows "only_heap s t"
proof -
  have "mem t x = mem s x" if "unat x \<notin> heap_bytes s" for x
    using that assms(2-4) clear_outside [OF assms(1)] by (simp add: heap_bytes_def)
  moreover obtain m e b a f where
    "t = s\<lparr>mem := m, heap_end := e, block_list := b, total_allocations := a, total_frees := f\<rparr>"
    using assms(5) by blast
  then have "t = s\<lparr>mem := m, con := con s, heap_end := e, block_list := b, total_allocations := a, total_frees := f\<rparr>"
    by (cases s) simp
  ultimately show ?thesis unfolding only_heap_def by blast
qed

lemma kmalloc_only_heap:
  assumes inv: "heap_inv s" and n: "serveable n" and k: "kmalloc n s = Some (p, s')"
  shows "only_heap s s'"
proof -
  obtain bs where rep: "heap_rep s bs" using inv by (auto simp: heap_inv_def)
  note sn = serveable_request [OF n]
  from first_fit_split [of bs "fits (request_size n)"] show ?thesis
  proof (elim disjE exE conjE)
    fix xs b ys assume bs: "bs = xs @ b # ys" and first: "\<forall>x\<in>set xs. \<not> fits (request_size n) x"
      "fits (request_size n) b"
    have "heap_rep s (xs @ b # ys)" using rep bs by simp
    from kmalloc_reuse [OF this sn(1)] first k have
      r: "heap_rep s' (xs @ place (request_size n) b @ ys)"
        "\<And>x. clear (xs @ place (request_size n) b @ ys) x \<Longrightarrow> mem s' x = mem s x"
      and e: "s' = s\<lparr>mem := mem s', total_allocations := total_allocations s + 1\<rparr>" by auto
    have "heap_start s' = heap_start s" "heap_max s' = heap_max s" by (subst e, simp)+
    moreover have "s' = s\<lparr>mem := mem s', heap_end := heap_end s, block_list := block_list s,
        total_allocations := total_allocations s + 1, total_frees := total_frees s\<rparr>"
      by (subst e) (cases s, simp)
    ultimately show ?thesis using r by (intro only_headers) blast+
  next
    assume no: "\<forall>b\<in>set bs. \<not> fits (request_size n) b"
    show ?thesis
    proof (cases "unat (heap_end s) + 24 + unat (request_size n) \<le> unat (heap_max s)")
      case True
      let ?b = "\<lparr>at = heap_end s, sz = request_size n, avail = False\<rparr>"
      from kmalloc_extend [OF rep sn(1) _ sn(3) True] no k have
        r: "heap_rep s' (bs @ [?b])" "\<And>x. clear (bs @ [?b]) x \<Longrightarrow> mem s' x = mem s x"
        and e: "s' = s\<lparr>mem := mem s', heap_end := heap_end s + (24 + request_size n), block_list := block_list s',
          total_allocations := total_allocations s + 1\<rparr>" by auto
      have "heap_start s' = heap_start s" "heap_max s' = heap_max s" by (subst e, simp)+
      moreover have "s' = s\<lparr>mem := mem s', heap_end := heap_end s + (24 + request_size n), block_list := block_list s',
          total_allocations := total_allocations s + 1, total_frees := total_frees s\<rparr>"
        by (subst e) (cases s, simp)
      ultimately show ?thesis using r by (intro only_headers) blast+
    next
      case False
      then show ?thesis using kmalloc_exhausted [OF rep sn(1) _ sn(3)] no k only_heap_warn by simp
    qed
  qed
qed

lemma kfree_only_heap:
  assumes inv: "heap_inv s" and p: "(p, k) \<in> live s" and f: "kfree p s = Inr s'"
  shows "only_heap s s'"
proof -
  obtain bs where rep: "heap_rep s bs" using inv by (auto simp: heap_inv_def)
  obtain b where b: "b \<in> set bs" "\<not> avail b" "p = at b + 24" using p live_rep [OF rep] by (auto simp: allocated_def)
  then obtain xs ys where bs: "bs = xs @ b # ys" by (auto dest: split_list)
  then have rep': "heap_rep s (xs @ b # ys)" using rep by simp
  from kfree_refines [OF this b(2)] f b(3) have
    r: "\<And>x. clear (xs @ b # ys) x \<Longrightarrow> mem s' x = mem s x"
    and e: "s' = s\<lparr>mem := mem s', total_frees := total_frees s + 1\<rparr>" by auto
  have "mem s' x = mem s x" if "unat x \<notin> heap_bytes s" for x using clear_outside [OF rep' that] r by blast
  moreover have "s' = s\<lparr>mem := mem s', con := con s, heap_end := heap_end s, block_list := block_list s,
        total_allocations := total_allocations s, total_frees := total_frees s + 1\<rparr>"
    by (subst e) (cases s, simp)
  ultimately show ?thesis unfolding only_heap_def by blast
qed

end
