(* ===== verification/Vmalloc_Spec.thy ===== *)
theory Vmalloc_Spec
  imports Vm_Pages Heap_Frame
begin

unbundle bit_operations_syntax

text \<open>
  The virtual allocator against its clients' view: a list of regions, each a run of pages backed by
  frames nobody else has, with a descriptor in a heap block. \<open>vm_rep\<close> ties this view to the chain
  of descriptors, to the page tables, to the frame allocator and to the heap; \<open>vmalloc\<close> and \<open>vfree\<close>
  keep it. The kernel's own address space of a machine with at most 16 MiB is considered.
\<close>

section \<open>Regions\<close>

record vm_block =
  vdesc :: u32
  vbase :: nat
  vsz :: u32
  vframes :: "nat list"

definition vpages :: "vm_block \<Rightarrow> nat set" where
  "vpages x = {vbase x..<vbase x + length (vframes x)}"

text \<open>The descriptor of a region, and the chain of them.\<close>

definition vm_desc :: "vm_block \<Rightarrow> u32 \<Rightarrow> vm_region" where
  "vm_desc x nx = \<lparr>rvirt_addr = page (vbase x), rsize = vsz x, rmapped_size = page (length (vframes x)),
     rnum_pages = word_of_nat (length (vframes x)), rnext = nx, rmagic = VM_MAGIC\<rparr>"

definition vfirst :: "vm_block list \<Rightarrow> u32" where
  "vfirst xs = (case xs of [] \<Rightarrow> NULL | x # _ \<Rightarrow> vdesc x)"

primrec vchain :: "memory \<Rightarrow> vm_block list \<Rightarrow> bool" where
  "vchain m [] \<longleftrightarrow> True"
| "vchain m (x # xs) \<longleftrightarrow> vm_region_at m (vdesc x) = vm_desc x (vfirst xs) \<and> vchain m xs"

lemma vfirst_simps [simp]: "vfirst [] = NULL" "vfirst (x # xs) = vdesc x"
  by (simp_all add: vfirst_def)

lemma vm_region_frame:
  assumes "\<And>x. unat (x - r) < 24 \<Longrightarrow> m' x = m x"
  shows "vm_region_at m' r = vm_region_at m r"
proof -
  have f: "load32 m' (r + word_of_nat i) = load32 m (r + word_of_nat i)" if "i + 4 \<le> 24" for i
  proof (rule load32_frame)
    fix x assume o: "\<not> outside (r + word_of_nat i) 4 x"
    have "unat (x - r) < 24"
    proof (rule ccontr)
      assume "\<not> unat (x - r) < 24"
      then have "outside (r + word_of_nat i) 4 x"
        using outside_offset [of r 24 x 0 i] that unat_u32_bound [of "x - r"] by (simp add: outside_def)
      then show False using o by simp
    qed
    then show "m' x = m x" by (rule assms)
  qed
  from f [of 0] f [of 4] f [of 8] f [of 12] f [of 16] f [of 20] show ?thesis by (simp add: vm_region_at_def)
qed

lemma vchain_frame:
  "(\<And>x y. x \<in> set xs \<Longrightarrow> unat (y - vdesc x) < 24 \<Longrightarrow> m' y = m y) \<Longrightarrow> vchain m' xs = vchain m xs"
proof (induction xs)
  case (Cons x xs)
  then have "vm_region_at m' (vdesc x) = vm_region_at m (vdesc x)"
    by (intro vm_region_frame) (meson list.set_intros(1))
  moreover have "vchain m' xs = vchain m xs" using Cons by (meson list.set_intros(2))
  ultimately show ?case by simp
qed simp

text \<open>The descriptor \<open>vmalloc\<close> writes, and the bytes it touches.\<close>

definition write_desc :: "u32 \<Rightarrow> u32 \<Rightarrow> u32 \<Rightarrow> u32 \<Rightarrow> u32 \<Rightarrow> u32 \<Rightarrow> memory \<Rightarrow> memory" where
  "write_desc r v n a k nx m = set_rnext r nx (set_rmagic r VM_MAGIC
     (store32 (r + 12) k (store32 (r + 8) a (store32 (r + 4) n (store32 r v m)))))"

lemmas region_setters = set_rnext_def set_rmagic_def

lemma region_of_write_desc:
  "vm_region_at (write_desc r v n a k nx m) r =
     \<lparr>rvirt_addr = v, rsize = n, rmapped_size = a, rnum_pages = k, rnext = nx, rmagic = VM_MAGIC\<rparr>"
  by (simp add: write_desc_def vm_region_at_def region_setters load32_store32_other outside_def)

lemma region_set [simp]:
  "vm_region_at (set_rnext r v m) r = (vm_region_at m r)\<lparr>rnext := v\<rparr>"
  "vm_region_at (set_rmagic r v m) r = (vm_region_at m r)\<lparr>rmagic := v\<rparr>"
  by (simp_all add: vm_region_at_def region_setters load32_store32_other outside_def)

lemma region_store_other:
  assumes "outside r 24 x" "i + 4 \<le> 24"
  shows "store32 (r + word_of_nat i) v m x = m x"
  using outside_offset [of r 24 x 0 i] assms unat_u32_bound [of "x - r"]
  by (intro store32_other) (simp add: outside_def)

lemma region_set_other:
  assumes "outside r 24 x"
  shows "set_rnext r v m x = m x" "set_rmagic r v m x = m x" "write_desc r w n a k nx m x = m x"
  using region_store_other [OF assms, of 0] region_store_other [OF assms, of 4] region_store_other [OF assms, of 8]
    region_store_other [OF assms, of 12] region_store_other [OF assms, of 16] region_store_other [OF assms, of 20]
  by (simp_all add: region_setters write_desc_def)

text \<open>The frame a page of the regions has.\<close>

primrec vm_map :: "vm_block list \<Rightarrow> nat \<Rightarrow> nat option" where
  "vm_map [] n = None"
| "vm_map (x # xs) n = (if n \<in> vpages x then Some (vframes x ! (n - vbase x)) else vm_map xs n)"

lemma vm_map_None: "vm_map xs n = None \<longleftrightarrow> (\<forall>x \<in> set xs. n \<notin> vpages x)"
  by (induction xs) auto

lemma vm_map_append: "vm_map (xs @ ys) n = (case vm_map xs n of None \<Rightarrow> vm_map ys n | Some g \<Rightarrow> Some g)"
  by (induction xs) auto

lemma vm_map_mid:
  assumes "\<And>y. y \<in> set xs \<Longrightarrow> vpages x \<inter> vpages y = {}"
  shows "vm_map (xs @ x # ys) n = (if n \<in> vpages x then Some (vframes x ! (n - vbase x)) else vm_map (xs @ ys) n)"
proof (cases "n \<in> vpages x")
  case True
  then have "vm_map xs n = None" using assms by (auto simp: vm_map_None)
  with True show ?thesis by (simp add: vm_map_append)
qed (simp add: vm_map_append split: option.splits)

definition region_frames :: "vm_block list \<Rightarrow> nat list" where
  "region_frames xs = concat (map vframes xs)"

lemma region_frames_simps [simp]:
  "region_frames [] = []" "region_frames (x # xs) = vframes x @ region_frames xs"
  "region_frames (xs @ ys) = region_frames xs @ region_frames ys"
  by (simp_all add: region_frames_def)

section \<open>The invariant\<close>

definition heap_frames :: "'a kheap_scheme \<Rightarrow> nat set" where
  "heap_frames s = (\<lambda>n. n div 4096) ` heap_bytes s"

lemma frm_heap: "unat x \<in> heap_bytes s \<Longrightarrow> frm x \<in> heap_frames s"
  by (auto simp: heap_frames_def frm_def)

text \<open>The address space: above the identity mapping, the pages of the regions and no others.\<close>

definition vm_space :: "'a paging_scheme \<Rightarrow> vm_block list \<Rightarrow> bool" where
  "vm_space s xs \<longleftrightarrow> small_ok s \<and>
     (\<forall>v. 4096 \<le> frm v \<longrightarrow> walk (mem s) (current_directory s) v =
        map_option (\<lambda>g. page g OR PAGE_OFFSET v) (vm_map xs (frm v))) \<and>
     (\<forall>x \<in> set xs. 4096 \<le> vbase x \<and> vframes x \<noteq> [] \<and> vbase x + length (vframes x) \<le> 65536) \<and>
     pairwise (\<lambda>x y. vpages x \<inter> vpages y = {}) (set xs) \<and>
     distinct (region_frames xs) \<and> 0 \<notin> set (region_frames xs) \<and> set (region_frames xs) \<subseteq> owned s"

text \<open>The descriptors: a chain in live blocks of the heap.\<close>

definition vm_list :: "'a vmsys_scheme \<Rightarrow> vm_block list \<Rightarrow> bool" where
  "vm_list s xs \<longleftrightarrow> heap_inv s \<and> region_list s = vfirst xs \<and> vchain (mem s) xs \<and> distinct (map vdesc xs) \<and>
     (\<forall>x \<in> set xs. \<exists>k. (vdesc x, k) \<in> live s \<and> 24 \<le> unat k)"

definition vm_rep :: "'a vmsys_scheme \<Rightarrow> vm_block list \<Rightarrow> bool" where
  "vm_rep s xs \<longleftrightarrow> vm_space s xs \<and> vm_list s xs \<and>
     heap_frames s \<subseteq> owned s \<and> heap_frames s \<inter> set (region_frames xs) = {} \<and> unat (heap_max s) \<le> 0x1000000 \<and>
     unat (vmalloc_current s) mod 4096 = 0 \<and> 4096 \<le> frm (vmalloc_current s) \<and> frm (vmalloc_current s) \<le> 65536 \<and>
     (\<forall>x \<in> set xs. vbase x + length (vframes x) \<le> frm (vmalloc_current s)) \<and>
     total_regions s = word_of_nat (length xs) \<and> total_pages_allocated s = word_of_nat (length (region_frames xs))"

lemma vm_spaceD:
  assumes "vm_space s xs"
  shows "small_ok s" "4096 \<le> frm v \<Longrightarrow> walk (mem s) (current_directory s) v =
      map_option (\<lambda>g. page g OR PAGE_OFFSET v) (vm_map xs (frm v))"
    "x \<in> set xs \<Longrightarrow> 4096 \<le> vbase x" "x \<in> set xs \<Longrightarrow> vframes x \<noteq> []"
    "x \<in> set xs \<Longrightarrow> vbase x + length (vframes x) \<le> 65536"
    "x \<in> set xs \<Longrightarrow> y \<in> set xs \<Longrightarrow> x \<noteq> y \<Longrightarrow> vpages x \<inter> vpages y = {}"
    "distinct (region_frames xs)" "0 \<notin> set (region_frames xs)" "set (region_frames xs) \<subseteq> owned s"
  using assms unfolding vm_space_def pairwise_def by blast+

lemma vm_listD:
  assumes "vm_list s xs"
  shows "heap_inv s" "region_list s = vfirst xs" "vchain (mem s) xs" "distinct (map vdesc xs)"
    "x \<in> set xs \<Longrightarrow> \<exists>k. (vdesc x, k) \<in> live s \<and> 24 \<le> unat k" "x \<in> set xs \<Longrightarrow> vdesc x \<noteq> NULL"
proof -
  show l: "x \<in> set xs \<Longrightarrow> \<exists>k. (vdesc x, k) \<in> live s \<and> 24 \<le> unat k" and h: "heap_inv s"
    using assms by (auto simp: vm_list_def)
  show "region_list s = vfirst xs" "vchain (mem s) xs" "distinct (map vdesc xs)"
    using assms by (simp_all add: vm_list_def)
  show "x \<in> set xs \<Longrightarrow> vdesc x \<noteq> NULL" using l live_placed(1) [OF h] by force
qed

lemma vm_repD:
  assumes "vm_rep s xs"
  shows "vm_space s xs" "vm_list s xs" "heap_frames s \<subseteq> owned s" "heap_frames s \<inter> set (region_frames xs) = {}"
    "unat (heap_max s) \<le> 0x1000000" "unat (vmalloc_current s) mod 4096 = 0" "4096 \<le> frm (vmalloc_current s)"
    "frm (vmalloc_current s) \<le> 65536" "x \<in> set xs \<Longrightarrow> vbase x + length (vframes x) \<le> frm (vmalloc_current s)"
    "total_regions s = word_of_nat (length xs)" "total_pages_allocated s = word_of_nat (length (region_frames xs))"
  using assms unfolding vm_rep_def by blast+

section \<open>Walks over the chain\<close>

lemma page_inj: "a < 1048576 \<Longrightarrow> b < 1048576 \<Longrightarrow> page a = page b \<longleftrightarrow> a = b"
  by (metis frm_page)

text \<open>Regions have different first pages.\<close>

lemma vbase_inj:
  assumes "vm_space s xs" "x \<in> set xs" "y \<in> set xs" "vbase x = vbase y"
  shows "x = y"
proof (rule ccontr)
  assume "x \<noteq> y"
  then have "vpages x \<inter> vpages y = {}" using vm_spaceD(6) [OF assms(1-3)] by blast
  moreover have "vbase x \<in> vpages x \<inter> vpages y"
    using vm_spaceD(4) [OF assms(1)] assms(2-4) by (simp add: vpages_def)
  ultimately show False by blast
qed

lemma find_region_none:
  "vchain m xs \<Longrightarrow> (\<And>x. x \<in> set xs \<Longrightarrow> vdesc x \<noteq> NULL \<and> page (vbase x) \<noteq> v) \<Longrightarrow>
     find_region_from m v pv (vfirst xs) = Some (NULL, NULL)"
  by (induction xs arbitrary: pv) (simp_all add: find_region_from.simps [of m v] vm_desc_def)

lemma find_region_some:
  assumes "vchain m (xs @ x # ys)" "\<And>y. y \<in> set (xs @ x # ys) \<Longrightarrow> vdesc y \<noteq> NULL"
    and "\<And>y. y \<in> set xs \<Longrightarrow> page (vbase y) \<noteq> page (vbase x)"
  shows "find_region_from m (page (vbase x)) pv (vfirst (xs @ x # ys)) =
    Some (vdesc x, if xs = [] then pv else vdesc (last xs))"
  using assms
proof (induction xs arbitrary: pv)
  case Nil
  then show ?case by (simp add: find_region_from.simps [of m _ pv] vm_desc_def)
next
  case (Cons z xs)
  have "find_region_from m (page (vbase x)) (vdesc z) (vfirst (xs @ x # ys)) =
      Some (vdesc x, if xs = [] then vdesc z else vdesc (last xs))"
    by (rule Cons.IH) (use Cons.prems in auto)
  then show ?case using Cons.prems by (simp add: find_region_from.simps [of m _ pv] vm_desc_def)
qed

text \<open>The highest end of the regions, as a page number.\<close>

definition highest_page :: "vm_block list \<Rightarrow> nat" where
  "highest_page xs = Max (insert 4096 ((\<lambda>x. vbase x + length (vframes x)) ` set xs))"

lemma highest_end_pages:
  assumes "vchain m xs" "\<And>x. x \<in> set xs \<Longrightarrow> vdesc x \<noteq> NULL \<and> vbase x + length (vframes x) < 1048576"
    and "h < 1048576"
  shows "highest_end_from m (page h) (vfirst xs) =
    Some (page (Max (insert h ((\<lambda>x. vbase x + length (vframes x)) ` set xs))))"
  using assms
proof (induction xs arbitrary: h)
  case Nil
  then show ?case by (simp add: highest_end_from.simps [of m])
next
  case (Cons x xs)
  let ?e = "vbase x + length (vframes x)" and ?E = "(\<lambda>x. vbase x + length (vframes x)) ` set xs"
  have e: "?e < 1048576" using Cons.prems(2) by simp
  have "unat (page (vbase x) + page (length (vframes x))) = 4096 * ?e"
    using e by (simp add: unat_add_exact unat_page)
  then have pe: "page (vbase x) + page (length (vframes x)) = page ?e"
    using e by (simp add: word_eq_unat unat_page)
  have "(if page h < page ?e then page ?e else page h) = page (max h ?e)"
    using e Cons.prems(3) by (cases "h < ?e") (simp_all add: word_less_nat_alt unat_page max_def)
  moreover have "highest_end_from m (page (max h ?e)) (vfirst xs) = Some (page (Max (insert (max h ?e) ?E)))"
    by (rule Cons.IH) (use Cons.prems e in auto)
  moreover have "Max (insert (max h ?e) ?E) = Max (insert h (insert ?e ?E))"
    by (cases "?E = {}") (simp_all add: max.assoc)
  ultimately show ?case
    using Cons.prems(1,2) pe by (simp add: highest_end_from.simps [of m "page h" "vdesc x"] vm_desc_def Let_def split del: if_split cong: if_cong)
qed

section \<open>What keeps the invariant\<close>

text \<open>The address space does not depend on memory outside its tables, nor on the other variables.\<close>

lemma same_space:
  fixes s s' :: "'a paging_scheme"
  assumes ok: "small_ok s"
    and f: "cr0 s' = cr0 s" "cr3 s' = cr3 s" "frames s' = frames s" "current_directory s' = current_directory s"
    and m: "\<And>x. frm x \<in> table_frames s \<Longrightarrow> mem s' x = mem s x"
  shows "small_ok s'" "walk (mem s') (current_directory s) v = walk (mem s) (current_directory s) v"
    "table_frames s' = table_frames s" "owned s' = owned s"
proof -
  note b = bytes_elsewhere [OF ok, where m = "mem s'", OF m]
  have "small_ok s' = small_ok (s\<lparr>mem := mem s'\<rparr>)" "table_frames s' = table_frames (s\<lparr>mem := mem s'\<rparr>)"
    using f by (simp_all add: small_ok_def paging_ok_def table_frames_def)
  then show "small_ok s'" "table_frames s' = table_frames s" using b(2,3) by simp_all
  then show "owned s' = owned s" using f by (simp add: owned_def)
  show "walk (mem s') (current_directory s) v = walk (mem s) (current_directory s) v" by (rule b(1))
qed

lemma vm_space_same:
  fixes s s' :: "'a paging_scheme"
  assumes sp: "vm_space s xs"
    and f: "cr0 s' = cr0 s" "cr3 s' = cr3 s" "frames s' = frames s" "current_directory s' = current_directory s"
    and m: "\<And>x. frm x \<in> table_frames s \<Longrightarrow> mem s' x = mem s x"
  shows "vm_space s' xs"
proof -
  note ss = same_space [OF vm_spaceD(1) [OF sp] f m]
  show ?thesis using sp ss(1,2,4) f(4) unfolding vm_space_def by simp
qed

text \<open>A descriptor lies inside its block, blocks lie inside the heap, and the heap's frames are no tables.\<close>

lemma desc_payload:
  assumes "heap_inv s" "(r, k) \<in> live s" "24 \<le> unat k" "unat (x - r) < 24"
  shows "unat x \<in> payload (r, k)"
proof -
  have b: "unat r + unat k \<le> unat (heap_end s)" by (rule live_placed(2) [OF assms(1,2)])
  have "unat (heap_end s) \<le> 0x80000000" using assms(1) heap_repD(7) by (auto simp: heap_inv_def)
  then have "unat (r + (x - r)) = unat r + unat (x - r)"
    using b assms(3,4) by (intro unat_add_exact) simp
  then show ?thesis using assms(3,4) by (simp add: payload_def)
qed

lemma live_heap:
  assumes "heap_inv s" "(r, k) \<in> live s" "unat x \<in> payload (r, k)"
  shows "unat x \<in> heap_bytes s"
proof -
  obtain bs where "heap_rep s bs" using assms(1) by (auto simp: heap_inv_def)
  then have "unat (heap_end s) \<le> unat (heap_max s)"
    using heap_repD(3) by (auto simp: heap_bounds_def word_le_unat)
  then show ?thesis using live_placed(1,2) [OF assms(1,2)] assms(3) by (simp add: payload_def heap_bytes_def)
qed

lemma vchain_live:
  assumes l: "vm_list s xs"
    and m: "\<And>q l x. (q, l) \<in> live s \<Longrightarrow> q \<in> vdesc ` set xs \<Longrightarrow> unat x \<in> payload (q, l) \<Longrightarrow> m x = mem s x"
  shows "vchain m xs"
proof -
  have "vchain m xs = vchain (mem s) xs"
  proof (rule vchain_frame)
    fix x y assume x: "x \<in> set xs" "unat (y - vdesc x) < 24"
    obtain k where "(vdesc x, k) \<in> live s" "24 \<le> unat k" using vm_listD(5) [OF l x(1)] by blast
    then show "m y = mem s y" using m desc_payload [OF vm_listD(1) [OF l]] x by blast
  qed
  then show ?thesis using vm_listD(3) [OF l] by simp
qed

text \<open>A request for a descriptor: the regions stay, and there is a block of 24 bytes for a new one.\<close>

lemma only_heapD:
  assumes "only_heap s s'"
  shows "cr0 s' = cr0 s" "cr3 s' = cr3 s" "frames s' = frames s" "current_directory s' = current_directory s"
    "heap_start s' = heap_start s" "heap_max s' = heap_max s" "heap_frames s' = heap_frames s" "tlb s' = tlb s"
    "unat x \<notin> heap_bytes s \<Longrightarrow> mem s' x = mem s x"
  using assms by (auto simp: only_heap_def heap_frames_def heap_bytes_def)

lemma owned_warn [simp]: "owned (warn_con t s) = owned s"
  by (simp add: owned_def table_frames_def warn_con_def)

lemma only_heap_vm:
  assumes "only_heap (s :: 'a vmsys_scheme) s'"
  shows "vmalloc_current s' = vmalloc_current s" "region_list s' = region_list s" "total_regions s' = total_regions s"
    "total_pages_allocated s' = total_pages_allocated s"
  using assms by (auto simp: only_heap_def)

lemma only_heap_tables:
  assumes "vm_rep s xs" "only_heap s s'" "frm x \<in> table_frames s"
  shows "mem s' x = mem s x"
proof (rule only_heapD(9) [OF assms(2)])
  show "unat x \<notin> heap_bytes s" using vm_repD(3) [OF assms(1)] frm_heap assms(3) by (auto simp: owned_def)
qed

lemma only_heap_owned:
  assumes "vm_rep s xs" "only_heap s s'"
  shows "owned s' = owned s" "table_frames s' = table_frames s" "used_set (frames s') = used_set (frames s)"
    "frm x \<notin> heap_frames s \<Longrightarrow> mem s' x = mem s x"
proof -
  note d = only_heapD [OF assms(2)]
  show "owned s' = owned s" "table_frames s' = table_frames s"
    using same_space(3,4) [OF vm_spaceD(1) [OF vm_repD(1) [OF assms(1)]] d(1-4)] only_heap_tables [OF assms] by blast+
  show "used_set (frames s') = used_set (frames s)" using d(3) by simp
  show "frm x \<notin> heap_frames s \<Longrightarrow> mem s' x = mem s x" using d(9) frm_heap by blast
qed

lemma live_owned:
  assumes "vm_rep s xs" "(q, l) \<in> live s" "unat x \<in> payload (q, l)"
  shows "frm x \<in> owned s" "frm x \<in> heap_frames s"
  using live_heap [OF vm_listD(1) [OF vm_repD(2) [OF assms(1)]] assms(2,3)] frm_heap vm_repD(3) [OF assms(1)]
  by blast+

lemma vm_rep_heap:
  assumes rep: "vm_rep s xs" and h: "only_heap s s'" and inv: "heap_inv s'"
    and l: "\<And>q l. (q, l) \<in> live s \<Longrightarrow> q \<in> vdesc ` set xs \<Longrightarrow> (q, l) \<in> live s'"
    and m: "\<And>q l x. (q, l) \<in> live s' \<Longrightarrow> (q, l) \<in> live s \<Longrightarrow> unat x \<in> payload (q, l) \<Longrightarrow> mem s' x = mem s x"
  shows "vm_rep s' xs"
proof -
  note r = vm_repD [OF rep] and d = only_heapD [OF h] only_heap_vm [OF h]
  note tb = only_heap_tables [OF rep h]
  have "vm_space s' xs" by (rule vm_space_same [OF r(1) d(1-4) tb])
  moreover have "vm_list s' xs"
    unfolding vm_list_def using vm_listD [OF r(2)] vchain_live [OF r(2)] m inv d(11) l by (metis image_eqI)
  moreover have "owned s' = owned s" by (rule same_space(4) [OF vm_spaceD(1) [OF r(1)] d(1-4) tb])
  ultimately show ?thesis unfolding vm_rep_def using r d by simp
qed

text \<open>Pages mapped below the heap's feet: the heap and what lies in it stay.\<close>

lemma only_pagesD:
  assumes "only_pages s s'"
  shows "cr0 s' = cr0 s" "cr3 s' = cr3 s"
  using assms by (auto simp: only_pages_def)

lemma only_pages_paging:
  assumes "only_pages (s :: 'a paging_scheme) s'"
  shows "current_directory s' = current_directory s"
  using assms by (auto simp: only_pages_def)

lemma only_pages_vm:
  assumes "only_pages (s :: 'a vmsys_scheme) s'"
  shows "heap_start s' = heap_start s" "heap_end s' = heap_end s" "heap_max s' = heap_max s"
    "block_list s' = block_list s" "vmalloc_current s' = vmalloc_current s" "region_list s' = region_list s"
    "total_regions s' = total_regions s" "total_pages_allocated s' = total_pages_allocated s"
    "heap_frames s' = heap_frames s" "heap_bytes s' = heap_bytes s"
  using assms by (auto simp: only_pages_def heap_frames_def heap_bytes_def)

lemma pages_keep_heap:
  fixes s s' :: "'a vmsys_scheme"
  assumes inv: "heap_inv s" and p: "only_pages s s'" and H: "heap_frames s \<subseteq> A"
    and m: "\<And>x. frm x \<in> A \<Longrightarrow> mem s' x = mem s x"
  shows "heap_inv s'" "live s' = live s"
proof -
  have "unat x \<notin> heap_bytes s" if "mem s' x \<noteq> mem s x" for x using that m H frm_heap by blast
  then show "heap_inv s'" "live s' = live s"
    using heap_client [OF inv, of s'] only_pages_vm [OF p] by blast+
qed

lemma pages_keep_list:
  fixes s s' :: "'a vmsys_scheme"
  assumes l: "vm_list s xs" and p: "only_pages s s'" and H: "heap_frames s \<subseteq> A"
    and m: "\<And>x. frm x \<in> A \<Longrightarrow> mem s' x = mem s x"
  shows "vm_list s' xs"
proof -
  note k = pages_keep_heap [OF vm_listD(1) [OF l] p H m]
  have "mem s' x = mem s x" if "(q, l) \<in> live s" "unat x \<in> payload (q, l)" for q l x
    using m H frm_heap live_heap [OF vm_listD(1) [OF l] that] by blast
  then show ?thesis
    using vchain_live [OF l] vm_listD [OF l] k only_pages_vm(6) [OF p] unfolding vm_list_def by auto
qed

lemma vm_map_above: "(\<And>x. x \<in> set xs \<Longrightarrow> vbase x + length (vframes x) \<le> b) \<Longrightarrow> b \<le> n \<Longrightarrow> vm_map xs n = None"
  by (fastforce simp: vm_map_None vpages_def)

lemma vm_space_extend:
  assumes sp: "vm_space s xs" and d: "current_directory s' = current_directory s"
    and b: "4096 \<le> b" "b + length G \<le> 65536" "G \<noteq> []"
    and above: "\<And>x. x \<in> set xs \<Longrightarrow> vbase x + length (vframes x) \<le> b"
    and run: "backed (owned s) (walk (mem s) (current_directory s)) M T b 0 G s'"
  shows "vm_space s' (\<lparr>vdesc = p, vbase = b, vsz = n, vframes = G\<rparr> # xs)"
proof -
  let ?x = "\<lparr>vdesc = p, vbase = b, vsz = n, vframes = G\<rparr>"
  note r = backedD [OF run] and k = vm_spaceD [OF sp]
  have "walk (mem s') (current_directory s') v = map_option (\<lambda>g. page g OR PAGE_OFFSET v) (vm_map (?x # xs) (frm v))"
    if "4096 \<le> frm v" for v
    using r(8) [of v] k(2) [OF that] d by (auto simp: vpages_def)
  moreover have "vpages ?x \<inter> vpages y = {}" if "y \<in> set xs" for y
    using above [OF that] by (auto simp: vpages_def)
  then have "pairwise (\<lambda>x y. vpages x \<inter> vpages y = {}) (set (?x # xs))"
    using sp by (auto simp: vm_space_def pairwise_insert)
  moreover have "distinct (region_frames (?x # xs))" using r(3,4) k(7,9) by auto
  ultimately show ?thesis
    unfolding vm_space_def using r(1,2,5) k(3-5,8,9) b by auto
qed

lemma vm_space_restored:
  assumes sp: "vm_space s xs" and d: "current_directory s' = current_directory s"
    and above: "\<And>x. x \<in> set xs \<Longrightarrow> vbase x + length (vframes x) \<le> b" "4096 \<le> b"
    and run: "backed (owned s) (walk (mem s) (current_directory s)) M T b k [] s'"
  shows "vm_space s' xs"
proof -
  note r = backedD [OF run] and sd = vm_spaceD [OF sp]
  have "walk (mem s') (current_directory s') v = map_option (\<lambda>g. page g OR PAGE_OFFSET v) (vm_map xs (frm v))"
    if "4096 \<le> frm v" for v
  proof -
    have "b \<le> frm v \<Longrightarrow> vm_map xs (frm v) = None" using above(1) by (rule vm_map_above)
    then show ?thesis using r(8) [of v] sd(2) [OF that] d by auto
  qed
  then show ?thesis using sp r(1,2) by (simp add: vm_space_def)
qed

text \<open>A new descriptor in a block of its own.\<close>

lemma vm_list_push:
  fixes s :: "'a vmsys_scheme"
  assumes l: "vm_list s xs" and p: "(p, k) \<in> live s" "24 \<le> unat k" "p \<notin> vdesc ` set xs"
    and len: "a = page (length G)" "c = word_of_nat (length G)"
    and s': "mem s' = write_desc p (page b) n a c (vfirst xs) (mem s)" "region_list s' = p"
      "heap_start s' = heap_start s" "heap_end s' = heap_end s" "heap_max s' = heap_max s" "block_list s' = block_list s"
  shows "vm_list s' (\<lparr>vdesc = p, vbase = b, vsz = n, vframes = G\<rparr> # xs)" "live s' = live s"
    "\<And>x. unat x \<notin> payload (p, k) \<Longrightarrow> mem s' x = mem s x"
proof -
  note k = vm_listD [OF l]
  let ?x = "\<lparr>vdesc = p, vbase = b, vsz = n, vframes = G\<rparr>"
  show out: "mem s' x = mem s x" if "unat x \<notin> payload (p, k)" for x
  proof -
    have "outside p 24 x" using that desc_payload [OF k(1) p(1,2)] by (force simp: outside_def)
    then show ?thesis using region_set_other(3) s'(1) by simp
  qed
  then have hc: "heap_inv s'" "live s' = live s"
    using heap_client [OF k(1) s'(3-6)] p(1) by blast+
  then show "live s' = live s" by simp
  have "vchain (mem s') xs = vchain (mem s) xs"
  proof (rule vchain_frame)
    fix x y assume x: "x \<in> set xs" "unat (y - vdesc x) < 24"
    then obtain j where j: "(vdesc x, j) \<in> live s" "24 \<le> unat j" using k(5) by blast
    then have "unat y \<in> payload (vdesc x, j)" using desc_payload [OF k(1)] x(2) by blast
    moreover have "(p, k) \<noteq> (vdesc x, j)" using p(3) x(1) by auto
    then have "payload (p, k) \<inter> payload (vdesc x, j) = {}" by (rule kheap.disjoint [OF k(1) p(1) j(1)])
    ultimately show "mem s' y = mem s y" using out by blast
  qed
  moreover have "vm_region_at (mem s') p = vm_desc ?x (vfirst xs)"
    by (simp add: s'(1) region_of_write_desc vm_desc_def len)
  ultimately show "vm_list s' (?x # xs)"
    unfolding vm_list_def using hc k p s'(2) by auto
qed

text \<open>The number of pages of a request.\<close>

lemma request_pages:
  assumes "unat n \<le> 0xE0000000"
  shows "unat ((n + PAGE_SIZE - 1) div PAGE_SIZE) = (unat n + 4095) div 4096"
    "(n + PAGE_SIZE - 1) div PAGE_SIZE * PAGE_SIZE = page ((unat n + 4095) div 4096)"
proof -
  have "n + PAGE_SIZE - 1 = 4095 + n" by simp
  moreover have "unat (4095 + n) = unat n + 4095" using assms by (simp add: unat_add_exact)
  ultimately show q: "unat ((n + PAGE_SIZE - 1) div PAGE_SIZE) = (unat n + 4095) div 4096" by (simp add: unat_div)
  have "(unat n + 4095) div 4096 < 1048576" using assms by (simp add: less_mult_imp_div_less)
  then have "unat ((n + PAGE_SIZE - 1) div PAGE_SIZE * PAGE_SIZE) = (unat n + 4095) div 4096 * 4096"
    using unat_mult_exact [of "(n + PAGE_SIZE - 1) div PAGE_SIZE" PAGE_SIZE] q by simp
  then show "(n + PAGE_SIZE - 1) div PAGE_SIZE * PAGE_SIZE = page ((unat n + 4095) div 4096)"
    using \<open>_ < 1048576\<close> by (simp add: word_eq_unat unat_page)
qed

lemma vm_rep_warn:
  assumes "vm_rep s xs"
  shows "vm_rep (warn_con t s) xs"
  by (rule vm_rep_heap [OF assms only_heap_warn]) (use vm_listD(1) [OF vm_repD(2) [OF assms]] in simp_all)

lemma vm_rep_restored:
  fixes s s' :: "'a vmsys_scheme"
  assumes rep: "vm_rep s xs" and op: "only_pages s s'"
    and run: "backed (owned s) (walk (mem s) (current_directory s)) (mem s) T (frm (vmalloc_current s)) k [] s'"
  shows "vm_rep s' xs"
proof -
  note r = vm_repD [OF rep] and b = backedD [OF run]
  have "vm_space s' xs" by (rule vm_space_restored [OF r(1) only_pages_paging [OF op] r(9,7) run])
  moreover have "vm_list s' xs" by (rule pages_keep_list [OF r(2) op r(3) b(7)])
  ultimately show ?thesis unfolding vm_rep_def using r b(2) only_pages_vm [OF op] by simp
qed

section \<open>vmalloc\<close>

text \<open>The part of \<open>vmalloc\<close> after the descriptor has been allocated.\<close>

definition vmalloc_mapped :: "u32 \<Rightarrow> u32 \<Rightarrow> u32 \<Rightarrow> u32 \<Rightarrow> 'a vmsys_scheme \<Rightarrow> (u32 \<times> 'a vmsys_scheme) outcome" where
  "vmalloc_mapped n c a region s =
     (let virt_addr = vmalloc_current s in
      obind (map_pages virt_addr c 0 s) (\<lambda>(mapped, s).
      if \<not> mapped then
        obind (kfree region s) (\<lambda>s. Inr (NULL, warn_con ''vmalloc: Out of physical memory'' s))
      else
        Inr (virt_addr, s\<lparr>mem := write_desc region virt_addr n a c (region_list s) (mem s), region_list := region,
          total_regions := total_regions s + 1, total_pages_allocated := total_pages_allocated s + c,
          vmalloc_current := vmalloc_current s + a\<rparr>)))"

lemma vmalloc_eq:
  assumes "n \<noteq> 0"
  shows "vmalloc n s = (let c = (n + PAGE_SIZE - 1) div PAGE_SIZE; a = c * PAGE_SIZE in
     if VMALLOC_END < vmalloc_current s + a
     then Inr (NULL, warn_con ''vmalloc: Out of virtual address space'' s)
     else
       obind (of_walk (kmalloc SIZEOF_VM_REGION s)) (\<lambda>(region, s).
       if region = NULL then Inr (NULL, warn_con ''vmalloc: Out of kernel memory for metadata'' s)
       else vmalloc_mapped n c a region s))"
  using assms unfolding vmalloc_def vmalloc_mapped_def write_desc_def Let_def
  by (simp cong: if_cong split del: if_split)

text \<open>The descriptor's block is there and belongs to no region yet.\<close>

lemma vmalloc_mapped_cases:
  fixes s :: "'a vmsys_scheme" and n :: u32
  defines "N \<equiv> (unat n + 4095) div 4096"
  defines "c \<equiv> (n + PAGE_SIZE - 1) div PAGE_SIZE"
  assumes rep: "vm_rep s xs" and n: "n \<noteq> 0" "unat n \<le> 0xE0000000" "frm (vmalloc_current s) + N \<le> 65536"
    and p: "(p, k) \<in> live s" "24 \<le> unat k" "p \<notin> vdesc ` set xs"
  obtains (panic) "vmalloc_mapped n c (c * PAGE_SIZE) p s =
      Inl (Panic ''paging_map_page: Out of memory for page table'')" "cramped (frames s) N"
  | (none) s' where "vmalloc_mapped n c (c * PAGE_SIZE) p s = Inr (NULL, s')" "vm_rep s' xs"
      "live s' = live s - {(p, k)}" "owned s' = owned s"
      "\<And>x. frm x \<in> owned s - heap_frames s \<Longrightarrow> mem s' x = mem s x"
      "\<And>q l x. (q, l) \<in> live s' \<Longrightarrow> unat x \<in> payload (q, l) \<Longrightarrow> mem s' x = mem s x" "cramped (frames s) N"
  | (some) G s' where "vmalloc_mapped n c (c * PAGE_SIZE) p s = Inr (vmalloc_current s, s')"
      "vm_rep s' (\<lparr>vdesc = p, vbase = frm (vmalloc_current s), vsz = n, vframes = G\<rparr> # xs)"
      "length G = N" "set G \<inter> used_set (frames s) = {}" "owned s' = owned s \<union> set G" "live s' = live s" "heap_frames s' = heap_frames s"
      "\<And>x. frm x \<in> set G \<Longrightarrow> mem s' x = 0" "\<And>x. frm x \<in> owned s - heap_frames s \<Longrightarrow> mem s' x = mem s x"
      "\<And>q l x. (q, l) \<in> live s - {(p, k)} \<Longrightarrow> unat x \<in> payload (q, l) \<Longrightarrow> mem s' x = mem s x"
proof -
  let ?b = "frm (vmalloc_current s)" and ?d = "current_directory s" and ?a = "c * PAGE_SIZE"
  note r = vm_repD [OF rep] and rp = request_pages [OF n(2), folded c_def N_def]
  note sd = vm_spaceD [OF r(1)] and ld = vm_listD [OF r(2)]
  have cur: "vmalloc_current s = page ?b" using page_frm [OF r(6)] by simp
  have N: "0 < N" using n(1) unat_gt_0 [of n] by (simp add: N_def)
  have "backed (owned s) (walk (mem s) ?d) (mem s) (table_frames s) ?b 0 [] s" by (rule backed_start [OF sd(1)])
  from map_pages_effect [OF this r(7), of c 0] rp(1) n(3) have
    "cramped (frames s) N \<and> map_pages (page ?b) c 0 s = Inl (Panic ''paging_map_page: Out of memory for page table'') \<or>
    cramped (frames s) N \<and> (\<exists>j s'. map_pages (page ?b) c 0 s = Inr (False, s') \<and> only_pages s s' \<and>
       backed (owned s) (walk (mem s) ?d) (mem s) (table_frames s) ?b j [] s') \<or>
    (\<exists>G s'. map_pages (page ?b) c 0 s = Inr (True, s') \<and> only_pages s s' \<and> length G = N \<and>
       backed (owned s) (walk (mem s) ?d) (mem s) (table_frames s) ?b 0 G s' \<and> (\<forall>x. frm x \<in> set G \<longrightarrow> mem s' x = 0))"
    by auto
  then show thesis
  proof (elim disjE exE conjE)
    assume "map_pages (page ?b) c 0 s = Inl (Panic ''paging_map_page: Out of memory for page table'')" "cramped (frames s) N"
    then show thesis by (intro panic) (simp_all add: vmalloc_mapped_def cur [symmetric])
  next
    fix j s1
    assume few: "cramped (frames s) N" and m: "map_pages (page ?b) c 0 s = Inr (False, s1)" and op: "only_pages s s1"
      and run: "backed (owned s) (walk (mem s) ?d) (mem s) (table_frames s) ?b j [] s1"
    note b = backedD [OF run]
    have rep1: "vm_rep s1 xs" using vm_rep_restored [OF rep op run] .
    note keep = pages_keep_heap [OF ld(1) op r(3) b(7)]
    have "(p, k) \<in> live s1" using keep(2) p(1) by simp
    then obtain s2 where s2: "kfree p s1 = Inr s2" "heap_inv s2" "live s2 = live s1 - {(p, k)}"
      "\<And>q l x. (q, l) \<in> live s2 \<Longrightarrow> unat x \<in> payload (q, l) \<Longrightarrow> mem s2 x = mem s1 x"
      using kheap.release_ok [OF keep(1)] by meson
    have oh: "only_heap s1 s2" by (rule kfree_only_heap [OF keep(1) \<open>(p, k) \<in> live s1\<close> s2(1)])
    have "vm_rep s2 xs" by (rule vm_rep_heap [OF rep1 oh s2(2)]) (use s2(3,4) p(3) in auto)
    then have rep2: "vm_rep (warn_con ''vmalloc: Out of physical memory'' s2) xs" by (rule vm_rep_warn)
    note oh1 = only_heap_owned [OF rep1 oh]
    show thesis
    proof (rule none [OF _ rep2])
      show "vmalloc_mapped n c ?a p s = Inr (NULL, warn_con ''vmalloc: Out of physical memory'' s2)"
        using m s2(1) by (simp add: vmalloc_mapped_def cur [symmetric])
    next
      fix x assume x: "frm x \<in> owned s - heap_frames s"
      then show "mem (warn_con ''vmalloc: Out of physical memory'' s2) x = mem s x"
        using oh1(4) [of x] b(7) only_pages_vm(9) [OF op] by simp
    next
      fix q l and x :: u32 assume "(q, l) \<in> live (warn_con ''vmalloc: Out of physical memory'' s2)" "unat x \<in> payload (q, l)"
      then show "mem (warn_con ''vmalloc: Out of physical memory'' s2) x = mem s x"
        using s2(3,4) keep(2) b(7) live_owned(1) [OF rep] by fastforce
    qed (use s2(3) keep(2) oh1(1) b(2) few in simp_all)
  next
    fix G s1
    assume m: "map_pages (page ?b) c 0 s = Inr (True, s1)" and op: "only_pages s s1" and G: "length G = N"
      and run: "backed (owned s) (walk (mem s) ?d) (mem s) (table_frames s) ?b 0 G s1"
      and z: "\<forall>x. frm x \<in> set G \<longrightarrow> mem s1 x = 0"
    let ?x = "\<lparr>vdesc = p, vbase = ?b, vsz = n, vframes = G\<rparr>"
    let ?s = "s1\<lparr>mem := write_desc p (vmalloc_current s) n ?a c (region_list s1) (mem s1), region_list := p,
      total_regions := total_regions s1 + 1, total_pages_allocated := total_pages_allocated s1 + c,
      vmalloc_current := vmalloc_current s1 + ?a\<rparr>"
    note b = backedD [OF run] and opv = only_pages_vm [OF op] and keep = pages_keep_heap [OF ld(1) op r(3) backedD(7) [OF run]]
    have sp1: "vm_space s1 (?x # xs)"
      by (rule vm_space_extend [OF r(1) only_pages_paging [OF op] r(7) _ _ r(9) run]) (use G N n(3) in auto)
    have l1: "vm_list s1 xs" by (rule pages_keep_list [OF r(2) op r(3) b(7)])
    have ms: "mem ?s = write_desc p (page ?b) n ?a c (vfirst xs) (mem s1)"
      using vm_listD(2) [OF l1] cur by simp
    have p1: "(p, k) \<in> live s1" using p(1) keep(2) by simp
    have ca: "c = word_of_nat (length G)" "?a = page (length G)"
      using rp(2) G by (simp_all add: G rp(1) [symmetric])
    have l: "vm_list ?s (?x # xs)" and lv: "live ?s = live s1"
      and out: "\<And>x. unat x \<notin> payload (p, k) \<Longrightarrow> mem ?s x = mem s1 x"
      by (rule vm_list_push [OF l1 p1 p(2,3) ca(2,1) ms]; simp)+
    have notp: "unat x \<notin> payload (p, k)" if "frm x \<notin> heap_frames s" for x
      using live_owned(2) [OF rep p(1)] that by blast
    have tb: "mem ?s x = mem s1 x" if "frm x \<in> table_frames s1" for x
      using that notp out b(2) r(3) by (auto simp: owned_def)
    have sp: "vm_space ?s (?x # xs)" by (rule vm_space_same [OF sp1 _ _ _ _ tb]) simp_all
    have ow: "owned ?s = owned s \<union> set G"
      using same_space(4) [OF vm_spaceD(1) [OF sp1] _ _ _ _ tb] b(2) by simp
    have "unat (vmalloc_current s) = 4096 * ?b" using r(6) by (auto simp: frm_def)
    then have "unat (vmalloc_current s + ?a) = 4096 * (?b + N)"
      using unat_add_exact [of "vmalloc_current s" "page N"] n(3) ca(2) G by (simp add: unat_page)
    then have cur': "vmalloc_current s + ?a = page (?b + N)" using n(3) by (simp add: word_eq_unat unat_page)
    have "\<And>x. x \<in> set xs \<Longrightarrow> vbase x + length (vframes x) \<le> ?b + N" using r(9) trans_le_add1 by blast
    then have rep': "vm_rep ?s (?x # xs)"
      unfolding vm_rep_def
      using sp l ow r opv ca cur' n(3) G N b(3) by (auto simp: heap_frames_def heap_bytes_def unat_page)
    show thesis
    proof (rule some [OF _ rep' G])
      show "vmalloc_mapped n c ?a p s = Inr (vmalloc_current s, ?s)"
        using m opv(5) by (simp add: vmalloc_mapped_def cur [symmetric] Let_def)
      show "set G \<inter> used_set (frames s) = {}"
        using used_owned [OF sd(1)] b(2,3,6) by (auto simp: owned_def)
    next
      fix x assume x: "frm x \<in> set G"
      then have "frm x \<notin> heap_frames s" using b(3) r(3) by blast
      from trans [OF out [OF notp [OF this]]] show "mem ?s x = 0" using z x by blast
    next
      fix x assume x: "frm x \<in> owned s - heap_frames s"
      then have "frm x \<notin> heap_frames s" by blast
      from trans [OF out [OF notp [OF this]] b(7)] show "mem ?s x = mem s x" using x by blast
    next
      fix q l and x :: u32 assume ql: "(q, l) \<in> live s - {(p, k)}" "unat x \<in> payload (q, l)"
      then have "unat x \<notin> payload (p, k)" using kheap.disjoint [OF ld(1) p(1), of q l] by auto
      from trans [OF out [OF this] b(7)] show "mem ?s x = mem s x" using live_owned(1) [OF rep _ ql(2)] ql(1) by blast
    next
      show "heap_frames ?s = heap_frames s" using opv(1,3) by (simp add: heap_frames_def heap_bytes_def)
    qed (use lv keep(2) ow in simp_all)
  qed
qed

lemma page_limit: "unat VMALLOC_END < 4096 * a \<longleftrightarrow> 65536 < a"
  by (cases "65536 < a") simp_all

lemma serveable_24: "serveable 24"
  by (simp add: serveable_def)

lemma vmalloc_cases:
  fixes s :: "'a vmsys_scheme" and n :: u32
  defines "N \<equiv> (unat n + 4095) div 4096"
  assumes rep: "vm_rep s xs" and n: "n \<noteq> 0" "unat n \<le> 0xE0000000"
  obtains (panic) "vmalloc n s = Inl (Panic ''paging_map_page: Out of memory for page table'')" "cramped (frames s) N"
  | (none) s' where "vmalloc n s = Inr (NULL, s')" "vm_rep s' xs" "live s' = live s" "owned s' = owned s"
      "\<And>x. frm x \<in> owned s - heap_frames s \<Longrightarrow> mem s' x = mem s x"
      "\<And>q l x. (q, l) \<in> live s \<Longrightarrow> unat x \<in> payload (q, l) \<Longrightarrow> mem s' x = mem s x"
      "cramped (frames s) N \<or> 65536 < frm (vmalloc_current s) + N \<or> (\<exists>t. kmalloc 24 s = Some (NULL, t))"
  | (some) p k G s' where "vmalloc n s = Inr (vmalloc_current s, s')"
      "vm_rep s' (\<lparr>vdesc = p, vbase = frm (vmalloc_current s), vsz = n, vframes = G\<rparr> # xs)"
      "length G = N" "set G \<inter> used_set (frames s) = {}" "owned s' = owned s \<union> set G"
      "live s' = insert (p, k) (live s)" "\<And>l. (p, l) \<notin> live s" "heap_frames s' = heap_frames s"
      "\<And>x. frm x \<in> set G \<Longrightarrow> mem s' x = 0" "\<And>x. frm x \<in> owned s - heap_frames s \<Longrightarrow> mem s' x = mem s x"
      "\<And>q l x. (q, l) \<in> live s \<Longrightarrow> unat x \<in> payload (q, l) \<Longrightarrow> mem s' x = mem s x"
proof -
  note r = vm_repD [OF rep] and rp = request_pages [OF n(2), folded N_def]
  let ?b = "frm (vmalloc_current s)" and ?c = "(n + PAGE_SIZE - 1) div PAGE_SIZE"
  have inv: "heap_inv s" by (rule vm_listD(1) [OF r(2)])
  have N: "N \<le> 917504" using n(2) by (simp add: N_def)
  have "unat (vmalloc_current s) = 4096 * ?b" using r(6) by (auto simp: frm_def)
  then have "unat (vmalloc_current s + ?c * PAGE_SIZE) = 4096 * (?b + N)"
    using unat_add_exact [of "vmalloc_current s" "page N"] r(8) N rp(2) by (simp add: unat_page)
  then have lim: "VMALLOC_END < vmalloc_current s + ?c * PAGE_SIZE \<longleftrightarrow> 65536 < ?b + N"
    using page_limit [of "?b + N"] by (simp only: word_less_nat_alt)
  have ow: "live (warn_con t s) = live s" "owned (warn_con t s) = owned s" for t by simp_all
  show thesis
  proof (cases "65536 < ?b + N")
    case True
    then have "vmalloc n s = Inr (NULL, warn_con ''vmalloc: Out of virtual address space'' s)"
      using lim by (simp add: vmalloc_eq [OF n(1)] Let_def)
    then show thesis by (rule none [OF _ vm_rep_warn [OF rep] ow]) (use True in simp_all)
  next
    case False
    obtain p s1 where k: "kmalloc 24 s = Some (p, s1)" using kheap.alloc_returns [OF inv serveable_24] by blast
    have eq: "vmalloc n s = (if p = NULL then Inr (NULL, warn_con ''vmalloc: Out of kernel memory for metadata'' s1)
        else vmalloc_mapped n ?c (?c * PAGE_SIZE) p s1)"
      using lim False k by (simp add: vmalloc_eq [OF n(1)] Let_def of_walk_def)
    note oh = kmalloc_only_heap [OF inv serveable_24 k] and bytes = kheap.alloc_bytes [OF inv serveable_24 k]
      and inv1 = kheap.alloc_inv [OF inv serveable_24 k]
    note oo = only_heap_owned [OF rep oh]
    show thesis
    proof (cases "p = NULL")
      case True
      then have l: "live s1 = live s" using kheap.alloc_null [OF inv serveable_24] k by blast
      have "vm_rep s1 xs" by (rule vm_rep_heap [OF rep oh inv1]) (use l bytes in auto)
      then have "vm_rep (warn_con ''vmalloc: Out of kernel memory for metadata'' s1) xs" by (rule vm_rep_warn)
      then show thesis by (rule none [rotated]) (use eq True l oo bytes k in auto)
    next
      case p: False
      then obtain l where l: "24 \<le> unat l" "live s1 = insert (p, l) (live s)" "\<And>l. (p, l) \<notin> live s"
        using kheap.alloc_block [OF inv serveable_24 k] by auto
      have rep1: "vm_rep s1 xs" by (rule vm_rep_heap [OF rep oh inv1]) (use l(2) bytes in auto)
      have p1: "(p, l) \<in> live s1" using l(2) by simp
      have "p \<notin> vdesc ` set xs" using vm_listD(5) [OF r(2)] l(3) by blast
      note np = this
      have lim1: "frm (vmalloc_current s1) + N \<le> 65536" using False only_heap_vm(1) [OF oh] by simp
      note cur = only_heap_vm(1) [OF oh] and hf = only_heapD(7) [OF oh] and fr1 = only_heapD(3) [OF oh]
      have live1: "live s1 - {(p, l)} = live s" using l(2,3) by auto
      have owb: "mem t x = mem s x" if "frm x \<in> owned s - heap_frames s" "mem t x = mem s1 x" for t :: "'a vmsys_scheme" and x
        using that oo(4) by simp
      show thesis
      proof (rule vmalloc_mapped_cases [OF rep1 n lim1 [unfolded N_def] p1 l(1) np, folded N_def])
        assume "vmalloc_mapped n ?c (?c * PAGE_SIZE) p s1 = Inl (Panic ''paging_map_page: Out of memory for page table'')"
          "cramped (frames s1) N"
        then show thesis using eq p fr1 by (intro panic) simp_all
      next
        fix s' assume s': "vmalloc_mapped n ?c (?c * PAGE_SIZE) p s1 = Inr (NULL, s')" "vm_rep s' xs"
          "live s' = live s1 - {(p, l)}" "owned s' = owned s1"
          "\<And>x. frm x \<in> owned s1 - heap_frames s1 \<Longrightarrow> mem s' x = mem s1 x"
          "\<And>q k x. (q, k) \<in> live s' \<Longrightarrow> unat x \<in> payload (q, k) \<Longrightarrow> mem s' x = mem s1 x" "cramped (frames s1) N"
        show thesis by (rule none [OF _ s'(2)]) (use eq p s' live1 oo hf bytes fr1 in auto)
      next
        fix G s' assume s': "vmalloc_mapped n ?c (?c * PAGE_SIZE) p s1 = Inr (vmalloc_current s1, s')"
          "vm_rep s' (\<lparr>vdesc = p, vbase = frm (vmalloc_current s1), vsz = n, vframes = G\<rparr> # xs)"
          "length G = N" "set G \<inter> used_set (frames s1) = {}" "owned s' = owned s1 \<union> set G" "live s' = live s1" "heap_frames s' = heap_frames s1"
          "\<And>x. frm x \<in> set G \<Longrightarrow> mem s' x = 0" "\<And>x. frm x \<in> owned s1 - heap_frames s1 \<Longrightarrow> mem s' x = mem s1 x"
          "\<And>q k x. (q, k) \<in> live s1 - {(p, l)} \<Longrightarrow> unat x \<in> payload (q, k) \<Longrightarrow> mem s' x = mem s1 x"
        show thesis
          by (rule some [OF _ s'(2) [unfolded cur] s'(3), of l]) (use eq p s' live1 l(2,3) oo hf bytes cur in auto)
      qed
    qed
  qed
qed

section \<open>vfree\<close>

text \<open>The loop over the pages of a region; its descriptor is read again in every turn.\<close>

lemma free_pages_effect:
  fixes s :: "'a paging_scheme"
  assumes "backed A W M T b (unat j) G s" "4096 \<le> b" "b + unat c < 1048576" "unat c = unat j + length G"
    and "rvirt_addr (vm_region_at M r) = page b" "rnum_pages (vm_region_at M r) = c"
    and "\<And>y. unat (y - r) < 24 \<Longrightarrow> frm y \<in> A"
  shows "\<exists>s'. free_pages_from r j s = Some (Inr s') \<and> only_pages s s' \<and> backed A W M T b (unat c) [] s'"
  using assms(1,4)
proof (induction G arbitrary: j s)
  case Nil
  then have "c = j" by (simp add: word_eq_unat)
  moreover have "vm_region_at (mem s) r = vm_region_at M r"
    using backedD(7) [OF Nil.prems(1)] assms(7) by (intro vm_region_frame) blast
  ultimately show ?case using Nil.prems(1) only_pages_refl assms(6) by (simp add: free_pages_from.simps [of r j])
next
  case (Cons g G)
  have j: "j < c" "unat (j + 1) = Suc (unat j)" using Cons.prems(2) assms(3) by (simp_all add: word_less_nat_alt unat_add_exact)
  have bj: "b + unat j < 1048576" using Cons.prems(2) assms(3) by simp
  have reg: "vm_region_at (mem s) r = vm_region_at M r"
    using backedD(7) [OF Cons.prems(1)] assms(7) by (intro vm_region_frame) blast
  obtain m d where p: "paging_get_physical (page (b + unat j)) s = Inr (page g)" "page g \<noteq> 0"
    "paging_unmap_page (page (b + unat j)) s = Inr (s\<lparr>mem := m, tlb := d\<rparr>)"
    "backed A W M T b (unat (j + 1)) G (s\<lparr>mem := m, tlb := d, frames := pmm_free_frame (page g) (frames s)\<rparr>)"
    using backed_page_out [OF Cons.prems(1) assms(2) bj] j(2) by metis
  let ?s = "s\<lparr>mem := m, tlb := d, frames := pmm_free_frame (page g) (frames s)\<rparr>"
  obtain s' where r: "free_pages_from r (j + 1) ?s = Some (Inr s')" "only_pages ?s s'"
    "backed A W M T b (unat c) [] s'"
    using Cons.IH [OF p(4)] j(2) Cons.prems(2) by auto
  have "free_pages_from r j s = Some (Inr s')"
    using p(1,2,3) r(1) j(1) page_index [OF bj] reg assms(5,6) by (simp add: free_pages_from.simps [of r j] Let_def)
  then show ?case using r only_pages_trans [OF only_pages_upd(2) r(2)] by blast
qed

text \<open>Two descriptors share no byte.\<close>

lemma desc_apart:
  assumes l: "vm_list s xs" and x: "x \<in> set xs" "y \<in> set xs" "vdesc x \<noteq> vdesc y" and z: "unat (z - vdesc x) < 24"
  shows "outside (vdesc y) 24 z"
proof -
  note k = vm_listD [OF l]
  obtain i j where i: "(vdesc x, i) \<in> live s" "24 \<le> unat i" and j: "(vdesc y, j) \<in> live s" "24 \<le> unat j"
    using k(5) x(1,2) by blast
  have "payload (vdesc x, i) \<inter> payload (vdesc y, j) = {}"
    using x(3) by (intro kheap.disjoint [OF k(1) i(1) j(1)]) auto
  moreover have "unat z \<in> payload (vdesc x, i)" by (rule desc_payload [OF k(1) i z])
  ultimately have "\<not> unat (z - vdesc y) < 24" using desc_payload [OF k(1) j] by blast
  then show ?thesis by (simp add: outside_def)
qed

text \<open>Taking a region out of the chain.\<close>

lemma vchain_unlink:
  assumes "vchain m (xs @ x # ys)" "xs \<noteq> []"
    and "\<And>y z. y \<in> set (xs @ ys) \<Longrightarrow> vdesc y \<noteq> vdesc (last xs) \<Longrightarrow> unat (z - vdesc y) < 24 \<Longrightarrow> outside (vdesc (last xs)) 24 z"
    and "distinct (map vdesc (xs @ x # ys))"
  shows "vchain (set_rnext (vdesc (last xs)) (vfirst ys) m) (xs @ ys)"
  using assms
proof (induction xs)
  case (Cons a xs)
  let ?m = "set_rnext (vdesc (last (a # xs))) (vfirst ys) m"
  show ?case
  proof (cases "xs = []")
    case True
    have "vchain ?m ys = vchain m ys"
    proof (rule vchain_frame)
      fix y z assume y: "y \<in> set ys" "unat (z - vdesc y) < 24"
      have "vdesc y \<in> vdesc ` set ys" using y(1) by (rule imageI)
      moreover have "vdesc a \<notin> vdesc ` set ys" using Cons.prems(4) by simp
      ultimately have "vdesc y \<noteq> vdesc a" by metis
      then show "?m z = m z" using Cons.prems(3) [of y z] y True by (simp add: region_set_other(1))
    qed
    then show ?thesis using Cons.prems(1) True by (simp add: vm_desc_def)
  next
    case False
    have "vdesc a \<noteq> vdesc (last xs)" using Cons.prems(4) False by auto
    then have "vm_region_at ?m (vdesc a) = vm_region_at m (vdesc a)"
      using Cons.prems(3) [of a] False by (intro vm_region_frame region_set_other(1)) simp
    moreover have "vchain (set_rnext (vdesc (last xs)) (vfirst ys) m) (xs @ ys)"
    proof (rule Cons.IH)
      show "outside (vdesc (last xs)) 24 z" if "y \<in> set (xs @ ys)" "vdesc y \<noteq> vdesc (last xs)" "unat (z - vdesc y) < 24"
        for y z using Cons.prems(3) [of y z] that False by auto
    qed (use Cons.prems False in simp_all)
    then have "vchain ?m (xs @ ys)" using False by simp
    moreover have "vfirst (xs @ ys) = vfirst (xs @ x # ys)" using False by (cases xs) simp_all
    ultimately show ?thesis using Cons.prems(1) by simp
  qed
qed simp

text \<open>Writes inside a block that holds no descriptor of the list.\<close>

lemma vm_rep_block_write:
  fixes s s' :: "'a vmsys_scheme"
  assumes rep: "vm_rep s xs" and p: "(p, k) \<in> live s" "p \<notin> vdesc ` set xs"
    and s': "s' = s\<lparr>mem := m\<rparr>" and m: "\<And>x. unat x \<notin> payload (p, k) \<Longrightarrow> m x = mem s x"
  shows "vm_rep s' xs" "heap_inv s'" "live s' = live s" "owned s' = owned s"
proof -
  note r = vm_repD [OF rep]
  note l = vm_listD [OF r(2)]
  note l' = l
  have out: "\<And>x. mem s' x \<noteq> mem s x \<Longrightarrow> unat x \<notin> heap_bytes s \<or> (\<exists>q l. (q, l) \<in> live s \<and> unat x \<in> payload (q, l))"
    using p(1) m by (auto simp: s')
  show hl: "heap_inv s'" "live s' = live s"
    by (rule heap_client [OF l(1) _ _ _ _ out]; simp add: s')+
  have tb: "mem s' x = mem s x" if "frm x \<in> table_frames s" for x
    using that m live_owned(1) [OF rep p(1), of x] by (auto simp: s' owned_def)
  have "vm_space s' xs" by (rule vm_space_same [OF r(1) _ _ _ _ tb]) (simp_all add: s')
  moreover show ow: "owned s' = owned s"
    by (rule same_space(4) [OF vm_spaceD(1) [OF r(1)] _ _ _ _ tb]) (simp_all add: s')
  moreover have "vchain m xs"
  proof (rule vchain_live [OF r(2)])
    fix q l and x :: u32 assume ql: "(q, l) \<in> live s" "q \<in> vdesc ` set xs" "unat x \<in> payload (q, l)"
    then have "payload (p, k) \<inter> payload (q, l) = {}"
      using p(2) by (intro kheap.disjoint [OF l'(1) p(1)]) auto
    then show "m x = mem s x" using m ql(3) by blast
  qed
  ultimately show "vm_rep s' xs"
    using r l hl unfolding vm_rep_def vm_list_def by (auto simp: s' heap_frames_def heap_bytes_def)
qed

lemma vm_rep_found:
  fixes s :: "'a vmsys_scheme"
  assumes rep: "vm_rep s (xs @ x # ys)"
  shows "vmalloc_find_region (page (vbase x)) s = Inr (vdesc x, if xs = [] then NULL else vdesc (last xs))"
proof -
  note r = vm_repD [OF rep]
  note l = vm_listD [OF r(2)] and sd = vm_spaceD [OF r(1)]
  have "page (vbase y) \<noteq> page (vbase x)" if "y \<in> set xs" for y
  proof
    assume e: "page (vbase y) = page (vbase x)"
    have "vbase y < 1048576" "vbase x < 1048576" using sd(5) [of x] sd(5) [of y] that by simp_all
    then have "vbase y = vbase x" using e page_inj by simp
    then have "y = x" using vbase_inj [OF r(1), of y x] that by simp
    then show False using l(4) that by auto
  qed
  then have "find_region_from (mem s) (page (vbase x)) NULL (vfirst (xs @ x # ys)) =
      Some (vdesc x, if xs = [] then NULL else vdesc (last xs))"
    using l(3,6) by (intro find_region_some) simp_all
  then show ?thesis using l(2) by (simp add: vmalloc_find_region_def of_walk_def)
qed

text \<open>The state in which the pages are given back: the region is out of the chain, its pages are still there.\<close>

definition unlinked :: "vm_block list \<Rightarrow> vm_block \<Rightarrow> vm_block list \<Rightarrow> 'a vmsys_scheme \<Rightarrow> 'a vmsys_scheme" where
  "unlinked xs x ys s = (if xs \<noteq> [] then s\<lparr>mem := set_rnext (vdesc (last xs)) (vfirst ys) (mem s)\<rparr>
     else s\<lparr>region_list := vfirst ys\<rparr>)"

lemma unlinked_fields [simp]:
  "heap_start (unlinked xs x ys s) = heap_start s" "heap_end (unlinked xs x ys s) = heap_end s"
  "heap_max (unlinked xs x ys s) = heap_max s" "block_list (unlinked xs x ys s) = block_list s"
  "cr0 (unlinked xs x ys s) = cr0 s" "cr3 (unlinked xs x ys s) = cr3 s" "frames (unlinked xs x ys s) = frames s"
  "current_directory (unlinked xs x ys s) = current_directory s" "vmalloc_current (unlinked xs x ys s) = vmalloc_current s"
  "total_regions (unlinked xs x ys s) = total_regions s"
  "total_pages_allocated (unlinked xs x ys s) = total_pages_allocated s"
  by (simp_all add: unlinked_def)

lemma unlinked_list:
  fixes s :: "'a vmsys_scheme"
  assumes rep: "vm_rep s (xs @ x # ys)"
  defines "s' \<equiv> unlinked xs x ys s"
  shows "vm_list s' (xs @ ys)" "live s' = live s" "vm_region_at (mem s') (vdesc x) = vm_desc x (vfirst ys)"
    "mem s' z \<noteq> mem s z \<Longrightarrow> \<exists>k. (vdesc (last xs), k) \<in> live s \<and> xs \<noteq> [] \<and> unat z \<in> payload (vdesc (last xs), k)"
proof -
  note r = vm_repD [OF rep]
  note l = vm_listD [OF r(2)]
  show out: "\<exists>k. (vdesc (last xs), k) \<in> live s \<and> xs \<noteq> [] \<and> unat z \<in> payload (vdesc (last xs), k)"
    if "mem s' z \<noteq> mem s z" for z
  proof -
    have xs: "xs \<noteq> []" using that by (auto simp: s'_def unlinked_def split: if_splits)
    then obtain k where k: "(vdesc (last xs), k) \<in> live s" "24 \<le> unat k" using l(5) [of "last xs"] by auto
    have "\<not> outside (vdesc (last xs)) 24 z" using that xs region_set_other(1) by (auto simp: s'_def unlinked_def)
    then show ?thesis using desc_payload [OF l(1) k] k(1) xs by (auto simp: outside_def)
  qed
  have h: "\<And>z. mem s' z \<noteq> mem s z \<Longrightarrow> unat z \<notin> heap_bytes s \<or> (\<exists>q l. (q, l) \<in> live s \<and> unat z \<in> payload (q, l))"
    using out by blast
  show lv: "live s' = live s" by (rule heap_client(2) [OF l(1) _ _ _ _ h]; simp add: s'_def)
  have inv: "heap_inv s'" by (rule heap_client(1) [OF l(1) _ _ _ _ h]; simp add: s'_def)
  have ap: "outside (vdesc (last xs)) 24 z"
    if "xs \<noteq> []" "y \<in> set (xs @ x # ys)" "vdesc y \<noteq> vdesc (last xs)" "unat (z - vdesc y) < 24" for y z
    by (rule desc_apart [OF r(2) that(2) _ that(3,4)]) (use that(1) in simp)
  have "vchain (mem s') (xs @ ys)"
  proof (cases "xs = []")
    case True
    then show ?thesis using l(3) by (simp add: s'_def unlinked_def)
  next
    case False
    have "vchain (set_rnext (vdesc (last xs)) (vfirst ys) (mem s)) (xs @ ys)"
    proof (rule vchain_unlink [OF l(3) False _ l(4)])
      fix y z assume "y \<in> set (xs @ ys)" "vdesc y \<noteq> vdesc (last xs)" "unat (z - vdesc y) < 24"
      then show "outside (vdesc (last xs)) 24 z" using ap [OF False, of y z] by simp
    qed
    then show ?thesis using False by (simp add: s'_def unlinked_def)
  qed
  moreover have "region_list s' = vfirst (xs @ ys)" using l(2) by (cases xs) (simp_all add: s'_def unlinked_def)
  ultimately show "vm_list s' (xs @ ys)" unfolding vm_list_def using inv lv l by auto
  have x: "vm_region_at (mem s) (vdesc x) = vm_desc x (vfirst ys)"
    using l(3) by (induction xs) simp_all
  have "vm_region_at (mem s') (vdesc x) = vm_region_at (mem s) (vdesc x)"
  proof (rule vm_region_frame)
    fix z assume z: "unat (z - vdesc x) < 24"
    show "mem s' z = mem s z"
    proof (cases "xs = []")
      case False
      then have "vdesc x \<noteq> vdesc (last xs)" using l(4) by auto
      then show ?thesis using ap [OF False, of x z] z False region_set_other(1) by (simp add: s'_def unlinked_def)
    qed (simp add: s'_def unlinked_def)
  qed
  then show "vm_region_at (mem s') (vdesc x) = vm_desc x (vfirst ys)" using x by simp
qed

text \<open>The run of the region's pages, with the frames, pages and bytes of everything else.\<close>

lemma region_backed:
  fixes s :: "'a vmsys_scheme"
  assumes rep: "vm_rep s (xs @ x # ys)" and ok: "small_ok s'"
    and f: "owned s' = owned s" "current_directory s' = current_directory s"
      "\<And>v. walk (mem s') (current_directory s) v = walk (mem s) (current_directory s) v"
  shows "backed (owned s - set (vframes x))
    (\<lambda>v. if 4096 \<le> frm v then map_option (\<lambda>g. page g OR PAGE_OFFSET v) (vm_map (xs @ ys) (frm v))
         else walk (mem s) (current_directory s) v)
    (mem s') (table_frames s') (vbase x) 0 (vframes x) s'"
proof -
  note r = vm_repD [OF rep]
  note sd = vm_spaceD [OF r(1)] and l = vm_listD [OF r(2)]
  have "vpages x \<inter> vpages y = {}" if "y \<in> set xs" for y
    by (rule sd(6)) (use that l(4) in auto)
  then have vm: "vm_map (xs @ x # ys) n = (if n \<in> vpages x then Some (vframes x ! (n - vbase x)) else vm_map (xs @ ys) n)" for n
    by (rule vm_map_mid)
  have x: "4096 \<le> vbase x" using sd(3) by simp
  have "walk (mem s') (current_directory s') v = (if vbase x \<le> frm v \<and> frm v < vbase x + length (vframes x)
      then Some (page (vframes x ! (frm v - vbase x)) OR PAGE_OFFSET v)
      else if 4096 \<le> frm v then map_option (\<lambda>g. page g OR PAGE_OFFSET v) (vm_map (xs @ ys) (frm v))
      else walk (mem s) (current_directory s) v)" for v
    using f(2,3) sd(2) [of v] vm [of "frm v"] x by (simp add: vpages_def)
  moreover have "set (vframes x) \<subseteq> owned s" "distinct (vframes x)" "0 \<notin> set (vframes x)" using sd(7-9) by auto
  ultimately show ?thesis unfolding backed_def using ok f(1) by auto
qed

lemma vm_space_drop:
  assumes sp: "vm_space s (xs @ x # ys)" and x: "x \<notin> set (xs @ ys)" and d: "current_directory s' = current_directory s"
    and run: "backed (owned s - set (vframes x))
      (\<lambda>v. if 4096 \<le> frm v then map_option (\<lambda>g. page g OR PAGE_OFFSET v) (vm_map (xs @ ys) (frm v)) else W v)
      M T (vbase x) (length (vframes x)) [] s'"
  shows "vm_space s' (xs @ ys)"
proof -
  note b = backedD [OF run] and sd = vm_spaceD [OF sp]
  have "vpages x \<inter> vpages y = {}" if "y \<in> set (xs @ ys)" for y
    by (rule sd(6)) (use that x in auto)
  then have "vm_map (xs @ ys) n = None" if "n \<in> vpages x" for n using that by (auto simp: vm_map_None)
  then have "walk (mem s') (current_directory s') v = map_option (\<lambda>g. page g OR PAGE_OFFSET v) (vm_map (xs @ ys) (frm v))"
    if "4096 \<le> frm v" for v
    using b(8) [of v] that by (auto simp: vpages_def)
  moreover have "pairwise (\<lambda>x y. vpages x \<inter> vpages y = {}) (set (xs @ ys))"
    using sp by (auto simp: vm_space_def intro: pairwise_subset)
  ultimately show ?thesis
    unfolding vm_space_def using b(1,2) sd(3-5,7-9) by auto
qed

text \<open>The counters are no part of the heap, nor of the address space.\<close>

lemma heap_rep_vm [simp]:
  "heap_rep (s\<lparr>total_regions := a\<rparr>) bs = heap_rep s bs" "heap_rep (s\<lparr>total_pages_allocated := b\<rparr>) bs = heap_rep s bs"
  "heap_rep (s\<lparr>vmalloc_current := c\<rparr>) bs = heap_rep s bs"
  by (simp_all add: heap_rep_def heap_bounds_def)

lemma live_vm [simp]:
  "live (s\<lparr>total_regions := a\<rparr>) = live s" "live (s\<lparr>total_pages_allocated := b\<rparr>) = live s"
  "live (s\<lparr>vmalloc_current := c\<rparr>) = live s"
  by (simp_all add: live_def)

lemma vm_list_vm [simp]:
  "vm_list (s\<lparr>total_regions := a\<rparr>) xs = vm_list s xs" "vm_list (s\<lparr>total_pages_allocated := b\<rparr>) xs = vm_list s xs"
  "vm_list (s\<lparr>vmalloc_current := c\<rparr>) xs = vm_list s xs"
  by (simp_all add: vm_list_def heap_inv_def)

lemma space_vm [simp]:
  "table_frames (s\<lparr>total_regions := a\<rparr>) = table_frames s" "table_frames (s\<lparr>total_pages_allocated := b\<rparr>) = table_frames s"
  "table_frames (s\<lparr>vmalloc_current := c\<rparr>) = table_frames s"
  by (simp_all add: table_frames_def)

lemma vm_space_vm [simp]:
  "vm_space (s\<lparr>total_regions := a\<rparr>) xs = vm_space s xs" "vm_space (s\<lparr>total_pages_allocated := b\<rparr>) xs = vm_space s xs"
  "vm_space (s\<lparr>vmalloc_current := c\<rparr>) xs = vm_space s xs" "owned (s\<lparr>total_regions := a\<rparr>) = owned s"
  "owned (s\<lparr>total_pages_allocated := b\<rparr>) = owned s" "owned (s\<lparr>vmalloc_current := c\<rparr>) = owned s"
  by (simp_all add: vm_space_def owned_def small_ok_def paging_ok_def)

lemma heap_frames_vm [simp]:
  "heap_frames (s\<lparr>total_regions := a\<rparr>) = heap_frames s" "heap_frames (s\<lparr>total_pages_allocated := b\<rparr>) = heap_frames s"
  "heap_frames (s\<lparr>vmalloc_current := c\<rparr>) = heap_frames s"
  by (simp_all add: heap_frames_def heap_bytes_def)

text \<open>The highest end is where the next region goes.\<close>

lemma vm_rep_highest:
  fixes s :: "'a vmsys_scheme"
  assumes rep: "vm_rep s xs"
  shows "vmalloc_highest_end s = Inr (page (highest_page xs))"
    "vm_rep (s\<lparr>vmalloc_current := page (highest_page xs)\<rparr>) xs"
proof -
  note r = vm_repD [OF rep]
  note sd = vm_spaceD [OF r(1)] and l = vm_listD [OF r(2)]
  have b: "vbase x + length (vframes x) < 1048576" if "x \<in> set xs" for x using sd(5) [OF that] by simp
  have "highest_end_from (mem s) (page 4096) (vfirst xs) = Some (page (highest_page xs))"
    unfolding highest_page_def using l(3,6) b by (intro highest_end_pages) auto
  moreover have "page 4096 = VMALLOC_START" by (simp add: word_eq_unat unat_page)
  ultimately show "vmalloc_highest_end s = Inr (page (highest_page xs))"
    using l(2) by (simp add: vmalloc_highest_end_def of_walk_def)
  have h: "4096 \<le> highest_page xs" "highest_page xs \<le> 65536"
    "x \<in> set xs \<Longrightarrow> vbase x + length (vframes x) \<le> highest_page xs" for x
    using sd(5) by (auto simp: highest_page_def)
  then show "vm_rep (s\<lparr>vmalloc_current := page (highest_page xs)\<rparr>) xs"
    unfolding vm_rep_def using r by (simp add: unat_page)
qed

lemma vchain_next: "vchain m (xs @ x # ys) \<Longrightarrow> rnext (vm_region_at m (vdesc x)) = vfirst ys"
  by (induction xs) (simp_all add: vm_desc_def)

lemma vfree_cases:
  fixes s :: "'a vmsys_scheme"
  assumes rep: "vm_rep s (xs @ x # ys)"
  obtains k s' where "vfree (page (vbase x)) s = Inr s'" "vm_rep s' (xs @ ys)"
    "vmalloc_current s' = page (highest_page (xs @ ys))"
    "(vdesc x, k) \<in> live s" "live s' = live s - {(vdesc x, k)}" "owned s' = owned s - set (vframes x)"
    "\<And>z. frm z \<in> owned s' - heap_frames s \<Longrightarrow> mem s' z = mem s z"
    "\<And>q l z. (q, l) \<in> live s' \<Longrightarrow> q \<notin> vdesc ` set xs \<Longrightarrow> unat z \<in> payload (q, l) \<Longrightarrow> mem s' z = mem s z"
proof -
  note r = vm_repD [OF rep]
  note sd = vm_spaceD [OF r(1)] and l = vm_listD [OF r(2)]
  define s1 where "s1 = unlinked xs x ys s"
  let ?A = "owned s - set (vframes x)" and ?d = "current_directory s"
  let ?W = "\<lambda>v. if 4096 \<le> frm v then map_option (\<lambda>g. page g OR PAGE_OFFSET v) (vm_map (xs @ ys) (frm v))
         else walk (mem s) ?d v"
  note ul = unlinked_list [OF rep, folded s1_def]
  obtain k where k: "(vdesc x, k) \<in> live s" "24 \<le> unat k" using l(5) by auto
  have hA: "heap_frames s \<subseteq> ?A" using r(3,4) by auto
  have s1f: "cr0 s1 = cr0 s" "cr3 s1 = cr3 s" "frames s1 = frames s" "current_directory s1 = ?d"
    "heap_frames s1 = heap_frames s"
    by (simp_all add: s1_def heap_frames_def heap_bytes_def)
  have chg: "frm z \<in> heap_frames s" if "mem s1 z \<noteq> mem s z" for z
    using ul(4) [OF that] live_owned(2) [OF rep] by blast
  have tb: "mem s1 z = mem s z" if "frm z \<in> table_frames s" for z
    using that chg [of z] r(3) by (auto simp: owned_def)
  note ss = same_space [OF sd(1) s1f(1-4) tb]
  have run: "backed ?A ?W (mem s1) (table_frames s1) (vbase x) 0 (vframes x) s1"
    by (rule region_backed [OF rep ss(1) ss(4) s1f(4) ss(2)])
  have len: "unat (word_of_nat (length (vframes x)) :: u32) = length (vframes x)"
    using sd(5) [of x] by (intro unat_word_of_nat_u32) simp
  have desc: "rvirt_addr (vm_region_at (mem s1) (vdesc x)) = page (vbase x)"
    "rnum_pages (vm_region_at (mem s1) (vdesc x)) = word_of_nat (length (vframes x))"
    by (simp_all add: ul(3) vm_desc_def)
  have "frm y \<in> ?A" if "unat (y - vdesc x) < 24" for y
    using live_owned(2) [OF rep k(1) desc_payload [OF l(1) k that]] hA by blast
  note inA = this
  have run0: "backed ?A ?W (mem s1) (table_frames s1) (vbase x) (unat (0 :: u32)) (vframes x) s1" using run by simp
  have "\<exists>s2. free_pages_from (vdesc x) 0 s1 = Some (Inr s2) \<and> only_pages s1 s2 \<and>
      backed ?A ?W (mem s1) (table_frames s1) (vbase x) (unat (word_of_nat (length (vframes x)) :: u32)) [] s2"
    by (rule free_pages_effect [OF run0 _ _ _ desc inA]) (use sd(3) [of x] sd(5) [of x] len in simp_all)
  then obtain s2 where s2: "free_pages_from (vdesc x) 0 s1 = Some (Inr s2)" "only_pages s1 s2"
      "backed ?A ?W (mem s1) (table_frames s1) (vbase x) (length (vframes x)) [] s2"
    using len by auto
  note b2 = backedD [OF s2(3)]
  have reg2: "vm_region_at (mem s2) (vdesc x) = vm_region_at (mem s1) (vdesc x)"
    using b2(7) inA by (intro vm_region_frame) blast
  have nx: "vdesc x \<notin> vdesc ` set (xs @ ys)" using l(4) by auto
  then have "x \<notin> set (xs @ ys)" by auto
  then have sp2: "vm_space s2 (xs @ ys)"
    by (rule vm_space_drop [OF r(1) _ _ s2(3)]) (use only_pages_paging [OF s2(2)] s1f(4) in simp)
  have hA1: "heap_frames s1 \<subseteq> ?A" using hA s1f(5) by simp
  have l2: "vm_list s2 (xs @ ys)" by (rule pages_keep_list [OF ul(1) s2(2) hA1 b2(7)])
  have lv2: "live s2 = live s" using pages_keep_heap(2) [OF vm_listD(1) [OF ul(1)] s2(2) hA1 b2(7)] ul(2) by simp
  let ?t = "s2\<lparr>total_regions := total_regions s2 - 1,
      total_pages_allocated := total_pages_allocated s2 - rnum_pages (vm_region_at (mem s2) (vdesc x))\<rparr>"
  note opv = only_pages_vm [OF s2(2)]
  have ow2: "owned s2 = ?A" using b2(2) by simp
  have rep2: "vm_rep ?t (xs @ ys)"
    unfolding vm_rep_def using sp2 l2 ow2 hA r opv s1f(5) reg2 desc(2) by (auto simp: s1_def)
  define t3 where "t3 = ?t\<lparr>mem := set_rmagic (vdesc x) 0 (mem ?t)\<rparr>"
  have lvt: "live ?t = live s" using lv2 by simp
  have ktl: "(vdesc x, k) \<in> live ?t" using k(1) lvt by simp
  have out3: "set_rmagic (vdesc x) 0 (mem ?t) z = mem ?t z" if "unat z \<notin> payload (vdesc x, k)" for z
    using that desc_payload [OF l(1) k, of z] by (intro region_set_other(2)) (force simp: outside_def)
  have bw: "vm_rep t3 (xs @ ys)" "heap_inv t3" "live t3 = live ?t" "owned t3 = owned ?t"
    by (rule vm_rep_block_write [OF rep2 ktl nx t3_def]; rule out3; assumption)+
  have k3: "(vdesc x, k) \<in> live t3" using ktl bw(3) by (simp only:)
  obtain t4 where t4: "kfree (vdesc x) t3 = Inr t4" "heap_inv t4" "live t4 = live t3 - {(vdesc x, k)}"
    "\<And>q l z. (q, l) \<in> live t4 \<Longrightarrow> unat z \<in> payload (q, l) \<Longrightarrow> mem t4 z = mem t3 z"
    using kheap.release_ok [OF bw(2) k3] by meson
  note oh = kfree_only_heap [OF bw(2) k3 t4(1)]
  have "(q, l) \<in> live t4" if "(q, l) \<in> live t3" "q \<in> vdesc ` set (xs @ ys)" for q l
    using that nx unfolding t4(3) by blast
  then have rep4: "vm_rep t4 (xs @ ys)" by (rule vm_rep_heap [OF bw(1) oh t4(2)]) (use t4(4) in blast)+
  have hf3: "heap_frames t3 = heap_frames s" using opv(9) s1f(5) by (simp add: t3_def heap_frames_def heap_bytes_def)
  note hi = vm_rep_highest [OF rep4] and oo = only_heap_owned [OF bw(1) oh]
  let ?s = "t4\<lparr>vmalloc_current := page (highest_page (xs @ ys))\<rparr>"
  have pv: "page (vbase x) \<noteq> NULL" using sd(3,5) [of x] unat_page [of "vbase x"] by (auto simp: word_eq_unat)
  have fp: "free_pages (vdesc x) s1 = Inr s2" using s2(1) by (simp add: free_pages_def)
  have vf: "vfree (page (vbase x)) s = Inr ?s"
    using pv vm_rep_found [OF rep] l(6) fp t4(1) hi(1) vchain_next [OF l(3)]
    by (cases "xs = []") (simp_all add: vfree_def s1_def unlinked_def t3_def Let_def)
  have m3: "mem t3 z = mem s1 z" if "frm z \<in> ?A" "unat z \<notin> payload (vdesc x, k)" for z
    using that out3 b2(7) by (simp add: t3_def)
  show thesis
  proof (rule that [OF vf hi(2) _ k(1)])
    show "live ?s = live s - {(vdesc x, k)}" using t4(3) bw(3) lvt by simp
    show "owned ?s = ?A" using oo(1) bw(4) ow2 by simp
  next
    fix z assume z: "frm z \<in> owned ?s - heap_frames s"
    have "unat z \<notin> payload (vdesc x, k)" using live_owned(2) [OF rep k(1)] z by blast
    moreover have "mem t4 z = mem t3 z" using z hf3 by (intro oo(4)) simp
    moreover have "mem s1 z = mem s z" using chg z by blast
    ultimately show "mem ?s z = mem s z" using m3 [of z] z oo(1) bw(4) ow2 by simp
  next
    fix q l and z :: u32 assume q: "(q, l) \<in> live ?s" "q \<notin> vdesc ` set xs" "unat z \<in> payload (q, l)"
    have ql: "(q, l) \<in> live s" "(q, l) \<noteq> (vdesc x, k)" "(q, l) \<in> live t4" using q(1) t4(3) bw(3) lvt by auto
    have "unat z \<notin> payload (vdesc x, k)" using kheap.disjoint [OF l(1) ql(1) k(1) ql(2)] q(3) by blast
    moreover have "frm z \<in> ?A" using live_owned(2) [OF rep ql(1) q(3)] hA by blast
    moreover have "mem s1 z = mem s z"
    proof (rule ccontr)
      assume "mem s1 z \<noteq> mem s z"
      then obtain j where j: "(vdesc (last xs), j) \<in> live s" "xs \<noteq> []" "unat z \<in> payload (vdesc (last xs), j)"
        using ul(4) by blast
      have "vdesc (last xs) \<in> vdesc ` set xs" using j(2) by simp
      then have "(q, l) \<noteq> (vdesc (last xs), j)" using q(2) by auto
      then show False using kheap.disjoint [OF l(1) ql(1) j(1)] q(3) j(3) by blast
    qed
    ultimately show "mem ?s z = mem s z" using m3 [of z] t4(4) [OF ql(3) q(3)] by simp
  qed simp
qed

end
