(* ===== verification/Vmalloc_Claims.thy ===== *)
theory Vmalloc_Claims
  imports Vmalloc_Spec PMM_Boot
begin

unbundle bit_operations_syntax

text \<open>
  The kernel's memory from start-up on: \<open>paging_init\<close>, \<open>kmalloc_init\<close> and \<open>vmalloc_init\<close> in the
  order \<open>kernel_main\<close> calls them establish the invariant of the virtual allocator, and the
  properties of \<open>vmalloc\<close>, \<open>vfree\<close>, \<open>vsize\<close>, \<open>vbrk\<close> and the statistics follow from it.
\<close>

section \<open>Start-up\<close>

text \<open>
  An image whose directory and tables lie below its end, on a machine of at most 16 MiB, with room
  for the 8 MiB heap behind it.
\<close>

definition memory_layout :: "u32 \<Rightarrow> u32 \<Rightarrow> u32 \<Rightarrow> 'a paging_scheme \<Rightarrow> bool" where
  "memory_layout kpd kpt kernel_end s \<longleftrightarrow> paging_off s \<and> image_layout kpd kpt \<and> pmm_ok (frames s) \<and>
     unat (total_frames (frames s)) \<le> 4096 \<and> unat kpd div 4096 \<in> used_set (frames s) \<and>
     (\<forall>k < 4. unat kpt div 4096 + k \<in> used_set (frames s)) \<and>
     unat kpd + 4096 \<le> unat kernel_end \<and> unat kpt + 0x4000 \<le> unat kernel_end \<and>
     unat kernel_end + 0x811000 \<le> 4096 * unat (total_frames (frames s))"

lemma heap_init_range:
  assumes "unat kernel_end + 0x811000 \<le> 0x1000000"
  shows "unat (heap_start (kmalloc_init kernel_end s)) = (unat kernel_end + 0x10FFF) div 4096 * 4096"
    "unat (heap_max (kmalloc_init kernel_end s)) = unat (heap_start (kmalloc_init kernel_end s)) + 0x800000"
proof -
  let ?hs = "PAGE_ALIGN_UP (kernel_end + 0x10000)"
  have "unat (kernel_end + 0x10000) = unat kernel_end + 0x10000" using assms by (simp add: unat_add_exact)
  then have "unat (kernel_end + 0x10000 + 4095) = unat kernel_end + 0x10FFF" using assms by (simp add: unat_add_exact)
  then have hs: "unat ?hs = (unat kernel_end + 0x10FFF) div 4096 * 4096"
    by (simp add: PAGE_ALIGN_UP_eq unat_PAGE_ALIGN_DOWN minus_mod_eq_div_mult)
  then show "unat (heap_start (kmalloc_init kernel_end s)) = (unat kernel_end + 0x10FFF) div 4096 * 4096"
    by (simp add: kmalloc_init_def Let_def)
  have "unat ?hs \<le> unat kernel_end + 0x10FFF" unfolding hs by simp
  then have "unat (?hs + 0x800000) = unat ?hs + 0x800000" using assms by (simp add: unat_add_exact)
  then show "unat (heap_max (kmalloc_init kernel_end s)) = unat (heap_start (kmalloc_init kernel_end s)) + 0x800000"
    by (simp add: kmalloc_init_def Let_def)
qed

lemma frames_of_range: "(\<lambda>n. n div 4096) ` {4096 * a..<4096 * b} = {a..<b :: nat}"
proof (rule set_eqI, rule iffI)
  fix x assume "x \<in> {a..<b}"
  then have "4096 * x \<in> {4096 * a..<4096 * b}" "x = 4096 * x div 4096" by auto
  then show "x \<in> (\<lambda>n. n div 4096) ` {4096 * a..<4096 * b}" by blast
next
  fix x assume "x \<in> (\<lambda>n. n div 4096) ` {4096 * a..<4096 * b}"
  then show "x \<in> {a..<b}" by auto
qed

lemma memory_boot:
  fixes s :: "'a vmsys_scheme"
  assumes lay: "memory_layout kpd kpt kernel_end s"
  shows "\<exists>s1. paging_init kpd kpt s = Inr s1 \<and> vm_rep (vmalloc_init (kmalloc_init kernel_end s1)) [] \<and>
    heap_rep (vmalloc_init (kmalloc_init kernel_end s1)) [] \<and>
    total_frames (frames (vmalloc_init (kmalloc_init kernel_end s1))) = total_frames (frames s) \<and>
    used_set (frames (vmalloc_init (kmalloc_init kernel_end s1))) =
      used_set (frames s) \<union> heap_frames (vmalloc_init (kmalloc_init kernel_end s1)) \<and>
    table_frames (vmalloc_init (kmalloc_init kernel_end s1)) = frm ` insert kpd ((\<lambda>k. kpt + k * 4096) ` {k. k < 4}) \<and>
    (\<forall>n \<in> heap_frames (vmalloc_init (kmalloc_init kernel_end s1)). unat kernel_end \<le> 4096 * n)"
proof -
  have off: "paging_off s" and il: "image_layout kpd kpt" and pmm: "pmm_ok (frames s)"
    and tot: "unat (total_frames (frames s)) \<le> 4096" and u: "unat kpd div 4096 \<in> used_set (frames s)"
      "\<And>k. k < 4 \<Longrightarrow> unat kpt div 4096 + k \<in> used_set (frames s)"
    and ke: "unat kpd + 4096 \<le> unat kernel_end" "unat kpt + 0x4000 \<le> unat kernel_end"
      "unat kernel_end + 0x811000 \<le> 4096 * unat (total_frames (frames s))"
    using lay by (simp_all add: memory_layout_def)
  obtain m where m: "paging_init kpd kpt s = Inr (s\<lparr>mem := m, cr0 := cr0 s OR CR0_PG, cr3 := kpd,
      tlb := Map.empty, current_directory := kpd, kernel_directory := kpd\<rparr>)" (is "_ = Inr ?s")
    and d: "\<And>k. unat k < 1024 \<Longrightarrow> pde m kpd k = (if k < 4 then (kpt + k * 4096) OR 3 else 0)"
    and t: "\<And>k j. k < 4 \<Longrightarrow> unat j < 1024 \<Longrightarrow> load32 m (entry_at (kpt + k * 4096) j) = ident_entry k j"
    using paging_init_effect [OF off il] by blast
  note w = kernel_directory_walk [OF il d t]
  have ok: "paging_ok ?s" using paging_init_establishes [OF off il pmm u] m by simp
  let ?t = "vmalloc_init (kmalloc_init kernel_end ?s)"
  let ?hs = "unat (heap_start ?t)"
  have hi: "?hs = (unat kernel_end + 0x10FFF) div 4096 * 4096" "unat (heap_max ?t) = ?hs + 0x800000"
    using heap_init_range [of kernel_end ?s] ke(3) tot by (simp_all add: vmalloc_init_def)
  have tf: "table_frames ?s = frm ` insert kpd ((\<lambda>k. kpt + k * 4096) ` {k. k < 4})"
    using w(3) by (simp add: table_frames_def)
  have low: "g * 4096 < unat kernel_end" if "g \<in> table_frames ?s" for g
  proof -
    have "frm (kpt + k * 4096) * 4096 < unat kernel_end" if "k < 4" for k
      using kernel_tables(1) [OF il that] that ke(2) by (simp add: frm_def word_less_nat_alt)
    moreover have "frm kpd * 4096 < unat kernel_end" using ke(1) by (simp add: frm_def)
    ultimately show ?thesis using that tf by auto
  qed
  define h where "h = ?hs div 4096"
  have h: "?hs = 4096 * h" "unat (heap_max ?t) = 4096 * (h + 2048)" using hi by (simp_all add: h_def)
  have hb: "h + 2048 \<le> unat (total_frames (frames s))" "unat kernel_end \<le> 4096 * h"
    using h(1) hi(1) ke(3) by linarith+
  have fr: "frames ?t = pmm_mark_region_used (heap_start ?t) 0x800000 (frames s)"
    by (simp add: vmalloc_init_def kmalloc_init_def Let_def)
  have "unat (heap_start ?t + 0x800000) = ?hs + 0x800000"
    using hb(1) tot h(1) by (subst unat_add_exact) simp_all
  then have us: "used_set (frames ?t) = used_set (frames s) \<union> {h..<h + 2048}"
    using pmm_mark_region_used_effect(4) [of "frames s" "heap_start ?t" "0x800000"] pmm hb(1) tot h(1) fr
    by (simp add: pmm_ok_def)
  have pt: "pmm_ok (frames ?t)" "total_frames (frames ?t) = total_frames (frames s)"
    using pmm_mark_region_used_effect(1-3) [of "frames s" "heap_start ?t" "0x800000"] pmm fr
    by (auto simp: pmm_ok_def)
  have f: "cr0 ?t = cr0 ?s" "cr3 ?t = cr3 ?s" "mem ?t = mem ?s" "current_directory ?t = current_directory ?s"
    by (simp_all add: vmalloc_init_def kmalloc_init_def Let_def)
  have "paging_ok ?t" using ok pt(1) us unfolding paging_ok_def f by auto
  then have sm: "small_ok ?t" using pt(2) tot by (simp add: small_ok_def)
  have tt: "table_frames ?t = table_frames ?s" unfolding table_frames_def f ..
  have hf: "heap_frames ?t = {h..<h + 2048}"
    unfolding heap_frames_def heap_bytes_def h by (rule frames_of_range)
  have "heap_frames ?t \<subseteq> owned ?t" using low hb(2) us by (fastforce simp: owned_def hf tt)
  moreover have "vm_space ?t []"
    using sm w(1) unfolding vm_space_def f by (auto simp: frm_def pairwise_def)
  moreover have hr: "heap_rep ?t []"
    by (rule heap_rep_cong [OF kmalloc_init_rep [of kernel_end ?s]]) (use ke(3) tot in \<open>simp_all add: vmalloc_init_def\<close>)
  then have "vm_list ?t []" by (auto simp: vm_list_def heap_inv_def vmalloc_init_def)
  moreover have "unat (heap_max ?t) \<le> 0x1000000" using h(2) hb(1) tot by simp
  ultimately have "vm_rep ?t []" unfolding vm_rep_def by (simp add: vmalloc_init_def frm_def)
  moreover have "\<forall>n \<in> heap_frames ?t. unat kernel_end \<le> 4096 * n" using hb(2) by (simp add: hf)
  ultimately show ?thesis using m hr pt(2) us hf tt tf by auto
qed

section \<open>Reachable states\<close>

text \<open>What the list of regions says about every address.\<close>

lemma vm_rep_translate:
  assumes rep: "vm_rep s xs"
  shows "translate s v = (if frm v < 4096 then Some v else map_option (\<lambda>g. page g OR PAGE_OFFSET v) (vm_map xs (frm v)))"
proof -
  note sd = vm_spaceD [OF vm_repD(1) [OF rep]]
  have ok: "paging_ok s" by (rule small_okD(1) [OF sd(1)])
  have "unat v < 0x1000000 \<longleftrightarrow> frm v < 4096" by (auto simp: frm_def)
  then show ?thesis
    using translate_walk [OF ok] sd(2) [of v] paging_okD(2,5) [OF ok] by (auto simp: low_identity_def)
qed

lemma vm_map_frame: "vm_map xs n = Some g \<Longrightarrow> g \<in> set (region_frames xs)"
  by (induction xs) (auto simp: vpages_def split: if_splits)

lemma frm_page_or: "g < 1048576 \<Longrightarrow> frm (page g OR PAGE_OFFSET v) = g"
proof -
  assume g: "g < 1048576"
  have "PAGE_ALIGN_DOWN (page g OR PAGE_OFFSET v) = PAGE_ALIGN_DOWN (page g)"
    by (intro bit_word_eqI) (simp only: PAGE_FRAME_eq [symmetric] PAGE_OFFSET_def bit_or_iff bit_PAGE_FRAME bit_offset, auto)
  then show ?thesis using same_frame g by (metis frm_page)
qed

lemma region_target:
  assumes rep: "vm_rep s xs" and v: "4096 \<le> frm v" "translate s v = Some p"
  shows "frm p \<in> set (region_frames xs)" "frm p \<in> owned s" "frm p \<notin> heap_frames s"
proof -
  note r = vm_repD [OF rep]
  obtain g where g: "vm_map xs (frm v) = Some g" "p = page g OR PAGE_OFFSET v"
    using v vm_rep_translate [OF rep, of v] by auto
  have gr: "g \<in> set (region_frames xs)" by (rule vm_map_frame [OF g(1)])
  then have "g \<in> owned s" using vm_spaceD(9) [OF r(1)] by blast
  then have "g < 1048576" using owned_bound [OF vm_spaceD(1) [OF r(1)]] by fastforce
  then have "frm p = g" using g(2) frm_page_or by simp
  then show "frm p \<in> set (region_frames xs)" "frm p \<in> owned s" "frm p \<notin> heap_frames s"
    using gr \<open>g \<in> owned s\<close> r(4) by auto
qed

text \<open>A pointer is the start of a region or of none.\<close>

lemma vm_rep_lookup:
  fixes s :: "'a vmsys_scheme"
  assumes rep: "vm_rep s xs"
  obtains (none) "p \<notin> (\<lambda>x. page (vbase x)) ` set xs" "vmalloc_find_region p s = Inr (NULL, NULL)"
  | (some) us x ys where "xs = us @ x # ys" "p = page (vbase x)"
proof (cases "p \<in> (\<lambda>x. page (vbase x)) ` set xs")
  case True
  then obtain x where "x \<in> set xs" "p = page (vbase x)" by auto
  moreover then obtain us ys where "xs = us @ x # ys" by (auto dest: split_list)
  ultimately show thesis using some by blast
next
  case False
  note l = vm_listD [OF vm_repD(2) [OF rep]]
  have "find_region_from (mem s) p NULL (vfirst xs) = Some (NULL, NULL)"
    by (rule find_region_none [OF l(3)]) (use False l(6) in auto)
  then show thesis using none [OF False] l(2) by (simp add: vmalloc_find_region_def of_walk_def)
qed

lemma vfree_any:
  fixes s :: "'a vmsys_scheme"
  assumes rep: "vm_rep s xs" and f: "vfree p s = Inr s'"
  shows "\<exists>ys. vm_rep s' ys"
proof (cases "p = NULL")
  case True
  then show ?thesis using f rep by (auto simp: vfree_def)
next
  case False
  show ?thesis
  proof (rule vm_rep_lookup [OF rep, of p])
    assume "vmalloc_find_region p s = Inr (NULL, NULL)"
    then show ?thesis using f False by (simp add: vfree_def)
  next
    fix us x ys assume x: "xs = us @ x # ys" "p = page (vbase x)"
    show ?thesis using rep f vfree_cases [of s us x ys] unfolding x by (metis sum.inject(2))
  qed
qed

lemma vmalloc_any:
  fixes s :: "'a vmsys_scheme"
  assumes rep: "vm_rep s xs" and n: "unat n \<le> 0xE0000000" and f: "vmalloc n s = Inr (p, s')"
  shows "\<exists>ys. vm_rep s' ys"
proof (cases "n = 0")
  case True
  then show ?thesis using f rep by (auto simp: vmalloc_def)
next
  case False
  show ?thesis by (rule vmalloc_cases [OF rep False n]) (use f in auto)
qed

text \<open>Memory outside the page tables and the heap is of no concern to the allocators.\<close>

lemma vm_rep_elsewhere:
  fixes s :: "'a vmsys_scheme"
  assumes rep: "vm_rep s xs" and same: "\<And>x. frm x \<in> table_frames s \<union> heap_frames s \<Longrightarrow> m x = mem s x"
  shows "vm_rep (s\<lparr>mem := m\<rparr>) xs" "owned (s\<lparr>mem := m\<rparr>) = owned s" "live (s\<lparr>mem := m\<rparr>) = live s"
    "table_frames (s\<lparr>mem := m\<rparr>) = table_frames s"
proof -
  let ?s = "s\<lparr>mem := m\<rparr>"
  note r = vm_repD [OF rep]
  note l = vm_listD [OF r(2)]
  have tb: "m x = mem s x" if "frm x \<in> table_frames s" for x using same that by blast
  have out: "\<And>x. mem ?s x \<noteq> mem s x \<Longrightarrow> unat x \<notin> heap_bytes s \<or> (\<exists>q l. (q, l) \<in> live s \<and> unat x \<in> payload (q, l))"
    using same frm_heap by fastforce
  have inv: "heap_inv ?s" "live ?s = live s"
    by (rule heap_client [OF l(1) _ _ _ _ out]; simp)+
  show "live ?s = live s" by (rule inv(2))
  have "vm_space ?s xs" by (rule vm_space_same [OF r(1)]) (use tb in simp_all)
  moreover show ow: "owned ?s = owned s"
    by (rule same_space(4) [OF vm_spaceD(1) [OF r(1)]]) (use tb in simp_all)
  moreover have "vchain m xs" by (rule vchain_live [OF r(2)]) (use same live_owned(2) [OF rep] in blast)
  then have "vm_list ?s xs" using l inv unfolding vm_list_def by auto
  ultimately show "vm_rep ?s xs" using r unfolding vm_rep_def by (auto simp: heap_frames_def heap_bytes_def)
  show "table_frames ?s = table_frames s"
    by (rule same_space(3) [OF vm_spaceD(1) [OF r(1)]]) (use tb in simp_all)
qed

text \<open>Writing through a region, as its owner does: only bytes of one of its frames change.\<close>

lemma vm_rep_frame_write:
  fixes s :: "'a vmsys_scheme"
  assumes rep: "vm_rep s xs" and g: "g \<in> set (region_frames xs)" and same: "\<And>x. frm x \<noteq> g \<Longrightarrow> m x = mem s x"
  shows "vm_rep (s\<lparr>mem := m\<rparr>) xs" "owned (s\<lparr>mem := m\<rparr>) = owned s" "live (s\<lparr>mem := m\<rparr>) = live s"
proof -
  note r = vm_repD [OF rep]
  have "g \<in> owned s" using g vm_spaceD(9) [OF r(1)] by blast
  then have "m x = mem s x" if "frm x \<in> table_frames s \<union> heap_frames s" for x
    by (intro same) (use that g r(4) in \<open>auto simp: owned_def\<close>)
  note e = vm_rep_elsewhere [OF rep this]
  show "vm_rep (s\<lparr>mem := m\<rparr>) xs" "owned (s\<lparr>mem := m\<rparr>) = owned s" "live (s\<lparr>mem := m\<rparr>) = live s"
    by (rule e; simp)+
qed

lemma vm_rep_region_write:
  fixes s :: "'a vmsys_scheme"
  assumes rep: "vm_rep s xs" and v: "4096 \<le> frm v" and st: "vstore8 v b s = Inr s'"
  shows "vm_rep s' xs"
proof -
  obtain p where p: "translate s v = Some p" and s': "s' = s\<lparr>mem := store8 p b (mem s)\<rparr>"
    using st by (auto simp: vstore8_def split: option.splits)
  show ?thesis unfolding s'
    by (rule vm_rep_frame_write [OF rep region_target(1) [OF rep v p]]) (auto simp: store8_def)
qed

text \<open>
  From start-up on the kernel allocates and frees regions, writes through them, allocates from the
  heap, and frees and writes blocks of the heap that are not region descriptors.
\<close>

inductive vm_reachable :: "'a vmsys_scheme \<Rightarrow> bool" where
  boot: "memory_layout kpd kpt kernel_end s \<Longrightarrow> paging_init kpd kpt s = Inr s1 \<Longrightarrow>
    vm_reachable (vmalloc_init (kmalloc_init kernel_end s1))"
| region: "vm_reachable s \<Longrightarrow> unat n \<le> 0xE0000000 \<Longrightarrow> vmalloc n s = Inr (p, s') \<Longrightarrow> vm_reachable s'"
| release: "vm_reachable s \<Longrightarrow> vfree p s = Inr s' \<Longrightarrow> vm_reachable s'"
| poke: "vm_reachable s \<Longrightarrow> 4096 \<le> frm v \<Longrightarrow> vstore8 v b s = Inr s' \<Longrightarrow> vm_reachable s'"
| block: "vm_reachable s \<Longrightarrow> serveable n \<Longrightarrow> kmalloc n s = Some (p, s') \<Longrightarrow> vm_reachable s'"
| unblock: "vm_reachable s \<Longrightarrow> (p, k) \<in> live s \<Longrightarrow> \<forall>xs. vm_rep s xs \<longrightarrow> p \<notin> vdesc ` set xs \<Longrightarrow>
    kfree p s = Inr s' \<Longrightarrow> vm_reachable s'"

inductive_cases vm_reachableE: "vm_reachable s"

lemma vm_reachable_rep: "vm_reachable s \<Longrightarrow> \<exists>xs. vm_rep s xs"
proof (induction rule: vm_reachable.induct)
  case (boot kpd kpt kernel_end s s1)
  then show ?case using memory_boot [OF boot(1)] by auto
next
  case (region s n p s')
  then show ?case using vmalloc_any by blast
next
  case (release s p s')
  then show ?case using vfree_any by blast
next
  case (poke s v b s')
  then show ?case using vm_rep_region_write by blast
next
  case (block s n p s')
  then obtain xs where rep: "vm_rep s xs" by blast
  note inv = vm_listD(1) [OF vm_repD(2) [OF rep]]
  have "live s \<subseteq> live s'"
    using kheap.alloc_null [OF inv block(2)] kheap.alloc_block [OF inv block(2,3)] block(3) by (cases "p = NULL") auto
  then have "vm_rep s' xs"
    by (intro vm_rep_heap [OF rep kmalloc_only_heap [OF inv block(2,3)] kheap.alloc_inv [OF inv block(2,3)]])
      (use kheap.alloc_bytes [OF inv block(2,3)] in auto)
  then show ?case by blast
next
  case (unblock s p k s')
  then obtain xs where rep: "vm_rep s xs" by blast
  note inv = vm_listD(1) [OF vm_repD(2) [OF rep]]
  obtain t where t: "kfree p s = Inr t" "heap_inv t" "live t = live s - {(p, k)}"
    "\<And>q l x. (q, l) \<in> live t \<Longrightarrow> unat x \<in> payload (q, l) \<Longrightarrow> mem t x = mem s x"
    using kheap.release_ok [OF inv unblock(2)] by meson
  have "vm_rep t xs"
    by (rule vm_rep_heap [OF rep kfree_only_heap [OF inv unblock(2) t(1)] t(2)]) (use t(3,4) unblock(3) rep in blast)+
  then show ?case using t(1) unblock(4) by auto
qed

section \<open>Properties\<close>

text \<open>The machine of the witnesses: 16 frames free at 10 MiB, paging off.\<close>

definition few_free :: pmm where
  "few_free = pmm_mark_region_free 0xA00000 0x10000 (all_used 0x1000000)"

definition blank_vm :: vmsys where
  "blank_vm = \<lparr>mem = (\<lambda>_. 0), cr0 = 0, cr3 = 0, tlb = Map.empty, frames = few_free, con = [],
     current_directory = 0, kernel_directory = 0, heap_start = 0, heap_end = 0, heap_max = 0, block_list = 0,
     total_allocations = 0, total_frees = 0, vmalloc_current = 0, region_list = 0, total_regions = 0,
     total_pages_allocated = 0\<rparr>"

lemma few_free_state:
  "pmm_inv few_free" "total_frames few_free = 0x1000" "used_set few_free = {0..<4096} - {2560..<2576}"
proof -
  have all: "pmm_inv (all_used 0x1000000)" "used_set (all_used 0x1000000) = {0..<4096}"
    using all_used_inv [of "0x1000000"] by simp_all
  note e = pmm_mark_region_free_effect [OF all(1), of "0xA00000" "0x10000", folded few_free_def]
  show "pmm_inv few_free" by (rule e(1))
  show "total_frames few_free = 0x1000" using e(2) by (simp add: all_used_def)
  have "unat (ADDR_TO_PFN (PAGE_ALIGN_UP 0xA00000)) = 2560" by (subst unat_PAGE_ALIGN_UP_pfn) simp_all
  then show "used_set few_free = {0..<4096} - {2560..<2576}" using e(3) all(2) by simp
qed

lemma blank_vm_layout: "memory_layout 0x110000 0x111000 0x120000 blank_vm"
  unfolding memory_layout_def blank_vm_def paging_off_def image_layout_def low_page_def pmm_ok_def
  by (simp add: few_free_state)

lemma boot_vm:
  "\<exists>s :: vmsys. vm_reachable s \<and> vm_rep s [] \<and> vmalloc_current s = 0x1000000 \<and> \<not> cramped (frames s) 2 \<and>
     (\<nexists>t. kmalloc 24 s = Some (NULL, t)) \<and> live s = {}"
proof -
  obtain s1 where s1: "paging_init 0x110000 0x111000 blank_vm = Inr s1"
    "vm_rep (vmalloc_init (kmalloc_init 0x120000 s1)) []" "heap_rep (vmalloc_init (kmalloc_init 0x120000 s1)) []"
    "total_frames (frames (vmalloc_init (kmalloc_init 0x120000 s1))) = total_frames (frames blank_vm)"
    "used_set (frames (vmalloc_init (kmalloc_init 0x120000 s1))) =
      used_set (frames blank_vm) \<union> heap_frames (vmalloc_init (kmalloc_init 0x120000 s1))"
    using memory_boot [OF blank_vm_layout] by blast
  let ?t = "vmalloc_init (kmalloc_init 0x120000 s1)"
  have b: "heap_start ?t = 0x130000" "heap_end ?t = 0x130000" "heap_max ?t = 0x930000"
    by (simp_all add: vmalloc_init_def kmalloc_init_def Let_def PAGE_ALIGN_UP_def)
  have "heap_frames ?t \<subseteq> {0..<4096} - {2560..<2576}" by (auto simp: heap_frames_def heap_bytes_def b)
  then have u: "used_set (frames ?t) \<subseteq> {0..<4096} - {2560..<2576}"
    using s1(5) by (auto simp: blank_vm_def few_free_state)
  have "card ({0..<4096} - {2560..<2576 :: nat}) = 4080" by (simp add: card_Diff_subset)
  then have "card (used_set (frames ?t)) \<le> 4080" using card_mono [OF _ u] by simp
  then have "\<not> cramped (frames ?t) 2" using s1(4) by (simp add: cramped_def blank_vm_def few_free_state)
  moreover have "request_size 24 = 24" by (simp add: request_size_def ALIGN_def)
  then have "\<exists>s'. kmalloc 24 ?t = Some (0x130018, s')"
    using kmalloc_extend [OF s1(3), of 24] by (auto simp: b)
  then have "\<nexists>t. kmalloc 24 ?t = Some (NULL, t)" by auto
  moreover have "vmalloc_current ?t = 0x1000000" by (simp add: vmalloc_init_def)
  moreover have "live ?t = {}" using live_rep [OF s1(3)] by simp
  ultimately show ?thesis using vm_reachable.boot [OF blank_vm_layout s1(1)] s1(2) by blast
qed

text \<open>What a region looks like from outside: every address of it reads zero from a fresh frame.\<close>

definition fresh_region :: "'a vmsys_scheme \<Rightarrow> 'a vmsys_scheme \<Rightarrow> u32 \<Rightarrow> nat \<Rightarrow> bool" where
  "fresh_region s s' v k \<longleftrightarrow> (\<forall>a. unat v \<le> unat a \<longrightarrow> unat a < unat v + k \<longrightarrow>
     translate s a = None \<and> (\<exists>p. translate s' a = Some p \<and> frm p \<notin> used_set (frames s) \<and> mem s' p = 0))"

text \<open>Translations outside a range, and the bytes they lead to above the identity mapping, stay.\<close>

definition elsewhere_same :: "'a vmsys_scheme \<Rightarrow> 'a vmsys_scheme \<Rightarrow> u32 \<Rightarrow> nat \<Rightarrow> bool" where
  "elsewhere_same s s' v k \<longleftrightarrow> (\<forall>a. \<not> (unat v \<le> unat a \<and> unat a < unat v + k) \<longrightarrow>
     translate s' a = translate s a \<and>
     (\<forall>p. 0x1000000 \<le> unat a \<longrightarrow> translate s a = Some p \<longrightarrow> mem s' p = mem s p))"

lemma in_range_pages:
  fixes v a :: u32
  shows "unat v = 4096 * b \<Longrightarrow> unat v \<le> unat a \<and> unat a < unat v + 4096 * k \<longleftrightarrow> b \<le> frm a \<and> frm a < b + k"
proof -
  assume v: "unat v = 4096 * b"
  have "4096 * b \<le> unat a \<longleftrightarrow> b \<le> unat a div 4096" by (simp add: less_eq_div_iff_mult_less_eq mult.commute)
  moreover have "unat a < 4096 * (b + k) \<longleftrightarrow> unat a div 4096 < b + k" by (simp add: less_mult_imp_div_less mult.commute div_less_iff_less_mult)
  ultimately show ?thesis using v by (simp add: frm_def algebra_simps)
qed

lemma elsewhere_sameI:
  fixes s s' :: "'a vmsys_scheme"
  assumes rep: "vm_rep s xs"
    and tr: "\<And>a. \<not> (unat v \<le> unat a \<and> unat a < unat v + k) \<Longrightarrow> translate s' a = translate s a"
    and bytes: "\<And>a q. \<not> (unat v \<le> unat a \<and> unat a < unat v + k) \<Longrightarrow> 4096 \<le> frm a \<Longrightarrow> translate s a = Some q \<Longrightarrow>
      frm q \<in> owned s - heap_frames s \<Longrightarrow> mem s' q = mem s q"
  shows "elsewhere_same s s' v k"
  unfolding elsewhere_same_def
proof (intro allI impI conjI)
  fix a :: u32 assume a: "\<not> (unat v \<le> unat a \<and> unat a < unat v + k)"
  then show "translate s' a = translate s a" by (rule tr)
  fix q assume q: "0x1000000 \<le> unat a" "translate s a = Some q"
  then have f: "4096 \<le> frm a" by (simp add: frm_def)
  then have "frm q \<in> owned s - heap_frames s" using region_target [OF rep f q(2)] by simp
  then show "mem s' q = mem s q" by (rule bytes [OF a f q(2)])
qed

lemma region_pages_fresh:
  fixes s s' :: "'a vmsys_scheme"
  assumes rep: "vm_rep s xs" and rep': "vm_rep s' (\<lparr>vdesc = p, vbase = b, vsz = n, vframes = G\<rparr> # xs)"
    and v: "unat v = 4096 * b" and above: "\<And>x. x \<in> set xs \<Longrightarrow> vbase x + length (vframes x) \<le> b"
    and G: "set G \<inter> used_set (frames s) = {}" "\<And>x. frm x \<in> set G \<Longrightarrow> mem s' x = 0"
    and bytes: "\<And>x. frm x \<in> owned s - heap_frames s \<Longrightarrow> mem s' x = mem s x"
  shows "fresh_region s s' v (4096 * length G)" "elsewhere_same s s' v (4096 * length G)"
proof -
  let ?x = "\<lparr>vdesc = p, vbase = b, vsz = n, vframes = G\<rparr>"
  note tr = vm_rep_translate [OF rep] and tr' = vm_rep_translate [OF rep']
  note sd' = vm_spaceD [OF vm_repD(1) [OF rep']]
  have b: "4096 \<le> b" using sd'(3) [of ?x] by simp
  have Gb: "g < 1048576" if "g \<in> set G" for g
    using owned_bound [OF sd'(1), of g] sd'(9) that by fastforce
  show "fresh_region s s' v (4096 * length G)"
    unfolding fresh_region_def
  proof (intro allI impI)
    fix a :: u32 assume "unat v \<le> unat a" "unat a < unat v + 4096 * length G"
    then have a: "b \<le> frm a" "frm a < b + length G" using in_range_pages [OF v, of a] by blast+
    let ?g = "G ! (frm a - b)"
    have g: "?g \<in> set G" using a by simp
    have "translate s' a = Some (page ?g OR PAGE_OFFSET a)" using tr' [of a] a b by (simp add: vpages_def)
    moreover have "translate s a = None" using tr [of a] a b vm_map_above [of xs b "frm a"] above by auto
    moreover have "frm (page ?g OR PAGE_OFFSET a) = ?g" by (rule frm_page_or [OF Gb [OF g]])
    ultimately show "translate s a = None \<and> (\<exists>p. translate s' a = Some p \<and> frm p \<notin> used_set (frames s) \<and> mem s' p = 0)"
      using g G by auto
  qed
  have "translate s' a = translate s a" if "\<not> (unat v \<le> unat a \<and> unat a < unat v + 4096 * length G)" for a
  proof -
    have "frm a \<notin> vpages ?x" using that in_range_pages [OF v, of a] by (simp add: vpages_def)
    then show ?thesis using tr [of a] tr' [of a] by simp
  qed
  then show "elsewhere_same s s' v (4096 * length G)" using bytes by (rule elsewhere_sameI [OF rep])
qed





lemma live_unique:
  assumes inv: "heap_inv s" and p: "(p, k) \<in> live s" "(p, l) \<in> live s"
  shows "k = l"
proof (rule ccontr)
  assume ne: "k \<noteq> l"
  obtain bs where rep: "heap_rep s bs" using inv by (auto simp: heap_inv_def)
  have "16 \<le> unat j" if j: "(p, j) \<in> live s" for j
  proof -
    obtain b where "b \<in> set bs" "j = sz b" using j live_rep [OF rep] by (auto simp: allocated_def)
    then show ?thesis using tiles_mem [OF heap_repD(5) [OF rep]] by blast
  qed
  from this [OF p(1)] this [OF p(2)] have "unat p \<in> payload (p, k) \<inter> payload (p, l)" by (simp add: payload_def)
  moreover have "payload (p, k) \<inter> payload (p, l) = {}" using kheap.disjoint [OF inv p] ne by simp
  ultimately show False by simp
qed

lemma fst_minus:
  assumes "\<And>l. (p, l) \<in> L \<Longrightarrow> l = k"
  shows "fst ` (L - {(p, k)}) = fst ` L - {p}"
proof -
  have "fst x \<noteq> p \<longleftrightarrow> x \<noteq> (p, k)" if "x \<in> L" for x
    using assms [of "snd x"] that by (cases x) auto
  then have "L - {(p, k)} = {x \<in> L. fst x \<noteq> p}" by blast
  then show ?thesis by (auto simp only:)
qed

text \<open>The range of a region after it is gone.\<close>

definition unmapped_range :: "'a vmsys_scheme \<Rightarrow> u32 \<Rightarrow> nat \<Rightarrow> bool" where
  "unmapped_range s v k \<longleftrightarrow> (\<forall>a. unat v \<le> unat a \<longrightarrow> unat a < unat v + k \<longrightarrow> translate s a = None)"

lemma region_pages_gone:
  fixes s s' :: "'a vmsys_scheme"
  assumes rep: "vm_rep s (us @ x # ys)" and rep': "vm_rep s' (us @ ys)"
    and ow: "owned s' = owned s - set (vframes x)"
    and bytes: "\<And>z. frm z \<in> owned s' - heap_frames s \<Longrightarrow> mem s' z = mem s z"
  shows "unmapped_range s' (page (vbase x)) (4096 * length (vframes x))"
    "elsewhere_same s s' (page (vbase x)) (4096 * length (vframes x))"
proof -
  note tr = vm_rep_translate [OF rep] and tr' = vm_rep_translate [OF rep']
  note sd = vm_spaceD [OF vm_repD(1) [OF rep]] and l = vm_listD [OF vm_repD(2) [OF rep]]
  have x: "4096 \<le> vbase x" "vbase x + length (vframes x) \<le> 65536" using sd(3,5) [of x] by simp_all
  then have v: "unat (page (vbase x)) = 4096 * vbase x" by (simp add: unat_page)
  note rg = in_range_pages [OF v, of _ "length (vframes x)"]
  have dis: "vpages x \<inter> vpages y = {}" if "y \<in> set (us @ ys)" for y
    by (rule sd(6)) (use that l(4) in auto)
  then have none: "vm_map (us @ ys) n = None" if "n \<in> vpages x" for n using that by (auto simp: vm_map_None)
  show "unmapped_range s' (page (vbase x)) (4096 * length (vframes x))"
    unfolding unmapped_range_def
  proof (intro allI impI)
    fix a :: u32 assume "unat (page (vbase x)) \<le> unat a" "unat a < unat (page (vbase x)) + 4096 * length (vframes x)"
    then have "frm a \<in> vpages x" using rg [of a] by (simp add: vpages_def)
    then show "translate s' a = None" using tr' [of a] none x(1) by (simp add: vpages_def)
  qed
  have vm: "vm_map (us @ x # ys) n = (if n \<in> vpages x then Some (vframes x ! (n - vbase x)) else vm_map (us @ ys) n)" for n
    by (rule vm_map_mid) (use dis in simp)
  show "elsewhere_same s s' (page (vbase x)) (4096 * length (vframes x))"
  proof (rule elsewhere_sameI [OF rep])
    fix a :: u32 assume "\<not> (unat (page (vbase x)) \<le> unat a \<and> unat a < unat (page (vbase x)) + 4096 * length (vframes x))"
    then have a: "frm a \<notin> vpages x" using rg [of a] by (simp add: vpages_def)
    then show tra: "translate s' a = translate s a" using tr [of a] tr' [of a] vm [of "frm a"] by simp
    fix q assume q: "4096 \<le> frm a" "translate s a = Some q" "frm q \<in> owned s - heap_frames s"
    then have "frm q \<in> owned s'" using region_target(2) [OF rep' q(1)] tra by simp
    then show "mem s' q = mem s q" using bytes q(3) by blast
  qed
qed



text \<open>The kernel of the witnesses after a first request.\<close>

lemma boot_region:
  "\<exists>(s :: vmsys) s' x. vm_reachable s \<and> vmalloc 5000 s = Inr (0x1000000, s') \<and> vm_reachable s' \<and> vm_rep s' [x] \<and>
     vbase x = 4096 \<and> length (vframes x) = 2"
proof -
  obtain s :: vmsys where s: "vm_reachable s" "vm_rep s []" "vmalloc_current s = 0x1000000" "\<not> cramped (frames s) 2"
    "\<nexists>t. kmalloc 24 s = Some (NULL, t)" using boot_vm by blast
  have f: "frm 0x1000000 = 4096" by (simp add: frm_def)
  show ?thesis
  proof (rule vmalloc_cases [OF s(2), of 5000])
    fix p k G s' assume s': "vmalloc 5000 s = Inr (vmalloc_current s, s')"
      "vm_rep s' [\<lparr>vdesc = p, vbase = frm (vmalloc_current s), vsz = 5000, vframes = G\<rparr>]"
      "length G = (unat (5000 :: u32) + 4095) div 4096"
    have "vm_reachable s'" by (rule vm_reachable.region [OF s(1) _ s'(1)]) simp
    then show ?thesis using s(1,3) s' f by (intro exI conjI) auto
  qed (use s(3-5) f in auto)
qed


text \<open>
  Taking a region and giving it back leaves no trace in the address space: every address
  translates as before, no frame but those of page tables is lost, the heap has the blocks it had,
  and no byte of another region or of a live block has changed.
\<close>
lemma vmalloc_vfree_roundtrip:
  assumes "vm_reachable s" "n \<noteq> 0" "unat n \<le> 0xE0000000" "vmalloc n s = Inr (p, s')" "p \<noteq> NULL"
  shows "\<exists>s''. vfree p s' = Inr s'' \<and> elsewhere_same s s'' 0 0 \<and> owned s'' = owned s \<and> live s'' = live s \<and>
    (\<forall>q l x. (q, l) \<in> live s \<longrightarrow> unat x \<in> payload (q, l) \<longrightarrow> mem s'' x = mem s x)"
proof -
  obtain xs where rep: "vm_rep s xs" using vm_reachable_rep [OF assms(1)] by blast
  show ?thesis
  proof (rule vmalloc_cases [OF rep assms(2,3)])
    fix r k G t assume t: "vmalloc n s = Inr (vmalloc_current s, t)"
      "vm_rep t (\<lparr>vdesc = r, vbase = frm (vmalloc_current s), vsz = n, vframes = G\<rparr> # xs)"
      "set G \<inter> used_set (frames s) = {}" "owned t = owned s \<union> set G"
      "live t = insert (r, k) (live s)" "\<And>l. (r, l) \<notin> live s"
      and hf: "heap_frames t = heap_frames s" and tb: "\<And>x. frm x \<in> owned s - heap_frames s \<Longrightarrow> mem t x = mem s x"
      and tl: "\<And>q l x. (q, l) \<in> live s \<Longrightarrow> unat x \<in> payload (q, l) \<Longrightarrow> mem t x = mem s x"
    let ?x = "\<lparr>vdesc = r, vbase = frm (vmalloc_current s), vsz = n, vframes = G\<rparr>"
    have "page (vbase ?x) = vmalloc_current s" using page_frm vm_repD(6) [OF rep] by simp
    then have p: "s' = t" "p = page (vbase ?x)" using assms(4) t(1) by simp_all
    have rep1: "vm_rep t ([] @ ?x # xs)" using t(2) by simp
    show ?thesis
    proof (rule vfree_cases [OF rep1])
      fix l u assume u: "vfree (page (vbase ?x)) t = Inr u" "vm_rep u ([] @ xs)" "(vdesc ?x, l) \<in> live t"
        "live u = live t - {(vdesc ?x, l)}" "owned u = owned t - set (vframes ?x)"
        "\<And>z. frm z \<in> owned u - heap_frames t \<Longrightarrow> mem u z = mem t z"
        "\<And>q l z. (q, l) \<in> live u \<Longrightarrow> q \<notin> vdesc ` set [] \<Longrightarrow> unat z \<in> payload (q, l) \<Longrightarrow> mem u z = mem t z"
      have "l = k" using u(3) t(5,6) by auto
      then have lv: "live u = live s" using u(4) t(5,6) by auto
      have "owned s \<inter> set G = {}" using t(3) by (auto simp: owned_def)
      then have ow: "owned u = owned s" using u(5) t(4) by auto
      have "elsewhere_same s u 0 0"
        by (rule elsewhere_sameI [OF rep])
          (use vm_rep_translate [OF rep] vm_rep_translate [OF u(2)] u(6) tb ow hf in simp_all)
      then show ?thesis using u(1,7) lv ow p tl by auto
    qed
  qed (use assms(4,5) in auto)
qed


text \<open>Lookups, and the numbers behind the statistics.\<close>

lemma vsize_found:
  fixes s :: "'a vmsys_scheme"
  assumes rep: "vm_rep s xs" and x: "x \<in> set xs"
  shows "vsize (page (vbase x)) s = Inr (vsz x)"
proof -
  note sd = vm_spaceD [OF vm_repD(1) [OF rep]] and l = vm_listD [OF vm_repD(2) [OF rep]]
  obtain us ys where xs: "xs = us @ x # ys" using x by (auto dest: split_list)
  have "vchain m (us @ x # ys) \<Longrightarrow> vm_region_at m (vdesc x) = vm_desc x (vfirst ys)" for m
    by (induction us) simp_all
  then have d: "vm_region_at (mem s) (vdesc x) = vm_desc x (vfirst ys)" using l(3) xs by simp
  have "page (vbase x) \<noteq> NULL" using sd(3,5) [OF x] unat_page [of "vbase x"] by (auto simp: word_eq_unat)
  then show ?thesis
    using vm_rep_found [of s us x ys] rep xs d l(6) [OF x] by (simp add: vsize_def vm_desc_def)
qed

lemma not_found:
  fixes s :: "'a vmsys_scheme"
  assumes rep: "vm_rep s xs" and p: "p \<noteq> NULL" "p \<notin> (\<lambda>x. page (vbase x)) ` set xs"
  shows "vsize p s = Inr 0" "vfree p s = Inl (Panic ''vfree: Invalid region (corrupted or double-free)'')"
proof -
  have "vmalloc_find_region p s = Inr (NULL, NULL)"
    by (rule vm_rep_lookup [OF rep, of p]) (use p(2) in auto)
  then show "vsize p s = Inr 0" "vfree p s = Inl (Panic ''vfree: Invalid region (corrupted or double-free)'')"
    using p(1) by (simp_all add: vsize_def vfree_def)
qed

lemma length_region_frames: "length (region_frames xs) = (\<Sum>x \<leftarrow> xs. length (vframes x))"
  by (induction xs) simp_all

lemma region_counts:
  assumes sp: "vm_space s xs"
  shows "length (region_frames xs) \<le> 4096" "length xs \<le> length (region_frames xs)"
proof -
  note sd = vm_spaceD [OF sp]
  have "set (region_frames xs) \<subseteq> {..<4096}" using sd(9) owned_bound [OF sd(1)] by blast
  then have "card (set (region_frames xs)) \<le> 4096" using card_mono [of "{..<4096}"] by fastforce
  then show "length (region_frames xs) \<le> 4096" using distinct_card [OF sd(7)] by simp
  have "(\<And>x. x \<in> set zs \<Longrightarrow> vframes x \<noteq> []) \<Longrightarrow> length zs \<le> length (region_frames zs)" for zs
  proof (induction zs)
    case (Cons z zs)
    then have "length zs \<le> length (region_frames zs)" "vframes z \<noteq> []" by simp_all
    then show ?case by (cases "vframes z") simp_all
  qed simp
  then show "length xs \<le> length (region_frames xs)" using sd(4) by blast
qed

lemma region_frames_disjoint:
  "distinct (region_frames xs) \<Longrightarrow> x \<in> set xs \<Longrightarrow> y \<in> set xs \<Longrightarrow> x \<noteq> y \<Longrightarrow> set (vframes x) \<inter> set (vframes y) = {}"
proof (induction xs)
  case (Cons z zs)
  have "w \<in> set zs \<Longrightarrow> set (vframes w) \<subseteq> set (region_frames zs)" for w by (auto simp: region_frames_def)
  then show ?case using Cons by fastforce
qed simp

lemma vm_stats:
  fixes s :: "'a vmsys_scheme"
  assumes rep: "vm_rep s xs"
  shows "unat (num_regions (vmalloc_get_stats s)) = length xs"
    "unat (used_virtual (vmalloc_get_stats s)) = 4096 * (\<Sum>x \<leftarrow> xs. length (vframes x))"
proof -
  note r = vm_repD [OF rep]
  note c = region_counts [OF r(1)]
  have u: "unat (total_pages_allocated s) = length (region_frames xs)" "unat (total_regions s) = length xs"
    unfolding r(10,11) using c by (auto intro!: unat_word_of_nat_u32)
  then show "unat (num_regions (vmalloc_get_stats s)) = length xs" by (simp add: vmalloc_get_stats_def)
  show "unat (used_virtual (vmalloc_get_stats s)) = 4096 * (\<Sum>x \<leftarrow> xs. length (vframes x))"
    using unat_mult_exact [of "total_pages_allocated s" PAGE_SIZE] u(1) c(1)
    by (simp add: vmalloc_get_stats_def length_region_frames)
qed




text \<open>A request so large that rounding it up to pages wraps around.\<close>

lemma wrapped_pages:
  assumes "0xFFFFF000 < unat n"
  shows "(n + PAGE_SIZE - 1) div PAGE_SIZE = 0"
proof -
  have e: "n + PAGE_SIZE - 1 = n + 4095" by simp
  have "unat (n + 4095) = (unat n + 4095) mod 4294967296" by (simp add: unat_add_mod)
  also have "\<dots> = unat n + 4095 - 4294967296"
    using assms unat_u32_bound [of n] by (subst mod_if) simp
  also have "\<dots> < 4096" using unat_u32_bound [of n] by simp
  finally have "unat (n + 4095) div 4096 = 0" by simp
  then show ?thesis unfolding e by (simp add: word_eq_unat unat_div)
qed

text \<open>
  A request of more than \<open>0xFFFFF000\<close> bytes is rounded up to no page at all. \<open>vmalloc\<close> then
  succeeds: it returns an address and records the region with the requested size, but the address
  is not mapped, so the first access faults.
\<close>
lemma vmalloc_huge_maps_nothing:
  assumes "vm_reachable s" "0xFFFFF000 < unat n" "\<nexists>t. kmalloc 24 s = Some (NULL, t)"
  shows "\<exists>s'. vmalloc n s = Inr (vmalloc_current s, s') \<and> vsize (vmalloc_current s) s' = Inr n \<and>
    translate s' (vmalloc_current s) = None"
proof -
  obtain xs where rep: "vm_rep s xs" using vm_reachable_rep [OF assms(1)] by blast
  note r = vm_repD [OF rep]
  note inv = vm_listD(1) [OF r(2)]
  obtain p s1 where k: "kmalloc 24 s = Some (p, s1)" using kheap.alloc_returns [OF inv serveable_24] by blast
  have p: "p \<noteq> NULL" using assms(3) k by auto
  obtain l where l: "24 \<le> unat l" "live s1 = insert (p, l) (live s)" "\<And>l. (p, l) \<notin> live s"
    using kheap.alloc_block [OF inv serveable_24 k p] by auto
  note oh = kmalloc_only_heap [OF inv serveable_24 k] and inv1 = kheap.alloc_inv [OF inv serveable_24 k]
  have rep1: "vm_rep s1 xs"
    by (rule vm_rep_heap [OF rep oh inv1]) (use l(2) kheap.alloc_bytes [OF inv serveable_24 k] in auto)
  note r1 = vm_repD [OF rep1] and cur = only_heap_vm(1) [OF oh]
  have n: "n \<noteq> 0" using assms(2) by auto
  let ?v = "vmalloc_current s" and ?m = "write_desc p (vmalloc_current s) n 0 0 (region_list s1) (mem s1)"
  let ?s = "s1\<lparr>mem := ?m, region_list := p, total_regions := total_regions s1 + 1\<rparr>"
  have lim: "\<not> VMALLOC_END < ?v"
    using r(6,8) by (auto simp: word_less_nat_alt frm_def)
  have vm: "vmalloc n s = Inr (?v, ?s)"
    using lim k p cur wrapped_pages [OF assms(2)]
    by (simp add: vmalloc_eq [OF n] Let_def of_walk_def vmalloc_mapped_def map_pages.simps [of _ 0])
  have out: "?m x = mem s1 x" if x: "frm x \<in> table_frames s1" for x
  proof (rule region_set_other(3))
    have "unat x \<notin> payload (p, l)" using live_owned(1) [OF rep1, of p l x] l(2) x by (auto simp: owned_def)
    then show "outside p 24 x" using desc_payload [OF inv1, of p l x] l(1,2) by (force simp: outside_def)
  qed
  have ok: "small_ok s1" by (rule vm_spaceD(1) [OF r1(1)])
  have ok': "small_ok ?s" by (rule same_space(1) [OF ok]) (simp_all add: out)
  have "walk ?m (current_directory s1) ?v = walk (mem s1) (current_directory s1) ?v"
    using same_space(2) [OF ok, of ?s ?v] out by simp
  then have "translate ?s ?v = translate s1 ?v"
    using translate_walk [OF small_okD(1) [OF ok]] translate_walk [OF small_okD(1) [OF ok']] by simp
  moreover have "vm_map xs (frm ?v) = None" using vm_map_above r1(9) cur by (metis order_refl)
  then have "translate s1 ?v = None" using vm_rep_translate [OF rep1, of ?v] r(7) by simp
  moreover have "?v \<noteq> NULL" using r(7) by (auto simp: frm_def)
  then have "vsize ?v ?s = Inr n"
    using p by (simp add: vsize_def vmalloc_find_region_def of_walk_def find_region_from.simps [of _ _ _ p] region_of_write_desc)
  ultimately show ?thesis using vm by auto
qed


end
