(* ===== verification/Shell_Tests_Spec.thy ===== *)
theory Shell_Tests_Spec
  imports Shell_Tests Vmalloc_Claims
begin

unbundle bit_operations_syntax

text \<open>
  What the self tests of the shell establish: with enough memory each prints \<open>PASS\<close> and gives back
  what it took.
\<close>

section \<open>What printing changes\<close>

definition printed :: "'a machine_scheme \<Rightarrow> string \<Rightarrow> 'a machine_scheme \<Rightarrow> bool" where
  "printed s t s' \<longleftrightarrow> s' = s\<lparr>con := con s @ t\<rparr>"

text \<open>The last text on the console.\<close>

definition ends_with :: "'a machine_scheme \<Rightarrow> string \<Rightarrow> bool" where
  "ends_with s t \<longleftrightarrow> (\<exists>u. con s = u @ t)"

lemma say_fields [simp]:
  "mem (say ts s) = mem s" "cr0 (say ts s) = cr0 s" "cr3 (say ts s) = cr3 s" "tlb (say ts s) = tlb s"
  "frames (say ts s) = frames s" "con (say ts s) = con s @ concat ts"
  by (simp_all add: say_def terminal_print_def)

lemma say_access [simp]: "translate (say ts s) v = translate s v" "vload32 (say ts s) v = vload32 s v" "vload8 (say ts s) v = vload8 s v"
proof -
  show t: "translate (say ts s) v = translate s v" by (simp add: translate_def)
  show "vload32 (say ts s) v = vload32 s v" "vload8 (say ts s) v = vload8 s v"
    by (simp_all add: vload32_def vload8_def t split: option.split)
qed

lemma say_frames: "(say ts s)\<lparr>frames := f\<rparr> = say ts (s\<lparr>frames := f\<rparr>)"
  by (simp add: say_def terminal_print_def)

lemma ends_with_say [simp]: "ends_with (say [t] s) t"
  by (simp add: ends_with_def)

section \<open>Frames (\<open>pmmtest\<close>)\<close>

text \<open>The frames \<open>pmm_alloc_frame\<close> may hand out.\<close>

definition allocatable :: "pmm \<Rightarrow> nat set" where
  "allocatable p = {n \<in> free_set p. n < 8 * (unat (total_frames p) div 8)}"

lemma finite_allocatable [simp]: "finite (allocatable p)"
  by (simp add: allocatable_def free_set_def)

lemma alloc_some:
  assumes "pmm_ok p" "allocatable p \<noteq> {}"
  obtains n q where "pmm_alloc_frame p = (page n, q)" "n \<in> allocatable p" "page n \<noteq> 0" "unat (page n) div 4096 = n"
    "pmm_ok q" "used_set q = insert n (used_set p)" "total_frames q = total_frames p"
    "used_frames q = used_frames p + 1" "allocatable q = allocatable p - {n}"
proof -
  have inv: "pmm_inv p" using assms(1) by (simp add: pmm_ok_def)
  obtain n where n: "first_free p = Some n"
    using assms(2) first_free_None [of p] by (cases "first_free p") (auto simp: allocatable_def)
  note sm = pmm_alloc_frame_Some [OF inv n]
  obtain a q where pq: "pmm_alloc_frame p = (a, q)" by (cases "pmm_alloc_frame p")
  have nn: "n \<in> allocatable p" using n by (simp add: first_free_Some allocatable_def)
  have nz: "n \<noteq> 0" using pmm_ok_first_free [OF assms(1)] n by auto
  have small: "n < 1048576" using nn pmm_inv_total [OF inv] by (auto simp: allocatable_def free_set_def)
  have a: "a = page n" using sm(1) pq by (simp add: word_eq_unat unat_page [OF small] mult.commute)
  have q: "pmm_ok q" using pmm_frames.alloc_inv [OF assms(1)] pq by simp
  have u: "used_set q = insert n (used_set p)" using sm(3) pq by simp
  have t: "total_frames q = total_frames p" using pmm_alloc_frame_total(1) [of p] pq by simp
  have "used_frames q = used_frames p + 1" if "a \<noteq> 0"
    using pq that by (auto simp: pmm_alloc_frame_def Let_def split: if_splits)
  moreover have "page n \<noteq> 0" using unat_page [OF small] nz by (auto simp: word_eq_unat)
  moreover have "allocatable q = allocatable p - {n}" by (auto simp: allocatable_def free_set_def u t)
  ultimately show ?thesis using that [of n q] pq a nn q u t unat_page [OF small] by simp
qed

lemma alloc_none: "pmm_ok p \<Longrightarrow> allocatable p = {} \<Longrightarrow> pmm_alloc_frame p = (0, p)"
  by (rule pmm_alloc_frame_None) (auto simp: pmm_ok_def first_free_None allocatable_def not_less [symmetric])

lemma used_frames_eqI:
  assumes "pmm_inv p" "pmm_inv q" "used_set p = used_set q"
  shows "used_frames p = used_frames q"
  using assms by (simp add: pmm_inv_def word_eq_unat)

lemma page_0: "page 0 = 0"
  by (simp add: page_def)

text \<open>Three allocations in a row, and giving the frames back.\<close>

lemma alloc3_short:
  assumes ok: "pmm_ok p" and short: "card (allocatable p) < 3"
  obtains f1 f2 f3 q where "alloc3 p = (f1, f2, f3, q)" "f1 = 0 \<or> f2 = 0 \<or> f3 = 0"
    "used_set q = used_set p \<union> allocatable p"
proof -
  have "\<exists>f1 f2 f3 q. alloc3 p = (f1, f2, f3, q) \<and> (f1 = 0 \<or> f2 = 0 \<or> f3 = 0) \<and> used_set q = used_set p \<union> allocatable p"
  proof (cases "allocatable p = {}")
    case True
    then show ?thesis using alloc_none [OF ok True] by (simp add: alloc3_def)
  next
    case False
    obtain n q where q: "pmm_alloc_frame p = (page n, q)" "n \<in> allocatable p" "pmm_ok q"
        "used_set q = insert n (used_set p)" "allocatable q = allocatable p - {n}"
      using alloc_some [OF ok False] by metis
    show ?thesis
    proof (cases "allocatable q = {}")
      case True
      then have "allocatable p = {n}" using q(2,5) by blast
      then show ?thesis using q alloc_none [OF q(3) True] by (simp add: alloc3_def)
    next
      case False
      obtain m r where r: "pmm_alloc_frame q = (page m, r)" "m \<in> allocatable q" "pmm_ok r"
          "used_set r = insert m (used_set q)" "allocatable r = allocatable q - {m}"
        using alloc_some [OF q(3) False] by metis
      have "card (allocatable r) = 0" using short r(2,5) q(2,5) by (simp add: card_Diff_singleton_if)
      then have e: "allocatable r = {}" by simp
      have "allocatable p = {n, m}" using q(2,5) r(2,5) e by blast
      then show ?thesis using q(1,4) r(1,4) alloc_none [OF r(3) e] by (simp add: alloc3_def insert_commute)
    qed
  qed
  then show ?thesis using that by blast
qed

lemma alloc3_full:
  assumes ok: "pmm_ok p" and "3 \<le> card (allocatable p)"
  obtains f1 f2 f3 q where "alloc3 p = (f1, f2, f3, q)" "f1 \<noteq> 0" "f2 \<noteq> 0" "f3 \<noteq> 0"
    "used_frames q = used_frames p + 3" "total_frames q = total_frames p"
    "let r = pmm_free_frame f3 (pmm_free_frame f2 (pmm_free_frame f1 q))
     in pmm_ok r \<and> used_set r = used_set p \<and> total_frames r = total_frames p"
proof -
  have "allocatable p \<noteq> {}" using assms(2) by auto
  then obtain n q where q: "pmm_alloc_frame p = (page n, q)" "n \<in> allocatable p" "page n \<noteq> 0" "unat (page n) div 4096 = n"
      "pmm_ok q" "used_set q = insert n (used_set p)" "total_frames q = total_frames p"
      "used_frames q = used_frames p + 1" "allocatable q = allocatable p - {n}"
    using alloc_some [OF ok] by metis
  have "card (allocatable q) = card (allocatable p) - 1" using q(2,9) by simp
  then have c2: "2 \<le> card (allocatable q)" using assms(2) by linarith
  then have "allocatable q \<noteq> {}" by auto
  then obtain m r where r: "pmm_alloc_frame q = (page m, r)" "m \<in> allocatable q" "page m \<noteq> 0" "unat (page m) div 4096 = m"
      "pmm_ok r" "used_set r = insert m (used_set q)" "total_frames r = total_frames q"
      "used_frames r = used_frames q + 1" "allocatable r = allocatable q - {m}"
    using alloc_some [OF q(5)] by metis
  have "card (allocatable r) = card (allocatable q) - 1" using r(2,9) by simp
  then have "1 \<le> card (allocatable r)" using c2 by linarith
  then have "allocatable r \<noteq> {}" by auto
  then obtain k t where t: "pmm_alloc_frame r = (page k, t)" "k \<in> allocatable r" "page k \<noteq> 0" "unat (page k) div 4096 = k"
      "pmm_ok t" "used_set t = insert k (used_set r)" "total_frames t = total_frames r" "used_frames t = used_frames r + 1"
    using alloc_some [OF r(5)] by metis
  let ?a = "pmm_free_frame (page n) t" and ?b = "pmm_free_frame (page m) (pmm_free_frame (page n) t)"
  let ?c = "pmm_free_frame (page k) ?b"
  have fresh: "n \<notin> used_set p" "m \<notin> used_set q" "k \<notin> used_set r"
    using q(2) r(2) t(2) by (auto simp: allocatable_def free_set_def)
  have nz: "n \<noteq> 0" "m \<noteq> 0" "k \<noteq> 0" using q(3) r(3) t(3) by (metis page_0)+
  have a: "pmm_ok ?a" by (rule pmm_frames.release_inv [OF t(5)]) (simp add: q(4) nz)
  have b: "pmm_ok ?b" by (rule pmm_frames.release_inv [OF a]) (simp add: r(4) nz)
  have c: "pmm_ok ?c" by (rule pmm_frames.release_inv [OF b]) (simp add: t(4) nz)
  have "used_set ?c = used_set t - {n} - {m} - {k}"
    by (simp add: pmm_frames.release_used t(5) a b q(4) r(4) t(4))
  also have "\<dots> = used_set p" using fresh q(6) r(6) t(6) by auto
  finally have u: "used_set ?c = used_set p" .
  show ?thesis
    by (rule that [of "page n" "page m" "page k" t])
      (simp_all add: alloc3_def q r t u c Let_def)
qed

lemma free_run_used: "free_run p n s \<longleftrightarrow> s + n \<le> unat (total_frames p) \<and> {s..<s + n} \<inter> used_set p = {}"
  by (auto simp: free_run_iff in_used_set)

lemma contiguous_effect:
  assumes ok: "pmm_ok p"
  shows "case pmm_alloc_frames 4 p of (a, q) \<Rightarrow>
    if \<exists>n. free_run p 4 n then a \<noteq> 0 \<and> pmm_ok (pmm_free_frames a 4 q) \<and> used_set (pmm_free_frames a 4 q) = used_set p \<and>
      total_frames (pmm_free_frames a 4 q) = total_frames p
    else a = 0 \<and> q = p"
proof -
  have inv: "pmm_inv p" using ok by (simp add: pmm_ok_def)
  obtain a q where pq: "pmm_alloc_frames 4 p = (a, q)" by (cases "pmm_alloc_frames 4 p")
  note f = pmm_alloc_frames_first_run [OF inv _ pq, simplified]
  show ?thesis
  proof (cases "first_run p 4")
    case None
    then show ?thesis using f by (simp add: pq)
  next
    case (Some n)
    then have n: "unat a = n * 4096" "free_run p 4 n" "used_set q = used_set p \<union> {n..<n + 4}" "pmm_inv q" using f by auto
    have run: "n + 4 \<le> unat (total_frames p)" "k < 4 \<Longrightarrow> n + k \<notin> used_set p" for k
      using n(2) by (auto simp: free_run_iff in_used_set)
    have free_disjoint: "used_set p \<inter> {n..<n + 4} = {}" using n(2) by (auto simp: free_run_iff in_used_set)
    have "n \<notin> used_set p" using run(2) [of 0] by simp
    then have "n \<noteq> 0" using ok by (metis pmm_ok_def)
    then have a: "a \<noteq> 0" using n(1) by (auto simp: word_eq_unat)
    have small: "n + 4 \<le> 32768" using run(1) pmm_inv_total [OF inv] by simp
    have pf: "ADDR_TO_PFN a = word_of_nat n" using small by (simp add: word_eq_unat unat_ADDR_TO_PFN n(1) word_nat)
    have "unat (ADDR_TO_PFN a + word_of_nat k) = n + k" if "k < 4" for k
      using that small by (simp add: pf word_nat flip: of_nat_add)
    then have im: "(\<lambda>k. unat (ADDR_TO_PFN a + word_of_nat k)) ` {0..<4} = {n..<n + 4}"
      by (subst image_cong [where g = "\<lambda>k. n + k"]) (auto simp: image_add_atLeastLessThan)
    note fr = pmm_free_frames_effect [OF n(4), of a 4]
    have u: "used_set (pmm_free_frames a 4 q) = used_set p"
      using free_disjoint fr(3) im n(3) by auto
    have t: "total_frames q = total_frames p"
      using pq by (auto simp: pmm_alloc_frames_def Let_def split: if_splits)
    show ?thesis using n(2) a u fr(1,2) t ok by (auto simp: pq pmm_ok_def)
  qed
qed

lemma stats_free_eqI:
  assumes "pmm_ok p" "pmm_ok q" "used_set p = used_set q" "total_frames p = total_frames q"
  shows "st_free_frames (pmm_get_stats p) = st_free_frames (pmm_get_stats q)"
proof -
  have "used_frames p = used_frames q" using assms by (intro used_frames_eqI) (simp_all add: pmm_ok_def)
  then show ?thesis using assms(4) by (simp add: pmm_get_stats_def)
qed

lemma pmmtest_contiguous_effect:
  fixes z :: "'a machine_scheme"
  assumes ok: "pmm_ok p" and r: "pmm_ok (frames z)" "used_set (frames z) = used_set p" "total_frames (frames z) = total_frames p"
  defines "c \<equiv> pmmtest_contiguous (st_free_frames (pmm_get_stats p)) True z"
  shows "fst c = (\<exists>n. free_run p 4 n) \<and> used_set (frames (snd c)) = used_set p"
proof -
  obtain a t where t: "pmm_alloc_frames 4 (frames z) = (a, t)" by (cases "pmm_alloc_frames 4 (frames z)")
  note e = contiguous_effect [OF r(1), unfolded t prod.case]
  have fr: "free_run (frames z) 4 n \<longleftrightarrow> free_run p 4 n" for n by (simp add: free_run_used r)
  show ?thesis
  proof (cases "\<exists>n. free_run (frames z) 4 n")
    case True
    then have q: "a \<noteq> 0" "pmm_ok (pmm_free_frames a 4 t)" "used_set (pmm_free_frames a 4 t) = used_set (frames z)"
        "total_frames (pmm_free_frames a 4 t) = total_frames (frames z)" using e by simp_all
    have "st_free_frames (pmm_get_stats (pmm_free_frames a 4 t)) = st_free_frames (pmm_get_stats p)"
      by (rule stats_free_eqI [OF q(2) ok]) (simp_all add: q r)
    then show ?thesis using True q r(2) fr by (simp add: c_def pmmtest_contiguous_def t Let_def)
  next
    case False
    then show ?thesis using e r(2) fr by (simp add: c_def pmmtest_contiguous_def t Let_def)
  qed
qed

text \<open>
  C32. \<open>pmmtest\<close> tells the truth about the frame allocator. With three frames to hand out it gives
  back all it took, and its last line is \<open>PASS\<close> exactly when there is a run of four free frames.
  With fewer, it reports the failure and keeps the one or two frames it got.
\<close>

theorem pmmtest_correct:
  assumes ok: "pmm_ok (frames s)"
  shows "if 3 \<le> card (allocatable (frames s))
    then used_set (frames (cmd_pmmtest s)) = used_set (frames s) \<and>
      ends_with (cmd_pmmtest s) (if \<exists>n. free_run (frames s) 4 n then line ''pmmtest: PASS'' else line ''pmmtest: FAIL'')
    else used_set (frames (cmd_pmmtest s)) = used_set (frames s) \<union> allocatable (frames s) \<and>
      ends_with (cmd_pmmtest s) (line ''pmmtest: FAIL (alloc returned 0)'')"
proof -
  let ?p = "frames s" and ?s = "cmd_pmmtest s"
  let ?o = "say [''pmmtest: initial free='', dec_string (st_free_frames (pmm_get_stats ?p)), line []] s"
  show ?thesis
  proof (cases "3 \<le> card (allocatable ?p)")
    case False
    then have "card (allocatable ?p) < 3" by simp
    then obtain f1 f2 f3 q where f: "alloc3 ?p = (f1, f2, f3, q)" "f1 = 0 \<or> f2 = 0 \<or> f3 = 0"
        "used_set q = used_set ?p \<union> allocatable ?p"
      by (rule alloc3_short [OF ok])
    have "?s = say [line ''pmmtest: FAIL (alloc returned 0)''] (?o\<lparr>frames := q\<rparr>)"
      unfolding cmd_pmmtest_def Let_def say_fields f(1) prod.case using f(2) by (simp only: if_True)
    then show ?thesis using False f(3) by (simp only: if_False say_fields ends_with_say) simp
  next
    case True
    then obtain f1 f2 f3 q where f: "alloc3 ?p = (f1, f2, f3, q)" "f1 \<noteq> 0" "f2 \<noteq> 0" "f3 \<noteq> 0"
        "used_frames q = used_frames ?p + 3" "total_frames q = total_frames ?p"
        "let r = pmm_free_frame f3 (pmm_free_frame f2 (pmm_free_frame f1 q))
         in pmm_ok r \<and> used_set r = used_set ?p \<and> total_frames r = total_frames ?p"
      by (rule alloc3_full [OF ok])
    define r where "r = pmm_free_frame f3 (pmm_free_frame f2 (pmm_free_frame f1 q))"
    have r: "pmm_ok r" "used_set r = used_set ?p" "total_frames r = total_frames ?p" using f(7) by (simp_all add: r_def Let_def)
    have ur: "st_free_frames (pmm_get_stats r) = st_free_frames (pmm_get_stats ?p)" by (rule stats_free_eqI) (simp_all add: r ok)
    have d: "st_free_frames (pmm_get_stats q) - st_free_frames (pmm_get_stats ?p) = -3"
      using f(5,6) by (simp add: pmm_get_stats_def)
    obtain z where z: "pmmtest_frames (st_free_frames (pmm_get_stats ?p)) f1 f2 f3 (?o\<lparr>frames := q\<rparr>) = (True, z)" "frames z = r"
      using d ur by (simp add: pmmtest_frames_def Let_def r_def [symmetric])
    let ?c = "pmmtest_contiguous (st_free_frames (pmm_get_stats ?p)) True z"
    have y: "fst ?c = (\<exists>n. free_run ?p 4 n)" "used_set (frames (snd ?c)) = used_set ?p"
      using pmmtest_contiguous_effect [OF ok, of z] r by (simp_all add: z(2))
    obtain b y where cy: "?c = (b, y)" by (cases ?c)
    have "?s = say [if b then line ''pmmtest: PASS'' else line ''pmmtest: FAIL''] y"
      unfolding cmd_pmmtest_def Let_def say_fields f(1) prod.case z(1) cy using f(2-4) by (simp only: if_False simp_thms)
    moreover have "b = (\<exists>n. free_run ?p 4 n)" "used_set (frames y) = used_set ?p" using y unfolding cy by simp_all
    ultimately show ?thesis using True by (simp only: if_True say_fields ends_with_say)
  qed
qed

section \<open>Pages (\<open>pagetest\<close>, \<open>pageperm\<close>)\<close>

lemma say_paging [simp]:
  "current_directory (say ts s) = current_directory s" "kernel_directory (say ts s) = kernel_directory s"
  by (simp_all add: say_def terminal_print_def)

lemma say_ok [simp]:
  "small_ok (say ts s) = small_ok s" "table_frames (say ts s) = table_frames s" "owned (say ts s) = owned s"
  by (simp_all add: small_ok_def paging_ok_def table_frames_def owned_def)

text \<open>Taking a frame, for whatever use.\<close>

lemma take_frame:
  fixes s :: "'a paging_scheme"
  assumes ok: "small_ok s" and a: "pmm_alloc_frame (frames s) = (t, fr)" "t \<noteq> 0"
  shows "small_ok (s\<lparr>frames := fr\<rparr>)" "owned (s\<lparr>frames := fr\<rparr>) = insert (frm t) (owned s)"
    "frm t \<notin> owned s" "0 < frm t" "page (frm t) = t" "low_page t" "table_frames (s\<lparr>frames := fr\<rparr>) = table_frames s"
    "took 1 (frames s) fr"
proof -
  note sa = small_alloc [OF ok a] and pok = small_okD(1) [OF ok]
  show tf: "table_frames (s\<lparr>frames := fr\<rparr>) = table_frames s" by (simp add: table_frames_def)
  have "paging_ok (s\<lparr>frames := fr\<rparr>)" using pok sa(3,4) by (auto simp: paging_ok_def)
  then show "small_ok (s\<lparr>frames := fr\<rparr>)" using sa(5) ok by (simp add: small_ok_def)
  have "frm t \<notin> table_frames s" using sa(2) table_frames_used [OF pok] by auto
  then show "owned (s\<lparr>frames := fr\<rparr>) = insert (frm t) (owned s)" using sa(3) tf by (auto simp: owned_def)
  show "frm t \<notin> owned s" using sa(2) by (simp add: owned_def)
  show "low_page t" "0 < frm t" "page (frm t) = t" using sa(1) low_page_frm [OF sa(1)] by simp_all
  show "took 1 (frames s) fr" using sa(2,3,5) by (simp add: took_def)
qed

text \<open>A double word written to a page the kernel has mapped, and read back.\<close>

lemma write_mapped:
  fixes s :: "'a paging_scheme" and x :: u32
  assumes ok: "small_ok s" and g: "g \<in> owned s" and w: "walk (mem s) (current_directory s) va = Some (page g)"
  defines "s' \<equiv> s\<lparr>mem := store32 (page g) x (mem s)\<rparr>"
  shows "vstore32 va x s = Inr s'" "small_ok s'" "walk (mem s') (current_directory s) v = walk (mem s) (current_directory s) v"
    "table_frames s' = table_frames s" "owned s' = owned s" "frm a \<noteq> g \<Longrightarrow> mem s' a = mem s a"
    "vload32 s' va = Inr x" "load32 (mem s') (page g) = x"
proof -
  have pg: "unat (page g) = 4096 * g" using owned_bound [OF ok g] by (simp add: unat_page)
  have near: "frm a = g" if "unat (a - page g) < 4" for a
  proof -
    have "unat a = unat (a - page g) + unat (page g)"
      using unat_add_exact [of "a - page g" "page g"] that pg owned_bound [OF ok g] by simp
    then show ?thesis using that pg by (simp add: frm_def)
  qed
  have b: "store32 (page g) x (mem s) a = mem s a" if "frm a \<noteq> g" for a
    using store32_other near [of a] that by (auto simp: outside_def not_le [symmetric])
  have nt: "g \<notin> table_frames s" using g by (simp add: owned_def)
  note e = bytes_elsewhere [OF ok, of "store32 (page g) x (mem s)", folded s'_def]
  have tb: "frm a \<in> table_frames s \<Longrightarrow> store32 (page g) x (mem s) a = mem s a" for a using b nt by metis
  show "vstore32 va x s = Inr s'" using w by (simp add: vstore32_def translate_walk [OF small_okD(1) [OF ok]] s'_def)
  show sm: "small_ok s'" and "table_frames s' = table_frames s" "owned s' = owned s"
    using e(2-4) [OF tb] by simp_all
  show wk: "walk (mem s') (current_directory s) v = walk (mem s) (current_directory s) v" for v
    using e(1) [OF tb] by (simp add: s'_def)
  show "mem s' a = mem s a" if "frm a \<noteq> g" using b [OF that] by (simp add: s'_def)
  show l: "load32 (mem s') (page g) = x" by (simp add: s'_def)
  have "translate s' va = Some (page g)"
    using wk [of va] w by (simp add: translate_walk [OF small_okD(1) [OF sm]]) (simp add: s'_def)
  then show "vload32 s' va = Inr x" using l by (simp add: vload32_def)
qed

text \<open>
  What \<open>pagetest\<close> and \<open>pageperm\<close> leave behind: everything as before, but the test page unmapped and
  perhaps a table for it in the directory.
\<close>

definition test_page_gone :: "'a paging_scheme \<Rightarrow> 'a paging_scheme \<Rightarrow> bool" where
  "test_page_gone s s' \<longleftrightarrow> small_ok s' \<and> owned s' = owned s \<and> table_frames s \<subseteq> table_frames s' \<and>
     (\<forall>v. translate s' v = (if frm v = frm TEST_VADDR then None else translate s v)) \<and>
     (\<forall>x. frm x \<in> owned s \<longrightarrow> mem s' x = mem s x)"

lemma test_page_goneI:
  assumes "small_ok s" "small_ok s'" "owned s' = owned s" "table_frames s \<subseteq> table_frames s'"
    "\<And>v. walk (mem s') (current_directory s') v = (if frm v = frm TEST_VADDR then None else walk (mem s) (current_directory s) v)"
    "\<And>x. frm x \<in> owned s \<Longrightarrow> mem s' x = mem s x"
  shows "test_page_gone s s'"
  using assms by (auto simp: test_page_gone_def translate_walk [OF small_okD(1)])

lemma test_page_gone_say [simp]: "test_page_gone s (say ts z) = test_page_gone s z"
  by (simp add: test_page_gone_def)

text \<open>The test page is mapped to the frame \<open>g\<close>, which nothing else owns.\<close>

definition test_page :: "'a paging_scheme \<Rightarrow> nat \<Rightarrow> 'a paging_scheme \<Rightarrow> bool" where
  "test_page s g z \<longleftrightarrow> small_ok z \<and> owned z = insert g (owned s) \<and> g \<notin> owned s \<and> 0 < g \<and>
     table_frames s \<subseteq> table_frames z \<and> current_directory z = current_directory s \<and>
     (\<forall>v. walk (mem z) (current_directory s) v =
        (if frm v = frm TEST_VADDR then Some (page g OR PAGE_OFFSET v) else walk (mem s) (current_directory s) v)) \<and>
     (\<forall>x. frm x \<in> owned s \<longrightarrow> mem z x = mem s x)"

lemma test_page_say [simp]: "test_page s g (say ts z) = test_page s g z"
  by (simp add: test_page_def)

lemma test_page_walk: "test_page s g z \<Longrightarrow> walk (mem z) (current_directory z) TEST_VADDR = Some (page g)"
  by (simp add: test_page_def PAGE_OFFSET_def)

lemma test_page_write:
  assumes "test_page s g z"
  shows "vstore32 TEST_VADDR x z = Inr (z\<lparr>mem := store32 (page g) x (mem z)\<rparr>)"
    "test_page s g (z\<lparr>mem := store32 (page g) x (mem z)\<rparr>)" "vload32 (z\<lparr>mem := store32 (page g) x (mem z)\<rparr>) TEST_VADDR = Inr x"
proof -
  have z: "small_ok z" "g \<in> owned z" using assms by (simp_all add: test_page_def)
  note w = write_mapped [OF z test_page_walk [OF assms], where x = x]
  show "vstore32 TEST_VADDR x z = Inr (z\<lparr>mem := store32 (page g) x (mem z)\<rparr>)"
    "vload32 (z\<lparr>mem := store32 (page g) x (mem z)\<rparr>) TEST_VADDR = Inr x" by (rule w(1), rule w(7))
  have "frm y \<in> owned s \<Longrightarrow> frm y \<noteq> g" for y using assms by (auto simp: test_page_def)
  then show "test_page s g (z\<lparr>mem := store32 (page g) x (mem z)\<rparr>)"
    using assms w(2-6) by (simp add: test_page_def)
qed

lemma test_page_out:
  assumes ok: "small_ok s" and t: "test_page s g z"
  obtains m c where "paging_unmap_page TEST_VADDR z = Inr (z\<lparr>mem := m, tlb := c\<rparr>)"
    "test_page_gone s (z\<lparr>mem := m, tlb := c, frames := pmm_free_frame (page g) (frames z)\<rparr>)"
proof -
  have z: "small_ok z" "g \<in> owned z" "0 < g" "0x1000000 \<le> unat TEST_VADDR" using t by (simp_all add: test_page_def)
  obtain m c where u: "paging_unmap_page TEST_VADDR z = Inr (z\<lparr>mem := m, tlb := c\<rparr>)"
    "small_ok (z\<lparr>mem := m, tlb := c, frames := pmm_free_frame (page g) (frames z)\<rparr>)"
    "\<And>v. walk m (current_directory z) v = (if frm v = frm TEST_VADDR then None else walk (mem z) (current_directory z) v)"
    "table_frames (z\<lparr>mem := m, tlb := c, frames := pmm_free_frame (page g) (frames z)\<rparr>) = table_frames z"
    "owned (z\<lparr>mem := m, tlb := c, frames := pmm_free_frame (page g) (frames z)\<rparr>) = owned z - {g}"
    "\<And>x. frm x \<notin> table_frames z \<Longrightarrow> m x = mem z x"
    by (rule unmap_kernel_page [OF z(1) z(4) z(2,3) test_page_walk [OF t]]) blast
  have "frm x \<notin> table_frames z" if "frm x \<in> owned s" for x
    using t that by (auto simp: test_page_def owned_def)
  then have "test_page_gone s (z\<lparr>mem := m, tlb := c, frames := pmm_free_frame (page g) (frames z)\<rparr>)"
    using t u(3-6) by (intro test_page_goneI [OF ok u(2)]) (auto simp: test_page_def)
  then show thesis using that u(1) by blast
qed

lemma test_page_in:
  fixes s :: "'a paging_scheme"
  assumes ok: "small_ok s" and a: "pmm_alloc_frame (frames s) = (t, fr)" "t \<noteq> 0"
  obtains (panic) "paging_map_page TEST_VADDR t PAGE_KERNEL (say ts (s\<lparr>frames := fr\<rparr>)) =
      Inl (Panic ''paging_map_page: Out of memory for page table'')" "fst (pmm_alloc_frame fr) = 0"
  | (mapped) z where "paging_map_page TEST_VADDR t PAGE_KERNEL (say ts (s\<lparr>frames := fr\<rparr>)) = Inr z"
      "test_page s (frm t) z" "con z = con s @ concat ts"
proof -
  note f = take_frame [OF ok a]
  let ?s = "say ts (s\<lparr>frames := fr\<rparr>)"
  have s: "small_ok ?s" "0x1000000 \<le> unat TEST_VADDR" using f(1) by simp_all
  show thesis
  proof (rule map_kernel_page [OF s, of t])
    assume "paging_map_page TEST_VADDR t PAGE_KERNEL ?s = Inl (Panic ''paging_map_page: Out of memory for page table'')"
      "fst (pmm_alloc_frame (frames ?s)) = 0"
    then show thesis by (intro panic) simp_all
  next
    fix m f c
    let ?z = "?s\<lparr>mem := m, frames := f, tlb := c\<rparr>"
    assume m: "paging_map_page TEST_VADDR t PAGE_KERNEL ?s = Inr ?z" "small_ok ?z"
      "\<And>v. walk m (current_directory ?s) v = (if frm v = frm TEST_VADDR then Some (PAGE_FRAME t OR PAGE_OFFSET v)
         else walk (mem ?s) (current_directory ?s) v)"
      "table_frames ?s \<subseteq> table_frames ?z" "owned ?z = owned ?s"
      "\<And>x. frm x \<notin> table_frames ?z \<Longrightarrow> m x = mem ?s x" "took 1 (frames ?s) f"
    have "frm x \<notin> table_frames ?z" if "frm x \<in> owned s" for x
    proof -
      have "frm x \<in> owned ?z" using m(5) f(2) that by simp
      then show ?thesis by (simp add: owned_def)
    qed
    moreover have "PAGE_FRAME t = page (frm t)" using f(5,6) by simp
    ultimately have "test_page s (frm t) ?z"
      using m f(2-4,7) unfolding test_page_def by simp
    then show thesis using m(1) by (intro mapped [of ?z]) simp_all
  qed
qed

text \<open>
  \<open>pagetest\<close> on a machine whose paging invariant holds: without a free frame it says so and
  changes nothing. Otherwise it prints \<open>PASS\<close>: what it wrote through the test page it read back, its
  frame is free again, every other page is mapped as before, and no frame in use changed its
  contents. Only with a single frame left, and no page table for the test page yet, it ends in the
  panic of \<open>paging_map_page\<close>.
\<close>

lemma pagetest_correct:
  fixes s :: "'a paging_scheme"
  assumes ok: "small_ok s"
  shows "if allocatable (frames s) = {}
    then cmd_pagetest s = Inr (say [line ''pagetest: FAIL (no free frames)''] s)
    else (\<exists>s'. cmd_pagetest s = Inr s' \<and> ends_with s' (line ''pagetest: PASS'') \<and> test_page_gone s s') \<or>
      card (allocatable (frames s)) = 1 \<and>
      cmd_pagetest s = Inl (Panic ''paging_map_page: Out of memory for page table'')"
proof -
  have pok: "pmm_ok (frames s)" using small_okD(1) [OF ok] by (simp add: paging_ok_def)
  show ?thesis
  proof (cases "allocatable (frames s) = {}")
    case True
    have "s\<lparr>frames := frames s\<rparr> = s" by simp
    then show ?thesis using True alloc_none [OF pok True] by (simp add: cmd_pagetest_def)
  next
    case False
    obtain n fr where a: "pmm_alloc_frame (frames s) = (page n, fr)" "n \<in> allocatable (frames s)" "page n \<noteq> 0"
        "pmm_ok fr" "allocatable fr = allocatable (frames s) - {n}"
      using alloc_some [OF pok False] by metis
    let ?ts = "[''pagetest: alloc frame='', shell_hex (page n), line []]"
    have n: "page (frm (page n)) = page n" using take_frame(5) [OF ok a(1,3)] .
    show ?thesis
    proof (rule test_page_in [OF ok a(1,3), of ?ts])
      assume p: "paging_map_page TEST_VADDR (page n) PAGE_KERNEL (say ?ts (s\<lparr>frames := fr\<rparr>)) =
          Inl (Panic ''paging_map_page: Out of memory for page table'')" "fst (pmm_alloc_frame fr) = 0"
      have "allocatable fr = {}"
      proof (rule ccontr)
        assume "allocatable fr \<noteq> {}"
        then obtain m q where "pmm_alloc_frame fr = (page m, q)" "page m \<noteq> 0" using alloc_some [OF a(4)] by metis
        then show False using p(2) by simp
      qed
      then have "allocatable (frames s) = {n}" using a(2,5) by blast
      moreover have "cmd_pagetest s = Inl (Panic ''paging_map_page: Out of memory for page table'')"
        unfolding cmd_pagetest_def Let_def a(1) prod.case p(1) obind_simps using a(3) by (simp only: if_False)
      ultimately show ?thesis by simp
    next
      fix z
      let ?x = "0xCAFE4242 :: u32"
      assume map: "paging_map_page TEST_VADDR (page n) PAGE_KERNEL (say ?ts (s\<lparr>frames := fr\<rparr>)) = Inr z"
        and z: "test_page s (frm (page n)) z"
      define z1 where "z1 = say [''pagetest: mapped VA='', shell_hex TEST_VADDR, '' -> PA='', shell_hex (page n), line []] z"
      have z1: "test_page s (frm (page n)) z1" using z by (simp add: z1_def)
      note w = test_page_write [OF z1, of ?x]
      define z2 where "z2 = z1\<lparr>mem := store32 (page (frm (page n))) ?x (mem z1)\<rparr>"
      have rd: "vload32 (say ts z2) TEST_VADDR = Inr ?x" for ts
        using w(3) by (simp add: z2_def)
      define z3 where "z3 = say [line '' OK'' @ line ''pagetest: match OK''] (say [''pagetest: read '', shell_hex ?x]
        (say [line ''pagetest: write 0xCAFE4242 OK''] z2))"
      have z3: "test_page s (frm (page n)) z3" using w(2) by (simp add: z3_def z2_def)
      obtain m c where u: "paging_unmap_page TEST_VADDR z3 = Inr (z3\<lparr>mem := m, tlb := c\<rparr>)"
        "test_page_gone s (z3\<lparr>mem := m, tlb := c, frames := pmm_free_frame (page n) (frames z3)\<rparr>)"
        using test_page_out [OF ok z3] unfolding n by blast
      define z4 where "z4 = say [''pagetest: unmapped VA='', shell_hex TEST_VADDR, line []] (z3\<lparr>mem := m, tlb := c\<rparr>)"
      define z5 where "z5 = say [line ''pagetest: freed frame''] (z4\<lparr>frames := pmm_free_frame (page n) (frames z4)\<rparr>)"
      have "cmd_pagetest s = Inr (say [line ''pagetest: PASS''] z5)"
        unfolding cmd_pagetest_def Let_def a(1) prod.case map obind_simps z1_def [symmetric] w(1) z2_def [symmetric] rd
          if_True z3_def [symmetric] u(1) z4_def [symmetric] z5_def [symmetric] simp_thms
        using a(3) by (simp only: if_False)
      moreover have "test_page_gone s z5" using u(2) by (simp add: z5_def z4_def say_frames)
      ultimately show ?thesis using False by auto
    qed
  qed
qed

section \<open>Regions (\<open>vmtest\<close>)\<close>

lemma say_heap [simp]:
  "heap_start (say ts s) = heap_start s" "heap_end (say ts s) = heap_end s" "heap_max (say ts s) = heap_max s"
  "block_list (say ts s) = block_list s" "total_allocations (say ts s) = total_allocations s" "total_frees (say ts s) = total_frees s"
  by (simp_all add: say_def terminal_print_def)

lemma say_vm [simp]:
  "vmalloc_current (say ts s) = vmalloc_current s" "region_list (say ts s) = region_list s"
  "total_regions (say ts s) = total_regions s" "total_pages_allocated (say ts s) = total_pages_allocated s"
  by (simp_all add: say_def terminal_print_def)

lemma say_heap_rep [simp]:
  "heap_rep (say ts s) bs = heap_rep s bs" "heap_inv (say ts s) = heap_inv s" "live (say ts s) = live s"
  "heap_frames (say ts s) = heap_frames s"
  by (simp_all add: heap_rep_def heap_bounds_def heap_inv_def live_def heap_frames_def heap_bytes_def)

lemma say_vm_rep [simp]: "vm_rep (say ts s) xs = vm_rep s xs"
  by (simp add: vm_rep_def vm_space_def vm_list_def)

text \<open>The pages of a region; a double word written to the first address of one, and read back.\<close>

lemma region_page:
  fixes s :: "'a vmsys_scheme"
  assumes rep: "vm_rep s xs" and x: "x \<in> set xs" "i < length (vframes x)"
  shows "walk (mem s) (current_directory s) (page (vbase x + i)) = Some (page (vframes x ! i))"
    "vframes x ! i \<in> set (region_frames xs)" "vframes x ! i \<in> owned s"
proof -
  let ?g = "vframes x ! i" and ?v = "page (vbase x + i)"
  note r = vm_repD [OF rep] and sd = vm_spaceD [OF vm_repD(1) [OF rep]]
  have vb: "4096 \<le> vbase x + i" "vbase x + i < 1048576" using sd(3,5) [OF x(1)] x(2) by simp_all
  show "?g \<in> set (region_frames xs)" using x(1) nth_mem [OF x(2)] by (auto simp: region_frames_def)
  then show "?g \<in> owned s" using sd(9) by blast
  obtain us ys where xs: "xs = us @ x # ys" using x(1) by (auto dest: split_list)
  have dis: "vpages x \<inter> vpages z = {}" if "z \<in> set (us @ ys)" for z
    by (rule sd(6)) (use that xs vm_listD(4) [OF r(2)] in auto)
  have "vm_map xs (vbase x + i) = Some ?g"
    unfolding xs by (subst vm_map_mid) (use dis x(2) in \<open>auto simp: vpages_def\<close>)
  then show "walk (mem s) (current_directory s) ?v = Some (page ?g)" using sd(2) [of ?v] vb by simp
qed

lemma region_read32:
  fixes s :: "'a vmsys_scheme"
  assumes "vm_rep s xs" "x \<in> set xs" "i < length (vframes x)"
  shows "vload32 s (page (vbase x + i)) = Inr (load32 (mem s) (page (vframes x ! i)))"
proof -
  have "paging_ok s" by (rule small_okD(1) [OF vm_spaceD(1) [OF vm_repD(1) [OF assms(1)]]])
  from translate_walk [OF this] show ?thesis using region_page(1) [OF assms] by (simp add: vload32_def)
qed

lemma region_write32:
  fixes s :: "'a vmsys_scheme" and y :: u32
  assumes rep: "vm_rep s xs" and x: "x \<in> set xs" "i < length (vframes x)"
  defines "s' \<equiv> s\<lparr>mem := store32 (page (vframes x ! i)) y (mem s)\<rparr>"
  shows "vstore32 (page (vbase x + i)) y s = Inr s'" "vm_rep s' xs" "load32 (mem s') (page (vframes x ! i)) = y"
    "owned s' = owned s" "live s' = live s" "heap_frames s' = heap_frames s"
    "frm a \<noteq> vframes x ! i \<Longrightarrow> mem s' a = mem s a"
proof -
  let ?g = "vframes x ! i"
  note p = region_page [OF rep x]
  note wm = write_mapped [OF vm_spaceD(1) [OF vm_repD(1) [OF rep]] p(3,1), where x = y, folded s'_def]
  show "vstore32 (page (vbase x + i)) y s = Inr s'" "load32 (mem s') (page ?g) = y" "owned s' = owned s"
    by (rule wm(1), rule wm(8), rule wm(5))
  show bt: "mem s' a = mem s a" if "frm a \<noteq> ?g" for a by (rule wm(6) [OF that])
  note fw = vm_rep_frame_write [OF rep p(2), of "store32 (page ?g) y (mem s)", folded s'_def]
  show "vm_rep s' xs" "live s' = live s" using fw bt unfolding s'_def by auto
  show "heap_frames s' = heap_frames s" by (simp add: s'_def heap_frames_def heap_bytes_def)
qed

lemma load32_page:
  assumes "g < 1048576" "\<And>a. frm a = g \<Longrightarrow> m a = m' a"
  shows "load32 m (page g) = load32 m' (page g)"
proof (rule load32_frame)
  fix a assume "\<not> outside (page g) 4 a"
  then have n: "unat (a - page g) < 4" by (simp add: outside_def)
  have "unat a = unat (a - page g) + unat (page g)"
    using unat_add_exact [of "a - page g" "page g"] n unat_page [OF assms(1)] assms(1) by simp
  then show "m a = m' a" using n unat_page [OF assms(1)] by (intro assms(2)) (simp add: frm_def)
qed

text \<open>Both pages of a region written and read back, and the region released.\<close>

lemma vmtest_pages_effect:
  fixes s :: "'a vmsys_scheme"
  assumes rep: "vm_rep s (x # xs)" and len: "length (vframes x) = 2"
  obtains l u where "vmtest_pages (page (vbase x)) s = Inr (say [line ''vmtest: PASS''] u)" "vm_rep u xs" "(vdesc x, l) \<in> live s"
    "live u = live s - {(vdesc x, l)}" "owned u = owned s - set (vframes x)"
    "\<And>z. frm z \<in> owned u - heap_frames s \<Longrightarrow> mem u z = mem s z"
proof -
  let ?c = "page (vbase x)" and ?G = "vframes x" and ?L = "x # xs"
  note sd = vm_spaceD [OF vm_repD(1) [OF rep]]
  have x: "x \<in> set ?L" "0 < length ?G" "1 < length ?G" using len by simp_all
  have p0: "page (vbase x + 0) = ?c" and p1: "page (vbase x + 1) = ?c + 4096" by (simp_all add: page_def algebra_simps)
  have g01: "?G ! 0 \<noteq> ?G ! 1" using sd(7) len by (simp add: nth_eq_iff_index_eq)
  have gb: "?G ! 0 < 1048576" using owned_bound [OF sd(1) region_page(3) [OF rep x(1,2)]] by simp
  define t1 where "t1 = say [''vmtest: vmalloc 8192 at '', shell_hex ?c, line []] s"
  have rep1: "vm_rep t1 ?L" using rep by (simp add: t1_def)
  note w0 = region_write32 [OF rep1 x(1,2), where y = "0xDEAD0001", unfolded p0]
  define t2 where "t2 = say [line ''vmtest: write page0 OK''] (t1\<lparr>mem := store32 (page (?G ! 0)) 0xDEAD0001 (mem t1)\<rparr>)"
  have rep2: "vm_rep t2 ?L" using w0(2) by (simp add: t2_def)
  note w1 = region_write32 [OF rep2 x(1,3), where y = "0xDEAD0002", unfolded p1]
  define t3 where "t3 = say [line ''vmtest: write page1 OK''] (t2\<lparr>mem := store32 (page (?G ! 1)) 0xDEAD0002 (mem t2)\<rparr>)"
  have rep3: "vm_rep t3 ?L" using w1(2) by (simp add: t3_def)
  have m3: "frm a \<noteq> ?G ! 1 \<Longrightarrow> mem t3 a = mem t2 a" for a using w1(7) [of a] by (simp add: t3_def)
  have m2: "frm a \<noteq> ?G ! 0 \<Longrightarrow> mem t2 a = mem s a" for a using w0(7) [of a] by (simp add: t2_def t1_def)
  have "load32 (mem t3) (page (?G ! 0)) = load32 (mem t2) (page (?G ! 0))"
    by (rule load32_page [OF gb]) (use m3 g01 in auto)
  then have rd0: "vload32 t3 ?c = Inr 0xDEAD0001"
    using region_read32 [OF rep3 x(1,2), unfolded p0] w0(3) by (simp add: t2_def)
  have rd1: "vload32 (say ts t3) (?c + 4096) = Inr 0xDEAD0002" for ts
    using region_read32 [OF rep3 x(1,3), unfolded p1] w1(3) by (simp add: t3_def)
  define t4 where "t4 = say [line ''vmtest: read page1 OK''] (say [line ''vmtest: read page0 OK''] t3)"
  have t4: "vm_rep t4 ([] @ ?L)" "owned t4 = owned s" "live t4 = live s" "heap_frames t4 = heap_frames s"
    using rep3 w0(4-6) w1(4-6) by (simp_all add: t4_def t3_def t2_def t1_def)
  show thesis
  proof (rule vfree_cases [OF t4(1)])
    fix l u assume u: "vfree ?c t4 = Inr u" "vm_rep u ([] @ xs)" "(vdesc x, l) \<in> live t4"
      "live u = live t4 - {(vdesc x, l)}" "owned u = owned t4 - set ?G"
      "\<And>z. frm z \<in> owned u - heap_frames t4 \<Longrightarrow> mem u z = mem t4 z"
    have bt: "mem u z = mem s z" if z: "frm z \<in> owned u - heap_frames s" for z
    proof -
      have "frm z \<notin> set ?G" using z unfolding u(5) by simp
      then have "frm z \<noteq> ?G ! 0" "frm z \<noteq> ?G ! 1" using nth_mem [OF x(2)] nth_mem [OF x(3)] by metis+
      then have "mem t4 z = mem s z" using m2 m3 by (simp add: t4_def)
      then show ?thesis using u(6) [of z] z by (simp only: t4(4))
    qed
    have "vmtest_pages ?c s = Inr (say [line ''vmtest: PASS''] (say [line ''vmtest: vfree OK''] u))"
      unfolding vmtest_pages_def Let_def obind_simps prod.case t1_def [symmetric] w0(1) t2_def [symmetric] w1(1)
        t3_def [symmetric] rd0 rd1 if_True t4_def [symmetric] simp_thms u(1) ..
    moreover have "vm_rep (say [line ''vmtest: vfree OK''] u) xs" using u(2) by simp
    moreover have "(vdesc x, l) \<in> live s" using u(3) by (simp only: t4(3))
    moreover have "live (say [line ''vmtest: vfree OK''] u) = live s - {(vdesc x, l)}"
      "owned (say [line ''vmtest: vfree OK''] u) = owned s - set ?G"
      by (simp_all only: say_heap_rep say_ok u(4,5) t4(2,3))
    ultimately show thesis by (rule that) (simp only: say_ok say_fields bt)
  qed
qed

text \<open>
  \<open>vmtest\<close> passes and leaves no trace whenever \<open>vmalloc\<close> serves it, in every state the kernel
  can reach: both pages read back what was written to them, and afterwards every address translates
  as before, no frame but those of page tables is lost, and the heap has the blocks it had. Where
  \<open>vmalloc\<close> fails for want of addresses, heap or frames, it reports the failure, also without a
  trace, or the kernel panics for want of a page table.
\<close>

lemma vmtest_correct:
  fixes s :: "'a vmsys_scheme"
  assumes reach: "vm_reachable s"
  defines "short \<equiv> cramped (frames s) 2 \<or> 65536 < frm (vmalloc_current s) + 2 \<or> (\<exists>t. kmalloc 24 s = Some (NULL, t))"
  shows "(\<exists>s'. cmd_vmtest s = Inr s' \<and> elsewhere_same s s' 0 0 \<and> owned s' = owned s \<and> live s' = live s \<and>
       (ends_with s' (line ''vmtest: PASS'') \<or> short \<and> ends_with s' (line ''vmtest: FAIL (vmalloc returned NULL)''))) \<or>
     short \<and> cmd_vmtest s = Inl (Panic ''paging_map_page: Out of memory for page table'')"
proof -
  obtain xs where rep: "vm_rep s xs" using vm_reachable_rep [OF reach] by blast
  note r = vm_repD [OF rep]
  have n: "(8192 :: u32) \<noteq> 0" "unat (8192 :: u32) \<le> 0xE0000000" "(unat (8192 :: u32) + 4095) div 4096 = 2" by simp_all
  have same: "elsewhere_same s f 0 0"
    if "vm_rep f xs" "\<And>z. frm z \<in> owned s - heap_frames s \<Longrightarrow> mem f z = mem s z" for f
    by (rule elsewhere_sameI [OF rep]) (use vm_rep_translate [OF rep] vm_rep_translate [OF that(1)] that(2) in simp_all)
  show ?thesis
  proof (rule vmalloc_cases [OF rep n(1,2), unfolded n(3)])
    assume "vmalloc 8192 s = Inl (Panic ''paging_map_page: Out of memory for page table'')" "cramped (frames s) 2"
    then show ?thesis by (simp add: cmd_vmtest_def short_def)
  next
    fix s' assume s': "vmalloc 8192 s = Inr (NULL, s')" "vm_rep s' xs" "live s' = live s" "owned s' = owned s"
      "\<And>x. frm x \<in> owned s - heap_frames s \<Longrightarrow> mem s' x = mem s x"
      "cramped (frames s) 2 \<or> 65536 < frm (vmalloc_current s) + 2 \<or> (\<exists>t. kmalloc 24 s = Some (NULL, t))"
    let ?f = "say [line ''vmtest: FAIL (vmalloc returned NULL)''] s'"
    have "elsewhere_same s ?f 0 0" by (rule same) (use s'(2,5) in simp_all)
    moreover have "cmd_vmtest s = Inr ?f" by (simp add: cmd_vmtest_def s'(1))
    ultimately show ?thesis using s'(3,4,6) by (intro disjI1 exI [of _ ?f]) (simp add: short_def)
  next
    fix p k G s1 assume s1: "vmalloc 8192 s = Inr (vmalloc_current s, s1)"
      "vm_rep s1 (\<lparr>vdesc = p, vbase = frm (vmalloc_current s), vsz = 8192, vframes = G\<rparr> # xs)"
      "length G = 2" "set G \<inter> used_set (frames s) = {}" "owned s1 = owned s \<union> set G"
      "live s1 = insert (p, k) (live s)" "\<And>l. (p, l) \<notin> live s" "heap_frames s1 = heap_frames s"
      "\<And>x. frm x \<in> owned s - heap_frames s \<Longrightarrow> mem s1 x = mem s x"
    let ?x = "\<lparr>vdesc = p, vbase = frm (vmalloc_current s), vsz = 8192, vframes = G\<rparr>" and ?c = "vmalloc_current s"
    have cur: "page (vbase ?x) = ?c" using page_frm r(6) by simp
    have nn: "?c \<noteq> NULL" using r(7) by (auto simp: frm_def)
    show ?thesis
    proof (rule vmtest_pages_effect [OF s1(2)])
      show "length (vframes ?x) = 2" using s1(3) by simp
      fix l u assume u: "vmtest_pages (page (vbase ?x)) s1 = Inr (say [line ''vmtest: PASS''] u)" "vm_rep u xs"
        "(vdesc ?x, l) \<in> live s1" "live u = live s1 - {(vdesc ?x, l)}" "owned u = owned s1 - set (vframes ?x)"
        "\<And>z. frm z \<in> owned u - heap_frames s1 \<Longrightarrow> mem u z = mem s1 z"
      let ?f = "say [line ''vmtest: PASS''] u"
      have "l = k" using u(3) s1(6,7) by auto
      then have lv: "live u = live s" using u(4) s1(6,7) by auto
      have "owned s \<inter> set G = {}" using s1(4) by (auto simp: owned_def)
      then have ow: "owned u = owned s" using u(5) s1(5) by auto
      have "elsewhere_same s ?f 0 0" by (rule same) (use u(2,6) ow s1(8,9) in simp_all)
      moreover have "cmd_vmtest s = Inr ?f" using nn u(1) by (simp only: cmd_vmtest_def s1(1) obind_simps prod.case if_False cur)
      ultimately show ?thesis using lv ow by (intro disjI1 exI [of _ ?f]) simp
    qed
  qed
qed

section \<open>Heap blocks (\<open>heaptest\<close>)\<close>

text \<open>A pointer from the allocator: null, or the one block it owns.\<close>

definition holds :: "u32 \<Rightarrow> (u32 \<times> u32) set \<Rightarrow> bool" where
  "holds p B \<longleftrightarrow> (if p = NULL then B = {} else \<exists>k. B = {(p, k)})"

definition blocks_kept :: "(u32 \<times> u32) set \<Rightarrow> memory \<Rightarrow> memory \<Rightarrow> bool" where
  "blocks_kept L m m' \<longleftrightarrow> (\<forall>q l x. (q, l) \<in> L \<longrightarrow> unat x \<in> payload (q, l) \<longrightarrow> m' x = m x)"

lemma blocks_kept_trans:
  "blocks_kept L m m1 \<Longrightarrow> blocks_kept L' m1 m2 \<Longrightarrow> L \<subseteq> L' \<Longrightarrow> blocks_kept L m m2"
  unfolding blocks_kept_def by (metis subsetD)

context heap_allocator
begin

lemma alloc_holds:
  assumes "inv s" "serveable n"
  obtains p s' B where "alloc n s = Some (p, s')" "inv s'" "holds p B" "blocks s' = blocks s \<union> B" "blocks s \<inter> B = {}"
    "blocks_kept (blocks s) (bytes s) (bytes s')"
proof -
  obtain p s' where a: "alloc n s = Some (p, s')" using alloc_returns [OF assms] by blast
  have "\<exists>B. holds p B \<and> blocks s' = blocks s \<union> B \<and> blocks s \<inter> B = {}"
  proof (cases "p = NULL")
    case True
    then show ?thesis using alloc_null [OF assms] a by (auto simp: holds_def)
  next
    case False
    then obtain k where k: "blocks s' = insert (p, k) (blocks s)" "\<forall>l. (p, l) \<notin> blocks s" using alloc_block [OF assms a] by blast
    then show ?thesis using False by (intro exI [of _ "{(p, k)}"]) (auto simp: holds_def)
  qed
  moreover have "blocks_kept (blocks s) (bytes s) (bytes s')" using alloc_bytes [OF assms a] by (simp add: blocks_kept_def)
  ultimately show thesis using that a alloc_inv [OF assms a] by blast
qed

lemma release_holds:
  assumes "inv s" "holds p B" "B \<subseteq> blocks s" "\<And>s. release NULL s = Inr s"
  obtains s' where "release p s = Inr s'" "inv s'" "blocks s' = blocks s - B" "blocks_kept (blocks s') (bytes s) (bytes s')"
proof (cases "p = NULL")
  case True
  then show thesis using that [of s] assms by (simp add: holds_def blocks_kept_def)
next
  case False
  then obtain k where k: "B = {(p, k)}" "(p, k) \<in> blocks s" using assms(2,3) by (auto simp: holds_def)
  show thesis using release_ok [OF assms(1) k(2)] that k(1) unfolding blocks_kept_def by blast
qed

end

lemma kfree_null: "kfree NULL s = Inr s"
  by (simp add: kfree_def)

lemma finite_live: "heap_inv s \<Longrightarrow> finite (live s)"
  using live_rep by (auto simp: heap_inv_def allocated_def)

text \<open>The end of \<open>heaptest\<close>: the count of live blocks decides.\<close>

lemma heaptest_count:
  assumes "heap_inv s"
  obtains st where "kmalloc_get_stats s = Some st" "num_allocations st = 0 \<longleftrightarrow> live s = {}"
  using kmalloc_stats_exact [OF assms] finite_live [OF assms] by (auto simp: word_eq_unat)

lemma heaptest_allocs_effect:
  fixes s :: "'a kheap_scheme"
  assumes inv: "heap_inv s"
  obtains a A c C e E s' where "heaptest_allocs s = Inr (a, c, e, s')" "heap_inv s'" "holds a A" "holds c C" "holds e E"
    "live s' = live s \<union> A \<union> C \<union> E" "live s \<inter> A = {}" "(live s \<union> A) \<inter> C = {}" "(live s \<union> A \<union> C) \<inter> E = {}"
    "blocks_kept (live s) (mem s) (mem s')"
proof -
  have n: "serveable 64" "serveable 128" by (simp_all add: serveable_def)
  obtain a s1 A where a: "kmalloc 64 s = Some (a, s1)" "heap_inv s1" "holds a A" "live s1 = live s \<union> A" "live s \<inter> A = {}"
    "blocks_kept (live s) (mem s) (mem s1)"
    by (rule kheap.alloc_holds [OF inv n(1)])
  obtain b s2 B where b: "kmalloc 128 s1 = Some (b, s2)" "heap_inv s2" "holds b B" "live s2 = live s1 \<union> B" "live s1 \<inter> B = {}"
    "blocks_kept (live s1) (mem s1) (mem s2)"
    by (rule kheap.alloc_holds [OF a(2) n(2)])
  obtain c s3 C where c: "kmalloc 64 s2 = Some (c, s3)" "heap_inv s3" "holds c C" "live s3 = live s2 \<union> C" "live s2 \<inter> C = {}"
    "blocks_kept (live s2) (mem s2) (mem s3)"
    by (rule kheap.alloc_holds [OF b(2) n(1)])
  define t3 where "t3 = say [''heaptest: alloc A=64 at '', shell_hex a, line [] @ ''heaptest: alloc B=128 at '', shell_hex b,
      line [] @ ''heaptest: alloc C=64 at '', shell_hex c, line []] s3"
  have t3: "heap_inv t3" "B \<subseteq> live t3" using c(2,4) b(4) by (auto simp: t3_def)
  obtain s4 where d: "kfree b t3 = Inr s4" "heap_inv s4" "live s4 = live t3 - B" "blocks_kept (live s4) (mem t3) (mem s4)"
    by (rule kheap.release_holds [OF t3(1) b(3) t3(2) kfree_null])
  define t4 where "t4 = say [line ''heaptest: free B OK''] s4"
  have t4: "heap_inv t4" using d(2) by (simp add: t4_def)
  obtain e s5 E where e: "kmalloc 64 t4 = Some (e, s5)" "heap_inv s5" "holds e E" "live s5 = live t4 \<union> E" "live t4 \<inter> E = {}"
    "blocks_kept (live t4) (mem t4) (mem s5)"
    by (rule kheap.alloc_holds [OF t4 n(1)])
  have l4: "live t4 = live s \<union> A \<union> C" using b(5) c(5) d(3) unfolding t4_def t3_def say_heap_rep c(4) b(4) a(4) by blast
  have kept: "blocks_kept (live s) (mem s) (mem s3)"
    by (rule blocks_kept_trans [OF blocks_kept_trans [OF a(6) b(6)] c(6)]) (auto simp: a(4) b(4))
  have kept5: "blocks_kept (live s) (mem s) (mem s5)"
    by (rule blocks_kept_trans [OF blocks_kept_trans [OF kept d(4) [unfolded t3_def say_fields]] e(6) [unfolded t4_def say_fields]])
      (use l4 in \<open>auto simp: t4_def\<close>)
  have "heaptest_allocs s = Inr (a, c, e, say [''heaptest: alloc D=64 at '', shell_hex e, '' (reuse='',
      if b \<le> e \<and> e < b + 128 then ''YES'' else ''NO'', line '')''] s5)"
    unfolding heaptest_allocs_def Let_def a(1) b(1) c(1) of_walk_simps obind_simps prod.case t3_def [symmetric] d(1)
      t4_def [symmetric] e(1) ..
  then show thesis
    by (rule that [OF _ _ a(3) c(3) e(3)]) (use e(2,4,5) l4 a(5) c(5) kept5 in \<open>auto simp: b(4) a(4)\<close>)
qed

lemma heaptest_frees_effect:
  fixes s :: "'a kheap_scheme"
  assumes inv: "heap_inv s" and own: "holds a A" "holds c C" "holds e E"
    and l: "live s = L \<union> A \<union> C \<union> E" and dis: "L \<inter> A = {}" "(L \<union> A) \<inter> C = {}" "(L \<union> A \<union> C) \<inter> E = {}"
  obtains s' where "heaptest_frees a c e s = Inr s'" "heap_inv s'" "live s' = L" "blocks_kept L (mem s) (mem s')"
proof -
  have "A \<subseteq> live s" using l by auto
  then obtain s6 where f: "kfree a s = Inr s6" "heap_inv s6" "live s6 = live s - A" "blocks_kept (live s6) (mem s) (mem s6)"
    by (rule kheap.release_holds [OF inv own(1) _ kfree_null])
  define t6 where "t6 = say [line ''heaptest: free A OK''] s6"
  have l6: "live t6 = L \<union> C \<union> E" using l f(3) dis unfolding t6_def say_heap_rep by blast
  have t6: "heap_inv t6" "C \<subseteq> live t6" using f(2) l6 by (auto simp: t6_def)
  obtain s7 where g: "kfree c t6 = Inr s7" "heap_inv s7" "live s7 = live t6 - C" "blocks_kept (live s7) (mem t6) (mem s7)"
    by (rule kheap.release_holds [OF t6(1) own(2) t6(2) kfree_null])
  define t7 where "t7 = say [line ''heaptest: free C OK''] s7"
  have l7: "live t7 = L \<union> E" using dis g(3) l6 unfolding t7_def say_heap_rep by blast
  have t7: "heap_inv t7" "E \<subseteq> live t7" using g(2) l7 by (auto simp: t7_def)
  obtain s8 where h: "kfree e t7 = Inr s8" "heap_inv s8" "live s8 = live t7 - E" "blocks_kept (live s8) (mem t7) (mem s8)"
    by (rule kheap.release_holds [OF t7(1) own(3) t7(2) kfree_null])
  have l8: "live s8 = L" using dis h(3) l7 by blast
  have "blocks_kept L (mem s) (mem s6)" using f(4) l6 by (auto simp: blocks_kept_def t6_def)
  then have "blocks_kept L (mem s) (mem s7)"
    by (rule blocks_kept_trans [OF _ g(4) [unfolded t6_def say_fields]]) (use l7 in \<open>auto simp: t7_def\<close>)
  then have "blocks_kept L (mem s) (mem s8)"
    by (rule blocks_kept_trans [OF _ h(4) [unfolded t7_def say_fields]]) (simp add: l8)
  moreover have "heaptest_frees a c e s = Inr (say [line ''heaptest: free D OK''] s8)"
    unfolding heaptest_frees_def Let_def f(1) obind_simps t6_def [symmetric] g(1) t7_def [symmetric] h(1) ..
  ultimately show thesis using that l8 h(2) by simp
qed

text \<open>
  C33. \<open>heaptest\<close> always returns and always leaves the heap with the blocks it had, their contents
  untouched, even when an allocation fails on the way. Its verdict is about something else: it
  prints \<open>PASS\<close> exactly when nobody else holds a block.
\<close>

theorem heaptest_correct:
  fixes s :: "'a kheap_scheme"
  assumes inv: "heap_inv s"
  shows "\<exists>s'. cmd_heaptest s = Inr s' \<and> heap_inv s' \<and> live s' = live s \<and> blocks_kept (live s) (mem s) (mem s') \<and>
    ends_with s' (if live s = {} then line ''heaptest: PASS'' else line ''heaptest: FAIL'')"
proof (rule heaptest_allocs_effect [OF inv])
  fix a A c C e E s1
  assume s1: "heaptest_allocs s = Inr (a, c, e, s1)" "heap_inv s1" "holds a A" "holds c C" "holds e E"
    "live s1 = live s \<union> A \<union> C \<union> E" "live s \<inter> A = {}" "(live s \<union> A) \<inter> C = {}" "(live s \<union> A \<union> C) \<inter> E = {}"
    "blocks_kept (live s) (mem s) (mem s1)"
  obtain s2 where s2: "heaptest_frees a c e s1 = Inr s2" "heap_inv s2" "live s2 = live s" "blocks_kept (live s) (mem s1) (mem s2)"
    by (rule heaptest_frees_effect [OF s1(2-9)])
  obtain st where st: "kmalloc_get_stats s2 = Some st" "num_allocations st = 0 \<longleftrightarrow> live s2 = {}"
    by (rule heaptest_count [OF s2(2)])
  have "cmd_heaptest s = Inr (say [if live s = {} then line ''heaptest: PASS'' else line ''heaptest: FAIL'']
      (say [if live s = {} then line '' OK'' else line '' FAIL''] (say [''heaptest: allocs='', dec_string (num_allocations st)] s2)))"
    unfolding cmd_heaptest_def Let_def s1(1) prod.case obind_simps s2(1) st of_walk_simps s2(3) ..
  then show ?thesis using s2(2,3) blocks_kept_trans [OF s1(10) s2(4)] by auto
qed

lemma few_free_ok: "pmm_ok few_free" "allocatable few_free = {2560..<2576}" "free_run few_free 4 2560"
proof -
  show "pmm_ok few_free" using few_free_state by (simp add: pmm_ok_def)
  show "allocatable few_free = {2560..<2576}" by (auto simp: allocatable_def free_set_def few_free_state)
  show "free_run few_free 4 2560" by (auto simp: free_run_used few_free_state)
qed

theorem pmmtest_correct_witness:
  "ends_with (cmd_pmmtest blank_vm) (line ''pmmtest: PASS'') \<and> used_set (frames (cmd_pmmtest blank_vm)) = used_set few_free"
proof -
  have f: "frames blank_vm = few_free" by (simp add: blank_vm_def)
  have "\<exists>n. free_run few_free 4 n" using few_free_ok(3) by blast
  then show ?thesis using pmmtest_correct [of blank_vm, unfolded f, OF few_free_ok(1)] by (simp add: few_free_ok(2))
qed

lemma roomy_allocatable:
  assumes "\<not> cramped p 2"
  shows "2 \<le> card (allocatable p)"
proof -
  have T: "8 dvd unat (total_frames p)" "card (used_set p) + 4 \<le> unat (total_frames p)" using assms by (simp_all add: cramped_def)
  then have "allocatable p = {0..<unat (total_frames p)} - used_set p" by (auto simp: allocatable_def free_set_def)
  moreover have "used_set p \<subseteq> {0..<unat (total_frames p)}" by (auto simp: used_set_def)
  ultimately have "card (allocatable p) = unat (total_frames p) - card (used_set p)" by (simp add: card_Diff_subset)
  then show ?thesis using T by simp
qed

theorem heaptest_correct_witness:
  "\<exists>s s' :: vmsys. heap_inv s \<and> cmd_heaptest s = Inr s' \<and> ends_with s' (line ''heaptest: PASS'') \<and> live s' = {}"
proof -
  obtain s :: vmsys where s: "vm_rep s []" "live s = {}" using boot_vm by blast
  have "heap_inv s" by (rule vm_listD(1) [OF vm_repD(2) [OF s(1)]])
  from heaptest_correct [OF this] this s(2) show ?thesis by simp blast
qed

end
