(* ===== verification/Memory_Reports.thy ===== *)
theory Memory_Reports
  imports Shell_Tests_Spec
begin

unbundle bit_operations_syntax

text \<open>
  What the memory commands of the shell print: the two dumps list exactly the blocks and regions
  there are, and a value written with \<open>poke\<close> is the value \<open>peek\<close> shows.
\<close>

section \<open>Dumps\<close>

lemma print_fields [simp]:
  "mem (terminal_print t s) = mem s" "con (terminal_print t s) = con s @ t"
  by (simp_all add: terminal_print_def)

lemma print_print [simp]: "terminal_print u (terminal_print t s) = terminal_print (t @ u) s"
  by (simp add: terminal_print_def)

lemma print_say: "terminal_print t s = say [t] s"
  by (simp add: say_def)

text \<open>The line a dump should print for block number \<open>n\<close>, and for region number \<open>n\<close>.\<close>

definition block_text :: "u32 \<Rightarrow> heap_block \<Rightarrow> string" where
  "block_text n b = ''  ['' @ dec_string n @ ''] addr=0x'' @ hex_string (at b) @ '' size='' @ dec_string (sz b) @
     '' '' @ (if avail b then ''FREE'' else ''USED'') @ line []"

definition region_text :: "u32 \<Rightarrow> vm_block \<Rightarrow> string" where
  "region_text n x = ''  ['' @ dec_string n @ ''] vaddr=0x'' @ hex_string (page (vbase x)) @ '' pages='' @
     dec_string (word_of_nat (length (vframes x))) @ '' size='' @ dec_string (vsz x) @ '' mapped='' @
     dec_string (page (length (vframes x))) @ line []"

primrec numbered :: "(u32 \<Rightarrow> 'a \<Rightarrow> string) \<Rightarrow> u32 \<Rightarrow> 'a list \<Rightarrow> string" where
  "numbered f n [] = []"
| "numbered f n (x # xs) = f n x @ numbered f (n + 1) xs"

lemma dump_blocks:
  assumes "dll (mem s) pv bs NULL" "\<And>b. b \<in> set bs \<Longrightarrow> at b \<noteq> NULL"
  shows "dump_blocks_from (first_at bs NULL) n s = Some (terminal_print (numbered block_text n bs) s)"
  using assms
proof (induction bs arbitrary: pv n s)
  case Nil
  then show ?case by (simp add: dump_blocks_from.simps [of NULL] terminal_print_def)
next
  case (Cons b bs)
  let ?s = "block_line n (at b) (header (mem s) (at b)) s"
  have e: "?s = terminal_print (block_text n b) s"
    using Cons.prems(1) by (simp add: block_line_def block_text_def print_dec_km_def print_hex_km_def Let_def header_of_def)
  have "dump_blocks_from (at b) n s = dump_blocks_from (first_at bs NULL) (n + 1) ?s"
    using Cons.prems by (simp add: dump_blocks_from.simps [of "at b"] header_of_def)
  also have "\<dots> = Some (terminal_print (numbered block_text (n + 1) bs) ?s)"
    by (rule Cons.IH [where pv = "at b"]) (use Cons.prems e in simp_all)
  finally show ?case by (simp add: e)
qed

lemma dump_regions:
  assumes "vchain (mem s) xs" "\<And>x. x \<in> set xs \<Longrightarrow> vdesc x \<noteq> NULL"
  shows "dump_regions_from (vfirst xs) n s = Some (terminal_print (numbered region_text n xs) s)"
  using assms
proof (induction xs arbitrary: n s)
  case Nil
  then show ?case by (simp add: dump_regions_from.simps [of NULL] terminal_print_def)
next
  case (Cons x xs)
  let ?s = "region_line n (vm_region_at (mem s) (vdesc x)) s"
  have e: "?s = terminal_print (region_text n x) s"
    using Cons.prems(1)
    by (simp add: region_line_def region_text_def print_dec_vm_def print_hex_vm_def Let_def vm_desc_def line_def)
  have "dump_regions_from (vdesc x) n s = dump_regions_from (vfirst xs) (n + 1) ?s"
    using Cons.prems by (simp add: dump_regions_from.simps [of "vdesc x"] vm_desc_def)
  also have "\<dots> = Some (terminal_print (numbered region_text (n + 1) xs) ?s)"
    by (rule Cons.IH) (use Cons.prems e in simp_all)
  finally show ?case by (simp add: e)
qed

text \<open>The whole reports.\<close>

definition heap_report :: "'a kheap_scheme \<Rightarrow> heap_block list \<Rightarrow> string" where
  "heap_report s bs = line [] @ line ''=== Kernel Heap Dump ==='' @ ''Heap start: 0x'' @ hex_string (heap_start s) @
     line [] @ ''Heap end: 0x'' @ hex_string (heap_end s) @ line [] @ ''Heap size: '' @ dec_string (heap_end s - heap_start s) @
     line '' bytes'' @ line [] @ line ''Blocks:'' @ numbered block_text 0 bs @
     line [] @ ''Total allocations: '' @ dec_string (total_allocations s) @ '', Total frees: '' @ dec_string (total_frees s) @ line []"

definition region_report :: "'a vmsys_scheme \<Rightarrow> vm_block list \<Rightarrow> string" where
  "region_report s xs = line [] @ line ''=== Virtual Memory Dump ==='' @ ''VMalloc range: 0x'' @ hex_string VMALLOC_START @
     '' - 0x'' @ hex_string (vmalloc_current s) @ line [] @ ''Total regions: '' @ dec_string (total_regions s) @ line [] @
     ''Total pages: '' @ dec_string (total_pages_allocated s) @ '' ('' @
     dec_string (total_pages_allocated s * PAGE_SIZE div 1024) @ line '' KB)'' @ line [] @ line ''Regions:'' @
     numbered region_text 0 xs"

lemma print_heap [simp]:
  "heap_start (terminal_print t s) = heap_start s" "heap_end (terminal_print t s) = heap_end s"
  "block_list (terminal_print t s) = block_list s" "total_allocations (terminal_print t s) = total_allocations s"
  "total_frees (terminal_print t s) = total_frees s"
  by (simp_all add: terminal_print_def)

lemma print_vm [simp]:
  "vmalloc_current (terminal_print t s) = vmalloc_current s" "region_list (terminal_print t s) = region_list s"
  "total_regions (terminal_print t s) = total_regions s" "total_pages_allocated (terminal_print t s) = total_pages_allocated s"
  by (simp_all add: terminal_print_def)

lemma kmalloc_dump_prints:
  assumes "heap_rep s bs"
  shows "kmalloc_dump s = Inr (terminal_print (heap_report s bs) s)"
proof -
  note r = heap_repD [OF assms]
  have "dump_blocks_from (block_list s) 0 (terminal_print t s) = Some (terminal_print (t @ numbered block_text 0 bs) s)" for t
    using dump_blocks [of "terminal_print t s" NULL bs 0] r(1,2,9) by simp
  then show ?thesis
    by (simp add: kmalloc_dump_def print_hex_km_def print_dec_km_def Let_def heap_report_def)
qed

lemma vmalloc_dump_prints:
  assumes "vm_rep s xs"
  shows "vmalloc_dump s = Inr (terminal_print (region_report s xs) s)"
proof -
  note l = vm_listD [OF vm_repD(2) [OF assms]]
  have "dump_regions_from (region_list s) 0 (terminal_print t s) = Some (terminal_print (t @ numbered region_text 0 xs) s)" for t
    using dump_regions [of "terminal_print t s" xs 0] l(2,3,6) by simp
  then show ?thesis
    by (simp add: vmalloc_dump_def print_hex_vm_def print_dec_vm_def Let_def region_report_def line_def)
qed

text \<open>
  The dumps return and are complete: in every state the kernel can reach there is one list of
  blocks and one of regions such that \<open>kmalloc_dump\<close> prints the heap's bounds, one numbered line for
  each block with its address, size and state, and the counters; and \<open>vmalloc_dump\<close> prints the range,
  the totals and one numbered line for each region. Neither changes anything but the console.
\<close>

lemma memory_dumps_complete:
  fixes s :: "'a vmsys_scheme"
  assumes "vm_reachable s"
  shows "\<exists>bs xs. heap_rep s bs \<and> vm_rep s xs \<and>
    kmalloc_dump s = Inr (s\<lparr>con := con s @ heap_report s bs\<rparr>) \<and>
    vmalloc_dump s = Inr (s\<lparr>con := con s @ region_report s xs\<rparr>)"
proof -
  obtain xs where xs: "vm_rep s xs" using vm_reachable_rep [OF assms] by blast
  then obtain bs where bs: "heap_rep s bs" using vm_listD(1) [OF vm_repD(2)] by (auto simp: heap_inv_def)
  from kmalloc_dump_prints [OF bs] vmalloc_dump_prints [OF xs] bs xs show ?thesis
    by (auto simp: terminal_print_def)
qed

section \<open>Poke and peek\<close>

lemma hex_text_chars: "c \<in> set (shell_hex v) \<Longrightarrow> of_char c \<noteq> (0 :: nat) \<and> of_char c \<noteq> (32 :: nat)"
proof -
  assume "c \<in> set (shell_hex v)"
  then have "c \<in> set (''0x'' @ hex_chars)" using hex_from_chars [of 8 v "[]"] by (auto simp: shell_hex_def hex_string_def)
  then show ?thesis by (auto simp: hex_chars_def)
qed

lemma skip_word_append:
  "(\<And>c. c \<in> set w \<Longrightarrow> of_char c \<noteq> (0 :: nat) \<and> of_char c \<noteq> (32 :: nat)) \<Longrightarrow> skip_word (w @ CHR '' '' # r) = CHR '' '' # r"
  by (induction w) simp_all

lemma parse_shell_hex: "parse_hex (shell_hex v) = v" "parse_hex (shell_hex v @ CHR '' '' # r) = v"
  using parse_hex_string [of v "[]"] parse_hex_string [of v "CHR '' '' # r"] by (simp_all add: parse_hex_def shell_hex_def)

lemma translate_offset:
  assumes "paging_ok s" "translate s v = Some p"
  shows "unat p mod 4096 = unat v mod 4096"
proof -
  obtain q where p: "p = PAGE_FRAME q OR PAGE_OFFSET v"
    using assms by (auto simp: translate_walk walk_def Let_def split: if_splits)
  have "PAGE_OFFSET p = PAGE_OFFSET v"
    unfolding p by (intro bit_word_eqI) (simp only: PAGE_OFFSET_def bit_offset bit_or_iff bit_PAGE_FRAME, auto)
  then show ?thesis by (metis unat_PAGE_OFFSET)
qed

lemma next_offset: "i < j \<Longrightarrow> j < 4 \<Longrightarrow> unat (a + word_of_nat i :: u32) mod 4096 \<noteq> unat (a + word_of_nat j) mod 4096"
proof -
  assume ij: "i < j" "j < 4"
  have u: "unat (a + word_of_nat k) mod 4096 = (unat a + k) mod 4096" if "k < 4" for k
    using that by (simp add: unat_add_mod word_nat mod_mod_cancel)
  have "(unat a + i) mod 4096 \<noteq> (unat a + j) mod 4096"
  proof
    assume "(unat a + i) mod 4096 = (unat a + j) mod 4096"
    then have "4096 dvd j - i" using ij mod_eq_dvd_iff_nat [of "unat a + i" "unat a + j" 4096] by simp
    then show False using ij by (auto dest: dvd_imp_le)
  qed
  then show ?thesis using ij u [of i] u [of j] by simp
qed

lemma four_bytes: "ucast (ucast v :: u8) OR push_bit 8 (ucast (ucast (drop_bit 8 v) :: u8)) OR push_bit 16 (ucast (ucast (drop_bit 16 v) :: u8))
    OR push_bit 24 (ucast (ucast (drop_bit 24 v) :: u8)) = (v :: u32)"
  using load32_store32 [of 0 v "\<lambda>_. 0"] by (simp add: load32_def store32_def)

text \<open>The bytes of a double word, as far as they are mapped outside the page tables.\<close>

definition pokeable :: "'a paging_scheme \<Rightarrow> u32 \<Rightarrow> bool" where
  "pokeable s a \<longleftrightarrow> (\<forall>i < 4. \<exists>p. translate s (a + word_of_nat i) = Some p \<and> frm p \<notin> table_frames s)"

lemma poke32_peek32:
  fixes s :: "'a paging_scheme"
  assumes ok: "small_ok s" and p: "pokeable s a"
  obtains s' where "poke32 a v s = Inr s'" "\<And>x. translate s' x = translate s x" "\<And>ts. peek32 (say ts s') a = Inr v"
    "con s' = con s"
proof -
  have "\<forall>i. \<exists>p. i < 4 \<longrightarrow> translate s (a + word_of_nat i) = Some p \<and> frm p \<notin> table_frames s" using p by (auto simp: pokeable_def)
  then obtain q where q: "\<And>i. i < 4 \<Longrightarrow> translate s (a + word_of_nat i) = Some (q i)" "\<And>i. i < 4 \<Longrightarrow> frm (q i) \<notin> table_frames s"
    by metis
  have off: "unat (q i) mod 4096 = unat (a + word_of_nat i) mod 4096" if "i < 4" for i
    by (rule translate_offset [OF small_okD(1) [OF ok] q(1) [OF that]])
  have ne: "q i \<noteq> q j" if "i < j" "j < 4" for i j using off [of i] off [of j] next_offset [OF that, of a] that by auto
  have t4: "translate4 s a = Inr (q 0, q 1, q 2, q 3)"
    using q(1) [of 0] q(1) [of 1] q(1) [of 2] q(1) [of 3] by (simp add: translate4_def)
  let ?m = "(mem s)(q 0 := ucast v, q 1 := ucast (drop_bit 8 v), q 2 := ucast (drop_bit 16 v), q 3 := ucast (drop_bit 24 v))"
  let ?s = "s\<lparr>mem := ?m\<rparr>"
  have other: "?m x = mem s x" if "\<And>i. i < 4 \<Longrightarrow> q i \<noteq> x" for x
    using that [of 0] that [of 1] that [of 2] that [of 3] by simp
  have "?m x = mem s x" if "frm x \<in> table_frames s" for x using q(2) that by (intro other) auto
  note e = bytes_elsewhere [OF ok, where m = ?m, OF this]
  have tr: "translate ?s x = translate s x" for x
    using e(1,2) translate_walk [OF small_okD(1) [OF ok]] translate_walk [OF small_okD(1) [OF e(2)]] by simp
  then have "translate4 (say ts ?s) a = Inr (q 0, q 1, q 2, q 3)" for ts using t4 by (simp add: translate4_def)
  then have "peek32 (say ts ?s) a = Inr v" for ts
    using ne [of 0 1] ne [of 0 2] ne [of 0 3] ne [of 1 2] ne [of 1 3] ne [of 2 3] by (simp add: peek32_def four_bytes)
  moreover have "poke32 a v s = Inr ?s" by (simp add: poke32_def t4)
  ultimately show thesis using that [where s' = ?s] tr by simp
qed



end
