(* ===== verification/Demo_Process.thy ===== *)
theory Demo_Process
  imports Process_Claims Timer
begin

unbundle bit_operations_syntax

text \<open>
  The code the demonstration processes run, \<open>kernel/src/process.c\<close>: \<open>process_bootstrap\<close>, the counter
  and the two ends of a socket. It is an instance of the scheduler's parameter \<open>run\<close>: what a process
  does from being resumed to switching back. A process whose saved \<open>eip\<close> is still the address of
  \<open>process_bootstrap\<close> starts there; any other is resumed behind its last \<open>process_yield\<close>, with its
  local variables as they were.
\<close>

section \<open>State\<close>

text \<open>
  The addresses of the three functions are fixed when the kernel is linked. \<open>counter_locals\<close> are the
  variables \<open>counter\<close>, \<open>iterations\<close> and \<open>limit\<close> on the stack of the process in a slot.
\<close>

record demosys = timersys +
  demo_counter_process :: u32
  demo_socket_receiver_process :: u32
  demo_socket_sender_process :: u32
  counter_locals :: "nat \<Rightarrow> u32 \<times> u32 \<times> u32"

section \<open>Operations\<close>

text \<open>The end of \<open>process_bootstrap\<close>, after the function of the process has returned.\<close>

definition bootstrap_return :: "process_context \<Rightarrow> nat \<Rightarrow> 'a procsys_scheme \<Rightarrow> 'a procsys_scheme" where
  "bootstrap_return regs i s =
     (let s = process_exit (Some i) (runtime_value (proc s i)) s in process_yield regs s)"

definition demo_counter_loop ::
  "process_context \<Rightarrow> nat \<Rightarrow> u32 \<times> u32 \<times> u32 \<Rightarrow> 'a demosys_scheme \<Rightarrow> 'a demosys_scheme outcome" where
  "demo_counter_loop regs i = (\<lambda>(counter, iterations, limit) s.
     if counter < limit then
       let counter = counter + 1;
           iterations = iterations + 1
       in obind (vstore32 (data_start (pmemory (proc s i))) counter s) (\<lambda>s.
          obind (vstore32 (bss_start (pmemory (proc s i))) iterations s) (\<lambda>s.
          let s = upd i (\<lambda>p. p\<lparr>runtime_value := counter\<rparr>) s;
              s = upd i (\<lambda>p. p\<lparr>runtime_state := iterations\<rparr>) s;
              s = s\<lparr>counter_locals := (counter_locals s)(i := (counter, iterations, limit))\<rparr>
          in Inr (process_yield regs s)))
     else Inr (bootstrap_return regs i (process_exit (Some i) counter s)))"

definition demo_socket_receiver :: "process_context \<Rightarrow> nat \<Rightarrow> 'a procsys_scheme \<Rightarrow> 'a procsys_scheme outcome" where
  "demo_socket_receiver regs i s =
     (case socket_recv (Some i) s of
        (None, s) \<Rightarrow> Inr (process_yield regs s)
      | (Some value, s) \<Rightarrow>
          obind (vstore32 (data_start (pmemory (proc s i))) value s) (\<lambda>s.
          let s = upd i (\<lambda>p. p\<lparr>last_socket_value := value\<rparr>) s;
              s = process_exit (Some i) (value AND 0xFFFF) s
          in Inr (bootstrap_return regs i s)))"

definition demo_socket_sender :: "process_context \<Rightarrow> nat \<Rightarrow> 'a procsys_scheme \<Rightarrow> 'a procsys_scheme outcome" where
  "demo_socket_sender regs i s =
     obind (socket_send (Some i) (runtime_arg0 (proc s i)) (runtime_arg1 (proc s i)) s) (\<lambda>(r, s).
     if r \<noteq> 0 then Inr (process_yield regs s)
     else
       let s = upd i (\<lambda>p. p\<lparr>runtime_state := 1\<rparr>) s;
           s = process_exit (Some i) 0 s
       in Inr (bootstrap_return regs i s))"

text \<open>
  The function \<open>entry\<close> points to, with the local variables \<open>locals\<close> of the counter; \<open>other\<close> is the code
  of any other process.
\<close>

definition process_code ::
  "(nat \<Rightarrow> 'a demosys_scheme \<Rightarrow> 'a demosys_scheme outcome) \<Rightarrow> process_context \<Rightarrow> nat \<Rightarrow> u32 \<times> u32 \<times> u32 \<Rightarrow>
     'a demosys_scheme \<Rightarrow> 'a demosys_scheme outcome" where
  "process_code other regs i locals s =
     (if entry (proc s i) = demo_counter_process s then demo_counter_loop regs i locals s
      else if entry (proc s i) = demo_socket_receiver_process s then demo_socket_receiver regs i s
      else if entry (proc s i) = demo_socket_sender_process s then demo_socket_sender regs i s
      else other i s)"

definition bootstrap ::
  "(nat \<Rightarrow> 'a demosys_scheme \<Rightarrow> 'a demosys_scheme outcome) \<Rightarrow> process_context \<Rightarrow> 'a demosys_scheme \<Rightarrow>
     'a demosys_scheme outcome" where
  "bootstrap other regs s =
     (case current_process s of
        None \<Rightarrow> Inr (process_switch_to_kernel_space s)
      | Some i \<Rightarrow>
          if current_process s = kernel_process s \<or> entry (proc s i) = NULL
          then Inr (process_switch_to_kernel_space s)
          else process_code other regs i (runtime_arg0 (proc s i), 0, runtime_arg1 (proc s i)) s)"

definition demo_run ::
  "(nat \<Rightarrow> 'a demosys_scheme \<Rightarrow> 'a demosys_scheme outcome) \<Rightarrow> process_context \<Rightarrow> nat \<Rightarrow>
     'a demosys_scheme \<Rightarrow> 'a demosys_scheme outcome" where
  "demo_run other regs i s =
     (if ctx_eip (pcontext (proc s i)) = process_bootstrap s then bootstrap other regs s
      else process_code other regs i (counter_locals s i) s)"

section \<open>The demonstration processes keep the table in order\<close>

lemma keeps_locals [simp]: "keeps s (s'\<lparr>counter_locals := l\<rparr>) \<longleftrightarrow> keeps s s'"
  by (simp add: keeps_def)

lemma keeps_return: "keeps s s1 \<Longrightarrow> keeps s (bootstrap_return regs i s1)"
  by (simp add: bootstrap_return_def Let_def keeps_exit keeps_yield)

lemma keeps_store: "keeps s s1 \<Longrightarrow> runs (keeps s) (vstore32 a v s1)"
  by (rule runs_mono [OF touches_vstore32]) (blast intro: keeps_trans keeps_memory)

lemma benign_runtime [simp]:
  "benign p (p\<lparr>runtime_value := a\<rparr>)" "benign p (p\<lparr>runtime_state := a\<rparr>)" "benign p (p\<lparr>last_socket_value := a\<rparr>)"
  by (simp_all add: benign_def ring_ok_def)

lemma keeps_counter: "runs (keeps s) (demo_counter_loop regs i locals s)"
proof -
  obtain counter iterations limit where l: "locals = (counter, iterations, limit)" by (cases locals)
  show ?thesis unfolding demo_counter_loop_def l prod.case Let_def
    by (auto intro!: runs_bind [OF keeps_store] keeps_yield keeps_then keeps_return keeps_exit keeps_refl)
qed

lemma keeps_receiver: "runs (keeps s) (demo_socket_receiver regs i s)"
proof -
  obtain v s1 where r: "socket_recv (Some i) s = (v, s1)" by (cases "socket_recv (Some i) s")
  have "keeps s s1" using keeps_socket_recv [OF keeps_refl, of "s" "Some i"] r by simp
  then show ?thesis unfolding demo_socket_receiver_def r prod.case Let_def
    by (auto split: option.split intro!: runs_bind [OF keeps_store] keeps_yield keeps_then keeps_return keeps_exit)
qed

lemma proc_ok_sender:
  assumes "proc_ok s" shows "runs proc_ok (demo_socket_sender regs i s)"
  unfolding demo_socket_sender_def
proof (rule runs_bind [OF proc_ok_socket_send [OF assms]])
  fix x :: "i32 \<times> 'a procsys_scheme"
  assume ok: "proc_ok (snd x)"
  show "runs proc_ok (case x of (r, s) \<Rightarrow> if r \<noteq> 0 then Inr (process_yield regs s)
      else let s = upd i (\<lambda>p. p\<lparr>runtime_state := 1\<rparr>) s; s = process_exit (Some i) 0 s in Inr (bootstrap_return regs i s))"
    by (cases x) (auto simp: Let_def intro!: proc_ok_keeps [OF ok] keeps_yield keeps_return keeps_exit keeps_then)
qed

lemma proc_ok_code:
  assumes "run_ok other" "proc_ok s" shows "runs proc_ok (process_code other regs i locals s)"
  using assms proc_ok_sender [OF assms(2)] runs_mono [OF keeps_counter, of s proc_ok] runs_mono [OF keeps_receiver, of s proc_ok]
    proc_ok_keeps [OF assms(2)]
  by (auto simp: process_code_def run_ok_def)

text \<open>The demonstration processes are well-behaved processes, so all that holds of the scheduler holds with them.\<close>

lemma demo_run_ok:
  assumes "run_ok other" shows "run_ok (demo_run other regs)"
  unfolding run_ok_def
proof (intro allI impI)
  fix i and s :: "'a demosys_scheme"
  assume ok: "proc_ok s"
  note code = proc_ok_code [OF assms ok]
  have "runs proc_ok (bootstrap other regs s)"
    using code proc_ok_keeps [OF ok keeps_kernel_space [OF keeps_refl]]
    by (auto simp: bootstrap_def split: option.split)
  then show "runs proc_ok (demo_run other regs i s)" using code by (simp add: demo_run_def)
qed

section \<open>What they compute\<close>

text \<open>
  One turn of the counter: it counts, records the new value in its data page, its bss page and its
  slot, and yields as \<open>READY\<close>; at the limit it ends as a zombie whose exit code is the limit reached,
  which the second \<open>process_exit\<close> in \<open>process_bootstrap\<close> does not overwrite.
\<close>

lemma demo_counter_turn:
  assumes i: "i < length (process_table s)" "current_process s = Some i" "kernel_process s \<noteq> Some i" "status (proc s i) = RUN"
    and p: "translate s (data_start (pmemory (proc s i))) = Some p"
    and q: "translate (s\<lparr>mem := store32 p (counter + 1) (mem s)\<rparr>) (bss_start (pmemory (proc s i))) = Some q"
    and l: "counter < limit"
  shows "\<exists>s'. demo_counter_loop regs i (counter, iterations, limit) s = Inr s' \<and>
    runtime_value (proc s' i) = counter + 1 \<and> runtime_state (proc s' i) = iterations + 1 \<and>
    counter_locals s' i = (counter + 1, iterations + 1, limit) \<and> status (proc s' i) = READY \<and>
    pcontext (proc s' i) = regs \<and>
    mem s' = store32 q (iterations + 1) (store32 p (counter + 1) (mem s))"
  using assms
  by (simp add: demo_counter_loop_def Let_def vstore32_def upd_def process_yield_def process_context_switch_from_def)

lemma demo_counter_end:
  assumes "i < length (process_table s)" "current_process s = Some i" "kernel_process s \<noteq> Some i" "status (proc s i) = RUN"
    and "parent (proc s i) \<noteq> Some i" "\<not> counter < limit"
  shows "\<exists>s'. demo_counter_loop regs i (counter, iterations, limit) s = Inr s' \<and>
    status (proc s' i) = ZOMBIE \<and> exit_code (proc s' i) = counter"
  using assms
  by (auto simp: demo_counter_loop_def bootstrap_return_def Let_def upd_def process_exit_def process_yield_def
      process_context_switch_from_def nth_list_update split: option.split)

end
