(* ===== verification/Shell_Process.thy ===== *)
theory Shell_Process
  imports Demo_Process Shell_Memory Interrupts_Spec
begin

unbundle bit_operations_syntax

text \<open>
  The process commands of the shell, \<open>kernel/src/shell.c\<close>: the table of processes, the demonstrations,
  forced scheduling, fork, wait, signals, owners and process memory. Each command is a function of
  the text behind its name; the shell runs as the kernel's process. \<open>user\<close>, \<open>run\<close> and \<open>regs\<close> are the
  parameters of the scheduler.
\<close>

record shproc = demosys +
  shell_last_demo_pid :: u32

section \<open>The process table\<close>

definition process_summary :: "nat \<Rightarrow> 'a procsys_scheme \<Rightarrow> string list" where
  "process_summary i s =
     (let p = proc s i;
          parent_pid = (case parent p of None \<Rightarrow> 0 | Some q \<Rightarrow> pid (proc s q))
      in [''PID='', dec_string (pid p), '' STATE='', process_status_name (status p), '' OWNER='', dec_string (owner p),
          '' PARENT='', dec_string parent_pid, '' RUNS='', dec_string (run_count p), '' TICKS='', dec_string (cpu_ticks p),
          '' SIGQ='', dec_string (process_signal_pending_count (Some i) s),
          '' SOCKQ='', dec_string (process_socket_pending_count (Some i) s),
          '' CR3='', shell_hex (process_page_directory (pmemory p)), '' PAGE='', shell_hex (process_page (pmemory p)),
          '' HEAP='', shell_hex (pheap_start (pmemory p)), '' STACK='', shell_hex (stack_top (pmemory p)),
          '' ESP='', shell_hex (ctx_esp (pcontext p)), '' SWITCH='', dec_string (switch_count p),
          '' LASTSIG='', dec_string (last_signal p), '' SIGVAL='', shell_hex (last_signal_value p),
          '' LASTVAL='', shell_hex (runtime_value p)] @
         (if status p = ZOMBIE then ['' EXIT='', dec_string (exit_code p)] else []) @ [line []])"

definition shell_print_process_summary :: "nat \<Rightarrow> 'a procsys_scheme \<Rightarrow> 'a procsys_scheme" where
  "shell_print_process_summary i s = say (process_summary i s) s"

partial_function (option) print_processes_from :: "procptr \<Rightarrow> 'a procsys_scheme \<Rightarrow> 'a procsys_scheme option" where
  "print_processes_from process s =
     (case process of
        None \<Rightarrow> Some s
      | Some i \<Rightarrow>
          let s = shell_print_process_summary i s in print_processes_from (pnext (proc s i)) s)"

definition cmd_procs :: "'a timersys_scheme \<Rightarrow> 'a timersys_scheme outcome" where
  "cmd_procs s =
     (let process = process_first s in
      obind (process_count s) (\<lambda>total.
      let s = say [line ''=== Process Table ==='', ''Total: '', dec_string total,
                   ''  CPU ticks: '', dec_string (scheduler_tick_count s), ''  PIT ticks: '', dec_string (timer_get_ticks s),
                   ''  Context switches: '', dec_string (process_context_switch_count s), line []] s
      in of_walk (print_processes_from process s)))"

section \<open>Commands that create and run processes\<close>

definition cmd_execdemo :: "'a shproc_scheme \<Rightarrow> 'a shproc_scheme outcome" where
  "cmd_execdemo s =
     obind (process_spawn_demo_counter (demo_counter_process s) 1000 0 3 s) (\<lambda>(first, s).
     obind (process_spawn_demo_counter (demo_counter_process s) 1001 10 13 s) (\<lambda>(second, s).
     case (first, second) of
       (Some a, Some b) \<Rightarrow>
         let s = s\<lparr>shell_last_demo_pid := pid (proc s b)\<rparr>
         in Inr (say [''Created demo processes: '', dec_string (pid (proc s a)), '', '', dec_string (pid (proc s b)), line []] s)
     | _ \<Rightarrow> Inr (say [line ''Failed to create demo processes''] s)))"

definition cmd_sched ::
  "(u32 \<Rightarrow> nat \<Rightarrow> i32 \<Rightarrow> u32 \<Rightarrow> 'a procsys_scheme \<Rightarrow> 'a procsys_scheme) \<Rightarrow>
   (nat \<Rightarrow> 'a procsys_scheme \<Rightarrow> 'a procsys_scheme outcome) \<Rightarrow> process_context \<Rightarrow> string \<Rightarrow>
     'a procsys_scheme \<Rightarrow> 'a procsys_scheme outcome" where
  "cmd_sched user run regs args s =
     (let ticks = parse_uint args in
      if ticks = 0 then Inr (say [line ''Usage: sched TICKS''] s)
      else
        obind (scheduler_force_ticks user run regs ticks s) (\<lambda>(_, s).
        Inr (say [''Scheduler ran '', dec_string ticks, '' ticks (total '', dec_string (scheduler_tick_count s), line '')''] s)))"

definition cmd_forkdemo :: "string \<Rightarrow> 'a shproc_scheme \<Rightarrow> 'a shproc_scheme outcome" where
  "cmd_forkdemo args s =
     (let args = skip_spaces args;
          pd = (if ch args \<noteq> 0 then parse_uint args else shell_last_demo_pid s)
      in obind (process_get_by_pid pd s) (\<lambda>source.
         if source = None then Inr (say [line ''Usage: forkdemo PID''] s)
         else
           obind (fork_process source s) (\<lambda>(child, s).
           case child of
             None \<Rightarrow> Inr (say [line ''Fork failed''] s)
           | Some c \<Rightarrow> Inr (say [''Forked PID '', dec_string pd, '' -> child PID '', dec_string (pid (proc s c)), line []] s))))"

definition cmd_sockdemo ::
  "(u32 \<Rightarrow> nat \<Rightarrow> i32 \<Rightarrow> u32 \<Rightarrow> 'a demosys_scheme \<Rightarrow> 'a demosys_scheme) \<Rightarrow>
   (nat \<Rightarrow> 'a demosys_scheme \<Rightarrow> 'a demosys_scheme outcome) \<Rightarrow> process_context \<Rightarrow>
     'a demosys_scheme \<Rightarrow> 'a demosys_scheme outcome" where
  "cmd_sockdemo user run regs s =
     obind (process_spawn_demo_socket_pair (demo_socket_receiver_process s) (demo_socket_sender_process s)
              2000 0xABCD1234 s) (\<lambda>(pair, s).
     case pair of
       None \<Rightarrow> Inr (say [line ''Socket demo setup failed''] s)
     | Some (sender_pid, receiver_pid) \<Rightarrow>
         obind (scheduler_force_ticks user run regs 4 s) (\<lambda>(_, s).
         obind (process_get_by_pid receiver_pid s) (\<lambda>receiver.
         Inr (say [''Socket demo sender='', dec_string sender_pid, '' receiver='', dec_string receiver_pid, '' value='',
           case receiver of Some r \<Rightarrow> shell_hex (last_socket_value (proc s r)) | None \<Rightarrow> ''0x00000000'', line []] s))))"

section \<open>Commands on one process\<close>

definition cmd_waitproc :: "string \<Rightarrow> 'a procsys_scheme \<Rightarrow> 'a procsys_scheme outcome" where
  "cmd_waitproc args s =
     (let pd = parse_uint args in
      obind (process_wait (process_root s) pd s) (\<lambda>(result, code, s).
      let exit_code = (case code of None \<Rightarrow> 0 | Some c \<Rightarrow> c) in
      Inr (if sint result < 0 then say [line ''waitproc: invalid child pid''] s
           else if result = 0 then say [line ''waitproc: process still running''] s
           else say [''wait collected PID '', dec_string pd, '' exit='', dec_string exit_code, line []] s)))"

definition cmd_killproc :: "string \<Rightarrow> 'a procsys_scheme \<Rightarrow> 'a procsys_scheme outcome" where
  "cmd_killproc args s =
     (let pd = parse_uint args;
          args = skip_word args;
          sig = (if ch args = 32 then parse_uint (skip_spaces args) else PROCESS_SIGNAL_TERM)
      in obind (kill_process (process_root s) pd sig s) (\<lambda>(r, s).
         Inr (if r = 0 then say [''Queued signal '', dec_string sig, '' for PID '', dec_string pd, line []] s
              else say [line ''killproc failed''] s)))"

definition cmd_sigproc :: "string \<Rightarrow> 'a procsys_scheme \<Rightarrow> 'a procsys_scheme outcome" where
  "cmd_sigproc args s =
     (let pd = parse_uint args;
          args = skip_word args
      in if ch args \<noteq> 32 then Inr (say [line ''Usage: sigproc PID SIG [VAL]''] s)
         else
           let args = skip_spaces args;
               sig = parse_uint args;
               args = skip_word args;
               value = (if ch args = 32 then parse_hex (skip_spaces args) else 0)
           in obind (send_signal_to_process (process_root s) pd sig value s) (\<lambda>(r, s).
              Inr (if r = 0 then say [''Queued process signal '', dec_string sig, '' for PID '', dec_string pd,
                     '' value='', shell_hex value, line []] s
                   else say [line ''sigproc failed''] s)))"

definition cmd_getuid :: "string \<Rightarrow> 'a procsys_scheme \<Rightarrow> 'a procsys_scheme outcome" where
  "cmd_getuid args s =
     (let pd = parse_uint args in
      obind (process_get_by_pid pd s) (\<lambda>process.
      Inr (if process = None then say [line ''getuid: invalid pid''] s
           else say [''PID '', dec_string pd, '' owner='', dec_string (process_getuid process s), line []] s)))"

definition cmd_mmapproc :: "string \<Rightarrow> 'a procsys_scheme \<Rightarrow> 'a procsys_scheme outcome" where
  "cmd_mmapproc args s =
     (let pd = parse_uint args;
          args = skip_word args
      in if ch args \<noteq> 32 then Inr (say [line ''Usage: mmapproc PID SIZE''] s)
         else
           let args = skip_spaces args in
           obind (process_get_by_pid pd s) (\<lambda>process.
           if process = None then Inr (say [line ''mmapproc: invalid pid''] s)
           else
             let (mapped, s) = process_mmap process (parse_uint args) s
             in Inr (if mapped = NULL then say [line ''mmapproc failed''] s
                     else say [''mmapproc mapped '', shell_hex mapped, '' for PID '', dec_string pd, line []] s)))"

section \<open>Printing\<close>

lemma say_process [simp]:
  "process_table (say x s) = process_table s" "process_head (say x s) = process_head s"
  "pit_ticks (say x' s') = pit_ticks s'" "con (say x s) = con s @ concat x"
  by (simp_all add: say_def terminal_print_def)

lemma keeps_say [simp]: "keeps s (say x s') \<longleftrightarrow> keeps s s'"
  by (simp add: keeps_def say_def terminal_print_def)

lemma proc_ok_say [simp]: "proc_ok (say x s) \<longleftrightarrow> proc_ok s"
proof
  have "keeps (say x s) s" by (simp add: keeps_def say_def terminal_print_def)
  then show "proc_ok (say x s) \<Longrightarrow> proc_ok s" by (rule proc_ok_keeps [rotated])
qed (simp add: proc_ok_keeps [of s])

lemma summary_say [simp]: "process_summary i (say x s) = process_summary i s"
  by (simp add: process_summary_def Let_def process_signal_pending_count_def process_socket_pending_count_def
      split: option.split)

lemma say_say: "say y (say x s) = say (x @ y) s"
  by (simp add: say_def terminal_print_def)

lemma print_processes_chain:
  "chain (process_table s) p L \<Longrightarrow>
     print_processes_from p s = Some (say (concat (map (\<lambda>i. process_summary i s) L)) s)"
proof (induction L arbitrary: p s)
  case Nil
  then show ?case by (simp add: print_processes_from.simps [of None] say_def terminal_print_def)
next
  case (Cons i L)
  let ?s = "say (process_summary i s) s"
  have "chain (process_table ?s) (pnext (proc ?s i)) L" using Cons.prems by simp
  from Cons.IH [OF this] show ?case
    using Cons.prems by (simp add: print_processes_from.simps [of "Some i"] shell_print_process_summary_def Let_def say_say)
qed

text \<open>
  \<open>procs\<close> shows the process table: on every table in order it returns and prints the number of
  slots in use, and then exactly one line per process, in the order of the list, each with the
  fields of its slot; nothing but the console changes.
\<close>

lemma procs_lists_table:
  assumes "table_ok {} L s"
  shows "\<exists>header. cmd_procs s = Inr (say (header @ concat (map (\<lambda>i. process_summary i s) L)) s) \<and>
    header = [line ''=== Process Table ==='', ''Total: '', dec_string (word_of_nat (card {i. i < 16 \<and> used (proc s i)})),
      ''  CPU ticks: '', dec_string (total_scheduler_ticks s), ''  PIT ticks: '', dec_string (pit_ticks s),
      ''  Context switches: '', dec_string (total_context_switches s), line []] \<and>
    distinct L \<and> set L = {i. i < 16 \<and> used (proc s i)}"
proof -
  note D = table_okD [OF assms]
  have set: "set L = {i. i < 16 \<and> used (proc s i)}" using D(4) by simp
  have "filter (\<lambda>i. used (proc s i)) L = L" using set by (auto simp: filter_id_conv)
  moreover have "length L = card {i. i < 16 \<and> used (proc s i)}" using distinct_card [OF D(3)] set by simp
  ultimately have c: "process_count s = Inr (word_of_nat (card {i. i < 16 \<and> used (proc s i)}))"
    using count_chain [OF D(2), of 0] by (simp add: process_count_def)
  show ?thesis
    unfolding cmd_procs_def c Let_def obind_simps process_first_def
    using D(3) set
    by (subst print_processes_chain [where L = L])
      (simp_all add: D(2) say_say scheduler_tick_count_def timer_get_ticks_def process_context_switch_count_def)
qed

text \<open>The shell with the kernel's process alone.\<close>

definition shell_demo :: shproc where
  "shell_demo = only_kernel (procsys.extend blank_machine \<lparr>syscall_table = [], idt = blank_idt, pit_ticks = 5,
     pit_frequency = 50, demo_counter_process = 0x100100, demo_socket_receiver_process = 0x100200,
     demo_socket_sender_process = 0x100300, counter_locals = (\<lambda>_. (0, 0, 0)), shell_last_demo_pid = 0\<rparr>)"

lemma shell_demo_ok: "table_ok {} [0] shell_demo"
  unfolding shell_demo_def by (rule only_kernel_ok)

section \<open>Commands and the table\<close>

lemma proc_ok_wait_root:
  assumes "proc_ok s" "current_process s = kernel_process s"
  shows "runs (\<lambda>r. proc_ok (snd (snd r))) (process_wait (process_root s) pd s)"
  using proc_ok_wait [OF assms(1), of pd] assms(2) by (auto simp: process_root_def elim!: runs_mono)

lemma runs_get_by_pid:
  assumes "proc_ok s"
  shows "runs (\<lambda>p. case p of None \<Rightarrow> True | Some i \<Rightarrow> i < 16 \<and> used (proc s i)) (process_get_by_pid pd s)"
proof -
  obtain L where L: "table_ok {} L s" using assms by (auto simp: proc_ok_def)
  show ?thesis using table_okD(4) [OF L] by (cases rule: get_by_pid_cases [OF L, of pd]) auto
qed

lemma proc_ok_force_ticks:
  "handlers_ok user \<Longrightarrow> run_ok run \<Longrightarrow> proc_ok s \<Longrightarrow> runs proc_ok (force_ticks_from user run regs count index s)"
proof (induction user run regs count index s rule: force_ticks_from.induct)
  case (1 user run regs count index s)
  have tick: "proc_ok (scheduler_tick s)" by (rule proc_ok_keeps [OF 1(4)]) (simp add: scheduler_tick_def)
  show ?case
    unfolding force_ticks_from.simps [of user run regs count index s] scheduler_run_pending_def
    using 1 by (auto intro!: runs_bind [OF proc_ok_run_pending [OF 1(2,3) tick]] simp: scheduler_run_pending_def)
qed

lemma proc_ok_forced:
  assumes "handlers_ok user" "run_ok run" "proc_ok s"
  shows "runs (\<lambda>r. proc_ok (snd r)) (scheduler_force_ticks user run regs count s)"
  unfolding scheduler_force_ticks_def by (rule runs_bind [OF proc_ok_force_ticks [OF assms]]) simp

text \<open>A creation by the running process: the table is in order again, and at most one identifier is used up.\<close>

definition spawned :: "'a procsys_scheme \<Rightarrow> procptr \<times> 'a procsys_scheme \<Rightarrow> bool" where
  "spawned s r \<longleftrightarrow> proc_ok (snd r) \<and> current_process (snd r) = current_process s \<and>
     next_pid (snd r) \<in> {next_pid s, next_pid s + 1} \<and>
     (\<forall>i. fst r = Some i \<longrightarrow> i < 16 \<and> used (proc (snd r) i) \<and> current_process s \<noteq> Some i) \<and>
     (\<forall>i < 16. used (proc s i) \<longrightarrow> used (proc (snd r) i))"

lemma spawn_owned:
  assumes ok: "proc_ok s" and n: "next_pid s \<noteq> 0xFFFFFFFF"
  shows "runs (spawned s) (process_create_owned own f size' s)"
proof -
  obtain L where L: "table_ok {} L s" using ok by (auto simp: proc_ok_def)
  obtain q where q: "current_process s = Some q" "q \<in> set L" using table_okD(9) [OF L] by blast
  have "spawned s r" if c: "created q own f L s r" for r
  proof -
    obtain p s' where r: "r = (p, s')" by (cases r)
    have "i < 16 \<and> used (proc s' i) \<and> current_process s \<noteq> Some i" if "p = Some i" for i
    proof -
      have t: "table_ok {} (L @ [i]) s'" "i \<notin> set L" using c r that by (simp_all add: created_def)
      then show ?thesis using table_okD(4) [OF t(1)] q by auto
    qed
    moreover have "used (proc s' i)" if "i < 16" "used (proc s i)" for i
    proof -
      obtain M where M: "table_ok {} M s'" "set L \<subseteq> set M"
        using c r by (cases p) (auto simp: created_def intro: that [of L] that [of "L @ [the p]"])
      have "i \<in> set L" using that table_okD(4) [OF L] by simp
      then show ?thesis using M(2) table_okD(4) [OF M(1)] by auto
    qed
    ultimately show ?thesis using c r proc_ok_created [OF c] by (auto simp: spawned_def created_def)
  qed
  then show ?thesis
    unfolding process_create_owned_def creator_eq [OF L q(1)]
    by (rule runs_mono [OF create_ok [OF L q(2) n]])
qed

lemma spawn_counter:
  assumes "proc_ok s" "next_pid s \<noteq> 0xFFFFFFFF"
  shows "runs (spawned s) (process_spawn_demo_counter f own seed limit s)"
  unfolding process_spawn_demo_counter_def
proof (rule runs_bind [OF spawn_owned [OF assms]])
  fix x :: "procptr \<times> 'a procsys_scheme" assume x: "spawned s x"
  obtain p s' where r: "x = (p, s')" by (cases x)
  have k: "keeps s' (upd i (\<lambda>q. q\<lparr>runtime_arg0 := seed, runtime_arg1 := limit\<rparr>) s')" for i
    by (rule keeps_upd) (simp add: benign_def ring_ok_def)
  have "spawned s (Some i, upd i (\<lambda>q. q\<lparr>runtime_arg0 := seed, runtime_arg1 := limit\<rparr>) s')" if "p = Some i" for i
  proof -
    have ok: "proc_ok s'" using x r by (simp add: spawned_def)
    then obtain L where "table_ok {} L s'" by (auto simp: proc_ok_def)
    then have l: "length (process_table s') = 16" by (rule table_okD(1))
    show ?thesis
      using x r that l proc_ok_keeps [OF ok k] by (auto simp: spawned_def upd_def nth_list_update)
  qed
  then show "runs (spawned s) (case x of (p, s) \<Rightarrow> case p of None \<Rightarrow> Inr (None, s)
      | Some i \<Rightarrow> Inr (Some i, upd i (\<lambda>q. q\<lparr>runtime_arg0 := seed, runtime_arg1 := limit\<rparr>) s))"
    using x r by (cases p) simp_all
qed

lemma proc_ok_spawned_release:
  assumes "proc_ok s" "i < 16" "used (proc s i)" "current_process s \<noteq> Some i"
  shows "runs proc_ok (process_release (Some i) s)"
proof -
  obtain L where L: "table_ok {} L s" using assms(1) by (auto simp: proc_ok_def)
  then have "i \<in> set L" using table_okD(4) [OF L] assms(2,3) by simp
  then show ?thesis by (rule proc_ok_release [OF L _ assms(4)])
qed

lemma pid_room: "n < 0xFFFFFFFE \<Longrightarrow> m \<in> {n, n + 1} \<Longrightarrow> n \<noteq> 0xFFFFFFFF \<and> m \<noteq> (0xFFFFFFFF :: u32)"
  by (auto simp: word_less_nat_alt word_eq_unat unat_word_ariths)

lemma spawn_pair:
  assumes "proc_ok s" "next_pid s < 0xFFFFFFFE"
  shows "runs (\<lambda>r. proc_ok (snd r)) (process_spawn_demo_socket_pair f g own v s)"
proof -
  have n: "next_pid s \<noteq> 0xFFFFFFFF" using pid_room [OF assms(2), of "next_pid s"] by simp
  have second: "runs (\<lambda>x. proc_ok (snd x)) (obind (process_create_owned own g PAGE_SIZE s1) (\<lambda>(sender, s).
         case sender of
           None \<Rightarrow> obind (process_release (Some r) s) (\<lambda>s. Inr (None, s))
         | Some f \<Rightarrow>
             let s = upd f (\<lambda>p. p\<lparr>runtime_arg0 := pid (proc s r), runtime_arg1 := v\<rparr>) s
             in Inr (Some (pid (proc s f), pid (proc s r)), s)))" if s1: "spawned s (Some r, s1)" for s1 r
  proof (rule runs_bind [OF spawn_owned])
    show "proc_ok s1" "next_pid s1 \<noteq> 0xFFFFFFFF" using s1 pid_room [OF assms(2)] by (auto simp: spawned_def)
    fix x :: "procptr \<times> 'a procsys_scheme" assume x: "spawned s1 x"
    obtain p s2 where r: "x = (p, s2)" by (cases x)
    have ok: "proc_ok s2" using x r by (simp add: spawned_def)
    have rel: "runs proc_ok (process_release (Some r) s2)"
      using x r s1 by (intro proc_ok_spawned_release [OF ok]) (auto simp: spawned_def)
    have k: "keeps s2 (upd i (\<lambda>p. p\<lparr>runtime_arg0 := a, runtime_arg1 := v\<rparr>) s2)" for i a
      by (rule keeps_upd) (simp add: benign_def ring_ok_def)
    show "runs (\<lambda>x. proc_ok (snd x)) (case x of (sender, s) \<Rightarrow>
         case sender of
           None \<Rightarrow> obind (process_release (Some r) s) (\<lambda>s. Inr (None, s))
         | Some f \<Rightarrow>
             let s = upd f (\<lambda>p. p\<lparr>runtime_arg0 := pid (proc s r), runtime_arg1 := v\<rparr>) s
             in Inr (Some (pid (proc s f), pid (proc s r)), s))"
      using r proc_ok_keeps [OF ok k] by (cases p) (auto simp: Let_def intro!: runs_bind [OF rel])
  qed
  show ?thesis
    unfolding process_spawn_demo_socket_pair_def
  proof (rule runs_bind [OF spawn_owned [OF assms(1) n]])
    fix x :: "procptr \<times> 'a procsys_scheme" assume x: "spawned s x"
    obtain p s1 where r: "x = (p, s1)" by (cases x)
    show "runs (\<lambda>x. proc_ok (snd x)) (case x of (receiver, s) \<Rightarrow> case receiver of None \<Rightarrow> Inr (None, s)
        | Some r \<Rightarrow> obind (process_create_owned own g PAGE_SIZE s) (\<lambda>(sender, s).
         case sender of
           None \<Rightarrow> obind (process_release receiver s) (\<lambda>s. Inr (None, s))
         | Some f \<Rightarrow>
             let s = upd f (\<lambda>p. p\<lparr>runtime_arg0 := pid (proc s r), runtime_arg1 := v\<rparr>) s
             in Inr (Some (pid (proc s f), pid (proc s r)), s)))"
      using x r second by (cases p) (auto simp: spawned_def)
  qed
qed

lemma procs_runs:
  assumes "proc_ok s"
  shows "runs proc_ok (cmd_procs s)"
proof -
  obtain L where L: "table_ok {} L s" using assms by (auto simp: proc_ok_def)
  then have "print_processes_from (process_first s) (say x s) =
      Some (say (concat (map (\<lambda>i. process_summary i s) L)) (say x s))" for x
    using print_processes_chain [of "say x s" "process_head s" L] table_okD(2) [OF L] by (simp add: process_first_def)
  moreover have "\<exists>n. process_count s = Inr n"
    using count_chain [OF table_okD(2) [OF L], of 0] by (simp add: process_count_def)
  ultimately show ?thesis using assms by (auto simp: cmd_procs_def Let_def)
qed

lemma execdemo_runs:
  fixes s :: "'a shproc_scheme"
  assumes ok: "proc_ok s" and n: "next_pid s < 0xFFFFFFFE"
  shows "runs proc_ok (cmd_execdemo s)"
proof -
  have n': "next_pid s \<noteq> 0xFFFFFFFF" using pid_room [OF n, of "next_pid s"] by simp
  have second: "runs (spawned s1) (process_spawn_demo_counter f own a b s1)" if "spawned s (p, s1)" for p s1 f own a b
    using that pid_room [OF n] by (intro spawn_counter) (auto simp: spawned_def)
  have last: "proc_ok (t\<lparr>shell_last_demo_pid := k\<rparr>)" if "proc_ok t" for t :: "'a shproc_scheme" and k
    by (rule proc_ok_keeps [OF that]) (simp add: keeps_def)
  have sp: "proc_ok t" if "spawned u (q, t)" for t u :: "'a shproc_scheme" and q
    using that by (simp add: spawned_def)
  show ?thesis
    unfolding cmd_execdemo_def Let_def
    by (rule runs_bind [OF spawn_counter [OF ok n']])
      (auto intro!: runs_bind [OF second] last split: option.split dest: sp)
qed

lemma forkdemo_runs:
  assumes ok: "proc_ok s" and n: "next_pid s < 0xFFFFFFFE"
  shows "runs proc_ok (cmd_forkdemo args s)"
  unfolding cmd_forkdemo_def Let_def
proof (rule runs_bind [OF runs_get_by_pid [OF ok]])
  have n': "next_pid s \<noteq> 0xFFFFFFFF" using pid_room [OF n, of "next_pid s"] by simp
  fix p assume p: "case p of None \<Rightarrow> True | Some i \<Rightarrow> i < 16 \<and> used (proc s i)"
  show "runs proc_ok (if p = None then Inr (say [line ''Usage: forkdemo PID''] s)
     else obind (fork_process p s) (\<lambda>(child, s').
       case child of None \<Rightarrow> Inr (say [line ''Fork failed''] s')
       | Some c \<Rightarrow> Inr (say [''Forked PID '',
           dec_string (if ch (skip_spaces args) \<noteq> 0 then parse_uint (skip_spaces args) else shell_last_demo_pid s),
           '' -> child PID '', dec_string (pid (proc s' c)), line []] s')))"
    using p ok by (cases p) (auto intro!: runs_bind [OF proc_ok_fork [OF ok n']] split: option.split)
qed

lemma scheduling_runs:
  assumes "handlers_ok user" "run_ok run" and ok: "proc_ok s"
  shows "runs proc_ok (cmd_sched user run regs args s)"
    "next_pid s < 0xFFFFFFFE \<Longrightarrow> runs proc_ok (cmd_sockdemo user run regs s)"
proof -
  show "runs proc_ok (cmd_sched user run regs args s)"
    using ok by (auto simp: cmd_sched_def Let_def intro!: runs_bind [OF proc_ok_forced [OF assms]])
  show "runs proc_ok (cmd_sockdemo user run regs s)" if "next_pid s < 0xFFFFFFFE"
    unfolding cmd_sockdemo_def
    by (rule runs_bind [OF spawn_pair [OF ok that]])
      (auto split: option.split intro!: runs_bind [OF proc_ok_forced [OF assms(1,2)]] runs_bind [OF runs_get_by_pid])
qed

lemma waitproc_runs:
  "proc_ok s \<Longrightarrow> current_process s = kernel_process s \<Longrightarrow> runs proc_ok (cmd_waitproc args s)"
  unfolding cmd_waitproc_def Let_def by (rule runs_bind [OF proc_ok_wait_root]) (auto split: prod.split)

lemma signalling_runs:
  assumes ok: "proc_ok s"
  shows "runs proc_ok (cmd_killproc args s)" "runs proc_ok (cmd_sigproc args s)"
proof -
  show "runs proc_ok (cmd_killproc args s)"
    unfolding cmd_killproc_def Let_def kill_process_def
    by (rule runs_bind [OF proc_ok_send_signal [OF ok]]) (auto split: prod.split)
  show "runs proc_ok (cmd_sigproc args s)"
    unfolding cmd_sigproc_def Let_def
    using ok by (auto intro!: runs_bind [OF proc_ok_send_signal [OF ok]])
qed

lemma inspecting_runs:
  assumes ok: "proc_ok s"
  shows "runs proc_ok (cmd_getuid args s)" "runs proc_ok (cmd_mmapproc args s)"
proof -
  show "runs proc_ok (cmd_getuid args s)"
    unfolding cmd_getuid_def Let_def by (rule runs_bind [OF runs_get_by_pid [OF ok]]) (simp add: ok)
  show "runs proc_ok (cmd_mmapproc args s)"
    unfolding cmd_mmapproc_def Let_def
    using ok proc_ok_keeps [OF ok keeps_mmap [OF keeps_refl]]
    by (auto intro!: runs_bind [OF runs_get_by_pid [OF ok]] split: prod.split simp: prod_eq_iff)
qed



end
