(* ===== verification/Panic.thy ===== *)
theory Panic
  imports Terminal_Spec Interrupts Signals Format Machine "HOL-Library.Monad_Syntax"
begin

unbundle bit_operations_syntax

text \<open>
  Kernel panic, \<open>kernel/src/panic.c\<close>: saving the processor registers and the top of the stack,
  painting the panic screen straight into VGA memory, the report on the serial line, and the
  halt. What the registers hold when the panic code runs, the memory of the stack and the two
  symbols of the linker script are arguments.
\<close>

section \<open>State (\<open>panic.h\<close>)\<close>

record panic_context =
  valid :: bool
  has_registers :: bool
  saved_stack_pointer :: u32
  saved_stack_size :: u32
  register_snapshot :: cpu_registers
  stack_snapshot :: "u8 list"

text \<open>The kernel signals keep a processor of their own; it is the terminal's while they run.\<close>

record 'cb panicsys = terminal +
  last_panic_context :: panic_context
  pn_signals :: "'cb sigsys"

abbreviation (input) PANIC_WIDTH :: u32 where "PANIC_WIDTH \<equiv> 80"
abbreviation (input) PANIC_HEIGHT :: u32 where "PANIC_HEIGHT \<equiv> 25"

section \<open>Screen\<close>

text \<open>\<open>PANIC_VGA[index] = vga_entry(c, color)\<close>.\<close>

definition panic_cell :: "u32 \<Rightarrow> u8 \<Rightarrow> u8 \<Rightarrow> 'a terminal_scheme \<Rightarrow> 'a terminal_scheme" where
  "panic_cell index c color s = s\<lparr>vga_memory := (vga_memory s)[unat index := vga_entry c color]\<rparr>"

fun panic_print_from :: "cstring \<Rightarrow> u32 \<Rightarrow> u32 \<Rightarrow> u8 \<Rightarrow> 'a terminal_scheme \<Rightarrow> 'a terminal_scheme" where
  "panic_print_from [] row col color s = s"
| "panic_print_from (c # str) row col color s =
     (if c = 0 \<or> \<not> col < PANIC_WIDTH then s
      else if c = CHAR_NEWLINE then panic_print_from str (row + 1) 0 color s
      else panic_print_from str row (col + 1) color (panic_cell (row * PANIC_WIDTH + col) c color s))"

definition panic_print :: "cstring \<Rightarrow> u32 \<Rightarrow> u8 \<Rightarrow> 'a terminal_scheme \<Rightarrow> 'a terminal_scheme" where
  "panic_print str row color s = panic_print_from str row 0 color s"

text \<open>Writing characters to \<open>PANIC_VGA[index++]\<close>.\<close>

fun panic_put :: "u32 \<Rightarrow> u8 list \<Rightarrow> u8 \<Rightarrow> 'a terminal_scheme \<Rightarrow> 'a terminal_scheme" where
  "panic_put index [] color s = s"
| "panic_put index (c # text) color s = panic_put (index + 1) text color (panic_cell index c color s)"

text \<open>\<open>hex_chars[(value >> shift) & 0x0F]\<close> for \<open>shift\<close> from 28 down to 0 in steps of four.\<close>

definition shift_digits :: "u32 \<Rightarrow> u8 list" where
  "shift_digits value =
     map (\<lambda>shift. of_char (hex_chars ! unat (drop_bit shift value AND 0x0F))) [28, 24, 20, 16, 12, 8, 4, 0]"

definition panic_print_hex :: "u32 \<Rightarrow> u32 \<Rightarrow> u32 \<Rightarrow> u8 \<Rightarrow> 'a terminal_scheme \<Rightarrow> 'a terminal_scheme" where
  "panic_print_hex row col value color s =
     panic_put (row * PANIC_WIDTH + col) ([0x30, 0x78] @ shift_digits value) color s"

definition panic_clear_screen :: "u8 \<Rightarrow> 'a terminal_scheme \<Rightarrow> 'a terminal_scheme" where
  "panic_clear_screen bg_color s =
     (let color = vga_entry_color VGA_COLOR_WHITE bg_color
      in s\<lparr>vga_memory := fold (\<lambda>i v. v[i := vga_entry CHAR_SPACE color]) [0..<80 * 25] (vga_memory s)\<rparr>)"

text \<open>
  The buffer both integer printers fill, last digit first, the sign behind. The remainder and the
  quotient of a positive \<open>int\<close> are those of the unsigned number.
\<close>

definition int_buf :: "i32 \<Rightarrow> u8 list" where
  "int_buf num =
     (let neg = sint num < 0;
          num = (if neg then - num else num);
          buf = (if num = 0 then [0x30] else if 0 < sint num then cstr (rev_digits num) else [])
      in if neg then buf @ [0x2D] else buf)"

definition panic_print_int :: "i32 \<Rightarrow> u32 \<Rightarrow> u32 \<Rightarrow> u8 \<Rightarrow> 'a terminal_scheme \<Rightarrow> 'a terminal_scheme" where
  "panic_print_int num row col color s =
     panic_put (row * PANIC_WIDTH + col) (rev (int_buf num)) color s"

section \<open>Serial report\<close>

fun serial_write_chars :: "device \<Rightarrow> u8 list \<Rightarrow> 'a serial_scheme \<Rightarrow> 'a serial_scheme option" where
  "serial_write_chars dev [] s = Some s"
| "serial_write_chars dev (c # text) s =
     Option.bind (serial_write_char dev c s) (serial_write_chars dev text)"

definition panic_serial_print_int :: "device \<Rightarrow> i32 \<Rightarrow> 'a serial_scheme \<Rightarrow> 'a serial_scheme option" where
  "panic_serial_print_int dev num s =
     (if num = 0 then serial_write_char dev 0x30 s else serial_write_chars dev (rev (int_buf num)) s)"

definition panic_serial_print_hex :: "device \<Rightarrow> u32 \<Rightarrow> 'a serial_scheme \<Rightarrow> 'a serial_scheme option" where
  "panic_serial_print_hex dev value s =
     Option.bind (serial_write dev (Some (cstr ''0x'')) s) (serial_write_chars dev (shift_digits value))"

section \<open>Context\<close>

definition zero_registers :: cpu_registers where
  "zero_registers = \<lparr>gs = 0, fs = 0, es = 0, ds = 0, edi = 0, esi = 0, ebp = 0, esp = 0, ebx = 0, edx = 0,
     ecx = 0, eax = 0, int_no = 0, err_code = 0, eip = 0, cs = 0, reg_eflags = 0\<rparr>"

definition panic_reset_context :: "('cb, 'a) panicsys_scheme \<Rightarrow> ('cb, 'a) panicsys_scheme" where
  "panic_reset_context s =
     s\<lparr>last_panic_context := \<lparr>valid = False, has_registers = False, saved_stack_pointer = 0,
        saved_stack_size = 0, register_snapshot = zero_registers,
        stack_snapshot = fold (\<lambda>index b. b[index := 0]) [0..<128] (stack_snapshot (last_panic_context s))\<rparr>\<rparr>"

text \<open>
  \<open>cpu\<close> is what the registers hold: a segment register is stored through a 16-bit variable, \<open>eip\<close> is
  the address \<open>panic_capture_eip\<close> pops.
\<close>

definition panic_capture_current_registers :: "cpu_registers \<Rightarrow> 'a cpu_scheme \<Rightarrow> cpu_registers" where
  "panic_capture_current_registers cpu s =
     (let segment = (\<lambda>v :: u32. ucast (ucast v :: u16) :: u32)
      in cpu\<lparr>gs := segment (gs cpu), fs := segment (fs cpu), es := segment (es cpu), ds := segment (ds cpu),
          int_no := 0xFFFFFFFF, err_code := 0, cs := segment (cs cpu), reg_eflags := read_eflags s\<rparr>)"

definition panic_save_stack_snapshot ::
  "memory \<Rightarrow> u32 \<Rightarrow> u32 \<Rightarrow> u32 \<Rightarrow> ('cb, 'a) panicsys_scheme \<Rightarrow> ('cb, 'a) panicsys_scheme" where
  "panic_save_stack_snapshot m stack_low stack_high stack_pointer s =
     (let c = (last_panic_context s)\<lparr>saved_stack_pointer := stack_pointer, saved_stack_size := 0\<rparr>
      in if stack_pointer < stack_low \<or> stack_high \<le> stack_pointer then s\<lparr>last_panic_context := c\<rparr>
         else
           let bytes_to_copy = stack_high - stack_pointer;
               bytes_to_copy = (if 128 < bytes_to_copy then 128 else bytes_to_copy);
               c = c\<lparr>stack_snapshot := fold (\<lambda>index b. b[index := m (stack_pointer + word_of_nat index)])
                       [0..<unat bytes_to_copy] (stack_snapshot c),
                     saved_stack_size := bytes_to_copy\<rparr>
           in s\<lparr>last_panic_context := c\<rparr>)"

definition panic_save_context ::
  "memory \<Rightarrow> u32 \<Rightarrow> u32 \<Rightarrow> cpu_registers \<Rightarrow> cpu_registers option \<Rightarrow> ('cb, 'a) panicsys_scheme \<Rightarrow> ('cb, 'a) panicsys_scheme" where
  "panic_save_context m stack_low stack_high cpu registers s =
     (let s = panic_reset_context s;
          r = (case registers of Some r \<Rightarrow> r | None \<Rightarrow> panic_capture_current_registers cpu s);
          s = s\<lparr>last_panic_context := (last_panic_context s)\<lparr>register_snapshot := r, valid := True, has_registers := True\<rparr>\<rparr>
      in panic_save_stack_snapshot m stack_low stack_high (esp r) s)"

definition panic_get_last_context :: "('cb, 'a) panicsys_scheme \<Rightarrow> panic_context" where
  "panic_get_last_context s = last_panic_context s"

section \<open>The report\<close>

text \<open>The screen, \<open>panic_render_context\<close> up to the first write to the serial line.\<close>

definition panic_screen :: "cstring \<Rightarrow> cstring option \<Rightarrow> i32 \<Rightarrow> panic_context \<Rightarrow> 'a terminal_scheme \<Rightarrow> 'a terminal_scheme" where
  "panic_screen message file line c s =
     (let title_color = vga_entry_color VGA_COLOR_WHITE VGA_COLOR_RED;
          msg_color = vga_entry_color VGA_COLOR_LIGHT_GREY VGA_COLOR_RED;
          loc_color = vga_entry_color VGA_COLOR_LIGHT_BROWN VGA_COLOR_RED;
          r = register_snapshot c;
          s = panic_clear_screen VGA_COLOR_RED s;
          s = panic_print (replicate 80 0x3D) 0 title_color s;
          s = panic_print (replicate 28 0x20 @ cstr ''KERNEL PANIC'' @ replicate 40 0x20) 1 title_color s;
          s = panic_print (replicate 80 0x3D) 2 title_color s;
          s = panic_print (cstr ''Error: '') 4 msg_color s;
          s = panic_print message 5 title_color s;
          s = (case file of None \<Rightarrow> s
               | Some file \<Rightarrow>
                   let s = panic_print (cstr ''Location: '') 7 msg_color s;
                       s = panic_print file 8 loc_color s;
                       s = panic_print (cstr ''Line: '') 9 msg_color s
                   in panic_print_int line 9 6 loc_color s);
          s = (if has_registers c then
                 let s = panic_print (cstr ''INT:'') 11 msg_color s;
                     s = panic_print_hex 11 5 (int_no r) loc_color s;
                     s = panic_print (cstr ''EIP:'') 12 msg_color s;
                     s = panic_print_hex 12 5 (eip r) loc_color s;
                     s = panic_print (cstr ''ESP:'') 13 msg_color s;
                     s = panic_print_hex 13 5 (esp r) loc_color s;
                     s = panic_print (cstr ''EBP:'') 14 msg_color s;
                     s = panic_print_hex 14 5 (ebp r) loc_color s;
                     s = panic_print (cstr ''EAX:'') 15 msg_color s;
                     s = panic_print_hex 15 5 (eax r) loc_color s;
                     s = panic_print (cstr ''EBX:'') 16 msg_color s
                 in panic_print_hex 16 5 (ebx r) loc_color s
               else s);
          s = panic_print (cstr ''Stack snapshot bytes:'') 18 msg_color s;
          s = panic_print_int (saved_stack_size c) 18 21 loc_color s;
          s = panic_print (cstr ''The system has been halted.'') 21 msg_color s
      in panic_print (cstr ''Please restart your computer.'') 23 msg_color s)"

text \<open>\<open>serial_write\<close> of a literal; \<open>LF\<close> is its line feed.\<close>

abbreviation (input) LF :: u8 where "LF \<equiv> 0x0A"

definition swrite :: "device \<Rightarrow> cstring \<Rightarrow> 'a serial_scheme \<Rightarrow> 'a serial_scheme option" where
  "swrite dev text s = serial_write dev (Some text) s"

definition serial_registers :: "device \<Rightarrow> cpu_registers \<Rightarrow> 'a serial_scheme \<Rightarrow> 'a serial_scheme option" where
  "serial_registers dev r s = do {
     s \<leftarrow> swrite dev (cstr ''INT: '') s; s \<leftarrow> panic_serial_print_hex dev (int_no r) s;
     s \<leftarrow> swrite dev (cstr ''  ERR: '') s; s \<leftarrow> panic_serial_print_hex dev (err_code r) s;
     s \<leftarrow> swrite dev (LF # cstr ''EIP: '') s; s \<leftarrow> panic_serial_print_hex dev (eip r) s;
     s \<leftarrow> swrite dev (cstr ''  ESP: '') s; s \<leftarrow> panic_serial_print_hex dev (esp r) s;
     s \<leftarrow> swrite dev (cstr ''  EBP: '') s; s \<leftarrow> panic_serial_print_hex dev (ebp r) s;
     s \<leftarrow> swrite dev (LF # cstr ''EAX: '') s; s \<leftarrow> panic_serial_print_hex dev (eax r) s;
     s \<leftarrow> swrite dev (cstr ''  EBX: '') s; s \<leftarrow> panic_serial_print_hex dev (ebx r) s;
     s \<leftarrow> swrite dev (cstr ''  ECX: '') s; s \<leftarrow> panic_serial_print_hex dev (ecx r) s;
     s \<leftarrow> swrite dev (cstr ''  EDX: '') s; s \<leftarrow> panic_serial_print_hex dev (edx r) s;
     s \<leftarrow> swrite dev (LF # cstr ''ESI: '') s; s \<leftarrow> panic_serial_print_hex dev (esi r) s;
     s \<leftarrow> swrite dev (cstr ''  EDI: '') s; s \<leftarrow> panic_serial_print_hex dev (edi r) s;
     s \<leftarrow> swrite dev (cstr ''  EFLAGS: '') s; s \<leftarrow> panic_serial_print_hex dev (reg_eflags r) s;
     swrite dev [LF] s }"

text \<open>The loop over the bytes of the stack snapshot: \<open>n\<close> bytes from \<open>index\<close> on.\<close>

fun serial_stack :: "device \<Rightarrow> u8 list \<Rightarrow> nat \<Rightarrow> nat \<Rightarrow> 'a serial_scheme \<Rightarrow> 'a serial_scheme option" where
  "serial_stack dev bytes index 0 s = Some s"
| "serial_stack dev bytes index (Suc n) s = do {
     s \<leftarrow> (if index \<noteq> 0 \<and> index mod 16 = 0 then swrite dev [LF] s else Some s);
     s \<leftarrow> panic_serial_print_hex dev (ucast (bytes ! index)) s;
     s \<leftarrow> serial_write_char dev 0x20 s;
     serial_stack dev bytes (index + 1) n s }"

definition panic_report :: "device \<Rightarrow> cstring \<Rightarrow> cstring option \<Rightarrow> i32 \<Rightarrow> panic_context \<Rightarrow> 'a serial_scheme \<Rightarrow> 'a serial_scheme option" where
  "panic_report dev message file line c s = do {
     s \<leftarrow> swrite dev ([LF, LF] @ cstr ''KERNEL PANIC'' @ [LF] @ cstr ''Error: '') s;
     s \<leftarrow> swrite dev message s;
     s \<leftarrow> swrite dev [LF] s;
     s \<leftarrow> (case file of None \<Rightarrow> Some s
           | Some file \<Rightarrow> do {
               s \<leftarrow> swrite dev (cstr ''Location: '') s; s \<leftarrow> swrite dev file s;
               s \<leftarrow> swrite dev (LF # cstr ''Line: '') s; s \<leftarrow> panic_serial_print_int dev line s;
               swrite dev [LF] s });
     s \<leftarrow> (if has_registers c then serial_registers dev (register_snapshot c) s else Some s);
     s \<leftarrow> swrite dev (cstr ''Saved stack pointer: '') s; s \<leftarrow> panic_serial_print_hex dev (saved_stack_pointer c) s;
     s \<leftarrow> swrite dev (LF # cstr ''Stack snapshot: '') s; s \<leftarrow> panic_serial_print_int dev (saved_stack_size c) s;
     s \<leftarrow> swrite dev (cstr '' bytes'' @ [LF]) s;
     s \<leftarrow> serial_stack dev (stack_snapshot c) 0 (unat (saved_stack_size c)) s;
     swrite dev ([LF] @ cstr ''The system has been halted.'' @ [LF] @ cstr ''Please restart your computer.'' @ [LF]) s }"

definition panic_render_context ::
  "device \<Rightarrow> cstring \<Rightarrow> cstring option \<Rightarrow> i32 \<Rightarrow> ('cb, 'a) panicsys_scheme \<Rightarrow> ('cb, 'a) panicsys_scheme option" where
  "panic_render_context dev message file line s =
     (let c = last_panic_context s in panic_report dev message file line c (panic_screen message file line c s))"

text \<open>The registers in which the processor halts for good, with interrupts off.\<close>

definition panic_clean_registers_and_halt :: "cpu_registers \<Rightarrow> 'a cpu_scheme \<Rightarrow> cpu_registers \<times> 'a cpu_scheme" where
  "panic_clean_registers_and_halt cpu s =
     (let s = interrupts_disable s
      in (cpu\<lparr>eax := 0, ebx := 0, ecx := 0, edx := 0, esi := 0, edi := 0, ebp := 0, reg_eflags := eflags s\<rparr>, s))"

text \<open>\<open>schedule_signal(KERNEL_SIGNAL_PANIC, 0, NULL)\<close> on the processor of the panic.\<close>

definition panic_signal :: "('cb, 'a) panicsys_scheme \<Rightarrow> ('cb, 'a) panicsys_scheme" where
  "panic_signal s =
     (let g = (pn_signals s)\<lparr>sg_cpu := \<lparr>eflags = eflags s, port_out = port_out s\<rparr>\<rparr>;
          (r, g) = schedule_signal KERNEL_SIGNAL_PANIC 0 NULL g
      in s\<lparr>eflags := eflags (sg_cpu g), port_out := port_out (sg_cpu g), pn_signals := g\<rparr>)"

definition panic_with_context ::
  "device \<Rightarrow> memory \<Rightarrow> u32 \<Rightarrow> u32 \<Rightarrow> cpu_registers \<Rightarrow> cstring \<Rightarrow> cstring option \<Rightarrow> i32 \<Rightarrow> cpu_registers option \<Rightarrow>
     ('cb, 'a) panicsys_scheme \<Rightarrow> (cpu_registers \<times> ('cb, 'a) panicsys_scheme) option" where
  "panic_with_context dev m stack_low stack_high cpu message file line registers s = do {
     let s = interrupts_disable s;
     let s = panic_save_context m stack_low stack_high cpu registers s;
     let s = panic_signal s;
     s \<leftarrow> panic_render_context dev message file line s;
     Some (panic_clean_registers_and_halt cpu s) }"

definition panic where
  "panic dev m stack_low stack_high cpu message = panic_with_context dev m stack_low stack_high cpu message None 0 None"

definition panic_at where
  "panic_at dev m stack_low stack_high cpu message file line =
     panic_with_context dev m stack_low stack_high cpu message (Some file) line None"

definition panic_with_registers where
  "panic_with_registers dev m stack_low stack_high cpu message registers =
     panic_with_context dev m stack_low stack_high cpu message None 0 (Some registers)"

definition warn_terminal :: "device \<Rightarrow> cstring \<Rightarrow> 'a terminal_scheme \<Rightarrow> 'a terminal_scheme option" where
  "warn_terminal dev message s = do {
     s \<leftarrow> terminal_write dev (cstr ''[WARNING] '') s;
     s \<leftarrow> terminal_write dev message s;
     terminal_putchar dev CHAR_NEWLINE s }"

section \<open>What is sent\<close>

text \<open>Steps that send a text over the serial line, as far as it is enabled, and change nothing else.\<close>

definition emits :: "cstring \<Rightarrow> ('a serial_scheme \<Rightarrow> 'a serial_scheme option) \<Rightarrow> bool" where
  "emits text f \<longleftrightarrow>
     (\<forall>s. \<exists>s'. f s = Some s' \<and> sends (if serial_enabled s then concat (map on_line text) else []) s s')"

named_theorems emitted

lemma emits_bind [emitted]:
  assumes "emits t f" "emits u g"
  shows "emits (t @ u) (\<lambda>s. Option.bind (f s) g)"
  unfolding emits_def
proof
  fix s
  obtain s1 where 1: "f s = Some s1" "sends (if serial_enabled s then concat (map on_line t) else []) s s1"
    using assms(1) by (auto simp: emits_def)
  obtain s2 where 2: "g s1 = Some s2" "sends (if serial_enabled s1 then concat (map on_line u) else []) s1 s2"
    using assms(2) by (auto simp: emits_def)
  show "\<exists>s'. Option.bind (f s) g = Some s' \<and>
      sends (if serial_enabled s then concat (map on_line (t @ u)) else []) s s'"
    using 1 2 sends_trans [OF 1(2) 2(2)] sends_fields(1) [OF 1(2)] by (auto split: if_splits)
qed

lemma emits_none [emitted]: "emits [] Some"
  by (simp add: emits_def sends_none)

lemma emits_char [emitted]: "line_live dev \<Longrightarrow> emits [c] (serial_write_char dev c)"
  unfolding emits_def
proof
  fix s :: "'a serial_scheme"
  assume "line_live dev"
  then show "\<exists>s'. serial_write_char dev c s = Some s' \<and>
      sends (if serial_enabled s then concat (map on_line [c]) else []) s s'"
    using serial_write_char_sends [of dev c s] by (simp split: if_splits)
qed

lemma emits_chars [emitted]: "line_live dev \<Longrightarrow> emits str (serial_write_chars dev str)"
proof (induction str)
  case Nil
  have "serial_write_chars dev [] = (Some :: 'a serial_scheme \<Rightarrow> _)" by (rule ext) simp
  then show ?case using emits_none by metis
next
  case (Cons c str)
  have "emits ([c] @ str) (\<lambda>s :: 'a serial_scheme. Option.bind (serial_write_char dev c s) (serial_write_chars dev str))"
    using Cons by (intro emitted)
  moreover have "serial_write_chars dev (c # str) =
      (\<lambda>s :: 'a serial_scheme. Option.bind (serial_write_char dev c s) (serial_write_chars dev str))"
    by (rule ext) simp
  ultimately show ?case by simp
qed

lemma emits_write [emitted]:
  assumes "line_live dev" "0 \<notin> set text"
  shows "emits text (swrite dev text)"
  unfolding emits_def swrite_def
proof
  fix s :: "'a serial_scheme"
  show "\<exists>s'. serial_write dev (Some text) s = Some s' \<and>
      sends (if serial_enabled s then concat (map on_line text) else []) s s'"
    using serial_write_from_sends [OF assms, of s] sends_none [of s]
    by (cases "serial_enabled s") (auto simp: serial_write_def)
qed

lemma hex_string_shifts: "cstr (hex_string value) = shift_digits value"
  by (simp add: hex_string_def shift_digits_def cstr_def numeral_eq_Suc drop_bit_drop_bit)

lemma emits_hex [emitted]:
  assumes "line_live dev"
  shows "emits (cstr (''0x'' @ hex_string value)) (panic_serial_print_hex dev value)"
proof -
  have "emits (cstr ''0x'' @ shift_digits value)
      (\<lambda>s :: 'a serial_scheme. Option.bind (swrite dev (cstr ''0x'') s) (serial_write_chars dev (shift_digits value)))"
    using assms by (intro emitted) (simp_all add: cstr_def)
  moreover have "panic_serial_print_hex dev value =
      (\<lambda>s :: 'a serial_scheme. Option.bind (swrite dev (cstr ''0x'') s) (serial_write_chars dev (shift_digits value)))"
    by (rule ext) (simp add: panic_serial_print_hex_def swrite_def)
  ultimately show ?thesis by (simp add: hex_string_shifts [symmetric]) (simp add: cstr_def)
qed

text \<open>A signed number in decimal.\<close>

definition int_text :: "i32 \<Rightarrow> string" where
  "int_text num = (if sint num < 0 then ''-'' @ dec_string (- num) else dec_string num)"

lemma unat_neg:
  assumes "num \<noteq> (0 :: u32)"
  shows "unat (- num) + unat num = 4294967296"
proof -
  have "0 < unat num" using assms by (simp add: unat_gt_0)
  then show ?thesis using unat_sub_if_size [of 0 num] unat_u32_bound [of num] by (simp add: word_size)
qed

lemma int_buf_text:
  assumes "num \<noteq> 0x80000000"
  shows "rev (int_buf num) = cstr (int_text num)"
proof -
  have r: "rev (cstr (rev_digits n)) = cstr (dec_string n)" if "n \<noteq> 0" for n
    using rev_digits_dec_string [OF that] by (simp add: cstr_def rev_map)
  show ?thesis
  proof (cases "sint num < 0")
    case True
    then have n: "num \<noteq> 0" by auto
    have "unat num \<noteq> 2147483648" using assms by (simp add: word_eq_unat)
    moreover have "2147483648 \<le> unat num" using True by (simp add: sint_neg_unat)
    moreover have "unat (- num) + unat num = 4294967296" using n by (rule unat_neg)
    ultimately have "\<not> sint (- num) < 0" by (simp add: sint_neg_unat)
    moreover have "sint (- num) \<noteq> 0" using n by (simp add: signed_eq_0_iff)
    ultimately have "0 < sint (- num)" by linarith
    then show ?thesis using True n r [of "- num"] by (simp add: int_buf_def int_text_def cstr_def)
  next
    case False
    have "0 < sint num" if "num \<noteq> 0"
    proof -
      have "sint num \<noteq> 0" using that by (simp add: signed_eq_0_iff)
      then show ?thesis using False by linarith
    qed
    then show ?thesis using False r [of num]
      by (auto simp: int_buf_def int_text_def dec_string_def [of 0] cstr_def)
  qed
qed

lemma emits_int [emitted]:
  assumes "line_live dev" "num \<noteq> 0x80000000"
  shows "emits (cstr (int_text num)) (panic_serial_print_int dev num)"
proof (cases "num = 0")
  case True
  then have "panic_serial_print_int dev num = (serial_write_char dev 0x30 :: 'a serial_scheme \<Rightarrow> _)"
    by (intro ext) (simp add: panic_serial_print_int_def)
  then show ?thesis using True emits_char [OF assms(1), of "0x30"] by (simp add: int_text_def dec_string_def cstr_def)
next
  case False
  then have "panic_serial_print_int dev num = (serial_write_chars dev (rev (int_buf num)) :: 'a serial_scheme \<Rightarrow> _)"
    by (intro ext) (simp add: panic_serial_print_int_def)
  then show ?thesis using emits_chars [OF assms(1), of "rev (int_buf num)"] int_buf_text [OF assms(2)] by simp
qed

lemma emits_if [emitted]:
  "(b \<Longrightarrow> emits t f) \<Longrightarrow> (\<not> b \<Longrightarrow> emits u g) \<Longrightarrow>
     emits (if b then t else u) (\<lambda>s. if b then f s else g s)"
  by (simp add: emits_def)

lemma emits_case [emitted]:
  "(x = None \<Longrightarrow> emits t f) \<Longrightarrow> (\<And>y. x = Some y \<Longrightarrow> emits (u y) (g y)) \<Longrightarrow>
     emits (case x of None \<Rightarrow> t | Some y \<Rightarrow> u y) (\<lambda>s. case x of None \<Rightarrow> f s | Some y \<Rightarrow> g y s)"
  by (cases x) (simp_all add: emits_def)

text \<open>The report, as a text: the registers, the bytes of the stack in rows of sixteen, and the whole.\<close>

definition hex :: "u32 \<Rightarrow> cstring" where
  "hex value = cstr (''0x'' @ hex_string value)"

definition registers_text :: "cpu_registers \<Rightarrow> cstring" where
  "registers_text r =
     cstr ''INT: '' @ hex (int_no r) @ cstr ''  ERR: '' @ hex (err_code r) @ [LF] @
     cstr ''EIP: '' @ hex (eip r) @ cstr ''  ESP: '' @ hex (esp r) @ cstr ''  EBP: '' @ hex (ebp r) @ [LF] @
     cstr ''EAX: '' @ hex (eax r) @ cstr ''  EBX: '' @ hex (ebx r) @ cstr ''  ECX: '' @ hex (ecx r) @
     cstr ''  EDX: '' @ hex (edx r) @ [LF] @
     cstr ''ESI: '' @ hex (esi r) @ cstr ''  EDI: '' @ hex (edi r) @ cstr ''  EFLAGS: '' @ hex (reg_eflags r) @ [LF]"

definition stack_text :: "u8 list \<Rightarrow> nat list \<Rightarrow> cstring" where
  "stack_text bytes indices =
     concat (map (\<lambda>i. (if i \<noteq> 0 \<and> i mod 16 = 0 then [LF] else []) @ hex (ucast (bytes ! i)) @ [0x20]) indices)"

definition panic_text :: "cstring \<Rightarrow> cstring option \<Rightarrow> i32 \<Rightarrow> panic_context \<Rightarrow> cstring" where
  "panic_text message file line c =
     [LF, LF] @ cstr ''KERNEL PANIC'' @ [LF] @ cstr ''Error: '' @ message @ [LF] @
     (case file of None \<Rightarrow> []
      | Some file \<Rightarrow> cstr ''Location: '' @ file @ [LF] @ cstr ''Line: '' @ cstr (int_text line) @ [LF]) @
     (if has_registers c then registers_text (register_snapshot c) else []) @
     cstr ''Saved stack pointer: '' @ hex (saved_stack_pointer c) @ [LF] @
     cstr ''Stack snapshot: '' @ cstr (int_text (saved_stack_size c)) @ cstr '' bytes'' @ [LF] @
     stack_text (stack_snapshot c) [0..<unat (saved_stack_size c)] @ [LF] @
     cstr ''The system has been halted.'' @ [LF] @ cstr ''Please restart your computer.'' @ [LF]"

lemma emits_as: "emits t f \<Longrightarrow> t = u \<Longrightarrow> emits u f"
  by simp

lemma length_cstr [simp]: "length (cstr text) = length text"
  by (simp add: cstr_def)

lemma clean_text [simp]: "0 \<notin> set (cstr text) \<longleftrightarrow> CHR 0x00 \<notin> set text"
proof -
  have "of_char c = (0 :: u8) \<longleftrightarrow> c = CHR 0x00" for c
  proof
    assume "of_char c = (0 :: u8)"
    then have "word_of_nat (of_char c) = (0 :: u8)" by (simp add: of_nat_of_char)
    then have "(of_char c :: nat) = 0" using of_char_mod_256 [of c, where 'a = nat]
      by (simp add: word_of_nat_eq_0_iff mod_eq_0_iff_dvd [symmetric])
    then have "of_char c = (of_char (CHR 0x00) :: nat)" by simp
    then show "c = CHR 0x00" by (simp only: of_char_eq_iff)
  qed simp
  then show ?thesis by (auto simp: cstr_def image_iff)
qed

lemma emits_registers [emitted]:
  assumes "line_live dev"
  shows "emits (registers_text r) (serial_registers dev r)"
  unfolding serial_registers_def [abs_def]
  by (rule emits_as, (rule emits_bind emits_write emits_hex assms | (simp; fail))+) (simp add: registers_text_def hex_def)

lemma emits_stack [emitted]:
  assumes "line_live dev"
  shows "emits (stack_text bytes [index..<index + n]) (serial_stack dev bytes index n)"
proof (induction n arbitrary: index)
  case 0
  have "serial_stack dev bytes index 0 = (Some :: 'a serial_scheme \<Rightarrow> _)" by (rule ext) simp
  then show ?case using emits_none by (simp add: stack_text_def)
next
  case (Suc n)
  have "serial_stack dev bytes index (Suc n) = (\<lambda>s :: 'a serial_scheme. do {
     s \<leftarrow> (if index \<noteq> 0 \<and> index mod 16 = 0 then swrite dev [LF] s else Some s);
     s \<leftarrow> panic_serial_print_hex dev (ucast (bytes ! index)) s;
     s \<leftarrow> serial_write_char dev 0x20 s;
     serial_stack dev bytes (index + 1) n s })" by (rule ext) simp
  moreover have "emits (stack_text bytes [index..<index + Suc n]) \<dots>"
    by (rule emits_as, (rule emits_bind emits_if emits_write emits_hex emits_char emits_none assms Suc | (simp; fail))+)
      (simp add: stack_text_def hex_def upt_conv_Cons del: upt_Suc)
  ultimately show ?case by simp
qed

lemma panic_report_emits:
  assumes "line_live dev" "0 \<notin> set message" "\<And>f. file = Some f \<Longrightarrow> 0 \<notin> set f"
    and "line \<noteq> 0x80000000" "saved_stack_size c \<le> 128"
  shows "emits (panic_text message file line c) (panic_report dev message file line c)"
proof -
  have n: "saved_stack_size c \<noteq> 0x80000000" using assms(5) by auto
  have t: "emits (stack_text (stack_snapshot c) [0..<unat (saved_stack_size c)])
     (serial_stack dev (stack_snapshot c) 0 (unat (saved_stack_size c)))"
    using emits_stack [OF assms(1), of "stack_snapshot c" 0] by simp
  show ?thesis
    unfolding panic_report_def [abs_def]
    by (rule emits_as, (rule emits_bind emits_if emits_case emits_write emits_hex emits_int emits_registers
        emits_none t assms(1,2,4) n | (simp; fail) | (rule assms(3), assumption))+) (simp add: panic_text_def hex_def split: option.split)
qed

section \<open>What is shown\<close>

text \<open>A line of the screen: pieces of text in their colours, blanks in white on red after them.\<close>

definition paint :: "u8 list \<Rightarrow> u8 \<Rightarrow> u16 list" where
  "paint str color = map (\<lambda>c. vga_entry c color) str"

abbreviation (input) red :: u16 where "red \<equiv> vga_entry CHAR_SPACE (vga_entry_color VGA_COLOR_WHITE VGA_COLOR_RED)"

definition pad :: "u16 list \<Rightarrow> u16 list" where
  "pad cells = cells @ replicate (80 - length cells) red"

lemma length_paint [simp]: "length (paint str color) = length str"
  by (simp add: paint_def)

lemma length_pad: "length cells \<le> 80 \<Longrightarrow> length (pad cells) = 80"
  by (simp add: pad_def)

text \<open>Writing into one line of a screen.\<close>

definition screen :: "u16 list list \<Rightarrow> 'a terminal_scheme \<Rightarrow> bool" where
  "screen rows s \<longleftrightarrow> vga_memory s = concat rows \<and> length rows = 25 \<and> (\<forall>r \<in> set rows. length r = 80)"

lemma concat_update:
  "i < length rows \<Longrightarrow> j < 80 \<Longrightarrow> \<forall>r \<in> set rows. length r = 80 \<Longrightarrow>
     (concat rows)[i * 80 + j := v] = concat (rows[i := (rows ! i)[j := v]])"
proof (induction rows arbitrary: i)
  case (Cons r rows)
  then show ?case by (cases i) (simp_all add: list_update_append)
qed simp

lemma panic_cell_screen:
  assumes "screen rows s" "unat row < 25" "unat col < 80"
  shows "screen (rows[unat row := (rows ! unat row)[unat col := vga_entry c color]])
    (panic_cell (row * PANIC_WIDTH + col) c color s)"
proof -
  have "unat (row * PANIC_WIDTH + col) = unat row * 80 + unat col"
    using assms(2,3) cell_eq [of row col] by (simp add: cell_def)
  then show ?thesis
    using assms concat_update [of "unat row" rows "unat col"]
    by (auto simp: screen_def panic_cell_def dest: set_update_subset_insert [THEN subsetD])
qed

text \<open>Text written to a line that is blank from \<open>col\<close> on.\<close>

lemma panic_put_row:
  assumes "screen rows s" "unat row < 25" "rows ! unat row = p @ replicate n red" "length p = unat col"
    and "length str \<le> n"
  shows "screen (rows[unat row := p @ paint str color @ replicate (n - length str) red])
    (panic_put (row * PANIC_WIDTH + col) str color s)"
  using assms
proof (induction str arbitrary: rows s p n col)
  case Nil
  then show ?case by (simp add: paint_def list_update_same_conv [THEN iffD2] screen_def)
next
  case (Cons c str)
  have r: "unat row < length rows" "length (rows ! unat row) = 80"
    using Cons.prems(1,2) by (simp_all add: screen_def)
  then have k: "unat col + n = 80" using Cons.prems(3,4) by simp
  moreover have "0 < n" using Cons.prems(5) by simp
  ultimately have col: "unat col < 80" by simp
  then have c1: "unat (col + 1) = unat col + 1" by (simp add: unat_word_ariths)
  let ?rows = "rows[unat row := (rows ! unat row)[unat col := vga_entry c color]]"
  have e: "(rows ! unat row)[unat col := vga_entry c color] = (p @ [vga_entry c color]) @ replicate (n - 1) red"
    using Cons.prems(3,4) \<open>0 < n\<close> by (cases n) (simp_all add: list_update_append)
  have "screen ?rows (panic_cell (row * PANIC_WIDTH + col) c color s)"
    by (rule panic_cell_screen [OF Cons.prems(1,2) col])
  then have "screen (?rows[unat row := (p @ [vga_entry c color]) @ paint str color @ replicate (n - 1 - length str) red])
      (panic_put (row * PANIC_WIDTH + (col + 1)) str color (panic_cell (row * PANIC_WIDTH + col) c color s))"
    using Cons.prems r c1 e by (intro Cons.IH) (simp_all)
  then show ?case by (simp add: paint_def algebra_simps)
qed

lemma pad_split: "length p \<le> k \<Longrightarrow> k \<le> 80 \<Longrightarrow> pad p = (p @ replicate (k - length p) red) @ replicate (80 - k) red"
  by (simp add: pad_def flip: replicate_add)

lemma put_line:
  assumes "screen rows s" "unat row < 25" "rows ! unat row = pad p" "length p \<le> unat col" "unat col + length str \<le> 80"
  shows "screen (rows[unat row := pad (p @ replicate (unat col - length p) red @ paint str color)])
    (panic_put (row * PANIC_WIDTH + col) str color s)"
proof -
  have "rows ! unat row = (p @ replicate (unat col - length p) red) @ replicate (80 - unat col) red"
    using assms(3-5) pad_split [of p "unat col"] by simp
  from panic_put_row [OF assms(1,2) this, of col str color] assms(4,5)
  show ?thesis by (simp add: pad_def)
qed

lemma panic_print_from_put:
  assumes "0 \<notin> set str" "LF \<notin> set str" "unat col \<le> 80"
  shows "panic_print_from str row col color s = panic_put (row * PANIC_WIDTH + col) (take (80 - unat col) str) color s"
  using assms
proof (induction str arbitrary: col s)
  case (Cons c str)
  show ?case
  proof (cases "col < PANIC_WIDTH")
    case True
    then have u: "unat col < 80" by (simp add: word_less_nat_alt)
    then have c1: "unat (col + 1) = unat col + 1" by (simp add: unat_word_ariths)
    then have "80 - unat col = Suc (80 - unat (col + 1))" using u by simp
    then show ?thesis using Cons True u c1 by (simp add: algebra_simps)
  next
    case False
    then have "unat col = 80" using Cons.prems(3) by (simp add: word_less_nat_alt)
    then show ?thesis using False by simp
  qed
qed simp

lemma print_line:
  assumes "screen rows s" "unat row < 25" "rows ! unat row = pad []" "0 \<notin> set str" "LF \<notin> set str"
  shows "screen (rows[unat row := pad (paint (take 80 str) color)]) (panic_print str row color s)"
  using put_line [OF assms(1-3), of 0 "take 80 str" color] panic_print_from_put [OF assms(4,5), of 0 row color s]
  by (simp add: panic_print_def)

lemma length_dec_string: "length (dec_string num) \<le> 11"
proof -
  have "length (dec_from i n buf) \<le> i + length buf" for i n buf
  proof (induction i arbitrary: n buf)
    case (Suc i)
    show ?case using Suc.IH [of "n div 10" "digit (n mod 10) # buf"] by simp
  qed simp
  from this [of 11 num "[]"] show ?thesis by (simp add: dec_string_def)
qed

lemma length_int_text: "length (int_text num) \<le> 12"
  using length_dec_string [of num] length_dec_string [of "- num"] by (simp add: int_text_def)

lemma print_int_line:
  assumes "screen rows s" "unat row < 25" "rows ! unat row = pad p" "length p = unat col" "unat col \<le> 40" "num \<noteq> 0x80000000"
  shows "screen (rows[unat row := pad (p @ paint (cstr (int_text num)) color)]) (panic_print_int num row col color s)"
  using put_line [OF assms(1-3), of col "cstr (int_text num)" color] assms(4-6) length_int_text [of num]
  by (simp add: panic_print_int_def int_buf_text cstr_def)

lemma print_hex_line:
  assumes "screen rows s" "unat row < 25" "rows ! unat row = pad p" "length p = 4"
  shows "screen (rows[unat row := pad (p @ [red] @ paint (hex value) color)]) (panic_print_hex row 5 value color s)"
proof -
  have h: "[0x30, 0x78] @ shift_digits value = hex value"
    by (simp add: hex_def hex_string_shifts [symmetric] cstr_def)
  have "length (hex value) = 10" by (simp add: hex_def cstr_def length_hex_string)
  then show ?thesis using put_line [OF assms(1-3), of 5 "hex value" color] assms(4) h
    by (simp add: panic_print_hex_def)
qed

lemma clear_screen:
  assumes "length (vga_memory s) = 2000"
  shows "screen (replicate 25 (pad [])) (panic_clear_screen VGA_COLOR_RED s)"
proof -
  have "concat (replicate k (replicate 80 x)) = replicate (k * 80) x" for k and x :: u16
    by (induction k) (simp_all add: replicate_add)
  from this [of 25 red] show ?thesis
    using assms fill_cells [of 0 2000 "vga_memory s" red]
    by (auto simp: screen_def panic_clear_screen_def pad_def)
qed

text \<open>The 25 lines of the panic screen.\<close>

abbreviation (input) title_color :: u8 where "title_color \<equiv> vga_entry_color VGA_COLOR_WHITE VGA_COLOR_RED"
abbreviation (input) msg_color :: u8 where "msg_color \<equiv> vga_entry_color VGA_COLOR_LIGHT_GREY VGA_COLOR_RED"
abbreviation (input) loc_color :: u8 where "loc_color \<equiv> vga_entry_color VGA_COLOR_LIGHT_BROWN VGA_COLOR_RED"

definition label :: "string \<Rightarrow> u16 list" where
  "label str = paint (cstr str) msg_color"

definition register_line :: "panic_context \<Rightarrow> string \<Rightarrow> (cpu_registers \<Rightarrow> u32) \<Rightarrow> u16 list" where
  "register_line c name reg =
     (if has_registers c then label name @ [red] @ paint (hex (reg (register_snapshot c))) loc_color else [])"

definition panic_page :: "cstring \<Rightarrow> cstring option \<Rightarrow> i32 \<Rightarrow> panic_context \<Rightarrow> u16 list list" where
  "panic_page message file line c = map pad
     [paint (replicate 80 0x3D) title_color,
      paint (replicate 28 0x20 @ cstr ''KERNEL PANIC'' @ replicate 40 0x20) title_color,
      paint (replicate 80 0x3D) title_color,
      [],
      label ''Error: '',
      paint (take 80 message) title_color,
      [],
      (case file of None \<Rightarrow> [] | Some f \<Rightarrow> label ''Location: ''),
      (case file of None \<Rightarrow> [] | Some f \<Rightarrow> paint (take 80 f) loc_color),
      (case file of None \<Rightarrow> [] | Some f \<Rightarrow> label ''Line: '' @ paint (cstr (int_text line)) loc_color),
      [],
      register_line c ''INT:'' int_no,
      register_line c ''EIP:'' eip,
      register_line c ''ESP:'' esp,
      register_line c ''EBP:'' ebp,
      register_line c ''EAX:'' eax,
      register_line c ''EBX:'' ebx,
      [],
      label ''Stack snapshot bytes:'' @ paint (cstr (int_text (saved_stack_size c))) loc_color,
      [],
      [],
      label ''The system has been halted.'',
      [],
      label ''Please restart your computer.'',
      []]"

text \<open>The steps of \<open>panic_render_context\<close> on the lines of the screen.\<close>

definition at_line :: "nat \<Rightarrow> u16 list \<Rightarrow> u16 list list \<Rightarrow> u16 list list" where
  "at_line i cells rows = rows[i := pad cells]"

lemma at_line_nth [simp]:
  "length rows = 25 \<Longrightarrow> i < 25 \<Longrightarrow> at_line i cells rows ! i = pad cells"
  "i \<noteq> j \<Longrightarrow> at_line i cells rows ! j = rows ! j"
  "length (at_line i cells rows) = length rows"
  by (simp_all add: at_line_def)

lemma screen_lines: "screen rows s \<Longrightarrow> length rows = 25"
  by (simp add: screen_def)

lemma label_line:
  assumes "screen rows s" "rows ! unat row = pad []" "unat row < 25"
    and "CHR 0x00 \<notin> set str" "LF \<notin> set (cstr str)" "length str \<le> 80"
  shows "screen (at_line (unat row) (label str) rows) (panic_print (cstr str) row msg_color s)"
  using print_line [OF assms(1,3,2), of "cstr str" msg_color] assms(4-) by (simp add: label_def at_line_def)

lemma register_step:
  assumes "screen rows s" "rows ! unat row = pad []" "unat row < 25"
    and "CHR 0x00 \<notin> set name" "LF \<notin> set (cstr name)" "length name = 4"
  shows "screen (at_line (unat row) (label name @ [red] @ paint (hex value) loc_color) rows)
    (panic_print_hex row 5 value loc_color (panic_print (cstr name) row msg_color s))"
proof -
  have 1: "screen (at_line (unat row) (label name) rows) (panic_print (cstr name) row msg_color s)"
    using label_line [OF assms(1-5)] assms(6) by simp
  have "at_line (unat row) (label name) rows ! unat row = pad (label name)"
    using screen_lines [OF assms(1)] assms(3) by simp
  from print_hex_line [OF 1 assms(3) this, of "value" loc_color]
  show ?thesis using assms(6) by (simp add: at_line_def label_def)
qed

text \<open>The screen in four parts: the title with the message, the place, the registers, the end.\<close>

definition title_rows :: "cstring \<Rightarrow> u16 list list \<Rightarrow> u16 list list" where
  "title_rows message rows =
     at_line 5 (paint (take 80 message) title_color) (at_line 4 (label ''Error: '')
     (at_line 2 (paint (replicate 80 0x3D) title_color)
     (at_line 1 (paint (replicate 28 0x20 @ cstr ''KERNEL PANIC'' @ replicate 40 0x20) title_color)
     (at_line 0 (paint (replicate 80 0x3D) title_color) rows))))"

lemma paint_line:
  assumes "screen rows s" "rows ! unat row = pad []" "unat row < 25" "0 \<notin> set str" "LF \<notin> set str"
  shows "screen (at_line (unat row) (paint (take 80 str) color) rows) (panic_print str row color s)"
  using print_line [OF assms(1,3,2,4,5)] by (simp add: at_line_def)

lemma title_shows:
  assumes "screen rows s" "\<And>i. i < 6 \<Longrightarrow> rows ! i = pad []" "0 \<notin> set message" "LF \<notin> set message"
  shows "screen (title_rows message rows)
    (panic_print message 5 title_color (panic_print (cstr ''Error: '') 4 msg_color
      (panic_print (replicate 80 0x3D) 2 title_color
      (panic_print (replicate 28 0x20 @ cstr ''KERNEL PANIC'' @ replicate 40 0x20) 1 title_color
      (panic_print (replicate 80 0x3D) 0 title_color s)))))"
proof -
  have a: "screen (at_line 0 (paint (replicate 80 0x3D) title_color) rows) (panic_print (replicate 80 0x3D) 0 title_color s)"
    using paint_line [OF assms(1), of 0 "replicate 80 0x3D" title_color] assms(2) by simp
  note a = paint_line [OF a, of 1 "replicate 28 0x20 @ cstr ''KERNEL PANIC'' @ replicate 40 0x20" title_color]
    and b = screen_lines [OF assms(1)]
  note a = paint_line [OF a, of 2 "replicate 80 0x3D" title_color]
  note a = label_line [OF a, of 4 "''Error: ''"]
  note a = paint_line [OF a, of 5 message title_color]
  show ?thesis unfolding title_rows_def using a assms(2-4) b by (simp add: cstr_def)
qed

definition place_rows :: "cstring option \<Rightarrow> i32 \<Rightarrow> u16 list list \<Rightarrow> u16 list list" where
  "place_rows file line rows =
     (case file of None \<Rightarrow> rows
      | Some f \<Rightarrow> at_line 9 (label ''Line: '' @ paint (cstr (int_text line)) loc_color)
          (at_line 9 (label ''Line: '') (at_line 8 (paint (take 80 f) loc_color) (at_line 7 (label ''Location: '') rows))))"

lemma int_line:
  assumes "screen rows s" "rows ! unat row = pad p" "unat row < 25" "length p = unat col" "unat col \<le> 40" "num \<noteq> 0x80000000"
  shows "screen (at_line (unat row) (p @ paint (cstr (int_text num)) color) rows) (panic_print_int num row col color s)"
  using print_int_line [OF assms(1,3,2,4-6)] by (simp add: at_line_def)

lemma place_shows:
  assumes "screen rows s" "\<And>i. 6 < i \<Longrightarrow> i < 10 \<Longrightarrow> rows ! i = pad []" "0 \<notin> set f" "LF \<notin> set f" "line \<noteq> 0x80000000"
  shows "screen (place_rows (Some f) line rows)
    (panic_print_int line 9 6 loc_color (panic_print (cstr ''Line: '') 9 msg_color
      (panic_print f 8 loc_color (panic_print (cstr ''Location: '') 7 msg_color s))))"
proof -
  have a: "screen (at_line 7 (label ''Location: '') rows) (panic_print (cstr ''Location: '') 7 msg_color s)"
    using label_line [OF assms(1), of 7 "''Location: ''"] assms(2) by (simp add: cstr_def)
  have b: "screen (at_line 8 (paint (take 80 f) loc_color) (at_line 7 (label ''Location: '') rows))
      (panic_print f 8 loc_color (panic_print (cstr ''Location: '') 7 msg_color s))"
    using paint_line [OF a, of 8 f loc_color] assms(2-4) by simp
  have c: "screen (at_line 9 (label ''Line: '') (at_line 8 (paint (take 80 f) loc_color) (at_line 7 (label ''Location: '') rows)))
      (panic_print (cstr ''Line: '') 9 msg_color (panic_print f 8 loc_color (panic_print (cstr ''Location: '') 7 msg_color s)))"
    using label_line [OF b, of 9 "''Line: ''"] assms(2) by (simp add: cstr_def)
  have "length (label ''Line: '') = 6" by (simp add: label_def)
  then show ?thesis unfolding place_rows_def
    using int_line [OF c, of 9 "label ''Line: ''" 6 line loc_color] screen_lines [OF assms(1)] assms(5) by simp
qed

definition register_rows :: "cpu_registers \<Rightarrow> u16 list list \<Rightarrow> u16 list list" where
  "register_rows r rows =
     (let reg = (\<lambda>name v. label name @ [red] @ paint (hex v) loc_color)
      in at_line 16 (reg ''EBX:'' (ebx r)) (at_line 15 (reg ''EAX:'' (eax r)) (at_line 14 (reg ''EBP:'' (ebp r))
           (at_line 13 (reg ''ESP:'' (esp r)) (at_line 12 (reg ''EIP:'' (eip r)) (at_line 11 (reg ''INT:'' (int_no r)) rows))))))"

lemma registers_show:
  assumes "screen rows s" "\<And>i. 10 < i \<Longrightarrow> i < 17 \<Longrightarrow> rows ! i = pad []"
  shows "screen (register_rows r rows)
    (panic_print_hex 16 5 (ebx r) loc_color (panic_print (cstr ''EBX:'') 16 msg_color
    (panic_print_hex 15 5 (eax r) loc_color (panic_print (cstr ''EAX:'') 15 msg_color
    (panic_print_hex 14 5 (ebp r) loc_color (panic_print (cstr ''EBP:'') 14 msg_color
    (panic_print_hex 13 5 (esp r) loc_color (panic_print (cstr ''ESP:'') 13 msg_color
    (panic_print_hex 12 5 (eip r) loc_color (panic_print (cstr ''EIP:'') 12 msg_color
    (panic_print_hex 11 5 (int_no r) loc_color (panic_print (cstr ''INT:'') 11 msg_color s))))))))))))"
proof -
  note a = register_step [OF assms(1), of 11 "''INT:''" "int_no r"]
  note a = register_step [OF a, of 12 "''EIP:''" "eip r"]
  note a = register_step [OF a, of 13 "''ESP:''" "esp r"]
  note a = register_step [OF a, of 14 "''EBP:''" "ebp r"]
  note a = register_step [OF a, of 15 "''EAX:''" "eax r"]
  note a = register_step [OF a, of 16 "''EBX:''" "ebx r"]
  show ?thesis unfolding register_rows_def Let_def using a assms(2) by (simp add: cstr_def [of "[_, _, _, _]"])
qed

definition end_rows :: "panic_context \<Rightarrow> u16 list list \<Rightarrow> u16 list list" where
  "end_rows c rows =
     at_line 23 (label ''Please restart your computer.'') (at_line 21 (label ''The system has been halted.'')
     (at_line 18 (label ''Stack snapshot bytes:'' @ paint (cstr (int_text (saved_stack_size c))) loc_color)
     (at_line 18 (label ''Stack snapshot bytes:'') rows)))"

lemma end_shows:
  assumes "screen rows s" "\<And>i. 17 < i \<Longrightarrow> i < 25 \<Longrightarrow> rows ! i = pad []" "saved_stack_size c \<le> 128"
  shows "screen (end_rows c rows)
    (panic_print (cstr ''Please restart your computer.'') 23 msg_color
    (panic_print (cstr ''The system has been halted.'') 21 msg_color
    (panic_print_int (saved_stack_size c) 18 21 loc_color (panic_print (cstr ''Stack snapshot bytes:'') 18 msg_color s))))"
proof -
  let ?b = "label ''Stack snapshot bytes:''"
  have n: "saved_stack_size c \<noteq> 0x80000000" using assms(3) by auto
  have a: "screen (at_line 18 ?b rows) (panic_print (cstr ''Stack snapshot bytes:'') 18 msg_color s)"
    using label_line [OF assms(1), of 18 "''Stack snapshot bytes:''"] assms(2) by (simp add: cstr_def)
  have "length ?b = 21" by (simp add: label_def)
  then have b: "screen (at_line 18 (?b @ paint (cstr (int_text (saved_stack_size c))) loc_color) (at_line 18 ?b rows))
      (panic_print_int (saved_stack_size c) 18 21 loc_color (panic_print (cstr ''Stack snapshot bytes:'') 18 msg_color s))"
    using int_line [OF a, of 18 ?b 21 "saved_stack_size c" loc_color] screen_lines [OF assms(1)] n by simp
  note b = label_line [OF b, of 21 "''The system has been halted.''"]
  note b = label_line [OF b, of 23 "''Please restart your computer.''"]
  show ?thesis unfolding end_rows_def using b assms(2) screen_lines [OF assms(1)] by (simp add: cstr_def)
qed

lemma part_nth [simp]:
  "5 < i \<Longrightarrow> title_rows message rows ! i = rows ! i"
  "9 < i \<Longrightarrow> place_rows file line rows ! i = rows ! i"
  "16 < i \<Longrightarrow> register_rows r rows ! i = rows ! i"
  by (simp_all add: title_rows_def place_rows_def register_rows_def Let_def split: option.split)

lemma panic_page_parts:
  "panic_page message file line c =
     end_rows c ((if has_registers c then register_rows (register_snapshot c) else id)
       (place_rows file line (title_rows message (replicate 25 (pad [])))))"
  by (cases "file") (simp_all add: panic_page_def register_line_def end_rows_def register_rows_def place_rows_def
      title_rows_def at_line_def Let_def numeral_eq_Suc)

lemma panic_screen_shows:
  assumes "length (vga_memory s) = 2000" "0 \<notin> set message" "LF \<notin> set message"
    and "\<And>f. file = Some f \<Longrightarrow> 0 \<notin> set f \<and> LF \<notin> set f"
    and "line \<noteq> 0x80000000" "saved_stack_size c \<le> 128"
  shows "screen (panic_page message file line c) (panic_screen message file line c s)"
proof -
  let ?title = "title_rows message (replicate 25 (pad []))"
  define s1 where "s1 = panic_print message 5 title_color (panic_print (cstr ''Error: '') 4 msg_color
      (panic_print (replicate 80 0x3D) 2 title_color
      (panic_print (replicate 28 0x20 @ cstr ''KERNEL PANIC'' @ replicate 40 0x20) 1 title_color
      (panic_print (replicate 80 0x3D) 0 title_color (panic_clear_screen VGA_COLOR_RED s)))))"
  have 1: "screen ?title s1" unfolding s1_def
    using title_shows [OF clear_screen [OF assms(1)] _ assms(2,3)] by simp
  define s2 where "s2 = (case file of None \<Rightarrow> s1 | Some f \<Rightarrow>
     panic_print_int line 9 6 loc_color (panic_print (cstr ''Line: '') 9 msg_color
      (panic_print f 8 loc_color (panic_print (cstr ''Location: '') 7 msg_color s1))))"
  have 2: "screen (place_rows file line ?title) s2"
  proof (cases "file")
    case None
    then show ?thesis using 1 by (simp add: s2_def place_rows_def)
  next
    case (Some f)
    then show ?thesis using place_shows [OF 1, of f line] assms(4,5) by (simp add: s2_def)
  qed
  let ?r = "register_snapshot c" and ?place = "place_rows file line ?title"
  define s3 where "s3 = (if has_registers c then
    panic_print_hex 16 5 (ebx ?r) loc_color (panic_print (cstr ''EBX:'') 16 msg_color
    (panic_print_hex 15 5 (eax ?r) loc_color (panic_print (cstr ''EAX:'') 15 msg_color
    (panic_print_hex 14 5 (ebp ?r) loc_color (panic_print (cstr ''EBP:'') 14 msg_color
    (panic_print_hex 13 5 (esp ?r) loc_color (panic_print (cstr ''ESP:'') 13 msg_color
    (panic_print_hex 12 5 (eip ?r) loc_color (panic_print (cstr ''EIP:'') 12 msg_color
    (panic_print_hex 11 5 (int_no ?r) loc_color (panic_print (cstr ''INT:'') 11 msg_color s2)))))))))))
    else s2)"
  have 3: "screen ((if has_registers c then register_rows ?r else id) ?place) s3"
    using 2 registers_show [OF 2, of ?r] by (simp add: s3_def)
  have 4: "panic_screen message file line c s =
    panic_print (cstr ''Please restart your computer.'') 23 msg_color
    (panic_print (cstr ''The system has been halted.'') 21 msg_color
    (panic_print_int (saved_stack_size c) 18 21 loc_color (panic_print (cstr ''Stack snapshot bytes:'') 18 msg_color s3)))"
    unfolding panic_screen_def s3_def s2_def s1_def Let_def ..
  show ?thesis unfolding panic_page_parts 4 using assms(6) by (intro end_shows [OF 3]) simp_all
qed

section \<open>What is kept\<close>

text \<open>Painting changes VGA memory only.\<close>

definition only_vga :: "'a terminal_scheme \<Rightarrow> 'a terminal_scheme \<Rightarrow> bool" where
  "only_vga s s' \<longleftrightarrow> (\<exists>v. s' = s\<lparr>vga_memory := v\<rparr>)"

lemma only_vga_refl: "only_vga s s"
  by (simp add: only_vga_def) (metis terminal.surjective terminal.update_convs(6))

lemma only_vga_trans: "only_vga s t \<Longrightarrow> only_vga t u \<Longrightarrow> only_vga s u"
  by (auto simp: only_vga_def)

lemma only_vga_put: "only_vga s (panic_put index str color s)"
proof (induction str arbitrary: index s)
  case (Cons c str)
  have "only_vga s (panic_cell index c color s)" by (auto simp: only_vga_def panic_cell_def)
  then show ?case using only_vga_trans Cons by fastforce
qed (simp add: only_vga_refl)

lemma only_vga_print: "only_vga s (panic_print_from str row col color s)"
proof (induction str arbitrary: row col s)
  case (Cons c str)
  have "only_vga s (panic_cell (row * PANIC_WIDTH + col) c color s)" by (auto simp: only_vga_def panic_cell_def)
  then have "only_vga s (panic_print_from str row (col + 1) color (panic_cell (row * PANIC_WIDTH + col) c color s))"
    using only_vga_trans Cons by blast
  then show ?case using Cons by (simp add: only_vga_refl)
qed (simp add: only_vga_refl)

lemma only_vga_via:
  "only_vga s t \<Longrightarrow> only_vga s (panic_print str row color t)"
  "only_vga s t \<Longrightarrow> only_vga s (panic_print_hex row col v color t)"
  "only_vga s t \<Longrightarrow> only_vga s (panic_print_int n row col color t)"
  "only_vga s t \<Longrightarrow> only_vga s (panic_clear_screen bg t)"
proof -
  show "only_vga s (panic_print str row color t)" if "only_vga s t"
    using that only_vga_print unfolding panic_print_def by (rule only_vga_trans)
  show "only_vga s (panic_print_hex row col v color t)" if "only_vga s t"
    using that only_vga_put unfolding panic_print_hex_def by (rule only_vga_trans)
  show "only_vga s (panic_print_int n row col color t)" if "only_vga s t"
    using that only_vga_put unfolding panic_print_int_def by (rule only_vga_trans)
  show "only_vga s (panic_clear_screen bg t)" if "only_vga s t"
    using that by (auto simp: only_vga_def panic_clear_screen_def Let_def)
qed

lemma panic_screen_only: "only_vga s (panic_screen message file line c s)"
proof -
  have f: "only_vga s (case file of None \<Rightarrow> t | Some f \<Rightarrow> g f)"
    if "only_vga s t" "\<And>f. only_vga s (g f)" for t and g :: "cstring \<Rightarrow> 'a terminal_scheme"
    using that by (cases "file") simp_all
  have i: "only_vga s (if b then u else t)" if "only_vga s t" "only_vga s u" for b t u
    using that by simp
  show ?thesis unfolding panic_screen_def Let_def
    by (intro only_vga_via f i only_vga_refl)
qed

text \<open>How many bytes of the stack are saved.\<close>

definition snapshot_size :: "u32 \<Rightarrow> u32 \<Rightarrow> u32 \<Rightarrow> u32" where
  "snapshot_size low high sp = (if low \<le> sp \<and> sp < high then min 128 (high - sp) else 0)"

text \<open>What a panic saves: the registers given, or those of the processor, and the top of the stack.\<close>

definition panic_saved ::
  "memory \<Rightarrow> u32 \<Rightarrow> u32 \<Rightarrow> cpu_registers \<Rightarrow> cpu_registers option \<Rightarrow> 'a cpu_scheme \<Rightarrow> panic_context" where
  "panic_saved m low high cpu registers s =
     (let r = (case registers of Some q \<Rightarrow> q | None \<Rightarrow> panic_capture_current_registers cpu s);
          n = snapshot_size low high (esp r)
      in \<lparr>valid = True, has_registers = True, saved_stack_pointer = esp r, saved_stack_size = n,
          register_snapshot = r,
          stack_snapshot = map (\<lambda>i. m (esp r + word_of_nat i)) [0..<unat n] @ replicate (128 - unat n) 0\<rparr>)"

lemma panic_save_context_eq:
  assumes "length (stack_snapshot (last_panic_context s)) = 128"
  shows "panic_save_context m low high cpu registers s = s\<lparr>last_panic_context := panic_saved m low high cpu registers s\<rparr>"
proof -
  define r where "r = (case registers of Some q \<Rightarrow> q | None \<Rightarrow> panic_capture_current_registers cpu s)"
  define n where "n = snapshot_size low high (esp r)"
  have z: "fold (\<lambda>index b. b[index := 0]) [0..<128] (stack_snapshot (last_panic_context s)) = replicate 128 (0 :: u8)"
    using assms fill_cells [of 0 128 "stack_snapshot (last_panic_context s)" 0] by simp
  have cap: "panic_capture_current_registers cpu (s\<lparr>last_panic_context := x\<rparr>) = panic_capture_current_registers cpu s" for x
    by (simp add: panic_capture_current_registers_def Let_def read_eflags_def)
  have n: "n = (if esp r < low \<or> high \<le> esp r then 0 else if 128 < high - esp r then 128 else high - esp r)"
    by (auto simp: n_def snapshot_size_def min_def not_less not_le)
  have "n \<le> 128" by (simp add: n not_less)
  then have le: "unat n \<le> 128" by (simp add: word_le_nat_alt)
  have f: "fold (\<lambda>index b. b[index := m (esp r + word_of_nat index)]) [0..<unat n] (replicate 128 0) =
      map (\<lambda>i. m (esp r + word_of_nat i)) [0..<unat n] @ replicate (128 - unat n) 0"
    using le copy_cells [of "unat n" "replicate 128 0" "\<lambda>i. m (esp r + word_of_nat i)"] by simp
  have R: "(case registers of None \<Rightarrow> panic_capture_current_registers cpu (s\<lparr>last_panic_context := x\<rparr>) | Some q \<Rightarrow> q) = r" for x
    by (simp add: r_def cap split: option.split)
  have S: "panic_saved m low high cpu registers s =
      \<lparr>valid = True, has_registers = True, saved_stack_pointer = esp r, saved_stack_size = n, register_snapshot = r,
       stack_snapshot = map (\<lambda>i. m (esp r + word_of_nat i)) [0..<unat n] @ replicate (128 - unat n) 0\<rparr>"
    unfolding panic_saved_def Let_def r_def n_def ..
  show ?thesis
  proof (cases "esp r < low \<or> high \<le> esp r")
    case True
    then show ?thesis using n
      by (simp add: panic_save_context_def panic_reset_context_def panic_save_stack_snapshot_def Let_def z R S)
  next
    case False
    then have b: "(if 128 < high - esp r then 128 else high - esp r) = n" by (simp only: n if_False)
    show ?thesis
      unfolding panic_save_context_def panic_reset_context_def panic_save_stack_snapshot_def Let_def z R
      using False f by (simp add: b S)
  qed
qed

lemma panic_signal_eq:
  assumes "signals_inv (pn_signals s)"
  shows "\<exists>g. panic_signal s = s\<lparr>pn_signals := g\<rparr> \<and>
    signal_items g = signal_items (pn_signals s) @
      (if length (signal_items (pn_signals s)) < 63 then [\<lparr>ps_signal = 3, ps_value = 0, ps_context = 0\<rparr>] else []) \<and>
    signals_inv g"
proof -
  define g0 where "g0 = (pn_signals s)\<lparr>sg_cpu := \<lparr>eflags = eflags s, port_out = port_out s\<rparr>\<rparr>"
  obtain r g where g: "schedule_signal KERNEL_SIGNAL_PANIC 0 NULL g0 = (r, g)" by fastforce
  have i: "signals_inv g0" "signal_items g0 = signal_items (pn_signals s)"
    using assms by (simp_all add: g0_def signals_inv_def signal_items_def)
  have "panic_signal s = s\<lparr>eflags := eflags (sg_cpu g), port_out := port_out (sg_cpu g), pn_signals := g\<rparr>"
    unfolding panic_signal_def Let_def g0_def [symmetric] g by simp
  moreover have "sg_cpu g = sg_cpu g0" using schedule_signal_correct [OF i(1) g] by simp
  then have "eflags (sg_cpu g) = eflags s" "port_out (sg_cpu g) = port_out s" by (simp_all add: g0_def)
  ultimately have "panic_signal s = s\<lparr>pn_signals := g\<rparr>" by (cases s) simp
  moreover have "signal_items g = signal_items g0 @
      (if length (signal_items g0) < 63 then [\<lparr>ps_signal = 3, ps_value = 0, ps_context = 0\<rparr>] else [])"
    using schedule_signal_correct [OF i(1) g] by (auto split: if_splits)
  moreover have "signals_inv g" using schedule_signal_correct [OF i(1) g] by simp
  ultimately show ?thesis using i(2) by auto
qed

section \<open>Panics\<close>

lemma snapshot_size_le: "snapshot_size low high sp \<le> 128"
  by (auto simp: snapshot_size_def min_def not_le)

text \<open>
  The states the theorem is about: the screen and the arrays have their sizes, the pending
  signals are in order, and message and file name are texts of one line.
\<close>

definition panic_ready :: "cstring \<Rightarrow> cstring option \<Rightarrow> i32 \<Rightarrow> ('cb, 'a) panicsys_scheme \<Rightarrow> bool" where
  "panic_ready message file line s \<longleftrightarrow>
     length (vga_memory s) = 2000 \<and> length (stack_snapshot (last_panic_context s)) = 128 \<and>
     signals_inv (pn_signals s) \<and> 0 \<notin> set message \<and> LF \<notin> set message \<and>
     (case file of None \<Rightarrow> True | Some f \<Rightarrow> 0 \<notin> set f \<and> LF \<notin> set f) \<and> line \<noteq> 0x80000000"

lemma panic_saved_size: "saved_stack_size (panic_saved m low high cpu registers s) \<le> 128"
  by (simp add: panic_saved_def Let_def snapshot_size_le)

lemma panic_render:
  assumes "panic_ready message file line s" "line_live dev" "saved_stack_size (last_panic_context s) \<le> 128"
  shows "\<exists>n. panic_render_context dev message file line s =
    Some (s\<lparr>vga_memory := concat (panic_page message file line (last_panic_context s)),
      port_out := port_out s @ map (Pair SERIAL_DATA_PORT)
        (if serial_enabled s then concat (map on_line (panic_text message file line (last_panic_context s))) else []),
      port_reads := n\<rparr>)"
proof -
  let ?c = "last_panic_context s"
  have f: "0 \<notin> set f \<and> LF \<notin> set f" if "file = Some f" for f
    using assms(1) that by (simp add: panic_ready_def)
  have e: "emits (panic_text message file line ?c) (panic_report dev message file line ?c)"
    using panic_report_emits [OF assms(2), of message "file" line ?c] f assms(1,3) by (simp add: panic_ready_def)
  obtain v where v: "panic_screen message file line ?c s = s\<lparr>vga_memory := v\<rparr>"
    using panic_screen_only [of s message "file" line ?c] by (auto simp: only_vga_def)
  have "v = concat (panic_page message file line ?c)"
    using panic_screen_shows [of s message "file" line ?c] f assms(1,3) v by (simp add: panic_ready_def screen_def)
  then show ?thesis
    using e [unfolded emits_def, rule_format, of "s\<lparr>vga_memory := v\<rparr>"]
    by (auto simp: panic_render_context_def Let_def v sends_def)
qed

text \<open>
  C35. A panic ends in a halted processor with interrupts off, whatever led to it; it returns no more.
  Before that the registers and up to 128 bytes from the top of the stack are saved, the 25 lines
  of the screen are exactly the panic page (title, message, place, registers, size of the
  snapshot), the same report with the bytes of the stack has gone over the serial line as far as
  it is enabled, and the panic signal is queued behind the pending ones if there is room.
\<close>

theorem panic_correct:
  assumes "panic_ready message file line s" "line_live dev"
  shows "\<exists>r s' c. panic_with_context dev m low high cpu message file line registers s = Some (r, s') \<and>
    c = panic_saved m low high cpu registers (interrupts_disable s) \<and> last_panic_context s' = c \<and>
    \<not> interrupts_enabled s' \<and> eax r = 0 \<and> ebp r = 0 \<and>
    vga_memory s' = concat (panic_page message file line c) \<and>
    port_out s' = port_out s @ map (Pair SERIAL_DATA_PORT)
      (if serial_enabled s then concat (map on_line (panic_text message file line c)) else []) \<and>
    signal_items (pn_signals s') = signal_items (pn_signals s) @
      (if length (signal_items (pn_signals s)) < 63 then [\<lparr>ps_signal = 3, ps_value = 0, ps_context = 0\<rparr>] else [])"
proof -
  define s1 where "s1 = interrupts_disable s"
  define c where "c = panic_saved m low high cpu registers s1"
  have keep: "length (stack_snapshot (last_panic_context s1)) = 128" "signals_inv (pn_signals s1)"
      "pn_signals s1 = pn_signals s" "serial_enabled s1 = serial_enabled s" "port_out s1 = port_out s"
    using assms(1) by (simp_all add: panic_ready_def s1_def interrupts_disable_def)
  have save: "panic_save_context m low high cpu registers s1 = s1\<lparr>last_panic_context := c\<rparr>"
    unfolding c_def by (rule panic_save_context_eq [OF keep(1)])
  obtain g where g: "panic_signal (s1\<lparr>last_panic_context := c\<rparr>) = s1\<lparr>last_panic_context := c, pn_signals := g\<rparr>"
      "signal_items g = signal_items (pn_signals s) @
        (if length (signal_items (pn_signals s)) < 63 then [\<lparr>ps_signal = 3, ps_value = 0, ps_context = 0\<rparr>] else [])"
      "signals_inv g"
    using panic_signal_eq [of "s1\<lparr>last_panic_context := c\<rparr>"] keep(2,3) by auto
  define s2 where "s2 = s1\<lparr>last_panic_context := c, pn_signals := g\<rparr>"
  have "length (stack_snapshot c) = 128"
    using snapshot_size_le by (simp add: c_def panic_saved_def Let_def word_le_nat_alt)
  then have r2: "panic_ready message file line s2"
    using assms(1) g(3) by (simp add: panic_ready_def s2_def s1_def interrupts_disable_def)
  obtain n where n: "panic_render_context dev message file line s2 =
    Some (s2\<lparr>vga_memory := concat (panic_page message file line c),
      port_out := port_out s @ map (Pair SERIAL_DATA_PORT)
        (if serial_enabled s then concat (map on_line (panic_text message file line c)) else []),
      port_reads := n\<rparr>)" (is "_ = Some ?s3")
    using panic_render [OF r2 assms(2)] panic_saved_size [of m low high cpu registers s1] keep(4,5)
    by (auto simp: s2_def c_def)
  have run: "panic_with_context dev m low high cpu message file line registers s =
      Some (panic_clean_registers_and_halt cpu ?s3)"
    unfolding panic_with_context_def Let_def s1_def [symmetric] save g(1) s2_def [symmetric] n by simp
  have off: "\<not> interrupts_enabled (interrupts_disable t)" for t :: "('d, 'e) panicsys_scheme"
    using interrupts_save_off [of t] by (simp add: interrupts_save_def)
  show ?thesis
    unfolding run s1_def [symmetric] c_def [symmetric]
    using off [of ?s3] g(2)
    by (auto simp: panic_clean_registers_and_halt_def Let_def s2_def interrupts_disable_def)
qed

text \<open>A machine that panics with two bytes on its stack.\<close>

definition panic_demo :: "unit panicsys" where
  "panic_demo = terminal.extend (blank_terminal\<lparr>serial_enabled := True\<rparr>)
     (panicsys.fields \<lparr>valid = False, has_registers = False, saved_stack_pointer = 0, saved_stack_size = 0,
         register_snapshot = zero_registers, stack_snapshot = replicate 128 0\<rparr>
       \<lparr>sg_cpu = \<lparr>eflags = 0, port_out = []\<rparr>, signal_handlers = replicate 32 None,
        pending_signals = replicate 64 \<lparr>ps_signal = 0, ps_value = 0, ps_context = 0\<rparr>, signal_head = 0, signal_tail = 0\<rparr>)"

lemma panic_demo_ready: "panic_ready (cstr ''Out of memory'') None 0 panic_demo"
  by (simp add: panic_ready_def panic_demo_def terminal.defs panicsys.defs blank_terminal_def signals_inv_def
      ring_items_def ring_count_def cstr_def)

theorem panic_correct_witness:
  "\<exists>r s'. panic_with_context ready_line (\<lambda>a. if a = 0x1FFE then 0xAB else 0xCD) 0x1000 0x2000
      (zero_registers\<lparr>esp := 0x1FFE\<rparr>) (cstr ''Out of memory'') None 0 None panic_demo = Some (r, s') \<and>
    take 2 (stack_snapshot (last_panic_context s')) = [0xAB, 0xCD] \<and>
    saved_stack_size (last_panic_context s') = 2 \<and>
    \<not> interrupts_enabled s' \<and>
    take 5 (port_out s') = [(0x3F8, 13), (0x3F8, 10), (0x3F8, 13), (0x3F8, 10), (0x3F8, 0x4B)]"
proof -
  let ?cpu = "zero_registers\<lparr>esp := 0x1FFE\<rparr>" and ?m = "\<lambda>a :: u32. if a = 0x1FFE then 0xAB else 0xCD :: u8"
  have d: "serial_enabled panic_demo" "port_out panic_demo = []"
    by (simp_all add: panic_demo_def terminal.defs panicsys.defs blank_terminal_def)
  have e: "esp (panic_capture_current_registers ?cpu s) = 0x1FFE" for s :: "unit panicsys"
    by (simp add: panic_capture_current_registers_def Let_def zero_registers_def)
  have "snapshot_size 0x1000 0x2000 0x1FFE = 2" by (simp add: snapshot_size_def min_def)
  then show ?thesis
    using panic_correct [OF panic_demo_ready ready_line_live, of ?m "0x1000" "0x2000" ?cpu None] d
    by (auto simp: panic_saved_def Let_def e panic_text_def on_line_def cstr_def upt_conv_Cons)
qed

end
