(* ===== verification/Shell_System.thy ===== *)
theory Shell_System
  imports Shell_Process Timer_Spec Syscall_Spec Gdt Signals Panic
begin

unbundle bit_operations_syntax

text \<open>
  The remaining commands of the shell, \<open>kernel/src/shell.c\<close>: kernel signals, interrupts and
  exceptions, segment registers, the texts it prints, and the choice of the command for a line.
\<close>

section \<open>Kernel signals\<close>

text \<open>The callbacks of the kernel: the shell's, and any other function by its address.\<close>

datatype kernel_callback = Shell_Signal_Handler | Callback_At u32

record shsig = "kernel_callback sigsys" +
  sg_con :: string
  shell_signal_handler_installed :: bool
  shell_last_signal :: i32
  shell_last_signal_value :: u32
  shell_signal_count :: u32

definition sg_say :: "string list \<Rightarrow> 'a shsig_scheme \<Rightarrow> 'a shsig_scheme" where
  "sg_say texts s = s\<lparr>sg_con := sg_con s @ concat texts\<rparr>"

definition shell_signal_handler :: "i32 \<Rightarrow> u32 \<Rightarrow> u32 \<Rightarrow> 'a shsig_scheme \<Rightarrow> 'a shsig_scheme" where
  "shell_signal_handler signal value context s =
     (let s = s\<lparr>shell_last_signal := signal, shell_last_signal_value := value,
                shell_signal_count := shell_signal_count s + 1\<rparr>
      in sg_say [''[signal] handled signal '', dec_string signal, '' value='', shell_hex value, line []] s)"

fun callback ::
  "(u32 \<Rightarrow> i32 \<Rightarrow> u32 \<Rightarrow> u32 \<Rightarrow> 'a shsig_scheme \<Rightarrow> 'a shsig_scheme) \<Rightarrow>
     kernel_callback \<Rightarrow> i32 \<Rightarrow> u32 \<Rightarrow> u32 \<Rightarrow> 'a shsig_scheme \<Rightarrow> 'a shsig_scheme" where
  "callback ext Shell_Signal_Handler = shell_signal_handler"
| "callback ext (Callback_At f) = ext f"

definition cmd_signals :: "'a shsig_scheme \<Rightarrow> 'a shsig_scheme" where
  "cmd_signals s =
     (let s = sg_say [line ''=== Signals ==='', ''Pending: ''] s;
          (pending, s) = signal_pending_count s
      in sg_say [dec_string pending, line [] @ ''Handled: '', dec_string (shell_signal_count s),
           line [] @ ''Last signal: '', dec_string (shell_last_signal s),
           line [] @ ''Last value: '', shell_hex (shell_last_signal_value s), line []] s)"

text \<open>Dispatch may not return when a callback goes on scheduling signals: \<open>None\<close>.\<close>

definition cmd_sigtest ::
  "(u32 \<Rightarrow> i32 \<Rightarrow> u32 \<Rightarrow> u32 \<Rightarrow> 'a shsig_scheme \<Rightarrow> 'a shsig_scheme) \<Rightarrow> 'a shsig_scheme \<Rightarrow> 'a shsig_scheme option" where
  "cmd_sigtest ext s =
     (let s = (if \<not> shell_signal_handler_installed s then
                 let (r, s) = register_signal_handler KERNEL_SIGNAL_TEST (Some Shell_Signal_Handler) s
                 in s\<lparr>shell_signal_handler_installed := True\<rparr>
               else s);
          s = sg_say [line ''Scheduling test signal...''] s;
          (r, s) = schedule_signal KERNEL_SIGNAL_TEST 0xC0DE1234 NULL s
      in if r = 0 then
           (case signal_dispatch_pending (callback ext) s of
              None \<Rightarrow> None
            | Some (_, s) \<Rightarrow> Some (sg_say [line ''Signal delivery complete.''] s))
         else Some (sg_say [line ''Signal queue is full.''] s))"

section \<open>Interrupts and exceptions\<close>

record shsys = shproc +
  div0_test_handler :: u32
  invop_test_handler :: u32
  exception_test_caught :: bool
  exception_test_vector :: u32
  exception_test_eip :: u32

definition cmd_idt :: "'a shsys_scheme \<Rightarrow> 'a shsys_scheme" where
  "cmd_idt s =
     (let (base, limit) = idt_get_descriptor (idt s)
      in say [line ''=== IDT ==='', ''Base: '', shell_hex base, line [] @ ''Limit: '', dec_string (ucast limit),
           line '' bytes'' @ ''Interrupts: '', if interrupts_enabled (idt s) then ''enabled'' else ''disabled'',
           line [] @ line ''IRQ1 vector: 0x00000021'' @ line ''System call vector: 0x00000080''] s)"

text \<open>\<open>div0_test_handler\<close> and \<open>invop_test_handler\<close> have the same body.\<close>

definition exception_test :: "cpu_registers \<Rightarrow> 'a shsys_scheme \<Rightarrow> cpu_registers \<times> 'a shsys_scheme" where
  "exception_test regs s =
     (regs\<lparr>eip := eip regs + 2\<rparr>,
      s\<lparr>exception_test_caught := True, exception_test_vector := int_no regs, exception_test_eip := eip regs\<rparr>)"

definition shell_handler ::
  "(interrupt_handler_ptr \<Rightarrow> cpu_registers \<Rightarrow> 'a shsys_scheme \<Rightarrow> (cpu_registers \<times> 'a shsys_scheme) outcome) \<Rightarrow>
     interrupt_handler_ptr \<Rightarrow> cpu_registers \<Rightarrow> 'a shsys_scheme \<Rightarrow> (cpu_registers \<times> 'a shsys_scheme) outcome" where
  "shell_handler other h r s =
     (if h = Handler_At (div0_test_handler s) \<or> h = Handler_At (invop_test_handler s)
      then Inr (exception_test r s) else other h r s)"

text \<open>
  A two-byte instruction that raises exception \<open>vector\<close>, executed with registers \<open>r\<close>. The processor
  goes on at the address the handler leaves in \<open>eip\<close>; an instruction it returns to faults again, and
  so on without end.
\<close>

definition faulting ::
  "(u32 \<Rightarrow> u32 \<Rightarrow> u32 \<Rightarrow> u32 \<Rightarrow> u32 \<Rightarrow> 'a shsys_scheme \<Rightarrow> 'a shsys_scheme call_result) \<Rightarrow>
   (interrupt_handler_ptr \<Rightarrow> cpu_registers \<Rightarrow> 'a shsys_scheme \<Rightarrow> (cpu_registers \<times> 'a shsys_scheme) outcome) \<Rightarrow>
   u32 \<Rightarrow> cpu_registers \<Rightarrow> 'a shsys_scheme \<Rightarrow> 'a shsys_scheme outcome" where
  "faulting ext other vector r s =
     obind (kernel_interrupt ext (shell_handler other) (r\<lparr>int_no := vector, err_code := 0\<rparr>) s) (\<lambda>(r', s).
     case r' of Some q \<Rightarrow> if eip q = eip r + 2 then Inr s else Inl Diverges | None \<Rightarrow> Inl Diverges)"

definition exception_report :: "string \<Rightarrow> string \<Rightarrow> 'a shsys_scheme \<Rightarrow> 'a shsys_scheme" where
  "exception_report name description s =
     (if exception_test_caught s
      then say [name, '': caught exception '', dec_string (exception_test_vector s), '' ('', description,
             '') at EIP='', shell_hex (exception_test_eip s), line [] @ name, line '': PASS''] s
      else say [name, line '': FAIL (exception not caught)''] s)"

definition cmd_div0 where
  "cmd_div0 ext other r s =
     (let s = s\<lparr>exception_test_caught := False\<rparr>;
          s = say [line ''div0: installing handler''] s;
          s = on_idt (idt_register_handler 0 (Some (Handler_At (div0_test_handler s)))) s;
          s = say [line ''div0: triggering division by zero''] s
      in obind (faulting ext other 0 (r\<lparr>eax := 1, ecx := 0, edx := 0\<rparr>) s) (\<lambda>s.
         let s = on_idt (idt_unregister_handler 0) s
         in Inr (exception_report ''div0'' ''Division by zero'' s)))"

definition cmd_invop where
  "cmd_invop ext other r s =
     (let s = s\<lparr>exception_test_caught := False\<rparr>;
          s = say [line ''invop: installing handler''] s;
          s = on_idt (idt_register_handler 6 (Some (Handler_At (invop_test_handler s)))) s;
          s = say [line ''invop: triggering invalid opcode''] s
      in obind (faulting ext other 6 r s) (\<lambda>s.
         let s = on_idt (idt_unregister_handler 6) s
         in Inr (exception_report ''invop'' ''Invalid opcode'' s)))"

text \<open>\<open>int $0x80\<close> with \<open>SYSCALL_GET_MAGIC\<close> in \<open>eax\<close>; \<open>r\<close> are the other registers.\<close>

definition cmd_syscall where
  "cmd_syscall ext other r s =
     obind (kernel_interrupt ext (shell_handler other)
              (r\<lparr>eax := 0, ebx := 0, ecx := 0, edx := 0, esi := 0, int_no := 0x80, err_code := 0\<rparr>) s) (\<lambda>(r', s).
     case r' of Some q \<Rightarrow> Inr (say [''syscall returned '', shell_hex (eax q), line []] s) | None \<Rightarrow> Inl Diverges)"

definition cmd_int3 where
  "cmd_int3 ext other r s =
     (let s = say [line ''Triggering breakpoint exception...''] s
      in obind (kernel_interrupt ext (shell_handler other) (r\<lparr>int_no := 3, err_code := 0\<rparr>) s) (\<lambda>(r', s). Inr s))"

definition cmd_segreg :: "segments \<Rightarrow> 'a machine_scheme \<Rightarrow> 'a machine_scheme" where
  "cmd_segreg g s =
     say [''CS='', shell_hex (ucast (seg_cs g)), '' DS='', shell_hex (ucast (seg_ds g)), '' ES='', shell_hex (ucast (seg_es g)),
          '' FS='', shell_hex (ucast (seg_fs g)), '' GS='', shell_hex (ucast (seg_gs g)), '' SS='', shell_hex (ucast (seg_ss g)),
          line []] s"

definition cmd_reboot :: "'a shsys_scheme \<Rightarrow> 'a shsys_scheme" where
  "cmd_reboot s = on_idt (outb 0x64 0xFE) (say [line ''Rebooting...''] s)"

section \<open>Texts\<close>

definition cmd_help :: "'a machine_scheme \<Rightarrow> 'a machine_scheme" where
  "cmd_help s = say
    [line ''Built-in commands:'',
     line ''  help          - Show this help message'',
     line ''  echo TEXT     - Print TEXT'',
     line ''  clear         - Clear the screen'',
     line ''  exit          - Exit the shell'',
     line ''  reboot        - Reboot the system'',
     line [] @ line ''Memory commands:'',
     line ''  meminfo       - Show memory statistics'',
     line ''  alloc SIZE    - Allocate SIZE bytes with kmalloc'',
     line ''  free          - Free last allocation'',
     line ''  kheap         - Dump kernel heap state'',
     line ''  vmap          - Show virtual memory info'',
     line [] @ line ''Memory tests:'',
     line ''  pagetest      - Test page map/write/unmap round-trip'',
     line ''  pageperm      - Test page permission flags'',
     line ''  pmmtest       - Test PMM frame alloc/free accounting'',
     line ''  vmtest        - Test vmalloc alloc/write/free'',
     line ''  heaptest      - Test heap multi-alloc/free with reuse'',
     line [] @ line ''Debug commands:'',
     line ''  hexdump ADDR [SIZE] - Dump memory (default 64 bytes)'',
     line ''  peek ADDR     - Read 32-bit value at address'',
     line ''  poke ADDR VAL - Write 32-bit value to address'',
     line ''  stack         - Dump current stack'',
     line ''  pagedir       - Show page directory info'',
     line ''  idt           - Show IDT and interrupt state'',
     line ''  signals       - Show signal queue state'',
     line ''  sigtest       - Schedule and handle a test signal'',
     line ''  syscall       - Trigger int 0x80 test syscall'',
     line ''  int3          - Trigger a breakpoint exception'',
     line ''  panic         - Trigger test kernel panic'',
     line ''  div0          - Test division by zero exception'',
     line ''  invop         - Test invalid opcode exception'',
     line ''  segreg        - Show segment registers'',
     line [] @ line ''Process commands:'',
     line ''  procs         - Show the process table'',
     line ''  execdemo      - Spawn demo counter processes'',
     line ''  sched TICKS   - Force scheduler ticks'',
     line ''  forkdemo PID  - Fork a process'',
     line ''  waitproc PID  - Collect a zombie child'',
     line ''  killproc PID [SIG] - Queue a signal or kill a process'',
     line ''  sigproc PID SIG [VAL] - Queue a process signal'',
     line ''  getuid PID    - Show the owner of a process'',
     line ''  mmapproc PID SIZE - Reserve memory in a process heap'',
     line ''  sockdemo      - Spawn a socket IPC demo pair''] s"

definition cmd_echo :: "string \<Rightarrow> 'a machine_scheme \<Rightarrow> 'a machine_scheme" where
  "cmd_echo args s = say [args, line []] s"

definition cmd_ls :: "'a machine_scheme \<Rightarrow> 'a machine_scheme" where
  "cmd_ls s = say [line ''boot/'', line ''kernel/'', line ''tools/'', line ''README.md''] s"

definition cmd_panic :: "'a machine_scheme \<Rightarrow> 'a machine_scheme outcome" where
  "cmd_panic s =
     (let s = say [line ''Triggering test kernel panic...''] s in Inl (Panic ''User-triggered test panic''))"

section \<open>The choice of the command\<close>

text \<open>The commands, those with arguments with the text behind their name.\<close>

datatype shell_command =
    Cmd_help | Cmd_echo string | Cmd_clear | Cmd_ls | Cmd_meminfo | Cmd_alloc string
  | Cmd_free | Cmd_kheap | Cmd_vmap | Cmd_panic | Cmd_hexdump string | Cmd_peek string
  | Cmd_poke string | Cmd_stack | Cmd_pagedir | Cmd_idt | Cmd_signals | Cmd_sigtest
  | Cmd_syscall | Cmd_procs | Cmd_execdemo | Cmd_sched string | Cmd_forkdemo string | Cmd_waitproc string
  | Cmd_killproc string | Cmd_sigproc string | Cmd_getuid string | Cmd_mmapproc string | Cmd_sockdemo | Cmd_pagetest
  | Cmd_pageperm | Cmd_pmmtest | Cmd_vmtest | Cmd_heaptest | Cmd_div0 | Cmd_invop
  | Cmd_segreg | Cmd_int3 | Cmd_reboot | Cmd_exit
  | Cmd_unknown | Cmd_none

text \<open>The chain of comparisons in \<open>shell_run\<close>, in its order.\<close>

definition shell_select :: "string \<Rightarrow> shell_command" where
  "shell_select buffer =
     (if strcmp buffer ''help'' = 0 then Cmd_help
      else if strncmp buffer ''echo '' 5 = 0 then Cmd_echo (drop 5 buffer)
      else if strcmp buffer ''clear'' = 0 then Cmd_clear
      else if strcmp buffer ''ls'' = 0 then Cmd_ls
      else if strcmp buffer ''meminfo'' = 0 then Cmd_meminfo
      else if strncmp buffer ''alloc '' 6 = 0 then Cmd_alloc (drop 6 buffer)
      else if strcmp buffer ''free'' = 0 then Cmd_free
      else if strcmp buffer ''kheap'' = 0 then Cmd_kheap
      else if strcmp buffer ''vmap'' = 0 then Cmd_vmap
      else if strcmp buffer ''panic'' = 0 then Cmd_panic
      else if strncmp buffer ''hexdump '' 8 = 0 then Cmd_hexdump (drop 8 buffer)
      else if strncmp buffer ''peek '' 5 = 0 then Cmd_peek (drop 5 buffer)
      else if strncmp buffer ''poke '' 5 = 0 then Cmd_poke (drop 5 buffer)
      else if strcmp buffer ''stack'' = 0 then Cmd_stack
      else if strcmp buffer ''pagedir'' = 0 then Cmd_pagedir
      else if strcmp buffer ''idt'' = 0 then Cmd_idt
      else if strcmp buffer ''signals'' = 0 then Cmd_signals
      else if strcmp buffer ''sigtest'' = 0 then Cmd_sigtest
      else if strcmp buffer ''syscall'' = 0 then Cmd_syscall
      else if strcmp buffer ''procs'' = 0 then Cmd_procs
      else if strcmp buffer ''execdemo'' = 0 then Cmd_execdemo
      else if strncmp buffer ''sched '' 6 = 0 then Cmd_sched (drop 6 buffer)
      else if strncmp buffer ''forkdemo'' 8 = 0 then Cmd_forkdemo (drop 8 buffer)
      else if strncmp buffer ''waitproc '' 9 = 0 then Cmd_waitproc (drop 9 buffer)
      else if strncmp buffer ''killproc '' 9 = 0 then Cmd_killproc (drop 9 buffer)
      else if strncmp buffer ''sigproc '' 8 = 0 then Cmd_sigproc (drop 8 buffer)
      else if strncmp buffer ''getuid '' 7 = 0 then Cmd_getuid (drop 7 buffer)
      else if strncmp buffer ''mmapproc '' 9 = 0 then Cmd_mmapproc (drop 9 buffer)
      else if strcmp buffer ''sockdemo'' = 0 then Cmd_sockdemo
      else if strcmp buffer ''pagetest'' = 0 then Cmd_pagetest
      else if strcmp buffer ''pageperm'' = 0 then Cmd_pageperm
      else if strcmp buffer ''pmmtest'' = 0 then Cmd_pmmtest
      else if strcmp buffer ''vmtest'' = 0 then Cmd_vmtest
      else if strcmp buffer ''heaptest'' = 0 then Cmd_heaptest
      else if strcmp buffer ''div0'' = 0 then Cmd_div0
      else if strcmp buffer ''invop'' = 0 then Cmd_invop
      else if strcmp buffer ''segreg'' = 0 then Cmd_segreg
      else if strcmp buffer ''int3'' = 0 then Cmd_int3
      else if strcmp buffer ''reboot'' = 0 then Cmd_reboot
      else if strcmp buffer ''exit'' = 0 then Cmd_exit
      else if ch buffer \<noteq> 0 then Cmd_unknown else Cmd_none)"

text \<open>The same choice as two tables: the names of commands, and the beginnings of those with arguments.\<close>

definition commands :: "(string \<times> shell_command) list" where
  "commands =
     [(''help'', Cmd_help), (''clear'', Cmd_clear), (''ls'', Cmd_ls), (''meminfo'', Cmd_meminfo),
      (''free'', Cmd_free), (''kheap'', Cmd_kheap), (''vmap'', Cmd_vmap), (''panic'', Cmd_panic),
      (''stack'', Cmd_stack), (''pagedir'', Cmd_pagedir), (''idt'', Cmd_idt), (''signals'', Cmd_signals),
      (''sigtest'', Cmd_sigtest), (''syscall'', Cmd_syscall), (''procs'', Cmd_procs), (''execdemo'', Cmd_execdemo),
      (''sockdemo'', Cmd_sockdemo), (''pagetest'', Cmd_pagetest), (''pageperm'', Cmd_pageperm), (''pmmtest'', Cmd_pmmtest),
      (''vmtest'', Cmd_vmtest), (''heaptest'', Cmd_heaptest), (''div0'', Cmd_div0), (''invop'', Cmd_invop),
      (''segreg'', Cmd_segreg), (''int3'', Cmd_int3), (''reboot'', Cmd_reboot), (''exit'', Cmd_exit)]"

definition prefixes :: "(string \<times> (string \<Rightarrow> shell_command)) list" where
  "prefixes =
     [(''echo '', Cmd_echo), (''alloc '', Cmd_alloc), (''hexdump '', Cmd_hexdump), (''peek '', Cmd_peek),
      (''poke '', Cmd_poke), (''sched '', Cmd_sched), (''forkdemo'', Cmd_forkdemo), (''waitproc '', Cmd_waitproc),
      (''killproc '', Cmd_killproc), (''sigproc '', Cmd_sigproc), (''getuid '', Cmd_getuid), (''mmapproc '', Cmd_mmapproc)]"

definition begins :: "string \<Rightarrow> string \<Rightarrow> bool" where
  "begins p b \<longleftrightarrow> take (length p) b = p"

definition lookup_command :: "string \<Rightarrow> shell_command" where
  "lookup_command b =
     (case map_of commands b of
        Some c \<Rightarrow> c
      | None \<Rightarrow>
          (case find (\<lambda>(p, c). begins p b) prefixes of
             Some (p, c) \<Rightarrow> c (drop (length p) b)
           | None \<Rightarrow> if b = [] then Cmd_none else Cmd_unknown))"

section \<open>The choice is a table lookup\<close>

lemma select_tests:
  assumes "CHR 0x00 \<notin> set b"
  shows "CHR 0x00 \<notin> set name \<Longrightarrow> strcmp b name = 0 \<longleftrightarrow> b = name"
    "CHR 0x00 \<notin> set p \<Longrightarrow> length p = n \<Longrightarrow> strncmp b p n = 0 \<longleftrightarrow> begins p b"
    "ch b \<noteq> 0 \<longleftrightarrow> b \<noteq> []"
  using strcmp_eq_0 [OF assms] strncmp_eq_0 [OF assms] ch_nonzero [OF assms] by (auto simp: begins_def)

text \<open>The chain of prefixes, once the line is no name.\<close>

definition by_prefix :: "string \<Rightarrow> shell_command" where
  "by_prefix b =
     (if begins ''echo '' b then Cmd_echo (drop 5 b)
      else if begins ''alloc '' b then Cmd_alloc (drop 6 b)
      else if begins ''hexdump '' b then Cmd_hexdump (drop 8 b)
      else if begins ''peek '' b then Cmd_peek (drop 5 b)
      else if begins ''poke '' b then Cmd_poke (drop 5 b)
      else if begins ''sched '' b then Cmd_sched (drop 6 b)
      else if begins ''forkdemo'' b then Cmd_forkdemo (drop 8 b)
      else if begins ''waitproc '' b then Cmd_waitproc (drop 9 b)
      else if begins ''killproc '' b then Cmd_killproc (drop 9 b)
      else if begins ''sigproc '' b then Cmd_sigproc (drop 8 b)
      else if begins ''getuid '' b then Cmd_getuid (drop 7 b)
      else if begins ''mmapproc '' b then Cmd_mmapproc (drop 9 b)
      else if b \<noteq> [] then Cmd_unknown else Cmd_none)"

lemma by_prefix_find:
  "by_prefix b = (case find (\<lambda>(p, c). begins p b) prefixes of
     Some (p, c) \<Rightarrow> c (drop (length p) b) | None \<Rightarrow> if b = [] then Cmd_none else Cmd_unknown)"
  by (simp add: by_prefix_def prefixes_def numeral_eq_Suc)

lemma clean_names: "\<forall>x \<in> set commands. CHR 0x00 \<notin> set (fst x)"
  by (simp add: commands_def)

lemma select_by_prefix:
  assumes "CHR 0x00 \<notin> set b" "b \<notin> fst ` set commands"
  shows "shell_select b = by_prefix b"
proof -
  have "strcmp b (fst x) \<noteq> 0" if "x \<in> set commands" for x
    using select_tests(1) [OF assms(1)] clean_names that assms(2) by auto
  then have ne': "list_all (\<lambda>x. strcmp b (fst x) \<noteq> 0) commands" by (simp add: list_all_iff)
  note ne' = ne' [unfolded commands_def list.pred_inject fst_conv]
  have pf: "(strncmp b ''echo '' 5 = 0 \<longleftrightarrow> begins ''echo '' b) \<and>
      (strncmp b ''alloc '' 6 = 0 \<longleftrightarrow> begins ''alloc '' b) \<and>
      (strncmp b ''hexdump '' 8 = 0 \<longleftrightarrow> begins ''hexdump '' b) \<and>
      (strncmp b ''peek '' 5 = 0 \<longleftrightarrow> begins ''peek '' b) \<and>
      (strncmp b ''poke '' 5 = 0 \<longleftrightarrow> begins ''poke '' b) \<and>
      (strncmp b ''sched '' 6 = 0 \<longleftrightarrow> begins ''sched '' b) \<and>
      (strncmp b ''forkdemo'' 8 = 0 \<longleftrightarrow> begins ''forkdemo'' b) \<and>
      (strncmp b ''waitproc '' 9 = 0 \<longleftrightarrow> begins ''waitproc '' b) \<and>
      (strncmp b ''killproc '' 9 = 0 \<longleftrightarrow> begins ''killproc '' b) \<and>
      (strncmp b ''sigproc '' 8 = 0 \<longleftrightarrow> begins ''sigproc '' b) \<and>
      (strncmp b ''getuid '' 7 = 0 \<longleftrightarrow> begins ''getuid '' b) \<and>
      (strncmp b ''mmapproc '' 9 = 0 \<longleftrightarrow> begins ''mmapproc '' b)"
    by (intro conjI select_tests(2) [OF assms(1)]) simp_all
  show ?thesis
    unfolding shell_select_def by_prefix_def
    by (simp only: ne' pf select_tests(3) [OF assms(1)] if_False)
qed

lemma select_name:
  assumes "(name, c) \<in> set commands"
  shows "shell_select name = c"
proof -
  have "\<forall>(n, c) \<in> set commands. shell_select n = c" by code_simp
  then show ?thesis using assms by fast
qed

lemma distinct_names: "distinct (map fst commands)"
  by code_simp

text \<open>
  C37. The shell finds the command of a line the way a table does: for a line without a null byte the
  chain of comparisons picks the command whose name is the line, or else the command with arguments
  whose name the line begins with, and hands it the rest; a blank line is no command and any other
  line an unknown one. No command is shadowed by an earlier comparison.
\<close>

theorem shell_select_is_lookup:
  assumes "CHR 0x00 \<notin> set b"
  shows "shell_select b = lookup_command b"
proof (cases "map_of commands b")
  case None
  then have "b \<notin> fst ` set commands" by (simp add: map_of_eq_None_iff)
  then show ?thesis using select_by_prefix [OF assms] None by (simp add: lookup_command_def by_prefix_find)
next
  case (Some c)
  then show ?thesis using select_name [OF map_of_SomeD [OF Some]] by (simp add: lookup_command_def)
qed

theorem shell_select_is_lookup_witness:
  "shell_select ''sigproc 3 17'' = Cmd_sigproc ''3 17'' \<and> shell_select ''sigtest'' = Cmd_sigtest"
  using shell_select_is_lookup [of "''sigproc 3 17''"] shell_select_is_lookup [of "''sigtest''"]
  by (simp add: lookup_command_def commands_def prefixes_def begins_def)

section \<open>Exception tests\<close>

lemma on_idt_shell [simp]: "idt (on_idt f s) = f (idt s)" "con (on_idt f s) = con s"
  by (simp_all add: on_idt_def)

lemma say_idt [simp]: "idt (say x s) = idt s"
  by (simp add: say_def terminal_print_def)

lemma faulting_caught:
  assumes "interrupt_handlers (idt s) ! unat vector = Some (Handler_At h)" "vector = 0 \<or> vector = 6"
    and "h = div0_test_handler s \<or> h = invop_test_handler s"
  shows "faulting ext other vector r s =
    Inr (s\<lparr>exception_test_caught := True, exception_test_vector := vector, exception_test_eip := eip r\<rparr>)"
  using assms
  by (auto simp: faulting_def kernel_interrupt_def idt_handle_interrupt_def Let_def shell_handler_def exception_test_def)

lemma unhandled_panics:
  "interrupt_handlers (idt s) ! unat (int_no r AND 0xFF) = None \<Longrightarrow> int_no r AND 0xFF < 32 \<Longrightarrow>
     kernel_interrupt ext other r s = Inl (Panic (exception_messages ! unat (int_no r AND 0xFF)))"
  by (simp add: kernel_interrupt_def idt_handle_interrupt_def Let_def)

text \<open>The state after a test of \<open>vector\<close>, for both commands.\<close>

definition tested :: "u8 \<Rightarrow> u32 \<Rightarrow> string list \<Rightarrow> 'a shsys_scheme \<Rightarrow> 'a shsys_scheme" where
  "tested vector addr texts s =
     on_idt (idt_unregister_handler vector) ((say texts s)\<lparr>exception_test_caught := True,
        exception_test_vector := ucast vector, exception_test_eip := addr\<rparr>)"

lemma exception_numbers: "dec_string 0 = ''0''" "dec_string 6 = ''6''"
  by code_simp+

lemma div0_eq:
  assumes "length (interrupt_handlers (idt s)) = 256"
  shows "cmd_div0 ext other r s = Inr (exception_report ''div0'' ''Division by zero''
    (tested 0 (eip r) [line ''div0: installing handler'', line ''div0: triggering division by zero''] s))"
  using assms unfolding cmd_div0_def Let_def
  by (subst faulting_caught [where h = "div0_test_handler s"])
    (simp_all add: tested_def on_idt_def say_def terminal_print_def idt_unregister_handler_def idt_register_handler_def)

lemma invop_eq:
  assumes "length (interrupt_handlers (idt s)) = 256"
  shows "cmd_invop ext other r s = Inr (exception_report ''invop'' ''Invalid opcode''
    (tested 6 (eip r) [line ''invop: installing handler'', line ''invop: triggering invalid opcode''] s))"
  using assms unfolding cmd_invop_def Let_def
  by (subst faulting_caught [where h = "invop_test_handler s"])
    (simp_all add: tested_def on_idt_def say_def terminal_print_def idt_unregister_handler_def idt_register_handler_def)

lemma report_tested:
  "con (exception_report name description (tested v addr texts s)) = con s @ concat texts @ name @ '': caught exception '' @
     dec_string (ucast v) @ '' ('' @ description @ '') at EIP='' @ line (shell_hex addr) @ name @ line '': PASS''"
  "idt (exception_report name description (tested v addr texts s)) = idt_unregister_handler v (idt s)"
  by (simp_all add: exception_report_def tested_def on_idt_def say_def terminal_print_def line_def)

text \<open>
  C38. The exception tests of the shell pass and clean up: \<open>div0\<close> and \<open>invop\<close> install their handler,
  the processor's exception reaches it through the dispatch, execution goes on behind the faulting
  instruction, the report names vector and address and ends in \<open>PASS\<close>, and afterwards the vector
  has no handler, so that the same exception is a kernel panic again.
\<close>

theorem exception_tests_pass:
  assumes "length (interrupt_handlers (idt s)) = 256"
  shows "\<exists>a b. cmd_div0 ext other r s = Inr a \<and> cmd_invop ext other r s = Inr b \<and>
    con a = con s @ line ''div0: installing handler'' @ line ''div0: triggering division by zero'' @
      ''div0: caught exception 0 (Division by zero) at EIP='' @ line (shell_hex (eip r)) @ line ''div0: PASS'' \<and>
    con b = con s @ line ''invop: installing handler'' @ line ''invop: triggering invalid opcode'' @
      ''invop: caught exception 6 (Invalid opcode) at EIP='' @ line (shell_hex (eip r)) @ line ''invop: PASS'' \<and>
    interrupt_handlers (idt a) = (interrupt_handlers (idt s))[0 := None] \<and>
    interrupt_handlers (idt b) = (interrupt_handlers (idt s))[6 := None] \<and>
    kernel_interrupt ext other (r\<lparr>int_no := 0\<rparr>) a = Inl (Panic ''Division by zero'') \<and>
    kernel_interrupt ext other (r\<lparr>int_no := 6\<rparr>) b = Inl (Panic ''Invalid opcode'')"
  unfolding div0_eq [OF assms] invop_eq [OF assms]
  using assms
  by (simp add: report_tested exception_numbers line_def unhandled_panics idt_unregister_handler_def exception_messages_def)

definition system_demo :: shsys where
  "system_demo = shproc.extend shell_demo \<lparr>div0_test_handler = 0x100400, invop_test_handler = 0x100500,
     exception_test_caught = False, exception_test_vector = 0, exception_test_eip = 0\<rparr>"

theorem exception_tests_pass_witness:
  "\<exists>a. cmd_div0 (\<lambda>f a b c d s. Inr (0, s)) (\<lambda>h r s. Inr (r, s)) (zero_registers\<lparr>eip := 0x105000\<rparr>) system_demo = Inr a \<and>
     con a = line ''div0: installing handler'' @ line ''div0: triggering division by zero'' @
       ''div0: caught exception 0 (Division by zero) at EIP='' @ line (shell_hex 0x105000) @ line ''div0: PASS''"
proof -
  have "length (interrupt_handlers (idt system_demo)) = 256" "con system_demo = []"
    by (simp_all add: system_demo_def shproc.defs shell_demo_def only_kernel_def procsys.defs blank_idt_def blank_machine_def)
  then show ?thesis
    using exception_tests_pass [of system_demo "\<lambda>f a b c d s. Inr (0, s)" "\<lambda>h r s. Inr (r, s)" "zero_registers\<lparr>eip := 0x105000\<rparr>"]
    by auto
qed

text \<open>The gate for system calls answers the shell: with the table of \<open>syscall_init\<close> the command prints the magic number.\<close>

lemma syscall_command:
  assumes "interrupt_handlers (idt s) ! 128 = Some Syscall_Handler" "syscall_table s ! 0 = Syscall_Get_Magic"
  shows "\<exists>s'. cmd_syscall ext other r s = Inr s' \<and> con s' = con s @ ''syscall returned 0x4B465334'' @ line []"
proof -
  have "hex_string 0x4B465334 = ''4B465334''" by code_simp
  then show ?thesis using assms
    by (simp add: cmd_syscall_def kernel_interrupt_def idt_handle_interrupt_def Let_def syscall_handler_def
        syscall_dispatch_def syscall_get_magic_def shell_hex_def)
qed

text \<open>Without a handler a breakpoint is a panic.\<close>

lemma int3_panics:
  assumes "interrupt_handlers (idt s) ! 3 = None"
  shows "cmd_int3 ext other r s = Inl (Panic ''Breakpoint'')"
  using assms by (simp add: cmd_int3_def unhandled_panics exception_messages_def)

section \<open>The signal test\<close>

text \<open>The shell's callback sees the test signals among the pending ones, in their order.\<close>

definition tests :: "pending_signal list \<Rightarrow> pending_signal list" where
  "tests ps = filter (\<lambda>p. ps_signal p = 1) ps"

definition handled_text :: "pending_signal \<Rightarrow> string" where
  "handled_text p = ''[signal] handled signal 1 value='' @ shell_hex (ps_value p) @ line []"

lemma callback_fields [simp]:
  "signal_handlers (shell_signal_handler g v x s) = signal_handlers s"
  "signal_head (shell_signal_handler g v x s) = signal_head s"
  "signal_tail (shell_signal_handler g v x s) = signal_tail s"
  "pending_signals (shell_signal_handler g v x s) = pending_signals s"
  "sg_con (shell_signal_handler g v x s) = sg_con s @ ''[signal] handled signal '' @ dec_string g @ '' value='' @ shell_hex v @ line []"
  "shell_signal_count (shell_signal_handler g v x s) = shell_signal_count s + 1"
  "shell_last_signal (shell_signal_handler g v x s) = g"
  "shell_last_signal_value (shell_signal_handler g v x s) = v"
  "shell_signal_handler_installed (shell_signal_handler g v x s) = shell_signal_handler_installed s"
  by (simp_all add: shell_signal_handler_def Let_def sg_say_def)

lemma deliver_tests:
  assumes "signal_handlers s ! 1 = Some Shell_Signal_Handler" "\<forall>k < 32. k \<noteq> 1 \<longrightarrow> signal_handlers s ! k = None"
    and "list_all valid_signal ps"
  shows "shell_signal_count (deliver (callback ext) ps s) = shell_signal_count s + word_of_nat (length (tests ps)) \<and>
    sg_con (deliver (callback ext) ps s) = sg_con s @ concat (map handled_text (tests ps)) \<and>
    shell_signal_handler_installed (deliver (callback ext) ps s) = shell_signal_handler_installed s \<and>
    shell_last_signal (deliver (callback ext) ps s) = (if tests ps = [] then shell_last_signal s else 1) \<and>
    shell_last_signal_value (deliver (callback ext) ps s) =
      (if tests ps = [] then shell_last_signal_value s else ps_value (last (tests ps)))"
  using assms
proof (induction ps arbitrary: s)
  case Nil
  then show ?case by (simp add: tests_def)
next
  case (Cons p ps)
  let ?s1 = "s\<lparr>signal_head := (signal_head s + 1) mod 64\<rparr>"
  have d: "dec_string 1 = ''1''" by code_simp
  show ?case
  proof (cases "ps_signal p = 1")
    case True
    let ?s2 = "shell_signal_handler 1 (ps_value p) (ps_context p) ?s1"
    have "deliver (callback ext) (p # ps) s = deliver (callback ext) ps ?s2"
      using Cons.prems(1) True by (simp add: Let_def)
    moreover have "tests (p # ps) = p # tests ps" using True by (simp add: tests_def)
    ultimately show ?thesis
      using Cons.IH [of ?s2] Cons.prems d by (auto simp: handled_text_def)
  next
    case False
    have "unat (ps_signal p) < 32" using Cons.prems(3) by (simp add: valid_signal_unat)
    moreover have "unat (ps_signal p) \<noteq> 1" using False by (simp add: word_eq_unat)
    ultimately have "signal_handlers ?s1 ! unat (ps_signal p) = None" using Cons.prems(2) by simp
    then have "deliver (callback ext) (p # ps) s = deliver (callback ext) ps ?s1" by (simp add: Let_def)
    moreover have "tests (p # ps) = tests ps" using False by (simp add: tests_def)
    ultimately show ?thesis using Cons.IH [of ?s1] Cons.prems by simp
  qed
qed

lemma keeps_queue_callback: "keeps_queue (callback (\<lambda>f g v x s. s))"
  unfolding keeps_queue_def
proof (intro allI)
  fix cb g v x and s :: "'a shsig_scheme"
  show "signal_handlers (callback (\<lambda>f g v x s. s) cb g v x s) = signal_handlers s \<and>
    pending_signals (callback (\<lambda>f g v x s. s) cb g v x s) = pending_signals s \<and>
    signal_head (callback (\<lambda>f g v x s. s) cb g v x s) = signal_head s \<and>
    signal_tail (callback (\<lambda>f g v x s. s) cb g v x s) = signal_tail s"
    by (cases cb) simp_all
qed

text \<open>The signals of the shell: in order, and no callback but the shell's own is registered.\<close>

definition shsig_ok :: "'a shsig_scheme \<Rightarrow> bool" where
  "shsig_ok s \<longleftrightarrow> signals_inv s \<and> (\<forall>k < 32. k \<noteq> 1 \<longrightarrow> signal_handlers s ! k = None) \<and>
     (shell_signal_handler_installed s \<longrightarrow> signal_handlers s ! 1 = Some Shell_Signal_Handler)"

definition test_signal :: pending_signal where
  "test_signal = \<lparr>ps_signal = 1, ps_value = 0xC0DE1234, ps_context = 0\<rparr>"

lemma deliver_handlers: "keeps_queue run \<Longrightarrow> signal_handlers (deliver run ps s) = signal_handlers s"
proof (induction ps arbitrary: s)
  case (Cons p ps)
  then show ?case by (simp add: Let_def keeps_queue_def split: option.split)
qed simp

text \<open>\<open>sigtest\<close> up to the scheduling of its signal.\<close>

definition sigtest_start :: "'a shsig_scheme \<Rightarrow> 'a shsig_scheme" where
  "sigtest_start s =
     sg_say [line ''Scheduling test signal...'']
       (if \<not> shell_signal_handler_installed s
        then s\<lparr>signal_handlers := (signal_handlers s)[1 := Some Shell_Signal_Handler], shell_signal_handler_installed := True\<rparr>
        else s)"

lemma sigtest_start_eq:
  "cmd_sigtest ext s =
     (let (r, s) = schedule_signal KERNEL_SIGNAL_TEST 0xC0DE1234 NULL (sigtest_start s)
      in if r = 0 then
           (case signal_dispatch_pending (callback ext) s of
              None \<Rightarrow> None
            | Some (_, s) \<Rightarrow> Some (sg_say [line ''Signal delivery complete.''] s))
         else Some (sg_say [line ''Signal queue is full.''] s))"
proof -
  have "snd (register_signal_handler KERNEL_SIGNAL_TEST h s) = s\<lparr>signal_handlers := (signal_handlers s)[1 := h]\<rparr>" for h
    by (cases s) (simp add: register_signal_handler_def split_beta Let_def interrupts_save_def interrupts_restore_def
        interrupts_disable_def read_eflags_def)
  then show ?thesis
    by (simp add: cmd_sigtest_def sigtest_start_def split_beta Let_def)
qed

lemma sigtest_start_fields:
  assumes "shsig_ok s"
  shows "signals_inv (sigtest_start s)" "signal_items (sigtest_start s) = signal_items s"
    "signal_handlers (sigtest_start s) ! 1 = Some Shell_Signal_Handler"
    "\<forall>k < 32. k \<noteq> 1 \<longrightarrow> signal_handlers (sigtest_start s) ! k = None"
    "shell_signal_handler_installed (sigtest_start s)" "shell_signal_count (sigtest_start s) = shell_signal_count s"
    "sg_con (sigtest_start s) = sg_con s @ line ''Scheduling test signal...''"
  using assms
  by (auto simp: shsig_ok_def sigtest_start_def sg_say_def signals_inv_def signal_items_def)

text \<open>
  \<open>sigtest\<close> delivers: with room in the queue it installs the shell's callback if need be and
  returns with an empty queue; the callback has run once for every test signal that was pending
  and once for the new one, oldest first, and has recorded the new one last. With a full queue
  nothing is delivered and the user is told so.
\<close>

lemma sigtest_delivers:
  assumes ok: "shsig_ok s"
  defines "ps \<equiv> tests (signal_items s) @ [test_signal]"
  shows "\<exists>s'. cmd_sigtest (\<lambda>f g v x s. s) s = Some s' \<and> shell_signal_handler_installed s' \<and>
    signal_handlers s' ! 1 = Some Shell_Signal_Handler \<and>
    (if length (signal_items s) < 63
     then signal_items s' = [] \<and> shell_signal_count s' = shell_signal_count s + word_of_nat (length ps) \<and>
       shell_last_signal s' = 1 \<and> shell_last_signal_value s' = 0xC0DE1234 \<and>
       sg_con s' = sg_con s @ line ''Scheduling test signal...'' @ concat (map handled_text ps) @
         line ''Signal delivery complete.''
     else signal_items s' = signal_items s \<and> shell_signal_count s' = shell_signal_count s \<and>
       sg_con s' = sg_con s @ line ''Scheduling test signal...'' @ line ''Signal queue is full.'')"
proof -
  let ?run = "callback (\<lambda>f g v x s. s)" and ?s1 = "sigtest_start s"
  note f = sigtest_start_fields [OF ok]
  obtain r s2 where r: "schedule_signal KERNEL_SIGNAL_TEST 0xC0DE1234 NULL ?s1 = (r, s2)" by fastforce
  note sc = schedule_signal_correct [OF f(1) r]
  show ?thesis
  proof (cases "length (signal_items s) < 63")
    case True
    then have r0: "r = 0" "signal_items s2 = signal_items s @ [test_signal]" "signals_inv s2"
      using sc f(2) by (simp_all add: test_signal_def)
    have s2: "s2 = ?s1\<lparr>pending_signals := pending_signals s2, signal_tail := signal_tail s2\<rparr>"
    proof (cases "unat ((signal_tail ?s1 + 1) mod 64) = unat (signal_head ?s1)")
      case True
      then show ?thesis using schedule_signal_full [OF True, of KERNEL_SIGNAL_TEST "0xC0DE1234" NULL] r r0(1) by simp
    next
      case False
      then show ?thesis using schedule_signal_room [OF _ _ False, of KERNEL_SIGNAL_TEST "0xC0DE1234" NULL] r by auto
    qed
    have h: "signal_handlers s2 ! 1 = Some Shell_Signal_Handler" "\<forall>k < 32. k \<noteq> 1 \<longrightarrow> signal_handlers s2 ! k = None"
        "shell_signal_handler_installed s2" "shell_signal_count s2 = shell_signal_count s"
        "sg_con s2 = sg_con s @ line ''Scheduling test signal...''"
      using f by (subst s2, simp)+
    have v: "list_all valid_signal (signal_items s2)" using r0(3) by (simp add: signals_inv_iff list_all_iff)
    have ps: "tests (signal_items s2) = ps" by (simp add: r0(2) tests_def ps_def test_signal_def)
    have "signal_dispatch_pending ?run s2 = Some (word_of_nat (length (signal_items s2)), deliver ?run (signal_items s2) s2)"
      "signal_items (deliver ?run (signal_items s2) s2) = []"
      using dispatch_deliver [OF keeps_queue_callback r0(3) refl, of 0] by (simp_all add: signal_dispatch_pending_def)
    then show ?thesis
      using deliver_tests [OF h(1,2) v, of "\<lambda>f g v x s. s"] h True r0(1) deliver_handlers [OF keeps_queue_callback, of "signal_items s2" s2]
      unfolding sigtest_start_eq r ps
      by (auto simp: sg_say_def signal_items_def ps_def test_signal_def)
  next
    case False
    then have "r = -1" "s2 = ?s1" using sc f(2) by simp_all
    then show ?thesis using False f unfolding sigtest_start_eq r
      by (simp add: sg_say_def signal_items_def)
  qed
qed

end
