(* ===== verification/Keyboard_Boot.thy ===== *)
theory Keyboard_Boot
  imports Keyboard Interrupts_Spec
begin

unbundle bit_operations_syntax

text \<open>
  The keyboard and its device, \<open>kernel/src/keyboard.c\<close>: start-up, which empties the controller's
  buffer and registers the interrupt handler, and the way of a scancode from the port through the
  dispatch of interrupts into the ring of characters.
\<close>

section \<open>Operations\<close>

abbreviation (input) KEYBOARD_DATA_PORT :: u16 where "KEYBOARD_DATA_PORT \<equiv> 0x60"
abbreviation (input) KEYBOARD_STATUS_PORT :: u16 where "KEYBOARD_STATUS_PORT \<equiv> 0x64"

text \<open>The keyboard's variables with the state of the interrupts and ports.\<close>

record 'cb kbdio = "'cb kbdsys" +
  kb_idt :: idtsys

partial_function (option) drain_keyboard :: "device \<Rightarrow> idtsys \<Rightarrow> idtsys option" where
  "drain_keyboard dev i =
     (let (status, i) = inb dev KEYBOARD_STATUS_PORT i in
      if status AND 0x01 \<noteq> 0 then
        let (_, i) = inb dev KEYBOARD_DATA_PORT i in drain_keyboard dev i
      else Some i)"

definition init_keyboard :: "device \<Rightarrow> ('cb, 'w) kbdio_scheme \<Rightarrow> ('cb, 'w) kbdio_scheme option" where
  "init_keyboard dev s =
     (let s = s\<lparr>keyboard_head := 0, keyboard_tail := 0\<rparr> in
      case drain_keyboard dev (kb_idt s) of
        None \<Rightarrow> None
      | Some i \<Rightarrow>
          let i = idt_register_handler IRQ1_VECTOR (Some Keyboard_Interrupt) i;
              i = pic_clear_mask dev 1 i;
              i = pic_clear_mask dev 2 i
          in Some (s\<lparr>kb_idt := i\<rparr>))"

definition keyboard_interrupt :: "device \<Rightarrow> ('cb, 'w) kbdio_scheme \<Rightarrow> ('cb, 'w) kbdio_scheme" where
  "keyboard_interrupt dev s =
     (let (scancode, i) = inb dev KEYBOARD_DATA_PORT (kb_idt s)
      in keyboard_handler scancode (s\<lparr>kb_idt := i\<rparr>))"

definition on_kb_idt :: "(idtsys \<Rightarrow> idtsys) \<Rightarrow> ('cb, 'w) kbdio_scheme \<Rightarrow> ('cb, 'w) kbdio_scheme" where
  "on_kb_idt f s = s\<lparr>kb_idt := f (kb_idt s)\<rparr>"

fun kb_handler ::
  "device \<Rightarrow> (interrupt_handler_ptr \<Rightarrow> cpu_registers \<Rightarrow> ('cb, 'w) kbdio_scheme \<Rightarrow> (cpu_registers \<times> ('cb, 'w) kbdio_scheme) outcome) \<Rightarrow>
   interrupt_handler_ptr \<Rightarrow> cpu_registers \<Rightarrow> ('cb, 'w) kbdio_scheme \<Rightarrow> (cpu_registers \<times> ('cb, 'w) kbdio_scheme) outcome" where
  "kb_handler dev other Keyboard_Interrupt r s = Inr (r, keyboard_interrupt dev s)"
| "kb_handler dev other h r s = other h r s"

text \<open>A key event: the controller raises request line 1.\<close>

definition keyboard_irq ::
  "device \<Rightarrow> (interrupt_handler_ptr \<Rightarrow> cpu_registers \<Rightarrow> ('cb, 'w) kbdio_scheme \<Rightarrow> (cpu_registers \<times> ('cb, 'w) kbdio_scheme) outcome) \<Rightarrow>
   cpu_registers \<Rightarrow> ('cb, 'w) kbdio_scheme \<Rightarrow> (cpu_registers option \<times> ('cb, 'w) kbdio_scheme) outcome" where
  "keyboard_irq dev other r s =
     idt_handle_interrupt kb_idt on_kb_idt (kb_handler dev other) (Some (r\<lparr>int_no := 33\<rparr>)) s"

section \<open>Start-up returns\<close>

text \<open>A controller with finitely many bytes: from some read on its status reports an empty buffer.\<close>

definition buffer_drains :: "device \<Rightarrow> bool" where
  "buffer_drains dev \<longleftrightarrow> (\<exists>n. \<forall>out k. n \<le> k \<longrightarrow> dev out k KEYBOARD_STATUS_PORT AND 0x01 = 0)"

lemma drain_returns:
  assumes "buffer_drains dev"
  shows "\<exists>n. drain_keyboard dev i = Some (i\<lparr>port_reads := n\<rparr>)"
proof -
  obtain n where n: "n \<le> k \<Longrightarrow> dev out k KEYBOARD_STATUS_PORT AND 0x01 = 0" for out k
    using assms by (auto simp: buffer_drains_def)
  show ?thesis
  proof (induction "n - port_reads i" arbitrary: i rule: less_induct)
    case less
    show ?case
    proof (cases "dev (port_out i) (port_reads i) KEYBOARD_STATUS_PORT AND 0x01 = 0")
      case True
      then show ?thesis by (subst drain_keyboard.simps) (auto simp: inb_def)
    next
      case False
      then have "port_reads i < n" using n [of "port_reads i"] by force
      then have "\<exists>m. drain_keyboard dev (i\<lparr>port_reads := port_reads i + 1 + 1\<rparr>) =
          Some (i\<lparr>port_reads := port_reads i + 1 + 1, port_reads := m\<rparr>)"
        by (intro less) simp
      then show ?thesis using False by (subst drain_keyboard.simps) (auto simp: inb_def)
    qed
  qed
qed

section \<open>From the key to the ring\<close>

lemma keyboard_views [simp]:
  "keyboard_inv (s\<lparr>kb_idt := i\<rparr>) = keyboard_inv s" "keyboard_items (s\<lparr>kb_idt := i\<rparr>) = keyboard_items s"
  by (simp_all add: keyboard_inv_def signals_inv_def keyboard_items_def)

lemma keyboard_reset:
  "keyboard_inv s \<Longrightarrow> keyboard_inv (s\<lparr>keyboard_head := 0, keyboard_tail := 0\<rparr>)"
  "keyboard_items (s\<lparr>keyboard_head := 0, keyboard_tail := 0\<rparr>) = []"
  by (simp_all add: keyboard_inv_def signals_inv_def keyboard_items_def ring_items_def ring_count_def)

lemma keyboard_irq_eq:
  assumes "interrupt_handlers (kb_idt s) ! 33 = Some Keyboard_Interrupt"
  shows "keyboard_irq dev other r s =
    Inr (Some (r\<lparr>int_no := 33\<rparr>), on_kb_idt (pic_send_eoi 1) (keyboard_interrupt dev s))"
  using assms by (simp add: keyboard_irq_def idt_handle_interrupt_def Let_def)

text \<open>
  C39. The keyboard works from start-up on: with a controller whose buffer runs empty \<open>init_keyboard\<close>
  returns, with no character waiting, with request lines 1 and 2 enabled and every other line as it
  was; and then a key event is dispatched to the keyboard, its scancode is read from the port and
  decoded, its character, if it has one, is the one waiting, and the interrupt is acknowledged.
\<close>

theorem keyboard_start_and_key:
  fixes s :: "('cb, 'w) kbdio_scheme"
  assumes "keyboard_inv s" "length (interrupt_handlers (kb_idt s)) = 256" "buffer_drains dev" "pic_answers p1 p2 dev"
    and "pic_phase (pic_after 0x20 p1 (port_out (kb_idt s))) = 0" "pic_phase (pic_after 0xA0 p2 (port_out (kb_idt s))) = 0"
  shows "\<exists>s' s'' r'. init_keyboard dev s = Some s' \<and> keyboard_inv s' \<and> keyboard_items s' = [] \<and>
    (\<forall>k < 16. irq_masked p1 p2 (port_out (kb_idt s')) k \<longleftrightarrow> irq_masked p1 p2 (port_out (kb_idt s)) k \<and> k \<notin> {1, 2}) \<and>
    keyboard_irq dev other r s' = Inr (r', s'') \<and> keyboard_inv s'' \<and>
    keyboard_items s'' = (case snd (decode_key (shift_held s, extended_prefix s)
        (dev (port_out (kb_idt s')) (port_reads (kb_idt s')) KEYBOARD_DATA_PORT)) of None \<Rightarrow> [] | Some c \<Rightarrow> [c]) \<and>
    pic_eois (pic_after 0x20 p1 (port_out (kb_idt s''))) = Suc (pic_eois (pic_after 0x20 p1 (port_out (kb_idt s'))))"
proof -
  let ?s0 = "s\<lparr>keyboard_head := 0, keyboard_tail := 0\<rparr>"
  obtain n where n: "drain_keyboard dev (kb_idt ?s0) = Some ((kb_idt s)\<lparr>port_reads := n\<rparr>)"
    using drain_returns [OF assms(3), of "kb_idt ?s0"] by auto
  define i where "i = idt_register_handler IRQ1_VECTOR (Some Keyboard_Interrupt) ((kb_idt s)\<lparr>port_reads := n\<rparr>)"
  define i' where "i' = pic_clear_mask dev 2 (pic_clear_mask dev 1 i)"
  define s' where "s' = ?s0\<lparr>kb_idt := i'\<rparr>"
  have init: "init_keyboard dev s = Some s'"
    unfolding init_keyboard_def Let_def n s'_def i'_def i_def by simp
  have po: "port_out i = port_out (kb_idt s)" by (simp add: i_def idt_register_handler_def)
  have ph: "pic_phase (pic_after 0x20 p1 (port_out i)) = 0" "pic_phase (pic_after 0xA0 p2 (port_out i)) = 0"
    using assms(5,6) by (simp_all add: po)
  note ph' = clear_mask_phase [OF ph, of dev 1]
  have lines: "irq_masked p1 p2 (port_out (kb_idt s')) k \<longleftrightarrow> irq_masked p1 p2 (port_out (kb_idt s)) k \<and> k \<notin> {1, 2}"
    if "k < 16" for k
    using pic_mask_correct [OF assms(4) ph', of 2 k] pic_mask_correct [OF assms(4) ph, of 1 k] that po
    by (auto simp: s'_def i'_def)
  have h: "interrupt_handlers (kb_idt s') ! 33 = Some Keyboard_Interrupt"
    using assms(2) by (simp add: s'_def i'_def i_def idt_register_handler_def)
  have ok: "keyboard_inv s'" "keyboard_items s' = []"
    using keyboard_reset [of s] assms(1) by (simp_all add: s'_def)
  let ?sc = "dev (port_out (kb_idt s')) (port_reads (kb_idt s')) KEYBOARD_DATA_PORT"
  let ?t = "s'\<lparr>kb_idt := (kb_idt s')\<lparr>port_reads := port_reads (kb_idt s') + 1\<rparr>\<rparr>"
  obtain m k where mk: "decode_key (shift_held ?t, extended_prefix ?t) ?sc = (m, k)" by fastforce
  have t: "keyboard_inv ?t" "keyboard_items ?t = []" using ok by simp_all
  note e = handler_effect [OF t(1) mk]
  have ki: "keyboard_interrupt dev s' = keyboard_handler ?sc ?t"
    by (simp add: keyboard_interrupt_def inb_def)
  have idt: "kb_idt (keyboard_handler sc u) = kb_idt u" for sc and u :: "('cb, 'w) kbdio_scheme"
    by (simp add: keyboard_handler_def Let_def keyboard_queue_char_def schedule_signal_def split_beta)
  have sh: "shift_held ?t = shift_held s" "extended_prefix ?t = extended_prefix s" by (simp_all add: s'_def)
  define s'' where "s'' = on_kb_idt (pic_send_eoi 1) (keyboard_interrupt dev s')"
  have "keyboard_inv s''" "keyboard_items s'' = (case k of None \<Rightarrow> [] | Some c \<Rightarrow> [c])"
    using e(1,3) t(2) by (simp_all add: s''_def on_kb_idt_def ki split: option.split)
  moreover have "pic_eois (pic_after 0x20 p1 (port_out (kb_idt s''))) = Suc (pic_eois (pic_after 0x20 p1 (port_out (kb_idt s'))))"
    using eoi_count(1) [of p1 1 "(kb_idt s')\<lparr>port_reads := port_reads (kb_idt s') + 1\<rparr>"]
    by (simp add: s''_def on_kb_idt_def ki idt)
  ultimately show ?thesis
    using init ok lines keyboard_irq_eq [OF h, of dev other r] mk unfolding s''_def [symmetric] sh by auto
qed

text \<open>An idle keyboard whose controller answers with the scancode of \<open>h\<close>.\<close>

definition kb_demo :: "unit kbdio" where
  "kb_demo = kbdsys.extend idle_keyboard \<lparr>kb_idt = blank_idt\<rparr>"

definition kb_device :: device where
  "kb_device out n port =
     (if port = 0x60 then 0x23 else if port = 0x64 then 0 else if port = 0x21 then pic_imr (pic_after 0x20 fresh_pic out)
      else pic_imr (pic_after 0xA0 fresh_pic out))"

theorem keyboard_start_and_key_witness:
  "\<exists>s' s'' r'. init_keyboard kb_device kb_demo = Some s' \<and>
     keyboard_irq kb_device (\<lambda>h r s. Inr (r, s)) no_registers s' = Inr (r', s'') \<and> keyboard_items s'' = [0x68]"
proof -
  have inv: "keyboard_inv kb_demo" using idle_keyboard_inv(1)
    by (simp add: kb_demo_def kbdsys.defs idle_keyboard_def keyboard_inv_def signals_inv_def ring_items_def ring_count_def)
  have f: "length (interrupt_handlers (kb_idt kb_demo)) = 256" "shift_held kb_demo = False" "extended_prefix kb_demo = False"
      "pic_phase (pic_after 0x20 fresh_pic (port_out (kb_idt kb_demo))) = 0"
      "pic_phase (pic_after 0xA0 fresh_pic (port_out (kb_idt kb_demo))) = 0"
    by (simp_all add: kb_demo_def kbdsys.defs idle_keyboard_def blank_idt_def pic_after_def fresh_pic_def)
  have d: "buffer_drains kb_device" "pic_answers fresh_pic fresh_pic kb_device"
    by (simp_all add: buffer_drains_def pic_answers_def kb_device_def)
  have "snd (decode_key (False, False) 0x23) = Some 0x68" by (simp add: decode_key_def scancode_to_ascii_def ascii_def)
  then show ?thesis
    using keyboard_start_and_key [OF inv f(1) d f(4,5), of "\<lambda>h r s. Inr (r, s)" no_registers] f(2,3)
    by (auto simp: kb_device_def)
qed

end
