(* ===== verification/Memory_Dump.thy ===== *)
theory Memory_Dump
  imports Shell_Memory PMM_Boot
begin

unbundle bit_operations_syntax

text \<open>
  The dump of the kernel stack that \<open>kernel/src/main.c\<close> prints at start-up, and what it and the
  hexdump of the shell print: the bytes of the range, in rows of sixteen.
\<close>

section \<open>Operations\<close>

definition stack_row :: "u32 \<Rightarrow> u32 \<Rightarrow> u32 \<Rightarrow> 'a machine_scheme \<Rightarrow> 'a machine_scheme outcome" where
  "stack_row addr n i s =
     (let s = say [hex_string (addr + i), '': ''] s in
      obind (hexdump_bytes addr n i [0..<16] s) (\<lambda>s.
      obind (hexdump_ascii addr n i [0..<16] (say ['' |''] s)) (\<lambda>s.
      Inr (say [line ''|''] s))))"

partial_function (option) stack_dump_from ::
  "u32 \<Rightarrow> u32 \<Rightarrow> u32 \<Rightarrow> 'a machine_scheme \<Rightarrow> 'a machine_scheme outcome option" where
  "stack_dump_from addr n i s =
     (if i < n then
        (case stack_row addr n i s of
           Inl e \<Rightarrow> Some (Inl e)
         | Inr s \<Rightarrow> stack_dump_from addr n (i + 16) s)
      else Some (Inr s))"

definition print_stack_dump :: "u32 \<Rightarrow> u32 \<Rightarrow> 'a machine_scheme \<Rightarrow> 'a machine_scheme outcome" where
  "print_stack_dump addr n s = (case stack_dump_from addr n 0 s of None \<Rightarrow> Inl Diverges | Some r \<Rightarrow> r)"

text \<open>\<open>esp'\<close> and \<open>ebp'\<close> are the registers, \<open>stack_low\<close> and \<open>stack_high\<close> the addresses of the linker script.\<close>

definition print_kernel_stack ::
  "u32 \<Rightarrow> u32 \<Rightarrow> u32 \<Rightarrow> u32 \<Rightarrow> 'a machine_scheme \<Rightarrow> 'a machine_scheme outcome" where
  "print_kernel_stack stack_low stack_high esp' ebp' s =
     (let s = say [line [] @ line ''=== Kernel Stack ==='', ''Range: 0x'', hex_string stack_low, '' - 0x'', hex_string stack_high,
                   line [] @ ''ESP: 0x'', hex_string esp', ''  EBP: 0x'', hex_string ebp', line []] s;
          s = (if stack_low \<le> esp' \<and> esp' \<le> stack_high
               then say [''Used bytes: '', memory_size (stack_high - esp'), line []] s
               else say [line ''Stack pointer is outside the configured stack range''] s);
          s = say [line ''Stack contents (64 bytes from ESP):''] s
      in print_stack_dump esp' 64 s)"

section \<open>What a row shows\<close>

text \<open>The bytes the processor reads at \<open>n\<close> addresses from \<open>addr\<close> on, all of them mapped.\<close>

definition reads :: "'a machine_scheme \<Rightarrow> u32 \<Rightarrow> nat \<Rightarrow> (nat \<Rightarrow> u8) \<Rightarrow> bool" where
  "reads s addr n byte \<longleftrightarrow> (\<forall>k < n. vload8 s (addr + word_of_nat k) = Inr (byte k))"

definition byte_text :: "nat \<Rightarrow> (nat \<Rightarrow> u8) \<Rightarrow> nat \<Rightarrow> nat \<Rightarrow> string" where
  "byte_text n byte i j =
     (if i + j < n then hex_byte (byte (i + j)) @ '' '' else ''   '') @ (if j = 7 then '' '' else [])"

definition ascii_text :: "nat \<Rightarrow> (nat \<Rightarrow> u8) \<Rightarrow> nat \<Rightarrow> nat \<Rightarrow> string" where
  "ascii_text n byte i j = (if i + j < n then [printable (byte (i + j))] else [])"

definition row_text :: "string \<Rightarrow> nat \<Rightarrow> (nat \<Rightarrow> u8) \<Rightarrow> nat \<Rightarrow> string" where
  "row_text address n byte i =
     address @ '': '' @ concat (map (byte_text n byte i) [0..<16]) @ '' |'' @
     concat (map (ascii_text n byte i) [0..<16]) @ line ''|''"

lemma vload8_say [simp]: "vload8 (say x s) = vload8 s"
  by (rule ext) (simp add: vload8_def say_def terminal_print_def translate_def split: option.split)

lemma reads_say [simp]: "reads (say x s) = reads s"
  by (intro ext) (simp add: reads_def)

lemma say_twice: "say y (say x s) = say (x @ y) s"
  by (simp add: say_def terminal_print_def)

lemma say_text: "concat x = concat y \<Longrightarrow> say x s = say y s"
  by (simp add: say_def)

lemma say_nothing [simp]: "say [] s = s" "say [[]] s = s"
  by (simp_all add: say_def terminal_print_def)

lemma in_range:
  assumes "i + j < 0x10000" "n < 0x10000"
  shows "(word_of_nat i + word_of_nat j :: u32) < word_of_nat n \<longleftrightarrow> i + j < n"
proof -
  have "unat (word_of_nat (i + j) :: u32) = i + j" "unat (word_of_nat n :: u32) = n"
    using assms by (simp_all add: unat_word_of_nat_u32 del: of_nat_add)
  then show "(word_of_nat i + word_of_nat j :: u32) < word_of_nat n \<longleftrightarrow> i + j < n"
    by (simp add: word_less_nat_alt flip: of_nat_add)
qed

lemma pad_text: "n \<le> i + a \<Longrightarrow> hexdump_pad [a..<b] = concat (map (byte_text n byte i) [a..<b])"
proof (induction "b - a" arbitrary: a)
  case (Suc k)
  then have "a < b" by simp
  then show ?case using Suc.hyps(1) [of "Suc a"] Suc.hyps(2) Suc.prems by (simp add: upt_conv_Cons byte_text_def)
qed simp

lemma bytes_text:
  assumes "reads s addr n byte" "n < 0x1000" "i < 0x1000"
  shows "a \<le> 16 \<Longrightarrow> hexdump_bytes addr (word_of_nat n) (word_of_nat i) [a..<16] s =
    Inr (say [concat (map (byte_text n byte i) [a..<16])] s)"
  using assms(1)
proof (induction "16 - a" arbitrary: a s)
  case 0
  then show ?case by simp
next
  case (Suc k)
  then have a: "a < 16" by simp
  have la: "i + a < 0x10000" "n < 0x10000" using assms(2,3) a by simp_all
  note r = in_range [OF la]
  show ?case
  proof (cases "i + a < n")
    case True
    then have v: "vload8 s (addr + (word_of_nat i + word_of_nat a)) = Inr (byte (i + a))"
      using Suc.prems(2) by (simp add: reads_def flip: of_nat_add)
    let ?s = "say [hex_byte (byte (i + a)), '' '', if a = 7 then '' '' else []] s"
    have "hexdump_bytes addr (word_of_nat n) (word_of_nat i) [Suc a..<16] ?s =
        Inr (say [concat (map (byte_text n byte i) [Suc a..<16])] ?s)"
      using Suc.hyps(2) Suc.prems(2) a by (intro Suc.hyps(1)) simp_all
    moreover have "hexdump_bytes addr (word_of_nat n) (word_of_nat i) [a..<16] s =
        hexdump_bytes addr (word_of_nat n) (word_of_nat i) [Suc a..<16] ?s"
      using a r True v by (simp add: upt_conv_Cons)
    moreover have "say [concat (map (byte_text n byte i) [Suc a..<16])] ?s = say [concat (map (byte_text n byte i) [a..<16])] s"
      using True unfolding upt_conv_Cons [OF a] by (simp add: say_def terminal_print_def byte_text_def [of n byte i a])
    ultimately show ?thesis by simp
  next
    case False
    then show ?thesis using a r pad_text [of n i a 16 byte] by (simp add: upt_conv_Cons)
  qed
qed

lemma chars_text:
  assumes "reads s addr n byte" "n < 0x1000" "i < 0x1000"
  shows "a \<le> 16 \<Longrightarrow> hexdump_ascii addr (word_of_nat n) (word_of_nat i) [a..<16] s =
    Inr (say [concat (map (ascii_text n byte i) [a..<16])] s)"
  using assms(1)
proof (induction "16 - a" arbitrary: a s)
  case 0
  then show ?case by simp
next
  case (Suc k)
  then have a: "a < 16" by simp
  have la: "i + a < 0x10000" "n < 0x10000" using assms(2,3) a by simp_all
  note r = in_range [OF la]
  show ?case
  proof (cases "i + a < n")
    case True
    then have v: "vload8 s (addr + (word_of_nat i + word_of_nat a)) = Inr (byte (i + a))"
      using Suc.prems(2) by (simp add: reads_def flip: of_nat_add)
    let ?s = "say [[printable (byte (i + a))]] s"
    have "hexdump_ascii addr (word_of_nat n) (word_of_nat i) [Suc a..<16] ?s =
        Inr (say [concat (map (ascii_text n byte i) [Suc a..<16])] ?s)"
      using Suc.hyps(2) Suc.prems(2) a by (intro Suc.hyps(1)) simp_all
    moreover have "hexdump_ascii addr (word_of_nat n) (word_of_nat i) [a..<16] s =
        hexdump_ascii addr (word_of_nat n) (word_of_nat i) [Suc a..<16] ?s"
      using a r True v by (simp add: upt_conv_Cons)
    moreover have "say [concat (map (ascii_text n byte i) [Suc a..<16])] ?s = say [concat (map (ascii_text n byte i) [a..<16])] s"
      using True unfolding upt_conv_Cons [OF a] by (simp add: say_def terminal_print_def ascii_text_def [of n byte i a])
    ultimately show ?thesis by simp
  next
    case False
    then have c: "concat (map (ascii_text n byte i) [a..<16]) = []" by (simp add: ascii_text_def)
    have "hexdump_ascii addr (word_of_nat n) (word_of_nat i) [a..<16] s = Inr s"
      using a r False by (simp add: upt_conv_Cons)
    then show ?thesis unfolding c by simp
  qed
qed

lemma rows_text:
  assumes "reads s addr n byte" "n < 0x1000" "i < 0x1000"
  shows "hexdump_row addr (word_of_nat n) (word_of_nat i) s =
      Inr (say [row_text (shell_hex (addr + word_of_nat i)) n byte i] s)"
    "stack_row addr (word_of_nat n) (word_of_nat i) s =
      Inr (say [row_text (hex_string (addr + word_of_nat i)) n byte i] s)"
  unfolding hexdump_row_def stack_row_def Let_def
  using assms
  by (simp_all add: bytes_text [of _ addr n byte i 0] chars_text [of _ addr n byte i 0] say_twice del: upt_rec_numeral)
    (simp_all add: row_text_def say_def del: upt_rec_numeral)

section \<open>What a dump shows\<close>

definition dump_text :: "(u32 \<Rightarrow> string) \<Rightarrow> u32 \<Rightarrow> nat \<Rightarrow> (nat \<Rightarrow> u8) \<Rightarrow> nat \<Rightarrow> string" where
  "dump_text address addr n byte k =
     concat (map (\<lambda>q. row_text (address (addr + word_of_nat (16 * q))) n byte (16 * q)) [k..<(n + 15) div 16])"

lemma more_rows: "16 * k < n \<longleftrightarrow> k < (n + 15) div 16" for n k :: nat
  by linarith

lemma index_below:
  assumes "16 * k < n + 16" "n < 0x800"
  shows "(word_of_nat (16 * k) :: u32) < word_of_nat n \<longleftrightarrow> k < (n + 15) div 16"
    "(word_of_nat (16 * k) + 16 :: u32) = word_of_nat (16 * Suc k)"
proof -
  have "unat (word_of_nat (16 * k) :: u32) = 16 * k" "unat (word_of_nat n :: u32) = n"
    using assms by (simp_all add: unat_word_of_nat_u32 del: of_nat_mult)
  then show "(word_of_nat (16 * k) :: u32) < word_of_nat n \<longleftrightarrow> k < (n + 15) div 16"
    by (simp only: word_less_nat_alt more_rows)
qed simp

lemma dump_from:
  fixes s :: "'a machine_scheme"
  assumes "reads s addr n byte" "n < 0x800" "16 * k < n + 16"
  shows "hexdump_from addr (word_of_nat n) (word_of_nat (16 * k)) s =
      Some (Inr (say [dump_text shell_hex addr n byte k] s)) \<and>
    stack_dump_from addr (word_of_nat n) (word_of_nat (16 * k)) s =
      Some (Inr (say [dump_text hex_string addr n byte k] s))"
  using assms(1,3)
proof (induction "(n + 15) div 16 - k" arbitrary: k s)
  case 0
  then have k: "\<not> k < (n + 15) div 16" by simp
  then have "dump_text a addr n byte k = []" for a by (simp add: dump_text_def)
  then show ?case
    using k index_below(1) [OF 0(3) assms(2)]
    by (simp add: hexdump_from.simps [of addr "word_of_nat n" "word_of_nat (16 * k)" s]
        stack_dump_from.simps [of addr "word_of_nat n" "word_of_nat (16 * k)" s] del: of_nat_mult)
next
  case (Suc d)
  then have k: "k < (n + 15) div 16" by simp
  have "16 * k < n" using k by (simp only: more_rows)
  then have l: "16 * k < 0x1000" "16 * Suc k < n + 16" using assms(2) by simp_all
  note x = index_below [OF Suc.prems(2) assms(2)]
  have dt: "dump_text a addr n byte k =
      row_text (a (addr + word_of_nat (16 * k))) n byte (16 * k) @ dump_text a addr n byte (Suc k)" for a
    unfolding dump_text_def upt_conv_Cons [OF k] by simp
  have rows: "say [dump_text a addr n byte (Suc k)] (say [row_text (a (addr + word_of_nat (16 * k))) n byte (16 * k)] s) =
      say [dump_text a addr n byte k] s" for a
    unfolding dt by (simp add: say_def terminal_print_def)
  have n: "n < 0x1000" using assms(2) by simp
  have e: "d = (n + 15) div 16 - Suc k" using Suc.hyps(2) by simp
  have IH: "hexdump_from addr (word_of_nat n) (word_of_nat (16 * Suc k)) t =
      Some (Inr (say [dump_text shell_hex addr n byte (Suc k)] t)) \<and>
    stack_dump_from addr (word_of_nat n) (word_of_nat (16 * Suc k)) t =
      Some (Inr (say [dump_text hex_string addr n byte (Suc k)] t))"
    if "reads t addr n byte" for t :: "'a machine_scheme"
    by (rule Suc.hyps(1) [OF e that l(2)])
  show ?case
    unfolding hexdump_from.simps [of addr "word_of_nat n" "word_of_nat (16 * k)" s]
      stack_dump_from.simps [of addr "word_of_nat n" "word_of_nat (16 * k)" s] rows_text [OF Suc.prems(1) n l(1)] x
    using k IH Suc.prems(1) rows by simp
qed


definition dump_demo :: machine where
  "dump_demo = \<lparr>mem = (\<lambda>a. if a = 0x1000 then 0x41 else 0x07), cr0 = 0, cr3 = 0, tlb = Map.empty, frames = one_free, con = []\<rparr>"


end
