(* ===== verification/Kernel.thy ===== *)
theory Kernel
  imports Shell_System Shell_Tests Keyboard_Boot Memory_Dump PMM_Boot
begin

unbundle bit_operations_syntax

text \<open>
  The kernel as a whole: the records of the components joined, the shell from reading a line to
  running its command (\<open>kernel/src/shell.c\<close>), and \<open>kernel_main\<close> (\<open>kernel/src/main.c\<close>).
\<close>

section \<open>State\<close>

text \<open>
  What is not C: the devices, the code at addresses the sources do not name, the registers where
  assembly reads them, the addresses the linker assigns, and the memory map of the boot loader.
\<close>

record env =
  e_dev :: device
  e_signal :: "u32 \<Rightarrow> i32 \<Rightarrow> u32 \<Rightarrow> u32 \<Rightarrow> shsig \<Rightarrow> shsig"
  e_syscall :: "u32 \<Rightarrow> u32 \<Rightarrow> u32 \<Rightarrow> u32 \<Rightarrow> u32 \<Rightarrow> shsys \<Rightarrow> shsys call_result"
  e_handler :: "interrupt_handler_ptr \<Rightarrow> cpu_registers \<Rightarrow> shsys \<Rightarrow> (cpu_registers \<times> shsys) outcome"
  e_user :: "u32 \<Rightarrow> nat \<Rightarrow> i32 \<Rightarrow> u32 \<Rightarrow> shsys \<Rightarrow> shsys"
  e_process :: "nat \<Rightarrow> shsys \<Rightarrow> shsys outcome"
  e_context :: process_context
  e_regs :: cpu_registers
  e_kernel_start :: u32
  e_kernel_end :: u32
  e_kpd :: u32
  e_kpt :: u32
  e_stubs :: "u32 list"
  e_isr128 :: u32
  e_idt :: u32
  e_stack_bottom :: u32
  e_stack_top :: u32
  e_mmap :: "u32 \<Rightarrow> multiboot_mmap_entry"

text \<open>
  The variables of all components. Memory, paging registers and frames are those of \<open>k_mem\<close>, the
  table and queue of kernel signals those of \<open>k_kbd\<close>; \<open>k_sys\<close> and \<open>k_sig\<close> are brought up to date
  whenever one of their operations runs. Each of \<open>k_sys\<close>, \<open>k_kbd\<close> and \<open>k_term\<close> has the flags and
  the trace of the ports of its own devices.
\<close>

record kernel =
  k_mem :: shmem
  k_sys :: shsys
  k_kbd :: "kernel_callback kbdsys"
  k_sig :: shsig
  k_gdt :: gdtsys
  k_term :: "kernel_callback panicsys"
  g_multiboot_info :: "multiboot_info option"

definition system_of :: "kernel \<Rightarrow> shsys" where
  "system_of k = paging.extend (paging.truncate (k_mem k)) (paging.more (k_sys k))"

definition signals_of :: "kernel \<Rightarrow> shsig" where
  "signals_of k = sigsys.extend (sigsys.truncate (k_kbd k)) (sigsys.more (k_sig k))"

text \<open>\<open>terminal_write\<close>, and the text an operation has left on the console of its record.\<close>

definition tell :: "env \<Rightarrow> string \<Rightarrow> kernel \<Rightarrow> kernel outcome" where
  "tell e str k =
     obind (of_walk (terminal_write (e_dev e) (cstr str) (k_term k))) (\<lambda>t. Inr (k\<lparr>k_term := t\<rparr>))"

definition on_memory :: "env \<Rightarrow> (shmem \<Rightarrow> shmem outcome) \<Rightarrow> kernel \<Rightarrow> kernel outcome" where
  "on_memory e f k =
     obind (f ((k_mem k)\<lparr>con := []\<rparr>)) (\<lambda>m. tell e (con m) (k\<lparr>k_mem := m\<lparr>con := []\<rparr>\<rparr>))"

definition on_system :: "env \<Rightarrow> (shsys \<Rightarrow> shsys outcome) \<Rightarrow> kernel \<Rightarrow> kernel outcome" where
  "on_system e f k =
     obind (f ((system_of k)\<lparr>con := []\<rparr>)) (\<lambda>s.
     tell e (con s) (k\<lparr>k_sys := s, k_mem := (paging.extend (paging.truncate s) (paging.more (k_mem k)))\<lparr>con := []\<rparr>\<rparr>))"

definition on_signals :: "env \<Rightarrow> (shsig \<Rightarrow> shsig option) \<Rightarrow> kernel \<Rightarrow> kernel outcome" where
  "on_signals e f k =
     obind (of_walk (f ((signals_of k)\<lparr>sg_con := []\<rparr>))) (\<lambda>g.
     tell e (sg_con g) (k\<lparr>k_sig := g, k_kbd := sigsys.extend (sigsys.truncate g) (sigsys.more (k_kbd k))\<rparr>))"

definition on_terminal :: "(kernel_callback panicsys \<Rightarrow> kernel_callback panicsys) \<Rightarrow> kernel \<Rightarrow> kernel" where
  "on_terminal f k = k\<lparr>k_term := f (k_term k)\<rparr>"

section \<open>Waiting\<close>

text \<open>
  The device interrupts that may arrive while the kernel polls, with what the dispatch of their
  vectors does: the handler, then the acknowledgement.
\<close>

datatype irq = Key u8 | Tick

fun interrupt :: "env \<Rightarrow> irq \<Rightarrow> kernel \<Rightarrow> kernel" where
  "interrupt e (Key scancode) k =
     k\<lparr>k_kbd := keyboard_handler scancode (k_kbd k), k_sys := on_idt (pic_send_eoi 1) (k_sys k)\<rparr>"
| "interrupt e Tick k = k\<lparr>k_sys := on_idt (pic_send_eoi 0) (timer_interrupt (e_regs e) (k_sys k))\<rparr>"

definition dispatch_signals :: "env \<Rightarrow> kernel \<Rightarrow> kernel outcome" where
  "dispatch_signals e k =
     on_signals e (\<lambda>g. map_option snd (signal_dispatch_pending (callback (e_signal e)) g)) k"

definition run_pending :: "env \<Rightarrow> u32 \<Rightarrow> kernel \<Rightarrow> kernel outcome" where
  "run_pending e n k =
     on_system e (\<lambda>s. obind (scheduler_run_pending (e_user e) (demo_run (e_process e) (e_context e)) (e_context e) n s)
       (\<lambda>(_, s). Inr s)) k"

section \<open>The shell\<close>

text \<open>
  One pass of the loop in \<open>shell_getchar\<close>: a character from the serial line, else from the keyboard,
  whose scroll keys only move the view.
\<close>

definition serial_char :: "env \<Rightarrow> kernel \<Rightarrow> (u8 option \<times> kernel) outcome" where
  "serial_char e k =
     (let (ready, t) = serial_has_data (e_dev e) (k_term k) in
      if ready then
        obind (of_walk (serial_read_char (e_dev e) t)) (\<lambda>(c, t).
        Inr (if c = CHAR_RETURN \<or> c = CHAR_NEWLINE then Some CHAR_NEWLINE
             else if c = CHAR_BACKSPACE \<or> c = 0x7F then Some CHAR_BACKSPACE
             else if c = 0x09 \<or> (32 \<le> c \<and> c < 127) then Some c
             else None, k\<lparr>k_term := t\<rparr>))
      else Inr (None, k\<lparr>k_term := t\<rparr>))"

definition keyboard_char :: "kernel \<Rightarrow> u8 option \<times> kernel" where
  "keyboard_char k =
     (let (c, b) = keyboard_try_read_char (k_kbd k);
          k = k\<lparr>k_kbd := b\<rparr>
      in case c of
           None \<Rightarrow> (None, k)
         | Some c \<Rightarrow>
             if c = KEY_PAGE_UP then (None, on_terminal (terminal_scroll_up 24) k)
             else if c = KEY_PAGE_DOWN then (None, on_terminal (terminal_scroll_down 24) k)
             else if c = KEY_ARROW_UP \<and> keyboard_shift_held (k_kbd k) then (None, on_terminal (terminal_scroll_up 1) k)
             else if c = KEY_ARROW_DOWN \<and> keyboard_shift_held (k_kbd k) then (None, on_terminal (terminal_scroll_down 1) k)
             else (Some c, k))"

text \<open>
  \<open>shell_getchar\<close> with the interrupts that arrive before each pass of its loop. \<open>Inr None\<close>: it is still
  polling after these.
\<close>

fun shell_getchar :: "env \<Rightarrow> irq list list \<Rightarrow> kernel \<Rightarrow> (u8 \<times> irq list list \<times> kernel) option outcome" where
  "shell_getchar e [] k = Inr None"
| "shell_getchar e (irqs # polls) k =
     obind (dispatch_signals e (fold (interrupt e) irqs k)) (\<lambda>k.
     obind (run_pending e 1 k) (\<lambda>k.
     obind (serial_char e k) (\<lambda>(c, k).
     case c of
       Some c \<Rightarrow> Inr (Some (c, polls, k))
     | None \<Rightarrow>
         (case keyboard_char k of
            (Some c, k) \<Rightarrow> Inr (Some (c, polls, k))
          | (None, k) \<Rightarrow> shell_getchar e polls k))))"

lemma obind_InrE: "obind r f = Inr y \<Longrightarrow> (\<And>x. f x = Inr y \<Longrightarrow> P) \<Longrightarrow> P"
  by (cases r) simp_all

lemma shell_getchar_rest:
  "shell_getchar e polls k = Inr (Some (c, rest, k')) \<Longrightarrow> length rest < length polls"
proof (induction polls arbitrary: k)
  case (Cons irqs polls)
  from Cons.prems show ?case
    unfolding shell_getchar.simps
    by (elim obind_InrE) (auto dest: Cons.IH split: option.splits prod.splits)
qed simp

text \<open>The loop of \<open>shell_run\<close> that reads a line into \<open>buffer\<close>.\<close>

abbreviation (input) SHELL_BUFFER_SIZE :: u32 where "SHELL_BUFFER_SIZE \<equiv> 256"

definition put :: "env \<Rightarrow> u8 \<Rightarrow> kernel \<Rightarrow> kernel outcome" where
  "put e c k = obind (of_walk (terminal_putchar (e_dev e) c (k_term k))) (\<lambda>t. Inr (k\<lparr>k_term := t\<rparr>))"

function shell_line ::
  "env \<Rightarrow> u8 list \<Rightarrow> u32 \<Rightarrow> irq list list \<Rightarrow> kernel \<Rightarrow> (u8 list \<times> irq list list \<times> kernel) option outcome" where
  "shell_line e buffer pos polls k =
     (case shell_getchar e polls k of
        Inl err \<Rightarrow> Inl err
      | Inr None \<Rightarrow> Inr None
      | Inr (Some (c, rest, k)) \<Rightarrow>
          if c = CHAR_BACKSPACE then
            if 0 < pos then obind (put e CHAR_BACKSPACE k) (shell_line e buffer (pos - 1) rest)
            else shell_line e buffer pos rest k
          else if c = CHAR_NEWLINE then
            obind (put e CHAR_NEWLINE k) (\<lambda>k. Inr (Some (buffer[unat pos := 0], rest, k)))
          else if pos < SHELL_BUFFER_SIZE - 1 then
            obind (put e c k) (shell_line e (buffer[unat pos := c]) (pos + 1) rest)
          else shell_line e buffer pos rest k)"
  by pat_completeness auto
termination
  by (relation "measure (\<lambda>(e, buffer, pos, polls, k). length polls)") (auto dest: shell_getchar_rest)

declare shell_line.simps [simp del]

text \<open>
  The command of a line. \<open>clear\<close> starts the terminal anew; \<open>exit\<close> is left to the loop.
\<close>

definition pure :: "('a \<Rightarrow> 'a) \<Rightarrow> 'a \<Rightarrow> 'a outcome" where
  "pure f s = Inr (f s)"

definition shell_execute :: "env \<Rightarrow> shell_command \<Rightarrow> kernel \<Rightarrow> kernel outcome" where
  "shell_execute e c k =
     (let mem_cmd = on_memory e;
          sys_cmd = on_system e;
          run = demo_run (e_process e) (e_context e)
      in case c of
        Cmd_help \<Rightarrow> mem_cmd (pure cmd_help) k
      | Cmd_echo args \<Rightarrow> mem_cmd (pure (cmd_echo args)) k
      | Cmd_clear \<Rightarrow> Inr (on_terminal terminal_initialize k)
      | Cmd_ls \<Rightarrow> mem_cmd (pure cmd_ls) k
      | Cmd_meminfo \<Rightarrow> mem_cmd cmd_meminfo k
      | Cmd_alloc args \<Rightarrow> mem_cmd (cmd_alloc args) k
      | Cmd_free \<Rightarrow> mem_cmd cmd_free k
      | Cmd_kheap \<Rightarrow> mem_cmd kmalloc_dump k
      | Cmd_vmap \<Rightarrow> mem_cmd cmd_vmap k
      | Cmd_panic \<Rightarrow> mem_cmd cmd_panic k
      | Cmd_hexdump args \<Rightarrow> mem_cmd (cmd_hexdump args) k
      | Cmd_peek args \<Rightarrow> mem_cmd (cmd_peek args) k
      | Cmd_poke args \<Rightarrow> mem_cmd (cmd_poke args) k
      | Cmd_stack \<Rightarrow> mem_cmd (shell_dump_stack (esp (e_regs e)) (ebp (e_regs e))) k
      | Cmd_pagedir \<Rightarrow> mem_cmd cmd_pagedir k
      | Cmd_idt \<Rightarrow> sys_cmd (pure cmd_idt) k
      | Cmd_signals \<Rightarrow> on_signals e (\<lambda>g. Some (cmd_signals g)) k
      | Cmd_sigtest \<Rightarrow> on_signals e (cmd_sigtest (e_signal e)) k
      | Cmd_syscall \<Rightarrow> sys_cmd (cmd_syscall (e_syscall e) (e_handler e) (e_regs e)) k
      | Cmd_procs \<Rightarrow> sys_cmd cmd_procs k
      | Cmd_execdemo \<Rightarrow> sys_cmd cmd_execdemo k
      | Cmd_sched args \<Rightarrow> sys_cmd (cmd_sched (e_user e) run (e_context e) args) k
      | Cmd_forkdemo args \<Rightarrow> sys_cmd (cmd_forkdemo args) k
      | Cmd_waitproc args \<Rightarrow> sys_cmd (cmd_waitproc args) k
      | Cmd_killproc args \<Rightarrow> sys_cmd (cmd_killproc args) k
      | Cmd_sigproc args \<Rightarrow> sys_cmd (cmd_sigproc args) k
      | Cmd_getuid args \<Rightarrow> sys_cmd (cmd_getuid args) k
      | Cmd_mmapproc args \<Rightarrow> sys_cmd (cmd_mmapproc args) k
      | Cmd_sockdemo \<Rightarrow> sys_cmd (cmd_sockdemo (e_user e) run (e_context e)) k
      | Cmd_pagetest \<Rightarrow> mem_cmd cmd_pagetest k
      | Cmd_pageperm \<Rightarrow> mem_cmd cmd_pageperm k
      | Cmd_pmmtest \<Rightarrow> mem_cmd (pure cmd_pmmtest) k
      | Cmd_vmtest \<Rightarrow> mem_cmd cmd_vmtest k
      | Cmd_heaptest \<Rightarrow> mem_cmd cmd_heaptest k
      | Cmd_div0 \<Rightarrow> sys_cmd (cmd_div0 (e_syscall e) (e_handler e) (e_regs e)) k
      | Cmd_invop \<Rightarrow> sys_cmd (cmd_invop (e_syscall e) (e_handler e) (e_regs e)) k
      | Cmd_segreg \<Rightarrow> mem_cmd (pure (cmd_segreg (segs (k_gdt k)))) k
      | Cmd_int3 \<Rightarrow> sys_cmd (cmd_int3 (e_syscall e) (e_handler e) (e_regs e)) k
      | Cmd_reboot \<Rightarrow> sys_cmd (pure cmd_reboot) k
      | Cmd_exit \<Rightarrow> Inr k
      | Cmd_unknown \<Rightarrow> tell e (line (''Command not found. Type '' @ [CHR 0x27] @ ''help'' @ [CHR 0x27] @ '' for commands.'')) k
      | Cmd_none \<Rightarrow> Inr k)"

text \<open>The bytes of the buffer up to the terminating zero.\<close>

definition command_of :: "u8 list \<Rightarrow> string" where
  "command_of buffer = map (\<lambda>c. char_of (unat c)) (takeWhile (\<lambda>c. c \<noteq> 0) buffer)"

lemma shell_line_rest:
  "shell_line e buffer pos polls k = Inr (Some (b, rest, k')) \<Longrightarrow> length rest < length polls"
proof (induction polls arbitrary: buffer pos k rule: length_induct)
  case (1 polls)
  show ?case
  proof (cases "shell_getchar e polls k")
    case (Inr r)
    then obtain c q k1 where g: "shell_getchar e polls k = Inr (Some (c, q, k1))"
      using 1(2) by (cases r) (auto simp: shell_line.simps [of e buffer pos polls k])
    have l: "length q < length polls" by (rule shell_getchar_rest [OF g])
    have "shell_line e buffer' pos' q k2 = Inr (Some (b, rest, k')) \<Longrightarrow> length rest < length polls" for buffer' pos' k2
      using 1(1) l by (meson less_trans)
    then show ?thesis
      using 1(2) l unfolding shell_line.simps [of e buffer pos polls k] g
      by (auto split: if_splits elim!: obind_InrE)
  qed (use 1(2) in \<open>simp add: shell_line.simps [of e buffer pos polls k]\<close>)
qed

function shell_run :: "env \<Rightarrow> u8 list \<Rightarrow> irq list list \<Rightarrow> kernel \<Rightarrow> (irq list list \<times> kernel) option outcome" where
  "shell_run e buffer polls k =
     obind (tell e ''shell> '' k) (\<lambda>k.
     case shell_line e buffer 0 polls k of
       Inl err \<Rightarrow> Inl err
     | Inr None \<Rightarrow> Inr None
     | Inr (Some (buffer, rest, k)) \<Rightarrow>
         let c = shell_select (command_of buffer) in
         if c = Cmd_exit then obind (tell e (line ''Exiting shell...'') k) (\<lambda>k. Inr (Some (rest, k)))
         else obind (shell_execute e c k) (\<lambda>k. obind (run_pending e 2 k) (shell_run e buffer rest)))"
  by pat_completeness auto
termination
  by (relation "measure (\<lambda>(e, buffer, polls, k). length polls)") (auto dest: shell_line_rest)

declare shell_run.simps [simp del]

section \<open>\<open>kernel_main\<close>\<close>

abbreviation (input) MULTIBOOT_BOOTLOADER_MAGIC :: u32 where "MULTIBOOT_BOOTLOADER_MAGIC \<equiv> 0x2BADB002"

definition load_gdt :: "kernel \<Rightarrow> kernel" where
  "load_gdt k =
     (let g = init_gdt ((k_gdt k)\<lparr>gdt_mem := mem (k_mem k)\<rparr>)
      in k\<lparr>k_gdt := g, k_mem := (k_mem k)\<lparr>mem := gdt_mem g\<rparr>\<rparr>)"

definition boot_console :: "env \<Rightarrow> kernel \<Rightarrow> kernel outcome" where
  "boot_console e k =
     (let k = on_terminal serial_init k;
          k = on_terminal terminal_initialize k;
          k = load_gdt k;
          k = on_terminal print_header k;
          k = on_terminal (\<lambda>t. t\<lparr>terminal_color := vga_entry_color VGA_COLOR_WHITE VGA_COLOR_BLACK\<rparr>) k
      in obind (tell e (line [] @ line ''Welcome to KFS-5!'') k)
           (tell e (line ''42 School Kernel From Scratch - v5.0'' @ line [])))"

definition boot_interrupts :: "env \<Rightarrow> kernel \<Rightarrow> kernel outcome" where
  "boot_interrupts e k =
     obind (tell e (line ''Initializing Interrupt Descriptor Table...'') k) (\<lambda>k.
     let k = k\<lparr>k_sys := on_idt (idt_init (e_dev e) (e_stubs e) (e_isr128 e) (e_idt e)) (k_sys k)\<rparr> in
     obind (tell e (line ''  IDT ready (PIC remapped)'') k) (\<lambda>k.
     obind (tell e (line ''Initializing Signal Callback Interface...'') k) (\<lambda>k.
     let k = k\<lparr>k_kbd := signals_init (k_kbd k)\<rparr> in
     obind (tell e (line ''  Signal scheduler ready'') k) (\<lambda>k.
     obind (tell e (line ''Initializing Syscall Interface...'') k) (\<lambda>k.
     let k = k\<lparr>k_sys := syscall_init (k_sys k)\<rparr> in
     tell e (line ''  int 0x80 handler ready'') k)))))"

definition boot_memory :: "env \<Rightarrow> multiboot_info \<Rightarrow> kernel \<Rightarrow> kernel outcome" where
  "boot_memory e mbi k =
     obind (tell e (line ''Initializing Physical Memory Manager...'') k) (\<lambda>k.
     obind (of_walk (pmm_init (e_kernel_start e) (e_kernel_end e) (e_mmap e) mbi)) (\<lambda>p.
     let k = k\<lparr>k_mem := (k_mem k)\<lparr>frames := p\<rparr>\<rparr> in
     obind (tell e (''  Total memory: '' @ memory_size (pmm_get_total_memory p) @ line [] @ ''  Free memory: '' @
       memory_size (pmm_get_free_memory p) @ line []) k) (\<lambda>k.
     obind (tell e (line ''Initializing Paging...'') k) (\<lambda>k.
     obind (on_memory e (paging_init (e_kpd e) (e_kpt e)) k) (\<lambda>k.
     obind (tell e (line ''  Paging enabled (identity mapping)'') k) (\<lambda>k.
     obind (tell e (line ''Initializing Kernel Heap...'') k) (\<lambda>k.
     obind (on_memory e (pure (kmalloc_init (e_kernel_end e))) k) (\<lambda>k.
     obind (tell e (line ''  Kernel heap ready'') k) (\<lambda>k.
     obind (tell e (line ''Initializing Virtual Memory Allocator...'') k) (\<lambda>k.
     obind (on_memory e (pure vmalloc_init) k) (\<lambda>k.
     tell e (line ''  VMalloc ready'') k)))))))))))"

definition boot_processes :: "env \<Rightarrow> kernel \<Rightarrow> kernel outcome" where
  "boot_processes e k =
     obind (tell e (line ''Initializing Process Interface...'') k) (\<lambda>k.
     obind (on_system e process_init k) (\<lambda>k.
     obind (tell e (line ''  Kernel process ready'') k) (\<lambda>k.
     obind (tell e (line ''Initializing Multitasking Scheduler...'') k) (\<lambda>k.
     obind (on_system e (pure scheduler_init) k) (\<lambda>k.
     obind (on_system e (pure (timer_init (e_dev e) 50)) k) (\<lambda>k.
     obind (tell e (line ''  Scheduler and CPU tick ready'') k) (\<lambda>k.
     tell e (line [] @ line ''Memory initialization complete!'') k)))))))"

definition start_keyboard :: "env \<Rightarrow> kernel \<Rightarrow> kernel outcome" where
  "start_keyboard e k =
     obind (of_walk (init_keyboard (e_dev e) (kbdsys.extend (k_kbd k) (kbdio.fields (idt (k_sys k)))))) (\<lambda>b.
     Inr (k\<lparr>k_kbd := kbdsys.truncate b, k_sys := on_idt (\<lambda>_. kb_idt b) (k_sys k)\<rparr>))"

text \<open>\<open>sti\<close>: the interrupt flag of the processor, in every copy.\<close>

definition enable_interrupts :: "kernel \<Rightarrow> kernel" where
  "enable_interrupts k =
     k\<lparr>k_sys := (on_idt interrupts_enable (k_sys k))\<lparr>pcpu := interrupts_enable (pcpu (k_sys k))\<rparr>,
       k_kbd := (k_kbd k)\<lparr>sg_cpu := interrupts_enable (sg_cpu (k_kbd k))\<rparr>,
       k_term := interrupts_enable (k_term k)\<rparr>"

definition boot_input :: "env \<Rightarrow> kernel \<Rightarrow> kernel outcome" where
  "boot_input e k =
     obind (tell e (line ''Printing kernel stack info:'') k) (\<lambda>k.
     obind (on_memory e (print_kernel_stack (e_stack_bottom e) (e_stack_top e) (esp (e_regs e)) (ebp (e_regs e))) k) (\<lambda>k.
     obind (tell e (line [] @ ''Press any key to continue...'') k) (\<lambda>k.
     obind (tell e (line ''Initializing IDT keyboard handling...'') k) (\<lambda>k.
     obind (start_keyboard e k) (\<lambda>k.
     obind (tell e (line ''  Keyboard IRQ1 ready'') k) (\<lambda>k.
     obind (tell e (line ''Enabling interrupts...'') k) (\<lambda>k.
     let k = enable_interrupts k in
     tell e (line ''  Interrupts enabled'') k)))))))"

text \<open>Waiting for the first key, with the interrupts before each pass.\<close>

fun wait_input :: "env \<Rightarrow> irq list list \<Rightarrow> kernel \<Rightarrow> (irq list list \<times> kernel) option outcome" where
  "wait_input e [] k = Inr None"
| "wait_input e (irqs # polls) k =
     (let k = fold (interrupt e) irqs k in
      if keyboard_has_char (k_kbd k) then Inr (Some (polls, k))
      else
        let (ready, t) = serial_has_data (e_dev e) (k_term k);
            k = k\<lparr>k_term := t\<rparr>
        in if ready then Inr (Some (polls, k))
           else obind (dispatch_signals e k) (\<lambda>k. obind (run_pending e 1 k) (wait_input e polls)))"

definition take_input :: "env \<Rightarrow> kernel \<Rightarrow> kernel option outcome" where
  "take_input e k =
     (let (ready, t) = serial_has_data (e_dev e) (k_term k);
          k = k\<lparr>k_term := t\<rparr>
      in if ready then obind (of_walk (serial_read_char (e_dev e) t)) (\<lambda>(_, t). Inr (Some (k\<lparr>k_term := t\<rparr>)))
         else
           case keyboard_getchar [] (k_kbd k) of
             None \<Rightarrow> Inr None
           | Some (_, _, b) \<Rightarrow> Inr (Some (k\<lparr>k_kbd := b\<rparr>)))"

text \<open>What follows the first key; \<open>buffer\<close> are the bytes on the stack where the shell has its buffer.\<close>

definition run_shell ::
  "env \<Rightarrow> u8 list \<Rightarrow> irq list list \<Rightarrow> kernel \<Rightarrow> (cpu_registers \<times> kernel) option outcome" where
  "run_shell e buffer polls k =
     (let k = on_terminal print_header (on_terminal terminal_initialize k) in
      obind (tell e (line [] @ line (''Type '' @ [CHR 0x27] @ ''help'' @ [CHR 0x27] @ '' for available commands.'') @ line []) k) (\<lambda>k.
      obind (shell_run e buffer polls k) (\<lambda>r.
      case r of
        None \<Rightarrow> Inr None
      | Some (_, k) \<Rightarrow>
          obind (tell e (line [] @ line [] @ line ''System halted.'') k) (\<lambda>k.
          let t = panic_save_context (mem (k_mem k)) (e_stack_bottom e) (e_stack_top e) (e_regs e) None (k_term k);
              (r, t) = panic_clean_registers_and_halt (e_regs e) t
          in Inr (Some (r, k\<lparr>k_term := t\<rparr>))))))"

definition boot :: "env \<Rightarrow> u32 \<Rightarrow> multiboot_info \<Rightarrow> kernel \<Rightarrow> kernel outcome" where
  "boot e magic mbi k =
     obind (boot_console e k) (\<lambda>k.
     if magic \<noteq> MULTIBOOT_BOOTLOADER_MAGIC then Inl (Panic ''Invalid multiboot magic number!'')
     else
       obind (boot_interrupts e (k\<lparr>g_multiboot_info := Some mbi\<rparr>)) (\<lambda>k.
       obind (boot_memory e mbi k) (\<lambda>k.
       obind (boot_processes e k) (boot_input e))))"

text \<open>\<open>Inr None\<close>: the kernel is still waiting for input after these polls.\<close>

definition kernel_main ::
  "env \<Rightarrow> u32 \<Rightarrow> multiboot_info \<Rightarrow> u8 list \<Rightarrow> irq list list \<Rightarrow> kernel \<Rightarrow> (cpu_registers \<times> kernel) option outcome" where
  "kernel_main e magic mbi buffer polls k =
     obind (boot e magic mbi k) (\<lambda>k.
     obind (wait_input e polls k) (\<lambda>r.
     case r of
       None \<Rightarrow> Inr None
     | Some (polls, k) \<Rightarrow>
         obind (take_input e k) (\<lambda>r.
         case r of
           None \<Rightarrow> Inr None
         | Some k \<Rightarrow> run_shell e buffer polls k)))"

definition get_multiboot_info :: "kernel \<Rightarrow> multiboot_info option" where
  "get_multiboot_info k = g_multiboot_info k"

end
