(* ===== verification/Kernel_Boot.thy ===== *)
theory Kernel_Boot
  imports Kernel Vmalloc_Claims
begin

unbundle bit_operations_syntax

text \<open>
  The start of the kernel: \<open>kernel_main\<close> up to the point where it waits for the first key brings
  every component into the state its invariant asks for.
\<close>

section \<open>Steps that return\<close>

definition ends :: "('a \<Rightarrow> bool) \<Rightarrow> 'a outcome \<Rightarrow> bool" where
  "ends P r \<longleftrightarrow> (\<exists>x. r = Inr x \<and> P x)"

lemma ends_Inr [simp]: "ends P (Inr x) \<longleftrightarrow> P x" and ends_Inl [simp]: "\<not> ends P (Inl err)"
  by (simp_all add: ends_def)

lemma ends_bind: "ends P r \<Longrightarrow> (\<And>x. P x \<Longrightarrow> ends Q (f x)) \<Longrightarrow> ends Q (obind r f)"
  by (auto simp: ends_def)

lemma ends_mono: "ends P r \<Longrightarrow> (\<And>x. P x \<Longrightarrow> Q x) \<Longrightarrow> ends Q r"
  by (auto simp: ends_def)

text \<open>A terminal in order, and a kernel that differs from another only in its terminal, which is in order.\<close>

definition term_ok :: "'a terminal_scheme \<Rightarrow> bool" where
  "term_ok s \<longleftrightarrow> (\<exists>t. screen_ok t s)"

lemma write_returns:
  assumes "line_live dev" "term_ok s"
  shows "\<exists>s'. terminal_write dev str s = Some s' \<and> term_ok s'"
  using assms(2)
proof (induction str arbitrary: s)
  case (Cons c str)
  then obtain t where "screen_ok t s" by (auto simp: term_ok_def)
  then obtain s1 where "terminal_putchar dev c s = Some s1" "term_ok s1"
    using putchar_ok [OF assms(1), of t s c] by (auto simp: term_ok_def)
  then show ?case using Cons.IH [of s1] Cons.prems by simp
qed simp

lemma ends_tell:
  assumes "line_live (e_dev e)" "term_ok (k_term k)" "\<And>t. term_ok t \<Longrightarrow> ends Q (f (k\<lparr>k_term := t\<rparr>))"
  shows "ends Q (obind (tell e str k) f)"
  using write_returns [OF assms(1,2), of "cstr str"] assms(3) by (auto simp: tell_def of_walk_def)

lemma ends_last_tell:
  assumes "line_live (e_dev e)" "term_ok (k_term k)" "\<And>t. term_ok t \<Longrightarrow> Q (k\<lparr>k_term := t\<rparr>)"
  shows "ends Q (tell e str k)"
  using write_returns [OF assms(1,2), of "cstr str"] assms(3) by (auto simp: tell_def of_walk_def)

text \<open>An operation on memory and what it prints.\<close>

lemma ends_memory:
  assumes "line_live (e_dev e)" "term_ok (k_term k)" "f ((k_mem k)\<lparr>con := []\<rparr>) = Inr m"
    and "\<And>t. term_ok t \<Longrightarrow> ends Q (g (k\<lparr>k_mem := m\<lparr>con := []\<rparr>, k_term := t\<rparr>))"
  shows "ends Q (obind (on_memory e f k) g)"
proof -
  have "ends Q (obind (tell e (con m) (k\<lparr>k_mem := m\<lparr>con := []\<rparr>\<rparr>)) g)"
    by (rule ends_tell [OF assms(1)]) (use assms(2,4) in simp_all)
  then show ?thesis by (simp add: on_memory_def assms(3))
qed

section \<open>Shared parts\<close>

lemma system_of_eq:
  "system_of k = (k_sys k)\<lparr>mem := mem (k_mem k), cr0 := cr0 (k_mem k), cr3 := cr3 (k_mem k), tlb := tlb (k_mem k),
     frames := frames (k_mem k), con := con (k_mem k), current_directory := current_directory (k_mem k),
     kernel_directory := kernel_directory (k_mem k)\<rparr>"
  by (cases "k_sys k"; cases "k_mem k") (simp add: system_of_def paging.defs)

lemma memory_back:
  "paging.extend (paging.truncate s) (paging.more (k_mem k)) =
     (k_mem k)\<lparr>mem := mem s, cr0 := cr0 s, cr3 := cr3 s, tlb := tlb s, frames := frames s, con := con s,
       current_directory := current_directory s, kernel_directory := kernel_directory s\<rparr>"
  by (cases "k_mem k") (simp add: paging.defs)

lemma signals_of_eq:
  "signals_of k = (k_sig k)\<lparr>sg_cpu := sg_cpu (k_kbd k), signal_handlers := signal_handlers (k_kbd k),
     pending_signals := pending_signals (k_kbd k), signal_head := signal_head (k_kbd k), signal_tail := signal_tail (k_kbd k)\<rparr>"
  by (cases "k_sig k"; cases "k_kbd k") (simp add: signals_of_def sigsys.defs)

lemma signals_back:
  "sigsys.extend (sigsys.truncate g) (sigsys.more (k_kbd k)) =
     (k_kbd k)\<lparr>sg_cpu := sg_cpu g, signal_handlers := signal_handlers g, pending_signals := pending_signals g,
       signal_head := signal_head g, signal_tail := signal_tail g\<rparr>"
  by (cases "k_kbd k") (simp add: sigsys.defs)

section \<open>Console and interrupts\<close>

lemma header_color: "terminal_color (print_header s) = terminal_color s"
proof -
  have "terminal_color (writestr_centered_from str i col row t) = terminal_color t" for str i col row and t :: "'a terminal_scheme"
    by (induction str i col row t rule: writestr_centered_from.induct) (simp_all add: terminal_putchar_at_def Let_def)
  then have "terminal_color (fold (\<lambda>i. terminal_writestr_centered (HEADER ! i) (word_of_nat i)) is s) = terminal_color s" for "is"
    by (induction "is" arbitrary: s) (simp_all add: terminal_writestr_centered_def Let_def)
  then show ?thesis by (simp add: print_header_def Let_def)
qed

lemma ends_boot_console:
  assumes "line_live (e_dev e)" "length (scroll_buffer (k_term k)) = 16000" "length (vga_memory (k_term k)) = 2000"
  shows "ends (\<lambda>k'. \<exists>t. term_ok t \<and> k' = (load_gdt k)\<lparr>k_term := t\<rparr>) (boot_console e k)"
proof -
  let ?t = "(print_header (terminal_initialize (serial_init (k_term k))))
    \<lparr>terminal_color := vga_entry_color VGA_COLOR_WHITE VGA_COLOR_BLACK\<rparr>"
  let ?s = "serial_init (k_term k)"
  have b: "banner_ok (terminal_initialize ?s)"
    using assms(2,3) by (intro initialize_banner) (simp_all add: serial_init_def Let_def outb_def)
  have "terminal_color (print_header (terminal_initialize ?s)) = vga_entry_color VGA_COLOR_WHITE VGA_COLOR_BLACK"
    by (simp add: header_color terminal_initialize_def Let_def)
  then have "?t = print_header (terminal_initialize ?s)" by simp
  then have "term_ok ?t" using print_header_ok(1) [OF b] by (simp add: term_ok_def)
  then show ?thesis
    unfolding boot_console_def Let_def
    by (intro ends_tell ends_last_tell) (use assms(1) in \<open>auto simp: on_terminal_def load_gdt_def Let_def\<close>)
qed

lemma ends_boot_interrupts:
  assumes "line_live (e_dev e)" "term_ok (k_term k)"
  shows "ends (\<lambda>k'. \<exists>t. term_ok t \<and> k' = k\<lparr>k_sys := syscall_init (on_idt (idt_init (e_dev e) (e_stubs e) (e_isr128 e) (e_idt e)) (k_sys k)),
      k_kbd := signals_init (k_kbd k), k_term := t\<rparr>) (boot_interrupts e k)"
  unfolding boot_interrupts_def Let_def
  by (intro ends_tell ends_last_tell) (use assms in auto)

section \<open>Memory\<close>

lemma vm_rep_con [simp]: "vm_rep (s\<lparr>con := c\<rparr>) xs = vm_rep s xs"
  by (simp add: vm_rep_def vm_space_def vm_list_def small_ok_def paging_ok_def table_frames_def owned_def
      heap_rep_def heap_bounds_def heap_inv_def live_def heap_frames_def heap_bytes_def)

lemma memory_views [simp]:
  "table_frames (s\<lparr>con := c\<rparr>) = table_frames s" "heap_frames (r\<lparr>con := c\<rparr>) = heap_frames r"
  by (simp_all add: table_frames_def heap_frames_def heap_bytes_def)

text \<open>Where the page tables and the heap lie.\<close>

definition memory_placed :: "env \<Rightarrow> 'a vmsys_scheme \<Rightarrow> bool" where
  "memory_placed e s \<longleftrightarrow> vm_rep s [] \<and>
     table_frames s = frm ` insert (e_kpd e) ((\<lambda>k. e_kpt e + k * 4096) ` {k. k < 4}) \<and>
     (\<forall>n \<in> heap_frames s. unat (e_kernel_end e) \<le> 4096 * n)"

lemma memory_placed_con [simp]: "memory_placed e (s\<lparr>con := c\<rparr>) = memory_placed e s"
  by (simp add: memory_placed_def)

lemma ends_boot_memory:
  assumes live: "line_live (e_dev e)" and t: "term_ok (k_term k)"
    and p: "pmm_init (e_kernel_start e) (e_kernel_end e) (e_mmap e) mbi = Some p"
    and lay: "memory_layout (e_kpd e) (e_kpt e) (e_kernel_end e) ((k_mem k)\<lparr>frames := p\<rparr>)"
  shows "ends (\<lambda>k'. term_ok (k_term k') \<and> memory_placed e (k_mem k') \<and> k_sys k' = k_sys k \<and> k_kbd k' = k_kbd k \<and>
    k_sig k' = k_sig k \<and> k_gdt k' = k_gdt k \<and> g_multiboot_info k' = g_multiboot_info k) (boot_memory e mbi k)"
proof -
  let ?s = "(k_mem k)\<lparr>frames := p, con := []\<rparr>"
  have "memory_layout (e_kpd e) (e_kpt e) (e_kernel_end e) ?s"
    using lay by (simp add: memory_layout_def paging_off_def)
  from memory_boot [OF this] obtain s1 where s1: "paging_init (e_kpd e) (e_kpt e) ?s = Inr s1"
    "memory_placed e (vmalloc_init (kmalloc_init (e_kernel_end e) s1))"
    by (auto simp: memory_placed_def)
  have c: "kmalloc_init ke (s\<lparr>con := c\<rparr>) = (kmalloc_init ke s)\<lparr>con := c\<rparr>"
    "vmalloc_init (s\<lparr>con := c\<rparr>) = (vmalloc_init s)\<lparr>con := c\<rparr>" for ke c and s :: shmem
    by (simp_all add: kmalloc_init_def vmalloc_init_def Let_def)
  show ?thesis
    unfolding boot_memory_def Let_def p of_walk_simps obind_simps
    by (rule ends_tell [OF live] ends_memory [OF live] ends_last_tell [OF live] | (simp add: t s1(1) c pure_def; fail) |
        (use s1(2) in \<open>auto simp: c pure_def\<close>; fail))+
qed

section \<open>Processes\<close>

text \<open>Clearing memory that is mapped to itself, away from the frames \<open>T\<close> the mapping depends on.\<close>

lemma memset_identity:
  fixes s :: "'a machine_scheme"
  assumes tr: "\<And>m v. \<forall>x. frm x \<in> T \<longrightarrow> m x = mem s x \<Longrightarrow> frm v < 4096 \<Longrightarrow> translate (s\<lparr>mem := m\<rparr>) v = Some v"
    and "unat p + unat n \<le> 0x1000000" "\<And>x. unat p \<le> unat x \<Longrightarrow> unat x < unat p + unat n \<Longrightarrow> frm x \<notin> T"
    and "\<forall>x. frm x \<in> T \<longrightarrow> m x = mem s x"
  shows "\<exists>m'. memset_paging p v n (s\<lparr>mem := m\<rparr>) = Inr (s\<lparr>mem := m'\<rparr>) \<and> (\<forall>x. frm x \<in> T \<longrightarrow> m' x = mem s x)"
  using assms(2-4)
proof (induction "unat n" arbitrary: p n m)
  case 0
  then have "n = 0" by (simp add: unat_eq_0)
  then show ?case using 0(4) by (auto simp: memset_paging.simps [of p v 0])
next
  case (Suc d)
  have n0: "n \<noteq> 0" using Suc.hyps(2) by auto
  then have n: "n \<noteq> 0" "unat (n - 1) = d" using Suc.hyps(2) unat_dec [of n] by simp_all
  have p: "unat (p + 1) = unat p + 1" "frm p < 4096" using Suc.prems(1) Suc.hyps(2) by (simp_all add: unat_add_exact frm_def)
  have t: "translate (s\<lparr>mem := m\<rparr>) p = Some p" by (rule tr [OF Suc.prems(3) p(2)])
  have "frm p \<notin> T" using Suc.prems(2) [of p] Suc.hyps(2) by simp
  then have m: "\<forall>x. frm x \<in> T \<longrightarrow> store8 p v m x = mem s x" using Suc.prems(3) by (auto simp: store8_def)
  have "\<exists>m'. memset_paging (p + 1) v (n - 1) (s\<lparr>mem := store8 p v m\<rparr>) = Inr (s\<lparr>mem := m'\<rparr>) \<and>
      (\<forall>x. frm x \<in> T \<longrightarrow> m' x = mem s x)"
    using Suc.prems(1,2) Suc.hyps(2) p(1) n(2) m by (intro Suc.hyps(1)) simp_all
  then show ?case using n(1) t by (simp add: memset_paging.simps [of p v n] vstore8_def)
qed

lemma reset_table: "\<exists>t. fold process_reset_memory is s = s\<lparr>process_table := t\<rparr>"
proof (induction "is" arbitrary: s)
  case Nil
  show ?case by (intro exI [of _ "process_table s"]) simp
next
  case (Cons i "is")
  obtain t where t: "process_reset_memory i s = s\<lparr>process_table := t\<rparr>"
    by (simp add: process_reset_memory_def upd_memory_def upd_def)
  from Cons [of "process_reset_memory i s"] show ?case unfolding t by (auto simp: t)
qed

text \<open>What \<open>process_init\<close> changes besides the table and the variables of the scheduler.\<close>

lemma process_init_returns:
  fixes s :: "'a procsys_scheme"
  assumes "clear_directories (s\<lparr>process_table := replicate 16 zero_process\<rparr>) =
      Inr (s\<lparr>process_table := replicate 16 zero_process, mem := m\<rparr>)"
    and "next_pid s \<noteq> 0xFFFFFFFF"
  shows "\<exists>t. process_init s = Inr (s\<lparr>mem := m, kernel_process := Some 0, next_pid := next_pid s + 1, process_table := t,
      process_head := Some 0, current_process := Some 0, scheduler_cursor := Some 0, scheduler_enabled := True,
      pending_scheduler_ticks := 0, total_scheduler_ticks := 0, total_context_switches := 0,
      scheduler_context := zero_context\<rparr>)"
proof -
  obtain t where t: "fold process_reset_memory [0..<16] (s\<lparr>process_table := replicate 16 zero_process, mem := m\<rparr>) =
      s\<lparr>process_table := replicate 16 zero_process, mem := m, process_table := t\<rparr>"
    using reset_table by blast
  show ?thesis
    unfolding process_init_def Let_def assms(1) obind_simps t
    by (simp add: upd_def upd_memory_def, rule exI, rule refl)
qed

lemma system_fields [simp]:
  "mem (system_of k) = mem (k_mem k)" "cr0 (system_of k) = cr0 (k_mem k)" "cr3 (system_of k) = cr3 (k_mem k)"
  "tlb (system_of k) = tlb (k_mem k)" "frames (system_of k) = frames (k_mem k)"
  "current_directory (system_of k) = current_directory (k_mem k)" "kernel_directory (system_of k) = kernel_directory (k_mem k)"
  "process_page_directories (system_of k) = process_page_directories (k_sys k)" "next_pid (system_of k) = next_pid (k_sys k)"
  "idt (system_of k) = idt (k_sys k)" "syscall_table (system_of k) = syscall_table (k_sys k)"
  by (simp_all add: system_of_eq)

lemma system_term [simp]: "system_of (k\<lparr>k_term := t\<rparr>) = system_of k"
  by (simp add: system_of_def)

lemma translate_cong: "cr0 s = cr0 r \<Longrightarrow> cr3 s = cr3 r \<Longrightarrow> mem s = mem r \<Longrightarrow> translate s v = translate r v"
  by (simp add: translate_def)

text \<open>The sixteen page directories of the processes: in the image, away from the tables of the kernel.\<close>

definition directories_placed :: "env \<Rightarrow> u32 \<Rightarrow> bool" where
  "directories_placed e d \<longleftrightarrow> image_layout (e_kpd e) (e_kpt e) \<and> unat (e_kernel_end e) \<le> 0x1000000 \<and>
     unat d mod 4096 = 0 \<and> unat d + 0x10000 \<le> unat (e_kernel_end e) \<and>
     (unat d + 0x10000 \<le> unat (e_kpd e) \<or> unat (e_kpd e) + 0x1000 \<le> unat d) \<and>
     (unat d + 0x10000 \<le> unat (e_kpt e) \<or> unat (e_kpt e) + 0x4000 \<le> unat d)"

lemma directories_apart:
  assumes "memory_placed e s" "directories_placed e d" "unat d \<le> unat x" "unat x < unat d + 0x10000"
  shows "frm x \<notin> table_frames s \<union> heap_frames s"
proof -
  have il: "image_layout (e_kpd e) (e_kpt e)" using assms(2) by (simp add: directories_placed_def)
  have "frm x \<noteq> frm (e_kpd e)"
    using assms(2-4) by (auto simp: directories_placed_def frm_def image_layout_def low_page_def)
  moreover have "frm x \<noteq> frm (e_kpt e + k * 4096)" if "k < 4" for k
    using assms(2-4) kernel_tables(1) [OF il that] that
    by (auto simp: directories_placed_def frm_def image_layout_def word_less_nat_alt)
  moreover have "frm x \<notin> heap_frames s"
  proof
    assume "frm x \<in> heap_frames s"
    then have "unat (e_kernel_end e) \<le> 4096 * frm x" using assms(1) by (auto simp: memory_placed_def)
    then show False using assms(2-4) by (auto simp: directories_placed_def frm_def)
  qed
  ultimately show ?thesis using assms(1) by (auto simp: memory_placed_def)
qed

lemma memory_placed_elsewhere:
  fixes s :: "'a vmsys_scheme"
  assumes "memory_placed e s" "\<And>x. frm x \<in> table_frames s \<union> heap_frames s \<Longrightarrow> m x = mem s x"
  shows "memory_placed e (s\<lparr>mem := m\<rparr>)"
proof -
  have r: "vm_rep s []" using assms(1) by (simp add: memory_placed_def)
  have "heap_frames (s\<lparr>mem := m\<rparr>) = heap_frames s" by (simp add: heap_frames_def heap_bytes_def)
  then show ?thesis
    using vm_rep_elsewhere(1,4) [OF r assms(2)] assms(1) by (simp add: memory_placed_def)
qed

lemma placed_translate:
  fixes s :: "'a vmsys_scheme"
  shows "memory_placed e s \<Longrightarrow> frm v < 4096 \<Longrightarrow> translate s v = Some v"
  using vm_rep_translate [of s "[]" v] by (simp add: memory_placed_def)

text \<open>
  The memory is placed, \<open>P\<close> holds of processes, system calls and interrupts, and nothing but these,
  memory and the terminal is other than in \<open>k0\<close>.
\<close>

definition booted :: "env \<Rightarrow> kernel \<Rightarrow> (shsys \<Rightarrow> bool) \<Rightarrow> kernel \<Rightarrow> bool" where
  "booted e k0 P k \<longleftrightarrow> term_ok (k_term k) \<and> memory_placed e (k_mem k) \<and> P ((system_of k)\<lparr>con := []\<rparr>) \<and>
     k_kbd k = k_kbd k0 \<and> k_sig k = k_sig k0 \<and> k_gdt k = k_gdt k0 \<and> g_multiboot_info k = g_multiboot_info k0"

lemma booted_tell:
  assumes "line_live (e_dev e)" "booted e k0 P k"
  shows "ends (booted e k0 P) (tell e str k)"
  by (rule ends_last_tell [OF assms(1)])
    (use assms(2) in \<open>simp_all add: booted_def\<close>)

lemma booted_system:
  assumes live: "line_live (e_dev e)" and k: "booted e k0 P k" and f: "f ((system_of k)\<lparr>con := []\<rparr>) = Inr s" and P: "P' (s\<lparr>con := []\<rparr>)"
    and m: "memory_placed e ((k_mem k)\<lparr>mem := mem s, cr0 := cr0 s, cr3 := cr3 s, tlb := tlb s, frames := frames s,
       current_directory := current_directory s, kernel_directory := kernel_directory s\<rparr>)"
  shows "ends (booted e k0 P') (on_system e f k)"
proof -
  let ?m = "(paging.extend (paging.truncate s) (paging.more (k_mem k)))\<lparr>con := []\<rparr>"
  let ?k = "k\<lparr>k_sys := s, k_mem := ?m\<rparr>"
  have "memory_placed e ?m" using m unfolding memory_back by (simp add: memory_placed_con)
  moreover have "system_of ?k = s\<lparr>con := []\<rparr>"
    by (cases s; cases "k_mem k") (simp add: system_of_def paging.defs)
  ultimately have "booted e k0 P' ?k" using k P by (simp add: booted_def)
  from booted_tell [OF live this, of "con s"] show ?thesis by (simp add: on_system_def f)
qed

lemma booted_pure:
  assumes "line_live (e_dev e)" "booted e k0 P k" "\<And>s. P s \<Longrightarrow> P' ((f s)\<lparr>con := []\<rparr>)"
    and "\<And>s. paging.truncate (f s) = paging.truncate s"
  shows "ends (booted e k0 P') (on_system e (pure f) k)"
proof -
  let ?s = "(system_of k)\<lparr>con := []\<rparr>"
  have "mem (f ?s) = mem ?s \<and> cr0 (f ?s) = cr0 ?s \<and> cr3 (f ?s) = cr3 ?s \<and> tlb (f ?s) = tlb ?s \<and> frames (f ?s) = frames ?s \<and>
      current_directory (f ?s) = current_directory ?s \<and> kernel_directory (f ?s) = kernel_directory ?s"
    using assms(4) [of ?s] by (simp add: paging.defs)
  then show ?thesis
    using assms(2,3) by (intro booted_system [OF assms(1,2), of "pure f" "f ?s"]) (simp_all add: pure_def booted_def)
qed

text \<open>The processes: the directories are cleared, and the kernel is the only process.\<close>

lemma process_init_placed:
  assumes placed: "memory_placed e (k_mem k)" and n: "next_pid (k_sys k) \<noteq> 0xFFFFFFFF"
    and d: "directories_placed e (process_page_directories (k_sys k))"
  shows "\<exists>s m. process_init ((system_of k)\<lparr>con := []\<rparr>) = Inr s \<and> mem s = m \<and> memory_placed e ((k_mem k)\<lparr>mem := m\<rparr>) \<and>
    cr0 s = cr0 (k_mem k) \<and> cr3 s = cr3 (k_mem k) \<and> tlb s = tlb (k_mem k) \<and> frames s = frames (k_mem k) \<and>
    current_directory s = current_directory (k_mem k) \<and> kernel_directory s = kernel_directory (k_mem k) \<and>
    table_ok {} [0] s \<and> scheduler_enabled s \<and> idt s = idt (k_sys k) \<and> syscall_table s = syscall_table (k_sys k)"
proof -
  let ?s = "(system_of k)\<lparr>con := []\<rparr>" and ?m = "k_mem k"
  let ?s1 = "?s\<lparr>process_table := replicate 16 zero_process\<rparr>"
  let ?T = "table_frames ?m \<union> heap_frames ?m" and ?d = "process_page_directories (k_sys k)"
  have tr: "translate (?s1\<lparr>mem := m\<rparr>) v = Some v" if "\<forall>x. frm x \<in> ?T \<longrightarrow> m x = mem ?s1 x" "frm v < 4096" for m v
  proof -
    have "memory_placed e (?m\<lparr>mem := m\<rparr>)" by (rule memory_placed_elsewhere [OF placed]) (use that(1) in auto)
    from placed_translate [OF this that(2)] show ?thesis
      by (subst translate_cong [of _ "?m\<lparr>mem := m\<rparr>"]) simp_all
  qed
  have "\<exists>m'. memset_paging ?d 0 0x10000 (?s1\<lparr>mem := mem ?s1\<rparr>) = Inr (?s1\<lparr>mem := m'\<rparr>) \<and> (\<forall>x. frm x \<in> ?T \<longrightarrow> m' x = mem ?s1 x)"
    using d by (intro memset_identity [OF tr]) (auto simp: directories_placed_def dest: directories_apart [OF placed d])
  moreover have "?s1\<lparr>mem := mem ?s1\<rparr> = ?s1" by (cases "system_of k") simp
  ultimately obtain m' where m': "clear_directories ?s1 = Inr (?s1\<lparr>mem := m'\<rparr>)" "\<forall>x. frm x \<in> ?T \<longrightarrow> m' x = mem ?m x"
    by (auto simp: clear_directories_def simp del: system_fields(1)) (simp add: system_fields(1))
  have n': "next_pid ?s \<noteq> 0xFFFFFFFF" using n by simp
  obtain tb where pi: "process_init ?s = Inr (?s\<lparr>mem := m', kernel_process := Some 0, next_pid := next_pid ?s + 1,
      process_table := tb, process_head := Some 0, current_process := Some 0, scheduler_cursor := Some 0,
      scheduler_enabled := True, pending_scheduler_ticks := 0, total_scheduler_ticks := 0, total_context_switches := 0,
      scheduler_context := zero_context\<rparr>)" (is "_ = Inr ?s2")
    using process_init_returns [OF m'(1) n'] by blast
  have "table_ok {} [0] ?s2" using process_init_ok [OF n'] by (simp add: pi)
  moreover have "memory_placed e (?m\<lparr>mem := m'\<rparr>)" by (rule memory_placed_elsewhere [OF placed]) (use m'(2) in blast)
  ultimately show ?thesis unfolding pi by simp
qed

definition processes_ready :: "env \<Rightarrow> kernel \<Rightarrow> shsys \<Rightarrow> bool" where
  "processes_ready e k s \<longleftrightarrow> table_ok {} [0] s \<and> scheduler_enabled s \<and> syscall_table s = syscall_table (k_sys k) \<and>
     idt s = idt (timer_init (e_dev e) 50 (k_sys k)) \<and> pit_frequency s = 50"

lemma table_ok_other:
  "table_ok X L s \<Longrightarrow> process_table s' = process_table s \<Longrightarrow> process_head s' = process_head s \<Longrightarrow>
   kernel_process s' = kernel_process s \<Longrightarrow> next_pid s' = next_pid s \<Longrightarrow> scheduler_cursor s' = scheduler_cursor s \<Longrightarrow>
   current_process s' = current_process s \<Longrightarrow> table_ok X L s'"
  by (rule table_ok_fields, assumption) (auto dest: table_okD(8,9,11))

lemma ends_boot_processes:
  assumes live: "line_live (e_dev e)" and t: "term_ok (k_term k)" and placed: "memory_placed e (k_mem k)"
    and d: "directories_placed e (process_page_directories (k_sys k))" and n: "next_pid (k_sys k) \<noteq> 0xFFFFFFFF"
  shows "ends (booted e k (processes_ready e k)) (boot_processes e k)"
proof -
  let ?P = "\<lambda>s :: shsys. table_ok {} [0] s \<and> scheduler_enabled s \<and> idt s = idt (k_sys k) \<and> syscall_table s = syscall_table (k_sys k)"
  have b: "booted e k (\<lambda>s. s = (system_of k)\<lparr>con := []\<rparr>) k" using t placed by (simp add: booted_def)
  have S: "next_pid (k_sys x) = next_pid (k_sys k) \<and> process_page_directories (k_sys x) = process_page_directories (k_sys k) \<and>
      idt (k_sys x) = idt (k_sys k) \<and> syscall_table (k_sys x) = syscall_table (k_sys k)"
    if "(system_of x)\<lparr>con := []\<rparr> = (system_of k)\<lparr>con := []\<rparr>" for x
    using arg_cong [OF that, of next_pid] arg_cong [OF that, of process_page_directories] arg_cong [OF that, of idt]
      arg_cong [OF that, of syscall_table] by simp
  have 1: "ends (booted e k ?P) (on_system e process_init x)" if x: "booted e k (\<lambda>s. s = (system_of k)\<lparr>con := []\<rparr>) x" for x
  proof -
    note sx = S [of x]
    obtain s where s: "process_init ((system_of x)\<lparr>con := []\<rparr>) = Inr s" "memory_placed e ((k_mem x)\<lparr>mem := mem s\<rparr>)"
        "cr0 s = cr0 (k_mem x)" "cr3 s = cr3 (k_mem x)" "tlb s = tlb (k_mem x)" "frames s = frames (k_mem x)"
        "current_directory s = current_directory (k_mem x)" "kernel_directory s = kernel_directory (k_mem x)" "?P s"
      using process_init_placed [of e x] x sx d n by (auto simp: booted_def)
    have "table_ok {} [0] (s\<lparr>con := []\<rparr>)" by (rule table_ok_other [where s = s]) (use s(9) in simp_all)
    then have "?P (s\<lparr>con := []\<rparr>)" using s(9) by simp
    then show ?thesis using s(2) by (intro booted_system [where f = process_init, OF live x s(1)]) (simp_all add: s(3-8))
  qed
  have 2: "ends (booted e k ?P) (on_system e (pure scheduler_init) x)" if "booted e k ?P x" for x
  proof (rule booted_pure [OF live that])
    fix s :: shsys assume s: "?P s"
    then have t: "table_ok {} [0] s" by simp
    have "table_ok {} [0] ((scheduler_init s)\<lparr>con := []\<rparr>)"
      by (rule table_ok_fields [OF t]) (use table_okD(5,9) [OF t] table_okD(11) [OF t] in \<open>simp_all add: scheduler_init_def\<close>)
    then show "?P ((scheduler_init s)\<lparr>con := []\<rparr>)" using s by (simp add: scheduler_init_def)
  qed (simp add: scheduler_init_def paging.defs)
  have 3: "ends (booted e k (processes_ready e k)) (on_system e (pure (timer_init (e_dev e) 50)) x)" if "booted e k ?P x" for x
  proof (rule booted_pure [OF live that])
    fix s :: shsys assume s: "?P s"
    let ?t = "(timer_init (e_dev e) 50 s)\<lparr>con := []\<rparr>"
    have "table_ok {} [0] ?t"
      by (rule table_ok_other [where s = s]) (use s in \<open>simp_all add: timer_init_def Let_def\<close>)
    then show "processes_ready e k ?t" using s by (simp add: processes_ready_def timer_init_def Let_def)
  qed (simp add: timer_init_def Let_def paging.defs)
  show ?thesis
    unfolding boot_processes_def
    by (rule ends_bind [OF booted_tell [OF live b]], rule ends_bind [OF 1], assumption,
        (rule ends_bind [OF booted_tell [OF live]], assumption)+, rule ends_bind [OF 2], assumption,
        rule ends_bind [OF 3], assumption, rule ends_bind [OF booted_tell [OF live]], assumption,
        rule booted_tell [OF live], assumption)
qed

section \<open>Input\<close>

lemma kernel_stack_prints:
  fixes s :: "'a vmsys_scheme"
  assumes "memory_placed e s" "unat esp' + 64 \<le> 0x1000000"
  shows "\<exists>c. print_kernel_stack lo hi esp' ebp' s = Inr (s\<lparr>con := c\<rparr>)"
proof -
  have r: "reads (say x s) esp' 64 (\<lambda>n. mem s (esp' + word_of_nat n))" for x
  proof -
    have "translate (say x s) (esp' + word_of_nat n) = Some (esp' + word_of_nat n)" if "n < 64" for n
    proof -
      have "unat (esp' + word_of_nat n) = unat esp' + n"
        using assms(2) that by (simp add: unat_add_exact unat_word_of_nat_u32)
      then have "frm (esp' + word_of_nat n) < 4096" using assms(2) that by (simp add: frm_def)
      from placed_translate [OF assms(1) this] show ?thesis
        by (subst translate_cong [of _ s]) (simp_all add: say_def terminal_print_def)
    qed
    then show ?thesis by (simp add: reads_def vload8_def say_def terminal_print_def)
  qed
  have "\<exists>c. print_stack_dump esp' 64 (say x s) = Inr (s\<lparr>con := c\<rparr>)" for x
    using dump_from [OF r, where k = 0, of x] by (auto simp: print_stack_dump_def say_def terminal_print_def)
  then show ?thesis
    by (simp add: print_kernel_stack_def Let_def say_twice)
qed

lemma start_keyboard_returns:
  assumes "buffer_drains (e_dev e)"
  shows "\<exists>n. start_keyboard e k = Inr (k\<lparr>k_kbd := (k_kbd k)\<lparr>keyboard_head := 0, keyboard_tail := 0\<rparr>,
    k_sys := on_idt (\<lambda>i. pic_clear_mask (e_dev e) 2 (pic_clear_mask (e_dev e) 1
      (idt_register_handler IRQ1_VECTOR (Some Keyboard_Interrupt) (i\<lparr>port_reads := n\<rparr>)))) (k_sys k)\<rparr>)"
proof -
  obtain n where n: "drain_keyboard (e_dev e) (idt (k_sys k)) = Some ((idt (k_sys k))\<lparr>port_reads := n\<rparr>)"
    using drain_returns [OF assms] by blast
  then show ?thesis
    by (cases "k_kbd k") (auto simp: start_keyboard_def init_keyboard_def Let_def kbdsys.defs kbdio.defs on_idt_def of_walk_def)
qed

definition input_ready :: "kernel \<Rightarrow> kernel \<Rightarrow> bool" where
  "input_ready k k' \<longleftrightarrow> term_ok (k_term k') \<and> k_sig k' = k_sig k \<and> k_gdt k' = k_gdt k \<and> g_multiboot_info k' = g_multiboot_info k \<and>
     (k_mem k')\<lparr>con := []\<rparr> = (k_mem k)\<lparr>con := []\<rparr> \<and>
     (k_kbd k')\<lparr>sg_cpu := sg_cpu (k_kbd k)\<rparr> = (k_kbd k)\<lparr>keyboard_head := 0, keyboard_tail := 0\<rparr> \<and>
     (k_sys k')\<lparr>pcpu := pcpu (k_sys k), idt := idt (k_sys k)\<rparr> = k_sys k \<and> interrupts_enabled (idt (k_sys k')) \<and>
     interrupt_handlers (idt (k_sys k')) = (interrupt_handlers (idt (k_sys k)))[33 := Some Keyboard_Interrupt]"

lemma ends_boot_input:
  assumes live: "line_live (e_dev e)" and t: "term_ok (k_term k)" and placed: "memory_placed e (k_mem k)"
    and d: "buffer_drains (e_dev e)" and sp: "unat (esp (e_regs e)) + 64 \<le> 0x1000000"
  shows "ends (input_ready k) (boot_input e k)"
proof -
  have p: "memory_placed e ((k_mem k)\<lparr>con := []\<rparr>)" using placed by simp
  obtain c where c: "print_kernel_stack (e_stack_bottom e) (e_stack_top e) (esp (e_regs e)) (ebp (e_regs e)) ((k_mem k)\<lparr>con := []\<rparr>) =
      Inr ((k_mem k)\<lparr>con := c\<rparr>)"
    using kernel_stack_prints [OF p sp] by fastforce
  have flag: "term_ok (interrupts_enable t)" if "term_ok t" for t :: "kernel_callback panicsys"
  proof -
    have "screen_ok u (interrupts_enable t) = screen_ok u t" for u
      by (simp add: interrupts_enable_def screen_ok_def holds_def blank_def display_start_def)
    then show ?thesis using that by (simp add: term_ok_def)
  qed
  have on: "interrupts_enabled (interrupts_enable i)" for i :: idtsys
  proof -
    have "bit ((eflags i OR EFLAGS_IF) AND EFLAGS_IF) 9" by (simp add: bit_simps)
    then show ?thesis by (auto simp: interrupts_enabled_def interrupts_enable_def read_eflags_def)
  qed
  have h: "interrupt_handlers (interrupts_enable i) = interrupt_handlers i" for i :: idtsys
    by (simp add: interrupts_enable_def)
  obtain n where n: "start_keyboard e x = Inr (x\<lparr>k_kbd := (k_kbd x)\<lparr>keyboard_head := 0, keyboard_tail := 0\<rparr>,
    k_sys := on_idt (\<lambda>i. pic_clear_mask (e_dev e) 2 (pic_clear_mask (e_dev e) 1
      (idt_register_handler IRQ1_VECTOR (Some Keyboard_Interrupt) (i\<lparr>port_reads := n (x)\<rparr>)))) (k_sys x)\<rparr>)" for x
    using start_keyboard_returns [OF d] by metis
  show ?thesis
    unfolding boot_input_def Let_def
    by (rule ends_tell [OF live] ends_memory [OF live] ends_last_tell [OF live] | (simp add: t c n; fail) |
        (subst n, subst obind_simps) | (simp add: flag enable_interrupts_def; fail) |
        (simp add: input_ready_def enable_interrupts_def flag on h on_idt_def idt_register_handler_def; fail))+
qed

section \<open>Start-up\<close>

text \<open>
  The state the boot loader hands over: the tables have their C sizes, the queue of signals and the
  keyboard's ring can be used, the memory map gives frames that leave room for the image and the
  heap, and the page directories and the stack lie where the linker puts them.
\<close>

definition loaded :: "env \<Rightarrow> multiboot_info \<Rightarrow> kernel \<Rightarrow> bool" where
  "loaded e mbi k \<longleftrightarrow> length (scroll_buffer (k_term k)) = 16000 \<and> length (vga_memory (k_term k)) = 2000 \<and>
     length (idt_entries (idt (k_sys k))) = 256 \<and> length (interrupt_handlers (idt (k_sys k))) = 256 \<and>
     length (pending_signals (k_kbd k)) = 64 \<and> length (keyboard_buffer (k_kbd k)) = 256 \<and>
     directories_placed e (process_page_directories (k_sys k)) \<and> next_pid (k_sys k) = 1 \<and>
     unat (esp (e_regs e)) + 64 \<le> 0x1000000 \<and>
     (\<exists>p. pmm_init (e_kernel_start e) (e_kernel_end e) (e_mmap e) mbi = Some p \<and>
        memory_layout (e_kpd e) (e_kpt e) (e_kernel_end e) ((k_mem k)\<lparr>frames := p\<rparr>))"

text \<open>What start-up achieves.\<close>

definition running :: "multiboot_info \<Rightarrow> kernel \<Rightarrow> bool" where
  "running mbi k \<longleftrightarrow> vm_rep (k_mem k) [] \<and> table_ok {} [0] (system_of k) \<and> scheduler_enabled (k_sys k) \<and>
     interrupt_handlers (idt (k_sys k)) =
       (replicate 256 None)[128 := Some Syscall_Handler, 32 := Some Timer_Interrupt, 33 := Some Keyboard_Interrupt] \<and>
     interrupts_enabled (idt (k_sys k)) \<and> keyboard_inv (k_kbd k) \<and> keyboard_items (k_kbd k) = [] \<and>
     Signals.signal_items (k_kbd k) = [] \<and> signal_handlers (k_kbd k) = replicate 32 None \<and>
     segs (k_gdt k) = \<lparr>seg_cs = 0x08, seg_ds = 0x10, seg_es = 0x10, seg_fs = 0x10, seg_gs = 0x10, seg_ss = 0x18\<rparr> \<and>
     (\<exists>t. screen_ok t (k_term k)) \<and> get_multiboot_info k = Some mbi"

lemma input_ready_running:
  assumes "memory_placed e (k_mem k)" "table_ok {} [0] (system_of k)" "scheduler_enabled (k_sys k)"
    and "interrupt_handlers (idt (k_sys k)) = (replicate 256 None)[128 := Some Syscall_Handler, 32 := Some Timer_Interrupt]"
    and "k_kbd k = signals_init b" "length (pending_signals b) = 64" "length (keyboard_buffer b) = 256"
    and "segs (k_gdt k) = \<lparr>seg_cs = 0x08, seg_ds = 0x10, seg_es = 0x10, seg_fs = 0x10, seg_gs = 0x10, seg_ss = 0x18\<rparr>"
    and "g_multiboot_info k = Some mbi" "input_ready k k'"
  shows "running mbi k'"
proof -
  note r = assms(10) [unfolded input_ready_def]
  have m: "vm_rep (k_mem k') []"
    using r assms(1) vm_rep_con [where s = "k_mem k'" and c = "[]"] vm_rep_con [where s = "k_mem k" and c = "[]"] by (simp add: memory_placed_def)
  have e: "(k_sys k')\<lparr>pcpu := pcpu (k_sys k), idt := idt (k_sys k)\<rparr> = k_sys k" using r by blast
  have s: "table_ok {} [0] (system_of k')"
    using arg_cong [OF e, of process_table] arg_cong [OF e, of process_head] arg_cong [OF e, of kernel_process]
      arg_cong [OF e, of next_pid] arg_cong [OF e, of scheduler_cursor] arg_cong [OF e, of current_process]
    by (intro table_ok_other [OF assms(2)]) (simp_all add: system_of_eq)
  have "(k_kbd k')\<lparr>sg_cpu := sg_cpu (k_kbd k)\<rparr> = (k_kbd k)\<lparr>keyboard_head := 0, keyboard_tail := 0\<rparr>" (is "?b = ?c")
    using r by blast
  note f = arg_cong [OF this]
  have "keyboard_inv (k_kbd k') = keyboard_inv ?c" "keyboard_items (k_kbd k') = keyboard_items ?c"
      "Signals.signal_items (k_kbd k') = Signals.signal_items ?c" "signal_handlers (k_kbd k') = signal_handlers ?c"
    using f [of keyboard_inv] f [of keyboard_items] f [of Signals.signal_items] f [of signal_handlers]
    by (simp_all add: keyboard_inv_def signals_inv_def keyboard_items_def Signals.signal_items_def)
  moreover have "keyboard_inv ?c" "keyboard_items ?c = []" "Signals.signal_items ?c = []" "signal_handlers ?c = replicate 32 None"
    using assms(5-7)
    by (simp_all add: keyboard_inv_def signals_inv_def keyboard_items_def Signals.signal_items_def signals_init_def ring_items_def ring_count_def)
  moreover have "scheduler_enabled (k_sys k')" using arg_cong [OF e, of scheduler_enabled] assms(3) by simp
  ultimately show ?thesis
    using r m s assms(4,8,9)
    by (simp add: running_def term_ok_def get_multiboot_info_def)
qed

text \<open>From the started allocators on.\<close>

lemma boot_tail:
  assumes live: "line_live (e_dev e)" and drains: "buffer_drains (e_dev e)" and l: "loaded e mbi k0"
    and k: "term_ok (k_term k)" "memory_placed e (k_mem k)" "k_kbd k = signals_init (k_kbd k0)" "k_gdt k = k_gdt (load_gdt k0)"
      "g_multiboot_info k = Some mbi"
    and sys: "k_sys k = syscall_init (on_idt (idt_init (e_dev e) (e_stubs e) (e_isr128 e) (e_idt e)) (k_sys k0))"
  shows "ends (running mbi) (obind (boot_processes e k) (boot_input e))"
proof -
  note f = l [unfolded loaded_def]
  have d: "directories_placed e (process_page_directories (k_sys k))" "next_pid (k_sys k) \<noteq> 0xFFFFFFFF"
    using f by (simp_all add: sys syscall_init_def on_idt_def)
  have gdt: "segs (k_gdt (load_gdt k0)) = \<lparr>seg_cs = 0x08, seg_ds = 0x10, seg_es = 0x10, seg_fs = 0x10, seg_gs = 0x10, seg_ss = 0x18\<rparr>"
    by (simp add: load_gdt_def Let_def init_gdt_def)
  have h: "interrupt_handlers (idt (timer_init (e_dev e) 50 (k_sys k))) =
      (replicate 256 None)[128 := Some Syscall_Handler, 32 := Some Timer_Interrupt]"
    using wire_handlers [of "k_sys k0" "e_dev e" "e_stubs e" "e_isr128 e" "e_idt e"] f by (simp add: wire_def sys)
  show ?thesis
  proof (rule ends_bind [OF ends_boot_processes [OF live k(1,2) d]], goal_cases)
    case (1 k')
    then have k': "term_ok (k_term k')" "memory_placed e (k_mem k')" "processes_ready e k ((system_of k')\<lparr>con := []\<rparr>)"
        "k_kbd k' = signals_init (k_kbd k0)" "k_gdt k' = k_gdt (load_gdt k0)" "g_multiboot_info k' = Some mbi"
      using k by (simp_all add: booted_def)
    have "table_ok {} [0] (system_of k')"
      by (rule table_ok_other [where s = "(system_of k')\<lparr>con := []\<rparr>"]) (use k'(3) in \<open>simp_all add: processes_ready_def\<close>)
    moreover have "scheduler_enabled (k_sys k')" "idt (k_sys k') = idt (timer_init (e_dev e) 50 (k_sys k))"
      using k'(3) by (simp_all add: processes_ready_def system_of_eq)
    ultimately show ?case
      using k' gdt f h
      by (intro ends_mono [OF ends_boot_input [OF live k'(1,2) drains]])
        (auto intro!: input_ready_running [where k = k' and b = "k_kbd k0"])
  qed
qed

lemma boot_steps:
  assumes live: "line_live (e_dev e)" and drains: "buffer_drains (e_dev e)" and l: "loaded e mbi k"
    and k1: "term_ok t" "k1 = (load_gdt k)\<lparr>k_term := t, g_multiboot_info := Some mbi\<rparr>"
  shows "ends (running mbi) (obind (boot_interrupts e k1) (\<lambda>k.
    obind (boot_memory e mbi k) (\<lambda>k. obind (boot_processes e k) (boot_input e))))"
proof -
  obtain p where p: "pmm_init (e_kernel_start e) (e_kernel_end e) (e_mmap e) mbi = Some p"
      "memory_layout (e_kpd e) (e_kpt e) (e_kernel_end e) ((k_mem k)\<lparr>frames := p\<rparr>)" using l by (auto simp: loaded_def)
  have g: "k_sys (load_gdt k) = k_sys k" "k_kbd (load_gdt k) = k_kbd k" by (simp_all add: load_gdt_def Let_def)
  have t: "term_ok (k_term k1)" using k1 by simp
  show ?thesis
  proof (rule ends_bind [OF ends_boot_interrupts [OF live t]], elim exE conjE, goal_cases)
    case (1 k2 t2)
    then have t2: "term_ok (k_term k2)" by simp
    have lay: "memory_layout (e_kpd e) (e_kpt e) (e_kernel_end e) ((k_mem k2)\<lparr>frames := p\<rparr>)"
      using p(2) 1(2) k1(2) by (simp add: load_gdt_def Let_def memory_layout_def paging_off_def)
    show ?case
    proof (rule ends_bind [OF ends_boot_memory [OF live t2 p(1) lay]], goal_cases)
      case (1 k3)
      then show ?case
        using \<open>k2 = _\<close> k1(2) g by (intro boot_tail [OF live drains l]) simp_all
    qed
  qed
qed


text \<open>A machine of 16 MiB without a memory map, the image from 1 MiB to 0x130000.\<close>

definition boot_env :: env where
  "boot_env = \<lparr>e_dev = ready_line, e_signal = (\<lambda>f sig v x s. s), e_syscall = (\<lambda>f a b c d s. Inr (0, s)),
     e_handler = (\<lambda>h r s. Inr (r, s)), e_user = (\<lambda>f i sig v s. s), e_process = (\<lambda>i s. Inr s), e_context = zero_context,
     e_regs = no_registers\<lparr>esp := 0x12F000\<rparr>, e_kernel_start = 0x100000, e_kernel_end = 0x130000, e_kpd = 0x120000,
     e_kpt = 0x121000, e_stubs = replicate 48 0x100600, e_isr128 = 0x100700, e_idt = 0x126000,
     e_stack_bottom = 0x12C000, e_stack_top = 0x130000, e_mmap = (\<lambda>_. \<lparr>mm_size = 0, addr_low = 0, addr_high = 0, len_low = 0, len_high = 0, mm_type = 0\<rparr>)\<rparr>"

definition boot_info :: multiboot_info where
  "boot_info = \<lparr>mb_flags = 0, mem_upper = 0, mmap_length = 0, mmap_addr = 0\<rparr>"

definition boot_kernel :: kernel where
  "boot_kernel = \<lparr>k_mem = vmsys.extend blank_vm \<lparr>last_alloc = 0, last_alloc_size = 0\<rparr>, k_sys = system_demo\<lparr>next_pid := 1\<rparr>,
     k_kbd = \<lparr>sg_cpu = \<lparr>eflags = 0, port_out = []\<rparr>, signal_handlers = [],
       pending_signals = replicate 64 \<lparr>ps_signal = 0, ps_value = 0, ps_context = 0\<rparr>, signal_head = 0, signal_tail = 0,
       keyboard_buffer = replicate 256 0, keyboard_head = 0, keyboard_tail = 0, shift_held = False, extended_prefix = False\<rparr>,
     k_sig = \<lparr>sg_cpu = \<lparr>eflags = 0, port_out = []\<rparr>, signal_handlers = [], pending_signals = [], signal_head = 0, signal_tail = 0,
       sg_con = [], shell_signal_handler_installed = False, shell_last_signal = 0, shell_last_signal_value = 0, shell_signal_count = 0\<rparr>,
     k_gdt = blank_gdt,
     k_term = terminal.extend blank_terminal
       (panicsys.fields \<lparr>valid = False, has_registers = False, saved_stack_pointer = 0, saved_stack_size = 0,
          register_snapshot = zero_registers, stack_snapshot = replicate 128 0\<rparr>
        \<lparr>sg_cpu = \<lparr>eflags = 0, port_out = []\<rparr>, signal_handlers = replicate 32 None,
         pending_signals = replicate 64 \<lparr>ps_signal = 0, ps_value = 0, ps_context = 0\<rparr>, signal_head = 0, signal_tail = 0\<rparr>),
     g_multiboot_info = None\<rparr>"

lemma boot_memory_layout:
  "\<exists>p. pmm_init 0x100000 0x130000 m boot_info = Some p \<and> memory_layout 0x120000 0x121000 0x130000 ((k_mem boot_kernel)\<lparr>frames := p\<rparr>)"
proof -
  obtain p where p: "pmm_init 0x100000 0x130000 m boot_info = Some p" by (simp add: pmm_init_def boot_info_def Let_def)
  obtain q where q: "pmm_inv q" "unat (total_frames q) = unat (pmm_init_total_memory boot_info) div 4096"
      "p = pmm_mark_region_used 0x130000 0x10000
        (pmm_mark_region_used 0x100000 (0x130000 - 0x100000) (pmm_mark_region_used 0 0x100000 q))"
    by (rule pmm_init_cases [OF p])
  have tot: "unat (total_frames p) = 4096"
    using q by (simp add: pmm_mark_region_used_effect(1,2) pmm_init_total_memory_def boot_info_def)
  have used: "pmm_inv p" "n < 304 \<Longrightarrow> n \<in> used_set p" for n
    using pmm_init_reserves [OF p] tot by (auto simp: reserved_frames_def)
  have "cr0 (k_mem boot_kernel) = 0" by (simp add: boot_kernel_def blank_vm_def vmsys.defs)
  then show ?thesis
    using p tot used by (auto simp: memory_layout_def paging_off_def image_layout_def low_page_def pmm_ok_def)
qed

lemma boot_loaded: "loaded boot_env boot_info boot_kernel"
proof -
  have s: "process_page_directories (k_sys boot_kernel) = 0x110000" "next_pid (k_sys boot_kernel) = 1" "idt (k_sys boot_kernel) = blank_idt"
    by (simp_all add: boot_kernel_def system_demo_def shell_demo_def only_kernel_def blank_machine_def procsys.defs shproc.defs)
  have "directories_placed boot_env 0x110000"
    by (simp add: directories_placed_def boot_env_def image_layout_def low_page_def)
  moreover have "length (idt_entries blank_idt) = 256" "length (interrupt_handlers blank_idt) = 256" by (simp_all add: blank_idt_def)
  moreover have "length (scroll_buffer (k_term boot_kernel)) = 16000" "length (vga_memory (k_term boot_kernel)) = 2000"
      "length (pending_signals (k_kbd boot_kernel)) = 64" "length (keyboard_buffer (k_kbd boot_kernel)) = 256"
    by (simp_all add: boot_kernel_def terminal.defs blank_terminal_def)
  moreover have "unat (esp (e_regs boot_env)) + 64 \<le> 0x1000000" by (simp add: boot_env_def)
  ultimately show ?thesis
    using boot_memory_layout [of "e_mmap boot_env"] unfolding loaded_def s by (simp add: boot_env_def)
qed


end
