(* ===== verification/Spec2Isabelle.thy ===== *)
theory Spec2Isabelle
  imports PMM_Boot Keyboard Heap_Spec Syscall_Spec Timer_Spec Terminal_Spec Gdt Format Memory_Reports
    Kernel_Boot
begin

text \<open>
  Verification of the KFS kernel, a 32-bit x86 kernel in C (\<open>kernel/src\<close>, \<open>kernel/include\<close>).

  \<^bold>\<open>The program.\<close> \<open>boot.asm\<close> enters \<open>kernel_main\<close> (\<open>main.c\<close>), which sets up the segments (\<open>gdt.c\<close>), the
  terminal, the interrupt table (\<open>idt.c\<close>), signals, the keyboard, the timer and the system calls,
  then physical memory (\<open>pmm.c\<close>), paging (\<open>paging.c\<close>), the kernel heap (\<open>kmalloc.c\<close>), the virtual
  allocator (\<open>vmalloc.c\<close>) and processes (\<open>process.c\<close>), and runs the shell (\<open>shell.c\<close>). Interrupts reach the
  C code through \<open>idt_handle_interrupt\<close>; the timer interrupt ticks the scheduler, vector 0x80 enters
  \<open>syscall_dispatch\<close>, the keyboard interrupt queues characters. The heap takes and maps
  frames of the physical memory manager; the virtual allocator is a client of the heap, of
  paging and of the frame allocator; processes own address spaces made by paging.

  \<^bold>\<open>State.\<close> Every component's static variables are a record. The memory components share
  \<open>machine\<close> (\<open>Machine\<close>): physical memory as bytes, the paging registers, the frame allocator's state, the
  console. \<open>heapsys\<close>, \<open>vmsys\<close>, \<open>shmem\<close> (heap, virtual allocator, shell commands) and \<open>procsys\<close>,
  \<open>syssys\<close>, \<open>timersys\<close> (processes, system calls, timer) extend it. Headers of heap blocks and
  descriptors of regions are bytes of that memory, directories and page tables are entries in it, and an
  access of the kernel to a virtual address walks the tables. Machine integers are words of their
  width, so overflow wraps as in the code. A panic, a page fault and a walk that does not end
  are outcomes.

  \<^bold>\<open>Theories.\<close>
  \<^item> \<open>Kernel_Prelude\<close>: widths, alignment, \<open>foldr\<close>/\<open>nth\<close>/word lemmas shared by all.
    \<open>Ring_Buffer\<close>: the items a ring denotes and the locale of a bounded queue, interpreted by the
    kernel signals, the keyboard ring, the signals of a process and its socket.
  \<^item> \<open>Cpu_IO\<close> (\<open>io.h\<close>: EFLAGS, port writes), \<open>Serial\<close> (\<open>serial.c\<close>, port reads).
  \<^item> \<open>PMM\<close>, \<open>PMM_Boot\<close> (\<open>pmm.c\<close>, \<open>multiboot.h\<close>): the used count is the number of set bits in every
    reachable state, allocation is first fit, allocation and release are inverse.
  \<^item> \<open>Machine\<close>, \<open>Paging\<close>, \<open>Paging_Spec\<close> (\<open>paging.c\<close>): the walk of the processor; what initialisation,
    mapping, unmapping, copying and switching do to every translation.
  \<^item> \<open>Kmalloc\<close>, \<open>Heap_Spec\<close>, \<open>Heap_Frame\<close>, \<open>Heap_Dump\<close> (\<open>kmalloc.c\<close>): the chain of blocks is an abstract
    list, \<open>kmalloc\<close> is first fit with splitting on it, \<open>kfree\<close> releases and coalesces; what an
    operation leaves unchanged.
  \<^item> \<open>Vmalloc\<close>, \<open>Vm_Pages\<close>, \<open>Vmalloc_Spec\<close>, \<open>Vmalloc_Claims\<close> (\<open>vmalloc.c\<close>): regions of pages with frames of
    their own; the invariant from start-up on, the effect of \<open>vmalloc\<close> and \<open>vfree\<close>, their round trip.
  \<^item> \<open>Process\<close>, \<open>Process_Signals\<close>, \<open>Scheduler\<close> (\<open>process.c\<close>), \<open>Process_Spec\<close>, \<open>Process_Table\<close>,
    \<open>Process_Life\<close>, \<open>Process_Claims\<close>: lists of slots, the table invariant kept by every
    operation, fair scheduling, signals, sockets, permissions, termination of the walks.
  \<^item> \<open>Syscall\<close>, \<open>Syscall_Spec\<close> (\<open>syscall.c\<close>), \<open>Interrupts\<close>, \<open>Interrupts_Spec\<close> (\<open>idt.c\<close>), \<open>Timer\<close>, \<open>Timer_Spec\<close>
    (\<open>timer.c\<close>), \<open>Gdt\<close> (\<open>gdt.c\<close>), \<open>Signals\<close> (\<open>signals.c\<close>), \<open>Keyboard\<close> (\<open>keyboard.c\<close>).
  \<^item> \<open>Terminal\<close>, \<open>Terminal_Spec\<close> (\<open>main.c\<close>, \<open>vga.h\<close>): the buffer refines a text, the screen shows it.
    \<open>Format\<close> (\<open>main.c\<close>, \<open>shell.c\<close>): numbers and strings.
  \<^item> \<open>Panic\<close> (\<open>panic.c\<close>): the saved context, the page and the report of a panic, the halt with
    interrupts off; warnings.
  \<^item> \<open>Keyboard_Boot\<close> (\<open>keyboard.c\<close>): \<open>init_keyboard\<close> returns with an empty controller, and a key event
    goes through the interrupt table to the ring and is acknowledged.
  \<^item> \<open>Shell_Memory\<close>, \<open>Shell_Tests\<close>, \<open>Shell_Tests_Spec\<close>, \<open>Memory_Reports\<close>, \<open>Memory_Dump\<close> (\<open>shell.c\<close>, \<open>main.c\<close>):
    the memory commands, the self tests, which pass and give back what they take, and the dumps of
    memory and of the stack, which show the bytes there are.
  \<^item> \<open>Demo_Process\<close>, \<open>Shell_Process\<close> (\<open>process.c\<close>, \<open>shell.c\<close>): the demonstration processes and the process
    commands, none of which leaves the table ill-formed.
  \<^item> \<open>Shell_System\<close> (\<open>shell.c\<close>): the commands on interrupts, signals, system calls and segments, the
    exception tests, and the choice of the command for a line, equal to a lookup in a table of names.
  \<^item> \<open>Kernel\<close> (\<open>shell.c\<close>, \<open>main.c\<close>): all records joined, polling with the interrupts that arrive, line
    input, the loop of the shell and \<open>kernel_main\<close>. \<open>Kernel_Boot\<close>: start-up ends in a state where every
    invariant above holds.

  \<^bold>\<open>Joined state.\<close> In \<open>kernel\<close> the memory parts of \<open>k_sys\<close> are those of \<open>k_mem\<close> and the signal parts of
  \<open>k_sig\<close> those of \<open>k_kbd\<close>: \<open>on_system\<close> and \<open>on_signals\<close> take them over before an operation and give them back
  after it. Processor flags and the trace of port writes are kept once per group of devices, so that
  each component's record stands alone; \<open>enable_interrupts\<close> sets the flag in all copies. The text
  a command prints is collected in its record and written to the terminal after the command.

  \<^bold>\<open>Parameters.\<close> Code that is not C of this repository is an argument: the devices' answers to port reads
  (\<open>device\<close>), signal handlers, system call handlers and interrupt handlers at addresses the sources do
  not name, what a process runs between two switches, the register values assembly hands over,
  the addresses the linker assigns, and the boot loader's memory map. In \<open>Kernel\<close> they are the record
  \<open>env\<close>. Properties name what they ask of them: a line that becomes ready (\<open>line_live\<close>), a keyboard controller that runs
  empty (\<open>buffer_drains\<close>), handlers that keep the process table; each such property has an instance with concrete functions.

  \<^bold>\<open>Loops.\<close> Walks over linked lists in memory and waits for a device are \<open>partial_function (option)\<close>:
  \<open>None\<close> is a loop that does not end, and the properties show that a value is returned. Loops with a
  counter are total. Polling is recursion on the list of the interrupts that arrive before each pass;
  \<open>Inr None\<close> is a kernel that still waits when the list ends. No other fuel is used.

  \<^bold>\<open>Bounds.\<close> The virtual allocator and start-up are shown for frames below 16 MiB, the memory the kernel
  maps to itself: page tables and headers are reached through that mapping. A frame beyond it faults
  in the model as on the machine. \<open>translate\<close> reads the tables on every access; the translation cache
  is recorded where the code flushes it and not used to answer.

  \<^bold>\<open>Not modelled.\<close> \<open>boot.asm\<close>, \<open>interrupts.asm\<close>, \<open>process_switch.asm\<close> and the linker script are not C; their effect on
  the C code enters as parameters (the stubs' addresses, the saved registers, what a process does when switched to,
  the symbols). The makefile, the image script and the emulator tests are not part of the kernel.
\<close>

end
